(* ===== verification/Prelude.thy ===== *)
theory Prelude
  imports Main
begin

section \<open>Shared vocabulary, automation and lemmas\<close>

text \<open>
  What every component theory uses: results of fallible Python code, counting in lists that are
  updated by index, Python's \<open>str\<close> operations, and the two interfaces that several components
  provide (an invariant-preserving machine, a bounded admission gate).

  Two string types occur. Identifiers, environment variables, profile fields and protocol tags are
  \<^typ>\<open>string\<close> (their ASCII content is what the code compares). User text, which the code slices
  and measures by code point, is \<open>ustr\<close>, a list of Unicode code points.
\<close>

named_theorems inv_intros \<open>preservation of a component's invariant by one of its operations\<close>
named_theorems comp_defs \<open>definitions that are unfolded when one operation is examined\<close>

subsection \<open>Fallible results\<close>

type_synonym ('e, 'a) res = "'e + 'a"

abbreviation raise_err :: "'e \<Rightarrow> ('e, 'a) res" where
  "raise_err e \<equiv> Inl e"

abbreviation ok :: "'a \<Rightarrow> ('e, 'a) res" where
  "ok a \<equiv> Inr a"

definition bind_res :: "('e, 'a) res \<Rightarrow> ('a \<Rightarrow> ('e, 'b) res) \<Rightarrow> ('e, 'b) res" where
  "bind_res r f = (case r of Inl e \<Rightarrow> Inl e | Inr a \<Rightarrow> f a)"

lemma bind_res_simps [simp]:
  "bind_res (Inl e) f = Inl e"
  "bind_res (Inr a) f = f a"
  by (simp_all add: bind_res_def)

lemma bind_res_eq_Inr:
  "bind_res r f = Inr b \<longleftrightarrow> (\<exists>a. r = Inr a \<and> f a = Inr b)"
  by (cases r) auto

lemma bind_res_eq_Inl:
  "bind_res r f = Inl e \<longleftrightarrow> r = Inl e \<or> (\<exists>a. r = Inr a \<and> f a = Inl e)"
  by (cases r) auto

definition is_ok :: "('e, 'a) res \<Rightarrow> bool" where
  "is_ok r = (case r of Inl _ \<Rightarrow> False | Inr _ \<Rightarrow> True)"

lemma is_ok_simps [simp]: "\<not> is_ok (Inl e)" "is_ok (Inr a)"
  by (simp_all add: is_ok_def)

lemma is_okE: "is_ok r \<Longrightarrow> (\<And>a. r = Inr a \<Longrightarrow> thesis) \<Longrightarrow> thesis"
  by (cases r) auto

subsection \<open>Counting in a list that is updated by index\<close>

definition count_where :: "('a \<Rightarrow> bool) \<Rightarrow> 'a list \<Rightarrow> nat" where
  "count_where P xs = length (filter P xs)"

lemma count_where_simps [simp]:
  "count_where P [] = 0"
  "count_where P (x # xs) = (if P x then Suc (count_where P xs) else count_where P xs)"
  "count_where P (xs @ ys) = count_where P xs + count_where P ys"
  by (simp_all add: count_where_def)

lemma count_where_update:
  "i < length xs \<Longrightarrow>
   count_where P (xs[i := v]) + (if P (xs ! i) then 1 else 0) =
   count_where P xs + (if P v then 1 else 0)"
proof (induction xs arbitrary: i)
  case Nil
  then show ?case by simp
next
  case (Cons x xs)
  then show ?case by (cases i) auto
qed

lemma count_where_pos:
  assumes "i < length xs" and "P (xs ! i)"
  shows "0 < count_where P xs"
proof -
  have "xs ! i \<in> set (filter P xs)" using assms by simp
  then show ?thesis unfolding count_where_def by (metis length_pos_if_in_set)
qed

lemma count_where_0_iff: "count_where P xs = 0 \<longleftrightarrow> (\<forall>i < length xs. \<not> P (xs ! i))"
  by (simp add: count_where_def filter_empty_conv all_set_conv_all_nth)

lemma count_where_le_length: "count_where P xs \<le> length xs"
  by (simp add: count_where_def)

subsection \<open>ASCII strings: lower, strip, substring, int\<close>

definition ascii_lower_char :: "char \<Rightarrow> char" where
  "ascii_lower_char c =
     (if 65 \<le> (of_char c :: nat) \<and> (of_char c :: nat) \<le> 90
      then char_of ((of_char c :: nat) + 32) else c)"

definition str_lower :: "string \<Rightarrow> string" where
  "str_lower s = map ascii_lower_char s"

definition ascii_space :: "char \<Rightarrow> bool" where
  "ascii_space c = ((of_char c :: nat) \<in> {9, 10, 11, 12, 13, 28, 29, 30, 31, 32})"

definition str_strip :: "string \<Rightarrow> string" where
  "str_strip s = rev (dropWhile ascii_space (rev (dropWhile ascii_space s)))"

fun starts_with :: "'a list \<Rightarrow> 'a list \<Rightarrow> bool" where
  "starts_with [] ys = True"
| "starts_with (x # xs) [] = False"
| "starts_with (x # xs) (y # ys) = (x = y \<and> starts_with xs ys)"

text \<open>\<open>contains_str pat s\<close> is Python's \<open>pat in s\<close>.\<close>

fun contains_str :: "'a list \<Rightarrow> 'a list \<Rightarrow> bool" where
  "contains_str pat [] = (pat = [])"
| "contains_str pat (y # ys) = (starts_with pat (y # ys) \<or> contains_str pat ys)"

lemma starts_with_iff: "starts_with xs ys \<longleftrightarrow> (\<exists>zs. ys = xs @ zs)"
  by (induction xs ys rule: starts_with.induct) auto

lemma contains_str_iff: "contains_str pat s \<longleftrightarrow> (\<exists>as bs. s = as @ pat @ bs)"
proof (induction s)
  case Nil
  then show ?case by auto
next
  case (Cons y ys)
  show ?case
  proof
    assume "contains_str pat (y # ys)"
    then consider "starts_with pat (y # ys)" | "contains_str pat ys" by auto
    then show "\<exists>as bs. y # ys = as @ pat @ bs"
    proof cases
      case 1
      then show ?thesis by (metis append_Nil starts_with_iff)
    next
      case 2
      with Cons.IH show ?thesis by (metis append_Cons)
    qed
  next
    assume "\<exists>as bs. y # ys = as @ pat @ bs"
    then obtain as bs where eq: "y # ys = as @ pat @ bs" by blast
    show "contains_str pat (y # ys)"
    proof (cases as)
      case Nil
      with eq have "starts_with pat (y # ys)" by (auto simp: starts_with_iff)
      then show ?thesis by simp
    next
      case (Cons a as')
      with eq Cons.IH show ?thesis by auto
    qed
  qed
qed

definition is_digit_char :: "char \<Rightarrow> bool" where
  "is_digit_char c = (48 \<le> (of_char c :: nat) \<and> (of_char c :: nat) \<le> 57)"

fun py_digits :: "nat \<Rightarrow> bool \<Rightarrow> string \<Rightarrow> nat option" where
  "py_digits acc prev [] = (if prev then Some acc else None)"
| "py_digits acc prev (c # cs) =
     (if is_digit_char c then py_digits (10 * acc + (of_char c - 48)) True cs
      else if c = CHR ''_'' \<and> prev then py_digits acc False cs
      else None)"

text \<open>
  \<open>int(s)\<close> for ASCII text: surrounding whitespace, one sign, digits with single underscores
  between them; \<^const>\<open>None\<close> where Python raises \<open>ValueError\<close>.
\<close>

definition py_int :: "string \<Rightarrow> int option" where
  "py_int s =
     (case str_strip s of
        [] \<Rightarrow> None
      | c # cs \<Rightarrow>
          if c = CHR ''-'' then map_option (\<lambda>n. - int n) (py_digits 0 False cs)
          else if c = CHR ''+'' then map_option int (py_digits 0 False cs)
          else map_option int (py_digits 0 False (c # cs)))"

fun nat_str :: "nat \<Rightarrow> string" where
  "nat_str n = (if n < 10 then [char_of (48 + n)] else nat_str (n div 10) @ [char_of (48 + n mod 10)])"

declare nat_str.simps [simp del]

definition int_str :: "int \<Rightarrow> string" where
  "int_str i = (if i < 0 then ''-'' @ nat_str (nat (- i)) else nat_str (nat i))"

text \<open>\<open>int\<close> undoes \<open>str\<close>.\<close>

lemma digit_char: "d < 10 \<Longrightarrow> is_digit_char (char_of (48 + d)) \<and> (of_char (char_of (48 + d)) :: nat) = 48 + d"
  by (simp add: is_digit_char_def)

lemma digit_char_of:
  assumes "d < (10 :: nat)"
  shows "is_digit_char (char_of (48 + d))" "(of_char (char_of (48 + d) :: char) :: nat) = 48 + d"
  using digit_char [OF assms] by simp_all

lemma nat_str_digits: "list_all is_digit_char (nat_str n) \<and> nat_str n \<noteq> []"
proof (induction n rule: nat_str.induct)
  case (1 n)
  show ?case
  proof (cases "n < 10")
    case True
    then have "nat_str n = [char_of (48 + n)]" by (simp add: nat_str.simps)
    then show ?thesis using digit_char_of [OF True] by simp
  next
    case False
    have "n mod 10 < 10" by simp
    with 1 False show ?thesis by (subst (1 2) nat_str.simps) (simp add: digit_char_of)
  qed
qed

lemma py_digits_nat_str:
  "py_digits acc b (nat_str n @ rest) = py_digits (acc * 10 ^ length (nat_str n) + n) True rest"
proof (induction n arbitrary: acc b rest rule: nat_str.induct)
  case (1 n)
  show ?case
  proof (cases "n < 10")
    case True
    then have "nat_str n = [char_of (48 + n)]" by (simp add: nat_str.simps)
    then show ?thesis using digit_char_of [OF True] by (simp add: algebra_simps)
  next
    case False
    have m: "n mod 10 < 10" by simp
    from False have n: "nat_str n = nat_str (n div 10) @ [char_of (48 + n mod 10)]" by (subst nat_str.simps) simp
    have "py_digits acc b (nat_str n @ rest) =
        py_digits (acc * 10 ^ length (nat_str (n div 10)) + n div 10) True (char_of (48 + n mod 10) # rest)"
      using 1 [OF False, of acc b "char_of (48 + n mod 10) # rest"] by (simp add: n)
    also have "\<dots> = py_digits (10 * (acc * 10 ^ length (nat_str (n div 10)) + n div 10) + n mod 10) True rest"
      using digit_char_of [OF m] by simp
    also have "10 * (acc * 10 ^ length (nat_str (n div 10)) + n div 10) + n mod 10 = acc * 10 ^ length (nat_str n) + n"
      by (simp add: n algebra_simps)
    finally show ?thesis .
  qed
qed

lemma digit_not_space: "is_digit_char c \<Longrightarrow> \<not> ascii_space c"
  by (auto simp: is_digit_char_def ascii_space_def)

lemma str_strip_inner:
  assumes "s \<noteq> []" and "\<not> ascii_space (hd s)" and "\<not> ascii_space (last s)"
  shows "str_strip s = s"
proof -
  have "dropWhile ascii_space s = s" using assms by (cases s) simp_all
  moreover have "dropWhile ascii_space (rev s) = rev s" using assms by (cases s rule: rev_cases) simp_all
  ultimately show ?thesis by (simp add: str_strip_def)
qed

lemma py_int_int_str [simp]: "py_int (int_str n) = Some n"
proof -
  have d: "list_all is_digit_char (nat_str k)" "nat_str k \<noteq> []" for k using nat_str_digits by auto
  have ends: "is_digit_char (hd (nat_str k))" "is_digit_char (last (nat_str k))" for k
    using d [of k] by (simp_all add: list_all_iff)
  have minus: "\<not> ascii_space CHR ''-''" by (simp add: ascii_space_def)
  have nn: "py_digits 0 False (nat_str k) = Some k" for k
    using py_digits_nat_str [of 0 False k "[]"] by simp
  have sgn: "\<not> is_digit_char CHR ''-''" "\<not> is_digit_char CHR ''+''" by (simp_all add: is_digit_char_def)
  show ?thesis
  proof (cases "n < 0")
    case True
    then have s: "str_strip (int_str n) = int_str n"
      using d(2) ends minus by (intro str_strip_inner) (auto simp: int_str_def digit_not_space)
    show ?thesis using True nn [of "nat (- n)"] unfolding py_int_def s by (simp add: int_str_def)
  next
    case False
    then have s: "str_strip (int_str n) = int_str n"
      using d(2) ends by (intro str_strip_inner) (auto simp: int_str_def digit_not_space)
    obtain c cs where c: "nat_str (nat n) = c # cs" using d(2) by (cases "nat_str (nat n)") auto
    then have "c \<noteq> CHR ''-''" "c \<noteq> CHR ''+''" using ends(1) [of "nat n"] sgn by auto
    with False nn [of "nat n"] c show ?thesis unfolding py_int_def s by (simp add: int_str_def)
  qed
qed

lemma int_str_inject [simp]: "int_str a = int_str b \<longleftrightarrow> a = b"
  by (metis option.inject py_int_int_str)

lemma str_strip_idem [simp]: "str_strip (str_strip s) = str_strip s"
proof -
  let ?t = "dropWhile ascii_space s"
  have t: "str_strip s = rev (dropWhile ascii_space (rev ?t))" by (simp add: str_strip_def)
  show ?thesis
  proof (cases "str_strip s = []")
    case False
    obtain ps where "rev ?t = ps @ dropWhile ascii_space (rev ?t)" by (metis takeWhile_dropWhile_id)
    then have "?t = str_strip s @ rev ps" unfolding t by (metis rev_append rev_rev_ident)
    then have "hd (str_strip s) = hd ?t" "?t \<noteq> []" using False by (metis hd_append2, auto)
    then have "\<not> ascii_space (hd (str_strip s))" by (metis hd_dropWhile)
    moreover have "\<not> ascii_space (last (str_strip s))"
      using False unfolding t by (metis hd_dropWhile last_rev rev_is_Nil_conv)
    ultimately show ?thesis using False by (rule str_strip_inner [rotated])
  next
    case True
    then show ?thesis by (simp only: True) (simp add: str_strip_def)
  qed
qed

text \<open>Scalar values of a decoded profile or of a \<open>dict\<close> field, and Python's \<open>str\<close> and \<open>bool\<close> of them.\<close>

datatype scalar = SNone | SBool bool | SInt int | SStr string

fun py_str :: "scalar \<Rightarrow> string" where
  "py_str SNone = ''None''"
| "py_str (SBool b) = (if b then ''True'' else ''False'')"
| "py_str (SInt i) = int_str i"
| "py_str (SStr s) = s"

fun truthy_val :: "scalar \<Rightarrow> bool" where
  "truthy_val SNone = False"
| "truthy_val (SBool b) = b"
| "truthy_val (SInt i) = (i \<noteq> 0)"
| "truthy_val (SStr s) = (s \<noteq> '''')"

text \<open>\<open>d.get(k)\<close>, and \<open>str(d.get(k) or '')\<close>.\<close>

definition get_field :: "(string \<rightharpoonup> scalar) \<Rightarrow> string \<Rightarrow> scalar" where
  "get_field d k = (case d k of None \<Rightarrow> SNone | Some v \<Rightarrow> v)"

definition get_str_or_empty :: "(string \<rightharpoonup> scalar) \<Rightarrow> string \<Rightarrow> string" where
  "get_str_or_empty d k = (if truthy_val (get_field d k) then py_str (get_field d k) else '''')"

text \<open>\<open>env.get(k, '')\<close> for a string environment.\<close>

definition env_get :: "(string \<rightharpoonup> string) \<Rightarrow> string \<Rightarrow> string" where
  "env_get e k = (case e k of None \<Rightarrow> '''' | Some v \<Rightarrow> v)"

text \<open>\<^verbatim>\<open>server/core/env_helpers.py\<close>: \<open>truthy\<close>.\<close>

definition truthy :: "string \<Rightarrow> bool" where
  "truthy v = (str_lower (str_strip v) \<in> {''1'', ''true'', ''yes'', ''on''})"

subsection \<open>Unicode text as code points\<close>

type_synonym ustr = "int list"

text \<open>The code points for which \<open>str.isspace\<close> holds, which \<open>str.strip\<close> removes.\<close>

definition u_space :: "int \<Rightarrow> bool" where
  "u_space c = (c \<in> {9, 10, 11, 12, 13, 28, 29, 30, 31, 32, 133, 160, 5760, 8192, 8193, 8194, 8195,
     8196, 8197, 8198, 8199, 8200, 8201, 8202, 8232, 8233, 8239, 8287, 12288})"

definition u_lstrip :: "ustr \<Rightarrow> ustr" where
  "u_lstrip s = dropWhile u_space s"

definition u_rstrip :: "ustr \<Rightarrow> ustr" where
  "u_rstrip s = rev (dropWhile u_space (rev s))"

definition u_strip :: "ustr \<Rightarrow> ustr" where
  "u_strip s = u_rstrip (u_lstrip s)"

definition no_space :: "ustr \<Rightarrow> ustr" where
  "no_space s = filter (\<lambda>c. \<not> u_space c) s"

lemma no_space_simps [simp]:
  "no_space [] = []"
  "no_space (s @ t) = no_space s @ no_space t"
  by (simp_all add: no_space_def)

lemma filter_dropWhile: "filter (\<lambda>c. \<not> P c) (dropWhile P s) = filter (\<lambda>c. \<not> P c) s"
  by (induction s) auto

lemma no_space_strip [simp]:
  "no_space (u_lstrip s) = no_space s"
  "no_space (u_rstrip s) = no_space s"
  "no_space (u_strip s) = no_space s"
  unfolding no_space_def u_strip_def u_lstrip_def u_rstrip_def
  by (simp_all add: filter_dropWhile rev_filter [symmetric])

lemma length_lstrip_le: "length (u_lstrip s) \<le> length s"
  by (simp add: u_lstrip_def length_dropWhile_le)

lemma length_rstrip_le: "length (u_rstrip s) \<le> length s"
  using length_dropWhile_le [of u_space "rev s"] by (simp add: u_rstrip_def)

lemma length_strip_le: "length (u_strip s) \<le> length s"
  unfolding u_strip_def using length_rstrip_le length_lstrip_le le_trans by blast

lemma u_strip_Nil [simp]: "u_strip [] = []" "u_lstrip [] = []" "u_rstrip [] = []"
  by (simp_all add: u_strip_def u_lstrip_def u_rstrip_def)

lemma u_rstrip_empty_iff: "u_rstrip s = [] \<longleftrightarrow> (\<forall>c \<in> set s. u_space c)"
  by (simp add: u_rstrip_def dropWhile_eq_Nil_conv)

lemma u_lstrip_empty_iff: "u_lstrip s = [] \<longleftrightarrow> (\<forall>c \<in> set s. u_space c)"
  by (simp add: u_lstrip_def dropWhile_eq_Nil_conv)

lemma u_strip_empty_iff: "u_strip s = [] \<longleftrightarrow> (\<forall>c \<in> set s. u_space c)"
proof -
  have "u_strip s = [] \<longleftrightarrow> (\<forall>c \<in> set (u_lstrip s). u_space c)"
    by (simp add: u_strip_def u_rstrip_empty_iff)
  also have "\<dots> \<longleftrightarrow> u_lstrip s = []"
  proof (cases "u_lstrip s")
    case Nil
    then show ?thesis by simp
  next
    case (Cons a as)
    then have "\<not> u_space a"
      unfolding u_lstrip_def by (metis dropWhile_eq_Cons_conv)
    with Cons show ?thesis by simp
  qed
  finally show ?thesis by (simp add: u_lstrip_empty_iff)
qed

subsection \<open>Interface: a machine that keeps an invariant\<close>

text \<open>
  A component whose operations are events of a total step function. Its client is the code that
  calls the operations in any order; the law is that each of them keeps the invariant.
\<close>

locale inv_machine =
  fixes step :: "'s \<Rightarrow> 'e \<Rightarrow> 's"
    and inv :: "'s \<Rightarrow> bool"
  assumes step_inv: "inv s \<Longrightarrow> inv (step s e)"
begin

lemma run_inv: "inv s \<Longrightarrow> inv (foldl step s es)"
  by (induction es arbitrary: s) (auto intro: step_inv)

lemma run_mono:
  assumes mono: "\<And>s e. inv s \<Longrightarrow> (f s :: nat) \<le> f (step s e)"
  shows "inv s \<Longrightarrow> f s \<le> f (foldl step s es)"
proof (induction es arbitrary: s)
  case Nil
  then show ?case by simp
next
  case (Cons e es)
  from Cons.prems have "f s \<le> f (step s e)" by (rule mono)
  also have "\<dots> \<le> f (foldl step (step s e) es)"
    by (rule Cons.IH) (rule step_inv, rule Cons.prems)
  finally show ?case by simp
qed

lemma run_const:
  assumes const: "\<And>s e. inv s \<Longrightarrow> f (step s e) = f s"
  shows "inv s \<Longrightarrow> f (foldl step s es) = f s"
proof (induction es arbitrary: s)
  case Nil
  then show ?case by simp
next
  case (Cons e es)
  then show ?case using step_inv [of s e] const [of s e] by simp
qed

end

text \<open>
  An invariant-keeping machine that rations a resource: in every state the units in use are within
  the capacity, which never changes.
\<close>

locale admission = inv_machine +
  fixes used :: "'s \<Rightarrow> nat"
    and capacity :: "'s \<Rightarrow> nat"
  assumes used_le: "inv s \<Longrightarrow> used s \<le> capacity s"
    and capacity_const: "inv s \<Longrightarrow> capacity (step s e) = capacity s"
begin

lemma run_used_le: "inv s \<Longrightarrow> used (foldl step s es) \<le> capacity s"
  using used_le [OF run_inv] run_const [where f = capacity, OF capacity_const] by metis

end

end
