(* ===== verification/Metrics.thy ===== *)
theory Metrics
  imports Prelude
begin

section \<open>Metrics: shadow counters and their gauges\<close>

text \<open>
  \<^verbatim>\<open>server/core/metrics.py\<close>. The module keeps shadow integers, which the readiness probe reads,
  and mirrors them into Prometheus collectors. The Prometheus client is a library outside the
  repository: a gauge is the last value written to it, a counter the number of increments, and the
  argument \<open>boom\<close> of an operation says whether the client call raises. The shadow integer is
  updated before that call, so it moves even then.
\<close>

record metrics =
  sessions_active :: int
  sessions_rejected :: "string \<Rightarrow> nat"
  auth_rejected :: "string \<Rightarrow> nat"
  active_ws :: int
  g_sessions_active :: int
  g_active_ws :: int
  g_backend_state :: "string \<times> string \<Rightarrow> int"
  c_reload :: "string \<Rightarrow> nat"
  g_queue_depth :: "string \<Rightarrow> int"

definition metrics_init :: metrics where
  "metrics_init = \<lparr>sessions_active = 0, sessions_rejected = (\<lambda>_. 0), auth_rejected = (\<lambda>_. 0),
     active_ws = 0, g_sessions_active = 0, g_active_ws = 0, g_backend_state = (\<lambda>_. 0),
     c_reload = (\<lambda>_. 0), g_queue_depth = (\<lambda>_. 0)\<rparr>"

text \<open>An operation returns \<^const>\<open>None\<close> for its value when the Prometheus call raised.\<close>

definition inc_sessions_active :: "bool \<Rightarrow> metrics \<Rightarrow> int option \<times> metrics" where
  "inc_sessions_active boom m =
     (let value = sessions_active m + 1; m1 = m\<lparr>sessions_active := value\<rparr>
      in if boom then (None, m1) else (Some value, m1\<lparr>g_sessions_active := value\<rparr>))"

definition dec_sessions_active :: "bool \<Rightarrow> metrics \<Rightarrow> int option \<times> metrics" where
  "dec_sessions_active boom m =
     (let value = (if sessions_active m > 0 then sessions_active m - 1 else sessions_active m);
          m1 = m\<lparr>sessions_active := value\<rparr>
      in if boom then (None, m1) else (Some value, m1\<lparr>g_sessions_active := value\<rparr>))"

definition get_sessions_active :: "metrics \<Rightarrow> int" where
  "get_sessions_active m = sessions_active m"

definition inc_sessions_rejected :: "bool \<Rightarrow> string \<Rightarrow> metrics \<Rightarrow> nat option \<times> metrics" where
  "inc_sessions_rejected boom reason m =
     (let value = sessions_rejected m reason + 1;
          m1 = m\<lparr>sessions_rejected := (sessions_rejected m)(reason := value)\<rparr>
      in (if boom then None else Some value, m1))"

definition get_sessions_rejected :: "metrics \<Rightarrow> string \<Rightarrow> nat" where
  "get_sessions_rejected m reason = sessions_rejected m reason"

definition inc_auth_rejected :: "bool \<Rightarrow> string \<Rightarrow> metrics \<Rightarrow> nat option \<times> metrics" where
  "inc_auth_rejected boom endpoint m =
     (let value = auth_rejected m endpoint + 1;
          m1 = m\<lparr>auth_rejected := (auth_rejected m)(endpoint := value)\<rparr>
      in (if boom then None else Some value, m1))"

definition get_auth_rejected :: "metrics \<Rightarrow> string \<Rightarrow> nat" where
  "get_auth_rejected m endpoint = auth_rejected m endpoint"

definition inc_active_ws_sessions :: "bool \<Rightarrow> metrics \<Rightarrow> int option \<times> metrics" where
  "inc_active_ws_sessions boom m =
     (let value = active_ws m + 1; m1 = m\<lparr>active_ws := value\<rparr>
      in if boom then (None, m1) else (Some value, m1\<lparr>g_active_ws := value\<rparr>))"

definition dec_active_ws_sessions :: "bool \<Rightarrow> metrics \<Rightarrow> int option \<times> metrics" where
  "dec_active_ws_sessions boom m =
     (let value = (if active_ws m > 0 then active_ws m - 1 else active_ws m);
          m1 = m\<lparr>active_ws := value\<rparr>
      in if boom then (None, m1) else (Some value, m1\<lparr>g_active_ws := value\<rparr>))"

subsection \<open>Backend state gauges and reload results\<close>

definition BACKEND_STATES :: "string list" where
  "BACKEND_STATES = [''init'', ''ready'', ''draining'', ''reloading'', ''failed'']"

definition BACKEND_MANAGERS :: "string list" where
  "BACKEND_MANAGERS = [''asr'', ''tts'']"

definition set_backend_state :: "string \<Rightarrow> string \<Rightarrow> int \<Rightarrow> metrics \<Rightarrow> metrics" where
  "set_backend_state manager state value m =
     (if manager \<notin> set BACKEND_MANAGERS then m
      else if state \<notin> set BACKEND_STATES then m
      else m\<lparr>g_backend_state := foldl (\<lambda>g st. g((manager, st) := (if st = state then value else 0)))
               (g_backend_state m) BACKEND_STATES\<rparr>)"

definition record_backend_reload :: "string \<Rightarrow> metrics \<Rightarrow> metrics" where
  "record_backend_reload result m =
     (let r = (if result \<in> {''success'', ''fail'', ''rollback'', ''drain_timeout''} then result
               else ''fail'')
      in m\<lparr>c_reload := (c_reload m)(r := c_reload m r + 1)\<rparr>)"

text \<open>\<open>depth\<close> is an integer here; the code also drops values that \<open>int()\<close> refuses.\<close>

definition set_queue_depth :: "string \<Rightarrow> int \<Rightarrow> metrics \<Rightarrow> metrics" where
  "set_queue_depth queue depth m =
     (let d = (if depth < 0 then 0 else depth); q = (if queue = '''' then ''unknown'' else queue)
      in m\<lparr>g_queue_depth := (g_queue_depth m)(q := d)\<rparr>)"

lemmas metrics_defs = inc_sessions_active_def dec_sessions_active_def inc_sessions_rejected_def
  inc_active_ws_sessions_def dec_active_ws_sessions_def inc_auth_rejected_def Let_def

text \<open>A manager is shown in exactly one state: the selected gauge holds the value, every other 0.\<close>

lemma set_backend_state_one_hot:
  assumes "mgr \<in> set BACKEND_MANAGERS" and "st \<in> set BACKEND_STATES" and "st' \<in> set BACKEND_STATES"
  shows "g_backend_state (set_backend_state mgr st v m) (mgr, st') = (if st' = st then v else 0)"
  using assms by (auto simp: set_backend_state_def BACKEND_STATES_def)

lemma set_backend_state_other_manager:
  "mgr' \<noteq> mgr \<Longrightarrow>
   g_backend_state (set_backend_state mgr st v m) (mgr', st') = g_backend_state m (mgr', st')"
  by (auto simp: set_backend_state_def BACKEND_STATES_def)

end
