(* ===== verification/SessionLimiter.thy ===== *)
theory SessionLimiter
  imports Metrics
begin

section \<open>The process-wide voice-session limiter\<close>

text \<open>
  \<^verbatim>\<open>server/core/session_limiter.py\<close>: \<open>SessionLimiter\<close>, \<open>SessionToken\<close> and the admission helpers.
  A limiter object is the record \<open>limiter\<close>; its tokens are the list \<open>l_toks\<close>, a token being named by
  its position. Each method body runs under the object's lock, so an execution of any number of
  threads is a sequence of the operations below. \<open>l_met\<close> is the metrics module, whose calls may raise
  (\<open>boom\<close>) and are swallowed.
\<close>

record token =
  acquired_at_count :: int
  released :: bool

record limiter =
  l_limit :: int
  l_active :: int
  l_toks :: "token list"
  l_met :: metrics

datatype limiter_error = LimitNotPositive int

definition new_limiter :: "int \<Rightarrow> metrics \<Rightarrow> (limiter_error, limiter) res" where
  "new_limiter limit m =
     (if limit \<le> 0 then Inl (LimitNotPositive limit)
      else Inr \<lparr>l_limit = limit, l_active = 0, l_toks = [], l_met = m\<rparr>)"

definition available :: "limiter \<Rightarrow> int" where
  "available l = max 0 (l_limit l - l_active l)"

definition try_acquire :: "bool \<Rightarrow> limiter \<Rightarrow> nat option \<times> limiter" where
  "try_acquire boom l =
     (if l_active l \<ge> l_limit l then (None, l)
      else
        let current = l_active l + 1;
            m = snd (inc_sessions_active boom (l_met l))
        in (Some (length (l_toks l)),
            l\<lparr>l_active := current,
              l_toks := l_toks l @ [\<lparr>acquired_at_count = current, released = False\<rparr>],
              l_met := m\<rparr>))"

definition release :: "bool \<Rightarrow> nat \<Rightarrow> limiter \<Rightarrow> limiter" where
  "release boom k l =
     (if released (l_toks l ! k) then l
      else l\<lparr>l_toks := (l_toks l)[k := (l_toks l ! k)\<lparr>released := True\<rparr>],
             l_active := (if l_active l > 0 then l_active l - 1 else l_active l),
             l_met := snd (dec_sessions_active boom (l_met l))\<rparr>)"

record snap =
  s_limit :: int
  s_active :: int

definition limiter_snapshot :: "limiter \<Rightarrow> snap" where
  "limiter_snapshot l = \<lparr>s_limit = l_limit l, s_active = l_active l\<rparr>"

subsection \<open>Invariant: active counts the outstanding tokens\<close>

definition outstanding :: "limiter \<Rightarrow> nat" where
  "outstanding l = count_where (\<lambda>t. \<not> released t) (l_toks l)"

definition limiter_inv :: "limiter \<Rightarrow> bool" where
  "limiter_inv l \<longleftrightarrow> 0 < l_limit l \<and> l_active l = int (outstanding l) \<and> l_active l \<le> l_limit l"

text \<open>Calls in any order; a release of a token that was never handed out cannot happen.\<close>

datatype limiter_event = TryAcquire bool | Release bool nat

fun limiter_step :: "limiter \<Rightarrow> limiter_event \<Rightarrow> limiter" where
  "limiter_step l (TryAcquire boom) = snd (try_acquire boom l)"
| "limiter_step l (Release boom k) = (if k < length (l_toks l) then release boom k l else l)"

lemma new_limiter_inv: "new_limiter n m = Inr l \<Longrightarrow> limiter_inv l"
  by (auto simp: new_limiter_def limiter_inv_def outstanding_def split: if_splits)

lemma try_acquire_inv [inv_intros]: "limiter_inv l \<Longrightarrow> limiter_inv (snd (try_acquire boom l))"
  by (auto simp: try_acquire_def limiter_inv_def outstanding_def Let_def)

lemma outstanding_release:
  assumes "k < length (l_toks l)" and "\<not> released (l_toks l ! k)"
  shows "Suc (outstanding (release boom k l)) = outstanding l"
  using assms count_where_update
    [of k "l_toks l" "\<lambda>t. \<not> released t" "(l_toks l ! k)\<lparr>released := True\<rparr>"]
  by (simp add: release_def outstanding_def)

lemma release_inv [inv_intros]:
  assumes "limiter_inv l" and "k < length (l_toks l)"
  shows "limiter_inv (release boom k l)"
proof (cases "released (l_toks l ! k)")
  case True
  with assms show ?thesis by (simp add: release_def)
next
  case False
  then have out: "Suc (outstanding (release boom k l)) = outstanding l"
    using outstanding_release assms by blast
  with assms(1) have "l_active l > 0" by (simp add: limiter_inv_def)
  with False have "l_active (release boom k l) = l_active l - 1"
    and "l_limit (release boom k l) = l_limit l" by (simp_all add: release_def)
  with assms(1) out show ?thesis by (simp add: limiter_inv_def)
qed

lemma limiter_step_inv: "limiter_inv l \<Longrightarrow> limiter_inv (limiter_step l e)"
  by (cases e) (auto intro: inv_intros)

lemma limiter_step_limit: "l_limit (limiter_step l e) = l_limit l"
  by (cases e) (auto simp: try_acquire_def release_def Let_def)

interpretation lim: admission limiter_step limiter_inv outstanding "\<lambda>l. nat (l_limit l)"
  by unfold_locales
    (simp_all only: limiter_step_inv limiter_step_limit, simp add: limiter_inv_def le_nat_iff)

subsection \<open>Tokens are never lost and a release counts once\<close>

lemma limiter_step_toks_length: "length (l_toks l) \<le> length (l_toks (limiter_step l e))"
  by (cases e) (auto simp: try_acquire_def release_def Let_def)

lemma limiter_run_toks_length: "length (l_toks l) \<le> length (l_toks (foldl limiter_step l es))"
proof (induction es arbitrary: l)
  case Nil
  then show ?case by simp
next
  case (Cons e es)
  then show ?case using limiter_step_toks_length [of l e] le_trans by fastforce
qed

lemma release_released: "k < length (l_toks l) \<Longrightarrow> released (l_toks (release boom k l) ! k)"
  by (simp add: release_def)

lemma release_idem: "k < length (l_toks l) \<Longrightarrow> release b k (release boom k l) = release boom k l"
  using release_released [of k l boom] by (simp add: release_def [of b])

lemma released_persists_step:
  "k < length (l_toks l) \<Longrightarrow> released (l_toks l ! k) \<Longrightarrow> released (l_toks (limiter_step l e) ! k)"
  by (cases e) (auto simp: try_acquire_def release_def Let_def nth_append nth_list_update)

lemma released_persists:
  "k < length (l_toks l) \<Longrightarrow> released (l_toks l ! k) \<Longrightarrow>
   released (l_toks (foldl limiter_step l es) ! k)"
proof (induction es arbitrary: l)
  case Nil
  then show ?case by simp
next
  case (Cons e es)
  have "released (l_toks (limiter_step l e) ! k)"
    using Cons.prems by (rule released_persists_step)
  moreover have "k < length (l_toks (limiter_step l e))"
    using Cons.prems(1) limiter_step_toks_length [of l e] by linarith
  ultimately show ?case using Cons.IH by simp
qed

lemma try_acquire_Some_iff: "(\<exists>k. fst (try_acquire boom l) = Some k) \<longleftrightarrow> l_active l < l_limit l"
  by (auto simp: try_acquire_def Let_def)

text \<open>C22: whatever calls are made in whatever order, with metrics raising or not, the number of
  active sessions equals the tokens not yet released, and it is never above the limit.\<close>

theorem limiter_never_exceeds_limit:
  assumes "new_limiter n m = Inr l0"
  shows "l_active (foldl limiter_step l0 es) = int (outstanding (foldl limiter_step l0 es))
       \<and> l_active (foldl limiter_step l0 es) \<le> n"
proof -
  have inv: "limiter_inv l0" using assms by (rule new_limiter_inv)
  have "l_limit (foldl limiter_step l0 es) = l_limit l0"
    by (rule lim.run_const [OF _ inv]) (simp add: limiter_step_limit)
  moreover have "l_limit l0 = n" using assms by (auto simp: new_limiter_def split: if_splits)
  ultimately show ?thesis using lim.run_inv [OF inv, of es] by (simp add: limiter_inv_def)
qed

theorem limiter_never_exceeds_limit_witness:
  "l_active (foldl limiter_step \<lparr>l_limit = 1, l_active = 0, l_toks = [], l_met = metrics_init\<rparr>
     [TryAcquire False, TryAcquire True, Release True 0, Release False 0, TryAcquire False]) \<le> 1"
  using limiter_never_exceeds_limit [of 1 metrics_init
    "\<lparr>l_limit = 1, l_active = 0, l_toks = [], l_met = metrics_init\<rparr>"
    "[TryAcquire False, TryAcquire True, Release True 0, Release False 0, TryAcquire False]"]
  by (simp add: new_limiter_def)

text \<open>Releasing a token any number of times, with any other calls in between, frees its slot
  once: a later release of the same token leaves the limiter as it is.\<close>

theorem token_release_idempotent:
  assumes "k < length (l_toks l)"
  shows "release b k (foldl limiter_step (release boom k l) es)
       = foldl limiter_step (release boom k l) es"
proof -
  have "k < length (l_toks (release boom k l))" using assms by (simp add: release_def)
  then have "released (l_toks (foldl limiter_step (release boom k l) es) ! k)"
    using assms by (intro released_persists) (auto simp: release_released)
  then show ?thesis by (simp add: release_def [of b])
qed

theorem token_release_idempotent_witness:
  "let l = snd (try_acquire False \<lparr>l_limit = 2, l_active = 0, l_toks = [], l_met = metrics_init\<rparr>) in
   release False 0 (foldl limiter_step (release False 0 l) [TryAcquire False])
   = foldl limiter_step (release False 0 l) [TryAcquire False]"
  unfolding Let_def
  by (rule token_release_idempotent) (simp add: try_acquire_def Let_def)

subsection \<open>HTTP and WebSocket admission\<close>

datatype http_exception =
  SessionLimiterUnavailable \<comment> \<open>status 503\<close>
| TooManySessions int int \<comment> \<open>status 429, current, limit; Retry-After 5\<close>

definition http_status :: "http_exception \<Rightarrow> nat" where
  "http_status e = (case e of SessionLimiterUnavailable \<Rightarrow> 503 | TooManySessions _ _ \<Rightarrow> 429)"

datatype ('e, 'a) http_outcome = HttpRejected http_exception | BodyRaised 'e | BodyReturned 'a

text \<open>
  \<open>acquire_http\<close> as a context manager: \<open>body\<close> is the handler, run with the token; it may raise, and
  while it runs other sessions come and go, so it also returns the limiter as it finds it. The
  \<open>finally\<close> clause releases the token on either exit. The global \<open>_limiter\<close> is the option.
\<close>

definition acquire_http ::
  "bool \<Rightarrow> bool \<Rightarrow> bool \<Rightarrow> (nat \<Rightarrow> limiter \<Rightarrow> ('e, 'a) res \<times> limiter) \<Rightarrow> limiter option \<Rightarrow>
   ('e, 'a) http_outcome \<times> limiter option" where
  "acquire_http boom_inc boom_rej boom_dec body g =
     (case g of
        None \<Rightarrow> (HttpRejected SessionLimiterUnavailable, None)
      | Some l \<Rightarrow>
          (case try_acquire boom_inc l of
             (None, l1) \<Rightarrow>
               let sn = limiter_snapshot l1;
                   l2 = l1\<lparr>l_met := snd (inc_sessions_rejected boom_rej ''http'' (l_met l1))\<rparr>
               in (HttpRejected (TooManySessions (s_active sn) (s_limit sn)), Some l2)
           | (Some k, l1) \<Rightarrow>
               (case body k l1 of
                  (Inl e, l2) \<Rightarrow> (BodyRaised e, Some (release boom_dec k l2))
                | (Inr a, l2) \<Rightarrow> (BodyReturned a, Some (release boom_dec k l2)))))"

datatype ws_info = InfoOk | InfoNoLimiter | InfoTooMany snap

definition try_acquire_ws_token :: "bool \<Rightarrow> limiter option \<Rightarrow> nat option \<times> ws_info \<times> limiter option"
where
  "try_acquire_ws_token boom g =
     (case g of
        None \<Rightarrow> (None, InfoNoLimiter, None)
      | Some l \<Rightarrow>
          (case try_acquire boom l of
             (None, l1) \<Rightarrow> (None, InfoTooMany (limiter_snapshot l1), Some l1)
           | (Some k, l1) \<Rightarrow> (Some k, InfoOk, Some l1)))"

text \<open>The close frames sent on the socket: code and, for 4429, the two numbers of the reason.\<close>

datatype ws_close = Close1011 | Close4429 int int

definition close_ws_rejected :: "bool \<Rightarrow> ws_info \<Rightarrow> limiter option \<Rightarrow> ws_close \<times> limiter option" where
  "close_ws_rejected boom info g =
     (case info of
        InfoNoLimiter \<Rightarrow> (Close1011, g)
      | _ \<Rightarrow>
          let sn = (case info of InfoTooMany s \<Rightarrow> s | _ \<Rightarrow> \<lparr>s_limit = 0, s_active = 0\<rparr>)
          in (Close4429 (s_active sn) (s_limit sn),
              map_option (\<lambda>l. l\<lparr>l_met := snd (inc_sessions_rejected boom ''ws'' (l_met l))\<rparr>) g))"

definition try_acquire_ws :: "bool \<Rightarrow> bool \<Rightarrow> limiter option \<Rightarrow>
    nat option \<times> ws_close option \<times> limiter option" where
  "try_acquire_ws boom boom_rej g =
     (case try_acquire_ws_token boom g of
        (Some k, _, g1) \<Rightarrow> (Some k, None, g1)
      | (None, info, g1) \<Rightarrow>
          (case close_ws_rejected boom_rej info g1 of (cl, g2) \<Rightarrow> (None, Some cl, g2)))"

text \<open>An HTTP handler gives its slot back however it ends. If it returns or raises, having run
  with any other sessions acquiring and releasing meanwhile, its token is released in the final
  limiter and the limiter's invariant holds; if it is rejected, the status is 503 or 429 and no
  slot is taken.\<close>

theorem acquire_http_releases:
  assumes "limiter_inv l"
    and "\<And>k l1. \<exists>es. snd (body k l1) = foldl limiter_step l1 es"
  shows "case acquire_http b1 b2 b3 body (Some l) of
           (HttpRejected e, g) \<Rightarrow> http_status e = 429 \<and> l_active l = l_limit l
              \<and> map_option l_active g = Some (l_active l) \<and> map_option l_toks g = Some (l_toks l)
         | (_, g) \<Rightarrow> \<exists>l'. g = Some l' \<and> limiter_inv l' \<and> released (l_toks l' ! length (l_toks l))"
proof (cases "l_active l \<ge> l_limit l")
  case True
  with assms(1) show ?thesis
    by (auto simp: acquire_http_def try_acquire_def http_status_def limiter_inv_def
        limiter_snapshot_def Let_def inc_sessions_rejected_def)
next
  case False
  define k where "k = length (l_toks l)"
  define l1 where "l1 = snd (try_acquire b1 l)"
  have acq: "try_acquire b1 l = (Some k, l1)"
    using False by (auto simp: l1_def k_def try_acquire_def Let_def)
  have inv1: "limiter_inv l1" using assms(1) by (simp add: l1_def try_acquire_inv)
  have k1: "k < length (l_toks l1)"
    using False by (auto simp: l1_def k_def try_acquire_def Let_def)
  obtain es where es: "snd (body k l1) = foldl limiter_step l1 es" using assms(2) by blast
  define l2 where "l2 = snd (body k l1)"
  have inv2: "limiter_inv l2" unfolding l2_def es by (rule lim.run_inv) (rule inv1)
  have k2: "k < length (l_toks l2)"
    unfolding l2_def es using k1 limiter_run_toks_length [of l1 es] by linarith
  have "limiter_inv (release b3 k l2) \<and> released (l_toks (release b3 k l2) ! k)"
    using inv2 k2 by (simp add: release_inv release_released)
  then show ?thesis
    by (cases "body k l1") (auto simp: acquire_http_def acq k_def l2_def split: sum.splits)
qed

theorem acquire_http_releases_witness:
  "\<exists>l'. snd (acquire_http False False False
       (\<lambda>k l. (Inr (), foldl limiter_step l [Release False k] ) :: (unit, unit) res \<times> limiter)
       (Some \<lparr>l_limit = 1, l_active = 0, l_toks = [], l_met = metrics_init\<rparr>)) = Some l'
     \<and> l_active l' = 0"
proof -
  let ?l = "\<lparr>l_limit = 1, l_active = 0, l_toks = [], l_met = metrics_init\<rparr>"
  let ?b = "\<lambda>k l. (Inr (), foldl limiter_step l [Release False k]) :: (unit, unit) res \<times> limiter"
  have "limiter_inv ?l" by (simp add: limiter_inv_def outstanding_def)
  moreover have "\<exists>es. snd (?b k l1) = foldl limiter_step l1 es" for k l1
    by (rule exI [of _ "[Release False k]"]) (simp only: snd_conv)
  ultimately have "case acquire_http False False False ?b (Some ?l) of
           (HttpRejected e, g) \<Rightarrow> http_status e = 429 \<and> l_active ?l = l_limit ?l
              \<and> map_option l_active g = Some (l_active ?l) \<and> map_option l_toks g = Some (l_toks ?l)
         | (_, g) \<Rightarrow> \<exists>l'. g = Some l' \<and> limiter_inv l' \<and> released (l_toks l' ! length (l_toks ?l))"
    by (rule acquire_http_releases)
  then show ?thesis
    by (simp add: acquire_http_def try_acquire_def release_def Let_def)
qed

end
