(* ===== verification/CapabilityResolver.thy ===== *)
theory CapabilityResolver
  imports SessionLimiter
begin

section \<open>Concurrency capabilities and what is resolved from them\<close>

text \<open>
  \<^verbatim>\<open>server/core/concurrency_capability.py\<close>, \<^verbatim>\<open>server/core/capability_resolver.py\<close>, the diarization
  descriptor of \<^verbatim>\<open>server/core/diarization.py\<close> and \<open>resolve_limit\<close> of the session limiter.

  A profile is the decoded JSON object: its scalar fields, the \<open>env\<close> block and the
  \<open>execution_policy\<close> (\<^const>\<open>None\<close> where the value is absent or no mapping). Fields read by these
  functions that hold a list, a float or a nested mapping are outside the model. What comes from the
  \<open>voxedge\<close> package is a parameter: whether a backend module imports and what capability a backend
  declares (\<^const>\<open>None\<close> where the call raises).
\<close>

record ccap =
  supports_parallel :: bool
  max_concurrent :: "int option"
  is_stateful :: bool
  requires_exclusive_device :: bool
  scaling_mode :: string
  vram_mb_per_slot :: "int option"

definition default_cap :: ccap where
  "default_cap = \<lparr>supports_parallel = False, max_concurrent = Some 1, is_stateful = True,
     requires_exclusive_device = True, scaling_mode = ''single_runtime_multiplex'',
     vram_mb_per_slot = None\<rparr>"

record profile =
  p_fields :: "string \<rightharpoonup> scalar"
  p_env :: "(string \<rightharpoonup> scalar) option"
  p_policy :: "(string \<rightharpoonup> scalar) option"

definition empty_profile :: profile where
  "empty_profile = \<lparr>p_fields = Map.empty, p_env = None, p_policy = None\<rparr>"

record voxedge =
  importable :: "string \<Rightarrow> bool"
  spec_cap :: "string \<Rightarrow> string \<Rightarrow> ccap option"
  class_cap :: "string \<Rightarrow> ccap option"
  path_exists :: "string \<Rightarrow> bool"

subsection \<open>Target defaults\<close>

definition TARGET_DEFAULTS :: "string \<rightharpoonup> int" where
  "TARGET_DEFAULTS = [''orin-nx'' \<mapsto> 2, ''orin-nano'' \<mapsto> 1, ''rk'' \<mapsto> 1, ''desktop'' \<mapsto> 4]"

definition UNKNOWN_DEFAULT :: int where
  "UNKNOWN_DEFAULT = 1"

definition target_default :: "string \<Rightarrow> int" where
  "target_default t = (case TARGET_DEFAULTS t of None \<Rightarrow> UNKNOWN_DEFAULT | Some n \<Rightarrow> n)"

definition infer_target :: "(string \<rightharpoonup> string) \<Rightarrow> profile \<Rightarrow> string" where
  "infer_target os_env p =
     (let name = str_lower (get_str_or_empty (p_fields p) ''name'');
          env_block = (case p_env p of None \<Rightarrow> Map.empty | Some e \<Rightarrow> e);
          env_or_os = (\<lambda>k. str_lower
            (let v = get_str_or_empty env_block k in if v \<noteq> '''' then v else env_get os_env k))
      in if contains_str ''orin-nx'' name \<or> contains_str ''orin_nx'' name then ''orin-nx''
         else if contains_str ''orin-nano'' name \<or> contains_str ''orin_nano'' name then ''orin-nano''
         else if contains_str ''rk'' name \<or> contains_str ''rockchip'' name
              \<or> contains_str ''radxa'' name then ''rk''
         else if contains_str ''desktop'' name \<or> contains_str ''ci'' name then ''desktop''
         else if env_or_os ''RK_PLATFORM'' \<noteq> '''' then ''rk''
         else if env_or_os ''LANGUAGE_MODE'' = ''rk'' then ''rk''
         else ''unknown'')"

lemma target_default_pos: "0 < target_default t"
  by (simp add: target_default_def TARGET_DEFAULTS_def UNKNOWN_DEFAULT_def)

subsection \<open>Capability lookup\<close>

definition ASR_REGISTRY :: "string list" where
  "ASR_REGISTRY = [''jetson.trt_edge_llm'', ''jetson.paraformer_trt'', ''jetson.sensevoice_trt'',
     ''cpu.sherpa_asr'', ''rk.asr'', ''hailo.whisper'', ''rk.whisper'', ''jetson.whisper_trt'']"

definition TTS_REGISTRY :: "string list" where
  "TTS_REGISTRY = [''jetson.trt_edge_llm'', ''jetson.matcha_trt'', ''jetson.kokoro_trt'',
     ''jetson.moss_tts_nano'', ''jetson.sparktts'', ''cpu.sherpa'', ''rk.tts'']"

definition in_registry :: "scalar \<Rightarrow> string list \<Rightarrow> bool" where
  "in_registry v reg = (case v of SStr s \<Rightarrow> s \<in> set reg | _ \<Rightarrow> False)"

text \<open>The class found for a profile key, named by its registry spec.\<close>

definition resolve_backend_class ::
  "voxedge \<Rightarrow> profile \<Rightarrow> string \<Rightarrow> string list \<Rightarrow> string option" where
  "resolve_backend_class vx p key registry =
     (let spec = get_field (p_fields p) key
      in if \<not> truthy_val spec \<or> \<not> in_registry spec registry then None
         else let s = py_str spec in if importable vx s then Some s else None)"

definition capability_for ::
  "voxedge \<Rightarrow> string option \<Rightarrow> scalar \<Rightarrow> string \<Rightarrow> ccap" where
  "capability_for vx cls spec kind =
     (case cls of
        None \<Rightarrow> default_cap
      | Some c \<Rightarrow>
          let from_spec = (if truthy_val spec then spec_cap vx (py_str spec) kind else None)
          in (case from_spec of
                Some cap \<Rightarrow> cap
              | None \<Rightarrow> (case class_cap vx c of Some cap \<Rightarrow> cap | None \<Rightarrow> default_cap)))"

definition cap_label :: "string \<Rightarrow> int option \<Rightarrow> string" where
  "cap_label name n = name @ ''='' @ (case n of None \<Rightarrow> ''inf'' | Some k \<Rightarrow> int_str k)"

fun join_with :: "string \<Rightarrow> string list \<Rightarrow> string" where
  "join_with sep [] = ''''"
| "join_with sep [x] = x"
| "join_with sep (x # xs) = x @ sep @ join_with sep xs"

definition finite_caps :: "int option list \<Rightarrow> int list" where
  "finite_caps ns = map the (filter (\<lambda>n. n \<noteq> None) ns)"

definition aggregate_ceiling ::
  "ccap \<Rightarrow> ccap \<Rightarrow> (string \<times> ccap) list option \<Rightarrow> int option \<times> string" where
  "aggregate_ceiling asr tts extra =
     (let items = [(''asr'', max_concurrent asr), (''tts'', max_concurrent tts)]
            @ (case extra of None \<Rightarrow> [] | Some xs \<Rightarrow> map (\<lambda>(l, c). (l, max_concurrent c)) xs);
          label = join_with '','' (map (\<lambda>(name, n). cap_label name n) items);
          finite = finite_caps (map snd items)
      in (if finite \<noteq> [] then Some (Min (set finite)) else None, label))"

definition parallel_ok :: "ccap \<Rightarrow> bool" where
  "parallel_ok cap =
     (if \<not> supports_parallel cap then False
      else case max_concurrent cap of None \<Rightarrow> True | Some n \<Rightarrow> n > 1)"

subsection \<open>Diarization's descriptor\<close>

definition diar_max_concurrent :: "(string \<rightharpoonup> string) \<Rightarrow> int option" where
  "diar_max_concurrent env =
     (case env ''OVS_DIARIZE_MAX_CONCURRENT'' of
        None \<Rightarrow> None
      | Some raw \<Rightarrow>
          (case py_int (str_strip raw) of
             None \<Rightarrow> None
           | Some n \<Rightarrow> if n > 0 then Some n else None))"

definition diarization_capability :: "voxedge \<Rightarrow> profile \<Rightarrow> (string \<rightharpoonup> string) \<Rightarrow> ccap option" where
  "diarization_capability vx p env =
     (let enabled = (truthy (env_get env ''OVS_DIARIZE'')
            \<or> truthy_val (get_field (p_fields p) ''diarize''));
          trt = str_strip (env_get env ''DIAR_CAMPPLUS_ENGINE_FILE'');
          vram = (if trt \<noteq> '''' \<and> path_exists vx trt then 90 else 120)
      in if \<not> enabled then None
         else Some \<lparr>supports_parallel = True, max_concurrent = diar_max_concurrent env,
                    is_stateful = True, requires_exclusive_device = False,
                    scaling_mode = ''per_call_isolated'', vram_mb_per_slot = Some vram\<rparr>)"

subsection \<open>Integers of the configuration\<close>

datatype value_error = NotInteger string | NotPositive string int | Negative string int

definition parse_int_loose :: "string \<Rightarrow> scalar \<Rightarrow> (value_error, int option) res" where
  "parse_int_loose label v =
     (case v of
        SNone \<Rightarrow> Inr None
      | SInt n \<Rightarrow> Inr (Some n)
      | SBool b \<Rightarrow> Inr (Some (if b then 1 else 0))
      | SStr s \<Rightarrow>
          if str_strip s = '''' then Inr None
          else (case py_int (str_strip s) of None \<Rightarrow> Inl (NotInteger label) | Some n \<Rightarrow> Inr (Some n)))"

definition parse_bounded_int ::
  "(int \<Rightarrow> bool) \<Rightarrow> (string \<Rightarrow> int \<Rightarrow> value_error) \<Rightarrow> string \<Rightarrow> scalar \<Rightarrow> (value_error, int option) res"
where
  "parse_bounded_int good err label v =
     (let check = (\<lambda>n. if good n then Inr (Some n) else Inl (err label n))
      in case v of
           SNone \<Rightarrow> Inr None
         | SInt n \<Rightarrow> check n
         | _ \<Rightarrow>
             let s = str_strip (py_str v)
             in if s = '''' then Inr None
                else (case py_int s of None \<Rightarrow> Inl (NotInteger label) | Some n \<Rightarrow> check n))"

definition parse_positive_int :: "string \<Rightarrow> scalar \<Rightarrow> (value_error, int option) res" where
  "parse_positive_int = parse_bounded_int (\<lambda>n. \<not> n \<le> 0) NotPositive"

definition parse_non_negative_int :: "string \<Rightarrow> scalar \<Rightarrow> (value_error, int option) res" where
  "parse_non_negative_int = parse_bounded_int (\<lambda>n. \<not> n < 0) Negative"

definition env_scalar :: "(string \<rightharpoonup> string) \<Rightarrow> string \<Rightarrow> scalar" where
  "env_scalar env k = (case env k of None \<Rightarrow> SNone | Some s \<Rightarrow> SStr s)"

lemma parse_positive_int_pos: "parse_positive_int label v = Inr (Some n) \<Longrightarrow> 0 < n"
  by (auto simp: parse_positive_int_def parse_bounded_int_def Let_def
      split: scalar.splits if_splits option.splits)

lemma parse_non_negative_int_ge: "parse_non_negative_int label v = Inr (Some n) \<Longrightarrow> 0 \<le> n"
  by (auto simp: parse_non_negative_int_def parse_bounded_int_def Let_def
      split: scalar.splits if_splits option.splits)

subsection \<open>The steps of resolve\<close>

definition cross_modal_overlap :: "profile \<Rightarrow> bool" where
  "cross_modal_overlap p =
     (case p_policy p of
        None \<Rightarrow> False
      | Some pol \<Rightarrow> pol ''mode'' = Some (SStr ''concurrent'')
                    \<and> pol ''cross_modal_overlap'' = Some (SBool True))"

definition inactive_cap :: ccap where
  "inactive_cap = \<lparr>supports_parallel = True, max_concurrent = None, is_stateful = False,
     requires_exclusive_device = False, scaling_mode = ''per_call_isolated'',
     vram_mb_per_slot = None\<rparr>"

definition has_backend :: "profile \<Rightarrow> string \<Rightarrow> bool" where
  "has_backend p key = truthy_val (get_field (p_fields p) key)"

definition active_cap :: "voxedge \<Rightarrow> profile \<Rightarrow> string \<Rightarrow> string list \<Rightarrow> string \<Rightarrow> ccap" where
  "active_cap vx p key registry kind =
     (if \<not> has_backend p key then inactive_cap
      else capability_for vx (resolve_backend_class vx p key registry)
             (get_field (p_fields p) key) kind)"

abbreviation asr_cap_of :: "voxedge \<Rightarrow> profile \<Rightarrow> ccap" where
  "asr_cap_of vx p \<equiv> active_cap vx p ''asr_backend'' ASR_REGISTRY ''asr''"

abbreviation tts_cap_of :: "voxedge \<Rightarrow> profile \<Rightarrow> ccap" where
  "tts_cap_of vx p \<equiv> active_cap vx p ''tts_backend'' TTS_REGISTRY ''tts''"

definition cross_modal_ceiling :: "ccap \<Rightarrow> ccap \<Rightarrow> ccap option \<Rightarrow> int option \<times> string" where
  "cross_modal_ceiling asr tts diar =
     (let finite = finite_caps [max_concurrent asr, max_concurrent tts];
          base = (if length finite = 2 then Some (sum_list finite) else None);
          src = ''cross_modal:'' @ cap_label ''asr'' (max_concurrent asr) @ ''+''
                @ cap_label ''tts'' (max_concurrent tts)
      in case map_option max_concurrent diar of
           Some (Some d) \<Rightarrow>
             (Some (case base of None \<Rightarrow> d | Some c \<Rightarrow> min c d), src @ '',diar='' @ int_str d)
         | _ \<Rightarrow> (base, src))"

definition backend_ceiling ::
  "(string \<rightharpoonup> string) \<Rightarrow> profile \<Rightarrow> ccap \<Rightarrow> ccap \<Rightarrow> ccap option \<Rightarrow> int option \<times> string" where
  "backend_ceiling os_env p asr tts diar =
     (let ha = has_backend p ''asr_backend''; ht = has_backend p ''tts_backend''
      in if cross_modal_overlap p \<and> ha \<and> ht then cross_modal_ceiling asr tts diar
         else if ha \<or> ht then aggregate_ceiling asr tts (map_option (\<lambda>d. [(''diar'', d)]) diar)
         else let target = infer_target os_env p
              in (Some (target_default target), ''target_default='' @ target))"

datatype clamp_warning =
  EnvSessionClamped int int
| ProfileSessionClamped int int
| ExecutorClamped string int int
| InferClamped int int

definition clamp_override ::
  "(int \<Rightarrow> int \<Rightarrow> clamp_warning) \<Rightarrow> int option \<Rightarrow> int \<Rightarrow> int \<times> clamp_warning list" where
  "clamp_override w ceiling n =
     (case ceiling of
        Some c \<Rightarrow> if n > c then (c, [w n c]) else (n, [])
      | None \<Rightarrow> (n, []))"

definition session_ceiling_of ::
  "(string \<rightharpoonup> string) \<Rightarrow> (string \<rightharpoonup> string) \<Rightarrow> profile \<Rightarrow> int option \<Rightarrow>
   (value_error, int \<times> clamp_warning list) res" where
  "session_ceiling_of os_env env p ceiling =
     bind_res (parse_positive_int ''OVS_MAX_CONCURRENT_SESSIONS''
                 (env_scalar env ''OVS_MAX_CONCURRENT_SESSIONS'')) (\<lambda>env_session.
     bind_res (parse_positive_int ''profile.max_concurrent_sessions''
                 (get_field (p_fields p) ''max_concurrent_sessions'')) (\<lambda>profile_session.
       Inr (case env_session of
              Some n \<Rightarrow> clamp_override EnvSessionClamped ceiling n
            | None \<Rightarrow>
                (case profile_session of
                   Some n \<Rightarrow> clamp_override ProfileSessionClamped ceiling n
                 | None \<Rightarrow>
                     (case ceiling of
                        None \<Rightarrow> (target_default (infer_target os_env p), [])
                      | Some c \<Rightarrow> (c, []))))))"

definition requested_mode :: "profile \<Rightarrow> string" where
  "requested_mode p =
     (case p_policy p of
        None \<Rightarrow> ''concurrent''
      | Some pol \<Rightarrow> (case pol ''mode'' of None \<Rightarrow> ''concurrent'' | Some v \<Rightarrow> py_str v))"

definition coordinator_mode_of :: "profile \<Rightarrow> ccap \<Rightarrow> ccap \<Rightarrow> string" where
  "coordinator_mode_of p asr tts =
     (let requested = requested_mode p;
          ha = has_backend p ''asr_backend''; ht = has_backend p ''tts_backend''
      in if requested = ''exclusive'' then ''exclusive''
         else if requested = ''concurrent'' \<and> (ha \<or> ht)
                 \<and> \<not> ((parallel_ok asr \<and> parallel_ok tts) \<or> (cross_modal_overlap p \<and> ha \<and> ht))
              then ''serialized''
         else requested)"

definition EXECUTOR_ENVS :: "(string \<times> string) list" where
  "EXECUTOR_ENVS = [(''kokoro'', ''OVS_TTS_STREAM_MAX_WORKERS_KOKORO''),
     (''matcha'', ''OVS_TTS_STREAM_MAX_WORKERS_MATCHA''),
     (''qwen3'', ''OVS_TTS_STREAM_MAX_WORKERS_QWEN3''),
     (''moss'', ''OVS_TTS_STREAM_MAX_WORKERS_MOSS'')]"

definition executor_env :: "(string \<rightharpoonup> string) \<Rightarrow> string \<Rightarrow> (string \<times> string) option" where
  "executor_env env name =
     (case find (\<lambda>(suffix, k). contains_str suffix name \<and> env_get env k \<noteq> '''') EXECUTOR_ENVS of
        Some (_, k) \<Rightarrow> Some (k, env_get env k)
      | None \<Rightarrow>
          let k = ''OVS_TTS_STREAM_MAX_WORKERS''
          in if env_get env k \<noteq> '''' then Some (k, env_get env k) else None)"

definition resolve_executor_max_workers ::
  "ccap \<Rightarrow> string \<Rightarrow> (string \<rightharpoonup> string) \<Rightarrow> int \<times> clamp_warning list" where
  "resolve_executor_max_workers cap backend_name env =
     (case executor_env env (str_lower backend_name) of
        Some (k, s) \<Rightarrow>
          let n = (case py_int s of None \<Rightarrow> 2 | Some i \<Rightarrow> i)
          in (case max_concurrent cap of
                Some c \<Rightarrow> if n > c then (max 1 c, [ExecutorClamped k n c]) else (max 1 n, [])
              | None \<Rightarrow> (max 1 n, []))
      | None \<Rightarrow> (case max_concurrent cap of Some c \<Rightarrow> (max 1 c, []) | None \<Rightarrow> (2, [])))"

definition unlimited_exec_cap :: ccap where
  "unlimited_exec_cap = default_cap\<lparr>max_concurrent := None\<rparr>"

definition infer_concurrency_base :: "ccap \<Rightarrow> int \<Rightarrow> int" where
  "infer_concurrency_base asr session =
     (if supports_parallel asr then
        (case max_concurrent asr of
           Some n \<Rightarrow> if n \<noteq> 0 then n else if session \<noteq> 0 then session else UNKNOWN_DEFAULT
         | None \<Rightarrow> if session \<noteq> 0 then session else UNKNOWN_DEFAULT)
      else 1)"

definition infer_gate_of ::
  "(string \<rightharpoonup> string) \<Rightarrow> ccap \<Rightarrow> int \<Rightarrow> (value_error, int \<times> int option \<times> clamp_warning list) res"
where
  "infer_gate_of env asr session =
     bind_res (parse_positive_int ''OVS_ASR_INFER_CONCURRENCY''
                 (env_scalar env ''OVS_ASR_INFER_CONCURRENCY'')) (\<lambda>env_infer.
       let base = infer_concurrency_base asr session;
           (conc, ws) = (case env_infer of
               Some n \<Rightarrow> if n > base then (base, [InferClamped n base]) else (n, [])
             | None \<Rightarrow> (base, []))
       in bind_res (parse_non_negative_int ''OVS_ASR_INFER_QUEUE_DEPTH''
                      (env_scalar env ''OVS_ASR_INFER_QUEUE_DEPTH'')) (\<lambda>env_depth.
            Inr (conc, Some (case env_depth of Some d \<Rightarrow> d | None \<Rightarrow> max 0 (session - conc)), ws)))"

record resolved =
  r_session_ceiling :: "int option"
  r_executor_max_workers :: int
  r_coordinator_mode :: string
  r_ceiling_source :: string
  r_asr_cap :: ccap
  r_tts_cap :: ccap
  r_clamp_warnings :: "clamp_warning list"
  r_diar_cap :: "ccap option"
  r_asr_infer_concurrency :: int
  r_asr_queue_depth :: "int option"

text \<open>
  The whole of \<open>resolve\<close>. \<open>os_env\<close> is the process environment, \<open>env\<close> the mapping the caller passes
  in its place (the same one where it passes none).
\<close>

definition resolve ::
  "voxedge \<Rightarrow> (string \<rightharpoonup> string) \<Rightarrow> (string \<rightharpoonup> string) \<Rightarrow> profile \<Rightarrow> string \<Rightarrow>
   (value_error, resolved) res" where
  "resolve vx os_env env p tts_backend_name =
     (let asr = asr_cap_of vx p; tts = tts_cap_of vx p; diar = diarization_capability vx p env;
          (ceiling, source) = backend_ceiling os_env p asr tts diar
      in bind_res (session_ceiling_of os_env env p ceiling) (\<lambda>(session, w1).
           let exec_cap = (if in_registry (get_field (p_fields p) ''tts_backend'') TTS_REGISTRY
                           then tts else unlimited_exec_cap);
               (workers, w2) = resolve_executor_max_workers exec_cap tts_backend_name env
           in bind_res (infer_gate_of env asr session) (\<lambda>(conc, depth, w3).
                Inr \<lparr>r_session_ceiling = Some session, r_executor_max_workers = workers,
                     r_coordinator_mode = coordinator_mode_of p asr tts, r_ceiling_source = source,
                     r_asr_cap = asr, r_tts_cap = tts, r_clamp_warnings = w1 @ w2 @ w3,
                     r_diar_cap = diar, r_asr_infer_concurrency = conc,
                     r_asr_queue_depth = depth\<rparr>)))"


text \<open>\<open>resolve_executor_for_tts\<close>: the worker count, the backend name and where the count came from.\<close>

definition resolve_executor_for_tts ::
  "voxedge \<Rightarrow> (string \<rightharpoonup> string) \<Rightarrow> profile \<Rightarrow> string \<Rightarrow> int \<times> string option \<times> string" where
  "resolve_executor_for_tts vx env p tts_backend_name =
     (let name = str_lower tts_backend_name;
          spec = get_field (p_fields p) ''tts_backend'';
          declared = in_registry spec TTS_REGISTRY;
          cap = (if declared
                 then capability_for vx (resolve_backend_class vx p ''tts_backend'' TTS_REGISTRY) spec ''tts''
                 else unlimited_exec_cap);
          workers = fst (resolve_executor_max_workers cap name env);
          source = (case executor_env env name of
              Some (k, _) \<Rightarrow> k
            | None \<Rightarrow> if declared \<and> max_concurrent cap \<noteq> None then ''concurrency_capability''
                      else ''default'')
      in (workers, if name = '''' then None else Some name, source))"

text \<open>
  \<open>resolve_limit\<close> of the session limiter. It parses both overrides with its own, laxer parser
  before it asks the resolver; its last branch falls back to the target table when the resolver
  gives no ceiling.
\<close>

definition resolve_limit ::
  "voxedge \<Rightarrow> (string \<rightharpoonup> string) \<Rightarrow> profile \<Rightarrow> (value_error, int) res" where
  "resolve_limit vx env p =
     bind_res (parse_int_loose ''OVS_MAX_CONCURRENT_SESSIONS''
                 (env_scalar env ''OVS_MAX_CONCURRENT_SESSIONS'')) (\<lambda>_.
     bind_res (parse_int_loose ''profile.max_concurrent_sessions''
                 (get_field (p_fields p) ''max_concurrent_sessions'')) (\<lambda>_.
     bind_res (resolve vx env env p '''') (\<lambda>r.
       Inr (case r_session_ceiling r of
              None \<Rightarrow> target_default (infer_target env p)
            | Some c \<Rightarrow> c))))"

datatype init_error = BadConfig value_error | BadLimit limiter_error

definition init_limiter ::
  "voxedge \<Rightarrow> (string \<rightharpoonup> string) \<Rightarrow> profile \<Rightarrow> metrics \<Rightarrow> (init_error, limiter) res" where
  "init_limiter vx env p m =
     (case resolve_limit vx env p of
        Inl e \<Rightarrow> Inl (BadConfig e)
      | Inr n \<Rightarrow> (case new_limiter n m of Inl e \<Rightarrow> Inl (BadLimit e) | Inr l \<Rightarrow> Inr l))"

subsection \<open>Bounds of what is resolved\<close>

text \<open>
  What \<open>ConcurrencyCapability\<close> documents of a declared capability: \<open>max_concurrent\<close> is at least 1 or
  \<open>None\<close>. It is the hypothesis on the backends of \<open>voxedge\<close>.
\<close>

definition declares_positive :: "voxedge \<Rightarrow> bool" where
  "declares_positive vx \<longleftrightarrow>
     (\<forall>s k c n. spec_cap vx s k = Some c \<longrightarrow> max_concurrent c = Some n \<longrightarrow> 1 \<le> n) \<and>
     (\<forall>s c n. class_cap vx s = Some c \<longrightarrow> max_concurrent c = Some n \<longrightarrow> 1 \<le> n)"

definition cap_pos :: "ccap \<Rightarrow> bool" where
  "cap_pos c \<longleftrightarrow> (\<forall>n. max_concurrent c = Some n \<longrightarrow> 1 \<le> n)"

lemma capability_for_pos: "declares_positive vx \<Longrightarrow> cap_pos (capability_for vx cls spec kind)"
  by (auto simp: capability_for_def cap_pos_def default_cap_def declares_positive_def Let_def
      split: option.splits if_splits)

lemma active_cap_pos: "declares_positive vx \<Longrightarrow> cap_pos (active_cap vx p key reg kind)"
  by (simp add: active_cap_def capability_for_pos) (simp add: cap_pos_def inactive_cap_def)

lemma diar_max_pos: "diar_max_concurrent env = Some n \<Longrightarrow> 1 \<le> n"
  by (auto simp: diar_max_concurrent_def split: option.splits if_splits)

lemma diarization_cap_pos: "diarization_capability vx p env = Some c \<Longrightarrow> cap_pos c"
  by (auto simp: diarization_capability_def cap_pos_def Let_def diar_max_pos split: if_splits)

lemma finite_caps_Cons [simp]:
  "finite_caps [] = []"
  "finite_caps (None # ns) = finite_caps ns"
  "finite_caps (Some n # ns) = n # finite_caps ns"
  by (simp_all add: finite_caps_def)

lemma set_finite_caps: "set (finite_caps ns) = {n. Some n \<in> set ns}"
  by (induction ns) (auto simp: finite_caps_def)

lemma aggregate_ceiling_pos:
  assumes "cap_pos asr" "cap_pos tts"
    and "\<And>xs l c. extra = Some xs \<Longrightarrow> (l, c) \<in> set xs \<Longrightarrow> cap_pos c"
    and "fst (aggregate_ceiling asr tts extra) = Some n"
  shows "1 \<le> n"
proof -
  define items where "items = [max_concurrent asr, max_concurrent tts]
    @ (case extra of None \<Rightarrow> [] | Some xs \<Rightarrow> map (max_concurrent \<circ> snd) xs)"
  have "map snd ([(''asr'', max_concurrent asr), (''tts'', max_concurrent tts)]
            @ (case extra of None \<Rightarrow> [] | Some xs \<Rightarrow> map (\<lambda>(l, c). (l, max_concurrent c)) xs)) = items"
    by (auto simp: items_def split: option.splits)
  with assms(4) have n: "finite_caps items \<noteq> []" "n = Min (set (finite_caps items))"
    unfolding aggregate_ceiling_def Let_def by (auto split: if_splits)
  then have "n \<in> set (finite_caps items)" by (metis Min_in List.finite_set set_empty)
  then have "Some n \<in> set items" by (simp add: set_finite_caps)
  then show ?thesis using assms(1-3) by (auto simp: items_def cap_pos_def split: option.splits)
qed

lemma cross_modal_ceiling_pos:
  assumes "cap_pos asr" "cap_pos tts" "\<And>d. diar = Some d \<Longrightarrow> cap_pos d"
    and "fst (cross_modal_ceiling asr tts diar) = Some n"
  shows "1 \<le> n"
  using assms
  by (cases "max_concurrent asr"; cases "max_concurrent tts"; cases diar)
    (auto simp: cross_modal_ceiling_def cap_pos_def Let_def min_def split: option.splits if_splits)

lemma backend_ceiling_pos:
  assumes "cap_pos asr" "cap_pos tts" "\<And>d. diar = Some d \<Longrightarrow> cap_pos d"
    and "fst (backend_ceiling os p asr tts diar) = Some n"
  shows "1 \<le> n"
proof -
  consider (x) "fst (cross_modal_ceiling asr tts diar) = Some n"
    | (a) "fst (aggregate_ceiling asr tts (map_option (\<lambda>d. [(''diar'', d)]) diar)) = Some n"
    | (t) "n = target_default (infer_target os p)"
    using assms(4) by (auto simp: backend_ceiling_def Let_def split: if_splits)
  then show ?thesis
  proof cases
    case x
    with assms(1-3) show ?thesis using cross_modal_ceiling_pos by blast
  next
    case a
    with assms(1-3) show ?thesis by (elim aggregate_ceiling_pos [rotated 3]) auto
  next
    case t
    then show ?thesis using target_default_pos [of "infer_target os p"] by simp
  qed
qed

lemma clamp_override_bounds:
  "clamp_override w ceiling n = (m, ws) \<Longrightarrow> 1 \<le> n \<Longrightarrow> (\<And>c. ceiling = Some c \<Longrightarrow> 1 \<le> c) \<Longrightarrow>
   1 \<le> m \<and> m \<le> n \<and> (\<forall>c. ceiling = Some c \<longrightarrow> m \<le> c)"
  by (auto simp: clamp_override_def split: option.splits if_splits)

lemma session_ceiling_bounds:
  assumes "session_ceiling_of os env p ceiling = Inr (m, ws)"
    and "\<And>c. ceiling = Some c \<Longrightarrow> 1 \<le> c"
  shows "1 \<le> m \<and> (\<forall>c. ceiling = Some c \<longrightarrow> m \<le> c)"
proof -
  obtain e q where e: "parse_positive_int ''OVS_MAX_CONCURRENT_SESSIONS''
                 (env_scalar env ''OVS_MAX_CONCURRENT_SESSIONS'') = Inr e"
    and q: "parse_positive_int ''profile.max_concurrent_sessions''
                 (get_field (p_fields p) ''max_concurrent_sessions'') = Inr q"
    and m: "(case e of Some n \<Rightarrow> clamp_override EnvSessionClamped ceiling n
            | None \<Rightarrow> (case q of Some n \<Rightarrow> clamp_override ProfileSessionClamped ceiling n
                 | None \<Rightarrow> (case ceiling of None \<Rightarrow> (target_default (infer_target os p), [])
                      | Some c \<Rightarrow> (c, [])))) = (m, ws)"
    using assms(1) by (auto simp only: session_ceiling_of_def bind_res_eq_Inr sum.inject)
  show ?thesis
  proof (cases e)
    case (Some n)
    then have "1 \<le> n" using e parse_positive_int_pos by fastforce
    with Some m show ?thesis using clamp_override_bounds [OF _ _ assms(2)] by fastforce
  next
    case None
    show ?thesis
    proof (cases q)
      case (Some n)
      then have "1 \<le> n" using q parse_positive_int_pos by fastforce
      with None Some m show ?thesis using clamp_override_bounds [OF _ _ assms(2)] by fastforce
    next
      case q: None
      show ?thesis
        using None q m assms(2) target_default_pos [of "infer_target os p"]
        by (cases ceiling) auto
    qed
  qed
qed

lemma infer_gate_bounds:
  assumes "infer_gate_of env asr session = Inr (conc, depth, ws)" "cap_pos asr" "1 \<le> session"
  shows "1 \<le> conc \<and> conc \<le> infer_concurrency_base asr session \<and> (\<exists>d. depth = Some d \<and> 0 \<le> d)"
proof -
  have base: "1 \<le> infer_concurrency_base asr session"
    using assms(2,3) by (auto simp: infer_concurrency_base_def cap_pos_def UNKNOWN_DEFAULT_def
        split: option.splits)
  obtain e q where e: "parse_positive_int ''OVS_ASR_INFER_CONCURRENCY''
                 (env_scalar env ''OVS_ASR_INFER_CONCURRENCY'') = Inr e"
    and q: "parse_non_negative_int ''OVS_ASR_INFER_QUEUE_DEPTH''
                      (env_scalar env ''OVS_ASR_INFER_QUEUE_DEPTH'') = Inr q"
    and cw: "conc = fst (case e of Some n \<Rightarrow> if n > infer_concurrency_base asr session
          then (infer_concurrency_base asr session, [InferClamped n (infer_concurrency_base asr session)])
          else (n, []) | None \<Rightarrow> (infer_concurrency_base asr session, []))"
    and depth: "depth = Some (case q of Some d \<Rightarrow> d | None \<Rightarrow> max 0 (session - conc))"
    using assms(1)
    by (auto simp only: infer_gate_of_def bind_res_eq_Inr Let_def case_prod_beta sum.inject
        prod.inject)
  have conc: "conc = (case e of Some n \<Rightarrow> if n > infer_concurrency_base asr session
        then infer_concurrency_base asr session else n | None \<Rightarrow> infer_concurrency_base asr session)"
    unfolding cw by (cases e) auto
  have "1 \<le> n" if "e = Some n" for n using e that parse_positive_int_pos by fastforce
  moreover have "0 \<le> d" if "q = Some d" for d using q that parse_non_negative_int_ge by blast
  ultimately show ?thesis using base by (auto simp: conc depth split: option.splits)
qed

lemma resolve_cases:
  assumes "resolve vx os env p nm = Inr r"
  obtains session w1 conc depth w3 where
    "session_ceiling_of os env p (fst (backend_ceiling os p (asr_cap_of vx p) (tts_cap_of vx p)
        (diarization_capability vx p env))) = Inr (session, w1)"
    "infer_gate_of env (asr_cap_of vx p) session = Inr (conc, depth, w3)"
    "r_session_ceiling r = Some session" "r_asr_infer_concurrency r = conc"
    "r_asr_queue_depth r = depth" "r_asr_cap r = asr_cap_of vx p" "r_tts_cap r = tts_cap_of vx p"
    "r_coordinator_mode r = coordinator_mode_of p (asr_cap_of vx p) (tts_cap_of vx p)"
    "r_executor_max_workers r = fst (resolve_executor_max_workers
       (if in_registry (get_field (p_fields p) ''tts_backend'') TTS_REGISTRY
        then tts_cap_of vx p else unlimited_exec_cap) nm env)"
proof -
  from assms obtain x y where
    "session_ceiling_of os env p (fst (backend_ceiling os p (asr_cap_of vx p) (tts_cap_of vx p)
        (diarization_capability vx p env))) = Inr x"
    "infer_gate_of env (asr_cap_of vx p) (fst x) = Inr y"
    "r_session_ceiling r = Some (fst x)" "r_asr_infer_concurrency r = fst y"
    "r_asr_queue_depth r = fst (snd y)" "r_asr_cap r = asr_cap_of vx p"
    "r_tts_cap r = tts_cap_of vx p"
    "r_coordinator_mode r = coordinator_mode_of p (asr_cap_of vx p) (tts_cap_of vx p)"
    "r_executor_max_workers r = fst (resolve_executor_max_workers
       (if in_registry (get_field (p_fields p) ''tts_backend'') TTS_REGISTRY
        then tts_cap_of vx p else unlimited_exec_cap) nm env)"
    by (auto simp only: resolve_def Let_def case_prod_beta bind_res_eq_Inr sum.inject
        resolved.simps fst_conv snd_conv)
  then show thesis using that by (cases x; cases y) auto
qed

lemma session_ceiling_only_downgrades_aux:
  assumes "declares_positive vx" and "resolve vx os env p nm = Inr r"
  shows "\<exists>n. r_session_ceiling r = Some n \<and> 1 \<le> n \<and>
     (\<forall>c. fst (backend_ceiling os p (r_asr_cap r) (r_tts_cap r) (diarization_capability vx p env))
            = Some c \<longrightarrow> n \<le> c)"
  using assms(2)
proof (rule resolve_cases)
  fix session w1 conc depth w3
  assume s: "session_ceiling_of os env p (fst (backend_ceiling os p (asr_cap_of vx p)
        (tts_cap_of vx p) (diarization_capability vx p env))) = Inr (session, w1)"
    and r: "r_session_ceiling r = Some session" "r_asr_cap r = asr_cap_of vx p"
      "r_tts_cap r = tts_cap_of vx p"
  from session_ceiling_bounds [OF s] have "1 \<le> session \<and>
     (\<forall>c. fst (backend_ceiling os p (asr_cap_of vx p) (tts_cap_of vx p)
            (diarization_capability vx p env)) = Some c \<longrightarrow> session \<le> c)"
    using backend_ceiling_pos active_cap_pos [OF assms(1)] diarization_cap_pos by blast
  with r show ?thesis by simp
qed

text \<open>Overrides may only lower the session ceiling. Whenever \<open>resolve\<close> succeeds it yields a
  definite session ceiling of at least 1, and never one above what the backends allow.\<close>

theorem session_ceiling_only_downgrades:
  assumes "declares_positive vx" and "resolve vx os env p nm = Inr r"
  shows "\<exists>n. r_session_ceiling r = Some n \<and> 1 \<le> n \<and>
     (\<forall>c. fst (backend_ceiling os p (r_asr_cap r) (r_tts_cap r) (diarization_capability vx p env))
            = Some c \<longrightarrow> n \<le> c)"
  using assms by (rule session_ceiling_only_downgrades_aux)

definition demo_vx :: voxedge where
  "demo_vx = \<lparr>importable = (\<lambda>_. True),
     spec_cap = (\<lambda>_ _. Some (default_cap\<lparr>max_concurrent := Some 2\<rparr>)),
     class_cap = (\<lambda>_. None), path_exists = (\<lambda>_. False)\<rparr>"

definition demo_profile :: profile where
  "demo_profile = \<lparr>p_fields = [''asr_backend'' \<mapsto> SStr ''rk.asr'', ''tts_backend'' \<mapsto> SStr ''rk.tts''],
     p_env = None, p_policy = None\<rparr>"

lemma demo_positive: "declares_positive demo_vx"
  by (simp add: declares_positive_def demo_vx_def)


lemma demo_resolves:
  "is_ok (resolve demo_vx Map.empty [''OVS_MAX_CONCURRENT_SESSIONS'' \<mapsto> ''7''] demo_profile '''')"
  by code_simp

theorem session_ceiling_only_downgrades_witness:
  "\<exists>r n. resolve demo_vx Map.empty [''OVS_MAX_CONCURRENT_SESSIONS'' \<mapsto> ''7''] demo_profile '''' = Inr r
     \<and> r_session_ceiling r = Some n \<and> 1 \<le> n"
  using demo_resolves session_ceiling_only_downgrades [OF demo_positive] by (elim is_okE) blast

lemma infer_gate_sizing_aux:
  assumes "declares_positive vx" and "resolve vx os env p nm = Inr r"
  shows "1 \<le> r_asr_infer_concurrency r
    \<and> (\<exists>d. r_asr_queue_depth r = Some d \<and> 0 \<le> d)
    \<and> (\<not> supports_parallel (r_asr_cap r) \<longrightarrow> r_asr_infer_concurrency r = 1)
    \<and> (\<forall>n. supports_parallel (r_asr_cap r) \<longrightarrow> max_concurrent (r_asr_cap r) = Some n \<longrightarrow>
         r_asr_infer_concurrency r \<le> n)"
proof -
  from assms(2) obtain session w1 conc depth w3 where
    s: "session_ceiling_of os env p (fst (backend_ceiling os p (asr_cap_of vx p)
        (tts_cap_of vx p) (diarization_capability vx p env))) = Inr (session, w1)"
    and g: "infer_gate_of env (asr_cap_of vx p) session = Inr (conc, depth, w3)"
    and r: "r_asr_infer_concurrency r = conc" "r_asr_queue_depth r = depth"
      "r_asr_cap r = asr_cap_of vx p"
    by (rule resolve_cases)
  have pos: "cap_pos (asr_cap_of vx p)" using assms(1) by (rule active_cap_pos)
  have "1 \<le> session"
    using session_ceiling_bounds [OF s] backend_ceiling_pos active_cap_pos [OF assms(1)]
      diarization_cap_pos by blast
  note b = infer_gate_bounds [OF g pos this]
  have "conc = 1" if "\<not> supports_parallel (asr_cap_of vx p)"
    using b that by (simp add: infer_concurrency_base_def)
  moreover have "conc \<le> n"
    if "supports_parallel (asr_cap_of vx p)" "max_concurrent (asr_cap_of vx p) = Some n" for n
    using b that pos by (auto simp: infer_concurrency_base_def cap_pos_def)
  ultimately show ?thesis using b r by auto
qed

text \<open>Without an explicit queue depth the backlog is what is left of the session ceiling.\<close>

lemma default_queue_depth:
  assumes "resolve vx os env p nm = Inr r" and "env ''OVS_ASR_INFER_QUEUE_DEPTH'' = None"
    and "r_session_ceiling r = Some n"
  shows "r_asr_queue_depth r = Some (max 0 (n - r_asr_infer_concurrency r))"
proof -
  obtain session w1 conc depth w3 where
    g: "infer_gate_of env (asr_cap_of vx p) session = Inr (conc, depth, w3)"
    and r: "r_session_ceiling r = Some session" "r_asr_infer_concurrency r = conc" "r_asr_queue_depth r = depth"
    using assms(1) by (rule resolve_cases)
  have "parse_non_negative_int ''OVS_ASR_INFER_QUEUE_DEPTH'' SNone = Inr None"
    by (simp add: parse_non_negative_int_def parse_bounded_int_def)
  with g assms(2) have "depth = Some (max 0 (session - conc))"
    by (auto simp: infer_gate_of_def bind_res_eq_Inr env_scalar_def Let_def split: prod.splits option.splits if_splits)
  with r assms(3) show ?thesis by simp
qed

text \<open>The inference gate is sized so that its constructor accepts it (a concurrency of at least 1,
  a bounded and non-negative backlog), and a backend that does not support parallel calls is never
  entered by more than one request, whatever the environment asks for.\<close>

theorem infer_gate_sizing_safe:
  assumes "declares_positive vx" and "resolve vx os env p nm = Inr r"
  shows "1 \<le> r_asr_infer_concurrency r
    \<and> (\<exists>d. r_asr_queue_depth r = Some d \<and> 0 \<le> d)
    \<and> (\<not> supports_parallel (r_asr_cap r) \<longrightarrow> r_asr_infer_concurrency r = 1)
    \<and> (\<forall>n. supports_parallel (r_asr_cap r) \<longrightarrow> max_concurrent (r_asr_cap r) = Some n \<longrightarrow>
         r_asr_infer_concurrency r \<le> n)"
  using assms by (rule infer_gate_sizing_aux)

theorem infer_gate_sizing_safe_witness:
  "\<exists>r. resolve demo_vx Map.empty [''OVS_MAX_CONCURRENT_SESSIONS'' \<mapsto> ''7''] demo_profile '''' = Inr r
     \<and> r_asr_infer_concurrency r = 1"
proof -
  obtain r where r: "resolve demo_vx Map.empty [''OVS_MAX_CONCURRENT_SESSIONS'' \<mapsto> ''7'']
      demo_profile '''' = Inr r"
    using demo_resolves by (elim is_okE)
  then have "r_asr_cap r = asr_cap_of demo_vx demo_profile" by (rule resolve_cases)
  moreover have "\<not> supports_parallel (asr_cap_of demo_vx demo_profile)" by code_simp
  ultimately show ?thesis using infer_gate_sizing_safe [OF demo_positive r] r by auto
qed

lemma coordinator_mode_concurrent:
  assumes "coordinator_mode_of p asr tts = ''concurrent''"
    and "has_backend p ''asr_backend'' \<or> has_backend p ''tts_backend''"
    and "\<not> (cross_modal_overlap p \<and> has_backend p ''asr_backend'' \<and> has_backend p ''tts_backend'')"
  shows "parallel_ok asr \<and> parallel_ok tts"
  using assms by (auto simp: coordinator_mode_of_def Let_def split: if_splits)

text \<open>The coordinator runs the two modalities concurrently only when both declared backends can
  run in parallel, or when an explicit cross-modal profile declares both; \<open>exclusive\<close> is always kept.\<close>

theorem concurrent_mode_only_when_parallel:
  assumes "resolve vx os env p nm = Inr r"
  shows "(requested_mode p = ''exclusive'' \<longrightarrow> r_coordinator_mode r = ''exclusive'') \<and>
    (r_coordinator_mode r = ''concurrent'' \<longrightarrow>
       has_backend p ''asr_backend'' \<or> has_backend p ''tts_backend'' \<longrightarrow>
         (parallel_ok (r_asr_cap r) \<and> parallel_ok (r_tts_cap r)) \<or>
         (cross_modal_overlap p \<and> has_backend p ''asr_backend'' \<and> has_backend p ''tts_backend''))"
proof -
  from assms have r: "r_coordinator_mode r = coordinator_mode_of p (asr_cap_of vx p) (tts_cap_of vx p)"
    "r_asr_cap r = asr_cap_of vx p" "r_tts_cap r = tts_cap_of vx p"
    by (auto elim: resolve_cases)
  have "requested_mode p = ''exclusive'' \<longrightarrow> r_coordinator_mode r = ''exclusive''"
    by (simp add: r coordinator_mode_of_def)
  then show ?thesis using coordinator_mode_concurrent r by metis
qed

theorem concurrent_mode_only_when_parallel_witness:
  "\<exists>r. resolve demo_vx Map.empty Map.empty empty_profile '''' = Inr r
     \<and> (requested_mode empty_profile = ''exclusive'' \<longrightarrow> r_coordinator_mode r = ''exclusive'')"
proof -
  have "is_ok (resolve demo_vx Map.empty Map.empty empty_profile '''')" by code_simp
  then show ?thesis using concurrent_mode_only_when_parallel by (elim is_okE) blast
qed

subsection \<open>The limiter's and the executor's projections\<close>

lemma executor_workers_bounds:
  assumes "cap_pos cap"
  shows "1 \<le> fst (resolve_executor_max_workers cap nm env)
    \<and> (\<forall>c. max_concurrent cap = Some c \<longrightarrow> fst (resolve_executor_max_workers cap nm env) \<le> c)"
  using assms
  by (auto simp: resolve_executor_max_workers_def cap_pos_def Let_def max_def
      split: option.splits prod.splits)

text \<open>The TTS executor always has at least one worker and, when the backend declares a ceiling,
  never more workers than it; an unparsable override counts as 2 before it is clamped.\<close>

theorem executor_workers_within_cap:
  assumes "declares_positive vx"
  shows "1 \<le> fst (resolve_executor_for_tts vx env p nm) \<and>
    (\<forall>c. in_registry (get_field (p_fields p) ''tts_backend'') TTS_REGISTRY \<longrightarrow>
         max_concurrent (capability_for vx (resolve_backend_class vx p ''tts_backend'' TTS_REGISTRY)
           (get_field (p_fields p) ''tts_backend'') ''tts'') = Some c \<longrightarrow>
         fst (resolve_executor_for_tts vx env p nm) \<le> c)"
proof -
  have u: "cap_pos unlimited_exec_cap" by (simp add: cap_pos_def unlimited_exec_cap_def)
  note c = capability_for_pos [OF assms]
  show ?thesis
    using executor_workers_bounds [OF u] executor_workers_bounds [OF c]
    by (simp add: resolve_executor_for_tts_def Let_def)
qed

theorem executor_workers_within_cap_witness:
  "1 \<le> fst (resolve_executor_for_tts demo_vx [''OVS_TTS_STREAM_MAX_WORKERS'' \<mapsto> ''abc'']
     demo_profile ''Kokoro'')"
  using executor_workers_within_cap [OF demo_positive] by blast

lemma resolve_limit_eq:
  assumes "resolve_limit vx env p = Inr n"
  obtains r where "resolve vx env env p '''' = Inr r" "r_session_ceiling r = Some n"
proof -
  from assms obtain r where r: "resolve vx env env p '''' = Inr r"
    and n: "n = (case r_session_ceiling r of None \<Rightarrow> target_default (infer_target env p) | Some c \<Rightarrow> c)"
    by (auto simp only: resolve_limit_def bind_res_eq_Inr sum.inject)
  from r obtain session where "r_session_ceiling r = Some session" by (rule resolve_cases)
  with n r that show thesis by simp
qed

text \<open>A successful \<open>resolve_limit\<close> is exactly the resolver's session ceiling (the fallback branch
  of the limiter is never taken) and is positive, so initialising the limiter fails only on a value
  that is no integer or not positive, never on the limit itself.\<close>

theorem init_limiter_total:
  assumes "declares_positive vx"
  shows "case init_limiter vx env p m of
      Inl (BadConfig _) \<Rightarrow> True
    | Inl (BadLimit _) \<Rightarrow> False
    | Inr l \<Rightarrow> \<exists>r. resolve vx env env p '''' = Inr r \<and> r_session_ceiling r = Some (l_limit l)
        \<and> limiter_inv l"
proof (cases "resolve_limit vx env p")
  case (Inl e)
  then show ?thesis by (simp add: init_limiter_def)
next
  case (Inr n)
  then obtain r where r: "resolve vx env env p '''' = Inr r" "r_session_ceiling r = Some n"
    by (rule resolve_limit_eq)
  with session_ceiling_only_downgrades_aux [OF assms r(1)] have "1 \<le> n" by simp
  then obtain l where l: "new_limiter n m = Inr l" "l_limit l = n"
    by (simp add: new_limiter_def)
  with Inr r new_limiter_inv [OF l(1)] show ?thesis by (simp add: init_limiter_def)
qed

theorem init_limiter_total_witness:
  "case init_limiter demo_vx [''OVS_MAX_CONCURRENT_SESSIONS'' \<mapsto> ''7''] demo_profile metrics_init of
      Inl (BadConfig _) \<Rightarrow> True
    | Inl (BadLimit _) \<Rightarrow> False
    | Inr l \<Rightarrow> \<exists>r. resolve demo_vx [''OVS_MAX_CONCURRENT_SESSIONS'' \<mapsto> ''7'']
        [''OVS_MAX_CONCURRENT_SESSIONS'' \<mapsto> ''7''] demo_profile '''' = Inr r
        \<and> r_session_ceiling r = Some (l_limit l) \<and> limiter_inv l"
  by (rule init_limiter_total) (rule demo_positive)

end
