(* ===== verification/AsrInferGate.thy ===== *)
theory AsrInferGate
  imports Prelude
begin

section \<open>The FIFO admission gate of ASR inference\<close>

text \<open>
  \<^verbatim>\<open>server/core/asr_infer_gate.py\<close>: \<open>AsrInferenceGate\<close>. The gate runs in one event loop, so
  everything between two awaits is one step. A call of \<open>acquire\<close> is named by its number; its task is in
  one of the phases

    \<^item> \<open>Waiting\<close>: its future is pending and in \<open>_waiters\<close>;
    \<^item> \<open>CancelPending\<close>: the task was cancelled, so its future is cancelled, but the \<open>CancelledError\<close>
      has not been delivered yet;
    \<^item> \<open>Granted\<close>: the future holds a result, the task has not resumed yet;
    \<^item> \<open>GrantCancelled\<close>: cancelled after the grant and before it resumed;
    \<^item> \<open>Holding\<close>: inside the critical section;
    \<^item> \<open>Finished\<close>: left, rejected or cancelled.

  Clock readings are integers given by the environment.
\<close>

datatype phase = Waiting | CancelPending | Granted | GrantCancelled | Holding | Finished

record gate =
  g_concurrency :: nat
  g_max_waiting :: "nat option"
  g_running :: nat
  g_waiters :: "nat list"
  g_phase :: "phase list"
  g_t0 :: "int list"
  g_total_acquired :: nat
  g_total_rejected :: nat
  g_max_wait :: int
  g_max_queue :: nat

datatype gate_error = BadConcurrency int | BadMaxWaiting int

definition new_gate :: "int \<Rightarrow> int option \<Rightarrow> (gate_error, gate) res" where
  "new_gate concurrency max_waiting =
     (if concurrency < 1 then Inl (BadConcurrency concurrency)
      else case max_waiting of
             Some w \<Rightarrow> if w < 0 then Inl (BadMaxWaiting w) else
               Inr \<lparr>g_concurrency = nat concurrency, g_max_waiting = Some (nat w), g_running = 0,
                    g_waiters = [], g_phase = [], g_t0 = [], g_total_acquired = 0,
                    g_total_rejected = 0, g_max_wait = 0, g_max_queue = 0\<rparr>
           | None \<Rightarrow>
               Inr \<lparr>g_concurrency = nat concurrency, g_max_waiting = None, g_running = 0,
                    g_waiters = [], g_phase = [], g_t0 = [], g_total_acquired = 0,
                    g_total_rejected = 0, g_max_wait = 0, g_max_queue = 0\<rparr>)"

text \<open>\<open>_wake_next\<close>: pop futures until one is not done, hand it the permit; else free the permit.\<close>

fun next_live :: "phase list \<Rightarrow> nat list \<Rightarrow> nat option \<times> nat list" where
  "next_live ph [] = (None, [])"
| "next_live ph (i # ws) = (if ph ! i = Waiting then (Some i, ws) else next_live ph ws)"

definition wake_next :: "gate \<Rightarrow> gate" where
  "wake_next g =
     (case next_live (g_phase g) (g_waiters g) of
        (Some i, ws) \<Rightarrow> g\<lparr>g_waiters := ws, g_phase := (g_phase g)[i := Granted]\<rparr>
      | (None, ws) \<Rightarrow> g\<lparr>g_waiters := ws, g_running := g_running g - 1\<rparr>)"

text \<open>The part of \<open>acquire\<close> up to its first await or to the body; the phase of the new call tells which.\<close>

definition enter :: "int \<Rightarrow> gate \<Rightarrow> gate" where
  "enter now g =
     (let new = (\<lambda>p g. g\<lparr>g_phase := g_phase g @ [p], g_t0 := g_t0 g @ [now]\<rparr>)
      in if g_running g < g_concurrency g then
           new Holding (g\<lparr>g_running := g_running g + 1, g_total_acquired := g_total_acquired g + 1\<rparr>)
         else if (case g_max_waiting g of None \<Rightarrow> False | Some m \<Rightarrow> length (g_waiters g) \<ge> m) then
           new Finished (g\<lparr>g_total_rejected := g_total_rejected g + 1\<rparr>)
         else
           new Waiting (g\<lparr>g_waiters := g_waiters g @ [length (g_phase g)],
                          g_max_queue := max (g_max_queue g) (Suc (length (g_waiters g)))\<rparr>))"

definition resume :: "nat \<Rightarrow> int \<Rightarrow> gate \<Rightarrow> gate" where
  "resume i now g =
     g\<lparr>g_phase := (g_phase g)[i := Holding],
       g_max_wait := max (g_max_wait g) (now - g_t0 g ! i),
       g_total_acquired := g_total_acquired g + 1\<rparr>"

text \<open>The \<open>except CancelledError\<close> branch.\<close>

definition deliver_cancel :: "nat \<Rightarrow> gate \<Rightarrow> gate" where
  "deliver_cancel i g =
     (if g_phase g ! i = GrantCancelled
      then wake_next (g\<lparr>g_phase := (g_phase g)[i := Finished]\<rparr>)
      else g\<lparr>g_phase := (g_phase g)[i := Finished], g_waiters := remove1 i (g_waiters g)\<rparr>)"

definition leave :: "nat \<Rightarrow> gate \<Rightarrow> gate" where
  "leave i g = wake_next (g\<lparr>g_phase := (g_phase g)[i := Finished]\<rparr>)"

definition cancel_task :: "nat \<Rightarrow> gate \<Rightarrow> gate" where
  "cancel_task i g =
     (case g_phase g ! i of
        Waiting \<Rightarrow> g\<lparr>g_phase := (g_phase g)[i := CancelPending]\<rparr>
      | Granted \<Rightarrow> g\<lparr>g_phase := (g_phase g)[i := GrantCancelled]\<rparr>
      | _ \<Rightarrow> g)"

datatype gate_event = Enter int | Resume nat int | CancelTask nat | DeliverCancel nat | Leave nat

text \<open>An event that its task's phase does not allow does not happen.\<close>

fun gate_step :: "gate \<Rightarrow> gate_event \<Rightarrow> gate" where
  "gate_step g (Enter now) = enter now g"
| "gate_step g (Resume i now) =
     (if i < length (g_phase g) \<and> g_phase g ! i = Granted then resume i now g else g)"
| "gate_step g (CancelTask i) = (if i < length (g_phase g) then cancel_task i g else g)"
| "gate_step g (DeliverCancel i) =
     (if i < length (g_phase g) \<and> g_phase g ! i \<in> {CancelPending, GrantCancelled}
      then deliver_cancel i g else g)"
| "gate_step g (Leave i) =
     (if i < length (g_phase g) \<and> g_phase g ! i = Holding then leave i g else g)"

text \<open>The process-wide gate: \<open>init\<close>, and \<open>get\<close> with its lazy default of one at a time.\<close>

definition init_asr_inference_gate ::
  "int \<Rightarrow> int option \<Rightarrow> gate option \<Rightarrow> (gate_error, gate) res \<times> gate option" where
  "init_asr_inference_gate concurrency max_waiting cur =
     (case new_gate concurrency max_waiting of Inl e \<Rightarrow> (Inl e, cur) | Inr g \<Rightarrow> (Inr g, Some g))"

definition get_asr_inference_gate :: "gate option \<Rightarrow> (gate_error, gate) res \<times> gate option" where
  "get_asr_inference_gate cur =
     (case cur of Some g \<Rightarrow> (Inr g, Some g) | None \<Rightarrow> init_asr_inference_gate 1 None None)"

subsection \<open>Invariant\<close>

definition has_permit :: "phase \<Rightarrow> bool" where
  "has_permit p = (p \<in> {Granted, GrantCancelled, Holding})"

definition permits :: "gate \<Rightarrow> nat" where
  "permits g = count_where has_permit (g_phase g)"

text \<open>
  The permits handed out are \<open>_running\<close>; the queue holds the calls in the order they arrived, every
  pending one and none that was granted; nobody waits while a permit is free; the queue is bounded.
\<close>

definition gate_inv :: "gate \<Rightarrow> bool" where
  "gate_inv g \<longleftrightarrow>
     g_running g = permits g \<and> g_running g \<le> g_concurrency g \<and>
     sorted_wrt (<) (g_waiters g) \<and>
     (\<forall>i \<in> set (g_waiters g). i < length (g_phase g) \<and> g_phase g ! i \<in> {Waiting, CancelPending}) \<and>
     (\<forall>i < length (g_phase g). g_phase g ! i = Waiting \<longrightarrow>
        i \<in> set (g_waiters g) \<and> g_running g = g_concurrency g) \<and>
     (\<forall>m. g_max_waiting g = Some m \<longrightarrow> length (g_waiters g) \<le> m)"

lemma has_permit_simps [simp]:
  "has_permit Granted" "has_permit GrantCancelled" "has_permit Holding"
  "\<not> has_permit Waiting" "\<not> has_permit CancelPending" "\<not> has_permit Finished"
  by (simp_all add: has_permit_def)

lemma permits_update:
  "i < length (g_phase g) \<Longrightarrow>
   count_where has_permit ((g_phase g)[i := p]) + (if has_permit (g_phase g ! i) then 1 else 0) =
   permits g + (if has_permit p then 1 else 0)"
  unfolding permits_def by (rule count_where_update)

lemma next_live_Some:
  "next_live ph ws = (Some i, ws') \<Longrightarrow>
   \<exists>dead. ws = dead @ i # ws' \<and> (\<forall>j \<in> set dead. ph ! j \<noteq> Waiting) \<and> ph ! i = Waiting"
proof (induction ws)
  case Nil
  then show ?case by simp
next
  case (Cons j ws)
  show ?case
  proof (cases "ph ! j = Waiting")
    case True
    with Cons.prems show ?thesis by (intro exI [of _ "[]"]) auto
  next
    case False
    with Cons obtain dead where "ws = dead @ i # ws'" "\<forall>j \<in> set dead. ph ! j \<noteq> Waiting"
      "ph ! i = Waiting" by auto
    with False show ?thesis by (intro exI [of _ "j # dead"]) auto
  qed
qed

lemma next_live_None:
  "next_live ph ws = (None, ws') \<Longrightarrow> ws' = [] \<and> (\<forall>j \<in> set ws. ph ! j \<noteq> Waiting)"
  by (induction ws) (auto split: if_splits)

text \<open>
  What holds when a permit is about to be passed on: one unit of \<open>_running\<close> belongs to no call.
\<close>

definition gate_inv_loose :: "gate \<Rightarrow> bool" where
  "gate_inv_loose g \<longleftrightarrow>
     g_running g = Suc (permits g) \<and> g_running g \<le> g_concurrency g \<and>
     sorted_wrt (<) (g_waiters g) \<and>
     (\<forall>i \<in> set (g_waiters g). i < length (g_phase g) \<and> g_phase g ! i \<in> {Waiting, CancelPending}) \<and>
     (\<forall>i < length (g_phase g). g_phase g ! i = Waiting \<longrightarrow>
        i \<in> set (g_waiters g) \<and> g_running g = g_concurrency g) \<and>
     (\<forall>m. g_max_waiting g = Some m \<longrightarrow> length (g_waiters g) \<le> m)"

lemma wake_next_inv:
  assumes "gate_inv_loose g"
  shows "gate_inv (wake_next g)"
proof (cases "next_live (g_phase g) (g_waiters g)")
  case (Pair r ws)
  show ?thesis
  proof (cases r)
    case None
    with Pair have ws: "ws = []" and dead: "\<forall>j \<in> set (g_waiters g). g_phase g ! j \<noteq> Waiting"
      using next_live_None by blast+
    have w: "wake_next g = g\<lparr>g_waiters := [], g_running := g_running g - 1\<rparr>"
      by (simp add: wake_next_def Pair None ws)
    have "g_phase g ! j \<noteq> Waiting" if "j < length (g_phase g)" for j
      using assms dead that unfolding gate_inv_loose_def by blast
    moreover have "g_running g = Suc (permits g)" "g_running g \<le> g_concurrency g"
      using assms unfolding gate_inv_loose_def by blast+
    ultimately show ?thesis
      unfolding w gate_inv_def by (simp add: permits_def)
  next
    case (Some i)
    with Pair obtain dead where d: "g_waiters g = dead @ i # ws"
      "\<forall>j \<in> set dead. g_phase g ! j \<noteq> Waiting" "g_phase g ! i = Waiting"
      using next_live_Some by blast
    have i: "i < length (g_phase g)" using assms d by (auto simp: gate_inv_loose_def)
    have srt: "sorted_wrt (<) (dead @ i # ws)" using assms d(1) by (simp add: gate_inv_loose_def)
    let ?ph = "(g_phase g)[i := Granted]"
    have run: "g_running g = Suc (permits g)" using assms unfolding gate_inv_loose_def by blast
    have w: "wake_next g = g\<lparr>g_waiters := ws, g_phase := ?ph\<rparr>"
      by (simp add: wake_next_def Pair Some)
    have 1: "g_running g = count_where has_permit ?ph"
      using permits_update [OF i, of Granted] d(3) run by simp
    have 2: "sorted_wrt (<) ws" "i \<notin> set ws" using srt by (auto simp: sorted_wrt_append)
    have 3: "\<forall>j \<in> set ws. j < length ?ph \<and> ?ph ! j \<in> {Waiting, CancelPending}"
      using assms d(1) 2(2) by (auto simp: gate_inv_loose_def nth_list_update)
    have 4: "\<forall>j < length ?ph. ?ph ! j = Waiting \<longrightarrow> j \<in> set ws \<and> g_running g = g_concurrency g"
    proof (intro allI impI)
      fix j assume j: "j < length ?ph" "?ph ! j = Waiting"
      then have "j \<noteq> i" using i by auto
      with j have "g_phase g ! j = Waiting" by simp
      moreover have "j < length (g_phase g)" using j by simp
      ultimately have "j \<in> set (g_waiters g) \<and> g_running g = g_concurrency g"
        using assms unfolding gate_inv_loose_def by blast
      with d \<open>j \<noteq> i\<close> \<open>g_phase g ! j = Waiting\<close>
      show "j \<in> set ws \<and> g_running g = g_concurrency g" by auto
    qed
    have 5: "\<forall>m. g_max_waiting g = Some m \<longrightarrow> length ws \<le> m"
      using assms d(1) by (auto simp: gate_inv_loose_def)
    have 6: "g_running g \<le> g_concurrency g" using assms by (simp add: gate_inv_loose_def)
    show ?thesis
      unfolding gate_inv_def w permits_def using 1 2 3 4 5 6 by simp
  qed
qed

lemma release_loose:
  assumes "gate_inv g" "i < length (g_phase g)" "has_permit (g_phase g ! i)"
  shows "gate_inv_loose (g\<lparr>g_phase := (g_phase g)[i := Finished]\<rparr>)"
proof -
  have c: "Suc (count_where has_permit ((g_phase g)[i := Finished])) = permits g"
    using permits_update [OF assms(2), of Finished] assms(3) by simp
  have ni: "i \<notin> set (g_waiters g)" using assms by (force simp: gate_inv_def)
  show ?thesis
    using assms(1,2) c ni
    by (auto simp: gate_inv_def gate_inv_loose_def permits_def nth_list_update split: if_splits)
qed

lemma enter_inv [inv_intros]:
  assumes "gate_inv g"
  shows "gate_inv (enter now g)"
proof -
  consider (fast) "g_running g < g_concurrency g"
    | (reject) "\<not> g_running g < g_concurrency g"
        "case g_max_waiting g of None \<Rightarrow> False | Some m \<Rightarrow> length (g_waiters g) \<ge> m"
    | (queue) "\<not> g_running g < g_concurrency g"
        "\<not> (case g_max_waiting g of None \<Rightarrow> False | Some m \<Rightarrow> length (g_waiters g) \<ge> m)"
    by blast
  then show ?thesis
  proof cases
    case fast
    with assms show ?thesis
      by (auto simp: enter_def gate_inv_def permits_def nth_append split: if_splits)
  next
    case reject
    with assms show ?thesis
      by (auto simp: enter_def gate_inv_def permits_def nth_append split: if_splits)
  next
    case queue
    have "\<forall>i \<in> set (g_waiters g). i < length (g_phase g)" using assms by (simp add: gate_inv_def)
    with assms queue show ?thesis
      by (auto simp: enter_def gate_inv_def permits_def nth_append sorted_wrt_append
          less_Suc_eq split: if_splits option.splits)
  qed
qed

lemma resume_inv [inv_intros]:
  assumes "gate_inv g" "i < length (g_phase g)" "g_phase g ! i = Granted"
  shows "gate_inv (resume i now g)"
proof -
  have "count_where has_permit ((g_phase g)[i := Holding]) = permits g"
    using permits_update [OF assms(2), of Holding] assms(3) by simp
  with assms show ?thesis
    by (auto simp: resume_def gate_inv_def permits_def nth_list_update split: if_splits)
qed

lemma cancel_task_inv [inv_intros]:
  assumes "gate_inv g" "i < length (g_phase g)"
  shows "gate_inv (cancel_task i g)"
proof (cases "g_phase g ! i")
  case Waiting
  then have "count_where has_permit ((g_phase g)[i := CancelPending]) = permits g"
    using permits_update [OF assms(2), of CancelPending] by simp
  with assms Waiting show ?thesis
    by (auto simp: cancel_task_def gate_inv_def permits_def nth_list_update split: if_splits)
next
  case Granted
  then have "count_where has_permit ((g_phase g)[i := GrantCancelled]) = permits g"
    using permits_update [OF assms(2), of GrantCancelled] by simp
  with assms Granted show ?thesis
    by (auto simp: cancel_task_def gate_inv_def permits_def nth_list_update split: if_splits)
qed (use assms in \<open>simp_all add: cancel_task_def\<close>)

lemma sorted_wrt_less_distinct: "sorted_wrt (<) (xs :: nat list) \<Longrightarrow> distinct xs"
  by (induction xs) auto

lemma sorted_wrt_remove1: "sorted_wrt P xs \<Longrightarrow> sorted_wrt P (remove1 x xs)"
  by (induction xs) (auto dest: notin_set_remove1 set_mp [OF set_remove1_subset])

lemma deliver_cancel_inv [inv_intros]:
  assumes "gate_inv g" "i < length (g_phase g)" "g_phase g ! i \<in> {CancelPending, GrantCancelled}"
  shows "gate_inv (deliver_cancel i g)"
proof (cases "g_phase g ! i = GrantCancelled")
  case True
  with assms show ?thesis by (simp add: deliver_cancel_def release_loose wake_next_inv)
next
  case False
  with assms have cp: "g_phase g ! i = CancelPending" by simp
  have c: "count_where has_permit ((g_phase g)[i := Finished]) = permits g"
    using permits_update [OF assms(2), of Finished] cp by simp
  have "distinct (g_waiters g)" using assms(1) by (simp add: gate_inv_def sorted_wrt_less_distinct)
  then have s: "set (remove1 i (g_waiters g)) = set (g_waiters g) - {i}" by (rule set_remove1_eq)
  have l: "length (remove1 i (g_waiters g)) \<le> length (g_waiters g)" by (simp add: length_remove1)
  have "\<forall>m. g_max_waiting g = Some m \<longrightarrow> length (remove1 i (g_waiters g)) \<le> m"
    using assms(1) l unfolding gate_inv_def by (meson le_trans)
  with assms(1,2) cp c s show ?thesis
    by (auto simp: deliver_cancel_def gate_inv_def permits_def nth_list_update sorted_wrt_remove1
        split: if_splits)
qed

lemma leave_inv [inv_intros]:
  "gate_inv g \<Longrightarrow> i < length (g_phase g) \<Longrightarrow> g_phase g ! i = Holding \<Longrightarrow> gate_inv (leave i g)"
  by (simp add: leave_def release_loose wake_next_inv)

lemma gate_step_inv: "gate_inv g \<Longrightarrow> gate_inv (gate_step g e)"
  by (cases e) (auto intro: inv_intros)

lemma wake_next_concurrency: "g_concurrency (wake_next g) = g_concurrency g"
  by (auto simp: wake_next_def split: prod.splits option.splits)

lemma gate_step_concurrency: "g_concurrency (gate_step g e) = g_concurrency g"
  by (cases e) (auto simp: enter_def resume_def cancel_task_def deliver_cancel_def leave_def
      wake_next_concurrency Let_def split: phase.splits)

interpretation gate: admission gate_step gate_inv permits g_concurrency
  by unfold_locales (simp_all only: gate_step_inv gate_step_concurrency, simp add: gate_inv_def)

lemma new_gate_inv: "new_gate c w = Inr g \<Longrightarrow> gate_inv g"
  by (auto simp: new_gate_def gate_inv_def permits_def split: if_splits option.splits)

lemma new_gate_concurrency: "new_gate c w = Inr g \<Longrightarrow> int (g_concurrency g) = c"
  by (auto simp: new_gate_def split: if_splits option.splits)

subsection \<open>Mutual exclusion, work conservation, order\<close>

lemma run_gate_inv: "new_gate c w = Inr g0 \<Longrightarrow> gate_inv (foldl gate_step g0 es)"
  using gate.run_inv new_gate_inv by blast

lemma run_gate_concurrency:
  assumes "new_gate c w = Inr g0"
  shows "int (g_concurrency (foldl gate_step g0 es)) = c"
  using gate.run_const [OF _ new_gate_inv [OF assms], of g_concurrency es] gate_step_concurrency
    new_gate_concurrency [OF assms] by simp

lemma wake_next_max_waiting: "g_max_waiting (wake_next g) = g_max_waiting g"
  by (auto simp: wake_next_def split: prod.splits option.splits)

lemma gate_step_max_waiting: "g_max_waiting (gate_step g e) = g_max_waiting g"
  by (cases e) (auto simp: enter_def resume_def cancel_task_def deliver_cancel_def leave_def
      wake_next_max_waiting Let_def split: phase.splits)

lemma run_gate_max_waiting:
  assumes "new_gate c w = Inr g0"
  shows "map_option int (g_max_waiting (foldl gate_step g0 es)) = w"
  using gate.run_const [OF _ new_gate_inv [OF assms], of g_max_waiting es] gate_step_max_waiting
    assms by (auto simp: new_gate_def split: if_splits option.splits)

lemma holding_le_permits: "count_where (\<lambda>p. p = Holding) ph \<le> count_where has_permit ph"
  by (induction ph) auto

lemma holding_within_concurrency:
  assumes "new_gate c w = Inr g0"
  shows "int (count_where (\<lambda>p. p = Holding) (g_phase (foldl gate_step g0 es))) \<le> c"
proof -
  let ?g = "foldl gate_step g0 es"
  have "count_where (\<lambda>p. p = Holding) (g_phase ?g) \<le> permits ?g"
    unfolding permits_def by (rule holding_le_permits)
  also have "\<dots> \<le> g_concurrency ?g" using run_gate_inv [OF assms] by (rule gate.used_le)
  finally show ?thesis using run_gate_concurrency [OF assms, of es] by linarith
qed

text \<open>C23: whatever the order of arrivals, resumptions, cancellations and exits, no more than
  \<open>concurrency\<close> calls are in the critical section at once, and never more than \<open>max_waiting\<close> are
  queued.\<close>

theorem gate_mutual_exclusion:
  assumes "new_gate c w = Inr g0"
  shows "int (count_where (\<lambda>p. p = Holding) (g_phase (foldl gate_step g0 es))) \<le> c \<and>
    (\<forall>m. w = Some m \<longrightarrow> int (length (g_waiters (foldl gate_step g0 es))) \<le> m)"
proof -
  let ?g = "foldl gate_step g0 es"
  have inv: "gate_inv ?g" using assms by (rule run_gate_inv)
  have "int (count_where (\<lambda>p. p = Holding) (g_phase ?g)) \<le> c"
    using assms by (rule holding_within_concurrency)
  moreover have "int (length (g_waiters ?g)) \<le> m" if "w = Some m" for m
  proof -
    have "map_option int (g_max_waiting ?g) = Some m"
      using run_gate_max_waiting [OF assms, of es] that by simp
    then obtain k where "g_max_waiting ?g = Some k" "int k = m" by auto
    with inv show ?thesis unfolding gate_inv_def by auto
  qed
  ultimately show ?thesis by blast
qed

definition demo_gate :: gate where
  "demo_gate = \<lparr>g_concurrency = 1, g_max_waiting = Some 2, g_running = 0, g_waiters = [],
     g_phase = [], g_t0 = [], g_total_acquired = 0, g_total_rejected = 0, g_max_wait = 0,
     g_max_queue = 0\<rparr>"

lemma demo_gate_new: "new_gate 1 (Some 2) = Inr demo_gate"
  by (simp add: new_gate_def demo_gate_def)

theorem gate_mutual_exclusion_witness:
  "int (count_where (\<lambda>p. p = Holding) (g_phase (foldl gate_step demo_gate
     [Enter 0, Enter 1, Enter 2, Enter 3, Leave 0, CancelTask 1, DeliverCancel 1, Resume 2 9]))) \<le> 1"
  using gate_mutual_exclusion [OF demo_gate_new] by blast

text \<open>No permit is lost and none is idle while somebody waits. In every reachable state the
  permits accounted for are exactly those of the calls that hold or were just granted one; if a call
  is waiting, all permits are in use; so when no call holds or was granted a permit, the gate is free
  and nobody waits, cancellations at any moment included.\<close>

theorem gate_work_conserving:
  assumes "new_gate c w = Inr g0" and "g = foldl gate_step g0 es"
  shows "g_running g = permits g
    \<and> ((\<exists>i < length (g_phase g). g_phase g ! i = Waiting) \<longrightarrow> int (g_running g) = c)
    \<and> (permits g = 0 \<longrightarrow> g_running g = 0 \<and> (\<forall>i < length (g_phase g). g_phase g ! i \<noteq> Waiting))"
proof -
  have inv: "gate_inv g" using assms run_gate_inv by blast
  have c: "int (g_concurrency g) = c" using assms run_gate_concurrency by blast
  have "1 \<le> c" using assms(1) by (auto simp: new_gate_def split: if_splits option.splits)
  with c inv show ?thesis unfolding gate_inv_def by auto
qed

theorem gate_work_conserving_witness:
  "g_running (foldl gate_step demo_gate [Enter 0, Enter 1, Leave 0, CancelTask 1, DeliverCancel 1])
   = permits (foldl gate_step demo_gate [Enter 0, Enter 1, Leave 0, CancelTask 1, DeliverCancel 1])"
  using gate_work_conserving [OF demo_gate_new refl] by blast

text \<open>A call is in the gate while it waits, has a permit or is on its way out of the queue. Calls
  within concurrency and backlog together are never turned away.\<close>

definition unfinished :: "gate \<Rightarrow> nat" where
  "unfinished g = count_where (\<lambda>p. p \<noteq> Finished) (g_phase g)"

lemma queue_and_permits:
  assumes "gate_inv g"
  shows "permits g + length (g_waiters g) \<le> unfinished g"
proof -
  let ?ph = "g_phase g"
  have d: "distinct (g_waiters g)" using assms by (auto simp: gate_inv_def strict_sorted_iff)
  have w: "\<forall>i \<in> set (g_waiters g). i < length ?ph \<and> ?ph ! i \<in> {Waiting, CancelPending}"
    using assms by (simp add: gate_inv_def)
  let ?P = "{i. i < length ?ph \<and> has_permit (?ph ! i)}"
  have "permits g + length (g_waiters g) = card ?P + card (set (g_waiters g))"
    using d by (simp add: permits_def count_where_def length_filter_conv_card distinct_card)
  also have "\<dots> = card (?P \<union> set (g_waiters g))"
    using w by (intro card_Un_disjoint [symmetric]) auto
  also have "\<dots> \<le> card {i. i < length ?ph \<and> ?ph ! i \<noteq> Finished}"
    using w by (intro card_mono) auto
  also have "\<dots> = unfinished g" by (simp add: unfinished_def count_where_def length_filter_conv_card)
  finally show ?thesis .
qed

lemma enter_admits:
  assumes "gate_inv g" and "g_max_waiting g = Some m" and "unfinished g < g_concurrency g + m"
  shows "g_total_rejected (enter now g) = g_total_rejected g"
proof -
  have "length (g_waiters g) < m" if "\<not> g_running g < g_concurrency g"
    using that assms queue_and_permits [OF assms(1)] by (simp add: gate_inv_def)
  with assms(2) show ?thesis by (cases "g_running g < g_concurrency g") (auto simp: enter_def Let_def)
qed

lemma wake_next_phase:
  assumes "sorted_wrt (<) (g_waiters g)"
    and "\<forall>j < length (g_phase g). g_phase g ! j = Waiting \<longrightarrow> j \<in> set (g_waiters g)"
    and "\<forall>j \<in> set (g_waiters g). j < length (g_phase g)"
  shows "(\<forall>i < length (g_phase g). g_phase (wake_next g) ! i \<noteq> g_phase g ! i \<longrightarrow>
            g_phase g ! i = Waiting \<and> (\<forall>j < i. g_phase g ! j \<noteq> Waiting))
       \<and> (\<forall>i < length (g_phase g). g_phase g ! i = Waiting \<longrightarrow> (\<forall>j < i. g_phase g ! j \<noteq> Waiting)
            \<longrightarrow> g_phase (wake_next g) ! i = Granted)"
proof (cases "next_live (g_phase g) (g_waiters g)")
  case (Pair r ws)
  show ?thesis
  proof (cases r)
    case None
    with Pair have "\<forall>j \<in> set (g_waiters g). g_phase g ! j \<noteq> Waiting" using next_live_None by blast
    then have "\<forall>j < length (g_phase g). g_phase g ! j \<noteq> Waiting" using assms(2) by blast
    then show ?thesis by (simp add: wake_next_def Pair None)
  next
    case (Some i)
    with Pair obtain dead where d: "g_waiters g = dead @ i # ws"
      "\<forall>j \<in> set dead. g_phase g ! j \<noteq> Waiting" "g_phase g ! i = Waiting"
      using next_live_Some by blast
    have i: "i < length (g_phase g)" using assms(3) d(1) by simp
    have first: "g_phase g ! j \<noteq> Waiting" if "j < i" for j
    proof
      assume "g_phase g ! j = Waiting"
      with that i assms(2) have "j \<in> set (g_waiters g)" by simp
      with d \<open>g_phase g ! j = Waiting\<close> that have "j \<in> set ws" by auto
      with assms(1) d(1) that show False by (auto simp: sorted_wrt_append)
    qed
    have ph: "g_phase (wake_next g) = (g_phase g)[i := Granted]"
      by (simp add: wake_next_def Pair Some)
    have only: "k = i" if "k < length (g_phase g)" "g_phase g ! k = Waiting" "\<forall>j < k. g_phase g ! j \<noteq> Waiting"
      for k
      using that first d(3) by (metis linorder_neqE_nat)
    show ?thesis
    proof (intro conjI allI impI)
      fix k assume k: "g_phase (wake_next g) ! k \<noteq> g_phase g ! k"
      then have "k = i" unfolding ph by (metis nth_list_update_neq)
      then show "g_phase g ! k = Waiting" using d(3) by simp
      fix j assume "j < k"
      then show "g_phase g ! j \<noteq> Waiting" using first \<open>k = i\<close> by simp
    next
      fix k assume "k < length (g_phase g)" "g_phase g ! k = Waiting"
        "\<forall>j < k. g_phase g ! j \<noteq> Waiting"
      then have "k = i" by (rule only)
      then show "g_phase (wake_next g) ! k = Granted" using ph i by simp
    qed
  qed
qed

lemma wake_after_finish:
  assumes "gate_inv g" "k < length (g_phase g)" "has_permit (g_phase g ! k)" "i < length (g_phase g)"
    "g_phase g ! i = Waiting"
  shows "g_phase (wake_next (g\<lparr>g_phase := (g_phase g)[k := Finished]\<rparr>)) ! i
       = (if \<forall>j < i. g_phase g ! j \<noteq> Waiting then Granted else Waiting)"
proof -
  let ?g = "g\<lparr>g_phase := (g_phase g)[k := Finished]\<rparr>"
  have l: "gate_inv_loose ?g" using release_loose assms by blast
  have "k \<noteq> i" using assms by auto
  then have wi: "g_phase ?g ! i = Waiting" using assms by simp
  have same: "g_phase ?g ! j = Waiting \<longleftrightarrow> g_phase g ! j = Waiting" for j
    using assms(2,3) by (cases "j = k") auto
  have h: "(\<forall>i < length (g_phase ?g). g_phase (wake_next ?g) ! i \<noteq> g_phase ?g ! i \<longrightarrow>
            g_phase ?g ! i = Waiting \<and> (\<forall>j < i. g_phase ?g ! j \<noteq> Waiting))
       \<and> (\<forall>i < length (g_phase ?g). g_phase ?g ! i = Waiting \<longrightarrow> (\<forall>j < i. g_phase ?g ! j \<noteq> Waiting)
            \<longrightarrow> g_phase (wake_next ?g) ! i = Granted)"
    by (rule wake_next_phase) (use l in \<open>unfold gate_inv_loose_def, blast+\<close>)
  have il: "i < length (g_phase ?g)" using assms(4) by simp
  show ?thesis
  proof (cases "\<forall>j < i. g_phase g ! j \<noteq> Waiting")
    case True
    then have "\<forall>j < i. g_phase ?g ! j \<noteq> Waiting" using same by blast
    with h il wi have "g_phase (wake_next ?g) ! i = Granted" by blast
    with True show ?thesis by simp
  next
    case False
    then obtain j where "j < i" "g_phase ?g ! j = Waiting" using same by blast
    with h il wi have "g_phase (wake_next ?g) ! i = g_phase ?g ! i" by blast
    with wi False show ?thesis by simp
  qed
qed

text \<open>Strict first-come first-served. In every reachable state, when a holder leaves or a granted
  call is cancelled before it resumes, exactly the oldest waiting call is granted, and no other event
  grants anybody.\<close>

theorem gate_fifo:
  assumes "new_gate c w = Inr g0" and "g = foldl gate_step g0 es"
    and "i < length (g_phase g)" and "g_phase g ! i = Waiting"
  shows "g_phase (gate_step g e) ! i = Granted \<longleftrightarrow>
     (\<exists>k < length (g_phase g). (e = Leave k \<and> g_phase g ! k = Holding)
        \<or> (e = DeliverCancel k \<and> g_phase g ! k = GrantCancelled))
     \<and> (\<forall>j < i. g_phase g ! j \<noteq> Waiting)"
proof -
  have inv: "gate_inv g" using assms run_gate_inv by blast
  show ?thesis
  proof (cases e)
    case (Enter now)
    with assms(3,4) show ?thesis by (auto simp: enter_def nth_append)
  next
    case (Resume k now)
    with assms(3,4) show ?thesis by (auto simp: resume_def nth_list_update)
  next
    case (CancelTask k)
    with assms(3,4) show ?thesis
      by (auto simp: cancel_task_def nth_list_update split: phase.splits)
  next
    case (DeliverCancel k)
    with assms(3,4) wake_after_finish [OF inv, of k i] show ?thesis
      by (auto simp: deliver_cancel_def nth_list_update)
  next
    case (Leave k)
    with assms(3,4) wake_after_finish [OF inv, of k i] show ?thesis
      by (auto simp: leave_def)
  qed
qed

theorem gate_fifo_witness:
  "let g = foldl gate_step demo_gate [Enter 0, Enter 1, Enter 2] in
   g_phase (gate_step g (Leave 0)) ! 1 = Granted"
proof -
  let ?g = "foldl gate_step demo_gate [Enter 0, Enter 1, Enter 2]"
  have ph: "g_phase ?g = [Holding, Waiting, Waiting]"
    by (simp add: demo_gate_def enter_def)
  have "g_phase (gate_step ?g (Leave 0)) ! 1 = Granted \<longleftrightarrow>
     (\<exists>k < length (g_phase ?g). (Leave 0 = Leave k \<and> g_phase ?g ! k = Holding)
        \<or> (Leave 0 = DeliverCancel k \<and> g_phase ?g ! k = GrantCancelled))
     \<and> (\<forall>j < 1. g_phase ?g ! j \<noteq> Waiting)"
    by (rule gate_fifo [OF demo_gate_new refl]) (simp_all add: ph del: foldl.simps)
  then show ?thesis by (simp add: ph Let_def del: foldl.simps gate_step.simps)
qed

end
