(* ===== verification/ProfileLoader.thy ===== *)
theory ProfileLoader
  imports Prelude "HOL-Library.AList"
begin

section \<open>Profiles: reconciling the process environment\<close>

text \<open>
  \<^verbatim>\<open>server/core/profile_loader.py\<close> and the export step of
  \<^verbatim>\<open>server/core/engine_resolver.py\<close>. The state is the process environment with the module's
  bookkeeping (\<open>_APPLIED_KEYS\<close>, \<open>_OWNED_OVERRIDES\<close>, \<open>_CURRENT_PROFILE\<close>); the operator snapshot is
  taken once at import and never changes. A profile is the decoded JSON object, its \<open>env\<close> block in
  file order with string values. Whether an engine can be provisioned is the outside world's answer,
  the argument \<open>provide\<close>; the profile files are the argument \<open>files\<close>.
\<close>

type_synonym environ = "string \<rightharpoonup> string"

record engine =
  e_env_var :: string
  e_model_id :: string
  e_required :: bool

record profile_json =
  pj_name :: "string option"
  pj_env :: "(string \<times> string) list"
  pj_owned :: "string list"
  pj_engines :: "engine list"
  pj_tts_model_id :: string
  pj_asr_model_id :: string

subsection \<open>Template substitution\<close>

definition id_start :: "char \<Rightarrow> bool" where
  "id_start c = (let n = (of_char c :: nat) in n = 95 \<or> (65 \<le> n \<and> n \<le> 90) \<or> (97 \<le> n \<and> n \<le> 122))"

definition id_char :: "char \<Rightarrow> bool" where
  "id_char c = (id_start c \<or> is_digit_char c)"

lemma length_dropWhile_less: "length (dropWhile P xs) - Suc 0 \<le> Suc (length xs)"
  using length_dropWhile_le [of P xs] by linarith

text \<open>\<open>string.Template(value).safe_substitute(m)\<close>: unknown names and stray dollars stay as they are.\<close>

function template_subst :: "environ \<Rightarrow> string \<Rightarrow> string" where
  "template_subst m [] = []"
| "template_subst m (c # cs) =
     (if c \<noteq> CHR ''$'' then c # template_subst m cs
      else case cs of
             [] \<Rightarrow> [c]
           | d # ds \<Rightarrow>
               if d = CHR ''$'' then c # template_subst m ds
               else if id_start d then
                 (case m (takeWhile id_char cs) of
                    Some v \<Rightarrow> v | None \<Rightarrow> c # takeWhile id_char cs)
                 @ template_subst m (dropWhile id_char cs)
               else if d = CHR ''{'' \<and> ds \<noteq> [] \<and> id_start (hd ds)
                       \<and> starts_with ''}'' (dropWhile id_char ds) then
                 (case m (takeWhile id_char ds) of
                    Some v \<Rightarrow> v | None \<Rightarrow> c # d # takeWhile id_char ds @ ''}'')
                 @ template_subst m (tl (dropWhile id_char ds))
               else c # template_subst m cs)"
  by pat_completeness auto
termination
  by (relation "measure (\<lambda>(m, s). length s)")
    (auto simp: le_imp_less_Suc length_dropWhile_le less_Suc_eq_le length_dropWhile_less le_SucI)

lemma template_subst_literal: "CHR ''$'' \<notin> set s \<Longrightarrow> template_subst m s = s"
  by (induction s) auto

definition overlay :: "environ \<Rightarrow> (string \<times> string) list \<Rightarrow> environ" where
  "overlay e kvs = foldl (\<lambda>m (k, v). m(k \<mapsto> v)) e kvs"

definition expand_with_profile_env :: "environ \<Rightarrow> (string \<times> string) list \<Rightarrow> string \<Rightarrow> string" where
  "expand_with_profile_env os_env env_block value = template_subst (overlay os_env env_block) value"

subsection \<open>Which modality a key belongs to\<close>

definition ascii_upper_char :: "char \<Rightarrow> char" where
  "ascii_upper_char c =
     (if 97 \<le> (of_char c :: nat) \<and> (of_char c :: nat) \<le> 122
      then char_of ((of_char c :: nat) - 32) else c)"

definition ASR_KEY_MARKERS :: "string list" where
  "ASR_KEY_MARKERS = [''ASR'', ''PARAFORMER'', ''SENSEVOICE'']"

definition TTS_KEY_MARKERS :: "string list" where
  "TTS_KEY_MARKERS = [''TTS'', ''MATCHA'', ''KOKORO'', ''VOCOS'', ''SPARK'', ''MOSS'', ''SPEAKER_ENCODER'']"

definition key_kind :: "string \<Rightarrow> string option" where
  "key_kind key =
     (let ku = map ascii_upper_char key;
          is_asr = list_ex (\<lambda>m. contains_str m ku) ASR_KEY_MARKERS;
          is_tts = list_ex (\<lambda>m. contains_str m ku) TTS_KEY_MARKERS
      in if is_asr \<and> \<not> is_tts then Some ''asr''
         else if is_tts \<and> \<not> is_asr then Some ''tts''
         else None)"

definition in_scope :: "string option \<Rightarrow> string \<Rightarrow> bool" where
  "in_scope kind k = (kind = None \<or> key_kind k = kind)"

subsection \<open>Model identities implied by a profile\<close>

definition derive_tts_model_id :: "profile_json \<Rightarrow> string option" where
  "derive_tts_model_id p =
     (if pj_tts_model_id p \<noteq> '''' then Some (pj_tts_model_id p)
      else map_option e_model_id (find (\<lambda>e. let l = str_lower (e_model_id e)
             in \<not> contains_str ''asr'' l
                \<and> list_ex (\<lambda>k. contains_str k l) [''kokoro'', ''matcha'', ''qwen3'', ''piper''])
             (pj_engines p)))"

definition derive_asr_model_id :: "profile_json \<Rightarrow> string option" where
  "derive_asr_model_id p =
     (let value = (if pj_asr_model_id p \<noteq> '''' then pj_asr_model_id p
            else case find (\<lambda>e. contains_str ''asr'' (str_lower (e_model_id e))) (pj_engines p) of
                   Some e \<Rightarrow> e_model_id e | None \<Rightarrow> '''');
          v = str_lower value;
          result = (if v = ''qwen3-asr-0.6b'' \<or> v = ''qwen/qwen3-asr-0.6b'' then ''qwen3-asr'' else value)
      in if result = '''' then None else Some result)"

subsection \<open>apply_profile\<close>

definition OPERATOR_KEY_PREFIXES :: "string list" where
  "OPERATOR_KEY_PREFIXES = [''OVS_'', ''LANGUAGE_MODE'', ''MODEL_DIR'', ''ASR_'', ''TTS_'', ''EDGE_LLM_'',
     ''QWEN3_'', ''KOKORO_'', ''MATCHA_'', ''RK_'', ''RKLLM_'', ''SHERPA_'', ''STREAMING_'', ''VOCOS_'',
     ''HF_'', ''CUDA_'', ''TRT_'', ''NVIDIA_'', ''WHISPER_'']"

definition snapshot_operator_env :: "environ \<Rightarrow> environ" where
  "snapshot_operator_env os_env =
     (\<lambda>k. if list_ex (\<lambda>p. starts_with p k) OPERATOR_KEY_PREFIXES \<and> os_env k \<noteq> Some ''''
          then os_env k else None)"

definition CRITICAL_KEYS :: "string set" where
  "CRITICAL_KEYS = {''LANGUAGE_MODE'', ''ASR_BACKEND'', ''TTS_BACKEND''}"

record pstate =
  env :: environ
  applied :: "string set"
  owned_overrides :: "string set"
  current :: "profile_json option"

datatype profile_error =
  ProfileNotFound string
| CriticalMismatch string string "string option"

text \<open>The desired environment: the expanded block, the derived labels, then the overrides, cut to the
  scope. A Python \<open>dict\<close> keeps the position of a key that is assigned again.\<close>

definition merged_env ::
  "environ \<Rightarrow> string \<Rightarrow> profile_json \<Rightarrow> (string \<times> string) list \<Rightarrow> string option \<Rightarrow>
   (string \<times> string) list" where
  "merged_env os_env path_stem p overrides kind =
     (let new_env = map (\<lambda>(k, v). (k, expand_with_profile_env os_env (pj_env p) v)) (pj_env p);
          derived = [(''OVS_PROFILE_NAME'', case pj_name p of Some n \<Rightarrow> n | None \<Rightarrow> path_stem)]
            @ (case derive_tts_model_id p of Some m \<Rightarrow> [(''OVS_TTS_MODEL_ID'', m)] | None \<Rightarrow> [])
            @ (case derive_asr_model_id p of Some m \<Rightarrow> [(''OVS_ASR_MODEL_ID'', m)] | None \<Rightarrow> []);
          merged = foldl (\<lambda>al (k, v). AList.update k v al) [] (new_env @ derived @ overrides)
      in filter (\<lambda>(k, v). in_scope kind k) merged)"

fun write_keys ::
  "string set \<Rightarrow> string set \<Rightarrow> environ \<Rightarrow> (string \<times> string) list \<Rightarrow> pstate \<Rightarrow>
   profile_error option \<times> pstate" where
  "write_keys eff_operator owned snap [] st = (None, st)"
| "write_keys eff_operator owned snap ((k, v) # kvs) st =
     (if k \<in> eff_operator then
        if env st k \<noteq> Some v \<and> k \<in> CRITICAL_KEYS then (Some (CriticalMismatch k v (env st k)), st)
        else write_keys eff_operator owned snap kvs st
      else
        let st1 = st\<lparr>env := (env st)(k \<mapsto> v),
                     owned_overrides := (if snap k \<noteq> None \<and> k \<in> owned
                       then insert k (owned_overrides st) else owned_overrides st)\<rparr>
        in write_keys eff_operator owned snap kvs st1)"

text \<open>
  \<open>resolve_all\<close>: the engines of the modality are provisioned one after the other and exported as they
  succeed; a required one that fails makes the call raise at the end. The result is \<^const>\<open>None\<close> when
  it raised, else the exported keys; the environment has every export either way.
\<close>

definition engines_in_kind :: "profile_json \<Rightarrow> string option \<Rightarrow> engine list" where
  "engines_in_kind p kind =
     filter (\<lambda>e. kind = None \<or> key_kind (e_env_var e) = None \<or> key_kind (e_env_var e) = kind)
       (pj_engines p)"

definition export_engines ::
  "(engine \<Rightarrow> string option) \<Rightarrow> engine list \<Rightarrow> environ \<Rightarrow> environ" where
  "export_engines provide es e =
     foldl (\<lambda>m x. case provide x of Some path \<Rightarrow> m(e_env_var x \<mapsto> path) | None \<Rightarrow> m) e es"

definition resolve_all ::
  "(engine \<Rightarrow> string option) \<Rightarrow> profile_json \<Rightarrow> string option \<Rightarrow> environ \<Rightarrow>
   string set option \<times> environ" where
  "resolve_all provide p kind e =
     (let es = engines_in_kind p kind;
          failed = list_ex (\<lambda>x. provide x = None \<and> e_required x) es
      in (if failed then None else Some (e_env_var ` set (filter (\<lambda>x. provide x \<noteq> None) es)),
          export_engines provide es e))"

definition relinquished_keys :: "profile_json \<Rightarrow> string option \<Rightarrow> pstate \<Rightarrow> string set" where
  "relinquished_keys p kind st =
     Set.filter (\<lambda>k. k \<notin> set (pj_owned p) \<and> in_scope kind k) (owned_overrides st)"

definition relinquish :: "environ \<Rightarrow> profile_json \<Rightarrow> string option \<Rightarrow> pstate \<Rightarrow> pstate" where
  "relinquish snap p kind st =
     (let r = relinquished_keys p kind st
      in st\<lparr>env := (\<lambda>k. if k \<in> r then snap k else env st k),
            owned_overrides := owned_overrides st - r\<rparr>)"

definition clear_stale :: "string set \<Rightarrow> string set \<Rightarrow> string option \<Rightarrow> pstate \<Rightarrow> pstate" where
  "clear_stale eff_operator new_keys kind st =
     st\<lparr>env := (\<lambda>k. if k \<in> applied st - new_keys \<and> \<not> (k \<in> eff_operator \<or> \<not> in_scope kind k)
                    then None else env st k)\<rparr>"

definition bookkeeping ::
  "string set \<Rightarrow> string set \<Rightarrow> string option \<Rightarrow> profile_json \<Rightarrow> pstate \<Rightarrow> pstate" where
  "bookkeeping eff_operator new_keys kind p st =
     st\<lparr>applied := (if kind = None then {} else Set.filter (\<lambda>k. \<not> in_scope kind k) (applied st))
                   \<union> Set.filter (\<lambda>k. k \<notin> eff_operator) new_keys,
        current := Some p\<rparr>"

text \<open>\<open>op_keys\<close> is \<open>dom snap\<close>, the operator's keys.\<close>

definition apply_loaded ::
  "environ \<Rightarrow> string set \<Rightarrow> (engine \<Rightarrow> string option) \<Rightarrow> string \<Rightarrow> profile_json \<Rightarrow>
   (string \<times> string) list \<Rightarrow> bool \<Rightarrow> string option \<Rightarrow> pstate \<Rightarrow> profile_error option \<times> pstate" where
  "apply_loaded snap op_keys provide path_stem p overrides resolve_engines kind st =
     (let merged = merged_env (env st) path_stem p overrides kind;
          new_keys = fst ` set merged;
          owned = set (pj_owned p);
          eff_operator = op_keys - owned;
          st1 = clear_stale eff_operator new_keys kind (relinquish snap p kind st)
      in case write_keys eff_operator owned snap merged st1 of
           (Some err, st2) \<Rightarrow> (Some err, st2)
         | (None, st2) \<Rightarrow>
             let st3 = bookkeeping eff_operator new_keys kind p st2
             in (None,
                 if resolve_engines then
                   (case resolve_all provide p kind (env st3) of
                      (Some injected, e) \<Rightarrow>
                        st3\<lparr>env := e, applied := applied st3 \<union> (injected - op_keys)\<rparr>
                    | (None, e) \<Rightarrow> st3\<lparr>env := e\<rparr>)
                 else st3))"

definition apply_profile ::
  "environ \<Rightarrow> string set \<Rightarrow> (string \<rightharpoonup> string \<times> profile_json) \<Rightarrow> (engine \<Rightarrow> string option) \<Rightarrow> string \<Rightarrow>
   (string \<times> string) list \<Rightarrow> bool \<Rightarrow> string option \<Rightarrow> pstate \<Rightarrow> profile_error option \<times> pstate" where
  "apply_profile snap op_keys files provide ref overrides resolve_engines kind st =
     (case files ref of
        None \<Rightarrow> (Some (ProfileNotFound ref), st)
      | Some (path_stem, p) \<Rightarrow>
          apply_loaded snap op_keys provide path_stem p overrides resolve_engines kind st)"

subsection \<open>What one application does to the environment\<close>

lemma write_keys_frame:
  "write_keys eff owned snap kvs st = (r, st') \<Longrightarrow> k \<notin> fst ` set kvs \<Longrightarrow>
   env st' k = env st k \<and> (k \<in> owned_overrides st' \<longleftrightarrow> k \<in> owned_overrides st)"
proof (induction kvs arbitrary: st)
  case Nil
  then show ?case by simp
next
  case (Cons kv kvs)
  then show ?case by (cases kv) (fastforce simp: Let_def split: if_splits)
qed

lemma write_keys_applied:
  "write_keys eff owned snap kvs st = (r, st') \<Longrightarrow> applied st' = applied st \<and> current st' = current st"
proof (induction kvs arbitrary: st)
  case Nil
  then show ?case by simp
next
  case (Cons kv kvs)
  then show ?case by (cases kv) (fastforce simp: Let_def split: if_splits)
qed

lemma write_keys_env:
  assumes "write_keys eff owned snap kvs st = (None, st')" and "distinct (map fst kvs)"
    and "(k, v) \<in> set kvs"
  shows "env st' k = (if k \<in> eff then env st k else Some v)
    \<and> (k \<in> eff \<longrightarrow> k \<in> CRITICAL_KEYS \<longrightarrow> env st k = Some v)
    \<and> (k \<in> owned_overrides st' \<longleftrightarrow>
        k \<in> owned_overrides st \<or> (k \<notin> eff \<and> snap k \<noteq> None \<and> k \<in> owned))"
  using assms
proof (induction kvs arbitrary: st)
  case Nil
  then show ?case by simp
next
  case (Cons kv kvs)
  obtain k' v' where kv: "kv = (k', v')" by (cases kv)
  let ?st1 = "if k' \<in> eff then st else st\<lparr>env := (env st)(k' \<mapsto> v'),
     owned_overrides := (if snap k' \<noteq> None \<and> k' \<in> owned then insert k' (owned_overrides st)
                         else owned_overrides st)\<rparr>"
  have rest: "write_keys eff owned snap kvs ?st1 = (None, st')"
    and crit: "k' \<in> eff \<longrightarrow> k' \<in> CRITICAL_KEYS \<longrightarrow> env st k' = Some v'"
    using Cons.prems(1) by (auto simp: kv Let_def split: if_splits)
  show ?case
  proof (cases "k = k'")
    case True
    with Cons.prems(2,3) have v: "v = v'" and fresh: "k \<notin> fst ` set kvs"
      by (auto simp: kv rev_image_eqI)
    from write_keys_frame [OF rest fresh] show ?thesis using True v crit by auto
  next
    case False
    with Cons.prems have "distinct (map fst kvs)" "(k, v) \<in> set kvs" by (auto simp: kv)
    from Cons.IH [OF rest this] False show ?thesis by (auto split: if_splits)
  qed
qed

lemma distinct_merged: "distinct (map fst (merged_env e stem p ov kind))"
proof -
  have upd: "distinct (map fst (foldl (\<lambda>al (k, v). AList.update k v al) acc xs))"
    if "distinct (map fst acc)" for acc :: "(string \<times> string) list" and xs
    using that by (induction xs arbitrary: acc) (auto simp: distinct_update)
  show ?thesis
    unfolding merged_env_def Let_def by (rule distinct_map_filter, rule upd) simp
qed

text \<open>
  The environment after a successful application without engine resolution, key by key: a written
  key has the profile's value, a stale one is gone, a relinquished one has the operator's value back,
  every other is as before.
\<close>

definition new_keys_of :: "pstate \<Rightarrow> string \<Rightarrow> profile_json \<Rightarrow> (string \<times> string) list \<Rightarrow>
    string option \<Rightarrow> string set" where
  "new_keys_of st stem p ov kind = fst ` set (merged_env (env st) stem p ov kind)"

definition spec_env :: "environ \<Rightarrow> string set \<Rightarrow> string \<Rightarrow> profile_json \<Rightarrow> (string \<times> string) list \<Rightarrow>
    string option \<Rightarrow> pstate \<Rightarrow> environ" where
  "spec_env snap op_keys stem p ov kind st k =
     (let eff = op_keys - set (pj_owned p); new_keys = new_keys_of st stem p ov kind
      in if k \<in> new_keys \<and> k \<notin> eff then map_of (merged_env (env st) stem p ov kind) k
         else if k \<in> applied st \<and> k \<notin> new_keys \<and> k \<notin> eff \<and> in_scope kind k then None
         else if k \<in> relinquished_keys p kind st then snap k
         else env st k)"

lemma new_keys_in_scope: "k \<in> new_keys_of st stem p ov kind \<Longrightarrow> in_scope kind k"
  by (auto simp: new_keys_of_def merged_env_def Let_def)

lemma apply_loaded_env_aux:
  assumes "apply_loaded snap op_keys provide stem p ov False kind st = (None, st')"
  shows "env st' = spec_env snap op_keys stem p ov kind st"
proof
  fix k
  let ?m = "merged_env (env st) stem p ov kind"
  let ?eff = "op_keys - set (pj_owned p)"
  let ?st1 = "clear_stale ?eff (fst ` set ?m) kind (relinquish snap p kind st)"
  obtain st2 where w: "write_keys ?eff (set (pj_owned p)) snap ?m ?st1 = (None, st2)"
    and e: "env st' = env st2"
    using assms by (auto simp: apply_loaded_def Let_def bookkeeping_def split: prod.splits option.splits)
  have e1: "env ?st1 k = (if k \<in> applied st - fst ` set ?m \<and> \<not> (k \<in> ?eff \<or> \<not> in_scope kind k)
      then None else if k \<in> relinquished_keys p kind st then snap k else env st k)"
    by (auto simp: clear_stale_def relinquish_def Let_def)
  show "env st' k = spec_env snap op_keys stem p ov kind st k"
  proof (cases "k \<in> fst ` set ?m")
    case True
    then obtain v where v: "(k, v) \<in> set ?m" by auto
    have "map_of ?m k = Some v" using v distinct_merged by (rule map_of_is_SomeI [rotated])
    note wk = write_keys_env [OF w distinct_merged v]
    show ?thesis
    proof (cases "k \<in> ?eff")
      case eff: True
      with wk have "env st2 k = env ?st1 k" by presburger
      with True eff e e1 show ?thesis by (simp add: spec_env_def new_keys_of_def Let_def)
    next
      case eff: False
      with wk have "env st2 k = Some v" by presburger
      with True eff e \<open>map_of ?m k = Some v\<close> show ?thesis
        by (simp add: spec_env_def new_keys_of_def Let_def)
    qed
  next
    case False
    with write_keys_frame [OF w False] e e1 show ?thesis
      by (auto simp: spec_env_def new_keys_of_def Let_def)
  qed
qed


definition demo_pj :: "(string \<times> string) list \<Rightarrow> string list \<Rightarrow> engine list \<Rightarrow> profile_json" where
  "demo_pj kvs owned es = \<lparr>pj_name = Some ''demo'', pj_env = kvs, pj_owned = owned, pj_engines = es,
     pj_tts_model_id = '''', pj_asr_model_id = ''''\<rparr>"

definition demo_pstate :: pstate where
  "demo_pstate = \<lparr>env = Map.empty, applied = {}, owned_overrides = {}, current = None\<rparr>"


subsection \<open>Scope, operator values, leaks\<close>

lemma export_engines_frame: "k \<notin> e_env_var ` set es \<Longrightarrow> export_engines provide es e k = e k"
  unfolding export_engines_def
proof (induction es arbitrary: e)
  case Nil
  then show ?case by simp
next
  case (Cons x es)
  then show ?case by (cases "provide x") auto
qed

lemma export_engines_Some:
  "x \<in> set es \<Longrightarrow> distinct (map e_env_var es) \<Longrightarrow> provide x = Some path \<Longrightarrow>
   export_engines provide es e (e_env_var x) = Some path"
proof (induction es arbitrary: e)
  case Nil
  then show ?case by simp
next
  case (Cons y es)
  show ?case
  proof (cases "x = y")
    case True
    with Cons.prems have "e_env_var x \<notin> e_env_var ` set es" by auto
    with True Cons.prems(3) export_engines_frame [of "e_env_var x" es provide "e(e_env_var x \<mapsto> path)"]
    show ?thesis by (simp add: export_engines_def)
  next
    case False
    with Cons show ?thesis by (simp add: export_engines_def)
  qed
qed

lemma apply_loaded_cases:
  fixes st :: pstate
  assumes "apply_loaded snap op_keys provide stem p ov eng kind st = (r, st')"
  obtains st2 where
    "write_keys (op_keys - set (pj_owned p)) (set (pj_owned p)) snap (merged_env (env st) stem p ov kind)
       (clear_stale (op_keys - set (pj_owned p)) (new_keys_of st stem p ov kind) kind
          (relinquish snap p kind st)) = (r, st2)"
    "r \<noteq> None \<Longrightarrow> st' = st2"
    "r = None \<Longrightarrow> owned_overrides st' = owned_overrides st2"
    "r = None \<Longrightarrow> env st' = (if eng then export_engines provide (engines_in_kind p kind) (env st2)
                             else env st2)"
    "r = None \<Longrightarrow> applied st' =
       (if kind = None then {} else Set.filter (\<lambda>k. \<not> in_scope kind k) (applied st))
       \<union> (new_keys_of st stem p ov kind - (op_keys - set (pj_owned p)))
       \<union> (if eng then (case fst (resolve_all provide p kind (env st2)) of Some injd \<Rightarrow> injd - op_keys
                       | None \<Rightarrow> {}) else {})"
proof -
  let ?st1 = "clear_stale (op_keys - set (pj_owned p)) (new_keys_of st stem p ov kind) kind
          (relinquish snap p kind st)"
  obtain r2 st2 where w: "write_keys (op_keys - set (pj_owned p)) (set (pj_owned p)) snap
      (merged_env (env st) stem p ov kind) ?st1 = (r2, st2)" by fastforce
  have a: "applied st2 = applied st"
    using write_keys_applied [OF w] by (simp add: clear_stale_def relinquish_def Let_def)
  show thesis
  proof (rule that [of st2])
    have r2: "r2 = r"
      using assms w by (auto simp: apply_loaded_def new_keys_of_def Let_def split: option.splits)
    with w show "write_keys (op_keys - set (pj_owned p)) (set (pj_owned p)) snap
      (merged_env (env st) stem p ov kind) ?st1 = (r, st2)" by simp
    show "st' = st2" if "r \<noteq> None"
      using assms w that by (auto simp: apply_loaded_def new_keys_of_def Let_def split: option.splits)
    assume r: "r = None"
    show "owned_overrides st' = owned_overrides st2"
      "env st' = (if eng then export_engines provide (engines_in_kind p kind) (env st2) else env st2)"
      using assms w r by (auto simp: apply_loaded_def new_keys_of_def Let_def bookkeeping_def
        resolve_all_def split: option.splits if_splits)
    show "applied st' =
       (if kind = None then {} else Set.filter (\<lambda>k. \<not> in_scope kind k) (applied st))
       \<union> (new_keys_of st stem p ov kind - (op_keys - set (pj_owned p)))
       \<union> (if eng then (case fst (resolve_all provide p kind (env st2)) of Some injd \<Rightarrow> injd - op_keys
                       | None \<Rightarrow> {}) else {})"
    proof -
      let ?st3 = "bookkeeping (op_keys - set (pj_owned p)) (new_keys_of st stem p ov kind) kind p st2"
      have b: "env ?st3 = env st2" "applied ?st3 =
          (if kind = None then {} else Set.filter (\<lambda>k. \<not> in_scope kind k) (applied st))
          \<union> (new_keys_of st stem p ov kind - (op_keys - set (pj_owned p)))"
        using a by (auto simp: bookkeeping_def)
      have "st' = (if eng then (case resolve_all provide p kind (env ?st3) of
            (Some injected, e) \<Rightarrow> ?st3\<lparr>env := e, applied := applied ?st3 \<union> (injected - op_keys)\<rparr>
          | (None, e) \<Rightarrow> ?st3\<lparr>env := e\<rparr>) else ?st3)"
        using assms w [folded new_keys_of_def] r r2
        by (simp add: apply_loaded_def Let_def flip: new_keys_of_def)
      then show ?thesis using b
        by (cases eng; cases "resolve_all provide p kind (env st2)"; cases "fst (resolve_all provide p kind (env st2))") simp_all
    qed
  qed
qed

text \<open>A kind-scoped application, whether it succeeds or fails and with or without engine
  resolution, touches no environment key outside its modality, except those of engines it exports.\<close>

theorem kind_scoped_apply_frame:
  assumes "apply_profile snap op_keys files provide ref ov eng kind st = (r, st')"
    and "\<not> in_scope kind k"
    and "\<And>stem p. files ref = Some (stem, p) \<Longrightarrow> k \<notin> e_env_var ` set (engines_in_kind p kind)"
  shows "env st' k = env st k"
proof (cases "files ref")
  case None
  with assms(1) show ?thesis by (simp add: apply_profile_def)
next
  case (Some sp)
  obtain stem p where sp: "sp = (stem, p)" by (cases sp)
  with assms(1) Some have al: "apply_loaded snap op_keys provide stem p ov eng kind st = (r, st')"
    by (simp add: apply_profile_def)
  from al obtain st2 where
    w: "write_keys (op_keys - set (pj_owned p)) (set (pj_owned p)) snap (merged_env (env st) stem p ov kind)
       (clear_stale (op_keys - set (pj_owned p)) (new_keys_of st stem p ov kind) kind
          (relinquish snap p kind st)) = (r, st2)"
    and e: "r \<noteq> None \<Longrightarrow> st' = st2"
      "r = None \<Longrightarrow> env st' = (if eng then export_engines provide (engines_in_kind p kind) (env st2)
                             else env st2)"
    by (rule apply_loaded_cases) blast
  have "k \<notin> new_keys_of st stem p ov kind" using assms(2) new_keys_in_scope by blast
  then have "env st2 k = env (clear_stale (op_keys - set (pj_owned p)) (new_keys_of st stem p ov kind)
      kind (relinquish snap p kind st)) k"
    using write_keys_frame [OF w] by (simp add: new_keys_of_def)
  also have "\<dots> = env st k"
    using assms(2) by (simp add: clear_stale_def relinquish_def relinquished_keys_def Let_def)
  finally show ?thesis
    using e assms(3) [OF Some [unfolded sp]] export_engines_frame
    by (cases "r = None") auto
qed

theorem kind_scoped_apply_frame_witness:
  "env (snd (apply_profile Map.empty {} [''a'' \<mapsto> (''a'', demo_pj [(''TTS_DIR'', ''/t''), (''ASR_DIR'', ''/m'')] [] [])]
     (\<lambda>_. None) ''a'' [] True (Some ''asr'') (demo_pstate\<lparr>env := [''TTS_DIR'' \<mapsto> ''/old'']\<rparr>))) ''TTS_DIR''
   = Some ''/old''"
proof -
  let ?st = "demo_pstate\<lparr>env := [''TTS_DIR'' \<mapsto> ''/old'']\<rparr>"
  let ?f = "[''a'' \<mapsto> (''a'', demo_pj [(''TTS_DIR'', ''/t''), (''ASR_DIR'', ''/m'')] [] [])]"
  have "env (snd (apply_profile Map.empty {} ?f (\<lambda>_. None) ''a'' [] True (Some ''asr'') ?st)) ''TTS_DIR''
      = env ?st ''TTS_DIR''"
  proof (rule kind_scoped_apply_frame)
    show "apply_profile Map.empty {} ?f (\<lambda>_. None) ''a'' [] True (Some ''asr'') ?st =
       (fst (apply_profile Map.empty {} ?f (\<lambda>_. None) ''a'' [] True (Some ''asr'') ?st),
        snd (apply_profile Map.empty {} ?f (\<lambda>_. None) ''a'' [] True (Some ''asr'') ?st))" by simp
    show "\<not> in_scope (Some ''asr'') ''TTS_DIR''" by code_simp
  qed (auto simp: engines_in_kind_def demo_pj_def)
  then show ?thesis by simp
qed





lemma keys_foldl_update:
  "fst ` set (foldl (\<lambda>al (k, v). AList.update k v al) acc xs) = fst ` set acc \<union> fst ` set xs"
proof (induction xs arbitrary: acc)
  case Nil
  then show ?case by simp
next
  case (Cons kv xs)
  obtain k v where "kv = (k, v)" by (cases kv)
  moreover have "fst ` set (AList.update k v acc) = {k} \<union> fst ` set acc" by (rule dom_update)
  ultimately show ?case by (simp add: Cons.IH)
qed

lemma new_keys_any_env: "new_keys_of st stem p ov kind = new_keys_of st' stem p ov kind"
proof -
  have keys: "fst ` set (filter (\<lambda>(k, v). in_scope kind k) (foldl (\<lambda>al (k, v). AList.update k v al) [] xs)) =
      {k \<in> fst ` set xs. in_scope kind k}" for xs :: "(string \<times> string) list"
  proof -
    have "fst ` set (filter (\<lambda>(k, v). in_scope kind k) al) = {k \<in> fst ` set al. in_scope kind k}"
      for al :: "(string \<times> string) list" by auto
    then show ?thesis by (simp only: keys_foldl_update) simp
  qed
  show ?thesis
    unfolding new_keys_of_def merged_env_def Let_def keys by (simp add: image_Un image_image case_prod_beta)
qed

lemma apply_loaded_records:
  "apply_loaded snap op_keys provide stem p ov eng kind st = (None, st') \<Longrightarrow>
   k \<in> new_keys_of st stem p ov kind \<Longrightarrow> k \<notin> op_keys \<Longrightarrow> k \<in> applied st'"
  by (erule apply_loaded_cases) auto

lemma apply_loaded_clears:
  assumes "apply_loaded snap op_keys provide stem p ov eng kind st = (None, st')"
    and "k \<in> applied st" and "in_scope kind k" and "k \<notin> op_keys"
    and nk: "k \<notin> new_keys_of st stem p ov kind"
    and "eng \<Longrightarrow> k \<notin> e_env_var ` set (engines_in_kind p kind)"
  shows "env st' k = None"
proof -
  from assms(1) obtain st2 where
    w: "write_keys (op_keys - set (pj_owned p)) (set (pj_owned p)) snap (merged_env (env st) stem p ov kind)
       (clear_stale (op_keys - set (pj_owned p)) (new_keys_of st stem p ov kind) kind
          (relinquish snap p kind st)) = (None, st2)"
    and e: "env st' = (if eng then export_engines provide (engines_in_kind p kind) (env st2) else env st2)"
    by (rule apply_loaded_cases) blast
  have "env st2 k = env (clear_stale (op_keys - set (pj_owned p)) (new_keys_of st stem p ov kind) kind
          (relinquish snap p kind st)) k"
    using write_keys_frame [OF w] nk by (simp add: new_keys_of_def)
  also have "\<dots> = None"
    using assms(2-5) by (simp add: clear_stale_def relinquish_def Let_def)
  finally show ?thesis using e assms(6) by (cases eng) (simp_all add: export_engines_frame)
qed

text \<open>A full profile switch leaves nothing of the previous profile behind: a key the first profile
  wrote, that is no operator key and that the second does not define, is unset afterwards.\<close>

theorem switch_clears_previous_profile:
  assumes "files a = Some (sa, pa)" and "files b = Some (sb, pb)"
    and "apply_profile snap op_keys files provide a ova eng None st = (None, st1)"
    and "apply_profile snap op_keys files provide b ovb False None st1 = (None, st2)"
    and "k \<in> new_keys_of st sa pa ova None" and "k \<notin> op_keys"
    and "k \<notin> new_keys_of st1 sb pb ovb None"
  shows "env st2 k = None"
proof -
  have "apply_loaded snap op_keys provide sa pa ova eng None st = (None, st1)"
    using assms(1,3) by (simp add: apply_profile_def)
  then have "k \<in> applied st1" using assms(5,6) by (rule_tac apply_loaded_cases) auto
  moreover have "apply_loaded snap op_keys provide sb pb ovb False None st1 = (None, st2)"
    using assms(2,4) by (simp add: apply_profile_def)
  then have "env st2 = spec_env snap op_keys sb pb ovb None st1" by (rule apply_loaded_env_aux)
  ultimately show ?thesis using assms(6,7) by (simp add: spec_env_def Let_def in_scope_def)
qed

theorem switch_clears_previous_profile_witness:
  "let f = [''a'' \<mapsto> (''a'', demo_pj [(''KOKORO_DIR'', ''/k'')] [] []), ''b'' \<mapsto> (''b'', demo_pj [] [] [])];
       st1 = snd (apply_profile Map.empty {} f (\<lambda>_. None) ''a'' [] False None demo_pstate)
   in env st1 ''KOKORO_DIR'' = Some ''/k''
      \<and> env (snd (apply_profile Map.empty {} f (\<lambda>_. None) ''b'' [] False None st1)) ''KOKORO_DIR'' = None"
proof -
  define pa where "pa = demo_pj [(''KOKORO_DIR'', ''/k'')] [] []"
  define f where "f = [''a'' \<mapsto> (''a'', pa), ''b'' \<mapsto> (''b'', demo_pj [] [] [])]"
  define st1 where "st1 = snd (apply_profile Map.empty {} f (\<lambda>_. None) ''a'' [] False None demo_pstate)"
  define st2 where "st2 = snd (apply_profile Map.empty {} f (\<lambda>_. None) ''b'' [] False None st1)"
  have "fst (apply_profile Map.empty {} f (\<lambda>_. None) ''a'' [] False None demo_pstate) = None"
    "fst (apply_profile Map.empty {} f (\<lambda>_. None) ''b'' [] False None st1) = None"
    unfolding st1_def f_def pa_def by code_simp+
  then have a: "apply_profile Map.empty {} f (\<lambda>_. None) ''a'' [] False None demo_pstate = (None, st1)"
    and b: "apply_profile Map.empty {} f (\<lambda>_. None) ''b'' [] False None st1 = (None, st2)"
    unfolding st1_def st2_def by (metis prod.collapse)+
  have f: "f ''a'' = Some (''a'', pa)" "f ''b'' = Some (''b'', demo_pj [] [] [])" by (simp_all add: f_def)
  have k: "''KOKORO_DIR'' \<in> new_keys_of demo_pstate ''a'' pa [] None"
    "''KOKORO_DIR'' \<notin> new_keys_of st1 ''b'' (demo_pj [] [] []) [] None"
    unfolding st1_def f_def pa_def by code_simp+
  have "env st2 ''KOKORO_DIR'' = None"
    using switch_clears_previous_profile [OF f a b k(1) _ k(2)] by simp
  moreover have "env st1 ''KOKORO_DIR'' = Some ''/k''"
    unfolding st1_def f_def pa_def by code_simp
  ultimately show ?thesis unfolding Let_def f_def pa_def st1_def st2_def by simp
qed

text \<open>Engine export is not tracked when a required engine fails. The application still reports
  success, the paths of the engines that were provisioned are in the environment, and none of them is
  recorded as applied unless the profile wrote the same key, so the next switch does not clear them.\<close>

theorem failed_engine_leaks_exports:
  assumes "files ref = Some (stem, p)"
    and "x \<in> set (engines_in_kind p kind)" and "provide x = Some path"
    and "distinct (map e_env_var (engines_in_kind p kind))"
    and "y \<in> set (engines_in_kind p kind)" and "provide y = None" and "e_required y"
    and "apply_profile snap op_keys files provide ref ov True kind st = (None, st')"
    and "e_env_var x \<notin> new_keys_of st stem p ov kind" and "e_env_var x \<notin> applied st"
  shows "env st' (e_env_var x) = Some path \<and> e_env_var x \<notin> applied st'"
proof -
  have al: "apply_loaded snap op_keys provide stem p ov True kind st = (None, st')"
    using assms(1,8) by (simp add: apply_profile_def)
  have none: "fst (resolve_all provide p kind e) = None" for e
    using assms(5-7) by (auto simp: resolve_all_def Let_def list_ex_iff)
  from al have "\<exists>e0. env st' = export_engines provide (engines_in_kind p kind) e0"
    by (rule apply_loaded_cases) auto
  then obtain e0 where e: "env st' = export_engines provide (engines_in_kind p kind) e0" by blast
  from al have a: "applied st' = (if kind = None then {} else Set.filter (\<lambda>k. \<not> in_scope kind k) (applied st))
       \<union> (new_keys_of st stem p ov kind - (op_keys - set (pj_owned p)))"
    by (rule apply_loaded_cases) (simp add: none)
  have "env st' (e_env_var x) = Some path"
    unfolding e using assms(2,4,3) by (rule export_engines_Some)
  moreover have "e_env_var x \<notin> applied st'" using a assms(9,10) by (auto split: if_splits)
  ultimately show ?thesis by blast
qed

definition demo_engines :: "engine list" where
  "demo_engines =
     [\<lparr>e_env_var = ''ASR_ENGINE'', e_model_id = ''m'', e_required = True\<rparr>,
      \<lparr>e_env_var = ''TTS_ENGINE'', e_model_id = ''n'', e_required = True\<rparr>]"

definition demo_provide :: "engine \<Rightarrow> string option" where
  "demo_provide x = (if e_env_var x = ''ASR_ENGINE'' then Some ''/e'' else None)"

theorem failed_engine_leaks_exports_witness:
  "let f = [''a'' \<mapsto> (''a'', demo_pj [] [] demo_engines)];
       st' = snd (apply_profile Map.empty {} f demo_provide ''a'' [] True None demo_pstate)
   in env st' ''ASR_ENGINE'' = Some ''/e'' \<and> ''ASR_ENGINE'' \<notin> applied st'"
proof -
  define p where "p = demo_pj [] [] demo_engines"
  define f where "f = [''a'' \<mapsto> (''a'', p)]"
  define st' where "st' = snd (apply_profile Map.empty {} f demo_provide ''a'' [] True None demo_pstate)"
  have "fst (apply_profile Map.empty {} f demo_provide ''a'' [] True None demo_pstate) = None"
    unfolding f_def p_def by code_simp
  then have a: "apply_profile Map.empty {} f demo_provide ''a'' [] True None demo_pstate = (None, st')"
    unfolding st'_def by (metis prod.collapse)
  have f: "f ''a'' = Some (''a'', p)" by (simp add: f_def)
  have es: "engines_in_kind p None = demo_engines"
    by (simp add: engines_in_kind_def p_def demo_pj_def)
  have k: "e_env_var (hd demo_engines) \<notin> new_keys_of demo_pstate ''a'' p [] None"
    unfolding p_def by code_simp
  have "env st' (e_env_var (hd demo_engines)) = Some ''/e'' \<and> e_env_var (hd demo_engines) \<notin> applied st'"
    by (rule failed_engine_leaks_exports [OF f _ _ _ _ _ _ a k, where y = "demo_engines ! 1"])
      (simp_all add: es demo_engines_def demo_provide_def demo_pstate_def)
  then show ?thesis unfolding Let_def st'_def f_def p_def by (simp add: demo_engines_def)
qed

lemma write_keys_prefix:
  assumes "\<forall>k \<in> fst ` set pre. k \<notin> eff" and "distinct (map fst (pre @ (c, v) # post))"
    and "c \<in> eff" and "c \<in> CRITICAL_KEYS" and "env st c \<noteq> Some v"
    and "write_keys eff owned snap (pre @ (c, v) # post) st = (r, st')"
  shows "r = Some (CriticalMismatch c v (env st c)) \<and>
    (\<forall>k \<in> fst ` set pre. env st' k = map_of pre k)"
  using assms
proof (induction pre arbitrary: st)
  case Nil
  then show ?case by auto
next
  case (Cons kv pre)
  obtain k1 v1 where kv: "kv = (k1, v1)" by (cases kv)
  define st1 where "st1 = st\<lparr>env := (env st)(k1 \<mapsto> v1),
     owned_overrides := (if snap k1 \<noteq> None \<and> k1 \<in> owned then insert k1 (owned_overrides st)
                         else owned_overrides st)\<rparr>"
  have run: "write_keys eff owned snap (pre @ (c, v) # post) st1 = (r, st')"
    using Cons.prems(1,6) by (simp add: kv st1_def Let_def)
  have ne: "c \<noteq> k1" "k1 \<notin> fst ` set (pre @ (c, v) # post)" using Cons.prems(2) by (auto simp: kv)
  then have c: "env st1 c = env st c" by (simp add: st1_def)
  have "r = Some (CriticalMismatch c v (env st1 c)) \<and> (\<forall>k \<in> fst ` set pre. env st' k = map_of pre k)"
    by (rule Cons.IH) (use Cons.prems run c in auto)
  moreover have "env st' k1 = Some v1"
    using write_keys_frame [OF run ne(2)] by (simp add: st1_def)
  ultimately show ?case using c ne(2) by (auto simp: kv)
qed

text \<open>A refused profile is not undone. When the operator's value of a critical key differs from the
  profile's, the application raises, but the keys that come before it have already been written, and
  they are not recorded as applied, so no later switch clears them.\<close>

theorem critical_mismatch_leaves_writes:
  assumes "files ref = Some (stem, p)"
    and "merged_env (env st) stem p ov kind = pre @ (c, v) # post"
    and "\<forall>k \<in> fst ` set pre. k \<notin> op_keys" and "c \<in> op_keys" and "c \<notin> set (pj_owned p)"
    and "c \<in> CRITICAL_KEYS" and "c \<notin> owned_overrides st" and "env st c \<noteq> Some v"
    and "apply_profile snap op_keys files provide ref ov eng kind st = (r, st')"
  shows "r = Some (CriticalMismatch c v (env st c)) \<and> applied st' = applied st \<and>
    (\<forall>k \<in> fst ` set pre. env st' k = map_of pre k)"
proof -
  have al: "apply_loaded snap op_keys provide stem p ov eng kind st = (r, st')"
    using assms(1,9) by (simp add: apply_profile_def)
  let ?eff = "op_keys - set (pj_owned p)"
  let ?st1 = "clear_stale ?eff (new_keys_of st stem p ov kind) kind (relinquish snap p kind st)"
  from al obtain st2 where
    w: "write_keys ?eff (set (pj_owned p)) snap (merged_env (env st) stem p ov kind) ?st1 = (r, st2)"
    and e: "r \<noteq> None \<Longrightarrow> st' = st2"
    by (rule apply_loaded_cases) blast
  have c: "env ?st1 c = env st c"
    using assms(4,5,7) by (simp add: clear_stale_def relinquish_def relinquished_keys_def Let_def)
  have d: "distinct (map fst (pre @ (c, v) # post))" using distinct_merged [of "env st" stem p ov kind] assms(2) by simp
  have "r = Some (CriticalMismatch c v (env ?st1 c)) \<and> (\<forall>k \<in> fst ` set pre. env st2 k = map_of pre k)"
    by (rule write_keys_prefix [OF _ d _ assms(6) _ w [unfolded assms(2)]]) (use assms(3-5,8) c in auto)
  moreover have "applied st2 = applied st"
    using write_keys_applied [OF w] by (simp add: clear_stale_def relinquish_def Let_def)
  ultimately show ?thesis using e c by simp
qed

theorem critical_mismatch_leaves_writes_witness:
  "let st = demo_pstate\<lparr>env := [''ASR_BACKEND'' \<mapsto> ''rk'']\<rparr>;
       f = [''a'' \<mapsto> (''a'', demo_pj [(''ASR_DIR'', ''/new''), (''ASR_BACKEND'', ''jetson'')] [] [])];
       r = apply_profile [''ASR_BACKEND'' \<mapsto> ''rk''] {''ASR_BACKEND''} f (\<lambda>_. None) ''a'' [] True (Some ''asr'') st
   in fst r \<noteq> None \<and> env (snd r) ''ASR_DIR'' = Some ''/new'' \<and> applied (snd r) = {}"
proof -
  define st where "st = demo_pstate\<lparr>env := [''ASR_BACKEND'' \<mapsto> ''rk'']\<rparr>"
  define p where "p = demo_pj [(''ASR_DIR'', ''/new''), (''ASR_BACKEND'', ''jetson'')] [] []"
  define f where "f = [''a'' \<mapsto> (''a'', p)]"
  define r where "r = apply_profile [''ASR_BACKEND'' \<mapsto> ''rk''] {''ASR_BACKEND''} f (\<lambda>_. None) ''a'' [] True (Some ''asr'') st"
  have m: "merged_env (env st) ''a'' p [] (Some ''asr'') =
      [(''ASR_DIR'', ''/new'')] @ (''ASR_BACKEND'', ''jetson'') # []"
    unfolding st_def p_def by code_simp
  have f: "f ''a'' = Some (''a'', p)" by (simp add: f_def)
  have "fst r = Some (CriticalMismatch ''ASR_BACKEND'' ''jetson'' (env st ''ASR_BACKEND'')) \<and>
      applied (snd r) = applied st \<and>
      (\<forall>k \<in> fst ` set [(''ASR_DIR'', ''/new'')]. env (snd r) k = map_of [(''ASR_DIR'', ''/new'')] k)"
    by (rule critical_mismatch_leaves_writes [where files = f and ref = "''a''", OF f m])
      (simp_all add: p_def demo_pj_def CRITICAL_KEYS_def st_def demo_pstate_def r_def)
  then show ?thesis
    unfolding Let_def f_def p_def st_def r_def by (simp add: demo_pstate_def)
qed

end
