(* ===== verification/ProfileSelect.thy ===== *)
theory ProfileSelect
  imports ProfileLoader
begin

section \<open>Choosing a profile and checking its artifacts\<close>

text \<open>
  \<^verbatim>\<open>server/core/profile_selector.py\<close> (device tier and preset table), and from
  \<^verbatim>\<open>server/core/profile_loader.py\<close> the choice of the profile reference and the artifact
  pre-flight that a reload runs before it drains a backend. The files the detection reads are the
  argument \<open>rd\<close> (the text of a file, empty when it cannot be read), \<open>exists\<close> answers
  \<open>os.path.exists\<close>, and \<open>ram_kb\<close> is the number on the \<open>MemTotal\<close> line, if there is one.
\<close>

subsection \<open>Device tier\<close>

definition str_upper :: "string \<Rightarrow> string" where
  "str_upper s = map ascii_upper_char s"

definition strip_nul :: "string \<Rightarrow> string" where
  "strip_nul s = (let z = (\<lambda>c. (of_char c :: nat) = 0)
     in rev (dropWhile z (rev (dropWhile z s))))"

definition line_break :: "char \<Rightarrow> bool" where
  "line_break c = ((of_char c :: nat) \<in> {10, 11, 12, 13, 28, 29, 30})"

text \<open>\<open>str.splitlines\<close>; \<open>cur\<close> is the line being read, reversed.\<close>

fun split_lines :: "string \<Rightarrow> string \<Rightarrow> string list" where
  "split_lines cur [] = (if cur = [] then [] else [rev cur])"
| "split_lines cur (c # cs) =
     (if (of_char c :: nat) = 13 \<and> cs \<noteq> [] \<and> (of_char (hd cs) :: nat) = 10
      then rev cur # split_lines [] (tl cs)
      else if line_break c then rev cur # split_lines [] cs
      else split_lines (c # cur) cs)"

definition partition_value :: "string \<Rightarrow> string" where
  "partition_value l =
     (if CHR '':'' \<in> set l then str_lower (str_strip (tl (dropWhile (\<lambda>c. c \<noteq> CHR '':'') l))) else '''')"

definition detect_jetson_tier ::
  "(string \<Rightarrow> bool) \<Rightarrow> (string \<Rightarrow> string) \<Rightarrow> nat option \<Rightarrow> string option" where
  "detect_jetson_tier exists rd ram_kb =
     (if \<not> exists ''/etc/nv_tegra_release'' then None
      else
        let model = str_strip (strip_nul (rd ''/proc/device-tree/model''));
            kb = (case ram_kb of None \<Rightarrow> 0 | Some n \<Rightarrow> n);
            gib = 1024 * 1024
        in if contains_str ''AGX'' (str_upper model) \<or> 24 * gib \<le> kb then Some ''jetson-orin-agx''
           else if contains_str ''NX'' (str_upper model) \<or> 12 * gib \<le> kb then Some ''jetson-orin-nx''
           else Some ''jetson-orin-nano'')"

definition detect_rk_tier :: "(string \<Rightarrow> string) \<Rightarrow> string option" where
  "detect_rk_tier rd =
     (let model = str_lower (rd ''/proc/device-tree/model'');
          compat = str_lower (rd ''/proc/device-tree/compatible'');
          hw = (if model = '''' \<and> compat = '''' then
                  concat (map (\<lambda>l. '' '' @ partition_value l)
                    (filter (\<lambda>l. starts_with ''hardware'' (str_lower l) \<or> starts_with ''model'' (str_lower l))
                       (split_lines [] (rd ''/proc/cpuinfo''))))
                else '''');
          haystack = model @ '' '' @ compat @ '' '' @ hw
      in if contains_str ''rk3588'' haystack then Some ''rk3588''
         else if contains_str ''rk3576'' haystack then Some ''rk3576''
         else None)"

definition detect_rpi_tier :: "(string \<Rightarrow> string) \<Rightarrow> string option" where
  "detect_rpi_tier rd =
     (let dt = str_lower (rd ''/proc/device-tree/model'');
          model = (if dt = '''' then
                     (case find (\<lambda>l. starts_with ''model'' (str_lower l)) (split_lines [] (rd ''/proc/cpuinfo'')) of
                        Some l \<Rightarrow> partition_value l | None \<Rightarrow> dt)
                   else dt)
      in if contains_str ''raspberry pi 5'' model \<or> contains_str ''raspberry pi compute module 5'' model
         then Some ''rpi5''
         else if contains_str ''raspberry pi 4'' model \<or> contains_str ''raspberry pi compute module 4'' model
         then Some ''rpi4''
         else None)"

definition detect_device_tier ::
  "environ \<Rightarrow> (string \<Rightarrow> bool) \<Rightarrow> (string \<Rightarrow> string) \<Rightarrow> nat option \<Rightarrow> string" where
  "detect_device_tier os_env exists rd ram_kb =
     (if env_get os_env ''OVS_DEVICE_TIER'' \<noteq> '''' then env_get os_env ''OVS_DEVICE_TIER''
      else case detect_jetson_tier exists rd ram_kb of
             Some t \<Rightarrow> t
           | None \<Rightarrow>
               (case detect_rk_tier rd of
                  Some t \<Rightarrow> t
                | None \<Rightarrow> (case detect_rpi_tier rd of Some t \<Rightarrow> t | None \<Rightarrow> ''unknown'')))"

subsection \<open>Presets and the profile reference\<close>

definition PRESET_TABLE :: "((string \<times> string) \<times> string) list" where
  "PRESET_TABLE =
     [((''jetson-orin-nano'', ''voice_clone''), ''jetson-multilang-highperf''),
      ((''jetson-orin-nx'', ''voice_clone''), ''jetson-multilang-highperf-nx''),
      ((''jetson-orin-agx'', ''voice_clone''), ''jetson-multilang-highperf-nx''),
      ((''jetson-orin-nano'', ''multilang''), ''jetson-qwen3asr-matcha''),
      ((''jetson-orin-nx'', ''multilang''), ''jetson-qwen3asr-matcha-nx''),
      ((''jetson-orin-agx'', ''multilang''), ''jetson-qwen3asr-matcha-nx''),
      ((''jetson-orin-nano'', ''lite_zh_en''), ''jetson-zh-en''),
      ((''jetson-orin-nx'', ''lite_zh_en''), ''jetson-zh-en''),
      ((''jetson-orin-agx'', ''lite_zh_en''), ''jetson-zh-en''),
      ((''rpi4'', ''asr_zh_en''), ''rpi4-asr-zh-en''),
      ((''rpi5'', ''asr_zh_en''), ''rpi4-asr-zh-en''),
      ((''rk3576'', ''multilang''), ''rk3576-multilang''),
      ((''rk3588'', ''multilang''), ''rk3588-multilang'')]"

datatype select_error = UnsupportedPreset string string

definition resolve_profile_name :: "string \<Rightarrow> string \<Rightarrow> (select_error, string) res" where
  "resolve_profile_name preset device_tier =
     (case map_of PRESET_TABLE (device_tier, preset) of
        None \<Rightarrow> Inl (UnsupportedPreset device_tier preset)
      | Some n \<Rightarrow> Inr n)"

text \<open>\<open>_env(*names)\<close>: the first of the variables that is set and not empty.\<close>

fun env_first :: "environ \<Rightarrow> string list \<Rightarrow> string option" where
  "env_first e [] = None"
| "env_first e (n # ns) = (if env_get e n \<noteq> '''' then Some (env_get e n) else env_first e ns)"

definition select_profile_ref :: "environ \<Rightarrow> string \<Rightarrow> (select_error, string option) res" where
  "select_profile_ref e tier =
     (case env_first e [''OVS_PROFILE_JSON'', ''OVS_PROFILE'', ''OVS_PROFILE_DEFAULT''] of
        Some r \<Rightarrow> Inr (Some r)
      | None \<Rightarrow>
          let lm = str_strip (env_get e ''LANGUAGE_MODE'')
          in if lm = ''zh_en'' then Inr (Some ''jetson-zh-en'')
             else if lm = ''multilanguage'' then Inr (Some ''jetson-multilang-highperf'')
             else case env_first e [''OVS_PRESET''] of
                    None \<Rightarrow> Inr None
                  | Some preset \<Rightarrow> bind_res (resolve_profile_name preset tier) (\<lambda>n. Inr (Some n)))"

text \<open>\<open>apply_profile(None)\<close>: nothing selected leaves everything as it is.\<close>

datatype boot_error = BootSelect select_error | BootApply profile_error

definition apply_profile_from_env ::
  "environ \<Rightarrow> string set \<Rightarrow> (string \<rightharpoonup> string \<times> profile_json) \<Rightarrow> (engine \<Rightarrow> string option) \<Rightarrow> string \<Rightarrow>
   pstate \<Rightarrow> boot_error option \<times> pstate" where
  "apply_profile_from_env snap op_keys files provide tier st =
     (case select_profile_ref (env st) tier of
        Inl e \<Rightarrow> (Some (BootSelect e), st)
      | Inr None \<Rightarrow> (None, st)
      | Inr (Some ref) \<Rightarrow>
          (case apply_profile snap op_keys files provide ref [] False None st of
             (r, st') \<Rightarrow> (map_option BootApply r, st')))"

subsection \<open>Artifact pre-flight\<close>

definition PATH_LIKE_SUFFIXES :: "string list" where
  "PATH_LIKE_SUFFIXES = [''_DIR'', ''_ENGINE'', ''_PATH'', ''_BIN'', ''_MANIFEST'', ''_SETTINGS'', ''_FILTERS'',
     ''_JSON'', ''_ONNX'', ''_ROOT'', ''_BASE'', ''_VOICES'', ''_TOKENS'', ''_LONG'']"

definition ends_with :: "string \<Rightarrow> string \<Rightarrow> bool" where
  "ends_with suffix s = starts_with (rev suffix) (rev s)"

definition path_like :: "string \<Rightarrow> bool" where
  "path_like k = list_ex (\<lambda>s. ends_with s k) PATH_LIKE_SUFFIXES"

definition other_modality :: "string option \<Rightarrow> string \<Rightarrow> bool" where
  "other_modality kind k = (kind \<noteq> None \<and> key_kind k \<noteq> None \<and> key_kind k \<noteq> kind)"

definition expected_artifact_paths ::
  "environ \<Rightarrow> profile_json \<Rightarrow> string option \<Rightarrow> (string \<times> string) list" where
  "expected_artifact_paths os_env p kind =
     filter (\<lambda>(k, path). starts_with ''/'' path)
       (map (\<lambda>(k, v). (k, expand_with_profile_env os_env (pj_env p) v))
         (filter (\<lambda>(k, v). path_like k \<and> \<not> other_modality kind k) (pj_env p)))"

definition find_missing_artifacts ::
  "environ \<Rightarrow> (string \<Rightarrow> bool) \<Rightarrow> profile_json \<Rightarrow> string option \<Rightarrow> (string \<times> string) list" where
  "find_missing_artifacts os_env exists p kind =
     filter (\<lambda>(k, path). \<not> exists path) (expected_artifact_paths os_env p kind)"

subsection \<open>Properties\<close>

text \<open>An operator's explicit choice always wins. Whatever preset, language mode and device, the
  first non-empty one of \<open>OVS_PROFILE_JSON\<close>, \<open>OVS_PROFILE\<close>, \<open>OVS_PROFILE_DEFAULT\<close> is the profile
  applied at boot, and selection cannot fail then; an unsupported preset matters only when neither it
  nor a language mode decides, and then the environment is untouched.\<close>

theorem boot_selection_precedence:
  "(\<forall>r. env_first (env st) [''OVS_PROFILE_JSON'', ''OVS_PROFILE'', ''OVS_PROFILE_DEFAULT''] = Some r \<longrightarrow>
      apply_profile_from_env snap op_keys files provide tier st =
        map_prod (map_option BootApply) id (apply_profile snap op_keys files provide r [] False None st)) \<and>
   (\<forall>e st'. apply_profile_from_env snap op_keys files provide tier st = (Some (BootSelect e), st') \<longrightarrow>
      st' = st \<and> (\<exists>preset. env_first (env st) [''OVS_PRESET''] = Some preset \<and>
        (tier, preset) \<notin> fst ` set PRESET_TABLE))"
proof (intro conjI allI impI)
  fix r
  assume "env_first (env st) [''OVS_PROFILE_JSON'', ''OVS_PROFILE'', ''OVS_PROFILE_DEFAULT''] = Some r"
  then show "apply_profile_from_env snap op_keys files provide tier st =
        map_prod (map_option BootApply) id (apply_profile snap op_keys files provide r [] False None st)"
    by (simp add: apply_profile_from_env_def select_profile_ref_def map_prod_def split: prod.split)
next
  fix e st'
  assume a: "apply_profile_from_env snap op_keys files provide tier st = (Some (BootSelect e), st')"
  show "st' = st"
    using a by (auto simp: apply_profile_from_env_def split: sum.splits option.splits prod.splits)
  from a have sel: "select_profile_ref (env st) tier = Inl e"
    by (auto simp: apply_profile_from_env_def split: sum.splits option.splits prod.splits)
  then obtain preset where "env_first (env st) [''OVS_PRESET''] = Some preset"
    and "resolve_profile_name preset tier = Inl e"
    unfolding select_profile_ref_def Let_def by (simp only: split: option.splits if_splits) (auto simp: bind_res_eq_Inl)
  then show "\<exists>preset. env_first (env st) [''OVS_PRESET''] = Some preset \<and>
        (tier, preset) \<notin> fst ` set PRESET_TABLE"
    unfolding resolve_profile_name_def by (metis map_of_eq_None_iff option.case_eq_if sum.distinct(1))
qed

theorem boot_selection_precedence_witness:
  "let st = demo_pstate\<lparr>env := [''OVS_PRESET'' \<mapsto> ''lite_en'', ''OVS_PROFILE'' \<mapsto> ''p'']\<rparr>;
       st2 = demo_pstate\<lparr>env := [''OVS_PRESET'' \<mapsto> ''lite_en'']\<rparr>
   in apply_profile_from_env Map.empty {} Map.empty (\<lambda>_. None) ''rpi4'' st =
        (Some (BootApply (ProfileNotFound ''p'')), st) \<and>
      snd (apply_profile_from_env Map.empty {} Map.empty (\<lambda>_. None) ''rpi4'' st2) = st2 \<and>
      (''rpi4'', ''lite_en'') \<notin> fst ` set PRESET_TABLE"
proof -
  define st where "st = demo_pstate\<lparr>env := [''OVS_PRESET'' \<mapsto> ''lite_en'', ''OVS_PROFILE'' \<mapsto> ''p'']\<rparr>"
  define st2 where "st2 = demo_pstate\<lparr>env := [''OVS_PRESET'' \<mapsto> ''lite_en'']\<rparr>"
  have "env_first (env st) [''OVS_PROFILE_JSON'', ''OVS_PROFILE'', ''OVS_PROFILE_DEFAULT''] = Some ''p''"
    unfolding st_def by code_simp
  with boot_selection_precedence [of st Map.empty "{}" Map.empty "\<lambda>_. None" "''rpi4''"]
  have 1: "apply_profile_from_env Map.empty {} Map.empty (\<lambda>_. None) ''rpi4'' st =
        (Some (BootApply (ProfileNotFound ''p'')), st)"
    by (simp add: apply_profile_def)
  have "fst (apply_profile_from_env Map.empty {} Map.empty (\<lambda>_. None) ''rpi4'' st2) =
      Some (BootSelect (UnsupportedPreset ''rpi4'' ''lite_en''))"
    and f: "env_first (env st2) [''OVS_PRESET''] = Some ''lite_en''"
    unfolding st2_def by code_simp+
  then have "apply_profile_from_env Map.empty {} Map.empty (\<lambda>_. None) ''rpi4'' st2 =
      (Some (BootSelect (UnsupportedPreset ''rpi4'' ''lite_en'')),
       snd (apply_profile_from_env Map.empty {} Map.empty (\<lambda>_. None) ''rpi4'' st2))"
    by (metis prod.collapse)
  with boot_selection_precedence [of st2 Map.empty "{}" Map.empty "\<lambda>_. None" "''rpi4''"] f
  have "snd (apply_profile_from_env Map.empty {} Map.empty (\<lambda>_. None) ''rpi4'' st2) = st2 \<and>
      (''rpi4'', ''lite_en'') \<notin> fst ` set PRESET_TABLE"
    by simp
  with 1 show ?thesis unfolding Let_def st_def st2_def by simp
qed

text \<open>Scoping the pre-flight to one modality drops exactly the records of the other one: the
  missing artifacts of a kind-scoped reload are those of the whole profile whose key is of that kind or
  shared.\<close>

theorem scoped_preflight_exact:
  "find_missing_artifacts os_env exists p (Some kind) =
     filter (\<lambda>(k, path). key_kind k = None \<or> key_kind k = Some kind)
       (find_missing_artifacts os_env exists p None)"
proof -
  show ?thesis
    unfolding find_missing_artifacts_def expected_artifact_paths_def other_modality_def
    by (simp add: filter_map o_def case_prod_beta) (rule arg_cong [where f = "map _"], rule filter_cong, auto)
qed

end
