(* ===== verification/ApiAuth.thy ===== *)
theory ApiAuth
  imports Metrics
begin

section \<open>API keys and the admin gate\<close>

text \<open>
  \<^verbatim>\<open>server/core/api_auth.py\<close> and \<^verbatim>\<open>server/core/admin_auth.py\<close>. Texts that a client sends are
  code points (\<^typ>\<open>ustr\<close>), because \<open>hmac.compare_digest\<close> accepts ASCII \<open>str\<close> only and raises
  \<open>TypeError\<close> on anything else. A header or parameter that is absent is \<^const>\<open>None\<close>. Log lines,
  among them the masked key, are not modelled; whether the socket accepts and closes is given by
  the arguments of \<open>check_ws\<close>.
\<close>

subsection \<open>Keys and credentials\<close>

fun split_comma :: "ustr \<Rightarrow> ustr list" where
  "split_comma [] = [[]]"
| "split_comma (c # cs) =
     (if c = 44 then [] # split_comma cs
      else case split_comma cs of [] \<Rightarrow> [[c]] | p # ps \<Rightarrow> (c # p) # ps)"

definition parse_keys :: "ustr option \<Rightarrow> ustr list" where
  "parse_keys raw =
     (case raw of None \<Rightarrow> [] | Some r \<Rightarrow> filter (\<lambda>k. k \<noteq> []) (map u_strip (split_comma r)))"

definition is_enabled :: "ustr option \<Rightarrow> bool" where
  "is_enabled raw = (0 < length (parse_keys raw))"

datatype auth_error = TypeErrorNonAscii | Unauthorized401 | Forbidden403

definition u_ascii :: "ustr \<Rightarrow> bool" where
  "u_ascii s = list_all (\<lambda>c. c < 128) s"

definition compare_digest :: "ustr \<Rightarrow> ustr \<Rightarrow> (auth_error, bool) res" where
  "compare_digest a b = (if u_ascii a \<and> u_ascii b then Inr (a = b) else Inl TypeErrorNonAscii)"

fun matches_loop :: "ustr \<Rightarrow> ustr list \<Rightarrow> bool \<Rightarrow> (auth_error, bool) res" where
  "matches_loop candidate [] matched = Inr matched"
| "matches_loop candidate (k # ks) matched =
     bind_res (compare_digest candidate k) (\<lambda>eq. matches_loop candidate ks (matched \<or> eq))"

definition matches_key :: "ustr \<Rightarrow> ustr list \<Rightarrow> (auth_error, bool) res" where
  "matches_key candidate keys = (if candidate = [] then Inr False else matches_loop candidate keys False)"

definition u_lower_ascii :: "ustr \<Rightarrow> ustr" where
  "u_lower_ascii s = map (\<lambda>c. if 65 \<le> c \<and> c \<le> 90 then c + 32 else c) s"

definition u_of :: "string \<Rightarrow> ustr" where
  "u_of s = map of_char s"

text \<open>\<open>authorization.split(None, 1)\<close>: the first word and the rest without its leading spaces.\<close>

definition split_first_word :: "ustr \<Rightarrow> ustr list" where
  "split_first_word s =
     (let t = u_lstrip s;
          w = takeWhile (\<lambda>c. \<not> u_space c) t;
          r = u_lstrip (dropWhile (\<lambda>c. \<not> u_space c) t)
      in if t = [] then [] else if r = [] then [w] else [w, r])"

text \<open>No character outside ASCII lowers to a letter of \<open>bearer\<close>.\<close>

definition extract_bearer :: "ustr option \<Rightarrow> ustr option" where
  "extract_bearer authorization =
     (case authorization of
        None \<Rightarrow> None
      | Some a \<Rightarrow>
          (case split_first_word a of
             [scheme, token] \<Rightarrow>
               if u_lower_ascii scheme \<noteq> u_of ''bearer'' then None else Some (u_strip token)
           | _ \<Rightarrow> None))"

subsection \<open>The checks\<close>

text \<open>The endpoint label of a rejection is \<open>url.path or "unknown"\<close>.\<close>

definition endpoint_label :: "string \<Rightarrow> string" where
  "endpoint_label path = (if path = '''' then ''unknown'' else path)"

definition authorised :: "ustr option \<Rightarrow> ustr list \<Rightarrow> (auth_error, bool) res" where
  "authorised token keys =
     (case token of
        None \<Rightarrow> Inr False
      | Some t \<Rightarrow> if t = [] then Inr False else matches_key t keys)"

definition check_http ::
  "bool \<Rightarrow> ustr option \<Rightarrow> ustr option \<Rightarrow> string \<Rightarrow> metrics \<Rightarrow> (auth_error, unit) res \<times> metrics" where
  "check_http boom api_keys authz path m =
     (let keys = parse_keys api_keys
      in if keys = [] then (Inr (), m)
         else case authorised (extract_bearer authz) keys of
                Inl e \<Rightarrow> (Inl e, m)
              | Inr True \<Rightarrow> (Inr (), m)
              | Inr False \<Rightarrow> (Inl Unauthorized401, snd (inc_auth_rejected boom (endpoint_label path) m)))"

datatype ws_action = WsAccept | WsClose int

definition ws_token :: "ustr option \<Rightarrow> ustr option \<Rightarrow> ustr option" where
  "ws_token authz query =
     (case authz of Some a \<Rightarrow> extract_bearer authz | None \<Rightarrow> map_option u_strip query)"

definition check_ws ::
  "bool \<Rightarrow> ustr option \<Rightarrow> ustr option \<Rightarrow> ustr option \<Rightarrow> string \<Rightarrow> bool \<Rightarrow> bool \<Rightarrow> metrics \<Rightarrow>
   (auth_error, bool) res \<times> ws_action list \<times> metrics" where
  "check_ws boom api_keys authz query path accept_ok close_ok m =
     (let keys = parse_keys api_keys
      in if keys = [] then (Inr True, [], m)
         else case authorised (ws_token authz query) keys of
                Inl e \<Rightarrow> (Inl e, [], m)
              | Inr True \<Rightarrow> (Inr True, [], m)
              | Inr False \<Rightarrow>
                  (Inr False,
                   (if accept_ok then WsAccept # (if close_ok then [WsClose 4401] else []) else []),
                   snd (inc_auth_rejected boom (endpoint_label path) m)))"

text \<open>\<open>boom\<close> says whether the metrics call raises, which both checks ignore.\<close>

definition unauthorized_response :: "bool \<Rightarrow> string \<Rightarrow> metrics \<Rightarrow> int \<times> metrics" where
  "unauthorized_response boom endpoint m = (401, snd (inc_auth_rejected boom endpoint m))"

text \<open>\<open>ip_address(host).is_loopback\<close> is the argument \<open>ip_loopback\<close>, \<^const>\<open>None\<close> where it raises
  \<open>ValueError\<close>.\<close>

definition is_loopback :: "(ustr \<Rightarrow> bool option) \<Rightarrow> ustr option \<Rightarrow> bool" where
  "is_loopback ip_loopback host =
     (case host of
        None \<Rightarrow> False
      | Some h \<Rightarrow> if h = [] then False else case ip_loopback h of Some b \<Rightarrow> b | None \<Rightarrow> False)"

definition admin_key :: "ustr option \<Rightarrow> ustr option" where
  "admin_key raw = (case raw of None \<Rightarrow> None | Some r \<Rightarrow> if u_strip r = [] then None else Some (u_strip r))"

definition require_admin ::
  "(ustr \<Rightarrow> bool option) \<Rightarrow> ustr option \<Rightarrow> ustr option \<Rightarrow> ustr option \<Rightarrow> (auth_error, unit) res" where
  "require_admin ip_loopback env_key host x_admin_key =
     (if is_loopback ip_loopback host then Inr ()
      else case admin_key env_key of
             None \<Rightarrow> Inl Forbidden403
           | Some expected \<Rightarrow>
               bind_res (compare_digest (case x_admin_key of Some k \<Rightarrow> k | None \<Rightarrow> []) expected)
                 (\<lambda>eq. if eq then Inr () else Inl Unauthorized401))"

subsection \<open>Properties\<close>

lemma matches_loop_ascii:
  "u_ascii c \<Longrightarrow> list_all u_ascii ks \<Longrightarrow> matches_loop c ks b = Inr (b \<or> c \<in> set ks)"
  by (induction ks arbitrary: b) (auto simp: compare_digest_def)

lemma matches_loop_nonascii:
  "\<not> u_ascii c \<Longrightarrow> ks \<noteq> [] \<Longrightarrow> matches_loop c ks b = Inl TypeErrorNonAscii"
  by (cases ks) (auto simp: compare_digest_def)

lemma parse_keys_nonempty: "k \<in> set (parse_keys raw) \<Longrightarrow> k \<noteq> []"
  by (auto simp: parse_keys_def split: option.splits)

lemma authorised_ascii:
  "list_all u_ascii (parse_keys raw) \<Longrightarrow> (\<And>t. token = Some t \<Longrightarrow> u_ascii t) \<Longrightarrow>
   authorised token (parse_keys raw) = Inr (\<exists>t. token = Some t \<and> t \<in> set (parse_keys raw))"
  by (cases token)
    (auto simp: authorised_def matches_key_def matches_loop_ascii dest: parse_keys_nonempty)

text \<open>With ASCII keys configured, a WebSocket is let in exactly when the token it presents, the
  bearer token if it has an \<open>Authorization\<close> header at all and the query token otherwise, is one of
  the keys; so a wrong header is not rescued by a right query token. A refused socket counts one
  rejection for its endpoint.\<close>

theorem ws_auth_exact:
  assumes "parse_keys api_keys \<noteq> []" and "list_all u_ascii (parse_keys api_keys)"
    and "\<And>t. ws_token authz query = Some t \<Longrightarrow> u_ascii t"
  shows "check_ws boom api_keys authz query path accept_ok close_ok m =
     (if \<exists>t. ws_token authz query = Some t \<and> t \<in> set (parse_keys api_keys)
      then (Inr True, [], m)
      else (Inr False,
            (if accept_ok then WsAccept # (if close_ok then [WsClose 4401] else []) else []),
            snd (inc_auth_rejected boom (endpoint_label path) m)))"
  unfolding check_ws_def Let_def using authorised_ascii [OF assms(2,3)] assms(1)
  by (auto split: bool.splits)

theorem ws_auth_exact_witness:
  "fst (check_ws False (Some (u_of ''k1, k2'')) (Some (u_of ''Bearer bad'')) (Some (u_of ''k1'')) ''/v2v'' True True metrics_init)
     = Inr False \<and>
   fst (check_ws False (Some (u_of ''k1, k2'')) None (Some (u_of '' k2 '')) ''/v2v'' True True metrics_init) = Inr True"
proof -
  have k: "parse_keys (Some (u_of ''k1, k2'')) = [u_of ''k1'', u_of ''k2'']" by code_simp
  have a: "list_all u_ascii [u_of ''k1'', u_of ''k2'']" by code_simp
  have t: "ws_token (Some (u_of ''Bearer bad'')) (Some (u_of ''k1'')) = Some (u_of ''bad'')"
    "ws_token None (Some (u_of '' k2 '')) = Some (u_of ''k2'')" by code_simp+
  have "u_ascii (u_of ''bad'')" "u_ascii (u_of ''k1'')" "u_ascii (u_of ''k2'')" "u_of ''bad'' \<notin> set [u_of ''k1'', u_of ''k2'']"
    by code_simp+
  then show ?thesis
    using ws_auth_exact [of "Some (u_of ''k1, k2'')" "Some (u_of ''Bearer bad'')" "Some (u_of ''k1'')" False "''/v2v''" True True metrics_init]
      ws_auth_exact [of "Some (u_of ''k1, k2'')" None "Some (u_of '' k2 '')" False "''/v2v''" True True metrics_init]
    unfolding k t by (simp add: a)
qed

text \<open>A token outside ASCII is not answered with 401. When authentication is on, any non-empty
  bearer token that has a non-ASCII character makes the HTTP check raise \<open>TypeError\<close>, and the
  rejection is not counted.\<close>

theorem non_ascii_token_raises:
  assumes "parse_keys api_keys \<noteq> []" and "extract_bearer authz = Some t" and "\<not> u_ascii t"
  shows "check_http boom api_keys authz path m = (Inl TypeErrorNonAscii, m)"
proof -
  have "t \<noteq> []" using assms(3) by (auto simp: u_ascii_def)
  then show ?thesis
    using assms by (simp add: check_http_def authorised_def matches_key_def matches_loop_nonascii)
qed

theorem non_ascii_token_raises_witness:
  "check_http False (Some (u_of ''k1'')) (Some (u_of ''Bearer '' @ [233])) ''/tts'' metrics_init = (Inl TypeErrorNonAscii, metrics_init)"
proof (rule non_ascii_token_raises)
  show "parse_keys (Some (u_of ''k1'')) \<noteq> []" by code_simp
  show "extract_bearer (Some (u_of ''Bearer '' @ [233])) = Some [233]" by code_simp
  show "\<not> u_ascii [233]" by code_simp
qed

text \<open>The admin gate admits a caller only from a loopback address or with the configured secret,
  and never when no secret is configured and the caller is remote.\<close>

theorem admin_gate_sound:
  "require_admin ip_loopback env_key host x = Inr () \<longleftrightarrow>
     is_loopback ip_loopback host \<or>
     (\<exists>e. admin_key env_key = Some e \<and> e \<noteq> [] \<and> u_ascii e \<and> x = Some e)"
proof (cases "is_loopback ip_loopback host")
  case True
  then show ?thesis by (simp add: require_admin_def)
next
  case False
  show ?thesis
  proof (cases "admin_key env_key")
    case None
    with False show ?thesis by (simp add: require_admin_def)
  next
    case (Some e)
    then have "e \<noteq> []" by (auto simp: admin_key_def split: option.splits if_splits)
    with False Some show ?thesis
      by (cases x) (auto simp: require_admin_def bind_res_eq_Inr compare_digest_def)
  qed
qed

end
