(* ===== verification/BackendManager.thy ===== *)
theory BackendManager
  imports ProfileSelect Metrics
begin

section \<open>Backend lifecycle and hot reload\<close>

text \<open>
  \<^verbatim>\<open>server/core/backend_manager.py\<close>. One \<open>BackendManager\<close> runs on one event loop, so a step of
  the model is what the code does between two suspension points: a request enters or leaves, a
  reload passes its checks and starts to drain, the drain ends (all of section 5 of \<open>reload\<close> is
  synchronous, its lock is never contended there), the drain times out, or the reload task is
  cancelled while it waits.

  A backend instance is the index of its construction; \<open>built\<close> remembers the environment it was
  built in, \<open>unloaded\<close> the instances handed to the unloader. Both are observations of the injected
  callables, as is \<open>requests\<close>: slot \<open>i\<close> holds the instance that the \<open>i\<close>-th admitted request got,
  until it leaves. What the injected callables do is the argument \<open>world\<close>.
\<close>

datatype bstate = INIT | READY | DRAINING | RELOADING | FAILED

fun state_value :: "bstate \<Rightarrow> string" where
  "state_value INIT = ''init''"
| "state_value READY = ''ready''"
| "state_value DRAINING = ''draining''"
| "state_value RELOADING = ''reloading''"
| "state_value FAILED = ''failed''"

text \<open>The operator snapshot is the list of its items. The factory and the preloader succeed or raise depending on the environment they read.\<close>

record world =
  w_snap :: "(string \<times> string) list"
  w_files :: "string \<rightharpoonup> string \<times> profile_json"
  w_provide :: "engine \<Rightarrow> string option"
  w_exists :: "string \<Rightarrow> bool"
  w_factory :: "environ \<Rightarrow> bool"
  w_preload :: "environ \<Rightarrow> bool"
  w_hot :: "environ \<Rightarrow> bool"

text \<open>Where the reload task is: the locals it keeps while it drains.\<close>

datatype reload_pc =
  NoReload
| Draining (dr_old: nat) (dr_old_ref: "string option") (dr_ref: "string option")

record mgr =
  kind :: string
  bstate :: bstate
  current_b :: "nat option"
  inflight :: nat
  last_ref :: "string option"
  initial_ref :: "string option"
  ws :: "nat set"
  pc :: reload_pc
  prof :: pstate
  mx :: metrics
  built :: "environ list"
  unloaded :: "nat list"
  requests :: "nat option list"
  closed_ws :: "nat set"

datatype mgr_error =
  BadManagerName string
| StartInState bstate
| StartFailed
| Unavailable503 bstate
| ReloadInProgress409
| NotReady409 bstate
| HotReloadUnsupported400
| InvalidProfile400
| ArtifactsMissing400 "(string \<times> string) list"
| DrainTimeout409 nat
| ReloadAndRollbackFailed500

definition emit_state :: "bstate \<Rightarrow> mgr \<Rightarrow> mgr" where
  "emit_state s m = m\<lparr>bstate := s, mx := set_backend_state (kind m) (state_value s) 1 (mx m)\<rparr>"

definition emit_reload :: "string \<Rightarrow> mgr \<Rightarrow> mgr" where
  "emit_reload r m = m\<lparr>mx := record_backend_reload r (mx m)\<rparr>"

definition new_manager :: "string \<Rightarrow> string option \<Rightarrow> pstate \<Rightarrow> metrics \<Rightarrow> (mgr_error, mgr) res" where
  "new_manager name iref p m =
     (if name \<notin> {''tts'', ''asr''} then Inl (BadManagerName name)
      else Inr (emit_state INIT \<lparr>kind = name, bstate = INIT, current_b = None, inflight = 0,
        last_ref = None, initial_ref = iref, ws = {}, pc = NoReload, prof = p, mx = m,
        built = [], unloaded = [], requests = [], closed_ws = {}\<rparr>))"

text \<open>\<open>factory()\<close> then \<open>preloader(b)\<close>: whether an instance came out, whether it is preloaded.\<close>

definition build :: "world \<Rightarrow> mgr \<Rightarrow> (nat option \<times> bool) \<times> mgr" where
  "build w m =
     (let e = env (prof m)
      in if \<not> w_factory w e then ((None, False), m)
         else ((Some (length (built m)), w_preload w e), m\<lparr>built := built m @ [e]\<rparr>))"

definition unload :: "nat \<Rightarrow> mgr \<Rightarrow> mgr" where
  "unload b m = m\<lparr>unloaded := unloaded m @ [b]\<rparr>"

definition start :: "world \<Rightarrow> mgr \<Rightarrow> mgr_error option \<times> mgr" where
  "start w m =
     (if bstate m \<noteq> INIT then (Some (StartInState (bstate m)), m)
      else case build w m of
             ((Some b, True), m1) \<Rightarrow>
               (None, emit_state READY (m1\<lparr>current_b := Some b,
                  last_ref := (if initial_ref m1 \<noteq> None \<and> last_ref m1 = None then initial_ref m1
                               else last_ref m1)\<rparr>))
           | (_, m1) \<Rightarrow> (Some StartFailed, emit_state FAILED m1))"

definition shutdown :: "mgr \<Rightarrow> mgr" where
  "shutdown m =
     (let m1 = emit_state DRAINING m;
          m2 = (case current_b m1 of Some b \<Rightarrow> unload b m1 | None \<Rightarrow> m1)
      in emit_state FAILED (m2\<lparr>current_b := None\<rparr>))"

definition is_ready :: "mgr \<Rightarrow> bool" where
  "is_ready m = (bstate m = READY \<and> current_b m \<noteq> None)"

definition get_backend_unsafe :: "mgr \<Rightarrow> (mgr_error, nat) res" where
  "get_backend_unsafe m =
     (if bstate m \<noteq> READY then Inl (Unavailable503 (bstate m))
      else case current_b m of None \<Rightarrow> Inl (Unavailable503 (bstate m)) | Some b \<Rightarrow> Inr b)"

definition acquire :: "mgr \<Rightarrow> (mgr_error, nat) res \<times> mgr" where
  "acquire m =
     (case get_backend_unsafe m of
        Inl e \<Rightarrow> (Inl e, m)
      | Inr b \<Rightarrow> (Inr (length (requests m)),
                   m\<lparr>inflight := inflight m + 1, requests := requests m @ [Some b]\<rparr>))"

definition leave_request :: "nat \<Rightarrow> mgr \<Rightarrow> mgr" where
  "leave_request i m =
     (if i < length (requests m) \<and> requests m ! i \<noteq> None
      then m\<lparr>inflight := inflight m - 1, requests := (requests m)[i := None]\<rparr> else m)"

definition register_ws :: "nat \<Rightarrow> mgr \<Rightarrow> mgr" where
  "register_ws h m = m\<lparr>ws := insert h (ws m)\<rparr>"

definition unregister_ws :: "nat \<Rightarrow> mgr \<Rightarrow> mgr" where
  "unregister_ws h m = m\<lparr>ws := ws m - {h}\<rparr>"

definition status :: "mgr \<Rightarrow> string \<times> nat \<times> nat" where
  "status m = (state_value (bstate m), inflight m, card (ws m))"

subsection \<open>reload\<close>

text \<open>The checks, up to the point where the drain starts and the sockets are closed.\<close>

definition old_profile_ref :: "mgr \<Rightarrow> string option" where
  "old_profile_ref m =
     (if last_ref m \<noteq> None \<and> last_ref m \<noteq> Some '''' then last_ref m
      else case current (prof m) of None \<Rightarrow> None | Some p \<Rightarrow> pj_name p)"

definition check_profile :: "world \<Rightarrow> string option \<Rightarrow> mgr \<Rightarrow> (mgr_error, unit) res" where
  "check_profile w ref m =
     (case ref of
        None \<Rightarrow> Inr ()
      | Some r \<Rightarrow>
          (case w_files w r of
             None \<Rightarrow> Inl InvalidProfile400
           | Some (_, p) \<Rightarrow>
               let missing = find_missing_artifacts (env (prof m)) (w_exists w) p (Some (kind m))
               in if missing \<noteq> [] then Inl (ArtifactsMissing400 missing) else Inr ()))"

definition reload_start :: "world \<Rightarrow> string option \<Rightarrow> mgr \<Rightarrow> mgr_error option \<times> mgr" where
  "reload_start w ref m =
     (if pc m \<noteq> NoReload then (Some ReloadInProgress409, m)
      else case get_backend_unsafe m of
             Inl _ \<Rightarrow> (Some (NotReady409 (bstate m)), m)
           | Inr b \<Rightarrow>
               if \<not> w_hot w (built m ! b) then (Some HotReloadUnsupported400, m)
               else case check_profile w ref m of
                      Inl e \<Rightarrow> (Some e, m)
                    | Inr _ \<Rightarrow>
                        (None, (emit_state DRAINING m)\<lparr>pc := Draining b (old_profile_ref m) ref,
                                 closed_ws := closed_ws m \<union> ws m\<rparr>))"

definition drain_timeout :: "mgr \<Rightarrow> mgr_error option \<times> mgr" where
  "drain_timeout m =
     (Some (DrainTimeout409 (inflight m)),
      emit_reload ''drain_timeout'' ((emit_state READY m)\<lparr>pc := NoReload\<rparr>))"

datatype reload_result = Reloaded | RolledBack

definition apply_ref :: "world \<Rightarrow> string option \<Rightarrow> mgr \<Rightarrow> bool \<times> mgr" where
  "apply_ref w ref m =
     (case ref of
        None \<Rightarrow> (True, m)
      | Some r \<Rightarrow>
          (case apply_profile (map_of (w_snap w)) (fst ` set (w_snap w)) (w_files w) (w_provide w) r [] True
                  (Some (kind m)) (prof m) of
             (e, p) \<Rightarrow> (e = None, m\<lparr>prof := p\<rparr>)))"

text \<open>\<open>_current = b\<close>, READY, and the reply.\<close>

definition install :: "nat \<Rightarrow> string \<Rightarrow> mgr \<Rightarrow> mgr" where
  "install b result m = emit_reload result ((emit_state READY (m\<lparr>current_b := Some b\<rparr>))\<lparr>pc := NoReload\<rparr>)"

definition rollback ::
  "world \<Rightarrow> string option \<Rightarrow> string option \<Rightarrow> nat option \<Rightarrow> mgr \<Rightarrow> (mgr_error, reload_result) res \<times> mgr" where
  "rollback w ref old_ref new_backend m =
     (let m0 = emit_reload ''fail'' m;
          m1 = (case new_backend of Some b \<Rightarrow> unload b m0 | None \<Rightarrow> m0);
          dead = (\<lambda>m'. (Inl ReloadAndRollbackFailed500, (emit_state FAILED (m'\<lparr>current_b := None\<rparr>))\<lparr>pc := NoReload\<rparr>))
      in case apply_ref w (if ref \<noteq> None then old_ref else None) m1 of
           (False, m2) \<Rightarrow> dead m2
         | (True, m2) \<Rightarrow>
             (case build w m2 of
                ((Some b, True), m3) \<Rightarrow> (Inr RolledBack, install b ''rollback'' m3)
              | (_, m3) \<Rightarrow> dead m3))"

definition reload_run ::
  "world \<Rightarrow> nat \<Rightarrow> string option \<Rightarrow> string option \<Rightarrow> mgr \<Rightarrow> (mgr_error, reload_result) res \<times> mgr" where
  "reload_run w old old_ref ref m =
     (let m1 = unload old ((emit_state RELOADING m)\<lparr>current_b := None\<rparr>)
      in case apply_ref w ref m1 of
           (False, m2) \<Rightarrow> rollback w ref old_ref None m2
         | (True, m2) \<Rightarrow>
             (case build w m2 of
                ((Some b, True), m3) \<Rightarrow>
                  (Inr Reloaded,
                   install b ''success'' (m3\<lparr>last_ref := (if ref \<noteq> None then ref else last_ref m3)\<rparr>))
              | ((nb, _), m3) \<Rightarrow> rollback w ref old_ref nb m3))"

text \<open>The drain completes only when no HTTP request is in flight.\<close>

definition drain_done :: "world \<Rightarrow> mgr \<Rightarrow> (mgr_error, reload_result) res option \<times> mgr" where
  "drain_done w m =
     (case pc m of
        NoReload \<Rightarrow> (None, m)
      | Draining old old_ref ref \<Rightarrow>
          if inflight m \<noteq> 0 then (None, m)
          else (case reload_run w old old_ref ref m of (r, m') \<Rightarrow> (Some r, m')))"

text \<open>\<open>CancelledError\<close> at an \<open>await\<close> of the drain: the lock is released, nothing else is undone.\<close>

definition cancel_reload :: "mgr \<Rightarrow> mgr" where
  "cancel_reload m = m\<lparr>pc := NoReload\<rparr>"

datatype mgr_event =
  Start
| Acquire
| Leave nat
| RegisterWs nat
| UnregisterWs nat
| ReloadStart "string option"
| DrainDone
| DrainTimeout
| CancelReload
| Shutdown
| ProfileChanged pstate

text \<open>\<^const>\<open>ProfileChanged\<close>: the profile state is shared by the process, so the other manager's reload
  can change it between any two steps of this one.\<close>

fun mgr_step :: "world \<Rightarrow> mgr \<Rightarrow> mgr_event \<Rightarrow> mgr" where
  "mgr_step w m Start = snd (start w m)"
| "mgr_step w m Acquire = snd (acquire m)"
| "mgr_step w m (Leave i) = leave_request i m"
| "mgr_step w m (RegisterWs h) = register_ws h m"
| "mgr_step w m (UnregisterWs h) = unregister_ws h m"
| "mgr_step w m (ReloadStart ref) = snd (reload_start w ref m)"
| "mgr_step w m DrainDone = snd (drain_done w m)"
| "mgr_step w m DrainTimeout = (if pc m = NoReload then m else snd (drain_timeout m))"
| "mgr_step w m CancelReload = (if pc m = NoReload then m else cancel_reload m)"
| "mgr_step w m Shutdown = shutdown m"
| "mgr_step w m (ProfileChanged p) = m\<lparr>prof := p\<rparr>"

text \<open>\<open>init_backend_managers\<close>: the process installs both managers, once.\<close>

definition init_backend_managers ::
  "(mgr \<times> mgr) option \<Rightarrow> string option \<Rightarrow> pstate \<Rightarrow> metrics \<Rightarrow> (mgr \<times> mgr) option" where
  "init_backend_managers installed iref p m =
     (if installed \<noteq> None then None
      else case new_manager ''tts'' iref p m of
             Inl _ \<Rightarrow> None
           | Inr t \<Rightarrow> (case new_manager ''asr'' iref p (mx t) of Inl _ \<Rightarrow> None | Inr a \<Rightarrow> Some (t, a)))"

subsection \<open>Invariant\<close>

definition gauge_ok :: "mgr \<Rightarrow> bool" where
  "gauge_ok m \<longleftrightarrow>
     (\<forall>s. g_backend_state (mx m) (kind m, state_value s) = (if s = bstate m then 1 else 0))"

definition holders_ok :: "mgr \<Rightarrow> bool" where
  "holders_ok m \<longleftrightarrow>
     inflight m = count_where (\<lambda>r. r \<noteq> None) (requests m) \<and>
     (\<forall>r \<in> set (requests m). r \<noteq> None \<longrightarrow> r = current_b m)"

definition instances_ok :: "mgr \<Rightarrow> bool" where
  "instances_ok m \<longleftrightarrow>
     (\<forall>b. current_b m = Some b \<longrightarrow> b \<notin> set (unloaded m) \<and> b < length (built m)) \<and>
     (\<forall>b \<in> set (unloaded m). b < length (built m))"

definition phase_ok :: "mgr \<Rightarrow> bool" where
  "phase_ok m \<longleftrightarrow>
     (case pc m of
        NoReload \<Rightarrow> bstate m \<noteq> RELOADING \<and> (bstate m = READY \<longrightarrow> current_b m \<noteq> None) \<and>
          (bstate m = INIT \<longrightarrow> current_b m = None)
      | Draining old _ _ \<Rightarrow> bstate m = DRAINING \<and> current_b m = Some old)"

definition mgr_inv :: "mgr \<Rightarrow> bool" where
  "mgr_inv m \<longleftrightarrow> kind m \<in> {''tts'', ''asr''} \<and> gauge_ok m \<and> holders_ok m \<and> instances_ok m \<and> phase_ok m"

lemmas mgr_inv_defs = mgr_inv_def holders_ok_def instances_ok_def phase_ok_def

lemma state_value_in: "state_value s \<in> set BACKEND_STATES"
  by (cases s) (simp_all add: BACKEND_STATES_def)

lemma state_value_inj [simp]: "state_value s = state_value t \<longleftrightarrow> s = t"
  by (cases s; cases t) simp_all

lemma gauge_emit_state:
  assumes "kind m \<in> {''tts'', ''asr''}"
  shows "gauge_ok (emit_state s m)"
proof -
  have "kind m \<in> set BACKEND_MANAGERS" using assms by (auto simp: BACKEND_MANAGERS_def)
  then show ?thesis
    by (auto simp: gauge_ok_def emit_state_def set_backend_state_one_hot [OF _ state_value_in state_value_in])
qed

lemma emit_state_sel [simp]:
  "bstate (emit_state s m) = s" "kind (emit_state s m) = kind m" "current_b (emit_state s m) = current_b m"
  "inflight (emit_state s m) = inflight m" "requests (emit_state s m) = requests m"
  "pc (emit_state s m) = pc m" "prof (emit_state s m) = prof m" "built (emit_state s m) = built m"
  "unloaded (emit_state s m) = unloaded m" "last_ref (emit_state s m) = last_ref m"
  "initial_ref (emit_state s m) = initial_ref m" "ws (emit_state s m) = ws m"
  by (simp_all add: emit_state_def)

lemma emit_reload_sel [simp]:
  "bstate (emit_reload s m) = bstate m" "kind (emit_reload s m) = kind m"
  "current_b (emit_reload s m) = current_b m" "inflight (emit_reload s m) = inflight m"
  "requests (emit_reload s m) = requests m" "pc (emit_reload s m) = pc m" "prof (emit_reload s m) = prof m"
  "built (emit_reload s m) = built m" "unloaded (emit_reload s m) = unloaded m"
  "last_ref (emit_reload s m) = last_ref m" "gauge_ok (emit_reload s m) = gauge_ok m"
  by (simp_all add: emit_reload_def gauge_ok_def record_backend_reload_def Let_def)

lemma gauge_ok_upd [simp]:
  "gauge_ok (m\<lparr>pc := a\<rparr>) = gauge_ok m" "gauge_ok (m\<lparr>closed_ws := b\<rparr>) = gauge_ok m"
  "gauge_ok (m\<lparr>ws := b\<rparr>) = gauge_ok m" "gauge_ok (m\<lparr>inflight := n\<rparr>) = gauge_ok m"
  "gauge_ok (m\<lparr>requests := r\<rparr>) = gauge_ok m" "gauge_ok (m\<lparr>prof := p\<rparr>) = gauge_ok m"
  by (simp_all add: gauge_ok_def)

lemma apply_ref_sel:
  "apply_ref w ref m = (b, m') \<Longrightarrow> \<exists>p. m' = m\<lparr>prof := p\<rparr>"
  unfolding apply_ref_def by (cases m) (auto split: option.splits prod.splits)

lemma build_sel:
  "build w m = ((nb, b), m') \<Longrightarrow>
   (\<exists>es. m' = m\<lparr>built := built m @ es\<rparr>) \<and> (nb = None \<longrightarrow> \<not> b) \<and>
   (\<forall>i. nb = Some i \<longrightarrow> i = length (built m) \<and> built m' = built m @ [env (prof m)] \<and>
     w_factory w (env (prof m)) \<and> (b \<longleftrightarrow> w_preload w (env (prof m))))"
  unfolding build_def Let_def by (cases m) (auto split: if_splits)

lemma build_frame:
  assumes "build w m = ((nb, b), m')"
  shows "unloaded m' = unloaded m \<and> prof m' = prof m \<and> kind m' = kind m \<and> bstate m' = bstate m"
proof -
  obtain es where "m' = m\<lparr>built := built m @ es\<rparr>" using build_sel [OF assms] by blast
  then show ?thesis by simp
qed

text \<open>What a reload is when its section 5 begins, and what it leaves: no request holds an instance.\<close>

definition idle_inv :: "mgr \<Rightarrow> bool" where
  "idle_inv m \<longleftrightarrow> kind m \<in> {''tts'', ''asr''} \<and> (\<forall>r \<in> set (requests m). r = None) \<and> inflight m = 0 \<and>
     (\<forall>b \<in> set (unloaded m). b < length (built m))"

lemma count_where_None: "(\<forall>r \<in> set rs. r = None) \<Longrightarrow> count_where (\<lambda>r. r \<noteq> None) rs = 0"
  by (induction rs) auto

lemma idle_installed:
  assumes "idle_inv m" and "b < length (built m)" and "b \<notin> set (unloaded m)"
  shows "mgr_inv (install b r m)"
proof -
  have k: "kind m \<in> {''tts'', ''asr''}" using assms(1) by (simp add: idle_inv_def)
  have "gauge_ok (emit_state READY (m\<lparr>current_b := Some b\<rparr>))" using k by (simp add: gauge_emit_state)
  moreover have "inflight m = count_where (\<lambda>r. r \<noteq> None) (requests m)"
    using assms(1) count_where_None by (auto simp: idle_inv_def)
  ultimately show ?thesis
    using assms by (auto simp: install_def mgr_inv_defs idle_inv_def)
qed

lemma idle_dead:
  assumes "idle_inv m"
  shows "mgr_inv ((emit_state FAILED (m\<lparr>current_b := None\<rparr>))\<lparr>pc := NoReload\<rparr>)"
proof -
  have "kind m \<in> {''tts'', ''asr''}" using assms by (simp add: idle_inv_def)
  then have "gauge_ok (emit_state FAILED (m\<lparr>current_b := None\<rparr>))" by (simp add: gauge_emit_state)
  moreover have "inflight m = count_where (\<lambda>r. r \<noteq> None) (requests m)"
    using assms count_where_None by (auto simp: idle_inv_def)
  ultimately show ?thesis using assms by (auto simp: mgr_inv_defs idle_inv_def)
qed

lemma apply_ref_idle:
  "idle_inv m \<Longrightarrow> apply_ref w ref m = (b, m') \<Longrightarrow>
   idle_inv m' \<and> built m' = built m \<and> unloaded m' = unloaded m"
  using apply_ref_sel [of w ref m b m'] by (auto simp: idle_inv_def)

lemma build_idle:
  "idle_inv m \<Longrightarrow> build w m = ((nb, b), m') \<Longrightarrow>
   idle_inv m' \<and> unloaded m' = unloaded m \<and> (nb = None \<longrightarrow> \<not> b) \<and>
   (\<forall>i. nb = Some i \<longrightarrow> i < length (built m') \<and> i \<notin> set (unloaded m'))"
  using build_sel [of w m nb b m'] by (fastforce simp: idle_inv_def)

lemma unload_idle:
  "idle_inv m \<Longrightarrow> b < length (built m) \<Longrightarrow> idle_inv (unload b m)"
  by (auto simp: idle_inv_def unload_def)

lemma emit_reload_idle: "idle_inv (emit_reload r m) = idle_inv m"
  by (simp add: idle_inv_def)

lemma rollback_eq:
  assumes "m1 = (case nb of Some b \<Rightarrow> unload b (emit_reload ''fail'' m) | None \<Rightarrow> emit_reload ''fail'' m)"
    and "apply_ref w (if ref \<noteq> None then old_ref else None) m1 = (ok2, m2)"
    and "build w m2 = ((nb3, ok3), m3)"
  shows "rollback w ref old_ref nb m =
     (if ok2 \<and> nb3 \<noteq> None \<and> ok3 then (Inr RolledBack, install (the nb3) ''rollback'' m3)
      else (Inl ReloadAndRollbackFailed500,
            (emit_state FAILED ((if ok2 then m3 else m2)\<lparr>current_b := None\<rparr>))\<lparr>pc := NoReload\<rparr>))"
  unfolding rollback_def Let_def assms(1) [symmetric] assms(2)
  by (cases ok2; cases nb3; cases ok3) (simp_all add: assms(3))

lemma reload_run_eq:
  assumes "m1 = unload old ((emit_state RELOADING m)\<lparr>current_b := None\<rparr>)"
    and "apply_ref w ref m1 = (ok2, m2)" and "build w m2 = ((nb3, ok3), m3)"
  shows "reload_run w old old_ref ref m =
     (if ok2 \<and> nb3 \<noteq> None \<and> ok3 then (Inr Reloaded, install (the nb3) ''success''
        (m3\<lparr>last_ref := (if ref \<noteq> None then ref else last_ref m3)\<rparr>))
      else if ok2 then rollback w ref old_ref nb3 m3 else rollback w ref old_ref None m2)"
  unfolding reload_run_def Let_def assms(1) [symmetric] assms(2)
  by (cases ok2; cases nb3; cases ok3) (simp_all add: assms(3))

lemma rollback_inv:
  assumes "idle_inv m" and "\<And>b. nb = Some b \<Longrightarrow> b < length (built m)"
  shows "mgr_inv (snd (rollback w ref old_ref nb m))"
proof -
  define m1 where "m1 = (case nb of Some b \<Rightarrow> unload b (emit_reload ''fail'' m) | None \<Rightarrow> emit_reload ''fail'' m)"
  have i1: "idle_inv m1"
    using assms by (auto simp: m1_def emit_reload_idle unload_idle split: option.splits)
  obtain ok2 m2 where a: "apply_ref w (if ref \<noteq> None then old_ref else None) m1 = (ok2, m2)"
    by fastforce
  with i1 have i2: "idle_inv m2" using apply_ref_idle by blast
  obtain nb3 ok3 m3 where b: "build w m2 = ((nb3, ok3), m3)" by (metis prod.collapse)
  note b3 = build_idle [OF i2 b]
  show ?thesis
    unfolding rollback_eq [OF m1_def a b]
    using i2 b3 idle_installed idle_dead by (cases ok2; cases nb3; cases ok3) simp_all
qed

lemma reload_run_inv:
  assumes "idle_inv m" and "old < length (built m)"
  shows "mgr_inv (snd (reload_run w old old_ref ref m))"
proof -
  define m1 where "m1 = unload old ((emit_state RELOADING m)\<lparr>current_b := None\<rparr>)"
  have i1: "idle_inv m1" using assms by (auto simp: m1_def idle_inv_def unload_def)
  obtain ok2 m2 where a: "apply_ref w ref m1 = (ok2, m2)" by fastforce
  with i1 have i2: "idle_inv m2" using apply_ref_idle by blast
  obtain nb3 ok3 m3 where b: "build w m2 = ((nb3, ok3), m3)" by (metis prod.collapse)
  note b3 = build_idle [OF i2 b]
  have rb: "mgr_inv (snd (rollback w ref old_ref None m2))" "mgr_inv (snd (rollback w ref old_ref nb3 m3))"
    using i2 b3 by (auto intro!: rollback_inv)
  have i3: "idle_inv (m3\<lparr>last_ref := r\<rparr>)" for r using b3 by (simp add: idle_inv_def)
  show ?thesis
    unfolding reload_run_eq [OF m1_def a b]
    using i2 b3 idle_installed [OF i3] rb by (cases ok2; cases nb3; cases ok3) simp_all
qed

lemma draining_idle:
  "mgr_inv m \<Longrightarrow> pc m = Draining old a b \<Longrightarrow> inflight m = 0 \<Longrightarrow> idle_inv m \<and> old < length (built m)"
  by (auto simp: mgr_inv_defs idle_inv_def count_where_0_iff in_set_conv_nth)

lemma gauge_ok_upd_built [simp]: "gauge_ok (m\<lparr>built := x, current_b := c, last_ref := r\<rparr>) = gauge_ok m"
  "gauge_ok (m\<lparr>unloaded := y\<rparr>) = gauge_ok m"
  by (simp_all add: gauge_ok_def)

lemma start_inv:
  assumes "mgr_inv m"
  shows "mgr_inv (snd (start w m))"
proof (cases "bstate m = INIT")
  case False
  with assms show ?thesis by (simp add: start_def)
next
  case True
  have k: "kind m \<in> {''tts'', ''asr''}" using assms by (simp add: mgr_inv_def)
  have npc: "pc m = NoReload" and cb: "current_b m = None"
    using assms True by (auto simp: mgr_inv_defs split: reload_pc.splits)
  have none: "\<forall>r \<in> set (requests m). r = None" using assms cb by (auto simp: mgr_inv_defs)
  obtain nb b m1 where bd: "build w m = ((nb, b), m1)" by (metis prod.collapse)
  note sel = build_sel [OF bd]
  then obtain es where m1: "m1 = m\<lparr>built := built m @ es\<rparr>" by blast
  have g: "gauge_ok (emit_state t (m1\<lparr>current_b := c, last_ref := l\<rparr>))" for t c l
    using k by (simp add: m1 gauge_emit_state)
  have g2: "gauge_ok (emit_state FAILED m1)" using k by (simp add: m1 gauge_emit_state)
  have c0: "inflight m = count_where (\<lambda>r. r \<noteq> None) (requests m)" using assms by (simp add: mgr_inv_defs)
  have old: "\<forall>x \<in> set (unloaded m). x < length (built m)" using assms by (simp add: mgr_inv_defs)
  show ?thesis
  proof (cases "nb = None \<or> \<not> b")
    case True2: True
    then have "snd (start w m) = emit_state FAILED m1"
      using True bd sel by (cases nb; cases b) (auto simp: start_def)
    then show ?thesis
      using k npc cb none c0 old g2 by (auto simp: mgr_inv_defs m1)
  next
    case False
    then obtain i where i: "nb = Some i" "b" by auto
    then have "snd (start w m) = emit_state READY (m1\<lparr>current_b := Some i,
        last_ref := (if initial_ref m1 \<noteq> None \<and> last_ref m1 = None then initial_ref m1 else last_ref m1)\<rparr>)"
      using True bd by (simp add: start_def)
    moreover have "i = length (built m)" "built m1 = built m @ [env (prof m)]" using sel i by blast+
    ultimately show ?thesis
      using k npc none c0 old g by (auto simp: mgr_inv_defs m1)
  qed
qed

lemma acquire_inv: "mgr_inv m \<Longrightarrow> mgr_inv (snd (acquire m))"
  unfolding acquire_def get_backend_unsafe_def
  by (auto simp: mgr_inv_defs split: option.splits if_splits reload_pc.splits)

lemma leave_request_inv:
  assumes "mgr_inv m"
  shows "mgr_inv (leave_request i m)"
proof (cases "i < length (requests m) \<and> requests m ! i \<noteq> None")
  case False
  with assms show ?thesis by (auto simp: leave_request_def)
next
  case True
  then have "count_where (\<lambda>r. r \<noteq> None) ((requests m)[i := None]) + 1 = count_where (\<lambda>r. r \<noteq> None) (requests m)"
    using count_where_update [of i "requests m" "\<lambda>r. r \<noteq> None" None] by simp
  moreover have "set ((requests m)[i := None]) \<subseteq> insert None (set (requests m))"
    by (rule set_update_subset_insert)
  ultimately show ?thesis
    using assms True unfolding leave_request_def by (auto simp: mgr_inv_defs split: reload_pc.splits)
qed

lemma reload_start_cases:
  "snd (reload_start w ref m) = m \<or>
   (\<exists>b. pc m = NoReload \<and> bstate m = READY \<and> current_b m = Some b \<and>
      snd (reload_start w ref m) =
        (emit_state DRAINING m)\<lparr>pc := Draining b (old_profile_ref m) ref, closed_ws := closed_ws m \<union> ws m\<rparr>)"
  unfolding reload_start_def get_backend_unsafe_def
  by (cases "pc m"; cases "bstate m = READY"; cases "current_b m"; cases "check_profile w ref m") simp_all

lemma reload_start_inv:
  assumes "mgr_inv m"
  shows "mgr_inv (snd (reload_start w ref m))"
proof -
  have g: "gauge_ok (emit_state DRAINING m)" using assms by (simp add: gauge_emit_state mgr_inv_def)
  from reload_start_cases [of w ref m] show ?thesis
  proof
    assume "snd (reload_start w ref m) = m"
    with assms show ?thesis by simp
  next
    assume "\<exists>b. pc m = NoReload \<and> bstate m = READY \<and> current_b m = Some b \<and>
      snd (reload_start w ref m) =
        (emit_state DRAINING m)\<lparr>pc := Draining b (old_profile_ref m) ref, closed_ws := closed_ws m \<union> ws m\<rparr>"
    then obtain b where "current_b m = Some b" and e: "snd (reload_start w ref m) =
        (emit_state DRAINING m)\<lparr>pc := Draining b (old_profile_ref m) ref, closed_ws := closed_ws m \<union> ws m\<rparr>"
      by blast
    with assms g show ?thesis unfolding e by (simp add: mgr_inv_defs)
  qed
qed

lemma drain_done_inv:
  assumes "mgr_inv m"
  shows "mgr_inv (snd (drain_done w m))"
proof (cases "pc m")
  case NoReload
  with assms show ?thesis by (simp add: drain_done_def)
next
  case (Draining old old_ref ref)
  show ?thesis
  proof (cases "inflight m = 0")
    case True
    with draining_idle [OF assms Draining] have "mgr_inv (snd (reload_run w old old_ref ref m))"
      by (blast intro: reload_run_inv)
    with Draining True show ?thesis by (simp add: drain_done_def case_prod_beta)
  next
    case False
    with assms Draining show ?thesis by (simp add: drain_done_def)
  qed
qed

lemma drain_timeout_inv:
  assumes "mgr_inv m" and "pc m \<noteq> NoReload"
  shows "mgr_inv (snd (drain_timeout m))"
proof -
  have "gauge_ok (emit_state READY m)" using assms(1) by (simp add: gauge_emit_state mgr_inv_def)
  then show ?thesis
    using assms unfolding drain_timeout_def by (auto simp: mgr_inv_defs split: reload_pc.splits)
qed

lemma cancel_reload_inv: "mgr_inv m \<Longrightarrow> mgr_inv (cancel_reload m)"
  unfolding cancel_reload_def by (auto simp: mgr_inv_defs split: reload_pc.splits)

lemma mgr_inv_frame:
  "mgr_inv (m\<lparr>ws := h\<rparr>) = mgr_inv m" "mgr_inv (m\<lparr>prof := p\<rparr>) = mgr_inv m"
  by (cases "pc m"; simp add: mgr_inv_def holders_ok_def instances_ok_def phase_ok_def)+

lemma mgr_step_inv:
  assumes "mgr_inv m" and "e \<noteq> Shutdown"
  shows "mgr_inv (mgr_step w m e)"
proof (cases e)
  case Start
  with assms(1) show ?thesis by (simp add: start_inv)
next
  case Acquire
  with assms(1) show ?thesis by (simp add: acquire_inv)
next
  case (ReloadStart ref)
  with assms(1) show ?thesis by (simp add: reload_start_inv)
next
  case DrainDone
  with assms(1) show ?thesis by (simp add: drain_done_inv)
next
  case (Leave i)
  with assms(1) show ?thesis by (simp add: leave_request_inv)
next
  case DrainTimeout
  with assms(1) drain_timeout_inv [OF assms(1)] show ?thesis by simp
next
  case CancelReload
  with assms(1) cancel_reload_inv [OF assms(1)] show ?thesis by simp
next
  case Shutdown
  with assms(2) show ?thesis by simp
qed (use assms(1) in \<open>simp_all add: register_ws_def unregister_ws_def mgr_inv_frame\<close>)

lemma mgr_run_inv:
  "mgr_inv m \<Longrightarrow> Shutdown \<notin> set es \<Longrightarrow> mgr_inv (foldl (mgr_step w) m es)"
proof (induction es arbitrary: m)
  case Nil
  then show ?case by simp
next
  case (Cons e es)
  then have "mgr_inv (mgr_step w m e)" by (metis list.set_intros(1) mgr_step_inv)
  from Cons.IH [OF this] Cons.prems(2) show ?case by simp
qed

lemma new_manager_inv: "new_manager name iref p mt = Inr m \<Longrightarrow> mgr_inv m"
  by (auto simp: new_manager_def mgr_inv_defs gauge_emit_state split: if_splits)

subsection \<open>Properties\<close>

definition demo_world :: "(environ \<Rightarrow> bool) \<Rightarrow> world" where
  "demo_world good = \<lparr>w_snap = [],
     w_files = [''a'' \<mapsto> (''a'', demo_pj [(''ASR_DIR'', ''a'')] [] []),
                ''b'' \<mapsto> (''b'', demo_pj [(''ASR_BEAM'', ''4'')] [] [])],
     w_provide = (\<lambda>_. None), w_exists = (\<lambda>_. True), w_factory = (\<lambda>_. True), w_preload = good,
     w_hot = (\<lambda>_. True)\<rparr>"

definition demo_mgr :: mgr where
  "demo_mgr = (case new_manager ''asr'' (Some ''a'') demo_pstate metrics_init of Inr m \<Rightarrow> m | Inl _ \<Rightarrow> undefined)"

lemma demo_mgr_new: "new_manager ''asr'' (Some ''a'') demo_pstate metrics_init = Inr demo_mgr"
  by (simp add: demo_mgr_def new_manager_def)

text \<open>C1: whatever requests, reloads, timeouts, cancellations and profile changes happen in whatever
  order, a request in flight holds the manager's current instance, and that instance has never been
  handed to the unloader. So no backend is unloaded under a request that uses it.\<close>

theorem no_request_on_unloaded_backend:
  assumes "new_manager name iref p mt = Inr m0" and "Shutdown \<notin> set es"
    and "m = foldl (mgr_step w) m0 es" and "i < length (requests m)" and "requests m ! i = Some b"
  shows "current_b m = Some b \<and> b \<notin> set (unloaded m) \<and> b < length (built m)"
proof -
  have "mgr_inv m" unfolding assms(3) by (rule mgr_run_inv [OF new_manager_inv [OF assms(1)] assms(2)])
  then have h: "holders_ok m" "instances_ok m" by (simp_all add: mgr_inv_def)
  have "Some b \<in> set (requests m)" using assms(4,5) nth_mem by metis
  with h(1) have "current_b m = Some b" unfolding holders_ok_def by fastforce
  with h(2) show ?thesis by (simp add: instances_ok_def)
qed

theorem no_request_on_unloaded_backend_witness:
  "current_b (foldl (mgr_step (demo_world (\<lambda>_. True))) demo_mgr
     [Start, Acquire, ReloadStart (Some ''b''), Acquire, Leave 0, DrainDone, Acquire]) = Some 1"
proof -
  let ?m = "foldl (mgr_step (demo_world (\<lambda>_. True))) demo_mgr
     [Start, Acquire, ReloadStart (Some ''b''), Acquire, Leave 0, DrainDone, Acquire]"
  have "requests ?m = [None, Some 1]" by code_simp
  then show ?thesis using no_request_on_unloaded_backend [OF demo_mgr_new, of "[Start, Acquire,
    ReloadStart (Some ''b''), Acquire, Leave 0, DrainDone, Acquire]" ?m _ 1 1] by simp
qed

lemma install_sel [simp]:
  "bstate (install b r m) = READY" "current_b (install b r m) = Some b" "pc (install b r m) = NoReload"
  "built (install b r m) = built m" "unloaded (install b r m) = unloaded m" "prof (install b r m) = prof m"
  "last_ref (install b r m) = last_ref m"
  by (simp_all add: install_def)

text \<open>One outcome of the second half of a reload, with what is true of the manager in each.\<close>

definition outcome_ok :: "world \<Rightarrow> nat \<Rightarrow> mgr \<Rightarrow> (mgr_error, reload_result) res \<Rightarrow> mgr \<Rightarrow> bool" where
  "outcome_ok w n m r m' \<longleftrightarrow> pc m' = NoReload \<and>
     (case r of
        Inl e \<Rightarrow> e = ReloadAndRollbackFailed500 \<and> bstate m' = FAILED \<and> current_b m' = None
      | Inr _ \<Rightarrow> is_ready m' \<and> current_b m' = Some (length (built m') - 1) \<and> n < length (built m') \<and>
          last (built m') = env (prof m') \<and> w_factory w (env (prof m')) \<and> w_preload w (env (prof m')) \<and>
          (\<forall>b. n \<le> b \<and> b < length (built m') - 1 \<longrightarrow> b \<in> set (unloaded m')))"

lemma rollback_outcome:
  assumes "built m = bs" and "length bs = n \<and> nb = None \<or> length bs = Suc n \<and> nb = Some n"
  shows "outcome_ok w n m (fst (rollback w ref old_ref nb m)) (snd (rollback w ref old_ref nb m))"
proof -
  define m1 where "m1 = (case nb of Some b \<Rightarrow> unload b (emit_reload ''fail'' m) | None \<Rightarrow> emit_reload ''fail'' m)"
  have m1: "built m1 = bs" "nb = None \<or> n \<in> set (unloaded m1)"
    using assms by (auto simp: m1_def unload_def)
  obtain ok2 m2 where a: "apply_ref w (if ref \<noteq> None then old_ref else None) m1 = (ok2, m2)"
    by fastforce
  have m2: "built m2 = bs" "unloaded m2 = unloaded m1" using apply_ref_sel [OF a] m1 by auto
  obtain nb3 ok3 m3 where b: "build w m2 = ((nb3, ok3), m3)" by (metis prod.collapse)
  have m3: "unloaded m3 = unloaded m1" "prof m3 = prof m2" using build_frame [OF b] m2 by auto
  show ?thesis
  proof (cases "ok2 \<and> nb3 \<noteq> None \<and> ok3")
    case False
    then show ?thesis unfolding rollback_eq [OF m1_def a b] by (simp only: if_False) (simp add: outcome_ok_def)
  next
    case True
    then obtain i where i: "nb3 = Some i" by auto
    with build_sel [OF b] m2 have e: "i = length bs" "built m3 = bs @ [env (prof m2)]"
      "w_factory w (env (prof m2))" "ok3 \<longleftrightarrow> w_preload w (env (prof m2))" by metis+
    moreover have "w_preload w (env (prof m2))" using e True by blast
    moreover have "rollback w ref old_ref nb m = (Inr RolledBack, install i ''rollback'' m3)"
      using True i by (simp add: rollback_eq [OF m1_def a b])
    ultimately show ?thesis
      using m3 m1(2) assms(2) by (auto simp: outcome_ok_def is_ready_def le_less_Suc_eq)
  qed
qed

lemma reload_run_outcome:
  "outcome_ok w (length (built m)) m (fst (reload_run w old old_ref ref m)) (snd (reload_run w old old_ref ref m))"
proof -
  define m1 where "m1 = unload old ((emit_state RELOADING m)\<lparr>current_b := None\<rparr>)"
  have m1: "built m1 = built m" by (simp add: m1_def unload_def)
  obtain ok2 m2 where a: "apply_ref w ref m1 = (ok2, m2)" by fastforce
  have m2: "built m2 = built m" using apply_ref_sel [OF a] m1 by auto
  obtain nb3 ok3 m3 where b: "build w m2 = ((nb3, ok3), m3)" by (metis prod.collapse)
  note sel = build_sel [OF b]
  show ?thesis
  proof (cases "ok2 \<and> nb3 \<noteq> None \<and> ok3")
    case True
    then obtain i where i: "nb3 = Some i" by auto
    with sel m2 have e: "i = length (built m)" "built m3 = built m @ [env (prof m2)]"
      "w_factory w (env (prof m2))" "ok3 \<longleftrightarrow> w_preload w (env (prof m2))" by metis+
    moreover have "prof m3 = prof m2" "w_preload w (env (prof m2))"
      using build_frame [OF b] e True by blast+
    moreover have "reload_run w old old_ref ref m = (Inr Reloaded,
        install i ''success'' (m3\<lparr>last_ref := (if ref \<noteq> None then ref else last_ref m3)\<rparr>))"
      using True i by (simp add: reload_run_eq [OF m1_def a b])
    ultimately show ?thesis by (auto simp: outcome_ok_def is_ready_def)
  next
    case False
    have rb2: "outcome_ok w (length (built m)) m (fst (rollback w ref old_ref None m2)) (snd (rollback w ref old_ref None m2))"
      using rollback_outcome [of m2 "built m" "length (built m)" None w ref old_ref] m2
      by (simp add: outcome_ok_def)
    have rb3: "outcome_ok w (length (built m)) m (fst (rollback w ref old_ref nb3 m3)) (snd (rollback w ref old_ref nb3 m3))"
      if "ok2"
    proof (cases nb3)
      case None
      then have "built m3 = built m" using b m2 by (auto simp: build_def Let_def split: if_splits)
      with None rollback_outcome [of m3 "built m" "length (built m)" None w ref old_ref]
      show ?thesis by (simp add: outcome_ok_def)
    next
      case (Some i)
      with sel m2 have "i = length (built m)" "built m3 = built m @ [env (prof m2)]" by metis+
      with Some rollback_outcome [of m3 "built m3" "length (built m)" nb3 w ref old_ref]
      show ?thesis by (simp add: outcome_ok_def)
    qed
    have "reload_run w old old_ref ref m =
        (if ok2 then rollback w ref old_ref nb3 m3 else rollback w ref old_ref None m2)"
      unfolding reload_run_eq [OF m1_def a b] using False by (simp only: if_False)
    with rb2 rb3 show ?thesis by simp
  qed
qed

text \<open>C24: once a reload has drained it always answers, and in exactly one of two ways. Either a backend
  built and preloaded in the environment now in force is installed and ready, and every other instance
  the reload built has been unloaded, or both the reload and its rollback failed: the answer is the 500,
  no backend is installed and the manager is FAILED.\<close>

theorem drained_reload_outcome:
  assumes "pc m = Draining old old_ref ref" and "inflight m = 0"
  shows "\<exists>r. fst (drain_done w m) = Some r \<and>
     outcome_ok w (length (built m)) m r (snd (drain_done w m))"
  using assms reload_run_outcome [of w m old old_ref ref] by (simp add: drain_done_def case_prod_beta)

theorem drained_reload_outcome_witness:
  "let w = demo_world (\<lambda>e. e ''ASR_BEAM'' = None);
       m = foldl (mgr_step w) demo_mgr [Start, ReloadStart (Some ''b'')]
   in \<exists>r. fst (drain_done w m) = Some r \<and> outcome_ok w (length (built m)) m r (snd (drain_done w m))"
proof -
  define w where "w = demo_world (\<lambda>e. e ''ASR_BEAM'' = None)"
  define m where "m = foldl (mgr_step w) demo_mgr [Start, ReloadStart (Some ''b'')]"
  have "pc m = Draining 0 (Some ''a'') (Some ''b'')" "inflight m = 0"
    unfolding m_def w_def by code_simp+
  from drained_reload_outcome [OF this] show ?thesis unfolding Let_def w_def m_def .
qed

text \<open>A rollback leaves no trace of the failed profile. When the new profile was applied, its
  backend failed and the old profile was restored, an environment key that the new profile set, that
  the operator did not set and the old profile neither sets nor exports, is unset in the environment
  that the restored backend was built in.\<close>

theorem rollback_no_pollution:
  assumes "pc m = Draining old (Some o_ref) (Some n_ref)" and "inflight m = 0"
    and "w_files w o_ref = Some (so, po)" and "w_files w n_ref = Some (sn, pn)"
    and "fst (apply_profile (map_of (w_snap w)) (fst ` set (w_snap w)) (w_files w) (w_provide w) n_ref []
           True (Some (kind m)) (prof m)) = None"
    and "fst (drain_done w m) = Some (Inr RolledBack)"
    and "k \<in> new_keys_of (prof m) sn pn [] (Some (kind m))" and "k \<notin> fst ` set (w_snap w)"
    and "k \<notin> new_keys_of (prof m) so po [] (Some (kind m))"
    and "k \<notin> e_env_var ` set (engines_in_kind po (Some (kind m)))"
  shows "last (built (snd (drain_done w m))) k = None"
proof -
  let ?apply = "apply_profile (map_of (w_snap w)) (fst ` set (w_snap w)) (w_files w) (w_provide w)"
  let ?load = "apply_loaded (map_of (w_snap w)) (fst ` set (w_snap w)) (w_provide w)"
  let ?K = "Some (kind m)"
  define m1 where "m1 = unload old ((emit_state RELOADING m)\<lparr>current_b := None\<rparr>)"
  have m1: "prof m1 = prof m" "kind m1 = kind m" by (simp_all add: m1_def unload_def)
  obtain p2 where ap: "?apply n_ref [] True ?K (prof m) = (None, p2)" using assms(5) by (metis prod.collapse)
  then have l2: "?load sn pn [] True ?K (prof m) = (None, p2)" using assms(4) by (simp add: apply_profile_def)
  have a: "apply_ref w (Some n_ref) m1 = (True, m1\<lparr>prof := p2\<rparr>)" using ap m1 by (simp add: apply_ref_def)
  obtain nb ok3 m3 where b: "build w (m1\<lparr>prof := p2\<rparr>) = ((nb, ok3), m3)" by (metis prod.collapse)
  have m3: "prof m3 = p2" "kind m3 = kind m" using build_frame [OF b] m1 by simp_all
  have run: "reload_run w old (Some o_ref) (Some n_ref) m = rollback w (Some n_ref) (Some o_ref) nb m3"
    and res: "fst (reload_run w old (Some o_ref) (Some n_ref) m) = Inr RolledBack"
    and out: "snd (drain_done w m) = snd (reload_run w old (Some o_ref) (Some n_ref) m)"
  proof -
    show r: "fst (reload_run w old (Some o_ref) (Some n_ref) m) = Inr RolledBack"
      and "snd (drain_done w m) = snd (reload_run w old (Some o_ref) (Some n_ref) m)"
      using assms(1,2,6) by (simp_all add: drain_done_def case_prod_beta)
    show "reload_run w old (Some o_ref) (Some n_ref) m = rollback w (Some n_ref) (Some o_ref) nb m3"
      using r unfolding reload_run_eq [OF m1_def a b] by (auto split: if_splits)
  qed
  define m4 where "m4 = (case nb of Some b \<Rightarrow> unload b (emit_reload ''fail'' m3) | None \<Rightarrow> emit_reload ''fail'' m3)"
  have m4: "prof m4 = p2" "kind m4 = kind m" using m3 by (auto simp: m4_def unload_def split: option.splits)
  obtain ok5 m5 where a5: "apply_ref w (if Some n_ref \<noteq> None then Some o_ref else None) m4 = (ok5, m5)" by fastforce
  obtain nb6 ok6 m6 where b6: "build w m5 = ((nb6, ok6), m6)" by (metis prod.collapse)
  have "ok5" and inst: "nb6 \<noteq> None"
    and fin: "snd (reload_run w old (Some o_ref) (Some n_ref) m) = install (the nb6) ''rollback'' m6"
    using res unfolding run rollback_eq [OF m4_def a5 b6] by (simp_all split: if_splits)
  then obtain p5 where p5: "?apply o_ref [] True ?K p2 = (None, p5)" "prof m5 = p5"
    using a5 m4 by (auto simp: apply_ref_def split: prod.splits)
  then have l5: "?load so po [] True ?K p2 = (None, p5)" using assms(3) by (simp add: apply_profile_def)
  have "env p5 k = None"
  proof (rule apply_loaded_clears [OF l5 _ _ assms(8)])
    show "k \<in> applied p2" using apply_loaded_records [OF l2 assms(7,8)] .
    show "in_scope ?K k" using assms(7) by (rule new_keys_in_scope)
    show "k \<notin> new_keys_of p2 so po [] ?K"
      using assms(9) new_keys_any_env [of p2 so po "[]" ?K "prof m"] by simp
    show "k \<notin> e_env_var ` set (engines_in_kind po ?K)" by (rule assms(10))
  qed
  moreover have "built m6 = built m5 @ [env (prof m5)]" using build_sel [OF b6] inst by blast
  ultimately show ?thesis unfolding out fin using p5(2) by simp
qed

theorem rollback_no_pollution_witness:
  "let w = demo_world (\<lambda>e. e ''ASR_BEAM'' = None);
       m = foldl (mgr_step w) demo_mgr [Start, ReloadStart (Some ''b'')]
   in fst (drain_done w m) = Some (Inr RolledBack) \<and> last (built (snd (drain_done w m))) ''ASR_BEAM'' = None"
proof -
  define w where "w = demo_world (\<lambda>e. e ''ASR_BEAM'' = None)"
  define m where "m = foldl (mgr_step w) demo_mgr [Start, ReloadStart (Some ''b'')]"
  have m: "pc m = Draining 0 (Some ''a'') (Some ''b'')" "inflight m = 0" "kind m = ''asr''"
    unfolding m_def w_def by code_simp+
  have f: "w_files w ''a'' = Some (''a'', demo_pj [(''ASR_DIR'', ''a'')] [] [])"
    "w_files w ''b'' = Some (''b'', demo_pj [(''ASR_BEAM'', ''4'')] [] [])"
    by (simp_all add: w_def demo_world_def)
  have ap: "fst (apply_profile (map_of (w_snap w)) (fst ` set (w_snap w)) (w_files w) (w_provide w) ''b'' []
           True (Some (kind m)) (prof m)) = None"
    unfolding m_def w_def by code_simp
  have r: "fst (drain_done w m) = Some (Inr RolledBack)"
    unfolding m_def w_def by code_simp
  have k: "''ASR_BEAM'' \<in> new_keys_of (prof m) ''b'' (demo_pj [(''ASR_BEAM'', ''4'')] [] []) [] (Some (kind m))"
    "''ASR_BEAM'' \<notin> new_keys_of (prof m) ''a'' (demo_pj [(''ASR_DIR'', ''a'')] [] []) [] (Some (kind m))"
    unfolding m_def w_def by code_simp+
  have "last (built (snd (drain_done w m))) ''ASR_BEAM'' = None"
    by (rule rollback_no_pollution [where k = "''ASR_BEAM''", OF m(1,2) f(1) f(2) ap r k(1) _ k(2)])
      (simp_all add: w_def demo_world_def engines_in_kind_def demo_pj_def)
  with r show ?thesis unfolding Let_def w_def m_def by blast
qed

text \<open>A reload that is cancelled while it drains wedges the manager. Whatever happens later, short
  of a shutdown, the manager stays DRAINING, every request is refused and every reload too.\<close>

theorem cancelled_drain_wedges:
  assumes "mgr_inv m" and "pc m \<noteq> NoReload" and "Shutdown \<notin> set es"
    and "m' = foldl (mgr_step w) (mgr_step w m CancelReload) es"
  shows "fst (acquire m') = Inl (Unavailable503 DRAINING) \<and>
    (\<forall>ref. reload_start w ref m' = (Some (NotReady409 DRAINING), m'))"
proof -
  have step: "bstate (mgr_step w x e) = DRAINING \<and> pc (mgr_step w x e) = NoReload"
    if "bstate x = DRAINING" "pc x = NoReload" "e \<noteq> Shutdown" for x e
    using that by (cases e) (auto simp: start_def acquire_def get_backend_unsafe_def leave_request_def
        register_ws_def unregister_ws_def reload_start_def drain_done_def)
  have "bstate (foldl (mgr_step w) x es) = DRAINING \<and> pc (foldl (mgr_step w) x es) = NoReload"
    if "bstate x = DRAINING" "pc x = NoReload" "Shutdown \<notin> set es" for x
    using that
  proof (induction es arbitrary: x)
    case (Cons e es)
    then have "e \<noteq> Shutdown" "Shutdown \<notin> set es" by auto
    with step [of x e] Cons show ?case by simp
  qed simp
  moreover have "bstate m = DRAINING"
    using assms(1,2) by (auto simp: mgr_inv_def phase_ok_def split: reload_pc.splits)
  ultimately have "bstate m' = DRAINING \<and> pc m' = NoReload"
    using assms(2-4) by (simp add: cancel_reload_def)
  then show ?thesis by (simp add: acquire_def get_backend_unsafe_def reload_start_def)
qed

theorem cancelled_drain_wedges_witness:
  "let w = demo_world (\<lambda>_. True);
       m = foldl (mgr_step w) demo_mgr [Start, Acquire, ReloadStart (Some ''b'')]
   in fst (acquire (foldl (mgr_step w) (mgr_step w m CancelReload) [Leave 0, ReloadStart None])) =
      Inl (Unavailable503 DRAINING)"
proof -
  define w where "w = demo_world (\<lambda>_. True)"
  define m where "m = foldl (mgr_step w) demo_mgr [Start, Acquire, ReloadStart (Some ''b'')]"
  have i: "mgr_inv m"
    unfolding m_def by (rule mgr_run_inv [OF new_manager_inv [OF demo_mgr_new]]) simp
  have p: "pc m = Draining 0 (Some ''a'') (Some ''b'')" unfolding m_def w_def by code_simp
  have "fst (acquire (foldl (mgr_step w) (mgr_step w m CancelReload) [Leave 0, ReloadStart None])) =
      Inl (Unavailable503 DRAINING)"
    using cancelled_drain_wedges [OF i _ _ refl, of "[Leave 0, ReloadStart None]" w] p by simp
  then show ?thesis unfolding Let_def w_def m_def .
qed

fun passive_event :: "mgr_event \<Rightarrow> bool" where
  "passive_event DrainDone = False"
| "passive_event DrainTimeout = False"
| "passive_event CancelReload = False"
| "passive_event Shutdown = False"
| "passive_event _ = True"

text \<open>A drain that times out fails closed. However many requests come and go while a reload drains,
  when it times out the manager is ready again with the instance it had, nothing was built or unloaded,
  and the next failed reload still rolls back to the same profile.\<close>

theorem drain_timeout_keeps_backend:
  assumes "mgr_inv m" and "pc m \<noteq> NoReload" and "\<forall>e \<in> set es. passive_event e"
    and "m' = foldl (mgr_step w) m (es @ [DrainTimeout])"
  shows "is_ready m' \<and> current_b m' = current_b m \<and> built m' = built m \<and> unloaded m' = unloaded m \<and>
    last_ref m' = last_ref m \<and> pc m' = NoReload"
proof -
  define same where "same x y \<longleftrightarrow> pc y = pc x \<and> bstate y = bstate x \<and> current_b y = current_b x \<and>
    built y = built x \<and> unloaded y = unloaded x \<and> last_ref y = last_ref x" for x y :: mgr
  have step: "same x (mgr_step w x e)" if "bstate x = DRAINING" "pc x \<noteq> NoReload" "passive_event e" for x e
    using that by (cases e) (auto simp: same_def start_def acquire_def get_backend_unsafe_def
        leave_request_def register_ws_def unregister_ws_def reload_start_def)
  have run: "same x (foldl (mgr_step w) x es)"
    if "bstate x = DRAINING" "pc x \<noteq> NoReload" "\<forall>e \<in> set es. passive_event e" for x
    using that
  proof (induction es arbitrary: x)
    case Nil
    then show ?case by (simp add: same_def)
  next
    case (Cons e es)
    then have s: "same x (mgr_step w x e)" by (intro step) simp_all
    then have "same (mgr_step w x e) (foldl (mgr_step w) (mgr_step w x e) es)"
      using Cons by (intro Cons.IH) (simp_all add: same_def)
    with s show ?case by (simp add: same_def)
  qed
  have m: "bstate m = DRAINING" "current_b m \<noteq> None"
    using assms(1,2) by (auto simp: mgr_inv_def phase_ok_def split: reload_pc.splits)
  from run [OF m(1) assms(2,3)] show ?thesis
    using assms(2) m unfolding assms(4) same_def by (simp add: drain_timeout_def is_ready_def)
qed

theorem drain_timeout_keeps_backend_witness:
  "let w = demo_world (\<lambda>_. True);
       m = foldl (mgr_step w) demo_mgr [Start, Acquire, ReloadStart (Some ''b'')]
   in is_ready (foldl (mgr_step w) m ([Acquire, RegisterWs 3] @ [DrainTimeout]))"
proof -
  define w where "w = demo_world (\<lambda>_. True)"
  define m where "m = foldl (mgr_step w) demo_mgr [Start, Acquire, ReloadStart (Some ''b'')]"
  have i: "mgr_inv m"
    unfolding m_def by (rule mgr_run_inv [OF new_manager_inv [OF demo_mgr_new]]) simp
  have p: "pc m = Draining 0 (Some ''a'') (Some ''b'')" unfolding m_def w_def by code_simp
  have "is_ready (foldl (mgr_step w) m ([Acquire, RegisterWs 3] @ [DrainTimeout]))"
    using drain_timeout_keeps_backend [OF i _ _ refl, of "[Acquire, RegisterWs 3]" w] p by simp
  then show ?thesis unfolding Let_def w_def m_def .
qed

end
