(* ===== verification/Coordinator.thy ===== *)
theory Coordinator
  imports CapabilityResolver
begin

section \<open>The execution coordinator\<close>

text \<open>
  \<^verbatim>\<open>server/core/coordinator.py\<close>. The handlers of the two modalities enter \<open>acquire\<close>, run, and leave.
  The lock is \<open>asyncio.Lock\<close>: waiters queue in order, a newcomer does not overtake them, and the task
  at the head takes the lock when it runs after a release (event \<^verbatim>\<open>Resume\<close>).

  \<open>res\<close> is what each backend's \<open>is_ready()\<close> answers; \<open>unload\<close> and \<open>preload\<close> of a backend may change
  it, may do nothing, and may raise, which the environment of the model decides per call.
\<close>

datatype slot = ASR | TTS

fun other_slot :: "slot \<Rightarrow> slot" where
  "other_slot ASR = TTS"
| "other_slot TTS = ASR"

lemma other_slot_simps [simp]: "other_slot s \<noteq> s" "s \<noteq> other_slot s" "other_slot (other_slot s) = s"
  by (cases s; simp)+

text \<open>What a registered backend object offers; an unregistered getter, or one that returns
  \<^verbatim>\<open>None\<close>, is \<open>bk_present = False\<close>.\<close>

record backend_obj =
  bk_present :: bool
  bk_unload :: bool
  bk_preload :: bool
  bk_is_ready :: bool

record coord =
  c_mode :: string
  c_lock :: bool
  c_active :: "slot option"
  c_backends :: "slot \<Rightarrow> backend_obj"
  res :: "slot \<Rightarrow> bool"
  c_running :: "(nat \<times> slot) list"
  c_waiting :: "(nat \<times> slot) list"

text \<open>How the calls go: they raise, or set what \<open>is_ready()\<close> answers afterwards.\<close>

record call_effects =
  un_ok :: bool
  un_frees :: bool
  pre_ok :: bool
  pre_loads :: bool

definition resolve_mode ::
  "voxedge \<Rightarrow> (string \<rightharpoonup> string) \<Rightarrow> (string \<rightharpoonup> scalar) \<Rightarrow> profile option \<Rightarrow> (value_error, string) res" where
  "resolve_mode vx env policy prof =
     (let requested = (case policy ''mode'' of None \<Rightarrow> ''concurrent'' | Some v \<Rightarrow> py_str v)
      in if requested = ''exclusive'' then Inr ''exclusive''
         else case prof of
                None \<Rightarrow> Inr requested
              | Some p \<Rightarrow> bind_res (resolve vx env env (p\<lparr>p_policy := Some policy\<rparr>) '''')
                            (\<lambda>r. Inr (r_coordinator_mode r)))"

definition new_coordinator ::
  "voxedge \<Rightarrow> (string \<rightharpoonup> string) \<Rightarrow> (string \<rightharpoonup> scalar) \<Rightarrow> profile option \<Rightarrow> (value_error, coord) res" where
  "new_coordinator vx env policy prof =
     bind_res (resolve_mode vx env policy prof) (\<lambda>mode.
       Inr \<lparr>c_mode = mode, c_lock = (mode = ''serialized'' \<or> mode = ''exclusive''), c_active = None,
            c_backends = (\<lambda>_. \<lparr>bk_present = False, bk_unload = False, bk_preload = False, bk_is_ready = False\<rparr>),
            res = (\<lambda>_. False), c_running = [], c_waiting = []\<rparr>)"

definition register_backend :: "slot \<Rightarrow> backend_obj \<Rightarrow> coord \<Rightarrow> coord" where
  "register_backend s b c = c\<lparr>c_backends := (c_backends c)(s := b)\<rparr>"

definition lockless :: "coord \<Rightarrow> bool" where
  "lockless c = (c_mode c = ''concurrent'' \<or> \<not> c_lock c)"

text \<open>The eviction of the opposite backend; \<^const>\<open>None\<close> when \<open>unload\<close> raised.\<close>

definition evict :: "call_effects \<Rightarrow> slot \<Rightarrow> coord \<Rightarrow> coord option" where
  "evict fx s c =
     (let o_slot = other_slot s; b = c_backends c o_slot
      in if bk_present b \<and> bk_unload b \<and> (c_active c = Some o_slot \<or> \<not> bk_is_ready b \<or> res c o_slot)
         then (if un_ok fx then Some (if un_frees fx then c\<lparr>res := (res c)(o_slot := False)\<rparr> else c) else None)
         else Some c)"

definition ensure_loaded :: "call_effects \<Rightarrow> slot \<Rightarrow> coord \<Rightarrow> coord option" where
  "ensure_loaded fx s c =
     (let b = c_backends c s
      in if bk_present b \<and> bk_preload b \<and> bk_is_ready b \<and> \<not> res c s
         then (if pre_ok fx then Some (if pre_loads fx then c\<lparr>res := (res c)(s := True)\<rparr> else c) else None)
         else Some c)"

text \<open>The body of \<open>acquire\<close> under the lock, up to the \<open>yield\<close>; an exception releases the lock.\<close>

definition enter_body :: "call_effects \<Rightarrow> nat \<Rightarrow> slot \<Rightarrow> coord \<Rightarrow> coord" where
  "enter_body fx t s c =
     (if c_mode c = ''exclusive'' then
        (case evict fx s c of
           None \<Rightarrow> c
         | Some c1 \<Rightarrow>
             (case ensure_loaded fx s c1 of
                None \<Rightarrow> c1
              | Some c2 \<Rightarrow> c2\<lparr>c_active := Some s, c_running := c_running c2 @ [(t, s)]\<rparr>))
      else c\<lparr>c_active := Some s, c_running := c_running c @ [(t, s)]\<rparr>)"

datatype coord_event =
  EnterSlot nat slot call_effects
| ResumeHead call_effects
| LeaveSlot nat
| CancelWaiter nat

fun coord_step :: "coord \<Rightarrow> coord_event \<Rightarrow> coord" where
  "coord_step c (EnterSlot t s fx) =
     (if t \<in> fst ` set (c_running c @ c_waiting c) then c
      else if lockless c then c\<lparr>c_running := c_running c @ [(t, s)]\<rparr>
      else if c_running c = [] \<and> c_waiting c = [] then enter_body fx t s c
      else c\<lparr>c_waiting := c_waiting c @ [(t, s)]\<rparr>)"
| "coord_step c (ResumeHead fx) =
     (case c_waiting c of
        [] \<Rightarrow> c
      | (t, s) # ws \<Rightarrow> if c_running c = [] then enter_body fx t s (c\<lparr>c_waiting := ws\<rparr>) else c)"
| "coord_step c (LeaveSlot t) = c\<lparr>c_running := filter (\<lambda>r. fst r \<noteq> t) (c_running c)\<rparr>"
| "coord_step c (CancelWaiter t) = c\<lparr>c_waiting := filter (\<lambda>r. fst r \<noteq> t) (c_waiting c)\<rparr>"

subsection \<open>Mutual exclusion and residency\<close>

text \<open>A backend the coordinator can evict and reload, with truthful readiness.\<close>

definition managed :: "backend_obj \<Rightarrow> bool" where
  "managed b = (bk_present b \<and> bk_unload b \<and> bk_preload b \<and> bk_is_ready b)"

definition effective :: "call_effects \<Rightarrow> bool" where
  "effective fx = (un_frees fx \<and> pre_loads fx)"

fun event_effective :: "coord_event \<Rightarrow> bool" where
  "event_effective (EnterSlot t s fx) = effective fx"
| "event_effective (ResumeHead fx) = effective fx"
| "event_effective _ = True"

definition coord_inv :: "coord \<Rightarrow> bool" where
  "coord_inv c \<longleftrightarrow>
     (lockless c \<longrightarrow> c_waiting c = []) \<and> (\<not> lockless c \<longrightarrow> length (c_running c) \<le> 1)"

lemma enter_body_frame:
  "c_mode (enter_body fx t s c) = c_mode c \<and> c_lock (enter_body fx t s c) = c_lock c \<and>
   c_waiting (enter_body fx t s c) = c_waiting c \<and> c_backends (enter_body fx t s c) = c_backends c \<and>
   (c_running (enter_body fx t s c) = c_running c \<or> c_running (enter_body fx t s c) = c_running c @ [(t, s)])"
  by (auto simp: enter_body_def evict_def ensure_loaded_def Let_def)

lemma coord_step_inv: "coord_inv c \<Longrightarrow> coord_inv (coord_step c e)"
proof (cases e)
  case (EnterSlot t s fx)
  assume "coord_inv c"
  then show ?thesis using enter_body_frame [of fx t s c]
    by (auto simp: EnterSlot coord_inv_def lockless_def)
next
  case (ResumeHead fx)
  assume c: "coord_inv c"
  show ?thesis
  proof (cases "c_waiting c")
    case Nil
    with c ResumeHead show ?thesis by simp
  next
    case (Cons w ws)
    then show ?thesis using c enter_body_frame [of fx "fst w" "snd w" "c\<lparr>c_waiting := ws\<rparr>"]
      by (auto simp: ResumeHead coord_inv_def lockless_def split: prod.split)
  qed
next
  case (LeaveSlot t)
  assume c: "coord_inv c"
  have "length (c_running c) \<le> 1 \<Longrightarrow> length (filter (\<lambda>r. fst r \<noteq> t) (c_running c)) \<le> 1"
    by (rule order_trans [OF length_filter_le])
  with c show ?thesis by (simp add: LeaveSlot coord_inv_def lockless_def)
next
  case (CancelWaiter t)
  assume "coord_inv c"
  then show ?thesis by (auto simp: CancelWaiter coord_inv_def lockless_def)
qed

interpretation coord: inv_machine coord_step coord_inv
  by unfold_locales (rule coord_step_inv)

lemma coord_mode_frame:
  "c_mode (coord_step c e) = c_mode c \<and> c_lock (coord_step c e) = c_lock c \<and>
   c_backends (coord_step c e) = c_backends c"
  using enter_body_frame by (cases e) (auto split: list.splits)

lemma coord_run_frame:
  "c_mode (foldl coord_step c es) = c_mode c \<and> c_lock (foldl coord_step c es) = c_lock c \<and>
   c_backends (foldl coord_step c es) = c_backends c"
  by (induction es arbitrary: c) (simp_all add: coord_mode_frame)

lemma new_coordinator_inv: "new_coordinator vx env policy prof = Inr c \<Longrightarrow> coord_inv c"
  by (auto simp: new_coordinator_def bind_res_eq_Inr coord_inv_def)

definition resident_inv :: "coord \<Rightarrow> bool" where
  "resident_inv c \<longleftrightarrow> (\<forall>t s. (t, s) \<in> set (c_running c) \<longrightarrow> res c s \<and> \<not> res c (other_slot s))"

lemma enter_body_resident:
  assumes "c_mode c = ''exclusive''" and "managed (c_backends c ASR)" and "managed (c_backends c TTS)"
    and "effective fx" and "c_running c = []"
  shows "resident_inv (enter_body fx t s c)"
proof -
  have "managed (c_backends c s)" "managed (c_backends c (other_slot s))" using assms(2,3) by (cases s; simp)+
  then show ?thesis
    using assms(1,4,5)
    by (auto simp: resident_inv_def enter_body_def evict_def ensure_loaded_def managed_def effective_def Let_def
        split: option.splits if_splits)
qed

lemma coordinator_exclusion:
  assumes "new_coordinator vx env policy prof = Inr c0"
  shows "(c_mode c0 \<in> {''serialized'', ''exclusive''} \<longrightarrow> length (c_running (foldl coord_step c0 es)) \<le> 1) \<and>
    (c_mode c0 = ''concurrent'' \<longrightarrow> c_waiting (foldl coord_step c0 es) = [])"
proof -
  define c where "c = foldl coord_step c0 es"
  have i: "coord_inv c" unfolding c_def by (rule coord.run_inv [OF new_coordinator_inv [OF assms]])
  have "c_lock c0 = (c_mode c0 = ''serialized'' \<or> c_mode c0 = ''exclusive'')"
    using assms by (auto simp: new_coordinator_def bind_res_eq_Inr)
  then have "c_mode c = c_mode c0" "c_lock c = (c_mode c0 = ''serialized'' \<or> c_mode c0 = ''exclusive'')"
    using coord_run_frame [of c0 es] by (simp_all add: c_def)
  with i show ?thesis unfolding c_def [symmetric] by (auto simp: coord_inv_def lockless_def)
qed

text \<open>Under the \<open>serialized\<close> and \<open>exclusive\<close> policies at most one request of either modality runs
  at any time, whatever the backends do and however requests come, leave and are cancelled; under
  \<open>concurrent\<close> no request ever waits.\<close>

theorem coordinator_mutual_exclusion:
  assumes "new_coordinator vx env policy prof = Inr c0" and "c = foldl coord_step c0 es"
  shows "(c_mode c \<in> {''serialized'', ''exclusive''} \<longrightarrow> length (c_running c) \<le> 1) \<and>
    (c_mode c = ''concurrent'' \<longrightarrow> c_waiting c = [])"
  using coordinator_exclusion [OF assms(1), of es] coord_run_frame [of c0 es] unfolding assms(2) by simp

definition demo_fx :: call_effects where
  "demo_fx = \<lparr>un_ok = True, un_frees = True, pre_ok = True, pre_loads = True\<rparr>"

definition demo_coord :: coord where
  "demo_coord = \<lparr>c_mode = ''exclusive'', c_lock = True, c_active = None,
     c_backends = (\<lambda>_. \<lparr>bk_present = True, bk_unload = True, bk_preload = True, bk_is_ready = True\<rparr>),
     res = (\<lambda>_. True), c_running = [], c_waiting = []\<rparr>"

theorem coordinator_mutual_exclusion_witness:
  "\<exists>c0 vx. new_coordinator vx Map.empty [''mode'' \<mapsto> SStr ''exclusive''] None = Inr c0 \<and>
     length (c_running (foldl coord_step c0 [EnterSlot 1 ASR demo_fx, EnterSlot 2 TTS demo_fx])) \<le> 1"
proof -
  define es where "es = [EnterSlot 1 ASR demo_fx, EnterSlot 2 TTS demo_fx]"
  obtain c0 where c: "new_coordinator undefined Map.empty [''mode'' \<mapsto> SStr ''exclusive''] None = Inr c0"
    by (auto simp: new_coordinator_def resolve_mode_def)
  then have "c_mode c0 = ''exclusive''" by (auto simp: new_coordinator_def resolve_mode_def)
  then have "c_mode (foldl coord_step c0 es) = ''exclusive''" using coord_run_frame [of c0 es] by simp
  with coordinator_mutual_exclusion [OF c refl, of es]
  have "length (c_running (foldl coord_step c0 es)) \<le> 1" by simp
  with c show ?thesis unfolding es_def by blast
qed

text \<open>\<open>exclusive\<close> is a residency contract. With backends that can be unloaded and reloaded, and
  whose calls do what they say when they return, the backend of a running request is loaded and the other
  one is not, from the first request on, even when both were preloaded at startup.\<close>

theorem exclusive_residency:
  assumes "c_mode c0 = ''exclusive''" and "c_lock c0" and "c_running c0 = []" and "c_waiting c0 = []"
    and "managed (c_backends c0 ASR)" and "managed (c_backends c0 TTS)"
    and "\<forall>e \<in> set es. event_effective e" and "c = foldl coord_step c0 es"
    and "(t, s) \<in> set (c_running c)"
  shows "res c s \<and> \<not> res c (other_slot s)"
proof -
  define good where "good c \<longleftrightarrow> c_mode c = ''exclusive'' \<and> c_lock c \<and> managed (c_backends c ASR) \<and>
    managed (c_backends c TTS) \<and> coord_inv c \<and> resident_inv c" for c
  have step: "good (coord_step c e)" if g: "good c" and e: "event_effective e" for c e
  proof -
    have r: "resident_inv (coord_step c e)"
    proof (cases e)
      case (EnterSlot t s fx)
      have "resident_inv (enter_body fx t s c)" if "c_running c = []"
        using g e that enter_body_resident by (simp add: good_def EnterSlot)
      then show ?thesis using g by (auto simp: EnterSlot good_def lockless_def resident_inv_def)
    next
      case (ResumeHead fx)
      have "resident_inv (enter_body fx t s (c\<lparr>c_waiting := ws\<rparr>))" if "c_running c = []" for t s ws
        using g e that enter_body_resident by (simp add: good_def ResumeHead)
      then show ?thesis using g by (auto simp: ResumeHead good_def split: list.split)
    qed (use g in \<open>auto simp: good_def resident_inv_def\<close>)
    show ?thesis using g r coord_step_inv [of c e] coord_mode_frame [of c e] unfolding good_def by metis
  qed
  have run: "good (foldl coord_step c es)" if "good c" "\<forall>e \<in> set es. event_effective e" for c
    using that
  proof (induction es arbitrary: c)
    case (Cons e es)
    then show ?case using step [of c e] by simp
  qed simp
  have "good c0" using assms(1-6) by (simp add: good_def coord_inv_def lockless_def resident_inv_def)
  from run [OF this assms(7)] have "resident_inv c" by (simp add: good_def assms(8))
  with assms(9) show ?thesis by (auto simp: resident_inv_def)
qed

theorem exclusive_residency_witness:
  "let c = foldl coord_step demo_coord
     [EnterSlot 1 ASR demo_fx, EnterSlot 2 TTS demo_fx, LeaveSlot 1, ResumeHead demo_fx]
   in c_running c = [(2, TTS)] \<and> res c TTS \<and> \<not> res c ASR"
proof -
  define es where "es = [EnterSlot 1 ASR demo_fx, EnterSlot 2 TTS demo_fx, LeaveSlot 1, ResumeHead demo_fx]"
  have r: "c_running (foldl coord_step demo_coord es) = [(2, TTS)]" unfolding es_def by code_simp
  have e: "\<forall>e \<in> set es. event_effective e" by (simp add: es_def demo_fx_def effective_def)
  have "res (foldl coord_step demo_coord es) TTS \<and> \<not> res (foldl coord_step demo_coord es) (other_slot TTS)"
    by (rule exclusive_residency [OF _ _ _ _ _ _ e refl, of _ 2])
      (simp_all add: r, simp_all add: demo_coord_def managed_def)
  with r show ?thesis unfolding Let_def es_def by simp
qed

end
