(* ===== verification/WorkerIO.thy ===== *)
theory WorkerIO
  imports Prelude
begin

section \<open>Multiplexed requests to a worker process\<close>

text \<open>
  \<^verbatim>\<open>server/core/worker_io.py\<close>: many requests share the stdin and stdout of one subprocess. The steps
  are what the code does between two points where another thread or task can run: every access to the
  in-flight table, the stdin and the closed flag is one step, under its lock. Requests are numbered in
  order of arrival, and the number of a request also names its \<open>queue.Queue\<close>.

  A request of \<open>send_request\<close> waits for the semaphore in an executor thread. When its task is
  cancelled, \<open>Task.cancel\<close> cancels the future it awaits; the thread keeps waiting, and what it acquires
  later is not seen by the done-callback, whose \<open>f.result()\<close> raises \<open>CancelledError\<close>.
\<close>

subsection \<open>State\<close>

datatype wevent = WExit | WDone string | WCancelled string | WOther string

fun wevent_id :: "wevent \<Rightarrow> string option" where
  "wevent_id WExit = None"
| "wevent_id (WDone r) = Some r"
| "wevent_id (WCancelled r) = Some r"
| "wevent_id (WOther r) = Some r"

text \<open>A line of the worker's stdout: no JSON, JSON that is no object, or an object with the value of
  \<open>request_id or id\<close> (an event without one is dropped).\<close>

datatype wline = NotJson | NotObject | Unaddressed | Addressed wevent

datatype stdin_line = Req string | Cancel string

datatype outcome = Saturated | ExitError | WriteFailed | TimedOut | Abandoned | Natural | TaskCancelled

datatype wphase =
  SemWait
| Orphan
| Leaked
| Acquired
| Checked
| Registered
| Streaming
| LastYielded
| Over outcome

record wreq =
  w_id :: string
  w_async :: bool
  w_phase :: wphase
  w_queue :: "wevent list"
  w_got :: "wevent list"

record wio =
  max_slots :: nat
  queue_when_saturated :: bool
  sem_free :: nat
  w_inflight :: "string \<rightharpoonup> nat"
  w_closed :: bool
  reader_alive :: bool
  stdin_log :: "stdin_line list"
  cancel_count :: nat
  reqs :: "wreq list"

definition new_wio :: "int \<Rightarrow> bool \<Rightarrow> wio" where
  "new_wio concurrency qws =
     (let n = nat (max 1 concurrency)
      in \<lparr>max_slots = n, queue_when_saturated = qws, sem_free = n, w_inflight = Map.empty,
          w_closed = False, reader_alive = True, stdin_log = [], cancel_count = 0, reqs = []\<rparr>)"

text \<open>\<open>OVS_WORKER_IO_QUEUE_WHEN_SATURATED\<close>, on unless it says no.\<close>

definition queue_when_saturated_of :: "(string \<rightharpoonup> string) \<Rightarrow> bool" where
  "queue_when_saturated_of env =
     (str_lower (str_strip (case env ''OVS_WORKER_IO_QUEUE_WHEN_SATURATED'' of None \<Rightarrow> ''1'' | Some v \<Rightarrow> v))
        \<notin> {''0'', ''false'', ''no'', ''off''})"

subsection \<open>Steps of a request\<close>

definition set_req :: "nat \<Rightarrow> wreq \<Rightarrow> wio \<Rightarrow> wio" where
  "set_req i r s = s\<lparr>reqs := (reqs s)[i := r]\<rparr>"

definition set_phase :: "nat \<Rightarrow> wphase \<Rightarrow> wio \<Rightarrow> wio" where
  "set_phase i p s = set_req i ((reqs s ! i)\<lparr>w_phase := p\<rparr>) s"

definition in_phase :: "wio \<Rightarrow> nat \<Rightarrow> wphase \<Rightarrow> bool" where
  "in_phase s i p = (i < length (reqs s) \<and> w_phase (reqs s ! i) = p)"

definition begin_request :: "string \<Rightarrow> bool \<Rightarrow> wio \<Rightarrow> wio" where
  "begin_request rid is_async s =
     (let r = \<lparr>w_id = rid, w_async = is_async, w_phase = SemWait, w_queue = [], w_got = []\<rparr>
      in if queue_when_saturated s then s\<lparr>reqs := reqs s @ [r]\<rparr>
         else if sem_free s = 0 then s\<lparr>reqs := reqs s @ [r\<lparr>w_phase := Over Saturated\<rparr>]\<rparr>
         else s\<lparr>reqs := reqs s @ [r\<lparr>w_phase := Acquired\<rparr>], sem_free := sem_free s - 1\<rparr>)"

text \<open>The semaphore lets one waiting thread through.\<close>

definition grant :: "nat \<Rightarrow> wio \<Rightarrow> wio" where
  "grant i s =
     (if sem_free s = 0 then s
      else if in_phase s i SemWait then (set_phase i Acquired s)\<lparr>sem_free := sem_free s - 1\<rparr>
      else if in_phase s i Orphan then (set_phase i Leaked s)\<lparr>sem_free := sem_free s - 1\<rparr>
      else s)"

definition cancel_wait :: "nat \<Rightarrow> wio \<Rightarrow> wio" where
  "cancel_wait i s =
     (if in_phase s i SemWait \<and> w_async (reqs s ! i) then set_phase i Orphan s else s)"

definition sem_release :: "wio \<Rightarrow> wio" where
  "sem_release s = s\<lparr>sem_free := sem_free s + 1\<rparr>"

definition pop_inflight :: "nat \<Rightarrow> wio \<Rightarrow> wio" where
  "pop_inflight i s = s\<lparr>w_inflight := (w_inflight s)(w_id (reqs s ! i) := None)\<rparr>"

text \<open>\<open>cancel(req_id)\<close>; \<open>wok\<close> is whether the write succeeds.\<close>

definition cancel_req :: "bool \<Rightarrow> string \<Rightarrow> wio \<Rightarrow> wio" where
  "cancel_req wok rid s =
     (let s1 = s\<lparr>cancel_count := cancel_count s + 1\<rparr>
      in if w_closed s \<or> \<not> wok then s1 else s1\<lparr>stdin_log := stdin_log s1 @ [Cancel rid]\<rparr>)"

text \<open>The \<open>finally\<close> arms: only the asynchronous form cancels what did not end naturally.\<close>

definition finish :: "bool \<Rightarrow> nat \<Rightarrow> outcome \<Rightarrow> wio \<Rightarrow> wio" where
  "finish wok i out s =
     (let s1 = sem_release (pop_inflight i s);
          s2 = (if w_async (reqs s ! i) \<and> out \<noteq> Natural then cancel_req wok (w_id (reqs s ! i)) s1 else s1)
      in set_phase i (Over out) s2)"

definition check_closed :: "nat \<Rightarrow> wio \<Rightarrow> wio" where
  "check_closed i s =
     (if \<not> in_phase s i Acquired then s
      else if w_closed s then set_phase i (Over ExitError) (sem_release s)
      else set_phase i Checked s)"

definition register :: "nat \<Rightarrow> wio \<Rightarrow> wio" where
  "register i s =
     (if in_phase s i Checked
      then (set_req i ((reqs s ! i)\<lparr>w_phase := Registered, w_queue := []\<rparr>) s)
             \<lparr>w_inflight := (w_inflight s)(w_id (reqs s ! i) \<mapsto> i)\<rparr>
      else s)"

definition write_request :: "bool \<Rightarrow> nat \<Rightarrow> wio \<Rightarrow> wio" where
  "write_request wok i s =
     (if \<not> in_phase s i Registered then s
      else if w_closed s then finish wok i ExitError s
      else if \<not> wok then finish wok i WriteFailed s
      else set_phase i Streaming (s\<lparr>stdin_log := stdin_log s @ [Req (w_id (reqs s ! i))]\<rparr>))"

definition recv :: "bool \<Rightarrow> nat \<Rightarrow> wio \<Rightarrow> wio" where
  "recv wok i s =
     (if \<not> in_phase s i Streaming then s
      else case w_queue (reqs s ! i) of
             [] \<Rightarrow> s
           | ev # q \<Rightarrow>
               let s1 = set_req i ((reqs s ! i)\<lparr>w_queue := q\<rparr>) s
               in case ev of
                    WExit \<Rightarrow> finish wok i ExitError s1
                  | _ \<Rightarrow>
                      let s2 = set_req i ((reqs s1 ! i)\<lparr>w_got := w_got (reqs s1 ! i) @ [ev]\<rparr>) s1
                      in (case ev of WOther _ \<Rightarrow> s2 | _ \<Rightarrow> set_phase i LastYielded s2))"

definition resume_last :: "bool \<Rightarrow> nat \<Rightarrow> wio \<Rightarrow> wio" where
  "resume_last wok i s = (if in_phase s i LastYielded then finish wok i Natural s else s)"

definition recv_timeout :: "bool \<Rightarrow> nat \<Rightarrow> wio \<Rightarrow> wio" where
  "recv_timeout wok i s =
     (if in_phase s i Streaming \<and> w_queue (reqs s ! i) = [] then finish wok i TimedOut s else s)"

text \<open>The consumer drops the generator, or its task is cancelled while it waits for an event.\<close>

definition abandon :: "bool \<Rightarrow> nat \<Rightarrow> wio \<Rightarrow> wio" where
  "abandon wok i s =
     (if in_phase s i Streaming \<or> in_phase s i LastYielded then finish wok i Abandoned s else s)"

subsection \<open>The reader and close\<close>

definition put_event :: "wevent \<Rightarrow> nat \<Rightarrow> wio \<Rightarrow> wio" where
  "put_event ev i s = set_req i ((reqs s ! i)\<lparr>w_queue := w_queue (reqs s ! i) @ [ev]\<rparr>) s"

text \<open>A sentinel into every queue of the table, which is emptied.\<close>

definition wake_all :: "wio \<Rightarrow> wio" where
  "wake_all s =
     s\<lparr>reqs := map (\<lambda>i. if w_inflight s (w_id (reqs s ! i)) = Some i
                        then (reqs s ! i)\<lparr>w_queue := w_queue (reqs s ! i) @ [WExit]\<rparr> else reqs s ! i)
                 [0..<length (reqs s)],
       w_inflight := Map.empty\<rparr>"

definition reader_exit :: "wio \<Rightarrow> wio" where
  "reader_exit s = (if reader_alive s then (wake_all s)\<lparr>reader_alive := False\<rparr> else s)"

definition reader_line :: "wline \<Rightarrow> wio \<Rightarrow> wio" where
  "reader_line l s =
     (if \<not> reader_alive s then s
      else case l of
             NotJson \<Rightarrow> s
           | NotObject \<Rightarrow> reader_exit s
           | Unaddressed \<Rightarrow> s
           | Addressed ev \<Rightarrow>
               (case wevent_id ev of
                  None \<Rightarrow> s
                | Some rid \<Rightarrow> (case w_inflight s rid of None \<Rightarrow> s | Some i \<Rightarrow> put_event ev i s)))"

definition close_flag :: "wio \<Rightarrow> wio" where
  "close_flag s = s\<lparr>w_closed := True\<rparr>"

datatype wio_step_event =
  Begin string bool
| Grant nat
| CancelWait nat
| CheckClosed nat
| Register nat
| Write nat bool
| Recv nat bool
| ResumeLast nat bool
| RecvTimeout nat bool
| Abandon nat bool
| ReaderLine wline
| ReaderEof
| CloseFlag
| CloseWake

fun wio_step :: "wio \<Rightarrow> wio_step_event \<Rightarrow> wio" where
  "wio_step s (Begin rid a) = begin_request rid a s"
| "wio_step s (Grant i) = grant i s"
| "wio_step s (CancelWait i) = cancel_wait i s"
| "wio_step s (CheckClosed i) = check_closed i s"
| "wio_step s (Register i) = register i s"
| "wio_step s (Write i wok) = write_request wok i s"
| "wio_step s (Recv i wok) = recv wok i s"
| "wio_step s (ResumeLast i wok) = resume_last wok i s"
| "wio_step s (RecvTimeout i wok) = recv_timeout wok i s"
| "wio_step s (Abandon i wok) = abandon wok i s"
| "wio_step s (ReaderLine l) = reader_line l s"
| "wio_step s ReaderEof = reader_exit s"
| "wio_step s CloseFlag = close_flag s"
| "wio_step s CloseWake = wake_all s"

text \<open>\<^const>\<open>CloseWake\<close> is the second half of \<open>close()\<close>; \<open>send_request\<close> refuses a payload whose id is
  another before any of this, so a request has one id.\<close>

subsection \<open>Invariants\<close>

fun holds_slot :: "wphase \<Rightarrow> bool" where
  "holds_slot SemWait = False"
| "holds_slot Orphan = False"
| "holds_slot (Over _) = False"
| "holds_slot _ = True"

definition slots_used :: "wio \<Rightarrow> nat" where
  "slots_used s = count_where (\<lambda>r. holds_slot (w_phase r)) (reqs s)"

definition slots_leaked :: "wio \<Rightarrow> nat" where
  "slots_leaked s = count_where (\<lambda>r. w_phase r = Leaked) (reqs s)"

definition event_ok :: "string \<Rightarrow> wevent \<Rightarrow> bool" where
  "event_ok rid ev = (ev = WExit \<or> wevent_id ev = Some rid)"

definition req_ok :: "wreq \<Rightarrow> bool" where
  "req_ok r = (\<forall>ev \<in> set (w_queue r) \<union> set (w_got r). event_ok (w_id r) ev)"

definition slots_ok :: "wio \<Rightarrow> bool" where
  "slots_ok s \<longleftrightarrow> sem_free s + slots_used s = max_slots s"

definition table_ok :: "wio \<Rightarrow> bool" where
  "table_ok s \<longleftrightarrow>
     (\<forall>rid i. w_inflight s rid = Some i \<longrightarrow> i < length (reqs s) \<and> w_id (reqs s ! i) = rid)"

definition queues_ok :: "wio \<Rightarrow> bool" where
  "queues_ok s \<longleftrightarrow> (\<forall>r \<in> set (reqs s). req_ok r)"

text \<open>A request that waits for events is in the table or has its sentinel, unless another request has
  the same id.\<close>

definition reachable_ok :: "wio \<Rightarrow> bool" where
  "reachable_ok s \<longleftrightarrow>
     (\<forall>i < length (reqs s). w_phase (reqs s ! i) \<in> {Registered, Streaming} \<longrightarrow>
        w_inflight s (w_id (reqs s ! i)) = Some i \<or> WExit \<in> set (w_queue (reqs s ! i)) \<or>
        (\<exists>j < length (reqs s). j \<noteq> i \<and> w_id (reqs s ! j) = w_id (reqs s ! i)))"

lemma set_req_sel [simp]:
  "reqs (set_req i r s) = (reqs s)[i := r]" "sem_free (set_req i r s) = sem_free s"
  "max_slots (set_req i r s) = max_slots s" "w_inflight (set_req i r s) = w_inflight s"
  "w_closed (set_req i r s) = w_closed s" "reader_alive (set_req i r s) = reader_alive s"
  "stdin_log (set_req i r s) = stdin_log s" "queue_when_saturated (set_req i r s) = queue_when_saturated s"
  by (simp_all add: set_req_def)

lemma set_phase_sel [simp]:
  "reqs (set_phase i p s) = (reqs s)[i := (reqs s ! i)\<lparr>w_phase := p\<rparr>]"
  "sem_free (set_phase i p s) = sem_free s" "max_slots (set_phase i p s) = max_slots s"
  "w_inflight (set_phase i p s) = w_inflight s" "w_closed (set_phase i p s) = w_closed s"
  "reader_alive (set_phase i p s) = reader_alive s" "stdin_log (set_phase i p s) = stdin_log s"
  by (simp_all add: set_phase_def)

lemma finish_sel [simp]:
  "reqs (finish wok i out s) = (reqs s)[i := (reqs s ! i)\<lparr>w_phase := Over out\<rparr>]"
  "sem_free (finish wok i out s) = sem_free s + 1" "max_slots (finish wok i out s) = max_slots s"
  "w_inflight (finish wok i out s) = (w_inflight s)(w_id (reqs s ! i) := None)"
  "w_closed (finish wok i out s) = w_closed s" "reader_alive (finish wok i out s) = reader_alive s"
  "w_closed s \<Longrightarrow> stdin_log (finish wok i out s) = stdin_log s"
  by (simp_all add: finish_def Let_def cancel_req_def sem_release_def pop_inflight_def)

lemma wake_all_sel [simp]:
  "sem_free (wake_all s) = sem_free s" "max_slots (wake_all s) = max_slots s"
  "w_inflight (wake_all s) = Map.empty" "w_closed (wake_all s) = w_closed s"
  "reader_alive (wake_all s) = reader_alive s" "stdin_log (wake_all s) = stdin_log s"
  "length (reqs (wake_all s)) = length (reqs s)"
  by (simp_all add: wake_all_def)

lemma wake_all_nth:
  "i < length (reqs s) \<Longrightarrow> reqs (wake_all s) ! i =
     (if w_inflight s (w_id (reqs s ! i)) = Some i
      then (reqs s ! i)\<lparr>w_queue := w_queue (reqs s ! i) @ [WExit]\<rparr> else reqs s ! i)"
  by (simp add: wake_all_def)

text \<open>Every step is one of four changes to the list of requests.\<close>

definition same_ids :: "wio \<Rightarrow> wio \<Rightarrow> bool" where
  "same_ids s s' \<longleftrightarrow> length (reqs s) \<le> length (reqs s') \<and>
     (\<forall>i < length (reqs s). w_id (reqs s' ! i) = w_id (reqs s ! i))"

lemma count_map_cong:
  "length xs = length ys \<Longrightarrow> (\<And>i. i < length xs \<Longrightarrow> P (xs ! i) = P (ys ! i)) \<Longrightarrow>
   count_where P xs = count_where P ys"
proof (induction xs ys rule: list_induct2)
  case Nil
  then show ?case by simp
next
  case (Cons x xs y ys)
  have "P x = P y" using Cons.prems [of 0] by simp
  moreover have "count_where P xs = count_where P ys"
    by (rule Cons.IH) (use Cons.prems [of "Suc _"] in simp)
  ultimately show ?case by simp
qed

lemma wake_all_phase: "i < length (reqs s) \<Longrightarrow> w_phase (reqs (wake_all s) ! i) = w_phase (reqs s ! i)"
  by (simp add: wake_all_nth)

lemma wake_all_counts:
  "slots_used (wake_all s) = slots_used s" "slots_leaked (wake_all s) = slots_leaked s"
  unfolding slots_used_def slots_leaked_def
  by (rule count_map_cong, simp, simp add: wake_all_phase)+

lemma used_update:
  "i < length rs \<Longrightarrow>
   count_where (\<lambda>r. holds_slot (w_phase r)) (rs[i := r]) + (if holds_slot (w_phase (rs ! i)) then 1 else 0)
   = count_where (\<lambda>r. holds_slot (w_phase r)) rs + (if holds_slot (w_phase r) then 1 else 0)"
  by (rule count_where_update)

lemma slots_same:
  assumes "i < length (reqs s)" and "holds_slot (w_phase r) = holds_slot (w_phase (reqs s ! i))"
  shows "count_where (\<lambda>r. holds_slot (w_phase r)) ((reqs s)[i := r]) = slots_used s"
  using used_update [OF assms(1), of r] assms(2) by (simp add: slots_used_def split: if_splits)

lemma slots_drop:
  assumes "i < length (reqs s)" and "\<not> holds_slot (w_phase r)" and "holds_slot (w_phase (reqs s ! i))"
  shows "Suc (count_where (\<lambda>r. holds_slot (w_phase r)) ((reqs s)[i := r])) = slots_used s"
  using used_update [OF assms(1), of r] assms(2,3) by (simp add: slots_used_def)

lemma slots_take:
  assumes "i < length (reqs s)" and "holds_slot (w_phase r)" and "\<not> holds_slot (w_phase (reqs s ! i))"
  shows "count_where (\<lambda>r. holds_slot (w_phase r)) ((reqs s)[i := r]) = Suc (slots_used s)"
  using used_update [OF assms(1), of r] assms(2,3) by (simp add: slots_used_def)

lemma finish_slots:
  assumes "slots_ok s" and "i < length (reqs s)" and "holds_slot (w_phase (reqs s ! i))"
  shows "slots_ok (finish wok i out s)"
  using assms(1) slots_drop [OF assms(2) _ assms(3), of "(reqs s ! i)\<lparr>w_phase := Over out\<rparr>"]
  by (simp add: slots_ok_def slots_used_def)

lemma phase_slots:
  assumes "slots_ok s" and "i < length (reqs s)" and "holds_slot p = holds_slot (w_phase (reqs s ! i))"
  shows "slots_ok (set_phase i p s)"
  using assms(1) slots_same [OF assms(2), of "(reqs s ! i)\<lparr>w_phase := p\<rparr>"] assms(3)
  by (simp add: slots_ok_def slots_used_def)

lemma set_req_slots:
  assumes "slots_ok s" and "i < length (reqs s)" and "holds_slot (w_phase r) = holds_slot (w_phase (reqs s ! i))"
  shows "slots_ok (set_req i r s)"
  using assms(1) slots_same [OF assms(2), of r] assms(3) by (simp add: slots_ok_def slots_used_def)

lemma slots_frame [simp]:
  "slots_ok (s\<lparr>w_inflight := a\<rparr>) = slots_ok s" "slots_ok (s\<lparr>stdin_log := b\<rparr>) = slots_ok s"
  "slots_ok (s\<lparr>w_closed := c\<rparr>) = slots_ok s" "slots_ok (s\<lparr>reader_alive := c\<rparr>) = slots_ok s"
  "slots_ok (wake_all s) = slots_ok s"
  using wake_all_counts [of s] by (simp_all add: slots_ok_def slots_used_def)

lemma grant_slots:
  assumes "slots_ok s"
  shows "slots_ok (grant i s)"
proof -
  have "slots_ok ((set_phase i p s)\<lparr>sem_free := sem_free s - 1\<rparr>)"
    if "i < length (reqs s)" "\<not> holds_slot (w_phase (reqs s ! i))" "holds_slot p" "sem_free s \<noteq> 0" for p
    using assms slots_take [OF that(1) _ that(2), of "(reqs s ! i)\<lparr>w_phase := p\<rparr>"] that(3,4)
    by (simp add: slots_ok_def slots_used_def)
  with assms show ?thesis by (simp add: grant_def in_phase_def)
qed

lemma release_slots:
  assumes "slots_ok s" and "i < length (reqs s)" and "holds_slot (w_phase (reqs s ! i))" and "\<not> holds_slot p"
  shows "slots_ok (set_phase i p (sem_release s))"
  using assms(1) slots_drop [OF assms(2) _ assms(3), of "(reqs s ! i)\<lparr>w_phase := p\<rparr>"] assms(4)
  by (simp add: slots_ok_def slots_used_def sem_release_def)

lemma recv_slots:
  assumes "slots_ok s"
  shows "slots_ok (recv wok i s)"
proof (cases "in_phase s i Streaming \<and> w_queue (reqs s ! i) \<noteq> []")
  case False
  with assms show ?thesis by (auto simp: recv_def split: list.splits)
next
  case True
  then obtain ev q where q: "w_queue (reqs s ! i) = ev # q" and i: "i < length (reqs s)"
    and ph: "w_phase (reqs s ! i) = Streaming"
    by (auto simp: in_phase_def neq_Nil_conv)
  let ?s1 = "set_req i ((reqs s ! i)\<lparr>w_queue := q\<rparr>) s"
  let ?s2 = "set_req i ((reqs ?s1 ! i)\<lparr>w_got := w_got (reqs ?s1 ! i) @ [ev]\<rparr>) ?s1"
  have 1: "slots_ok ?s1" using assms i by (rule set_req_slots) simp
  have 2: "slots_ok ?s2" by (rule set_req_slots [OF 1]) (use i in simp_all)
  have 3: "slots_ok (finish wok i ExitError ?s1)" using 1 i ph by (intro finish_slots) simp_all
  have 4: "slots_ok (set_phase i LastYielded ?s2)" using 2 i ph by (intro phase_slots) simp_all
  show ?thesis using True q 2 3 4 by (cases ev) (simp_all add: recv_def Let_def)
qed

lemma step_slots: "slots_ok s \<Longrightarrow> slots_ok (wio_step s e)"
proof (cases e)
  case (Begin rid a)
  assume "slots_ok s"
  then show ?thesis by (auto simp: Begin begin_request_def Let_def slots_ok_def slots_used_def)
next
  case (Recv i wok)
  assume "slots_ok s"
  then show ?thesis by (simp add: Recv recv_slots)
next
  case (CheckClosed i)
  assume s: "slots_ok s"
  show ?thesis using s release_slots [OF s, of i "Over ExitError"] phase_slots [OF s, of i Checked]
    by (simp add: CheckClosed check_closed_def in_phase_def)
next
  case (Register i)
  assume s: "slots_ok s"
  show ?thesis using s set_req_slots [OF s, of i "(reqs s ! i)\<lparr>w_phase := Registered, w_queue := []\<rparr>"]
    by (simp add: Register register_def in_phase_def)
next
  case (ReaderLine l)
  assume s: "slots_ok s"
  have p: "slots_ok (put_event ev i s)" for ev i
    using s set_req_slots [OF s, of i "(reqs s ! i)\<lparr>w_queue := w_queue (reqs s ! i) @ [ev]\<rparr>"]
    by (cases "i < length (reqs s)") (simp_all add: put_event_def set_req_def list_update_beyond)
  show ?thesis using s p
    by (auto simp: ReaderLine reader_line_def reader_exit_def split: wline.splits option.splits)
qed (auto simp: grant_slots cancel_wait_def write_request_def resume_last_def
    recv_timeout_def abandon_def reader_exit_def close_flag_def in_phase_def
    intro!: phase_slots finish_slots)

lemma step_max_slots: "max_slots (wio_step s e) = max_slots s"
  by (cases e) (auto simp: begin_request_def grant_def cancel_wait_def check_closed_def register_def
    write_request_def recv_def resume_last_def recv_timeout_def abandon_def reader_exit_def reader_line_def
    put_event_def close_flag_def sem_release_def Let_def split: list.splits wevent.splits wline.splits option.splits)

interpretation wio: admission wio_step slots_ok slots_used max_slots
  by unfold_locales (simp_all add: step_slots step_max_slots, simp add: slots_ok_def)

subsection \<open>Identity of requests and the table\<close>

lemmas wio_defs = begin_request_def grant_def cancel_wait_def check_closed_def register_def
    write_request_def recv_def resume_last_def recv_timeout_def abandon_def reader_exit_def reader_line_def
    put_event_def close_flag_def sem_release_def Let_def in_phase_def

lemma nth_update_id [simp]: "w_id r = w_id (xs ! i) \<Longrightarrow> w_id (xs[i := r] ! j) = w_id (xs ! j)"
  by (cases "i < length xs"; cases "i = j") (auto simp: list_update_beyond)

lemma finish_same_ids: "same_ids s s' \<Longrightarrow> same_ids s (finish wok i out s')"
  by (auto simp: same_ids_def nth_list_update)

lemma step_same_ids: "same_ids s (wio_step s e)"
proof (cases e)
  case (Recv i wok)
  show ?thesis
    by (auto simp: Recv wio_defs same_ids_def nth_list_update split: list.splits wevent.splits)
qed (auto simp: wio_defs same_ids_def nth_list_update nth_append wake_all_nth
      split: wline.splits option.splits wevent.splits)

lemma run_same_ids: "same_ids s (foldl wio_step s es)"
proof (induction es arbitrary: s)
  case Nil
  then show ?case by (simp add: same_ids_def)
next
  case (Cons e es)
  have "same_ids s (wio_step s e)" "same_ids (wio_step s e) (foldl wio_step (wio_step s e) es)"
    by (rule step_same_ids, rule Cons.IH)
  then show ?case by (auto simp: same_ids_def)
qed

lemma step_table: "table_ok s \<Longrightarrow> table_ok (wio_step s e)"
proof -
  assume t: "table_ok s"
  have fin: "table_ok (finish wok i out s')" if "table_ok s'" for wok i out s'
    using that by (auto simp: table_ok_def nth_list_update)
  have upd: "table_ok (set_req i r s')" if "table_ok s'" "w_id r = w_id (reqs s' ! i)" for i r s'
    using that by (auto simp: table_ok_def nth_list_update)
  have ph: "table_ok (set_phase i p s')" if "table_ok s'" for i p s'
    using that by (auto simp: table_ok_def nth_list_update)
  have fr: "table_ok (s'\<lparr>sem_free := a\<rparr>) = table_ok s'" "table_ok (s'\<lparr>stdin_log := b\<rparr>) = table_ok s'"
    "table_ok (s'\<lparr>w_closed := c\<rparr>) = table_ok s'" "table_ok (s'\<lparr>reader_alive := c\<rparr>) = table_ok s'"
    "table_ok (wake_all s')" for s' a b c
    by (simp_all add: table_ok_def)
  show ?thesis
  proof (cases e)
    case (Begin rid a)
    with t show ?thesis by (fastforce simp: begin_request_def table_ok_def Let_def nth_append)
  next
    case (Register i)
    with t show ?thesis by (auto simp: register_def in_phase_def table_ok_def nth_list_update)
  next
    case (Recv i wok)
    with t show ?thesis
      by (auto simp: recv_def Let_def intro!: fin upd ph split: list.splits wevent.splits)
  qed (use t in \<open>auto simp: wio_defs fr intro!: fin upd ph split: wline.splits option.splits\<close>)
qed

lemma event_ok_exit [simp]: "event_ok rid WExit" by (simp add: event_ok_def)

lemma step_queues: "table_ok s \<Longrightarrow> queues_ok s \<Longrightarrow> queues_ok (wio_step s e)"
proof -
  assume t: "table_ok s" and q: "queues_ok s"
  have upd: "queues_ok (set_req i r s')" if "queues_ok s'" "req_ok r" for i r s'
    using that set_update_subset_insert [of "reqs s'" i r] by (auto simp: queues_ok_def)
  have nth: "req_ok (reqs s' ! i)" if "queues_ok s'" "i < length (reqs s')" for s' i
    using that by (simp add: queues_ok_def)
  have ph: "queues_ok (set_phase i p s')" if "queues_ok s'" for i p s'
  proof (cases "i < length (reqs s')")
    case True
    with that nth [OF that True] show ?thesis unfolding set_phase_def by (intro upd) (auto simp: req_ok_def)
  next
    case False
    with that show ?thesis by (simp add: queues_ok_def list_update_beyond)
  qed
  have fr: "queues_ok (s'\<lparr>sem_free := a\<rparr>) = queues_ok s'" "queues_ok (s'\<lparr>stdin_log := b\<rparr>) = queues_ok s'"
    "queues_ok (s'\<lparr>w_closed := c\<rparr>) = queues_ok s'" "queues_ok (s'\<lparr>reader_alive := c\<rparr>) = queues_ok s'"
    "queues_ok (s'\<lparr>w_inflight := d\<rparr>) = queues_ok s'" for s' a b c d
    by (simp_all add: queues_ok_def)
  have fin: "queues_ok (finish wok i out s')" if "queues_ok s'" for wok i out s'
    using ph [OF that, of i "Over out"] by (simp add: queues_ok_def)
  have wake: "queues_ok (wake_all s)"
    using q nth [OF q] unfolding queues_ok_def wake_all_def by (auto simp: req_ok_def)
  show ?thesis
  proof (cases e)
    case (Begin rid a)
    with q show ?thesis by (auto simp: begin_request_def queues_ok_def Let_def req_ok_def)
  next
    case (Register i)
    have "queues_ok (set_req i ((reqs s ! i)\<lparr>w_phase := Registered, w_queue := []\<rparr>) s)"
      if "i < length (reqs s)"
      using q nth [OF q that] by (intro upd) (auto simp: req_ok_def)
    with q Register show ?thesis by (simp add: register_def in_phase_def fr)
  next
    case (Recv i wok)
    show ?thesis
    proof (cases "in_phase s i Streaming \<and> w_queue (reqs s ! i) \<noteq> []")
      case False
      with Recv q show ?thesis by (auto simp: recv_def split: list.splits)
    next
      case True
      then obtain ev qs where e: "w_queue (reqs s ! i) = ev # qs" and i: "i < length (reqs s)"
        by (auto simp: in_phase_def neq_Nil_conv)
      let ?s1 = "set_req i ((reqs s ! i)\<lparr>w_queue := qs\<rparr>) s"
      let ?s2 = "set_req i ((reqs ?s1 ! i)\<lparr>w_got := w_got (reqs ?s1 ! i) @ [ev]\<rparr>) ?s1"
      have 1: "queues_ok ?s1" using q nth [OF q i] e by (intro upd) (auto simp: req_ok_def)
      have 2: "queues_ok ?s2" using nth [OF q i] e i by (intro upd 1) (auto simp: req_ok_def)
      from Recv True e fin [OF 1] 2 ph [OF 2] show ?thesis
        by (cases ev) (simp_all add: recv_def Let_def)
    qed
  next
    case (ReaderLine l)
    have "queues_ok (put_event ev i s)" if "w_inflight s rid = Some i" "wevent_id ev = Some rid" for ev i rid
    proof -
      have i: "i < length (reqs s)" "w_id (reqs s ! i) = rid" using t that(1) by (auto simp: table_ok_def)
      show ?thesis unfolding put_event_def
        using q nth [OF q i(1)] that(2) i(2) by (intro upd) (auto simp: req_ok_def event_ok_def)
    qed
    with q wake ReaderLine show ?thesis
      by (auto simp: reader_line_def reader_exit_def fr split: wline.splits option.splits)
  qed (use q wake in \<open>auto simp: grant_def cancel_wait_def check_closed_def write_request_def resume_last_def
      recv_timeout_def abandon_def reader_exit_def close_flag_def sem_release_def fr intro!: ph fin\<close>)
qed

lemma reachable_upd:
  assumes r: "reachable_ok s" and id: "w_id r = w_id (reqs s ! i)"
    and ph: "w_phase r \<in> {Registered, Streaming} \<Longrightarrow>
      w_inflight s (w_id r) = Some i \<or> WExit \<in> set (w_queue r) \<or>
      (w_phase (reqs s ! i) \<in> {Registered, Streaming} \<and>
        (WExit \<in> set (w_queue (reqs s ! i)) \<longrightarrow> WExit \<in> set (w_queue r)))"
  shows "reachable_ok (set_req i r s)"
  unfolding reachable_ok_def
proof (intro allI impI)
  fix j
  assume j: "j < length (reqs (set_req i r s))" and pj: "w_phase (reqs (set_req i r s) ! j) \<in> {Registered, Streaming}"
  have ids: "w_id (reqs (set_req i r s) ! k) = w_id (reqs s ! k)" for k by (simp add: id)
  have old: "w_phase (reqs s ! j) \<in> {Registered, Streaming} \<Longrightarrow>
      w_inflight s (w_id (reqs s ! j)) = Some j \<or> WExit \<in> set (w_queue (reqs s ! j)) \<or>
      (\<exists>k < length (reqs s). k \<noteq> j \<and> w_id (reqs s ! k) = w_id (reqs s ! j))"
    using r j unfolding reachable_ok_def set_req_sel length_list_update by blast
  show "w_inflight (set_req i r s) (w_id (reqs (set_req i r s) ! j)) = Some j \<or>
      WExit \<in> set (w_queue (reqs (set_req i r s) ! j)) \<or>
      (\<exists>k < length (reqs (set_req i r s)). k \<noteq> j \<and>
        w_id (reqs (set_req i r s) ! k) = w_id (reqs (set_req i r s) ! j))"
  proof (cases "j = i")
    case True
    then have e: "reqs (set_req i r s) ! j = r" using j by simp
    from True e ph pj old id show ?thesis unfolding ids by auto
  next
    case False
    then have "reqs (set_req i r s) ! j = reqs s ! j" by simp
    with pj old show ?thesis unfolding ids by auto
  qed
qed

lemma reachable_finish_upd:
  assumes r: "reachable_ok s" and i: "i < length (reqs s)" and id: "w_id r = w_id (reqs s ! i)"
  shows "reachable_ok (finish wok i out (set_req i r s))"
  unfolding reachable_ok_def
proof (intro allI impI)
  let ?s = "finish wok i out (set_req i r s)"
  fix j
  assume j: "j < length (reqs ?s)" and pj: "w_phase (reqs ?s ! j) \<in> {Registered, Streaming}"
  have ids: "w_id (reqs ?s ! k) = w_id (reqs s ! k)" for k by (simp add: id)
  have ne: "j \<noteq> i" using pj i by auto
  then have e: "reqs ?s ! j = reqs s ! j" by simp
  have jl: "j < length (reqs s)" using j by simp
  have pj': "w_phase (reqs s ! j) \<in> {Registered, Streaming}" using pj by (simp only: e)
  have old: "w_inflight s (w_id (reqs s ! j)) = Some j \<or> WExit \<in> set (w_queue (reqs s ! j)) \<or>
      (\<exists>k < length (reqs s). k \<noteq> j \<and> w_id (reqs s ! k) = w_id (reqs s ! j))"
    using r jl pj' unfolding reachable_ok_def by blast
  show "w_inflight ?s (w_id (reqs ?s ! j)) = Some j \<or> WExit \<in> set (w_queue (reqs ?s ! j)) \<or>
      (\<exists>k < length (reqs ?s). k \<noteq> j \<and> w_id (reqs ?s ! k) = w_id (reqs ?s ! j))"
  proof (cases "w_id (reqs s ! i) = w_id (reqs s ! j)")
    case True
    then show ?thesis using i ne unfolding ids by auto
  next
    case False
    with old show ?thesis unfolding ids e using i id by auto
  qed
qed

lemma reachable_finish:
  "reachable_ok s \<Longrightarrow> i < length (reqs s) \<Longrightarrow> reachable_ok (finish wok i out s)"
  using reachable_finish_upd [of s i "reqs s ! i"] by (simp add: set_req_def)

lemma reachable_frame [simp]:
  "reachable_ok (s\<lparr>sem_free := a\<rparr>) = reachable_ok s" "reachable_ok (s\<lparr>stdin_log := b\<rparr>) = reachable_ok s"
  "reachable_ok (s\<lparr>w_closed := c\<rparr>) = reachable_ok s" "reachable_ok (s\<lparr>reader_alive := c\<rparr>) = reachable_ok s"
  by (simp_all add: reachable_ok_def)

lemma reachable_phase:
  "reachable_ok s \<Longrightarrow> (p \<in> {Registered, Streaming} \<Longrightarrow> w_phase (reqs s ! i) \<in> {Registered, Streaming}) \<Longrightarrow>
   reachable_ok (set_phase i p s)"
  unfolding set_phase_def by (rule reachable_upd) auto

lemma step_reachable:
  assumes r: "reachable_ok s"
  shows "reachable_ok (wio_step s e)"
proof -
  have wake: "reachable_ok (wake_all s)"
    unfolding reachable_ok_def
  proof (intro allI impI)
    fix i
    assume "i < length (reqs (wake_all s))" and "w_phase (reqs (wake_all s) ! i) \<in> {Registered, Streaming}"
    then have i: "i < length (reqs s)" and p: "w_phase (reqs s ! i) \<in> {Registered, Streaming}"
      by (simp_all add: wake_all_nth split: if_splits)
    have ids: "w_id (reqs (wake_all s) ! k) = w_id (reqs s ! k)" if "k < length (reqs s)" for k
      using that by (simp add: wake_all_nth)
    consider "w_inflight s (w_id (reqs s ! i)) = Some i" | "WExit \<in> set (w_queue (reqs s ! i))"
      | k where "k < length (reqs s)" "k \<noteq> i" "w_id (reqs s ! k) = w_id (reqs s ! i)"
      using r i p unfolding reachable_ok_def by blast
    then show "w_inflight (wake_all s) (w_id (reqs (wake_all s) ! i)) = Some i \<or>
       WExit \<in> set (w_queue (reqs (wake_all s) ! i)) \<or>
       (\<exists>j < length (reqs (wake_all s)). j \<noteq> i \<and> w_id (reqs (wake_all s) ! j) = w_id (reqs (wake_all s) ! i))"
    proof cases
      case 3
      then show ?thesis using ids i by auto
    qed (use i in \<open>simp_all add: wake_all_nth\<close>)
  qed
  have new: "reachable_ok (s\<lparr>reqs := reqs s @ [q]\<rparr>)" if "w_phase q \<notin> {Registered, Streaming}" for q
    unfolding reachable_ok_def
  proof (intro allI impI)
    fix i
    assume i: "i < length (reqs (s\<lparr>reqs := reqs s @ [q]\<rparr>))"
      and p: "w_phase (reqs (s\<lparr>reqs := reqs s @ [q]\<rparr>) ! i) \<in> {Registered, Streaming}"
    have l: "i < length (reqs s)" using i p that by (cases "i = length (reqs s)") auto
    then have "reqs (s\<lparr>reqs := reqs s @ [q]\<rparr>) ! i = reqs s ! i" by (simp add: nth_append)
    moreover have "reqs (s\<lparr>reqs := reqs s @ [q]\<rparr>) ! k = reqs s ! k" if "k < length (reqs s)" for k
      using that by (simp add: nth_append)
    ultimately show "w_inflight (s\<lparr>reqs := reqs s @ [q]\<rparr>) (w_id (reqs (s\<lparr>reqs := reqs s @ [q]\<rparr>) ! i)) = Some i \<or>
       WExit \<in> set (w_queue (reqs (s\<lparr>reqs := reqs s @ [q]\<rparr>) ! i)) \<or>
       (\<exists>j < length (reqs (s\<lparr>reqs := reqs s @ [q]\<rparr>)). j \<noteq> i \<and>
          w_id (reqs (s\<lparr>reqs := reqs s @ [q]\<rparr>) ! j) = w_id (reqs (s\<lparr>reqs := reqs s @ [q]\<rparr>) ! i))"
      using r l p unfolding reachable_ok_def by (metis length_append_singleton less_SucI wio.select_convs(9) wio.select_convs(4) wio.surjective wio.update_convs(9))
  qed
  show ?thesis
  proof (cases e)
    case (Begin rid a)
    then show ?thesis by (simp add: begin_request_def Let_def new)
  next
    case (Register i)
    show ?thesis
    proof (cases "in_phase s i Checked")
      case False
      with Register r show ?thesis by (simp add: register_def)
    next
      case True
      let ?t = "s\<lparr>w_inflight := (w_inflight s)(w_id (reqs s ! i) \<mapsto> i)\<rparr>"
      have i: "i < length (reqs s)" using True by (simp add: in_phase_def)
      have "w_phase (reqs s ! i) = Checked" using True by (simp add: in_phase_def)
      then have t: "reachable_ok ?t" using r i unfolding reachable_ok_def by fastforce
      have "reachable_ok (set_req i ((reqs ?t ! i)\<lparr>w_phase := Registered, w_queue := []\<rparr>) ?t)"
        by (rule reachable_upd [OF t]) simp_all
      moreover have "register i s = set_req i ((reqs ?t ! i)\<lparr>w_phase := Registered, w_queue := []\<rparr>) ?t"
        using True by (cases s) (simp add: register_def set_req_def)
      ultimately show ?thesis by (simp add: Register)
    qed
  next
    case (Recv i wok)
    show ?thesis
    proof (cases "in_phase s i Streaming \<and> w_queue (reqs s ! i) \<noteq> []")
      case False
      with Recv r show ?thesis by (auto simp: recv_def split: list.splits)
    next
      case True
      then obtain ev qs where e: "w_queue (reqs s ! i) = ev # qs" and i: "i < length (reqs s)"
        and st: "w_phase (reqs s ! i) = Streaming"
        by (auto simp: in_phase_def neq_Nil_conv)
      let ?s1 = "set_req i ((reqs s ! i)\<lparr>w_queue := qs\<rparr>) s"
      let ?s2 = "set_req i ((reqs ?s1 ! i)\<lparr>w_got := w_got (reqs ?s1 ! i) @ [ev]\<rparr>) ?s1"
      have f: "reachable_ok (finish wok i ExitError ?s1)" using r i by (rule reachable_finish_upd) simp
      have 2: "reachable_ok ?s2" if "ev \<noteq> WExit"
      proof -
        have "reachable_ok ?s1" by (rule reachable_upd [OF r]) (use e st that in auto)
        then show ?thesis by (rule reachable_upd) (use i st in auto)
      qed
      from Recv True e f 2 reachable_phase [of ?s2 LastYielded i] show ?thesis
        by (cases ev) (simp_all add: recv_def Let_def)
    qed
  next
    case (ReaderLine l)
    have "reachable_ok (put_event ev i s)" for ev i
      unfolding put_event_def by (rule reachable_upd [OF r]) auto
    with r wake ReaderLine show ?thesis
      by (auto simp: reader_line_def reader_exit_def split: wline.splits option.splits)
  next
    case (Write i wok)
    have "reachable_ok (set_phase i Streaming (s\<lparr>stdin_log := b\<rparr>))" if "in_phase s i Registered" for b
      using r that by (intro reachable_phase) (simp_all add: in_phase_def)
    with r Write show ?thesis
      by (auto simp: write_request_def in_phase_def intro: reachable_finish)
  qed (use r wake in \<open>auto simp: grant_def cancel_wait_def check_closed_def resume_last_def
      recv_timeout_def abandon_def reader_exit_def close_flag_def sem_release_def in_phase_def
      intro!: reachable_phase reachable_finish\<close>)
qed

subsection \<open>Properties\<close>

lemma new_wio_ok:
  "slots_ok (new_wio n q)" "table_ok (new_wio n q)" "queues_ok (new_wio n q)" "reachable_ok (new_wio n q)"
  "max_slots (new_wio n q) = nat (max 1 n)"
  by (simp_all add: new_wio_def Let_def slots_ok_def slots_used_def table_ok_def queues_ok_def reachable_ok_def)

lemma run_table_queues:
  "table_ok s \<Longrightarrow> queues_ok s \<Longrightarrow> table_ok (foldl wio_step s es) \<and> queues_ok (foldl wio_step s es)"
  by (induction es arbitrary: s) (simp_all add: step_table step_queues)

lemma run_reachable: "reachable_ok s \<Longrightarrow> reachable_ok (foldl wio_step s es)"
  by (induction es arbitrary: s) (simp_all add: step_reachable)

definition with_worker :: "wreq \<Rightarrow> bool" where
  "with_worker r = (w_phase r \<in> {Registered, Streaming, LastYielded})"

text \<open>The worker never has more than \<open>max(1, concurrency)\<close> requests at once, however requests arrive,
  wait, are cancelled, fail and end, and whatever the worker prints.\<close>

theorem worker_requests_bounded:
  "count_where with_worker (reqs (foldl wio_step (new_wio n q) es)) \<le> nat (max 1 n)"
proof -
  let ?s = "foldl wio_step (new_wio n q) es"
  have mono: "count_where with_worker rs \<le> count_where (\<lambda>r. holds_slot (w_phase r)) rs" for rs
    by (induction rs) (auto simp: with_worker_def)
  have "slots_used ?s \<le> nat (max 1 n)" using wio.run_used_le [OF new_wio_ok(1), of n q es] by (simp add: new_wio_ok)
  with mono [of "reqs ?s"] show ?thesis by (simp add: slots_used_def)
qed

text \<open>C8: a request receives only its own events. Whatever two requests do and whatever lines the worker
  prints, every event a request has been given carries the request's id.\<close>

theorem no_cross_talk:
  assumes "s = foldl wio_step (new_wio n q) es" and "i < length (reqs s)" and "ev \<in> set (w_got (reqs s ! i))"
  shows "ev = WExit \<or> wevent_id ev = Some (w_id (reqs s ! i))"
proof -
  have "queues_ok s" unfolding assms(1) using run_table_queues [OF new_wio_ok(2,3)] by blast
  then have "req_ok (reqs s ! i)" using assms(2) by (simp add: queues_ok_def)
  with assms(3) show ?thesis by (auto simp: req_ok_def event_ok_def)
qed

definition demo_script :: "wio_step_event list" where
  "demo_script = [Begin ''a'' True, Begin ''b'' False, Grant 0, Grant 1, CheckClosed 0, Register 0,
     CheckClosed 1, Register 1, Write 0 True, Write 1 True, ReaderLine (Addressed (WOther ''b'')),
     ReaderLine (Addressed (WOther ''a'')), Recv 1 True]"

theorem no_cross_talk_witness:
  "w_got (reqs (foldl wio_step (new_wio 2 True) demo_script) ! 1) = [WOther ''b''] \<and>
   wevent_id (WOther ''b'') = Some ''b''"
proof -
  let ?s = "foldl wio_step (new_wio 2 True) demo_script"
  have g: "w_got (reqs ?s ! 1) = [WOther ''b'']" "1 < length (reqs ?s)" "w_id (reqs ?s ! 1) = ''b''"
    by code_simp+
  have "WOther ''b'' = WExit \<or> wevent_id (WOther ''b'') = Some (w_id (reqs ?s ! 1))"
    by (rule no_cross_talk [OF refl g(2)]) (use g(1) in simp)
  with g show ?thesis by simp
qed

lemma step_closed: "w_closed s \<Longrightarrow> w_closed (wio_step s e) \<and> stdin_log (wio_step s e) = stdin_log s"
  by (cases e) (auto simp: wio_defs split: list.splits wevent.splits wline.splits option.splits)

text \<open>Nothing is written to a worker after \<open>close()\<close>: no request and no cancel, whatever is in flight
  at that moment and whatever starts later.\<close>

theorem no_write_after_close:
  assumes "w_closed s"
  shows "stdin_log (foldl wio_step s es) = stdin_log s"
proof -
  have "w_closed (foldl wio_step s es) \<and> stdin_log (foldl wio_step s es) = stdin_log s"
    using assms by (induction es arbitrary: s) (simp_all add: step_closed)
  then show ?thesis ..
qed

theorem no_write_after_close_witness:
  "stdin_log (foldl wio_step (foldl wio_step (new_wio 2 True) (demo_script @ [CloseFlag]))
     [Abandon 0 True, Begin ''c'' False, Grant 2, CheckClosed 2]) = [Req ''a'', Req ''b'']"
proof -
  let ?s = "foldl wio_step (new_wio 2 True) (demo_script @ [CloseFlag])"
  have "w_closed ?s" "stdin_log ?s = [Req ''a'', Req ''b'']" by code_simp+
  then show ?thesis using no_write_after_close [of ?s "[Abandon 0 True, Begin ''c'' False, Grant 2, CheckClosed 2]"]
    by simp
qed

text \<open>No caller hangs on a dead worker. When the worker's stdout ends, every request that has been
  written and is waiting has the exit sentinel in its queue, provided ids are unique; its next event
  but those already queued is the error.\<close>

theorem worker_exit_wakes_all:
  assumes "s = foldl wio_step (new_wio n q) es" and "reader_alive s"
    and "\<forall>i < length (reqs s). \<forall>j < length (reqs s). w_id (reqs s ! i) = w_id (reqs s ! j) \<longrightarrow> i = j"
    and "in_phase s i Streaming"
  shows "WExit \<in> set (w_queue (reqs (wio_step s ReaderEof) ! i))"
proof -
  have r: "reachable_ok s" unfolding assms(1) by (rule run_reachable [OF new_wio_ok(4)])
  have i: "i < length (reqs s)" and p: "w_phase (reqs s ! i) = Streaming"
    using assms(4) by (simp_all add: in_phase_def)
  have "w_inflight s (w_id (reqs s ! i)) = Some i \<or> WExit \<in> set (w_queue (reqs s ! i))"
    using r i p assms(3) unfolding reachable_ok_def by (metis insertCI)
  then show ?thesis using assms(2) i by (auto simp: reader_exit_def wake_all_nth)
qed

theorem worker_exit_wakes_all_witness:
  "WExit \<in> set (w_queue (reqs (wio_step (foldl wio_step (new_wio 2 True) demo_script) ReaderEof) ! 0))"
proof -
  let ?s = "foldl wio_step (new_wio 2 True) demo_script"
  have s: "reader_alive ?s" "in_phase ?s 0 Streaming" by code_simp+
  have "map w_id (reqs ?s) = [''a'', ''b'']" by code_simp
  then have "distinct (map w_id (reqs ?s))" by simp
  then have "\<forall>i < length (reqs ?s). \<forall>j < length (reqs ?s). w_id (reqs ?s ! i) = w_id (reqs ?s ! j) \<longrightarrow> i = j"
    by (simp add: distinct_conv_nth) metis
  from worker_exit_wakes_all [OF refl s(1) this s(2)] show ?thesis .
qed

lemma step_leaked: "slots_leaked s \<le> slots_leaked (wio_step s e)"
proof -
  have upd: "slots_leaked s \<le> count_where (\<lambda>r. w_phase r = Leaked) ((reqs s)[i := r])"
    if "i < length (reqs s) \<Longrightarrow> w_phase (reqs s ! i) = Leaked \<Longrightarrow> w_phase r = Leaked" for i r
  proof (cases "i < length (reqs s)")
    case True
    then show ?thesis
      using count_where_update [OF True, of "\<lambda>r. w_phase r = Leaked" r] that
      by (auto simp: slots_leaked_def split: if_splits)
  qed (simp add: slots_leaked_def list_update_beyond)
  show ?thesis
  proof (cases e)
    case (Recv i wok)
    show ?thesis
    proof (cases "in_phase s i Streaming \<and> w_queue (reqs s ! i) \<noteq> []")
      case False
      with Recv show ?thesis by (auto simp: recv_def split: list.splits)
    next
      case True
      then obtain ev qs where "w_queue (reqs s ! i) = ev # qs" and i: "i < length (reqs s)"
        and st: "w_phase (reqs s ! i) = Streaming"
        by (auto simp: in_phase_def neq_Nil_conv)
      with Recv True upd [of i] show ?thesis
        by (cases ev) (simp_all add: recv_def Let_def slots_leaked_def)
    qed
  next
    case (ReaderLine l)
    then show ?thesis using upd wake_all_counts(2) [of s]
      by (auto simp: reader_line_def reader_exit_def put_event_def slots_leaked_def split: wline.splits option.splits)
  next
    case CloseWake
    then show ?thesis using wake_all_counts(2) [of s] by simp
  next
    case ReaderEof
    then show ?thesis using wake_all_counts(2) [of s] by (simp add: reader_exit_def slots_leaked_def)
  qed (auto simp: begin_request_def grant_def cancel_wait_def check_closed_def register_def
      write_request_def resume_last_def recv_timeout_def abandon_def close_flag_def sem_release_def Let_def
      in_phase_def slots_leaked_def intro!: upd [unfolded slots_leaked_def])
qed

text \<open>The semaphore leaks. A slot that the executor thread acquires for a request whose task was
  cancelled meanwhile is never released, by nothing that happens later; and once every slot has gone
  this way, no request gets one ever again.\<close>

theorem cancelled_waiter_leaks_slot:
  assumes "slots_ok s" and "in_phase s i Orphan" and "0 < sem_free s"
    and "s' = foldl wio_step (wio_step s (Grant i)) es"
  shows "Suc (slots_leaked s) \<le> slots_leaked s' \<and> sem_free s' + slots_leaked s' \<le> max_slots s \<and>
    (slots_leaked s' = max_slots s \<longrightarrow> (\<forall>r \<in> set (reqs s'). \<not> with_worker r))"
proof -
  have i: "i < length (reqs s)" and p: "w_phase (reqs s ! i) = Orphan" using assms(2) by (simp_all add: in_phase_def)
  have "slots_leaked (wio_step s (Grant i)) = Suc (slots_leaked s)"
    using assms(3) count_where_update [OF i, of "\<lambda>r. w_phase r = Leaked" "(reqs s ! i)\<lparr>w_phase := Leaked\<rparr>"] i p
    by (simp add: grant_def in_phase_def slots_leaked_def)
  moreover have "slots_leaked x \<le> slots_leaked (foldl wio_step x es)" for x
  proof (induction es arbitrary: x)
    case (Cons e es)
    show ?case using step_leaked [of x e] Cons.IH [of "wio_step x e"] by simp
  qed simp
  ultimately have 1: "Suc (slots_leaked s) \<le> slots_leaked s'" unfolding assms(4) by metis
  have ok: "slots_ok s'" unfolding assms(4) by (rule wio.run_inv [OF step_slots [OF assms(1)]])
  have m: "max_slots s' = max_slots s"
    unfolding assms(4) using wio.run_const [where f = max_slots, OF step_max_slots step_slots [OF assms(1)]]
    by (simp add: step_max_slots del: wio_step.simps)
  have split: "count_where (\<lambda>r. w_phase r = Leaked) rs + count_where with_worker rs
      \<le> count_where (\<lambda>r. holds_slot (w_phase r)) rs" for rs
    by (induction rs) (auto simp: with_worker_def)
  have 2: "sem_free s' + slots_leaked s' + count_where with_worker (reqs s') \<le> max_slots s"
    using ok m split [of "reqs s'"] by (simp add: slots_ok_def slots_used_def slots_leaked_def)
  have 3: "\<forall>r \<in> set (reqs s'). \<not> with_worker r" if "slots_leaked s' = max_slots s"
  proof -
    have "count_where with_worker (reqs s') = 0" using 2 that by simp
    then show ?thesis by (simp add: count_where_def filter_empty_conv)
  qed
  from 1 2 3 show ?thesis by simp
qed

definition leak_script :: "wio_step_event list" where
  "leak_script = [Begin ''a'' True, Grant 0, Begin ''b'' True, CancelWait 1, CheckClosed 0, Register 0,
     Write 0 True, ReaderLine (Addressed (WDone ''a'')), Recv 0 True, ResumeLast 0 True]"

theorem cancelled_waiter_leaks_slot_witness:
  "let s = foldl wio_step (new_wio 1 True) leak_script;
       s' = foldl wio_step (wio_step s (Grant 1)) [Begin ''c'' True, Grant 2]
   in sem_free s = 1 \<and> slots_leaked s' \<ge> 1 \<and> (\<forall>r \<in> set (reqs s'). \<not> with_worker r)"
proof -
  define s where "s = foldl wio_step (new_wio 1 True) leak_script"
  define s' where "s' = foldl wio_step (wio_step s (Grant 1)) [Begin ''c'' True, Grant 2]"
  have ok: "slots_ok s" unfolding s_def by (rule wio.run_inv [OF new_wio_ok(1)])
  have f: "in_phase s 1 Orphan" "0 < sem_free s" "sem_free s = 1" "max_slots s = 1" unfolding s_def by code_simp+
  have "slots_leaked s' = 1" unfolding s'_def s_def by code_simp
  with cancelled_waiter_leaks_slot [OF ok f(1,2) s'_def] f show ?thesis
    unfolding Let_def s'_def [unfolded s_def] s_def by simp
qed

definition deaf :: "nat \<Rightarrow> wio \<Rightarrow> bool" where
  "deaf i s = (\<not> reader_alive s \<and> (i < length (reqs s) \<longrightarrow> w_queue (reqs s ! i) = [] \<and> w_got (reqs s ! i) = [] \<and>
     w_phase (reqs s ! i) \<notin> {LastYielded, Over Natural}))"

lemma step_deaf: "deaf i s \<Longrightarrow> e \<noteq> CloseWake \<Longrightarrow> deaf i (wio_step s e)"
proof (cases e)
  case (Recv j wok)
  assume d: "deaf i s"
  show ?thesis using d
    by (cases "j = i") (auto simp: Recv deaf_def wio_defs nth_list_update split: list.splits wevent.splits)
qed (auto simp: deaf_def begin_request_def grant_def cancel_wait_def check_closed_def register_def
    write_request_def resume_last_def recv_timeout_def abandon_def reader_exit_def reader_line_def close_flag_def
    sem_release_def Let_def in_phase_def nth_list_update nth_append less_Suc_eq)

text \<open>One line of stdout that is JSON but no object, such as \<open>null\<close>, ends the reader while the worker
  lives on. Every request that arrives later is written to the worker but receives nothing, not even
  the exit sentinel, until the backend is closed; each of them waits for its timeout.\<close>

theorem stray_line_deafens_worker:
  assumes "reader_alive s" and "length (reqs s) \<le> i" and "CloseWake \<notin> set es"
    and "s' = foldl wio_step (wio_step s (ReaderLine NotObject)) es" and "i < length (reqs s')"
  shows "w_got (reqs s' ! i) = [] \<and> w_phase (reqs s' ! i) \<noteq> Over Natural"
proof -
  have run: "deaf i (foldl wio_step x es)" if "deaf i x" "CloseWake \<notin> set es" for x
    using that
  proof (induction es arbitrary: x)
    case (Cons e es)
    then show ?case using step_deaf [of i x e] by auto
  qed simp
  have "deaf i (wio_step s (ReaderLine NotObject))"
    using assms(1,2) by (simp add: deaf_def reader_line_def reader_exit_def)
  from run [OF this assms(3)] show ?thesis using assms(4,5) by (simp add: deaf_def)
qed

theorem stray_line_deafens_worker_witness:
  "let s = foldl wio_step (new_wio 1 True) leak_script;
       s' = foldl wio_step (wio_step s (ReaderLine NotObject))
         [Begin ''c'' True, Grant 2, CheckClosed 2, Register 2, Write 2 True,
          ReaderLine (Addressed (WDone ''c'')), Recv 2 True]
   in in_phase s' 2 Streaming \<and> w_got (reqs s' ! 2) = []"
proof -
  define s where "s = foldl wio_step (new_wio 1 True) leak_script"
  define es where "es = [Begin ''c'' True, Grant 2, CheckClosed 2, Register 2, Write 2 True,
          ReaderLine (Addressed (WDone ''c'')), Recv 2 True]"
  have f: "reader_alive s" "length (reqs s) \<le> 2" unfolding s_def by code_simp+
  have st: "in_phase (foldl wio_step (wio_step s (ReaderLine NotObject)) es) 2 Streaming"
    "2 < length (reqs (foldl wio_step (wio_step s (ReaderLine NotObject)) es))"
    unfolding s_def es_def by code_simp+
  have "CloseWake \<notin> set es" by (simp add: es_def)
  from stray_line_deafens_worker [OF f this refl st(2)] st(1) show ?thesis
    unfolding Let_def s_def [symmetric] es_def [symmetric] by blast
qed

end
