(* ===== verification/TextBuffers.thy ===== *)
theory TextBuffers
  imports Prelude
begin

section \<open>Cutting a text stream into pieces for synthesis\<close>

text \<open>
  \<^verbatim>\<open>SentenceBuffer\<close> and \<^verbatim>\<open>LowLatencyTTSBuffer\<close> of \<^verbatim>\<open>server/core/v2v.py\<close>, and
  \<^verbatim>\<open>ClauseBuffer\<close> of \<^verbatim>\<open>services/wyoming-adapter/wyoming_slv/clause.py\<close>. The state of a buffer is
  its text; the generators are modelled by the list of what they yield. \<open>alnum\<close> stands for
  \<open>str.isalnum\<close> of a character, the segmenter of the pysbd package is a parameter.
\<close>

subsection \<open>The interface of a chunker\<close>

text \<open>
  \<open>nxt\<close> takes one piece off the buffer, \<open>emit\<close> does so until there is none, \<open>fin\<close> empties the buffer at
  the end of the stream. The laws: no text but white space is lost or moved when a piece is taken, what
  \<open>fin\<close> does not yield satisfies \<open>droppable\<close>.
\<close>

locale chunker =
  fixes nxt :: "ustr \<Rightarrow> ustr option \<times> ustr"
    and emit :: "ustr \<Rightarrow> ustr list \<times> ustr"
    and fin :: "ustr \<Rightarrow> ustr list \<times> ustr"
    and droppable :: "ustr \<Rightarrow> bool"
  assumes nxt_some: "nxt b = (Some p, b') \<Longrightarrow> no_space p @ no_space b' = no_space b \<and> length b' < length b"
    and nxt_none: "nxt b = (None, b') \<Longrightarrow> no_space b' = no_space b"
    and emit_eq: "emit b = (case nxt b of (None, b') \<Rightarrow> ([], b')
                     | (Some p, b') \<Rightarrow> (case emit b' of (ps, b'') \<Rightarrow> (p # ps, b'')))"
    and fin_law: "fin b = (ps, b') \<Longrightarrow> b' = [] \<and> no_space (concat ps) = no_space b \<or>
                    b' = [] \<and> ps = [] \<and> droppable b"
begin

lemma emit_conserves: "emit b = (ps, b') \<Longrightarrow> no_space (concat ps) @ no_space b' = no_space b"
proof (induction "length b" arbitrary: b ps rule: less_induct)
  case less
  obtain o1 b1 where n: "nxt b = (o1, b1)" by fastforce
  show ?case
  proof (cases o1)
    case None
    with less.prems n nxt_none show ?thesis by (auto simp: emit_eq [of b])
  next
    case (Some p)
    obtain ps1 b2 where e: "emit b1 = (ps1, b2)" by fastforce
    from n Some nxt_some [of b p b1] have 1: "no_space p @ no_space b1 = no_space b" "length b1 < length b"
      by auto
    from less.prems n Some e have r: "ps = p # ps1" "b' = b2" by (auto simp: emit_eq [of b])
    with less.hyps [OF 1(2)] e 1(1) show ?thesis by simp
  qed
qed

lemma emit_exhausts: "emit b = (ps, b') \<Longrightarrow> \<exists>b0. nxt b0 = (None, b')"
proof (induction "length b" arbitrary: b ps rule: less_induct)
  case less
  obtain o1 b1 where n: "nxt b = (o1, b1)" by fastforce
  show ?case
  proof (cases o1)
    case None
    with less.prems n show ?thesis by (auto simp: emit_eq [of b])
  next
    case (Some p)
    obtain ps1 b2 where "emit b1 = (ps1, b2)" by fastforce
    with less.hyps [of b1 ps1] less.prems n Some nxt_some [of b p b1] show ?thesis
      by (auto simp: emit_eq [of b])
  qed
qed

end

text \<open>\<open>add\<close> and a whole stream: every chunk added, then the flush.\<close>

definition add_chunk :: "(ustr \<Rightarrow> ustr list \<times> ustr) \<Rightarrow> ustr \<Rightarrow> ustr \<Rightarrow> ustr list \<times> ustr" where
  "add_chunk emit chunk b = (if chunk = [] then ([], b) else emit (b @ chunk))"

fun run_chunks :: "(ustr \<Rightarrow> ustr list \<times> ustr) \<Rightarrow> ustr list \<Rightarrow> ustr \<Rightarrow> ustr list \<times> ustr" where
  "run_chunks emit [] b = ([], b)"
| "run_chunks emit (c # cs) b =
     (case add_chunk emit c b of (ps, b1) \<Rightarrow>
        (case run_chunks emit cs b1 of (qs, b2) \<Rightarrow> (ps @ qs, b2)))"

definition speak_stream ::
  "(ustr \<Rightarrow> ustr list \<times> ustr) \<Rightarrow> (ustr \<Rightarrow> ustr list \<times> ustr) \<Rightarrow> ustr list \<Rightarrow> ustr list" where
  "speak_stream emit fin cs =
     (case run_chunks emit cs [] of (ps, b) \<Rightarrow> ps @ fst (fin b))"

context chunker
begin

lemma run_conserves:
  "run_chunks emit cs b = (ps, b') \<Longrightarrow> no_space (concat ps) @ no_space b' = no_space b @ no_space (concat cs)"
proof (induction cs arbitrary: b ps b')
  case Nil
  then show ?case by simp
next
  case (Cons c cs)
  obtain ps1 b1 where a: "add_chunk emit c b = (ps1, b1)" by fastforce
  obtain qs b2 where r: "run_chunks emit cs b1 = (qs, b2)" by fastforce
  from Cons.prems a r have ps: "ps = ps1 @ qs" "b' = b2" by auto
  have "no_space (concat ps1) @ no_space b1 = no_space b @ no_space c"
    using a emit_conserves [of "b @ c"] by (auto simp: add_chunk_def split: if_splits)
  with Cons.IH [OF r] show ?case unfolding ps by (simp flip: append_assoc) (metis append.assoc)
qed

lemma stream_conserves:
  "\<exists>r. no_space (concat (speak_stream emit fin cs)) @ no_space r = no_space (concat cs) \<and>
     (r \<noteq> [] \<longrightarrow> droppable r)"
proof -
  obtain ps b where r: "run_chunks emit cs [] = (ps, b)" by fastforce
  obtain qs b' where f: "fin b = (qs, b')" by fastforce
  have c: "no_space (concat ps) @ no_space b = no_space (concat cs)" using run_conserves [OF r] by simp
  from fin_law [OF f] show ?thesis
  proof
    assume "b' = [] \<and> no_space (concat qs) = no_space b"
    with r f c show ?thesis by (intro exI [of _ "[]"]) (simp add: speak_stream_def)
  next
    assume "b' = [] \<and> qs = [] \<and> droppable b"
    with r f c show ?thesis by (intro exI [of _ b]) (simp add: speak_stream_def)
  qed
qed

end

subsection \<open>Text lemmas\<close>

lemma no_space_take_drop: "no_space (u_strip (take n s)) @ no_space (u_lstrip (drop n s)) = no_space s"
  by (simp flip: no_space_simps(2))

lemma u_space_no_space: "no_space s = [] \<longleftrightarrow> (\<forall>c \<in> set s. u_space c)"
  by (simp add: no_space_def filter_empty_conv)

lemma u_strip_empty_no_space: "u_strip s = [] \<Longrightarrow> no_space s = []"
  by (metis no_space_strip(3) no_space_simps(1))

lemma u_lstrip_empty_no_space: "u_lstrip s = [] \<Longrightarrow> no_space s = []"
  by (metis no_space_strip(1) no_space_simps(1))

subsection \<open>SentenceBuffer\<close>

definition DEFAULT_MIN_SENTENCE_CHARS :: int where "DEFAULT_MIN_SENTENCE_CHARS = 2"
definition DEFAULT_MAX_BUFFER_CHARS :: int where "DEFAULT_MAX_BUFFER_CHARS = 200"

definition u_len :: "ustr \<Rightarrow> int" where "u_len s = int (length s)"

definition contains_cjk :: "ustr \<Rightarrow> bool" where
  "contains_cjk s = list_ex (\<lambda>cp. (0x4E00 \<le> cp \<and> cp \<le> 0x9FFF) \<or> (0x3040 \<le> cp \<and> cp \<le> 0x30FF)
     \<or> (0xAC00 \<le> cp \<and> cp \<le> 0xD7AF)) s"

definition has_speakable_text :: "(int \<Rightarrow> bool) \<Rightarrow> ustr \<Rightarrow> bool" where
  "has_speakable_text alnum s = list_ex alnum s"




record sent_cfg =
  sb_min :: int
  sb_max :: int









definition emit_pysbd :: "(ustr \<Rightarrow> ustr list) \<Rightarrow> sent_cfg \<Rightarrow> ustr \<Rightarrow> ustr list \<times> ustr" where
  "emit_pysbd segment cfg b =
     (let sentences = segment b
      in if 1 < length sentences
         then (filter (\<lambda>s. u_len s \<ge> sb_min cfg) (map u_strip (butlast sentences)), last sentences)
         else if u_len b \<ge> sb_max cfg then (if u_strip b = [] then [] else [u_strip b], [])
         else ([], b))"



subsection \<open>LowLatencyTTSBuffer\<close>

record clause_cfg =
  lb_lang :: string
  lb_min :: int
  lb_target :: int
  lb_max :: int

definition CJK_LANGS :: "string list" where
  "CJK_LANGS = [''zh'', ''chinese'', ''ja'', ''japanese'', ''ko'', ''korean'']"

text \<open>The size variables of the environment, with \<open>int()\<close> refusing what is no number.\<close>

definition size_env :: "(string \<rightharpoonup> string) \<Rightarrow> string \<Rightarrow> string \<Rightarrow> int option" where
  "size_env e name dflt = py_int (case e name of None \<Rightarrow> dflt | Some v \<Rightarrow> v)"

definition low_latency_init ::
  "(string \<rightharpoonup> string) \<Rightarrow> string \<Rightarrow> int option \<Rightarrow> int option \<Rightarrow> int option \<Rightarrow> clause_cfg option" where
  "low_latency_init e lang mn tg mx =
     (let cjk = (str_lower (str_strip lang) \<in> set CJK_LANGS);
          prefix = (if cjk then ''OVS_TTS_LOW_LATENCY_CJK'' else ''OVS_TTS_LOW_LATENCY_LATIN'');
          dmin = size_env e (prefix @ ''_MIN_CHARS'') (if cjk then ''15'' else ''24'');
          dtarget = size_env e (prefix @ ''_TARGET_CHARS'') (if cjk then ''24'' else ''48'');
          dmax = size_env e (prefix @ ''_MAX_CHARS'') (if cjk then ''40'' else ''80'')
      in case (dmin, dtarget, dmax) of
           (Some a, Some b, Some c) \<Rightarrow>
             let m1 = max 2 (case mn of None \<Rightarrow> a | Some x \<Rightarrow> x);
                 t1 = max m1 (case tg of None \<Rightarrow> b | Some x \<Rightarrow> x);
                 x1 = max t1 (case mx of None \<Rightarrow> c | Some x \<Rightarrow> x)
             in Some \<lparr>lb_lang = lang, lb_min = m1, lb_target = t1, lb_max = x1\<rparr>
         | _ \<Rightarrow> None)"

fun u_find :: "ustr \<Rightarrow> int \<Rightarrow> int" where
  "u_find [] c = -1"
| "u_find (x # xs) c = (if x = c then 0 else let r = u_find xs c in if r < 0 then -1 else r + 1)"

fun u_rfind :: "ustr \<Rightarrow> int \<Rightarrow> int" where
  "u_rfind [] c = -1"
| "u_rfind (x # xs) c = (let r = u_rfind xs c in if 0 \<le> r then r + 1 else if x = c then 0 else -1)"

definition first_break_index :: "ustr \<Rightarrow> int list \<Rightarrow> int" where
  "first_break_index text chars =
     (let found = filter (\<lambda>i. 0 \<le> i) (map (u_find text) chars)
      in if found = [] then -1 else Min (set found))"

definition last_break_index :: "ustr \<Rightarrow> int list \<Rightarrow> int \<Rightarrow> int" where
  "last_break_index text chars limit =
     (let found = filter (\<lambda>i. 0 \<le> i) (map (u_rfind (take (nat limit) text)) chars)
      in if found = [] then -1 else Max (set found))"

definition hard_breaks :: "int list" where
  "hard_breaks = [0x3002, 0xFF01, 0xFF1F, 33, 63, 0xFF1B, 59, 10]"

definition cjk_soft_breaks :: "int list" where
  "cjk_soft_breaks = [0xFF0C, 44, 0x3001, 0xFF1A, 58]"

definition latin_soft_breaks :: "int list" where
  "latin_soft_breaks = [44, 59, 58]"

definition take_chunk :: "int \<Rightarrow> ustr \<Rightarrow> ustr option \<times> ustr" where
  "take_chunk end b =
     (let out = u_strip (take (nat end) b)
      in (if out = [] then None else Some out, u_lstrip (drop (nat end) b)))"

definition choose_length_cut :: "clause_cfg \<Rightarrow> bool \<Rightarrow> ustr \<Rightarrow> int" where
  "choose_length_cut cfg is_cjk b =
     (let limit = min (u_len b) (lb_max cfg)
      in if is_cjk then
           (let soft_idx = last_break_index b cjk_soft_breaks limit
            in if soft_idx \<ge> lb_min cfg - 1 then soft_idx + 1 else limit)
         else
           (let window = take (nat limit) b
            in case filter (\<lambda>i. u_space (window ! i)) (rev [nat (lb_min cfg - 1)..<length window]) of
                 i # _ \<Rightarrow> int i + 1
               | [] \<Rightarrow> min (u_len b) (lb_target cfg)))"

definition next_chunk :: "clause_cfg \<Rightarrow> ustr \<Rightarrow> ustr option \<times> ustr" where
  "next_chunk cfg buf =
     (let b = u_lstrip buf
      in if b = [] then (None, b)
         else
           let is_cjk = (contains_cjk b \<or> str_lower (lb_lang cfg) \<in> set CJK_LANGS);
               soft = (if is_cjk then cjk_soft_breaks else latin_soft_breaks);
               hard_idx = first_break_index b hard_breaks;
               soft_idx = last_break_index b soft (u_len b);
               threshold = (if is_cjk then lb_max cfg else lb_target cfg);
               cut = choose_length_cut cfg is_cjk b
           in if 0 \<le> hard_idx \<and> u_len (u_strip (take (nat (hard_idx + 1)) b)) \<ge> DEFAULT_MIN_SENTENCE_CHARS
              then take_chunk (hard_idx + 1) b
              else if 0 \<le> soft_idx \<and> u_len (u_strip (take (nat (soft_idx + 1)) b)) \<ge> lb_min cfg
              then take_chunk (soft_idx + 1) b
              else if 0 \<le> soft_idx \<and> u_len (u_strip b) \<ge> lb_target cfg then take_chunk (u_len b) b
              else if u_len (u_strip b) < threshold then (None, b)
              else if cut \<le> 0 then (None, b)
              else take_chunk cut b)"

lemma take_chunk_some:
  "take_chunk n b = (Some p, b') \<Longrightarrow> no_space p @ no_space b' = no_space b \<and> length b' < length b"
proof -
  assume a: "take_chunk n b = (Some p, b')"
  then have p: "p = u_strip (take (nat n) b)" "p \<noteq> []" and b': "b' = u_lstrip (drop (nat n) b)"
    by (auto simp: take_chunk_def Let_def split: if_splits)
  from p have "nat n \<noteq> 0" "b \<noteq> []" by auto
  then have "length (drop (nat n) b) < length b" by simp
  moreover have "length b' \<le> length (drop (nat n) b)" unfolding b' by (rule length_lstrip_le)
  ultimately show ?thesis using no_space_take_drop [of "nat n" b] p b' by simp
qed

lemma take_chunk_none: "take_chunk n b = (None, b') \<Longrightarrow> no_space b' = no_space b"
  using no_space_take_drop [of "nat n" b]
  by (auto simp: take_chunk_def Let_def u_strip_empty_no_space split: if_splits)

lemma next_chunk_some:
  assumes "next_chunk cfg b = (Some p, b')"
  shows "no_space p @ no_space b' = no_space b \<and> length b' < length b"
proof -
  from assms obtain n where "take_chunk n (u_lstrip b) = (Some p, b')"
    unfolding next_chunk_def Let_def by (auto split: if_splits)
  from take_chunk_some [OF this] length_lstrip_le [of b] show ?thesis by simp
qed

lemma next_chunk_none: "next_chunk cfg b = (None, b') \<Longrightarrow> no_space b' = no_space b"
  unfolding next_chunk_def Let_def
  by (auto split: if_splits dest!: take_chunk_none simp: u_lstrip_empty_no_space)

text \<open>\<open>_emit_ready(final=False)\<close>, and the one turn it makes with \<open>final=True\<close>: the second finds
  the buffer empty.\<close>

function emit_ready :: "clause_cfg \<Rightarrow> ustr \<Rightarrow> ustr list \<times> ustr" where
  "emit_ready cfg b =
     (case next_chunk cfg b of
        (None, b') \<Rightarrow> ([], b')
      | (Some p, b') \<Rightarrow> (case emit_ready cfg b' of (ps, b'') \<Rightarrow> (p # ps, b'')))"
  by pat_completeness auto
termination
  by (relation "measure (\<lambda>(cfg, b). length b)") (auto dest: next_chunk_some [OF sym])

declare emit_ready.simps [simp del]

definition flush_low_latency :: "(int \<Rightarrow> bool) \<Rightarrow> ustr \<Rightarrow> ustr list \<times> ustr" where
  "flush_low_latency alnum buf =
     (let b = u_lstrip buf; out = u_strip b
      in if b = [] then ([], b)
         else (if out \<noteq> [] \<and> has_speakable_text alnum out then [out] else [], []))"

lemma flush_low_latency_law:
  "flush_low_latency alnum b = (ps, b') \<Longrightarrow>
   b' = [] \<and> no_space (concat ps) = no_space b \<or>
   b' = [] \<and> ps = [] \<and> \<not> has_speakable_text alnum (u_strip (u_lstrip b))"
  using u_lstrip_empty_no_space [of b] u_strip_empty_no_space [of "u_lstrip b"]
  by (auto simp: flush_low_latency_def Let_def split: if_splits)

interpretation low_latency: chunker "next_chunk cfg" "emit_ready cfg" "flush_low_latency alnum"
  "\<lambda>r. \<not> has_speakable_text alnum (u_strip (u_lstrip r))" for cfg alnum
  by unfold_locales
    (auto dest: next_chunk_some next_chunk_none flush_low_latency_law simp: emit_ready.simps [of cfg])

subsection \<open>ClauseBuffer\<close>

text \<open>The break searches and the length cut of the adapter are the same code, so the definitions above
  serve for both; what differs is written out again.\<close>

definition clause_contains_cjk :: "ustr \<Rightarrow> bool" where
  "clause_contains_cjk s = list_ex (\<lambda>cp. (0x4E00 \<le> cp \<and> cp \<le> 0x9FFF) \<or> (0x3400 \<le> cp \<and> cp \<le> 0x4DBF)
     \<or> (0x3040 \<le> cp \<and> cp \<le> 0x30FF) \<or> (0xAC00 \<le> cp \<and> cp \<le> 0xD7AF)) s"

definition clause_init ::
  "(string \<rightharpoonup> string) \<Rightarrow> string \<Rightarrow> int option \<Rightarrow> int option \<Rightarrow> int option \<Rightarrow> clause_cfg option" where
  "clause_init e lang mn tg mx =
     (let cjk = (str_lower (str_strip lang) \<in> set CJK_LANGS);
          prefix = (if cjk then ''OVS_TTS_LOW_LATENCY_CJK'' else ''OVS_TTS_LOW_LATENCY_LATIN'')
      in case size_env e (prefix @ ''_MIN_CHARS'') (if cjk then ''15'' else ''24'') of
           None \<Rightarrow> None
         | Some d_min \<Rightarrow>
             (case size_env e (prefix @ ''_TARGET_CHARS'') (if cjk then ''24'' else ''48'') of
                None \<Rightarrow> None
              | Some d_tgt \<Rightarrow>
                  (case size_env e (prefix @ ''_MAX_CHARS'') (if cjk then ''40'' else ''80'') of
                     None \<Rightarrow> None
                   | Some d_max \<Rightarrow>
                       let m1 = max 2 (case mn of Some x \<Rightarrow> x | None \<Rightarrow> d_min);
                           t1 = max m1 (case tg of Some x \<Rightarrow> x | None \<Rightarrow> d_tgt);
                           x1 = max t1 (case mx of Some x \<Rightarrow> x | None \<Rightarrow> d_max)
                       in Some \<lparr>lb_lang = lang, lb_min = m1, lb_target = t1, lb_max = x1\<rparr>)))"

definition clause_next :: "clause_cfg \<Rightarrow> ustr \<Rightarrow> ustr option \<times> ustr" where
  "clause_next cfg buf =
     (let b = u_lstrip buf
      in if b = [] then (None, b)
         else
           let is_cjk = (clause_contains_cjk b \<or> str_lower (lb_lang cfg) \<in> set CJK_LANGS);
               soft = (if is_cjk then cjk_soft_breaks else latin_soft_breaks);
               hard_idx = first_break_index b hard_breaks;
               soft_idx = last_break_index b soft (u_len b);
               threshold = (if is_cjk then lb_max cfg else lb_target cfg);
               cut = choose_length_cut cfg is_cjk b
           in if 0 \<le> hard_idx \<and> u_len (u_strip (take (nat (hard_idx + 1)) b)) \<ge> DEFAULT_MIN_SENTENCE_CHARS
              then take_chunk (hard_idx + 1) b
              else if 0 \<le> soft_idx \<and> u_len (u_strip (take (nat (soft_idx + 1)) b)) \<ge> lb_min cfg
              then take_chunk (soft_idx + 1) b
              else if 0 \<le> soft_idx \<and> u_len (u_strip b) \<ge> lb_target cfg then take_chunk (u_len b) b
              else if u_len (u_strip b) < threshold then (None, b)
              else if cut \<le> 0 then (None, b)
              else take_chunk cut b)"

lemma clause_next_some:
  assumes "clause_next cfg b = (Some p, b')"
  shows "no_space p @ no_space b' = no_space b \<and> length b' < length b"
proof -
  from assms obtain n where "take_chunk n (u_lstrip b) = (Some p, b')"
    unfolding clause_next_def Let_def by (auto split: if_splits)
  from take_chunk_some [OF this] length_lstrip_le [of b] show ?thesis by simp
qed

lemma clause_next_none: "clause_next cfg b = (None, b') \<Longrightarrow> no_space b' = no_space b"
  unfolding clause_next_def Let_def
  by (auto split: if_splits dest!: take_chunk_none simp: u_lstrip_empty_no_space)

function emit_clause :: "clause_cfg \<Rightarrow> ustr \<Rightarrow> ustr list \<times> ustr" where
  "emit_clause cfg b =
     (case clause_next cfg b of
        (None, b') \<Rightarrow> ([], b')
      | (Some p, b') \<Rightarrow> (case emit_clause cfg b' of (ps, b'') \<Rightarrow> (p # ps, b'')))"
  by pat_completeness auto
termination
  by (relation "measure (\<lambda>(cfg, b). length b)") (auto dest: clause_next_some [OF sym])

declare emit_clause.simps [simp del]

definition flush_clause :: "ustr \<Rightarrow> ustr list \<times> ustr" where
  "flush_clause buf =
     (let b = u_lstrip buf; out = u_strip b
      in if b = [] then ([], b) else (if out \<noteq> [] then [out] else [], []))"

lemma flush_clause_law: "flush_clause b = (ps, b') \<Longrightarrow> b' = [] \<and> no_space (concat ps) = no_space b"
  using u_lstrip_empty_no_space [of b] u_strip_empty_no_space [of "u_lstrip b"]
  by (auto simp: flush_clause_def Let_def split: if_splits)

interpretation clause: chunker "clause_next cfg" "emit_clause cfg" flush_clause "\<lambda>r. False" for cfg
  by unfold_locales
    (auto dest: clause_next_some clause_next_none flush_clause_law simp: emit_clause.simps [of cfg])

subsection \<open>Properties\<close>


text \<open>The low-latency buffer conserves the text in the same way, with every rule that cuts a chunk
  early (hard and soft breaks, length cuts).\<close>

theorem low_latency_stream_conserves:
  "\<exists>r. no_space (concat (speak_stream (emit_ready cfg) (flush_low_latency alnum) cs)) @ no_space r
        = no_space (concat cs) \<and> \<not> (r \<noteq> [] \<and> has_speakable_text alnum (u_strip (u_lstrip r)))"
  using low_latency.stream_conserves [of cfg alnum cs] by blast

text \<open>The clause buffer of the Wyoming adapter conserves the text exactly.\<close>

theorem clause_stream_conserves:
  "no_space (concat (speak_stream (emit_clause cfg) flush_clause cs)) = no_space (concat cs)"
  using clause.stream_conserves [of cfg cs] by auto

lemma low_latency_init_valid:
  "low_latency_init e lang mn tg mx = Some cfg \<Longrightarrow> 2 \<le> lb_min cfg \<and> lb_min cfg \<le> lb_target cfg \<and> lb_target cfg \<le> lb_max cfg"
  by (auto simp: low_latency_init_def Let_def split: option.splits)

lemma lstrip_head: "u_lstrip b \<noteq> [] \<Longrightarrow> \<not> u_space (hd (u_lstrip b))"
  by (simp add: u_lstrip_def hd_dropWhile)

lemma take_chunk_progress:
  assumes "b \<noteq> []" and "\<not> u_space (hd b)" and "0 < n"
  shows "fst (take_chunk n b) \<noteq> None"
proof -
  obtain m where m: "nat n = Suc m" using assms(3) by (metis gr0_implies_Suc zero_less_nat_eq)
  obtain c cs where b: "b = c # cs" using assms(1) by (cases b) auto
  have "u_strip (take (nat n) b) \<noteq> []" using assms(2) unfolding b m by (simp add: u_strip_empty_iff)
  then show ?thesis by (simp add: take_chunk_def Let_def)
qed

lemma u_len_pos: "b \<noteq> [] \<Longrightarrow> 1 \<le> u_len b"
  by (cases b) (simp_all add: u_len_def)

lemma cut_pos:
  assumes "b \<noteq> []" and "2 \<le> lb_min cfg" and "lb_min cfg \<le> lb_target cfg" and "lb_target cfg \<le> lb_max cfg"
  shows "0 < choose_length_cut cfg is_cjk b"
  using assms u_len_pos [OF assms(1)] by (auto simp: choose_length_cut_def Let_def split: list.splits)

lemma next_chunk_none_short:
  assumes n: "next_chunk cfg b = (None, b')"
    and v: "2 \<le> lb_min cfg" "lb_min cfg \<le> lb_target cfg" "lb_target cfg \<le> lb_max cfg"
  shows "u_len (u_strip b') < lb_max cfg"
proof (cases "u_lstrip b = []")
  case True
  with n v show ?thesis by (auto simp: next_chunk_def u_len_def)
next
  case False
  note pr = take_chunk_progress [OF False lstrip_head [OF False]]
  have nt: "take_chunk k (u_lstrip b) \<noteq> (None, b')" if "0 < k" for k using pr [OF that] by auto
  have len: "0 < u_len (u_lstrip b)" using u_len_pos [OF False] by simp
  have cut: "\<not> choose_length_cut cfg x (u_lstrip b) \<le> 0" for x using cut_pos [OF False v, of x] by simp
  have ntc: "take_chunk (choose_length_cut cfg x (u_lstrip b)) (u_lstrip b) \<noteq> (None, b')" for x
    using nt cut_pos [OF False v, of x] by blast
  show ?thesis
    using n False v nt len cut ntc
    unfolding next_chunk_def Let_def by (auto split: if_splits)
qed

text \<open>Text does not pile up. In a low-latency buffer that any configuration can give, what is
  pending after any tokens have been added is shorter than the maximum chunk, whatever the text, so with
  no punctuation at all speech starts after \<open>max_chars\<close> characters.\<close>

theorem pending_text_bounded:
  assumes "low_latency_init e lang mn tg mx = Some cfg" and "run_chunks (emit_ready cfg) (cs @ [c]) [] = (ps, b)"
    and "c \<noteq> []"
  shows "u_len (u_strip b) < lb_max cfg"
proof -
  have split: "\<exists>ps1 b1. run_chunks em (xs @ [c]) b0 = (ps1, b1) \<and> (\<exists>b2 ps2. em (b2 @ c) = (ps2, b1))"
    if "c \<noteq> []" for em xs b0
  proof (induction xs arbitrary: b0)
    case Nil
    obtain p1 b1 where "em (b0 @ c) = (p1, b1)" by fastforce
    with that show ?case by (auto simp: add_chunk_def)
  next
    case (Cons x xs)
    obtain p1 b1 where 1: "add_chunk em x b0 = (p1, b1)" by fastforce
    obtain p2 b2 where 2: "run_chunks em (xs @ [c]) b1 = (p2, b2)" by fastforce
    with Cons.IH [of b1] 1 show ?case by auto
  qed
  from split [OF assms(3), of "emit_ready cfg" cs "[]"] assms(2)
  obtain b2 ps2 where "emit_ready cfg (b2 @ c) = (ps2, b)" by auto
  then obtain b0 where "next_chunk cfg b0 = (None, b)" using low_latency.emit_exhausts by blast
  then show ?thesis using next_chunk_none_short low_latency_init_valid [OF assms(1)] by blast
qed

definition demo_cfg :: clause_cfg where
  "demo_cfg = \<lparr>lb_lang = ''en'', lb_min = 3, lb_target = 5, lb_max = 8\<rparr>"

theorem pending_text_bounded_witness:
  "\<exists>ps b. run_chunks (emit_ready demo_cfg) ([[97, 98], [32, 99]] @ [[100, 101, 102]]) [] = (ps, b) \<and> u_len (u_strip b) < 8"
proof -
  obtain ps b where r: "run_chunks (emit_ready demo_cfg) ([[97, 98], [32, 99]] @ [[100, 101, 102]]) [] = (ps, b)"
    by fastforce
  have "low_latency_init Map.empty ''en'' (Some 3) (Some 5) (Some 8) = Some demo_cfg" by code_simp
  from pending_text_bounded [OF this r] r show ?thesis by (auto simp: demo_cfg_def)
qed

lemma set_lstrip: "set (u_lstrip s) \<subseteq> set s"
  by (auto simp: u_lstrip_def dest: set_dropWhileD)

definition no_ext_a :: "ustr \<Rightarrow> bool" where
  "no_ext_a s = list_all (\<lambda>c. \<not> (0x3400 \<le> c \<and> c \<le> 0x4DBF)) s"

lemma clause_next_same:
  assumes "no_ext_a b"
  shows "clause_next cfg b = next_chunk cfg b \<and> (\<forall>p b'. next_chunk cfg b = (p, b') \<longrightarrow> no_ext_a b')"
proof -
  have l: "no_ext_a (u_lstrip b)" using assms set_lstrip [of b] by (auto simp: no_ext_a_def list_all_iff)
  then have "clause_contains_cjk (u_lstrip b) = contains_cjk (u_lstrip b)"
    unfolding clause_contains_cjk_def contains_cjk_def no_ext_a_def list_all_iff list_ex_iff by blast
  then have 1: "clause_next cfg b = next_chunk cfg b"
    unfolding clause_next_def next_chunk_def Let_def by (simp only:)
  have t: "no_ext_a b'" if "take_chunk n (u_lstrip b) = (p, b')" for n p b'
  proof -
    have "set b' \<subseteq> set (u_lstrip b)"
      using that set_lstrip [of "drop (nat n) (u_lstrip b)"] set_drop_subset [of "nat n" "u_lstrip b"]
      by (auto simp: take_chunk_def Let_def)
    with l show ?thesis by (auto simp: no_ext_a_def list_all_iff)
  qed
  have "no_ext_a b'" if "next_chunk cfg b = (p, b')" for p b'
    using that l t unfolding next_chunk_def Let_def by (auto split: if_splits)
  with 1 show ?thesis by blast
qed

lemma emit_clause_same: "no_ext_a b \<Longrightarrow> emit_clause cfg b = emit_ready cfg b \<and> no_ext_a (snd (emit_ready cfg b))"
proof (induction cfg b rule: emit_ready.induct)
  case (1 cfg b)
  obtain o1 b1 where n: "next_chunk cfg b = (o1, b1)" by fastforce
  with clause_next_same [OF 1(2), of cfg] have c: "clause_next cfg b = (o1, b1)" "no_ext_a b1" by auto
  show ?case
  proof (cases o1)
    case None
    with n c show ?thesis by (simp add: emit_clause.simps [of cfg b] emit_ready.simps [of cfg b])
  next
    case (Some p)
    from 1(1) [OF n [symmetric] Some c(2)] n c Some show ?thesis
      by (simp add: emit_clause.simps [of cfg b] emit_ready.simps [of cfg b] case_prod_beta)
  qed
qed

lemma add_chunk_same:
  "no_ext_a b \<Longrightarrow> no_ext_a c \<Longrightarrow>
   add_chunk (emit_clause cfg) c b = add_chunk (emit_ready cfg) c b \<and> no_ext_a (snd (add_chunk (emit_ready cfg) c b))"
  using emit_clause_same [of "b @ c" cfg] by (auto simp: add_chunk_def no_ext_a_def)

text \<open>The adapter's clause buffer cuts exactly as the server's: on any token stream without CJK
  Extension A characters it yields the same chunks and is left with the same text.\<close>

theorem clause_mirrors_low_latency:
  assumes "\<forall>c \<in> set cs. no_ext_a c"
  shows "run_chunks (emit_clause cfg) cs [] = run_chunks (emit_ready cfg) cs []"
proof -
  have "run_chunks (emit_clause cfg) cs b = run_chunks (emit_ready cfg) cs b" if "no_ext_a b" for b
    using assms that
  proof (induction cs arbitrary: b)
    case (Cons c cs)
    then show ?case using add_chunk_same [of b c cfg] by (auto split: prod.splits)
  qed simp
  moreover have "no_ext_a []" by (simp add: no_ext_a_def)
  ultimately show ?thesis by blast
qed

theorem clause_mirrors_low_latency_witness:
  "run_chunks (emit_clause demo_cfg) [[104, 105, 46], [32, 97]] [] = run_chunks (emit_ready demo_cfg) [[104, 105, 46], [32, 97]] []"
  by (rule clause_mirrors_low_latency) (simp add: no_ext_a_def)

text \<open>The mirror is not exact. On the same Extension A text the adapter's buffer waits for a longer
  chunk than the server's, and at the end of a stream the adapter yields a remainder of bare punctuation
  that the server drops.\<close>

theorem clause_buffer_divergence:
  "emit_clause demo_cfg [0x3400, 97, 97, 97, 97] = ([], [0x3400, 97, 97, 97, 97]) \<and>
   emit_ready demo_cfg [0x3400, 97, 97, 97, 97] = ([[0x3400, 97, 97, 97, 97]], []) \<and>
   fst (flush_clause [0x3002]) = [[0x3002]] \<and>
   (\<not> alnum 0x3002 \<longleftrightarrow> fst (flush_low_latency alnum [0x3002]) = [])"
proof -
  have "emit_clause demo_cfg [0x3400, 97, 97, 97, 97] = ([], [0x3400, 97, 97, 97, 97])" by code_simp
  moreover have "emit_ready demo_cfg [0x3400, 97, 97, 97, 97] = ([[0x3400, 97, 97, 97, 97]], [])" by code_simp
  moreover have "fst (flush_clause [0x3002]) = [[0x3002]]" by code_simp
  moreover have "u_lstrip [0x3002] = [0x3002]" "u_strip [0x3002] = [0x3002]" by code_simp+
  ultimately show ?thesis by (simp add: flush_low_latency_def has_speakable_text_def)
qed

end
