(* ===== verification/Json.thy ===== *)
theory Json
  imports Prelude Complex_Main
begin

section \<open>Decoded JSON and Python dictionaries\<close>

text \<open>
  The values \<open>json.loads\<close> yields and what the code does with them. A dictionary is its list of items
  in insertion order with distinct keys; assignment keeps the place of an existing key. Floating
  point values are finite and taken as rationals. Text is a list of characters: the code compares and
  concatenates it. The laws of a dictionary that the components use are the locale \<open>py_dict\<close>.
\<close>

datatype json =
  JNull
| JBool bool
| JInt int
| JFloat rat
| JStr string
| JList "json list"
| JObj "(string \<times> json) list"

type_synonym jdict = "(string \<times> json) list"

subsection \<open>Dictionaries\<close>

fun dget :: "(string \<times> 'v) list \<Rightarrow> string \<Rightarrow> 'v option" where
  "dget [] k = None"
| "dget ((k', v) # d) k = (if k = k' then Some v else dget d k)"

fun dset :: "(string \<times> 'v) list \<Rightarrow> string \<Rightarrow> 'v \<Rightarrow> (string \<times> 'v) list" where
  "dset [] k v = [(k, v)]"
| "dset ((k', v') # d) k v = (if k = k' then (k, v) # d else (k', v') # dset d k v)"

fun dpop :: "(string \<times> 'v) list \<Rightarrow> string \<Rightarrow> (string \<times> 'v) list" where
  "dpop [] k = []"
| "dpop ((k', v') # d) k = (if k = k' then dpop d k else (k', v') # dpop d k)"

definition dupdate :: "(string \<times> 'v) list \<Rightarrow> (string \<times> 'v) list \<Rightarrow> (string \<times> 'v) list" where
  "dupdate d items = foldl (\<lambda>d (k, v). dset d k v) d items"

definition setdefault :: "(string \<times> 'v) list \<Rightarrow> string \<Rightarrow> 'v \<Rightarrow> (string \<times> 'v) list" where
  "setdefault d k v = (case dget d k of None \<Rightarrow> d @ [(k, v)] | Some _ \<Rightarrow> d)"

definition keys :: "(string \<times> 'v) list \<Rightarrow> string list" where
  "keys d = map fst d"

text \<open>What every Python dictionary promises.\<close>

locale py_dict =
  fixes lookup :: "'d \<Rightarrow> 'k \<Rightarrow> 'v option"
    and assign :: "'d \<Rightarrow> 'k \<Rightarrow> 'v \<Rightarrow> 'd"
    and remove :: "'d \<Rightarrow> 'k \<Rightarrow> 'd"
    and wf :: "'d \<Rightarrow> bool"
  assumes lookup_assign: "lookup (assign d k v) k' = (if k' = k then Some v else lookup d k')"
    and lookup_remove: "lookup (remove d k) k' = (if k' = k then None else lookup d k')"
    and wf_assign: "wf d \<Longrightarrow> wf (assign d k v)"
    and wf_remove: "wf d \<Longrightarrow> wf (remove d k)"
begin

lemma lookup_assigns:
  "lookup (foldl (\<lambda>d (k, v). assign d k v) d items) k =
     (case map_of (rev items) k of Some v \<Rightarrow> Some v | None \<Rightarrow> lookup d k)"
proof (induction items arbitrary: d)
  case Nil
  then show ?case by simp
next
  case (Cons kv items)
  show ?case
    by (cases kv) (auto simp: Cons.IH lookup_assign map_add_def split: option.splits)
qed

lemma wf_assigns: "wf d \<Longrightarrow> wf (foldl (\<lambda>d (k, v). assign d k v) d items)"
  by (induction items arbitrary: d) (auto intro: wf_assign)

lemma assign_overwrites: "lookup (assign (assign d k v) k w) k' = lookup (assign d k w) k'"
  by (simp add: lookup_assign)

lemma assigned_unless_removed: "lookup (remove (assign d k v) k') k = (if k = k' then None else Some v)"
  by (simp add: lookup_remove lookup_assign)

end

lemma keys_simps [simp]: "keys [] = []" "keys ((k, v) # d) = k # keys d" "keys (d @ e) = keys d @ keys e"
  by (simp_all add: keys_def)

lemma dget_dset: "dget (dset d k v) k' = (if k' = k then Some v else dget d k')"
  by (induction d) auto

lemma dget_dpop: "dget (dpop d k) k' = (if k' = k then None else dget d k')"
  by (induction d) auto

lemma keys_dset: "keys (dset d k v) = (if k \<in> set (keys d) then keys d else keys d @ [k])"
  by (induction d) auto

lemma keys_dpop: "keys (dpop d k) = filter (\<lambda>x. x \<noteq> k) (keys d)"
  by (induction d) auto

interpretation dict: py_dict dget dset dpop "\<lambda>d. distinct (keys d)"
  by unfold_locales (auto simp: dget_dset dget_dpop keys_dset keys_dpop)

lemma dget_None_iff: "dget d k = None \<longleftrightarrow> k \<notin> set (keys d)"
  by (induction d) (auto split: if_splits)

lemma dget_append: "dget (d @ e) k = (case dget d k of Some v \<Rightarrow> Some v | None \<Rightarrow> dget e k)"
  by (induction d) auto

lemma dget_setdefault:
  "dget (setdefault d k v) k' = (if k' = k \<and> dget d k = None then Some v else dget d k')"
  by (auto simp: setdefault_def dget_append split: option.splits)

lemma dget_dupdate:
  "dget (dupdate d items) k = (case map_of (rev items) k of Some v \<Rightarrow> Some v | None \<Rightarrow> dget d k)"
  unfolding dupdate_def by (rule dict.lookup_assigns)

lemma distinct_keys_dupdate: "distinct (keys d) \<Longrightarrow> distinct (keys (dupdate d items))"
  unfolding dupdate_def by (rule dict.wf_assigns)

lemma dget_in: "dget d k = Some v \<Longrightarrow> (k, v) \<in> set d"
  by (induction d) (auto split: if_splits)

subsection \<open>Python on decoded values\<close>

fun jtruthy :: "json \<Rightarrow> bool" where
  "jtruthy JNull = False"
| "jtruthy (JBool b) = b"
| "jtruthy (JInt n) = (n \<noteq> 0)"
| "jtruthy (JFloat x) = (x \<noteq> 0)"
| "jtruthy (JStr s) = (s \<noteq> [])"
| "jtruthy (JList xs) = (xs \<noteq> [])"
| "jtruthy (JObj d) = (d \<noteq> [])"

text \<open>\<open>d.get(k, default)\<close>; \<open>x if isinstance(x, dict) else {}\<close>.\<close>

definition jget :: "jdict \<Rightarrow> string \<Rightarrow> json \<Rightarrow> json" where
  "jget d k dflt = (case dget d k of None \<Rightarrow> dflt | Some v \<Rightarrow> v)"

fun as_dict :: "json \<Rightarrow> jdict" where
  "as_dict (JObj d) = d"
| "as_dict _ = []"

fun is_dict :: "json \<Rightarrow> bool" where
  "is_dict (JObj d) = True"
| "is_dict _ = False"

text \<open>\<open>int(v)\<close>.\<close>

datatype py_error = ValueErr | TypeErr | AttributeErr | KeyErr | RuntimeErr

fun jint :: "json \<Rightarrow> (py_error, int) res" where
  "jint (JBool b) = Inr (if b then 1 else 0)"
| "jint (JInt n) = Inr n"
| "jint (JFloat x) = Inr (if x < 0 then - \<lfloor>- x\<rfloor> else \<lfloor>x\<rfloor>)"
| "jint (JStr s) = (case py_int s of None \<Rightarrow> Inl ValueErr | Some n \<Rightarrow> Inr n)"
| "jint _ = Inl TypeErr"

text \<open>\<open>str(v)\<close>; \<open>rep\<close> gives the text of floats and containers.\<close>

fun jstr :: "(json \<Rightarrow> string) \<Rightarrow> json \<Rightarrow> string" where
  "jstr rep JNull = ''None''"
| "jstr rep (JBool b) = (if b then ''True'' else ''False'')"
| "jstr rep (JInt n) = int_str n"
| "jstr rep (JStr s) = s"
| "jstr rep v = rep v"

fun jopt :: "string option \<Rightarrow> json" where
  "jopt None = JNull"
| "jopt (Some s) = JStr s"

text \<open>Python's \<open>round\<close>: to the nearest integer, halves to the even one.\<close>

definition round_even :: "rat \<Rightarrow> int" where
  "round_even x =
     (let f = \<lfloor>x\<rfloor>; d = x - of_int f
      in if d < 1 / 2 then f else if 1 / 2 < d then f + 1 else if even f then f else f + 1)"

text \<open>A loop over a list whose body may raise.\<close>

fun fold_res :: "('a \<Rightarrow> 'b \<Rightarrow> ('e, 'b) res) \<Rightarrow> 'a list \<Rightarrow> 'b \<Rightarrow> ('e, 'b) res" where
  "fold_res f [] acc = Inr acc"
| "fold_res f (x # xs) acc = bind_res (f x acc) (fold_res f xs)"

lemma fold_res_append: "fold_res f (xs @ ys) acc = bind_res (fold_res f xs acc) (fold_res f ys)"
proof (induction xs arbitrary: acc)
  case (Cons x xs)
  then show ?case by (cases "f x acc") simp_all
qed simp

lemma fold_res_inv:
  assumes "fold_res f xs acc = Inr r" and "P acc"
    and "\<And>x a b. x \<in> set xs \<Longrightarrow> P a \<Longrightarrow> f x a = Inr b \<Longrightarrow> P b"
  shows "P r"
  using assms
proof (induction xs arbitrary: acc)
  case (Cons x xs)
  then obtain b where b: "f x acc = Inr b" "fold_res f xs b = Inr r" by (auto simp: bind_res_eq_Inr)
  have "P b" by (rule Cons.prems(3) [OF _ Cons.prems(2) b(1)]) simp
  then show ?case by (rule Cons.IH [OF b(2)]) (auto intro: Cons.prems(3))
qed simp

lemma jopt_eq_iff [simp]: "jopt a = jopt b \<longleftrightarrow> a = b"
  by (cases a; cases b) auto

end
