(* ===== verification/AsrSegmenter.thy ===== *)
theory AsrSegmenter
  imports Json
begin

section \<open>Segmentation of long recordings\<close>

text \<open>
  \<^verbatim>\<open>server/core/asr_segmenter.py\<close>. Times are rational numbers of seconds; the code computes them
  in binary floating point, whose rounding is not modelled (its comparisons leave \<open>1e-9\<close> for it, which
  is kept). \<open>py_float\<close> is \<open>float()\<close> of a text, \<^const>\<open>None\<close> where it raises. A clip is its sample
  rate and its list of frames; the voice activity detector is the list of events it gives for the
  windows, and the recogniser a function from the frames of a slice to text and language.
\<close>

definition DEFAULT_MAX_SEGMENT_SECONDS :: rat where "DEFAULT_MAX_SEGMENT_SECONDS = 21 / 2"
definition DEFAULT_OVERLAP_SECONDS :: rat where "DEFAULT_OVERLAP_SECONDS = 2 / 5"
definition MIN_TAIL_SECONDS :: rat where "MIN_TAIL_SECONDS = 1 / 2"
definition VAD_MIN_SPEECH_S :: rat where "VAD_MIN_SPEECH_S = 1 / 10"
definition VAD_PAD_S :: rat where "VAD_PAD_S = 1 / 10"
definition time_eps :: rat where "time_eps = 1 / 1000000000"

subsection \<open>Configuration\<close>

text \<open>A backend: its name, and the limit attributes it has, in the order they are asked for.\<close>

record asr_backend_obj =
  ab_name :: string
  ab_limits :: "rat option list"

definition backend_name :: "asr_backend_obj \<Rightarrow> string" where
  "backend_name b = str_lower (str_strip (ab_name b))"

definition SELF_SEGMENTING_BACKENDS :: "string list" where
  "SELF_SEGMENTING_BACKENDS = [''paraformer_trt'', ''trt_edgellm'', ''sherpa_asr'']"

definition backend_chunks_internally :: "asr_backend_obj \<Rightarrow> bool" where
  "backend_chunks_internally b =
     (backend_name b \<in> set SELF_SEGMENTING_BACKENDS \<or> starts_with ''rk:'' (backend_name b))"

definition backend_declared_limit :: "asr_backend_obj \<Rightarrow> rat option" where
  "backend_declared_limit b =
     (if backend_name b = ''sensevoice_trt'' then Some DEFAULT_MAX_SEGMENT_SECONDS else None)"

definition auto_segment_enabled :: "(string \<rightharpoonup> string) \<Rightarrow> bool" where
  "auto_segment_enabled e =
     (case e ''OVS_ASR_AUTO_SEGMENT'' of
        None \<Rightarrow> True
      | Some raw \<Rightarrow> if str_strip raw = '''' then True else truthy raw)"

text \<open>\<open>env_float(name, default)\<close>.\<close>

definition env_float :: "(string \<Rightarrow> rat option) \<Rightarrow> (string \<rightharpoonup> string) \<Rightarrow> string \<Rightarrow> rat \<Rightarrow> rat" where
  "env_float py_float e name dflt =
     (if env_get e name = '''' then dflt
      else case py_float (env_get e name) of None \<Rightarrow> dflt | Some v \<Rightarrow> v)"

definition resolve_max_segment_seconds ::
  "(string \<Rightarrow> rat option) \<Rightarrow> asr_backend_obj \<Rightarrow> (string \<rightharpoonup> string) \<Rightarrow> rat" where
  "resolve_max_segment_seconds py_float b e =
     (let v = env_float py_float e ''OVS_ASR_MAX_SEGMENT_SECONDS'' DEFAULT_MAX_SEGMENT_SECONDS
      in if env_get e ''OVS_ASR_MAX_SEGMENT_SECONDS'' \<noteq> '''' \<and> 0 < v then v
         else case find (\<lambda>x. case x of Some l \<Rightarrow> 0 < l | None \<Rightarrow> False) (ab_limits b) of
                Some (Some l) \<Rightarrow> l
              | _ \<Rightarrow> if backend_chunks_internally b then 0 else DEFAULT_MAX_SEGMENT_SECONDS)"

definition resolve_overlap_seconds :: "(string \<Rightarrow> rat option) \<Rightarrow> (string \<rightharpoonup> string) \<Rightarrow> rat" where
  "resolve_overlap_seconds py_float e =
     max 0 (env_float py_float e ''OVS_ASR_SEGMENT_OVERLAP_SECONDS'' DEFAULT_OVERLAP_SECONDS)"

definition resolve_vad_backend :: "(string \<rightharpoonup> string) \<Rightarrow> string" where
  "resolve_vad_backend e =
     str_lower (str_strip (if env_get e ''OVS_ASR_SEGMENT_VAD'' = '''' then ''silero''
                           else env_get e ''OVS_ASR_SEGMENT_VAD''))"

subsection \<open>Clips and slices\<close>

record 'f clip =
  sample_rate :: nat
  sample_width :: nat
  frames :: "'f list"

definition clip_duration :: "'f clip \<Rightarrow> rat" where
  "clip_duration c = (if sample_rate c = 0 then 0 else of_nat (length (frames c)) / of_nat (sample_rate c))"

definition slice_frames :: "'f clip \<Rightarrow> rat \<Rightarrow> rat \<Rightarrow> 'f list" where
  "slice_frames c start_s end_s =
     (let n = int (length (frames c));
          i0 = max 0 (round_even (start_s * of_nat (sample_rate c)));
          i1 = min n (round_even (end_s * of_nat (sample_rate c)));
          i1' = (if i1 \<le> i0 then min n (i0 + 1) else i1)
      in take (nat (i1' - i0)) (drop (nat i0) (frames c)))"

subsection \<open>Fixed slices\<close>

text \<open>The loop of \<open>fixed_segment_bounds\<close>. Its step is positive in every call, which the guard records
  for termination.\<close>

function slice_loop :: "rat \<Rightarrow> rat \<Rightarrow> rat \<Rightarrow> rat \<Rightarrow> (rat \<times> rat) list" where
  "slice_loop duration mx step start =
     (if start < duration - time_eps \<and> 0 < step then
        (let e = min duration (start + mx)
         in (start, e) # (if duration - time_eps \<le> e then [] else slice_loop duration mx step (start + step)))
      else [])"
  by pat_completeness auto
termination
proof (relation "measure (\<lambda>(duration, mx, step, start). nat \<lceil>(duration - start) / step\<rceil>)", goal_cases)
  case 1
  then show ?case by simp
next
  case (2 duration mx step start x)
  then have s: "0 < step" "start < duration" by (auto simp: time_eps_def)
  then have "0 < (duration - start) / step" by simp
  then have "0 < \<lceil>(duration - start) / step\<rceil>" by simp
  moreover have "(duration - (start + step)) / step = (duration - start) / step - 1"
    using s by (simp add: field_simps)
  then have "\<lceil>(duration - (start + step)) / step\<rceil> = \<lceil>(duration - start) / step\<rceil> - 1"
    by (simp add: ceiling_diff_one)
  ultimately show ?case by simp
qed

declare slice_loop.simps [simp del]

definition fold_tail :: "rat \<Rightarrow> (rat \<times> rat) list \<Rightarrow> (rat \<times> rat) list" where
  "fold_tail mx bounds =
     (case rev bounds of
        (s2, e2) # (s1, e1) # front \<Rightarrow>
          if e2 - s2 < MIN_TAIL_SECONDS then rev front @ [(max s1 (e2 - mx), e2)] else bounds
      | _ \<Rightarrow> bounds)"

definition slice_step :: "rat \<Rightarrow> rat \<Rightarrow> rat" where
  "slice_step mx overlap_seconds = mx - min (max 0 overlap_seconds) (mx / 2)"

definition fixed_segment_bounds :: "rat \<Rightarrow> rat \<Rightarrow> rat \<Rightarrow> (rat \<times> rat) list" where
  "fixed_segment_bounds duration mx overlap_seconds =
     (if duration \<le> 0 \<or> mx \<le> 0 then []
      else if duration \<le> mx then [(0, duration)]
      else fold_tail mx (slice_loop duration mx (slice_step mx overlap_seconds) 0))"

subsection \<open>Voice activity\<close>

datatype vad_event = SpeechStart | SpeechEnd | NoEvent

text \<open>\<open>i\<close> is the position of the window; the events are those of the whole windows of the clip.\<close>

fun speech_regions :: "vad_event list \<Rightarrow> nat \<Rightarrow> nat \<Rightarrow> nat \<Rightarrow> nat option \<Rightarrow> (nat \<times> nat) list" where
  "speech_regions [] i window n_total start = (case start of None \<Rightarrow> [] | Some s \<Rightarrow> [(s, n_total)])"
| "speech_regions (ev # evs) i window n_total start =
     (case ev of
        SpeechStart \<Rightarrow>
          speech_regions evs (i + window) window n_total (if start = None then Some i else start)
      | SpeechEnd \<Rightarrow>
          (case start of
             Some s \<Rightarrow> (s, i + window) # speech_regions evs (i + window) window n_total None
           | None \<Rightarrow> speech_regions evs (i + window) window n_total None)
      | NoEvent \<Rightarrow> speech_regions evs (i + window) window n_total start)"

definition pad_regions :: "nat \<Rightarrow> nat \<Rightarrow> (nat \<times> nat) list \<Rightarrow> (rat \<times> rat) list" where
  "pad_regions rate n_total regions =
     (let pad = \<lfloor>VAD_PAD_S * of_nat rate\<rfloor>
      in map (\<lambda>(s, e). (of_int (max 0 (int s - pad)) / of_nat rate, of_int (min (int n_total) (int e + pad)) / of_nat rate))
           (filter (\<lambda>(s, e). \<not> (of_int (int e - int s) < VAD_MIN_SPEECH_S * of_nat rate)) regions))"

text \<open>\<open>group_regions\<close>; \<open>cur\<close> is the segment that is being filled.\<close>

fun group_loop :: "rat \<Rightarrow> rat \<Rightarrow> (rat \<times> rat) list \<Rightarrow> (rat \<times> rat) option \<Rightarrow> (rat \<times> rat) list" where
  "group_loop mx ov [] cur = (case cur of None \<Rightarrow> [] | Some c \<Rightarrow> [c])"
| "group_loop mx ov ((s, e) # rs) cur =
     (if mx < e - s then
        (case cur of None \<Rightarrow> [] | Some c \<Rightarrow> [c])
        @ map (\<lambda>(a, b). (s + a, s + b)) (fixed_segment_bounds (e - s) mx ov)
        @ group_loop mx ov rs None
      else case cur of
             None \<Rightarrow> group_loop mx ov rs (Some (s, e))
           | Some (cs, ce) \<Rightarrow>
               if e - cs \<le> mx then group_loop mx ov rs (Some (cs, e))
               else (cs, ce) # group_loop mx ov rs (Some (s, e)))"

definition group_regions :: "(rat \<times> rat) list \<Rightarrow> rat \<Rightarrow> rat \<Rightarrow> (rat \<times> rat) list" where
  "group_regions regions mx ov = group_loop mx ov regions None"

datatype strategy = Single | Fixed | FixedVadUnavailable | FixedVadEmpty | Vad

text \<open>\<open>vad\<close> gives the events of the session for the clip, \<^const>\<open>None\<close> when it cannot be made or
  raises.\<close>

definition plan_segments ::
  "('f clip \<Rightarrow> (nat \<times> vad_event list) option) \<Rightarrow> 'f clip \<Rightarrow> rat \<Rightarrow> rat \<Rightarrow> string \<Rightarrow>
   (rat \<times> rat) list \<times> strategy" where
  "plan_segments vad c mx ov vad_backend =
     (let duration = clip_duration c; slices = fixed_segment_bounds duration mx ov
      in if duration \<le> mx then ([(0, duration)], Single)
         else if vad_backend \<in> {''none'', ''off'', ''disabled'', ''''} then (slices, Fixed)
         else if sample_width c \<noteq> 2 \<or> sample_rate c \<noteq> 16000 then (slices, FixedVadUnavailable)
         else case vad c of
                None \<Rightarrow> (slices, FixedVadUnavailable)
              | Some (window, evs) \<Rightarrow>
                  let n_total = length (frames c);
                      regions = pad_regions (sample_rate c) n_total (speech_regions evs 0 window n_total None);
                      bounds = group_regions regions mx ov
                  in if regions = [] \<or> bounds = [] then (slices, FixedVadEmpty) else (bounds, Vad))"

subsection \<open>Joining the texts\<close>

definition CJK_RANGES :: "(int \<times> int) list" where
  "CJK_RANGES = [(0x3000, 0x303F), (0x3040, 0x30FF), (0x3400, 0x4DBF), (0x4E00, 0x9FFF), (0xF900, 0xFAFF),
     (0xFF00, 0xFFEF), (0x20000, 0x2FA1F), (0xAC00, 0xD7AF)]"

definition is_cjk :: "int \<Rightarrow> bool" where
  "is_cjk cp = list_ex (\<lambda>(lo, hi). lo \<le> cp \<and> cp \<le> hi) CJK_RANGES"

definition MAX_OVERLAP_DEDUP_CHARS :: nat where "MAX_OVERLAP_DEDUP_CHARS = 60"

text \<open>One candidate length of \<open>strip_overlap_repeat\<close>.\<close>

definition repeat_at :: "ustr \<Rightarrow> ustr \<Rightarrow> nat \<Rightarrow> bool" where
  "repeat_at prev cur n =
     (let head = take n cur; before = take (length prev - n) prev; after = drop n cur
      in drop (length prev - n) prev = head \<and>
         (list_all is_cjk head \<or>
            ((before = [] \<or> u_space (last before)) \<and> (after = [] \<or> u_space (hd after)))))"

fun strip_from :: "ustr \<Rightarrow> ustr \<Rightarrow> nat \<Rightarrow> ustr" where
  "strip_from prev cur 0 = cur"
| "strip_from prev cur (Suc n) =
     (if repeat_at prev cur (Suc n) then u_lstrip (drop (Suc n) cur) else strip_from prev cur n)"

definition strip_overlap_repeat :: "ustr \<Rightarrow> ustr \<Rightarrow> ustr" where
  "strip_overlap_repeat prev cur =
     (if prev = [] \<or> cur = [] then cur
      else strip_from prev cur (min (min (length prev) (length cur)) MAX_OVERLAP_DEDUP_CHARS))"

definition join_piece :: "ustr \<Rightarrow> ustr \<Rightarrow> ustr" where
  "join_piece out raw =
     (let piece = u_strip raw
      in if piece = [] then out
         else if out = [] then piece
         else let p = strip_overlap_repeat out piece
              in if p = [] then out
                 else if u_space (last out) \<or> u_space (hd p) then out @ p
                 else if is_cjk (last out) \<and> is_cjk (hd p) then out @ p
                 else out @ [32] @ p)"

definition join_segment_texts :: "ustr list \<Rightarrow> ustr" where
  "join_segment_texts parts = foldl join_piece [] parts"

subsection \<open>The entry point\<close>

record decoded_segment =
  ds_start :: rat
  ds_end :: rat
  ds_text :: ustr
  ds_lang :: "string option"

text \<open>\<open>max(dict.fromkeys(languages), key=languages.count)\<close>.\<close>

fun first_max :: "('a \<Rightarrow> nat) \<Rightarrow> 'a list \<Rightarrow> 'a option" where
  "first_max f [] = None"
| "first_max f (x # xs) = (case first_max f xs of None \<Rightarrow> Some x | Some y \<Rightarrow> if f x < f y then Some y else Some x)"

definition majority_language :: "string list \<Rightarrow> string option" where
  "majority_language langs = first_max (\<lambda>l. length (filter (\<lambda>x. x = l) langs)) langs"

definition decode_segments ::
  "('f list \<Rightarrow> ustr \<times> string option) \<Rightarrow> 'f clip \<Rightarrow> (rat \<times> rat) list \<Rightarrow> decoded_segment list" where
  "decode_segments transcribe c bounds =
     map (\<lambda>(s, e). case transcribe (slice_frames c s e) of (t, l) \<Rightarrow>
            \<lparr>ds_start = s, ds_end = e, ds_text = t, ds_lang = l\<rparr>) bounds"

text \<open>\<open>clip\<close> is what \<open>probe_wav\<close> makes of the upload. The result is the joined text, the language, the
  segments and the strategy, or \<^const>\<open>None\<close> for the single-shot path.\<close>

definition maybe_transcribe_segmented ::
  "(string \<Rightarrow> rat option) \<Rightarrow> asr_backend_obj \<Rightarrow> ('f list \<Rightarrow> ustr \<times> string option) \<Rightarrow> 'f clip option \<Rightarrow>
   (string \<rightharpoonup> string) \<Rightarrow> ('f clip \<Rightarrow> (nat \<times> vad_event list) option) \<Rightarrow>
   (ustr \<times> string option \<times> decoded_segment list \<times> strategy) option" where
  "maybe_transcribe_segmented py_float b transcribe clip_opt e vad =
     (if \<not> auto_segment_enabled e then None
      else let mx = resolve_max_segment_seconds py_float b e
           in if mx \<le> 0 then None
              else case clip_opt of
                     None \<Rightarrow> None
                   | Some c \<Rightarrow>
                       if clip_duration c \<le> mx then None
                       else case plan_segments vad c mx (resolve_overlap_seconds py_float e) (resolve_vad_backend e) of
                              (bounds, strat) \<Rightarrow>
                                if length bounds \<le> 1 then None
                                else let ds = decode_segments transcribe c bounds
                                     in Some (join_segment_texts (map ds_text ds),
                                              majority_language (map the (filter (\<lambda>l. l \<noteq> None \<and> l \<noteq> Some '''') (map ds_lang ds))),
                                              ds, strat))"

subsection \<open>Coverage and size of slices\<close>

text \<open>Neighbouring slices of the loop: each starts one step after the other, and all but the last are full.\<close>

fun chain :: "rat \<Rightarrow> rat \<Rightarrow> (rat \<times> rat) list \<Rightarrow> bool" where
  "chain mx step ((s1, e1) # (s2, e2) # bs) \<longleftrightarrow> s2 = s1 + step \<and> e1 = s1 + mx \<and> chain mx step ((s2, e2) # bs)"
| "chain mx step _ \<longleftrightarrow> True"

definition covered :: "(rat \<times> rat) list \<Rightarrow> rat \<Rightarrow> bool" where
  "covered bs t \<longleftrightarrow> (\<exists>(s, e) \<in> set bs. s \<le> t \<and> t \<le> e)"

lemma chain_covers:
  "chain mx step bs \<Longrightarrow> step \<le> mx \<Longrightarrow> bs \<noteq> [] \<Longrightarrow> fst (hd bs) \<le> t \<Longrightarrow> t \<le> snd (last bs) \<Longrightarrow> covered bs t"
proof (induction mx step bs rule: chain.induct)
  case (1 mx step s1 e1 s2 e2 bs)
  show ?case
  proof (cases "t \<le> e1")
    case True
    with 1 show ?thesis by (auto simp: covered_def)
  next
    case False
    with 1 have "covered ((s2, e2) # bs) t" by auto
    then show ?thesis by (auto simp: covered_def)
  qed
qed (auto simp: covered_def)

lemma slice_loop_Nil: "slice_loop d mx step a = [] \<longleftrightarrow> \<not> (a < d - time_eps \<and> 0 < step)"
  by (subst slice_loop.simps) (auto simp: Let_def time_eps_def)

lemma slice_loop_hd: "slice_loop d mx step a \<noteq> [] \<Longrightarrow> fst (hd (slice_loop d mx step a)) = a"
  by (subst (asm) slice_loop.simps, subst slice_loop.simps) (auto simp: Let_def split: if_splits)

lemma slice_loop_props:
  assumes "0 < step" and "step \<le> mx"
  shows "a < d - time_eps \<Longrightarrow>
    chain mx step (slice_loop d mx step a) \<and> d - time_eps \<le> snd (last (slice_loop d mx step a)) \<and>
    (\<forall>(s, e) \<in> set (slice_loop d mx step a). a \<le> s \<and> s < e \<and> e \<le> d \<and> e - s \<le> mx)"
  using assms
proof (induction d mx step a rule: slice_loop.induct)
  case (1 d mx step a)
  define e where "e = min d (a + mx)"
  have e: "a < e" "e \<le> d" "e - a \<le> mx" using 1(2-4) by (auto simp: e_def time_eps_def)
  show ?case
  proof (cases "d - time_eps \<le> e")
    case True
    then have "slice_loop d mx step a = [(a, e)]"
      using 1(2,3) unfolding slice_loop.simps [of d mx step a] by (simp only: e_def [symmetric] Let_def if_True simp_thms)
    with True e show ?thesis by simp
  next
    case False
    then have full: "e = a + mx" by (auto simp: e_def time_eps_def)
    have next_start: "a + step < d - time_eps" using False full 1(4) by simp
    have rec: "slice_loop d mx step a = (a, e) # slice_loop d mx step (a + step)"
      using 1(2,3) False unfolding slice_loop.simps [of d mx step a]
      by (simp only: e_def [symmetric] Let_def if_True if_False simp_thms)
    have IH: "chain mx step (slice_loop d mx step (a + step))"
      "d - time_eps \<le> snd (last (slice_loop d mx step (a + step)))"
      "\<forall>(s, e) \<in> set (slice_loop d mx step (a + step)). a + step \<le> s \<and> s < e \<and> e \<le> d \<and> e - s \<le> mx"
      using 1(1) [OF _ _ _ next_start 1(3,4)] 1(2,3) False by (auto simp: e_def)
    obtain s2 e2 bs where r: "slice_loop d mx step (a + step) = (s2, e2) # bs"
      using next_start 1(3) slice_loop_Nil [of d mx step "a + step"] by (cases "slice_loop d mx step (a + step)") auto
    have "s2 = a + step" using slice_loop_hd [of d mx step "a + step"] r by simp
    moreover have "a \<le> s" if "a + step \<le> s" for s using that 1(3) by simp
    ultimately show ?thesis unfolding rec using IH r full e by fastforce
  qed
qed

lemma slice_step_bounds: "0 < mx \<Longrightarrow> 0 < slice_step mx ov \<and> slice_step mx ov \<le> mx"
  by (auto simp: slice_step_def min_def)

lemma chain_append2:
  "chain mx step (xs @ [(s1, e1), (s2, e2)]) \<Longrightarrow>
   s2 = s1 + step \<and> e1 = s1 + mx \<and> chain mx step (xs @ [(s1, e1)])"
  by (induction mx step xs rule: chain.induct) auto

lemma chain_append1:
  "chain mx step (xs @ [(s1, e1)]) \<Longrightarrow> xs \<noteq> [] \<Longrightarrow>
   s1 = fst (last xs) + step \<and> snd (last xs) = fst (last xs) + mx \<and> chain mx step xs"
  by (induction mx step xs rule: chain.induct) auto

lemma fold_tail_cases:
  obtains "fold_tail mx bs = bs"
  | xs s1 e1 s2 e2 where "bs = xs @ [(s1, e1), (s2, e2)]" "e2 - s2 < MIN_TAIL_SECONDS"
      "fold_tail mx bs = xs @ [(max s1 (e2 - mx), e2)]"
proof (cases "\<exists>s2 e2 s1 e1 front. rev bs = (s2, e2) # (s1, e1) # front \<and> e2 - s2 < MIN_TAIL_SECONDS")
  case True
  then obtain s2 e2 s1 e1 front where r: "rev bs = (s2, e2) # (s1, e1) # front" "e2 - s2 < MIN_TAIL_SECONDS"
    by blast
  then have "rev (rev bs) = rev front @ [(s1, e1), (s2, e2)]" by simp
  then have "bs = rev front @ [(s1, e1), (s2, e2)]" by simp
  moreover have "fold_tail mx bs = rev front @ [(max s1 (e2 - mx), e2)]" using r by (simp add: fold_tail_def)
  ultimately show thesis using r(2) that(2) by blast
next
  case False
  then have "fold_tail mx bs = bs" by (auto simp: fold_tail_def split: list.splits)
  then show thesis by (rule that(1))
qed

lemma fold_tail_within:
  assumes w: "\<forall>(s, e) \<in> set bs. a \<le> s \<and> s < e \<and> e \<le> d \<and> e - s \<le> mx"
    and "chain mx step bs" and "0 < step" and "0 < mx"
  shows "\<forall>(s, e) \<in> set (fold_tail mx bs). a \<le> s \<and> s < e \<and> e \<le> d \<and> e - s \<le> mx"
proof (cases rule: fold_tail_cases [of mx bs])
  case 1
  with w show ?thesis by simp
next
  case (2 xs s1 e1 s2 e2)
  then have "s2 = s1 + step" using assms(2) chain_append2 by blast
  moreover have "a \<le> s1" "s2 < e2" "e2 \<le> d" using w 2(1) by auto
  ultimately show ?thesis using w assms(3,4) 2(1) unfolding 2(3) by (auto simp: max_def)
qed

lemma time_eps_pos: "0 < time_eps"
  by (simp add: time_eps_def)

lemma slices_within_limit_aux:
  assumes "(s, e) \<in> set (fixed_segment_bounds duration mx ov)"
  shows "0 \<le> s \<and> s < e \<and> e \<le> duration \<and> e - s \<le> mx"
proof (cases "duration \<le> 0 \<or> mx \<le> 0 \<or> duration \<le> mx")
  case True
  with assms show ?thesis by (auto simp: fixed_segment_bounds_def split: if_splits)
next
  case False
  have st: "0 < slice_step mx ov" "slice_step mx ov \<le> mx" using slice_step_bounds [of mx ov] False by auto
  show ?thesis
  proof (cases "0 < duration - time_eps")
    case True
    note p = slice_loop_props [OF st True]
    have "\<forall>(s, e) \<in> set (fold_tail mx (slice_loop duration mx (slice_step mx ov) 0)).
        0 \<le> s \<and> s < e \<and> e \<le> duration \<and> e - s \<le> mx"
      by (rule fold_tail_within [OF _ _ st(1)]) (use p False in auto)
    with assms False show ?thesis by (auto simp: fixed_segment_bounds_def)
  next
    case no: False
    then have "slice_loop duration mx (slice_step mx ov) 0 = []" by (simp add: slice_loop_Nil)
    with assms False show ?thesis by (simp add: fixed_segment_bounds_def fold_tail_def)
  qed
qed



text \<open>Fixed slices skip nothing when there are at least three and the overlap is a quarter of a
  second or more (the default is 0.4): every instant of the recording, but for the last nanosecond
  that the float comparison gives away, is inside a slice, the folded tail included.\<close>

theorem slices_cover_recording:
  assumes "0 < mx" and "1 / 4 \<le> mx - slice_step mx ov" and "slice_step mx ov + mx < duration - time_eps"
    and "0 \<le> t" and "t \<le> duration - time_eps"
  shows "covered (fixed_segment_bounds duration mx ov) t"
proof -
  define st where "st = slice_step mx ov"
  have st: "0 < st" "st \<le> mx" using slice_step_bounds [OF assms(1), of ov] by (simp_all add: st_def)
  define bs where "bs = slice_loop duration mx st 0"
  have d: "0 < duration - time_eps" "mx < duration - time_eps" using assms(1,3) st by (auto simp: st_def)
  note p = slice_loop_props [OF st d(1), folded bs_def]
  have ne: "bs \<noteq> []" "fst (hd bs) = 0"
    using slice_loop_Nil [of duration mx st 0] d(1) st(1) slice_loop_hd [of duration mx st 0] by (auto simp: bs_def)
  have cov: "covered bs t" using chain_covers [of mx st bs t] p ne st(2) assms(4,5) by simp
  have fb: "fixed_segment_bounds duration mx ov = fold_tail mx bs"
    using assms(1) d time_eps_pos by (simp add: fixed_segment_bounds_def bs_def st_def)
  show ?thesis
  proof (cases rule: fold_tail_cases [of mx bs])
    case 1
    with cov fb show ?thesis by simp
  next
    case (2 xs s1 e1 s2 e2)
    have c2: "s2 = s1 + st" "e1 = s1 + mx" "chain mx st (xs @ [(s1, e1)])"
      using chain_append2 [of mx st xs s1 e1 s2 e2] p 2(1) by auto
    have last_e: "duration - time_eps \<le> e2" using p 2(1) by simp
    have xs: "xs \<noteq> []"
    proof
      assume "xs = []"
      with 2(1) ne(2) have "s1 = 0" by simp
      have "e2 - s2 \<le> mx" using p 2(1) by auto
      with c2 \<open>s1 = 0\<close> last_e assms(3) show False by (simp add: st_def)
    qed
    have c1: "s1 = fst (last xs) + st" "snd (last xs) = fst (last xs) + mx" "chain mx st xs"
      using chain_append1 [OF c2(3) xs] by auto
    show ?thesis
    proof (cases "t \<le> snd (last xs)")
      case True
      have "covered xs t"
        using chain_covers [OF c1(3) st(2) xs _ True] ne(2) 2(1) xs assms(4) by (cases xs) auto
      then show ?thesis unfolding fb 2(3) by (auto simp: covered_def)
    next
      case False
      have "e2 - s2 < 1 / 2" using 2(2) by (simp add: MIN_TAIL_SECONDS_def)
      moreover have "1 / 4 \<le> mx - st" using assms(2) by (simp add: st_def)
      ultimately have "max s1 (e2 - mx) \<le> t" using False c1 c2(1) by (auto simp: max_def)
      moreover have "t \<le> e2" using assms(5) last_e by simp
      ultimately show ?thesis unfolding fb 2(3) by (auto simp: covered_def)
    qed
  qed
qed

theorem slices_cover_recording_witness:
  "covered (fixed_segment_bounds 30 (21 / 2) (2 / 5)) 20"
proof (rule slices_cover_recording)
  show "1 / 4 \<le> (21 / 2 :: rat) - slice_step (21 / 2) (2 / 5)" by (simp add: slice_step_def min_def)
  show "slice_step (21 / 2) (2 / 5) + 21 / 2 < (30 :: rat) - time_eps" by (simp add: slice_step_def min_def time_eps_def)
qed (simp_all add: time_eps_def)

lemma fixed_bounds_single:
  assumes "MIN_TAIL_SECONDS \<le> mx" and "mx < d - time_eps" and "d < slice_step mx ov + MIN_TAIL_SECONDS"
  shows "fixed_segment_bounds d mx ov = [(d - mx, d)]"
proof -
  have mx: "0 < mx" using assms(1) by (simp add: MIN_TAIL_SECONDS_def)
  define st where "st = slice_step mx ov"
  have st: "0 < st" "st \<le> mx" using slice_step_bounds [OF mx, of ov] by (simp_all add: st_def)
  have d: "mx < d - time_eps" "d < st + MIN_TAIL_SECONDS" using assms(2,3) by (simp_all add: st_def)
  have eps: "0 < time_eps" by (rule time_eps_pos)
  have "slice_loop d mx st 0 = (0, mx) # slice_loop d mx st st"
    using st d eps mx by (subst slice_loop.simps) (simp add: Let_def min_def)
  also have "slice_loop d mx st st = [(st, d)]"
    using st d eps assms(1) by (subst slice_loop.simps) (simp add: Let_def min_def)
  finally have l: "slice_loop d mx st 0 = [(0, mx), (st, d)]" .
  then show ?thesis
    using d eps mx st by (simp add: fixed_segment_bounds_def fold_tail_def flip: st_def)
qed

text \<open>The folded tail can cost the head. When a stretch of speech is longer than the limit by less
  than half a second less the overlap, it becomes one segment that is exactly as long as the limit and ends
  with the stretch: the beginning of the speech is in no segment and is never decoded.\<close>

theorem folded_tail_skips_head:
  assumes "MIN_TAIL_SECONDS \<le> mx" and "mx < e - s - time_eps" and "e - s < slice_step mx ov + MIN_TAIL_SECONDS"
  shows "group_regions ((s, e) # regions) mx ov = (e - mx, e) # group_regions regions mx ov"
proof -
  have "mx < e - s" using assms(2) time_eps_pos by simp
  then show ?thesis using fixed_bounds_single [OF assms] by (simp add: group_regions_def)
qed

theorem folded_tail_skips_head_witness:
  "group_regions [(0, 211 / 20), (12, 14)] (21 / 2) (2 / 5) = [(1 / 20, 211 / 20), (12, 14)]"
proof -
  have "group_regions [(0, 211 / 20), (12, 14)] (21 / 2) (2 / 5) =
      (211 / 20 - 21 / 2, 211 / 20 :: rat) # group_regions [(12, 14)] (21 / 2) (2 / 5)"
    by (rule folded_tail_skips_head) (simp_all add: MIN_TAIL_SECONDS_def time_eps_def slice_step_def min_def)
  also have "group_regions [(12, 14)] (21 / 2) (2 / 5) = [(12, 14 :: rat)]" by code_simp
  finally show ?thesis by simp
qed

text \<open>A recording that is only just too long is not segmented. When it exceeds the limit by less than
  half a second less the overlap, folding leaves one slice, which the entry point takes for a short
  recording: the caller decodes the whole of it in one pass, and a backend with a fixed input cuts it.\<close>

theorem slightly_long_clip_not_segmented:
  assumes "auto_segment_enabled e" and "resolve_vad_backend e = ''none''"
    and "resolve_max_segment_seconds py_float b e = mx" and "resolve_overlap_seconds py_float e = ov"
    and "MIN_TAIL_SECONDS \<le> mx" and "mx < clip_duration c - time_eps"
    and "clip_duration c < slice_step mx ov + MIN_TAIL_SECONDS"
  shows "mx < clip_duration c \<and> maybe_transcribe_segmented py_float b transcribe (Some c) e vad = None"
proof -
  have l: "mx < clip_duration c" using assms(6) time_eps_pos by simp
  have "plan_segments vad c mx ov ''none'' = ([(clip_duration c - mx, clip_duration c)], Fixed)"
    using l fixed_bounds_single [OF assms(5-7)] by (simp add: plan_segments_def Let_def)
  with l assms show ?thesis by (simp add: maybe_transcribe_segmented_def Let_def)
qed

theorem slightly_long_clip_not_segmented_witness:
  "maybe_transcribe_segmented (\<lambda>_. None) \<lparr>ab_name = ''sensevoice_trt'', ab_limits = []\<rparr> (\<lambda>f. (f, None))
     (Some \<lparr>sample_rate = 20, sample_width = 2, frames = replicate 211 0\<rparr>) [''OVS_ASR_SEGMENT_VAD'' \<mapsto> ''none'']
     (\<lambda>_. None) = None"
proof -
  let ?e = "[''OVS_ASR_SEGMENT_VAD'' \<mapsto> ''none'']" and ?b = "\<lparr>ab_name = ''sensevoice_trt'', ab_limits = []\<rparr>"
  let ?c = "\<lparr>sample_rate = 20, sample_width = 2, frames = replicate 211 (0 :: int)\<rparr>"
  have "auto_segment_enabled ?e" "resolve_vad_backend ?e = ''none''"
    "resolve_max_segment_seconds (\<lambda>_. None) ?b ?e = 21 / 2" "resolve_overlap_seconds (\<lambda>_. None) ?e = 2 / 5"
    by code_simp+
  moreover have "MIN_TAIL_SECONDS \<le> 21 / 2" "21 / 2 < clip_duration ?c - time_eps"
    "clip_duration ?c < slice_step (21 / 2) (2 / 5) + MIN_TAIL_SECONDS"
    by (simp_all add: MIN_TAIL_SECONDS_def time_eps_def slice_step_def min_def clip_duration_def)
  ultimately show ?thesis by (rule slightly_long_clip_not_segmented [THEN conjunct2])
qed

lemma group_loop_within:
  assumes "0 < mx" and "\<forall>(s, e) \<in> set rs. s < e"
    and "\<And>cs ce. cur = Some (cs, ce) \<Longrightarrow> ce - cs \<le> mx"
    and "(s, e) \<in> set (group_loop mx ov rs cur)"
  shows "e - s \<le> mx"
  using assms
proof (induction mx ov rs cur rule: group_loop.induct)
  case (1 mx ov cur)
  then show ?case by (auto split: option.splits)
next
  case (2 mx ov s1 e1 rs cur)
  have ends: "\<forall>(s, e) \<in> set rs. s < e" using 2(6) by auto
  show ?case
  proof (cases "mx < e1 - s1")
    case True
    have f: "b - a \<le> mx" if "(a, b) \<in> set (fixed_segment_bounds (e1 - s1) mx ov)" for a b
      using slices_within_limit_aux [OF that] by simp
    have r: "e - s \<le> mx" if "(s, e) \<in> set (group_loop mx ov rs None)"
      using 2(1) [OF True 2(5) ends _ that] by simp
    from 2(7,8) True f r show ?thesis by (auto split: option.splits)
  next
    case False
    show ?thesis
    proof (cases cur)
      case None
      with 2(2) [OF False None 2(5) ends] 2(8) False show ?thesis by auto
    next
      case (Some c)
      obtain cs ce where c: "c = (cs, ce)" by (cases c)
      show ?thesis
      proof (cases "e1 - cs \<le> mx")
        case True
        with 2(3) [OF False Some [unfolded c] refl True 2(5) ends] 2(8) False Some c show ?thesis by auto
      next
        case no: False
        with 2(4) [OF False Some [unfolded c] refl no 2(5) ends] 2(7,8) False Some c show ?thesis by auto
      qed
    qed
  qed
qed

text \<open>The segments made of detected speech are within the limit too: regions are packed together
  only while they fit, and a longer region is sliced.\<close>

theorem grouped_segments_within_limit:
  assumes "0 < mx" and "\<forall>(a, b) \<in> set regions. a < b" and "(s, e) \<in> set (group_regions regions mx ov)"
  shows "e - s \<le> mx"
  using group_loop_within [OF assms(1,2) _ assms(3) [unfolded group_regions_def]] by simp

theorem grouped_segments_within_limit_witness:
  "group_regions [(0, 3), (4, 9), (11, 14)] 10 1 = [(0, 9), (11, 14)] \<and> (9 - 0 :: rat) \<le> 10"
proof -
  have f: "group_regions [(0, 3), (4, 9), (11, 14)] 10 1 = [(0, 9), (11, 14)]" by code_simp
  then have "(0, 9) \<in> set (group_regions [(0, 3), (4, 9), (11, 14)] 10 1)" by simp
  from grouped_segments_within_limit [OF _ _ this] f show ?thesis by simp
qed

subsection \<open>What joining removes\<close>

lemma strip_from_spec:
  "strip_from prev cur n = cur \<or>
   (\<exists>m. 0 < m \<and> m \<le> n \<and> repeat_at prev cur m \<and> strip_from prev cur n = u_lstrip (drop m cur))"
proof (induction n)
  case 0
  then show ?case by simp
next
  case (Suc n)
  then show ?case by (cases "repeat_at prev cur (Suc n)") (auto intro: le_SucI)
qed

text \<open>Joining two segments removes text only from the front of the second, only where the end of the
  first repeats it, and at most 60 characters and the white space behind them; what is left is in order.\<close>

theorem join_removes_only_repeats:
  assumes "u_strip a \<noteq> []" and "u_strip b \<noteq> []"
  shows "\<exists>m sep. m \<le> MAX_OVERLAP_DEDUP_CHARS \<and> set sep \<subseteq> {32} \<and>
     join_segment_texts [a, b] = u_strip a @ sep @ (if m = 0 then u_strip b else u_lstrip (drop m (u_strip b))) \<and>
     (0 < m \<longrightarrow> (\<exists>front. u_strip a = front @ take m (u_strip b)))"
proof -
  define n where "n = min (min (length (u_strip a)) (length (u_strip b))) MAX_OVERLAP_DEDUP_CHARS"
  define p where "p = strip_overlap_repeat (u_strip a) (u_strip b)"
  have pn: "p = strip_from (u_strip a) (u_strip b) n"
    using assms by (simp add: p_def strip_overlap_repeat_def n_def)
  have j: "join_segment_texts [a, b] =
      (if p = [] then u_strip a
       else if u_space (last (u_strip a)) \<or> u_space (hd p) \<or> is_cjk (last (u_strip a)) \<and> is_cjk (hd p)
            then u_strip a @ p else u_strip a @ [32] @ p)"
    using assms by (simp add: join_segment_texts_def join_piece_def Let_def p_def) blast
  have "\<exists>sep. set sep \<subseteq> {32} \<and> join_segment_texts [a, b] = u_strip a @ sep @ p"
    unfolding j by (cases "p = []") (auto intro: exI [of _ "[]"] exI [of _ "[32]"])
  then obtain sep where sep: "set sep \<subseteq> {32}" "join_segment_texts [a, b] = u_strip a @ sep @ p" by blast
  from strip_from_spec [of "u_strip a" "u_strip b" n] show ?thesis
  proof
    assume "strip_from (u_strip a) (u_strip b) n = u_strip b"
    with sep pn show ?thesis by (intro exI [of _ 0] exI [of _ sep]) simp
  next
    assume "\<exists>m. 0 < m \<and> m \<le> n \<and> repeat_at (u_strip a) (u_strip b) m \<and>
       strip_from (u_strip a) (u_strip b) n = u_lstrip (drop m (u_strip b))"
    then obtain m where m: "0 < m" "m \<le> n" "repeat_at (u_strip a) (u_strip b) m"
      "strip_from (u_strip a) (u_strip b) n = u_lstrip (drop m (u_strip b))" by blast
    have "u_strip a = take (length (u_strip a) - m) (u_strip a) @ take m (u_strip b)"
      using m(3) unfolding repeat_at_def Let_def by (metis append_take_drop_id)
    then have "\<exists>front. u_strip a = front @ take m (u_strip b)" by blast
    with sep pn m show ?thesis by (intro exI [of _ m] exI [of _ sep]) (simp add: n_def)
  qed
qed

theorem join_removes_only_repeats_witness:
  "join_segment_texts [[104, 101, 32, 115, 97, 105, 100], [115, 97, 105, 100, 32, 110, 111]] =
     [104, 101, 32, 115, 97, 105, 100, 32, 110, 111] \<and>
   (\<exists>m. m \<le> MAX_OVERLAP_DEDUP_CHARS)"
proof -
  have "u_strip [104, 101, 32, 115, 97, 105, 100] \<noteq> []" "u_strip [115, 97, 105, 100, 32, 110, 111] \<noteq> []"
    by code_simp+
  from join_removes_only_repeats [OF this] have "\<exists>m. m \<le> MAX_OVERLAP_DEDUP_CHARS" by blast
  moreover have "join_segment_texts [[104, 101, 32, 115, 97, 105, 100], [115, 97, 105, 100, 32, 110, 111]] =
     [104, 101, 32, 115, 97, 105, 100, 32, 110, 111]" by code_simp
  ultimately show ?thesis by blast
qed

text \<open>The join does not know whether two segments overlap: a short segment whose text is that of the one
  before is dropped, also when detected silence separates them.\<close>

lemma join_drops_repeat:
  assumes "u_strip x \<noteq> []" and "length (u_strip x) \<le> MAX_OVERLAP_DEDUP_CHARS"
  shows "join_segment_texts [x, x] = u_strip x"
proof -
  obtain n where n: "length (u_strip x) = Suc n" using assms(1) by (metis length_0_conv nat.exhaust)
  have "strip_overlap_repeat (u_strip x) (u_strip x) = []"
    using assms n by (simp add: strip_overlap_repeat_def repeat_at_def min_def)
  with assms(1) show ?thesis by (simp add: join_segment_texts_def join_piece_def Let_def)
qed

end
