(* ===== verification/SegmentCommitter.thy ===== *)
theory SegmentCommitter
  imports Prelude "HOL-Library.Sublist"
begin

section \<open>Committing segments of a growing hypothesis\<close>

text \<open>
  \<^verbatim>\<open>agent/ovs_agent/streaming_translate/committer.py\<close>: partial hypotheses of an utterance come in,
  commit events (text to translate, locked) and tail events (a refreshed preview) come out. A method
  returns its list of events and the new state.
\<close>

datatype commit_strategy = Retranslation | Monotonic

datatype event_kind = CommitKind | TailKind

record segment_event =
  ev_seq :: nat
  ev_source :: ustr
  ev_committed :: ustr
  ev_tail :: ustr
  ev_final :: bool
  ev_revision :: nat
  ev_kind :: event_kind

record committer =
  agreement_n :: nat
  cm_strategy :: commit_strategy
  clause_punct :: "int set"
  min_commit_chars :: int
  cm_partials :: "ustr list"
  committed_source :: ustr
  tail_source :: ustr
  cm_seq :: nat
  cm_revision :: nat

definition default_punct :: "int set" where
  "default_punct = {0x3002, 0xFF01, 0xFF1F, 0xFF1B, 0xFF0C, 44, 46, 63, 59}"

definition new_committer :: "int \<Rightarrow> commit_strategy \<Rightarrow> int set \<Rightarrow> int \<Rightarrow> committer option" where
  "new_committer n strat punct min_chars =
     (if n < 1 then None
      else Some \<lparr>agreement_n = nat n, cm_strategy = strat, clause_punct = punct, min_commit_chars = min_chars,
                 cm_partials = [], committed_source = [], tail_source = [], cm_seq = 0, cm_revision = 0\<rparr>)"

fun prefix_of_two :: "ustr \<Rightarrow> ustr \<Rightarrow> ustr" where
  "prefix_of_two (a # as) (b # bs) = (if a = b then a # prefix_of_two as bs else [])"
| "prefix_of_two _ _ = []"

fun common_prefix :: "ustr list \<Rightarrow> ustr" where
  "common_prefix [] = []"
| "common_prefix (s # ss) = foldl prefix_of_two s ss"

text \<open>The index after the last clause mark.\<close>

fun last_clause_end :: "int set \<Rightarrow> ustr \<Rightarrow> nat" where
  "last_clause_end punct [] = 0"
| "last_clause_end punct (c # cs) =
     (let r = last_clause_end punct cs in if 0 < r then Suc r else if c \<in> punct then 1 else 0)"

definition last_n :: "nat \<Rightarrow> 'a list \<Rightarrow> 'a list" where
  "last_n n xs = drop (length xs - n) xs"

definition commit_target :: "committer \<Rightarrow> ustr \<Rightarrow> ustr" where
  "commit_target c text =
     (let agreement = (if agreement_n c \<le> length (cm_partials c)
                       then common_prefix (last_n (agreement_n c) (cm_partials c)) else []);
          clause = take (last_clause_end (clause_punct c) text) text
      in if length clause \<le> length agreement then agreement else clause)"

definition push_partial :: "ustr \<Rightarrow> committer \<Rightarrow> segment_event list \<times> committer" where
  "push_partial text c0 =
     (let c = c0\<lparr>cm_partials := (if agreement_n c0 < length (cm_partials c0 @ [text])
                                  then last_n (agreement_n c0) (cm_partials c0 @ [text])
                                  else cm_partials c0 @ [text])\<rparr>;
          target = commit_target c text;
          done_len = length (committed_source c)
      in if done_len < length target \<and> min_commit_chars c \<le> int (length target) - int done_len then
           (let c1 = c\<lparr>committed_source := target, tail_source := drop (length target) text,
                       cm_seq := cm_seq c + 1\<rparr>
            in ([\<lparr>ev_seq = cm_seq c1, ev_source = drop done_len target, ev_committed = target,
                  ev_tail = tail_source c1, ev_final = False, ev_revision = cm_revision c,
                  ev_kind = CommitKind\<rparr>], c1))
         else
           (let tail = drop done_len text
            in if cm_strategy c = Retranslation \<and> tail \<noteq> tail_source c then
                 (let c1 = c\<lparr>tail_source := tail, cm_revision := cm_revision c + 1\<rparr>
                  in ([\<lparr>ev_seq = cm_seq c, ev_source = tail, ev_committed = committed_source c, ev_tail = tail,
                        ev_final = False, ev_revision = cm_revision c1, ev_kind = TailKind\<rparr>], c1))
               else ([], c)))"

definition finalize :: "ustr \<Rightarrow> committer \<Rightarrow> segment_event list \<times> committer" where
  "finalize text c =
     (let done_len = length (committed_source c);
          grow = (done_len < length text);
          c1 = (if grow then c\<lparr>cm_seq := cm_seq c + 1\<rparr> else c);
          evs = (if grow then [\<lparr>ev_seq = cm_seq c1, ev_source = drop done_len text, ev_committed = text,
                   ev_tail = [], ev_final = True, ev_revision = cm_revision c, ev_kind = CommitKind\<rparr>] else [])
      in (evs, c1\<lparr>cm_partials := [], committed_source := [], tail_source := []\<rparr>))"

definition reset_committer :: "committer \<Rightarrow> committer" where
  "reset_committer c = c\<lparr>cm_partials := [], committed_source := [], tail_source := [], cm_seq := 0, cm_revision := 0\<rparr>"

text \<open>An utterance: its partials in order, then the final hypothesis.\<close>

fun push_all :: "ustr list \<Rightarrow> committer \<Rightarrow> segment_event list \<times> committer" where
  "push_all [] c = ([], c)"
| "push_all (t # ts) c =
     (case push_partial t c of (e1, c1) \<Rightarrow> (case push_all ts c1 of (e2, c2) \<Rightarrow> (e1 @ e2, c2)))"

definition utterance :: "ustr list \<Rightarrow> ustr \<Rightarrow> committer \<Rightarrow> segment_event list \<times> committer" where
  "utterance partials final c =
     (case push_all partials c of (e1, c1) \<Rightarrow> (case finalize final c1 of (e2, c2) \<Rightarrow> (e1 @ e2, c2)))"

definition commits :: "segment_event list \<Rightarrow> ustr" where
  "commits evs = concat (map ev_source (filter (\<lambda>e. ev_kind e = CommitKind) evs))"

lemma commits_append [simp]: "commits (a @ b) = commits a @ commits b" "commits [] = []"
  by (simp_all add: commits_def)

subsection \<open>What is committed\<close>

lemma prefix_of_two_prefix: "prefix (prefix_of_two a b) a"
  by (induction a b rule: prefix_of_two.induct) auto

lemma foldl_prefix: "prefix (foldl prefix_of_two s ss) s"
proof (induction ss arbitrary: s)
  case Nil
  then show ?case by simp
next
  case (Cons t ss)
  have "prefix (foldl prefix_of_two (prefix_of_two s t) ss) (prefix_of_two s t)" by (rule Cons.IH)
  then show ?case using prefix_of_two_prefix [of s t] by (auto intro: prefix_order.trans)
qed

lemma common_prefix_prefix: "\<forall>s \<in> set ss. prefix s F \<Longrightarrow> prefix (common_prefix ss) F"
  by (cases ss) (auto intro: prefix_order.trans [OF foldl_prefix])

lemma set_last_n: "set (last_n n xs) \<subseteq> set xs"
  by (auto simp: last_n_def dest: in_set_dropD)

lemma commit_target_prefix:
  assumes "\<forall>s \<in> set (cm_partials c). prefix s F" and "prefix text F"
  shows "prefix (commit_target c text) F"
proof -
  have "\<forall>s \<in> set (last_n (agreement_n c) (cm_partials c)). prefix s F" using assms(1) set_last_n by fastforce
  then have "prefix (common_prefix (last_n (agreement_n c) (cm_partials c))) F" by (rule common_prefix_prefix)
  moreover have "prefix (take k text) F" for k using assms(2) take_is_prefix prefix_order.trans by blast
  ultimately show ?thesis by (simp add: commit_target_def Let_def)
qed

lemma prefix_extend: "prefix a F \<Longrightarrow> prefix b F \<Longrightarrow> length a \<le> length b \<Longrightarrow> a @ drop (length a) b = b"
  by (metis append_eq_append_conv_if prefix_def append_take_drop_id)

definition stable_inv :: "ustr \<Rightarrow> ustr \<Rightarrow> committer \<Rightarrow> bool" where
  "stable_inv F out c \<longleftrightarrow> committed_source c = out \<and> prefix out F \<and> (\<forall>s \<in> set (cm_partials c). prefix s F)"

lemma push_partial_stable:
  assumes inv: "stable_inv F out c" and t: "prefix text F"
  shows "stable_inv F (out @ commits (fst (push_partial text c))) (snd (push_partial text c))"
proof -
  define c1 where "c1 = c\<lparr>cm_partials := (if agreement_n c < length (cm_partials c @ [text])
     then last_n (agreement_n c) (cm_partials c @ [text]) else cm_partials c @ [text])\<rparr>"
  have c1: "\<forall>s \<in> set (cm_partials c1). prefix s F" "committed_source c1 = out"
    using inv t set_last_n [of "agreement_n c" "cm_partials c @ [text]"] by (auto simp: c1_def stable_inv_def)
  have tp: "prefix (commit_target c1 text) F" using c1(1) t by (rule commit_target_prefix)
  have out: "prefix out F" using inv by (simp add: stable_inv_def)
  show ?thesis
  proof (cases "length out < length (commit_target c1 text) \<and>
      min_commit_chars c1 \<le> int (length (commit_target c1 text)) - int (length out)")
    case True
    then have "out @ drop (length out) (commit_target c1 text) = commit_target c1 text"
      using prefix_extend [OF out tp] by simp
    with True c1 tp show ?thesis
      unfolding push_partial_def c1_def [symmetric] Let_def
      by (simp add: commits_def stable_inv_def)
  next
    case False
    with c1 out show ?thesis
      unfolding push_partial_def c1_def [symmetric] Let_def
      by (auto simp: commits_def stable_inv_def)
  qed
qed

lemma push_all_stable:
  "stable_inv F out c \<Longrightarrow> \<forall>t \<in> set ts. prefix t F \<Longrightarrow>
   stable_inv F (out @ commits (fst (push_all ts c))) (snd (push_all ts c))"
proof (induction ts arbitrary: c out)
  case Nil
  then show ?case by simp
next
  case (Cons t ts)
  have "stable_inv F (out @ commits (fst (push_partial t c))) (snd (push_partial t c))"
    using Cons.prems by (intro push_partial_stable) simp_all
  from Cons.IH [OF this] Cons.prems(2) show ?case by (simp add: case_prod_beta)
qed

text \<open>C37: nothing is translated twice and nothing is left out. When the hypotheses of an utterance only
  grow into the final one, the committed pieces, in order, are exactly the final text, for every
  agreement length, punctuation set and strategy, and the buffers are empty afterwards.\<close>

theorem utterance_commits_exactly:
  assumes "new_committer n strat punct k = Some c" and "\<forall>t \<in> set partials. prefix t final"
  shows "commits (fst (utterance partials final c)) = final \<and> committed_source (snd (utterance partials final c)) = []"
proof -
  have "stable_inv final [] c" using assms(1) by (auto simp: new_committer_def stable_inv_def split: if_splits)
  from push_all_stable [OF this assms(2)]
  have s: "committed_source (snd (push_all partials c)) = commits (fst (push_all partials c))"
    "prefix (commits (fst (push_all partials c))) final" by (simp_all add: stable_inv_def)
  have "length (commits (fst (push_all partials c))) \<le> length final" using s(2) by (rule prefix_length_le)
  then have "commits (fst (push_all partials c)) @ drop (length (commits (fst (push_all partials c)))) final = final"
    using prefix_extend [OF s(2), of final] by simp
  moreover have "commits (fst (push_all partials c)) = final"
    if "\<not> length (commits (fst (push_all partials c))) < length final"
    using that s(2) by (metis append_self_conv not_less prefix_def length_append add_le_same_cancel1 le_zero_eq length_0_conv)
  ultimately show ?thesis
    by (auto simp: utterance_def case_prod_beta finalize_def Let_def s(1) commits_def)
qed

theorem utterance_commits_exactly_witness:
  "\<exists>c. new_committer 2 Monotonic default_punct 1 = Some c \<and>
     commits (fst (utterance [[104], [104, 105], [104, 105, 44, 32, 97]] [104, 105, 44, 32, 97, 98] c)) =
       [104, 105, 44, 32, 97, 98]"
proof -
  obtain c where c: "new_committer 2 Monotonic default_punct 1 = Some c" by (auto simp: new_committer_def)
  from utterance_commits_exactly [OF c, of "[[104], [104, 105], [104, 105, 44, 32, 97]]" "[104, 105, 44, 32, 97, 98]"]
  show ?thesis using c by (auto simp: prefix_def)
qed

text \<open>A hypothesis that revises what is committed corrupts the translation. The locked text is
  replaced by the new hypothesis, of which only what lies behind the old length is committed: here the
  commits read "no, yes" while the recogniser's text is "oh, it is yes".\<close>

theorem revised_hypothesis_corrupts_commits:
  "\<exists>c. new_committer 2 Monotonic default_punct 1 = Some c \<and>
     (let (evs, c') = utterance [[110, 111, 44]] [111, 104, 32, 121, 101, 115] c
      in commits evs = [110, 111, 44, 121, 101, 115] \<and> map ev_final evs = [False, True] \<and>
         ev_committed (last evs) = [111, 104, 32, 121, 101, 115])"
proof -
  obtain c where c: "new_committer 2 Monotonic default_punct 1 = Some c" by (auto simp: new_committer_def)
  then have "c = \<lparr>agreement_n = 2, cm_strategy = Monotonic, clause_punct = default_punct, min_commit_chars = 1,
                 cm_partials = [], committed_source = [], tail_source = [], cm_seq = 0, cm_revision = 0\<rparr>"
    by (simp add: new_committer_def)
  then have "let (evs, c') = utterance [[110, 111, 44]] [111, 104, 32, 121, 101, 115] c
      in commits evs = [110, 111, 44, 121, 101, 115] \<and> map ev_final evs = [False, True] \<and>
         ev_committed (last evs) = [111, 104, 32, 121, 101, 115]"
    by (simp add: utterance_def push_partial_def finalize_def commit_target_def Let_def last_n_def default_punct_def
        commits_def)
  with c show ?thesis by blast
qed

end
