(* ===== verification/LlmAvailability.thy ===== *)
theory LlmAvailability
  imports Prelude
begin

section \<open>Health probe and circuit breaker of the language model\<close>

text \<open>
  \<^verbatim>\<open>agent/ovs_agent/plugins/llm_availability.py\<close>. The state machine is driven by probes (the main loop
  and \<open>force_probe\<close> account for a result in the same way) and by reports of real requests. No method
  of the machine awaits between reading and writing its state, so a run is a sequence of signals; what
  a method broadcasts is returned. Times are natural numbers, the clock readings are part of the
  signals. The HTTP client is outside the model: a probe gets one of the replies below.
\<close>

datatype availability = HEALTHY | DEGRADED | DOWN | RECOVERING | UNKNOWN

record avail_cfg =
  failures_to_down :: int
  unknowns_to_unknown_state :: int

record avail =
  av_state :: availability
  consecutive_failures :: nat
  last_ok_ts :: "nat option"
  consecutive_unknowns :: nat

text \<open>The payload of \<open>on_llm_availability_change\<close>.\<close>

record avail_payload =
  pl_state :: availability
  pl_last_ok :: "nat option"
  pl_failures :: nat

definition new_avail :: avail where
  "new_avail = \<lparr>av_state = HEALTHY, consecutive_failures = 0, last_ok_ts = None, consecutive_unknowns = 0\<rparr>"

subsection \<open>Probing\<close>

text \<open>The body of a reply: no JSON, JSON that is no object, or an object, of which the code reads
  whether \<open>choices\<close> is truthy, and the code in \<open>error\<close> (\<^const>\<open>None\<close> when there is none or reading it
  raises).\<close>

datatype probe_body = NotJson | NoObject | Object bool "string option"

datatype probe_reply = Http nat probe_body | Unreachable | OtherError

definition guard_codes :: "string set" where
  "guard_codes = {''input_too_long'', ''invalid_request''}"

fun body_code :: "probe_body \<Rightarrow> string option" where
  "body_code (Object _ code) = code"
| "body_code _ = None"

fun body_choices :: "probe_body \<Rightarrow> bool" where
  "body_choices (Object choices _) = choices"
| "body_choices _ = False"

fun probe :: "probe_reply \<Rightarrow> bool option" where
  "probe Unreachable = None"
| "probe OtherError = Some False"
| "probe (Http status body) =
     (if status = 200 then Some (body_choices body)
      else if status = 400 \<and> (\<exists>c \<in> guard_codes. body_code body = Some c) then None
      else Some False)"

subsection \<open>The state machine\<close>

definition emit_change :: "availability \<Rightarrow> avail \<Rightarrow> avail_payload list" where
  "emit_change prev a =
     (if prev = av_state a then []
      else [\<lparr>pl_state = av_state a, pl_last_ok = last_ok_ts a, pl_failures = consecutive_failures a\<rparr>])"

definition advance_ok :: "nat \<Rightarrow> avail \<Rightarrow> avail" where
  "advance_ok now a =
     (let a1 = a\<lparr>last_ok_ts := Some now\<rparr>
      in case av_state a of
           HEALTHY \<Rightarrow> a1\<lparr>consecutive_failures := 0\<rparr>
         | DEGRADED \<Rightarrow> a1\<lparr>av_state := HEALTHY, consecutive_failures := 0\<rparr>
         | DOWN \<Rightarrow> a1\<lparr>av_state := RECOVERING\<rparr>
         | RECOVERING \<Rightarrow> a1\<lparr>av_state := HEALTHY, consecutive_failures := 0\<rparr>
         | UNKNOWN \<Rightarrow> a1\<lparr>av_state := HEALTHY, consecutive_failures := 0\<rparr>)"

definition advance_fail :: "avail_cfg \<Rightarrow> avail \<Rightarrow> avail" where
  "advance_fail cfg a =
     (let a1 = a\<lparr>consecutive_failures := consecutive_failures a + 1\<rparr>
      in case av_state a of
           HEALTHY \<Rightarrow> a1\<lparr>av_state := DEGRADED\<rparr>
         | DEGRADED \<Rightarrow>
             if failures_to_down cfg \<le> int (consecutive_failures a1) then a1\<lparr>av_state := DOWN\<rparr> else a1
         | RECOVERING \<Rightarrow> a1\<lparr>av_state := DOWN\<rparr>
         | UNKNOWN \<Rightarrow> a1\<lparr>av_state := DEGRADED\<rparr>
         | DOWN \<Rightarrow> a1)"

definition advance :: "avail_cfg \<Rightarrow> nat \<Rightarrow> bool \<Rightarrow> avail \<Rightarrow> avail_payload list \<times> avail" where
  "advance cfg now success a =
     (let a1 = (if success then advance_ok now a else advance_fail cfg a)
      in (emit_change (av_state a) a1, a1))"

definition maybe_enter_unknown :: "avail_cfg \<Rightarrow> avail \<Rightarrow> avail_payload list \<times> avail" where
  "maybe_enter_unknown cfg a =
     (if int (consecutive_unknowns a) < unknowns_to_unknown_state cfg then ([], a)
      else if av_state a \<in> {UNKNOWN, DOWN} then ([], a)
      else (let a1 = a\<lparr>av_state := UNKNOWN\<rparr> in (emit_change (av_state a) a1, a1)))"

text \<open>What \<open>run\<close> and \<open>force_probe\<close> do with the result of a probe.\<close>

definition probe_result :: "avail_cfg \<Rightarrow> nat \<Rightarrow> bool option \<Rightarrow> avail \<Rightarrow> avail_payload list \<times> avail" where
  "probe_result cfg now result a =
     (case result of
        None \<Rightarrow> maybe_enter_unknown cfg (a\<lparr>consecutive_unknowns := consecutive_unknowns a + 1\<rparr>)
      | Some r \<Rightarrow> advance cfg now r (a\<lparr>consecutive_unknowns := 0\<rparr>))"

definition report_request_failure :: "avail_cfg \<Rightarrow> nat \<Rightarrow> avail \<Rightarrow> avail_payload list \<times> avail" where
  "report_request_failure cfg now a = advance cfg now False a"

definition report_request_success :: "avail_cfg \<Rightarrow> nat \<Rightarrow> avail \<Rightarrow> avail_payload list \<times> avail" where
  "report_request_success cfg now a = advance cfg now True a"

datatype signal = Probe nat probe_reply | Failed nat | Succeeded nat

fun avail_step :: "avail_cfg \<Rightarrow> signal \<Rightarrow> avail \<Rightarrow> avail_payload list \<times> avail" where
  "avail_step cfg (Probe now r) a = probe_result cfg now (probe r) a"
| "avail_step cfg (Failed now) a = report_request_failure cfg now a"
| "avail_step cfg (Succeeded now) a = report_request_success cfg now a"

fun avail_run :: "avail_cfg \<Rightarrow> signal list \<Rightarrow> avail \<Rightarrow> avail_payload list \<times> avail" where
  "avail_run cfg [] a = ([], a)"
| "avail_run cfg (s # ss) a =
     (case avail_step cfg s a of (p1, a1) \<Rightarrow> (case avail_run cfg ss a1 of (p2, a2) \<Rightarrow> (p1 @ p2, a2)))"

text \<open>The verdict of a signal.\<close>

fun verdict :: "signal \<Rightarrow> bool option" where
  "verdict (Probe _ r) = probe r"
| "verdict (Failed _) = Some False"
| "verdict (Succeeded _) = Some True"

abbreviation after :: "avail_cfg \<Rightarrow> signal list \<Rightarrow> avail \<Rightarrow> avail" where
  "after cfg ss a \<equiv> snd (avail_run cfg ss a)"

lemma after_Cons: "after cfg (s # ss) a = after cfg ss (snd (avail_step cfg s a))"
  by (simp add: case_prod_beta)

lemma after_append: "after cfg (xs @ ys) a = after cfg ys (after cfg xs a)"
  by (induction xs arbitrary: a) (simp_all add: case_prod_beta)

lemmas avail_defs = advance_def advance_ok_def advance_fail_def maybe_enter_unknown_def probe_result_def
  report_request_failure_def report_request_success_def Let_def

text \<open>One step by its verdict.\<close>

lemma step_fail:
  assumes "verdict s = Some False"
  shows "av_state (snd (avail_step cfg s a)) = av_state (advance_fail cfg a)
    \<and> consecutive_failures (snd (avail_step cfg s a)) = Suc (consecutive_failures a)"
  using assms by (cases s) (auto simp: avail_defs split: availability.splits)

lemma step_ok:
  assumes "verdict s = Some True"
  shows "av_state (snd (avail_step cfg s a)) = (if av_state a = DOWN then RECOVERING else HEALTHY)
    \<and> consecutive_failures (snd (avail_step cfg s a)) =
        (if av_state a = DOWN then consecutive_failures a else 0)"
  using assms by (cases s) (auto simp: avail_defs split: availability.splits)

lemma step_none:
  assumes "verdict s = None"
  shows "av_state (snd (avail_step cfg s a)) \<in> {av_state a, UNKNOWN}
    \<and> (av_state a = DOWN \<longrightarrow> av_state (snd (avail_step cfg s a)) = DOWN)
    \<and> consecutive_failures (snd (avail_step cfg s a)) = consecutive_failures a"
  using assms by (cases s) (auto simp: avail_defs)

subsection \<open>When the machine is down\<close>

text \<open>What holds of the failures counted since the machine was last healthy.\<close>

definition avail_inv :: "avail_cfg \<Rightarrow> nat \<Rightarrow> avail \<Rightarrow> bool" where
  "avail_inv cfg n a \<longleftrightarrow> consecutive_failures a \<le> n \<and>
     (av_state a \<in> {DOWN, RECOVERING} \<longrightarrow> max 2 (failures_to_down cfg) \<le> int (consecutive_failures a)) \<and>
     (av_state a = DEGRADED \<longrightarrow> 1 \<le> consecutive_failures a)"

definition fails :: "signal list \<Rightarrow> nat" where
  "fails ss = count_where (\<lambda>s. verdict s = Some False) ss"

lemma avail_inv_step:
  assumes "avail_inv cfg n a"
  shows "avail_inv cfg (n + fails [s]) (snd (avail_step cfg s a))"
proof (cases "verdict s")
  case None
  with assms step_none [OF None, of cfg a] show ?thesis by (auto simp: avail_inv_def fails_def)
next
  case (Some r)
  show ?thesis
  proof (cases r)
    case True
    with assms Some step_ok [of s cfg a] show ?thesis by (auto simp: avail_inv_def fails_def)
  next
    case False
    with assms Some step_fail [of s cfg a] show ?thesis
      by (auto simp: avail_inv_def fails_def advance_fail_def Let_def split: availability.splits)
  qed
qed

lemma avail_inv_run:
  "avail_inv cfg n a \<Longrightarrow> avail_inv cfg (n + fails ss) (after cfg ss a)"
proof (induction ss arbitrary: n a)
  case Nil
  then show ?case by (simp add: fails_def)
next
  case (Cons s ss)
  have "n + fails (s # ss) = (n + fails [s]) + fails ss" by (simp add: fails_def)
  with Cons.IH [OF avail_inv_step [OF Cons.prems, of s]] show ?case by (simp add: case_prod_beta add.assoc)
qed

text \<open>A healthy machine has no failures counted.\<close>

definition healthy_zero :: "avail \<Rightarrow> bool" where
  "healthy_zero a \<longleftrightarrow> (av_state a = HEALTHY \<longrightarrow> consecutive_failures a = 0)"

definition avail_next :: "avail_cfg \<Rightarrow> avail \<Rightarrow> signal \<Rightarrow> avail" where
  "avail_next cfg a s = snd (avail_step cfg s a)"

lemma after_foldl: "after cfg ss a = foldl (avail_next cfg) a ss"
  by (induction ss arbitrary: a) (simp_all add: avail_next_def case_prod_beta)

interpretation llm: inv_machine "avail_next cfg" healthy_zero for cfg
proof
  fix a s
  assume a: "healthy_zero a"
  show "healthy_zero (avail_next cfg a s)"
  proof (cases "verdict s")
    case None
    with a step_none [OF None, of cfg a] show ?thesis by (auto simp: healthy_zero_def avail_next_def)
  next
    case (Some r)
    with step_ok [of s cfg a] step_fail [of s cfg a] show ?thesis
      by (cases r) (auto simp: healthy_zero_def avail_next_def advance_fail_def Let_def
          split: availability.splits if_splits)
  qed
qed

text \<open>Users are refused only after definite failures. Whenever the machine was healthy at some point
  of a run and is down or recovering later, at least \<open>failures_to_down\<close>, and never less than two, of the
  signals in between were definite failures: timeouts, lost connections and rejected probes do not
  count.\<close>

theorem down_needs_failures:
  assumes "av_state (after cfg before new_avail) = HEALTHY"
    and "av_state (after cfg (before @ since) new_avail) \<in> {DOWN, RECOVERING}"
  shows "max 2 (failures_to_down cfg) \<le> int (fails since)"
proof -
  have "healthy_zero (after cfg before new_avail)"
    unfolding after_foldl by (rule llm.run_inv) (simp add: healthy_zero_def new_avail_def)
  with assms(1) have "avail_inv cfg 0 (after cfg before new_avail)"
    by (simp add: healthy_zero_def avail_inv_def)
  from avail_inv_run [OF this, of since] assms(2) show ?thesis
    unfolding after_append by (auto simp: avail_inv_def)
qed

theorem down_needs_failures_witness:
  "2 \<le> int (fails [Failed 1, Probe 2 Unreachable, Probe 3 (Http 500 NotJson)])"
proof -
  let ?cfg = "\<lparr>failures_to_down = 2, unknowns_to_unknown_state = 3\<rparr>"
  have "av_state (after ?cfg [Succeeded 0] new_avail) = HEALTHY" by code_simp
  moreover have "av_state (after ?cfg ([Succeeded 0] @ [Failed 1, Probe 2 Unreachable, Probe 3 (Http 500 NotJson)])
      new_avail) \<in> {DOWN, RECOVERING}" by code_simp
  ultimately have "max 2 (failures_to_down ?cfg) \<le> int (fails [Failed 1, Probe 2 Unreachable, Probe 3 (Http 500 NotJson)])"
    by (rule down_needs_failures)
  then show ?thesis by simp
qed

subsection \<open>Recovery\<close>

lemma after_unknowns:
  "\<forall>s \<in> set ss. verdict s = None \<Longrightarrow>
   av_state (after cfg ss a) \<in> {av_state a, UNKNOWN} \<and> (av_state a = DOWN \<longrightarrow> av_state (after cfg ss a) = DOWN)"
proof (induction ss arbitrary: a)
  case Nil
  then show ?case by simp
next
  case (Cons s ss)
  from Cons.IH [of "snd (avail_step cfg s a)"] Cons.prems step_none [of s cfg a]
  show ?case unfolding after_Cons by auto
qed

text \<open>The machine always recovers. From any state, two successes with nothing but inconclusive probes
  between them make it healthy with no failures counted.\<close>

theorem two_successes_recover:
  assumes "verdict s1 = Some True" and "\<forall>s \<in> set mid. verdict s = None" and "verdict s2 = Some True"
  shows "av_state (after cfg (s1 # mid @ [s2]) a) = HEALTHY \<and> consecutive_failures (after cfg (s1 # mid @ [s2]) a) = 0"
proof -
  define b where "b = snd (avail_step cfg s1 a)"
  have "av_state b \<noteq> DOWN" using step_ok [OF assms(1), of cfg a] by (auto simp: b_def)
  then have "av_state (after cfg mid b) \<noteq> DOWN" using after_unknowns [OF assms(2), of cfg b] by auto
  then have "av_state (snd (avail_step cfg s2 (after cfg mid b))) = HEALTHY \<and>
      consecutive_failures (snd (avail_step cfg s2 (after cfg mid b))) = 0"
    using step_ok [OF assms(3), of cfg "after cfg mid b"] by auto
  then show ?thesis unfolding after_Cons after_append b_def [symmetric] by (simp add: case_prod_beta)
qed

theorem two_successes_recover_witness:
  "av_state (after \<lparr>failures_to_down = 3, unknowns_to_unknown_state = 3\<rparr>
     [Probe 5 (Http 200 (Object True None)), Probe 6 Unreachable, Succeeded 7]
     \<lparr>av_state = DOWN, consecutive_failures = 4, last_ok_ts = None, consecutive_unknowns = 0\<rparr>) = HEALTHY"
  using two_successes_recover [of "Probe 5 (Http 200 (Object True None))" "[Probe 6 Unreachable]" "Succeeded 7"]
  by simp

text \<open>The converse of the first property: enough definite failures in a row take a healthy or degraded
  machine down.\<close>

lemma failures_go_down:
  assumes "\<forall>s \<in> set ss. verdict s = Some False" and "av_state a \<in> {DEGRADED, DOWN}"
    and "max 1 (failures_to_down cfg - int (consecutive_failures a)) \<le> int (length ss)"
  shows "av_state (after cfg ss a) = DOWN"
  using assms
proof (induction ss arbitrary: a)
  case Nil
  then show ?case by simp
next
  case (Cons s ss)
  define b where "b = snd (avail_step cfg s a)"
  have b: "av_state b = av_state (advance_fail cfg a)" "consecutive_failures b = Suc (consecutive_failures a)"
    using step_fail [of s cfg a] Cons.prems(1) by (simp_all add: b_def)
  have stay: "av_state (after cfg ss b) = DOWN" if "av_state b = DOWN"
  proof -
    have "av_state (after cfg xs c) = DOWN" if "\<forall>s \<in> set xs. verdict s = Some False" "av_state c = DOWN" for xs c
      using that
    proof (induction xs arbitrary: c)
      case Nil
      then show ?case by simp
    next
      case (Cons x xs)
      with step_fail [of x cfg c] show ?case
        unfolding after_Cons by (intro Cons.IH) (auto simp: advance_fail_def Let_def)
    qed
    with that Cons.prems(1) show ?thesis by simp
  qed
  show ?case
  proof (cases "av_state b = DOWN")
    case True
    with stay show ?thesis unfolding after_Cons b_def [symmetric] by simp
  next
    case False
    with b Cons.prems(2) have "av_state b = DEGRADED" "int (Suc (consecutive_failures a)) < failures_to_down cfg"
      by (auto simp: advance_fail_def Let_def split: if_splits)
    then show ?thesis unfolding after_Cons b_def [symmetric]
      using Cons.prems(1,3) b by (intro Cons.IH) auto
  qed
qed

text \<open>Reports do not reset the count of inconclusive probes: after a request has succeeded in the unknown
  state, one further inconclusive probe is enough to show unknown again.\<close>

lemma single_blip_flips:
  assumes "unknowns_to_unknown_state cfg = 3"
  shows "map pl_state (fst (avail_run cfg [Probe 1 Unreachable, Probe 2 Unreachable, Probe 3 Unreachable,
       Succeeded 4, Probe 5 Unreachable] new_avail)) = [UNKNOWN, HEALTHY, UNKNOWN]"
  using assms by (simp add: avail_defs new_avail_def emit_change_def)

end
