(* ===== verification/Startup.thy ===== *)
theory Startup
  imports SessionLimiter CapabilityResolver AsrInferGate Coordinator
begin

section \<open>Start-up: the admission components of one deployment\<close>

text \<open>
  The part of \<open>startup()\<close> in \<^verbatim>\<open>server/main.py\<close> that builds the session limiter, the execution
  coordinator and the inference gate from the profile that was applied. Each of them resolves the
  capabilities on its own; the limiter and the coordinator abort the start, a failure of the gate
  does not, and leaves the global gate unset.
\<close>

datatype startup_error = LimiterFailed init_error | CoordinatorFailed value_error

definition default_policy :: "string \<rightharpoonup> scalar" where
  "default_policy = [''mode'' \<mapsto> SStr ''concurrent'']"

definition startup ::
  "voxedge \<Rightarrow> (string \<rightharpoonup> string) \<Rightarrow> profile \<Rightarrow> metrics \<Rightarrow>
   (startup_error, limiter \<times> coord \<times> gate option) res" where
  "startup vx env p m =
     (case init_limiter vx env p m of
        Inl e \<Rightarrow> Inl (LimiterFailed e)
      | Inr l \<Rightarrow>
          (case new_coordinator vx env (case p_policy p of Some pol \<Rightarrow> pol | None \<Rightarrow> default_policy) (Some p) of
             Inl e \<Rightarrow> Inl (CoordinatorFailed e)
           | Inr c \<Rightarrow>
               Inr (l, c, (case resolve vx env env p '''' of
                             Inl _ \<Rightarrow> None
                           | Inr r \<Rightarrow> snd (init_asr_inference_gate (r_asr_infer_concurrency r)
                                        (r_asr_queue_depth r) None)))))"

lemma startup_limiter:
  assumes "declares_positive vx" and "startup vx env p m = Inr (l, c, g)"
  obtains r where "resolve vx env env p '''' = Inr r" "r_session_ceiling r = Some (l_limit l)"
    "new_limiter (l_limit l) m = Inr l"
proof -
  from assms(2) have "init_limiter vx env p m = Inr l" by (auto simp: startup_def split: sum.splits)
  then obtain n where n: "resolve_limit vx env p = Inr n" "new_limiter n m = Inr l"
    by (auto simp: init_limiter_def split: sum.splits)
  then have "l_limit l = n" by (auto simp: new_limiter_def split: if_splits)
  with n show thesis using that by (metis resolve_limit_eq)
qed

lemma startup_gate:
  assumes "declares_positive vx" and "startup vx env p m = Inr (l, c, g)" and "resolve vx env env p '''' = Inr r"
  obtains g0 where "g = Some g0" "new_gate (r_asr_infer_concurrency r) (r_asr_queue_depth r) = Inr g0"
proof -
  obtain d where d: "1 \<le> r_asr_infer_concurrency r" "r_asr_queue_depth r = Some d" "0 \<le> d"
    using infer_gate_sizing_aux [OF assms(1,3)] by blast
  then obtain g0 where g0: "new_gate (r_asr_infer_concurrency r) (r_asr_queue_depth r) = Inr g0"
    by (simp add: new_gate_def)
  from assms(2,3) g0 have "g = Some g0"
    by (auto simp: startup_def init_asr_inference_gate_def split: sum.splits)
  with g0 show thesis by (rule that [rotated])
qed

text \<open>The default policy asks for what an absent one means.\<close>

lemma policy_default:
  "requested_mode (p\<lparr>p_policy := Some (case p_policy p of Some pol \<Rightarrow> pol | None \<Rightarrow> default_policy)\<rparr>) = requested_mode p"
  "cross_modal_overlap (p\<lparr>p_policy := Some (case p_policy p of Some pol \<Rightarrow> pol | None \<Rightarrow> default_policy)\<rparr>) =
     cross_modal_overlap p"
  by (simp_all add: requested_mode_def cross_modal_overlap_def default_policy_def split: option.split)

lemma caps_policy: "active_cap vx (p\<lparr>p_policy := pol\<rparr>) key reg kind = active_cap vx p key reg kind"
  by (simp add: active_cap_def has_backend_def resolve_backend_class_def)

lemma startup_mode:
  assumes "startup vx env p m = Inr (l, c, g)"
  shows "c_mode c = coordinator_mode_of p (asr_cap_of vx p) (tts_cap_of vx p)"
proof -
  let ?pol = "case p_policy p of Some pol \<Rightarrow> pol | None \<Rightarrow> default_policy"
  from assms obtain mode where r: "resolve_mode vx env ?pol (Some p) = Inr mode" and c: "c_mode c = mode"
    by (auto simp: startup_def new_coordinator_def bind_res_eq_Inr split: sum.splits)
  have req: "(case ?pol ''mode'' of None \<Rightarrow> ''concurrent'' | Some v \<Rightarrow> py_str v) = requested_mode p"
    by (simp add: requested_mode_def default_policy_def split: option.split)
  have mo: "coordinator_mode_of (p\<lparr>p_policy := Some ?pol\<rparr>) x y = coordinator_mode_of p x y" for x y
    by (simp add: coordinator_mode_of_def policy_default has_backend_def Let_def)
  show ?thesis
  proof (cases "requested_mode p = ''exclusive''")
    case True
    with r c req show ?thesis by (simp add: resolve_mode_def coordinator_mode_of_def Let_def)
  next
    case False
    with r req obtain x where x: "resolve vx env env (p\<lparr>p_policy := Some ?pol\<rparr>) '''' = Inr x"
      "mode = r_coordinator_mode x"
      by (auto simp: resolve_mode_def Let_def bind_res_eq_Inr)
    from x(1) have "r_coordinator_mode x = coordinator_mode_of (p\<lparr>p_policy := Some ?pol\<rparr>)
        (asr_cap_of vx (p\<lparr>p_policy := Some ?pol\<rparr>)) (tts_cap_of vx (p\<lparr>p_policy := Some ?pol\<rparr>))"
      by (rule resolve_cases)
    with c x(2) show ?thesis by (simp only: mo caps_policy)
  qed
qed

end
