(* ===== verification/RealtimeEvents.thy ===== *)
theory RealtimeEvents
  imports Json
begin

section \<open>Realtime V2 events of the local engine\<close>

text \<open>
  \<^verbatim>\<open>server/core/v2v.py\<close>: \<open>session_update_to_legacy_config\<close> and \<open>RealtimeV2EventAdapter\<close>, which
  turns the events of the speech engine into the canonical wire events of a session. The adapter object
  is the record \<open>adapter\<close>; its id factory draws the next value of \<open>uuid\<close>, and \<open>ids_used\<close> counts the
  draws. \<open>dumps\<close> is \<open>json.dumps\<close> of tool arguments, \<open>rep\<close> the \<open>str\<close> of floats and containers. A session
  field that is copied by \<open>dict(x or {})\<close> must hold an object or nothing, other values raise.
\<close>

definition CLIENT_CONFIG :: string where "CLIENT_CONFIG = ''config''"
definition SERVER_ASR_PARTIAL :: string where "SERVER_ASR_PARTIAL = ''asr_partial''"
definition SERVER_ASR_ENDPOINT :: string where "SERVER_ASR_ENDPOINT = ''asr_endpoint''"
definition SERVER_ASR_FINAL :: string where "SERVER_ASR_FINAL = ''asr_final''"
definition SERVER_TTS_STARTED :: string where "SERVER_TTS_STARTED = ''tts_started''"
definition SERVER_TTS_SENTENCE_DONE :: string where "SERVER_TTS_SENTENCE_DONE = ''tts_sentence_done''"
definition SERVER_TTS_DONE :: string where "SERVER_TTS_DONE = ''tts_done''"
definition SERVER_VAD_EVENT :: string where "SERVER_VAD_EVENT = ''vad_event''"
definition SERVER_ERROR :: string where "SERVER_ERROR = ''error''"
definition SERVER_TOOL_CALL :: string where "SERVER_TOOL_CALL = ''tool_call''"
definition SERVER_SESSION_CREATED :: string where "SERVER_SESSION_CREATED = ''session.created''"
definition SERVER_SESSION_UPDATED :: string where "SERVER_SESSION_UPDATED = ''session.updated''"
definition SPEECH_STARTED :: string where "SPEECH_STARTED = ''input_audio_buffer.speech_started''"
definition SPEECH_STOPPED :: string where "SPEECH_STOPPED = ''input_audio_buffer.speech_stopped''"
definition COMMITTED :: string where "COMMITTED = ''input_audio_buffer.committed''"
definition TRANSCRIPTION_DELTA :: string where
  "TRANSCRIPTION_DELTA = ''conversation.item.input_audio_transcription.delta''"
definition TRANSCRIPTION_COMPLETED :: string where
  "TRANSCRIPTION_COMPLETED = ''conversation.item.input_audio_transcription.completed''"
definition RESPONSE_CREATED :: string where "RESPONSE_CREATED = ''response.created''"
definition OUTPUT_AUDIO_DONE :: string where "OUTPUT_AUDIO_DONE = ''response.output_audio.done''"
definition TRANSCRIPT_DELTA :: string where "TRANSCRIPT_DELTA = ''response.output_audio_transcript.delta''"
definition TRANSCRIPT_DONE :: string where "TRANSCRIPT_DONE = ''response.output_audio_transcript.done''"
definition RESPONSE_DONE :: string where "RESPONSE_DONE = ''response.done''"
definition OUTPUT_ITEM_ADDED :: string where "OUTPUT_ITEM_ADDED = ''response.output_item.added''"
definition ARGUMENTS_DONE :: string where "ARGUMENTS_DONE = ''response.function_call_arguments.done''"
definition VAD_EVENT_SPEECH_START :: string where "VAD_EVENT_SPEECH_START = ''speech_start''"

subsection \<open>The session update of the client\<close>

definition disabled_turn :: "json \<Rightarrow> bool" where
  "disabled_turn t \<longleftrightarrow> t = JNull \<or> t = JStr ''none''"

definition session_part :: "jdict \<Rightarrow> string \<Rightarrow> jdict" where
  "session_part d k = as_dict (jget d k JNull)"

definition audio_in :: "jdict \<Rightarrow> jdict" where
  "audio_in session = session_part (session_part session ''audio'') ''input''"

definition audio_out :: "jdict \<Rightarrow> jdict" where
  "audio_out session = session_part (session_part session ''audio'') ''output''"

definition turn_detection :: "jdict \<Rightarrow> jdict" where
  "turn_detection session = session_part (audio_in session) ''turn_detection''"

definition turn_off :: "jdict \<Rightarrow> bool" where
  "turn_off session = disabled_turn (jget (turn_detection session) ''type'' (JStr ''server_vad''))"

definition legacy_fields :: "jdict \<Rightarrow> int \<Rightarrow> int \<Rightarrow> jdict" where
  "legacy_fields session sample_rate silence =
     [(''type'', JStr CLIENT_CONFIG), (''sample_rate'', JInt sample_rate),
      (''asr_language'', jget (session_part (audio_in session) ''transcription'') ''language'' JNull),
      (''tts_language'', jget (audio_out session) ''language'' JNull),
      (''tts_voice'', jget (audio_out session) ''voice'' JNull),
      (''tts_speaker_id'', jget (audio_out session) ''speaker_id'' JNull),
      (''tts_speed'', jget (audio_out session) ''speed'' JNull),
      (''vad'', if turn_off session then JStr ''none'' else jget (turn_detection session) ''backend'' (JStr ''silero'')),
      (''vad_silence_ms'', JInt silence), (''multi_utterance'', JBool True), (''_realtime_v2'', JBool True),
      (''_create_response'',
         JBool (jtruthy (jget (turn_detection session) ''create_response'' (JBool (\<not> turn_off session))))),
      (''_interrupt_response'', JBool (jtruthy (jget (turn_detection session) ''interrupt_response'' (JBool True)))),
      (''_canonical_session'', JObj session)]"

definition drop_tts :: "jdict \<Rightarrow> jdict \<Rightarrow> jdict" where
  "drop_tts session cfg =
     (case jget session ''output_modalities'' (jget session ''modalities'' JNull) of
        JList ms \<Rightarrow> if JStr ''audio'' \<notin> set ms then dset cfg ''tts_language'' JNull else cfg
      | _ \<Rightarrow> cfg)"

definition session_update_to_legacy_config :: "jdict \<Rightarrow> (py_error, jdict) res" where
  "session_update_to_legacy_config payload =
     (case jget payload ''session'' JNull of
        JObj session \<Rightarrow>
          let input_format = session_part (audio_in session) ''format''
          in bind_res (jint (jget input_format ''rate'' (jget input_format ''sample_rate'' (JInt 16000)))) (\<lambda>sample_rate.
             bind_res (jint (jget input_format ''channels'' (JInt 1))) (\<lambda>channels.
             if channels \<noteq> 1 then Inl ValueErr
             else bind_res (jint (jget (turn_detection session) ''silence_duration_ms'' (JInt 400))) (\<lambda>silence.
                    Inr (drop_tts session (legacy_fields session sample_rate silence)))))
      | _ \<Rightarrow> Inl ValueErr)"

text \<open>A session asks for a response of its own exactly when it says so, or says nothing and has a turn
  detector.\<close>

lemma dget_drop_tts: "k \<noteq> ''tts_language'' \<Longrightarrow> dget (drop_tts session cfg) k = dget cfg k"
  by (auto simp: drop_tts_def dget_dset split: json.split)

lemma session_update_cases:
  assumes "session_update_to_legacy_config payload = Inr cfg"
  obtains session rate silence where "jget payload ''session'' JNull = JObj session"
    "cfg = drop_tts session (legacy_fields session rate silence)"
  using assms by (auto simp: session_update_to_legacy_config_def Let_def bind_res_eq_Inr split: json.splits if_splits)

lemma session_update_create_response:
  assumes "session_update_to_legacy_config payload = Inr cfg"
  shows "\<exists>session. jget payload ''session'' JNull = JObj session \<and>
     dget cfg ''_create_response'' = Some (JBool (jtruthy (jget (turn_detection session) ''create_response''
        (JBool (\<not> turn_off session)))))"
proof -
  obtain session rate silence where s: "jget payload ''session'' JNull = JObj session"
    and c: "cfg = drop_tts session (legacy_fields session rate silence)"
    using assms by (rule session_update_cases)
  have "dget (legacy_fields session rate silence) ''_create_response'' =
      Some (JBool (jtruthy (jget (turn_detection session) ''create_response'' (JBool (\<not> turn_off session)))))"
    by (simp add: legacy_fields_def)
  with s c show ?thesis by (simp add: dget_drop_tts)
qed

subsection \<open>The adapter\<close>

record adapter =
  ad_provider :: string
  ad_model :: string
  input_sample_rate :: int
  output_sample_rate :: int
  capabilities_override :: "(string \<times> bool) list option"
  session_id :: string
  active_response_id :: "string option"
  active_item_id :: "string option"
  active_status :: string
  active_reason :: "string option"
  input_item_id :: "string option"
  audio_item_announced :: bool
  direct_speak :: bool
  output_item_count :: nat
  active_audio_output_index :: nat
  active_transcript :: "string list"
  ids_used :: nat

type_synonym emitted = "json list \<times> adapter"

definition new_id :: "(nat \<Rightarrow> string) \<Rightarrow> string \<Rightarrow> nat \<Rightarrow> string" where
  "new_id uuid pre n = pre @ ''_'' @ uuid n"

definition fresh :: "(nat \<Rightarrow> string) \<Rightarrow> string \<Rightarrow> adapter \<Rightarrow> string \<times> adapter" where
  "fresh uuid pre a = (new_id uuid pre (ids_used a), a\<lparr>ids_used := Suc (ids_used a)\<rparr>)"

definition new_adapter :: "(nat \<Rightarrow> string) \<Rightarrow> string \<Rightarrow> string \<Rightarrow> int \<Rightarrow> int \<Rightarrow> (string \<times> bool) list option \<Rightarrow> adapter" where
  "new_adapter uuid prov model in_rate out_rate caps =
     \<lparr>ad_provider = prov, ad_model = model, input_sample_rate = in_rate, output_sample_rate = out_rate,
      capabilities_override = caps, session_id = new_id uuid ''sess'' 0, active_response_id = None,
      active_item_id = None, active_status = ''completed'', active_reason = None, input_item_id = None,
      audio_item_announced = False, direct_speak = False, output_item_count = 0,
      active_audio_output_index = 0, active_transcript = [], ids_used = 1\<rparr>"

definition default_capabilities :: "(string \<times> bool) list" where
  "default_capabilities = [(''binary_audio'', True), (''function_calling'', True), (''conversation_truncate'', True),
     (''input_transcription'', True), (''direct_speak'', True), (''conversation_reset'', True)]"

definition capabilities :: "adapter \<Rightarrow> (string \<times> bool) list" where
  "capabilities a = (case capabilities_override a of None \<Rightarrow> default_capabilities
                     | Some caps \<Rightarrow> dupdate default_capabilities caps)"

definition caps_json :: "adapter \<Rightarrow> json" where
  "caps_json a = JObj (map (\<lambda>(k, b). (k, JBool b)) (capabilities a))"

text \<open>An event with its type, a fresh event id, and further fields.\<close>

definition emit :: "(nat \<Rightarrow> string) \<Rightarrow> string \<Rightarrow> jdict \<Rightarrow> adapter \<Rightarrow> json \<times> adapter" where
  "emit uuid typ flds a =
     (case fresh uuid ''evt'' a of
        (eid, a1) \<Rightarrow> (JObj ((''type'', JStr typ) # (''event_id'', JStr eid) # flds), a1))"

definition pcm_format :: "int \<Rightarrow> jdict" where
  "pcm_format rate = [(''type'', JStr ''audio/pcm''), (''rate'', JInt rate), (''channels'', JInt 1),
     (''endianness'', JStr ''little'')]"

definition session_created :: "(nat \<Rightarrow> string) \<Rightarrow> adapter \<Rightarrow> json \<times> adapter" where
  "session_created uuid a =
     emit uuid SERVER_SESSION_CREATED
       [(''session'', JObj [(''id'', JStr (session_id a)), (''object'', JStr ''realtime.session''),
          (''protocol_version'', JInt 2), (''provider'', JStr (ad_provider a)), (''model'', JStr (ad_model a)),
          (''type'', JStr ''realtime''), (''output_modalities'', JList [JStr ''audio'']),
          (''audio'', JObj [(''input'', JObj [(''format'', JObj (pcm_format (input_sample_rate a)))]),
                            (''output'', JObj [(''format'', JObj (pcm_format (output_sample_rate a)))])]),
          (''capabilities'', caps_json a)])] a"

definition dict_of :: "json \<Rightarrow> (py_error, jdict) res" where
  "dict_of v = (if \<not> jtruthy v then Inr [] else case v of JObj d \<Rightarrow> Inr d | _ \<Rightarrow> Inl TypeErr)"

definition set_opt :: "string \<Rightarrow> bool option \<Rightarrow> jdict \<Rightarrow> jdict" where
  "set_opt k v d = (case v of None \<Rightarrow> d | Some b \<Rightarrow> dset d k (JBool b))"

definition session_updated ::
  "(nat \<Rightarrow> string) \<Rightarrow> jdict \<Rightarrow> bool option \<Rightarrow> bool option \<Rightarrow> adapter \<Rightarrow> (py_error, json \<times> adapter) res" where
  "session_updated uuid session create_response interrupt_response a =
     bind_res (dict_of (jget session ''audio'' JNull)) (\<lambda>audio.
     bind_res (dict_of (jget audio ''input'' JNull)) (\<lambda>audio_input.
     bind_res (dict_of (jget audio ''output'' JNull)) (\<lambda>audio_output.
     bind_res (dict_of (jget audio_input ''format'' JNull)) (\<lambda>input_format.
     bind_res (dict_of (jget audio_output ''format'' JNull)) (\<lambda>output_format.
     let input_format1 = dpop (dupdate input_format (pcm_format (input_sample_rate a))) ''sample_rate'';
         output_format1 = dpop (dupdate output_format (pcm_format (output_sample_rate a))) ''sample_rate'';
         audio_input1 = dset audio_input ''format'' (JObj input_format1)
     in bind_res (dict_of (jget audio_input1 ''turn_detection'' JNull)) (\<lambda>turn.
        let turn1 = set_opt ''interrupt_response'' interrupt_response (set_opt ''create_response'' create_response turn);
            audio_input2 = (if turn1 \<noteq> [] then dset audio_input1 ''turn_detection'' (JObj turn1) else audio_input1);
            audio1 = dset (dset audio ''input'' (JObj audio_input2)) ''output'' (JObj (dset audio_output ''format'' (JObj output_format1)));
            effective = dupdate (dset session ''audio'' (JObj audio1))
              [(''id'', JStr (session_id a)), (''object'', JStr ''realtime.session''), (''protocol_version'', JInt 2),
               (''provider'', JStr (ad_provider a)), (''model'', JStr (ad_model a)), (''capabilities'', caps_json a)]
        in Inr (emit uuid SERVER_SESSION_UPDATED [(''session'', JObj effective)] a)))))))"

definition mark_cancelled :: "string \<Rightarrow> adapter \<Rightarrow> adapter" where
  "mark_cancelled reason a =
     (if active_response_id a \<noteq> None then a\<lparr>active_status := ''cancelled'', active_reason := Some reason\<rparr> else a)"

definition mark_direct_speak :: "adapter \<Rightarrow> adapter" where
  "mark_direct_speak a = a\<lparr>direct_speak := True\<rparr>"

definition ensure_response_created :: "(nat \<Rightarrow> string) \<Rightarrow> adapter \<Rightarrow> emitted" where
  "ensure_response_created uuid a =
     (if active_response_id a \<noteq> None then ([], a)
      else case fresh uuid ''resp'' a of
        (rid, a1) \<Rightarrow> (case fresh uuid ''item'' a1 of
          (iid, a2) \<Rightarrow>
            (case emit uuid RESPONSE_CREATED
                 [(''response'', JObj [(''id'', JStr rid), (''object'', JStr ''realtime.response''),
                    (''status'', JStr ''in_progress''), (''output'', JList []),
                    (''metadata'', JObj [(''x_v2v.direct_speak'', JBool (direct_speak a2))])])]
                 (a2\<lparr>active_response_id := Some rid, active_item_id := Some iid, active_status := ''completed'',
                     active_reason := None, active_transcript := []\<rparr>) of
               (ev, a3) \<Rightarrow> ([ev], a3))))"

definition ensure_audio_item_added :: "(nat \<Rightarrow> string) \<Rightarrow> adapter \<Rightarrow> emitted" where
  "ensure_audio_item_added uuid a =
     (case ensure_response_created uuid a of
        (evs, a1) \<Rightarrow>
          if audio_item_announced a1 then (evs, a1)
          else (case emit uuid OUTPUT_ITEM_ADDED
                  [(''response_id'', jopt (active_response_id a1)), (''output_index'', JInt (int (output_item_count a1))),
                   (''item'', JObj [(''id'', jopt (active_item_id a1)), (''type'', JStr ''message''),
                      (''role'', JStr ''assistant''), (''status'', JStr ''in_progress''),
                      (''content'', JList [JObj [(''type'', JStr ''output_audio'')]])])]
                  (a1\<lparr>audio_item_announced := True, active_audio_output_index := output_item_count a1,
                      output_item_count := Suc (output_item_count a1)\<rparr>) of
                (ev, a2) \<Rightarrow> (evs @ [ev], a2)))"

text \<open>The two events that close the audio item, if it was announced.\<close>

definition close_audio_item :: "(nat \<Rightarrow> string) \<Rightarrow> adapter \<Rightarrow> emitted" where
  "close_audio_item uuid a =
     (if \<not> audio_item_announced a then ([], a)
      else let ids = [(''response_id'', jopt (active_response_id a)), (''item_id'', jopt (active_item_id a)),
                      (''output_index'', JInt (int (active_audio_output_index a))), (''content_index'', JInt 0)]
           in (case emit uuid TRANSCRIPT_DONE (ids @ [(''transcript'', JStr (concat (active_transcript a)))]) a of
                 (e1, a1) \<Rightarrow> (case emit uuid OUTPUT_AUDIO_DONE ids a1 of (e2, a2) \<Rightarrow> ([e1, e2], a2))))"

definition finish_response :: "(nat \<Rightarrow> string) \<Rightarrow> adapter \<Rightarrow> emitted" where
  "finish_response uuid a =
     (case ensure_response_created uuid a of
        (ev0, a1) \<Rightarrow> (case close_audio_item uuid a1 of
          (ev1, a2) \<Rightarrow>
            (case emit uuid RESPONSE_DONE
                [(''response'', JObj [(''id'', jopt (active_response_id a2)), (''object'', JStr ''realtime.response''),
                   (''status'', JStr (active_status a2)),
                   (''status_details'', if active_status a2 \<noteq> ''completed'' then
                        JObj [(''type'', JStr (active_status a2)),
                              (''reason'', JStr (case active_reason a2 of
                                 Some r \<Rightarrow> if r \<noteq> [] then r else active_status a2 | None \<Rightarrow> active_status a2))]
                      else JNull),
                   (''output'', JList []), (''usage'', JNull)])] a2 of
               (ev2, a3) \<Rightarrow>
                 (ev0 @ ev1 @ [ev2],
                  a3\<lparr>active_response_id := None, active_item_id := None, active_status := ''completed'',
                     active_reason := None, audio_item_announced := False, direct_speak := False,
                     output_item_count := 0, active_audio_output_index := 0, active_transcript := []\<rparr>))))"

subsection \<open>Translating one engine event\<close>

definition on_tts_started :: "(nat \<Rightarrow> string) \<Rightarrow> jdict \<Rightarrow> adapter \<Rightarrow> emitted" where
  "on_tts_started uuid p a =
     (case ensure_audio_item_added uuid a of
        (evs, a1) \<Rightarrow> (case emit uuid ''x_v2v.tts_sentence.started''
            [(''response_id'', jopt (active_response_id a1)), (''sentence'', jget p ''sentence'' (JStr ''''))] a1 of
          (ev, a2) \<Rightarrow> (evs @ [ev], a2)))"

definition on_sentence_done :: "(nat \<Rightarrow> string) \<Rightarrow> (json \<Rightarrow> string) \<Rightarrow> jdict \<Rightarrow> adapter \<Rightarrow> emitted" where
  "on_sentence_done uuid rep p a =
     (let v = jget p ''sentence'' JNull; sentence = (if jtruthy v then jstr rep v else '''');
          a0 = a\<lparr>active_transcript := active_transcript a @ [sentence]\<rparr>
      in case emit uuid TRANSCRIPT_DELTA
             [(''response_id'', jopt (active_response_id a0)), (''item_id'', jopt (active_item_id a0)),
              (''output_index'', JInt (int (active_audio_output_index a0))), (''content_index'', JInt 0),
              (''delta'', JStr sentence)] a0 of
           (e1, a1) \<Rightarrow> (case emit uuid ''x_v2v.tts_sentence.done''
             [(''response_id'', jopt (active_response_id a1)), (''sentence'', JStr sentence)] a1 of
           (e2, a2) \<Rightarrow> ([e1, e2], a2)))"

definition on_tts_done :: "(nat \<Rightarrow> string) \<Rightarrow> jdict \<Rightarrow> adapter \<Rightarrow> emitted" where
  "on_tts_done uuid p a =
     (if active_response_id a = None \<and> dget p ''session_complete'' = Some (JBool True) then ([], a)
      else finish_response uuid a)"

definition on_vad_event :: "(nat \<Rightarrow> string) \<Rightarrow> jdict \<Rightarrow> adapter \<Rightarrow> emitted" where
  "on_vad_event uuid p a =
     (let started = (dget p ''event'' = Some (JStr VAD_EVENT_SPEECH_START));
          a1 = (if started then (case fresh uuid ''item'' a of (i, a') \<Rightarrow> a'\<lparr>input_item_id := Some i\<rparr>) else a)
      in case emit uuid (if started then SPEECH_STARTED else SPEECH_STOPPED)
             [(''item_id'', jopt (input_item_id a1))] a1 of (ev, a2) \<Rightarrow> ([ev], a2))"

text \<open>\<open>self.input_item_id = self.input_item_id or self.id_factory('item')\<close>; ids are never empty.\<close>

definition ensure_input_item :: "(nat \<Rightarrow> string) \<Rightarrow> adapter \<Rightarrow> adapter" where
  "ensure_input_item uuid a =
     (if input_item_id a \<noteq> None then a
      else (case fresh uuid ''item'' a of (i, a') \<Rightarrow> a'\<lparr>input_item_id := Some i\<rparr>))"

definition on_asr_endpoint :: "(nat \<Rightarrow> string) \<Rightarrow> adapter \<Rightarrow> emitted" where
  "on_asr_endpoint uuid a =
     (let a1 = ensure_input_item uuid a
      in case emit uuid COMMITTED [(''item_id'', jopt (input_item_id a1))] a1 of (ev, a2) \<Rightarrow> ([ev], a2))"

definition on_asr_partial :: "(nat \<Rightarrow> string) \<Rightarrow> jdict \<Rightarrow> adapter \<Rightarrow> emitted" where
  "on_asr_partial uuid p a =
     (let a1 = ensure_input_item uuid a
      in case emit uuid TRANSCRIPTION_DELTA
             [(''item_id'', jopt (input_item_id a1)), (''content_index'', JInt 0),
              (''delta'', jget p ''text'' (JStr '''')),
              (''is_stable'', JBool (jtruthy (jget p ''is_stable'' (JBool False))))] a1 of (ev, a2) \<Rightarrow> ([ev], a2))"

definition on_asr_final :: "(nat \<Rightarrow> string) \<Rightarrow> jdict \<Rightarrow> adapter \<Rightarrow> emitted" where
  "on_asr_final uuid p a =
     (let a1 = ensure_input_item uuid a; lang = jget p ''language'' JNull
      in case emit uuid TRANSCRIPTION_COMPLETED
             ([(''item_id'', jopt (input_item_id a1)), (''content_index'', JInt 0),
               (''transcript'', jget p ''text'' (JStr ''''))] @ (if jtruthy lang then [(''language'', lang)] else [])) a1 of
           (ev, a2) \<Rightarrow> ([ev], a2\<lparr>input_item_id := None\<rparr>))"

definition on_tool_call ::
  "(nat \<Rightarrow> string) \<Rightarrow> (json \<Rightarrow> string) \<Rightarrow> (json \<Rightarrow> string) \<Rightarrow> jdict \<Rightarrow> adapter \<Rightarrow> emitted" where
  "on_tool_call uuid rep dumps p a =
     (case ensure_response_created uuid a of
        (evs, a1) \<Rightarrow>
          let v = (if jtruthy (jget p ''call_id'' JNull) then jget p ''call_id'' JNull else jget p ''id'' JNull);
              call_id = (if jtruthy v then jstr rep v else '''');
              args = (case jget p ''arguments'' JNull of
                        JStr s \<Rightarrow> s | JObj d \<Rightarrow> dumps (JObj d) | _ \<Rightarrow> dumps (JObj []))
          in (case fresh uuid ''item'' a1 of
               (item, a2) \<Rightarrow>
                 let index = output_item_count a2; a3 = a2\<lparr>output_item_count := Suc index\<rparr>
                 in (case emit uuid OUTPUT_ITEM_ADDED
                        [(''response_id'', jopt (active_response_id a3)), (''output_index'', JInt (int index)),
                         (''item'', JObj [(''id'', JStr item), (''type'', JStr ''function_call''),
                            (''status'', JStr ''in_progress''), (''call_id'', JStr call_id),
                            (''name'', jget p ''name'' (JStr '''')), (''arguments'', JStr '''')])] a3 of
                      (e1, a4) \<Rightarrow>
                    (case emit uuid ARGUMENTS_DONE
                        [(''response_id'', jopt (active_response_id a4)), (''item_id'', JStr item),
                         (''output_index'', JInt (int index)), (''call_id'', JStr call_id),
                         (''name'', jget p ''name'' (JStr '''')), (''arguments'', JStr args),
                         (''x_v2v'', JObj [(''timeout_s'', jget p ''timeout_s'' (JFloat 15))])] a4 of
                      (e2, a5) \<Rightarrow> (evs @ [e1, e2], a5)))))"

definition on_error :: "(nat \<Rightarrow> string) \<Rightarrow> (json \<Rightarrow> string) \<Rightarrow> jdict \<Rightarrow> adapter \<Rightarrow> emitted" where
  "on_error uuid rep p a =
     (let raw = jget p ''error'' JNull;
          text = (\<lambda>dflt. if jtruthy raw then jstr rep raw else dflt);
          code = jget p ''code'' JNull;
          err = (case raw of
                   JObj d \<Rightarrow> JObj d
                 | _ \<Rightarrow> JObj [(''type'', JStr ''server_error''),
                      (''code'', if jtruthy code then code else JStr (text ''unknown_error'')),
                      (''message'', JStr (text ''unknown server error'')), (''param'', jget p ''param'' JNull)])
      in case emit uuid SERVER_ERROR [(''error'', err)] a of (ev, a1) \<Rightarrow> ([ev], a1))"

definition pass_through :: "(nat \<Rightarrow> string) \<Rightarrow> jdict \<Rightarrow> adapter \<Rightarrow> emitted" where
  "pass_through uuid p a =
     (case fresh uuid ''evt'' a of (eid, a1) \<Rightarrow> ([JObj (setdefault p ''event_id'' (JStr eid))], a1))"

definition canonical_type :: "string \<Rightarrow> bool" where
  "canonical_type t = (starts_with ''session.'' t \<or> starts_with ''response.'' t \<or>
     starts_with ''input_audio_buffer.'' t \<or> starts_with ''conversation.item.'' t)"

definition type_of :: "jdict \<Rightarrow> string option" where
  "type_of p = (case dget p ''type'' of Some (JStr t) \<Rightarrow> Some t | _ \<Rightarrow> None)"

definition translate ::
  "(nat \<Rightarrow> string) \<Rightarrow> (json \<Rightarrow> string) \<Rightarrow> (json \<Rightarrow> string) \<Rightarrow> jdict \<Rightarrow> adapter \<Rightarrow> emitted" where
  "translate uuid rep dumps p a =
     (case type_of p of
        None \<Rightarrow> pass_through uuid p a
      | Some t \<Rightarrow>
          if canonical_type t then pass_through uuid p a
          else if t = SERVER_TTS_STARTED then on_tts_started uuid p a
          else if t = SERVER_TTS_SENTENCE_DONE then on_sentence_done uuid rep p a
          else if t = SERVER_TTS_DONE then on_tts_done uuid p a
          else if t = SERVER_VAD_EVENT then on_vad_event uuid p a
          else if t = SERVER_ASR_ENDPOINT then on_asr_endpoint uuid a
          else if t = SERVER_ASR_PARTIAL then on_asr_partial uuid p a
          else if t = SERVER_ASR_FINAL then on_asr_final uuid p a
          else if t = SERVER_TOOL_CALL then on_tool_call uuid rep dumps p a
          else if t = SERVER_ERROR then on_error uuid rep p a
          else pass_through uuid p a)"

subsection \<open>The lifecycle of responses\<close>

text \<open>What a client relies on: responses come one after the other, each is created once and finished once;
  in between every event names the open response, its output items are numbered from 0 without gaps,
  and a finished transcript is what the deltas said. A delta outside a response names none.\<close>

datatype mark =
  Created string
| Finished string
| ItemAdded "string option" int
| Delta "string option" string
| TranscriptDone "string option" string
| Tagged "string option"

type_synonym life = "(string \<times> nat \<times> string list) option"

fun spec_step :: "life \<Rightarrow> mark \<Rightarrow> life option" where
  "spec_step None (Created r) = Some (Some (r, 0, []))"
| "spec_step None (Delta None _) = Some None"
| "spec_step (Some (r, n, ts)) (Finished r') = (if r' = r then Some None else None)"
| "spec_step (Some (r, n, ts)) (ItemAdded r' k) = (if r' = Some r \<and> k = int n then Some (Some (r, Suc n, ts)) else None)"
| "spec_step (Some (r, n, ts)) (Delta r' t) = (if r' = Some r then Some (Some (r, n, ts @ [t])) else None)"
| "spec_step (Some (r, n, ts)) (TranscriptDone r' t) =
     (if r' = Some r \<and> t = concat ts then Some (Some (r, n, ts)) else None)"
| "spec_step (Some (r, n, ts)) (Tagged r') = (if r' = Some r then Some (Some (r, n, ts)) else None)"
| "spec_step _ _ = None"

fun spec_run :: "life \<Rightarrow> mark list \<Rightarrow> life option" where
  "spec_run l [] = Some l"
| "spec_run l (m # ms) = (case spec_step l m of None \<Rightarrow> None | Some l' \<Rightarrow> spec_run l' ms)"

lemma spec_run_append: "spec_run l (xs @ ys) = (case spec_run l xs of None \<Rightarrow> None | Some l' \<Rightarrow> spec_run l' ys)"
  by (induction xs arbitrary: l) (auto split: option.splits)

text \<open>What the lifecycle sees of an event.\<close>

definition str_opt :: "json option \<Rightarrow> string option" where
  "str_opt v = (case v of Some (JStr s) \<Rightarrow> Some s | _ \<Rightarrow> None)"

definition str_field :: "jdict \<Rightarrow> string \<Rightarrow> string" where
  "str_field d k = (case str_opt (dget d k) of Some s \<Rightarrow> s | None \<Rightarrow> [])"

definition marks_for :: "string \<Rightarrow> jdict \<Rightarrow> mark list" where
  "marks_for t d =
     (let r = str_opt (dget d ''response_id''); inner = str_field (session_part d ''response'') ''id''
      in if t = RESPONSE_CREATED then [Created inner]
         else if t = RESPONSE_DONE then [Finished inner]
         else if t = OUTPUT_ITEM_ADDED then
           [ItemAdded r (case dget d ''output_index'' of Some (JInt n) \<Rightarrow> n | _ \<Rightarrow> - 1)]
         else if t = TRANSCRIPT_DELTA then [Delta r (str_field d ''delta'')]
         else if t = TRANSCRIPT_DONE then [TranscriptDone r (str_field d ''transcript'')]
         else if starts_with ''response.'' t then [Tagged r] else [])"

fun marks_of :: "json \<Rightarrow> mark list" where
  "marks_of (JObj d) = (case type_of d of Some t \<Rightarrow> marks_for t d | None \<Rightarrow> [])"
| "marks_of _ = []"

definition marks :: "json list \<Rightarrow> mark list" where
  "marks evs = concat (map marks_of evs)"

lemma marks_simps [simp]: "marks [] = []" "marks (e # evs) = marks_of e @ marks evs" "marks (xs @ ys) = marks xs @ marks ys"
  by (simp_all add: marks_def)

lemma str_opt_simps [simp]:
  "str_opt (Some (JStr s)) = Some s" "str_opt None = None" "str_opt (Some JNull) = None" "str_opt (Some (jopt v)) = v"
  by (simp_all add: str_opt_def) (cases v; simp)

lemma emit_eq:
  "emit uuid t d a = (JObj ((''type'', JStr t) # (''event_id'', JStr (new_id uuid ''evt'' (ids_used a))) # d),
     a\<lparr>ids_used := Suc (ids_used a)\<rparr>)"
  by (simp add: emit_def fresh_def)

lemma marks_of_emit [simp]:
  "marks_of (JObj ((''type'', JStr t) # (''event_id'', JStr e) # d)) = marks_for t d"
  by (simp add: type_of_def marks_for_def session_part_def jget_def str_field_def Let_def)

declare marks_of.simps(1) [simp del]

lemma event_types_distinct [simp]:
  "RESPONSE_CREATED \<noteq> RESPONSE_DONE" "RESPONSE_CREATED \<noteq> OUTPUT_ITEM_ADDED"
  "RESPONSE_CREATED \<noteq> TRANSCRIPT_DELTA" "RESPONSE_CREATED \<noteq> TRANSCRIPT_DONE"
  "RESPONSE_DONE \<noteq> RESPONSE_CREATED" "RESPONSE_DONE \<noteq> OUTPUT_ITEM_ADDED"
  "RESPONSE_DONE \<noteq> TRANSCRIPT_DELTA" "RESPONSE_DONE \<noteq> TRANSCRIPT_DONE"
  "OUTPUT_ITEM_ADDED \<noteq> RESPONSE_CREATED" "OUTPUT_ITEM_ADDED \<noteq> RESPONSE_DONE"
  "OUTPUT_ITEM_ADDED \<noteq> TRANSCRIPT_DELTA" "OUTPUT_ITEM_ADDED \<noteq> TRANSCRIPT_DONE"
  "TRANSCRIPT_DELTA \<noteq> RESPONSE_CREATED" "TRANSCRIPT_DELTA \<noteq> RESPONSE_DONE"
  "TRANSCRIPT_DELTA \<noteq> OUTPUT_ITEM_ADDED" "TRANSCRIPT_DELTA \<noteq> TRANSCRIPT_DONE"
  "TRANSCRIPT_DONE \<noteq> RESPONSE_CREATED" "TRANSCRIPT_DONE \<noteq> RESPONSE_DONE"
  "TRANSCRIPT_DONE \<noteq> OUTPUT_ITEM_ADDED" "TRANSCRIPT_DONE \<noteq> TRANSCRIPT_DELTA"
  "OUTPUT_AUDIO_DONE \<noteq> RESPONSE_CREATED" "OUTPUT_AUDIO_DONE \<noteq> RESPONSE_DONE"
  "OUTPUT_AUDIO_DONE \<noteq> OUTPUT_ITEM_ADDED" "OUTPUT_AUDIO_DONE \<noteq> TRANSCRIPT_DELTA"
  "OUTPUT_AUDIO_DONE \<noteq> TRANSCRIPT_DONE" "ARGUMENTS_DONE \<noteq> RESPONSE_CREATED"
  "ARGUMENTS_DONE \<noteq> RESPONSE_DONE" "ARGUMENTS_DONE \<noteq> OUTPUT_ITEM_ADDED"
  "ARGUMENTS_DONE \<noteq> TRANSCRIPT_DELTA" "ARGUMENTS_DONE \<noteq> TRANSCRIPT_DONE"
  by code_simp+

lemma response_types [simp]: "starts_with ''response.'' OUTPUT_AUDIO_DONE" "starts_with ''response.'' ARGUMENTS_DONE"
  by code_simp+

lemma response_types_all:
  "starts_with ''response.'' RESPONSE_CREATED" "starts_with ''response.'' RESPONSE_DONE" "starts_with ''response.'' OUTPUT_ITEM_ADDED"
  "starts_with ''response.'' TRANSCRIPT_DELTA" "starts_with ''response.'' TRANSCRIPT_DONE"
  by code_simp+

lemma marks_for_simps [simp]:
  "marks_for RESPONSE_CREATED d = [Created (str_field (session_part d ''response'') ''id'')]"
  "marks_for RESPONSE_DONE d = [Finished (str_field (session_part d ''response'') ''id'')]"
  "marks_for OUTPUT_ITEM_ADDED d =
     [ItemAdded (str_opt (dget d ''response_id'')) (case dget d ''output_index'' of Some (JInt n) \<Rightarrow> n | _ \<Rightarrow> - 1)]"
  "marks_for TRANSCRIPT_DELTA d = [Delta (str_opt (dget d ''response_id'')) (str_field d ''delta'')]"
  "marks_for TRANSCRIPT_DONE d = [TranscriptDone (str_opt (dget d ''response_id'')) (str_field d ''transcript'')]"
  "marks_for OUTPUT_AUDIO_DONE d = [Tagged (str_opt (dget d ''response_id''))]"
  "marks_for ARGUMENTS_DONE d = [Tagged (str_opt (dget d ''response_id''))]"
  by (simp_all add: marks_for_def Let_def)

lemma marks_for_other: "\<not> starts_with ''response.'' t \<Longrightarrow> marks_for t d = []"
  using response_types response_types_all by (auto simp: marks_for_def Let_def)

text \<open>The adapter as an implementation of the lifecycle.\<close>

definition life_of :: "adapter \<Rightarrow> life" where
  "life_of a = (case active_response_id a of None \<Rightarrow> None
                | Some r \<Rightarrow> Some (r, output_item_count a, active_transcript a))"

definition adapter_inv :: "adapter \<Rightarrow> bool" where
  "adapter_inv a \<longleftrightarrow> (active_response_id a = None \<longrightarrow> output_item_count a = 0 \<and> \<not> audio_item_announced a)"

definition simulates :: "adapter \<Rightarrow> emitted \<Rightarrow> bool" where
  "simulates a r \<longleftrightarrow> spec_run (life_of a) (marks (fst r)) = Some (life_of (snd r)) \<and> adapter_inv (snd r)"

text \<open>Events the lifecycle does not see, from a state with the same response.\<close>

lemma quiet:
  assumes "adapter_inv a" and "marks evs = []"
    and "active_response_id b = active_response_id a" and "output_item_count b = output_item_count a"
    and "active_transcript b = active_transcript a" and "audio_item_announced b = audio_item_announced a"
  shows "simulates a (evs, b)"
  using assms by (simp add: simulates_def adapter_inv_def life_of_def split: option.split)

lemma simulates_trans:
  "simulates a (e1, b) \<Longrightarrow> simulates b (e2, c) \<Longrightarrow> simulates a (e1 @ e2, c)"
  by (simp add: simulates_def spec_run_append)

lemma ensure_response_simulates:
  assumes "adapter_inv a"
  shows "simulates a (ensure_response_created uuid a)"
    and "active_response_id (snd (ensure_response_created uuid a)) \<noteq> None"
  using assms
  by (auto simp: simulates_def ensure_response_created_def fresh_def emit_eq life_of_def adapter_inv_def
      session_part_def jget_def str_field_def)

lemma ensure_response_pair:
  assumes "adapter_inv a"
  obtains evs b where "ensure_response_created uuid a = (evs, b)" "simulates a (evs, b)" "active_response_id b \<noteq> None"
  using ensure_response_simulates [OF assms, of uuid] by (cases "ensure_response_created uuid a") auto

lemma audio_item_simulates:
  assumes "adapter_inv a"
  shows "simulates a (ensure_audio_item_added uuid a)"
proof -
  obtain evs b where b: "ensure_response_created uuid a = (evs, b)" "simulates a (evs, b)"
    and r: "active_response_id b \<noteq> None" using assms by (rule ensure_response_pair)
  then show ?thesis
    by (auto simp: ensure_audio_item_added_def emit_eq simulates_def spec_run_append life_of_def adapter_inv_def)
qed

lemma close_audio_simulates:
  assumes "adapter_inv a" and "active_response_id a \<noteq> None"
  shows "simulates a (close_audio_item uuid a)"
    and "active_response_id (snd (close_audio_item uuid a)) = active_response_id a"
  using assms
  by (auto simp: close_audio_item_def emit_eq simulates_def life_of_def adapter_inv_def Let_def str_field_def)

lemma finish_simulates:
  assumes "adapter_inv a"
  shows "simulates a (finish_response uuid a)"
proof -
  obtain evs b where b: "ensure_response_created uuid a = (evs, b)" "simulates a (evs, b)"
    and r: "active_response_id b \<noteq> None" using assms by (rule ensure_response_pair)
  have "adapter_inv b" using b(2) by (simp add: simulates_def)
  then have c: "simulates b (close_audio_item uuid b)"
    "active_response_id (snd (close_audio_item uuid b)) = active_response_id b"
    using r by (simp_all add: close_audio_simulates)
  obtain ev1 d where d: "close_audio_item uuid b = (ev1, d)" by fastforce
  have "simulates a (evs @ ev1, d)" using b(2) c(1) d by (auto intro: simulates_trans)
  moreover obtain x where "active_response_id d = Some x" using c(2) d r by auto
  ultimately show ?thesis
    using b(1) d
    by (auto simp: finish_response_def emit_eq simulates_def spec_run_append life_of_def adapter_inv_def
        session_part_def jget_def str_field_def split: option.splits)
qed

lemma wire_types [simp]:
  "marks_for COMMITTED d = []" "marks_for TRANSCRIPTION_DELTA d = []" "marks_for TRANSCRIPTION_COMPLETED d = []"
  "marks_for SERVER_ERROR d = []" "marks_for SPEECH_STARTED d = []" "marks_for SPEECH_STOPPED d = []"
  "marks_for ''x_v2v.tts_sentence.started'' d = []" "marks_for ''x_v2v.tts_sentence.done'' d = []"
  by (rule marks_for_other, code_simp)+

lemma pass_through_simulates:
  assumes "adapter_inv a" and "\<And>t. type_of p = Some t \<Longrightarrow> \<not> canonical_type t"
  shows "simulates a (pass_through uuid p a)"
proof -
  have "type_of (setdefault p ''event_id'' v) = type_of p" for v
    by (simp add: type_of_def dget_setdefault)
  then have "marks_of (JObj (setdefault p ''event_id'' v)) = []" for v
    using assms(2) by (auto simp: marks_of.simps canonical_type_def marks_for_other split: option.splits)
  with assms(1) show ?thesis by (simp add: pass_through_def fresh_def quiet)
qed

lemma ensure_input_item_frame [simp]:
  "active_response_id (ensure_input_item uuid a) = active_response_id a"
  "output_item_count (ensure_input_item uuid a) = output_item_count a"
  "audio_item_announced (ensure_input_item uuid a) = audio_item_announced a"
  "active_transcript (ensure_input_item uuid a) = active_transcript a"
  by (simp_all add: ensure_input_item_def fresh_def)

lemma input_handlers_simulate:
  assumes "adapter_inv a"
  shows "simulates a (on_vad_event uuid p a)" and "simulates a (on_asr_endpoint uuid a)"
    and "simulates a (on_asr_partial uuid p a)" and "simulates a (on_asr_final uuid p a)"
    and "simulates a (on_error uuid rep p a)"
  using assms
  by (simp_all add: on_vad_event_def on_asr_endpoint_def on_asr_partial_def on_asr_final_def on_error_def
      Let_def emit_eq fresh_def quiet)

lemma on_tts_started_simulates:
  assumes "adapter_inv a"
  shows "simulates a (on_tts_started uuid p a)"
proof -
  obtain evs b where b: "ensure_audio_item_added uuid a = (evs, b)" by fastforce
  with audio_item_simulates [OF assms] have sb: "simulates a (evs, b)" by metis
  then have "adapter_inv b" by (simp add: simulates_def)
  then have "simulates b ([JObj ((''type'', JStr ''x_v2v.tts_sentence.started'') # (''event_id'', JStr i) # d)],
      b\<lparr>ids_used := n\<rparr>)" for i d n by (simp add: quiet)
  from simulates_trans [OF sb this] show ?thesis by (simp add: on_tts_started_def b emit_eq)
qed

lemma on_sentence_done_simulates:
  assumes "adapter_inv a"
  shows "simulates a (on_sentence_done uuid rep p a)"
  using assms
  by (cases "active_response_id a")
    (simp_all add: on_sentence_done_def Let_def emit_eq simulates_def life_of_def adapter_inv_def str_field_def)

lemma on_tool_call_simulates:
  assumes "adapter_inv a"
  shows "simulates a (on_tool_call uuid rep dumps p a)"
proof -
  obtain evs b where b: "ensure_response_created uuid a = (evs, b)" "simulates a (evs, b)"
    and r: "active_response_id b \<noteq> None" using assms by (rule ensure_response_pair)
  obtain x where x: "active_response_id b = Some x" using r by blast
  then have "life_of b = Some (x, output_item_count b, active_transcript b)" by (simp add: life_of_def)
  with b(2) have "spec_run (life_of a) (marks evs) = Some (Some (x, output_item_count b, active_transcript b))"
    by (simp add: simulates_def)
  then show ?thesis
    by (simp add: on_tool_call_def b(1) x emit_eq fresh_def Let_def simulates_def spec_run_append adapter_inv_def)
      (simp add: life_of_def x split: option.split)
qed

subsection \<open>Runs of the adapter\<close>

text \<open>The session handler translates engine events and marks cancellations and direct speech in between.\<close>

datatype adapter_op = Engine jdict | Cancel string | Speak

fun adapter_step :: "(nat \<Rightarrow> string) \<Rightarrow> (json \<Rightarrow> string) \<Rightarrow> (json \<Rightarrow> string) \<Rightarrow> adapter_op \<Rightarrow> adapter \<Rightarrow> emitted" where
  "adapter_step uuid rep dumps (Engine p) a = translate uuid rep dumps p a"
| "adapter_step uuid rep dumps (Cancel reason) a = ([], mark_cancelled reason a)"
| "adapter_step uuid rep dumps Speak a = ([], mark_direct_speak a)"

fun adapter_run :: "(nat \<Rightarrow> string) \<Rightarrow> (json \<Rightarrow> string) \<Rightarrow> (json \<Rightarrow> string) \<Rightarrow> adapter_op list \<Rightarrow> adapter \<Rightarrow> emitted" where
  "adapter_run uuid rep dumps [] a = ([], a)"
| "adapter_run uuid rep dumps (op # ops) a =
     (case adapter_step uuid rep dumps op a of (e1, a1) \<Rightarrow>
        (case adapter_run uuid rep dumps ops a1 of (e2, a2) \<Rightarrow> (e1 @ e2, a2)))"

text \<open>An engine event, as opposed to one that is already canonical and passed through.\<close>

definition engine_op :: "adapter_op \<Rightarrow> bool" where
  "engine_op op = (case op of Engine p \<Rightarrow> (case type_of p of Some t \<Rightarrow> \<not> canonical_type t | None \<Rightarrow> True) | _ \<Rightarrow> True)"

lemma step_simulates:
  assumes "adapter_inv a" and "engine_op op"
  shows "simulates a (adapter_step uuid rep dumps op a)"
proof (cases op)
  case (Engine p)
  have n: "\<And>t. type_of p = Some t \<Longrightarrow> \<not> canonical_type t"
    using assms(2) Engine by (auto simp: engine_op_def split: option.splits)
  have pass: "simulates a (pass_through uuid p a)" using assms(1) n by (rule pass_through_simulates)
  show ?thesis
    using n assms(1) input_handlers_simulate on_tts_started_simulates on_sentence_done_simulates on_tool_call_simulates
      finish_simulates quiet [OF assms(1), of "[]" a] pass
    by (simp add: Engine translate_def on_tts_done_def split: option.split)
next
  case (Cancel reason)
  with assms(1) show ?thesis by (simp add: quiet mark_cancelled_def)
next
  case Speak
  with assms(1) show ?thesis by (simp add: quiet mark_direct_speak_def)
qed

lemma run_simulates:
  "adapter_inv a \<Longrightarrow> \<forall>op \<in> set ops. engine_op op \<Longrightarrow> simulates a (adapter_run uuid rep dumps ops a)"
proof (induction ops arbitrary: a)
  case Nil
  then show ?case by (simp add: simulates_def)
next
  case (Cons op ops)
  obtain e1 a1 where e: "adapter_step uuid rep dumps op a = (e1, a1)" by fastforce
  obtain e2 a2 where e2: "adapter_run uuid rep dumps ops a1 = (e2, a2)" by fastforce
  have s: "simulates a (e1, a1)" using step_simulates [of a op uuid rep dumps] Cons.prems e by simp
  then have "simulates a1 (e2, a2)" using Cons.IH [of a1] Cons.prems e2 by (simp add: simulates_def)
  with s e e2 show ?case by (auto intro: simulates_trans)
qed

lemma new_adapter_inv: "adapter_inv (new_adapter uuid prov model i out caps)"
  "life_of (new_adapter uuid prov model i out caps) = None"
  by (simp_all add: adapter_inv_def new_adapter_def life_of_def)

text \<open>C11: Whatever the engine reports, in whatever order, and whenever a client cancels or asks for direct
  speech, the events of a session follow the lifecycle: responses never overlap, each is finished exactly
  once, under the id it was created with, its output items are numbered from 0 without gaps, every
  event of it carries its id, and its finished transcript is the concatenation of its deltas.\<close>

theorem responses_follow_lifecycle:
  assumes "\<forall>op \<in> set ops. engine_op op"
  shows "spec_run None (marks (fst (adapter_run uuid rep dumps ops (new_adapter uuid prov model i out caps)))) =
    Some (life_of (snd (adapter_run uuid rep dumps ops (new_adapter uuid prov model i out caps))))"
  using run_simulates [OF new_adapter_inv(1) [of uuid prov model i out caps] assms, of uuid rep dumps]
  by (simp add: simulates_def new_adapter_inv(2))

definition demo_ops :: "adapter_op list" where
  "demo_ops = [Engine [(''type'', JStr ''tts_started''), (''sentence'', JStr ''hi'')],
     Engine [(''type'', JStr ''tts_sentence_done''), (''sentence'', JStr ''hi'')],
     Engine [(''type'', JStr ''tool_call''), (''name'', JStr ''f'')], Cancel ''client_cancelled'',
     Engine [(''type'', JStr ''tts_done'')], Engine [(''type'', JStr ''tts_done''), (''session_complete'', JBool True)]]"

theorem responses_follow_lifecycle_witness:
  "spec_run None (marks (fst (adapter_run nat_str (\<lambda>_. []) (\<lambda>_. []) demo_ops
     (new_adapter nat_str ''local'' ''m'' 16000 16000 None)))) = Some None"
proof -
  have "\<forall>op \<in> set demo_ops. engine_op op" by code_simp
  from responses_follow_lifecycle [OF this, of nat_str "\<lambda>_. []" "\<lambda>_. []" "''local''" "''m''" 16000 16000 None]
  have "spec_run None (marks (fst (adapter_run nat_str (\<lambda>_. []) (\<lambda>_. []) demo_ops
     (new_adapter nat_str ''local'' ''m'' 16000 16000 None)))) =
    Some (life_of (snd (adapter_run nat_str (\<lambda>_. []) (\<lambda>_. []) demo_ops (new_adapter nat_str ''local'' ''m'' 16000 16000 None))))" .
  also have "life_of (snd (adapter_run nat_str (\<lambda>_. []) (\<lambda>_. []) demo_ops
      (new_adapter nat_str ''local'' ''m'' 16000 16000 None))) = None" by code_simp
  finally show ?thesis .
qed

subsection \<open>Identifiers are used once\<close>

definition created :: "json list \<Rightarrow> string list" where
  "created evs = concat (map (\<lambda>m. case m of Created r \<Rightarrow> [r] | _ \<Rightarrow> []) (marks evs))"

lemma created_simps [simp]:
  "created [] = []" "created (xs @ ys) = created xs @ created ys"
  "created (e # evs) = concat (map (\<lambda>m. case m of Created r \<Rightarrow> [r] | _ \<Rightarrow> []) (marks_of e)) @ created evs"
  by (simp_all add: created_def)

text \<open>Ids of responses come from draws of the factory that this step makes.\<close>

definition draws :: "(nat \<Rightarrow> string) \<Rightarrow> adapter \<Rightarrow> emitted \<Rightarrow> bool" where
  "draws uuid a r \<longleftrightarrow> ids_used a \<le> ids_used (snd r) \<and>
     (\<exists>ns. sorted_wrt (<) ns \<and> set ns \<subseteq> {ids_used a..<ids_used (snd r)} \<and>
           created (fst r) = map (new_id uuid ''resp'') ns)"

lemma draws_quiet: "created evs = [] \<Longrightarrow> ids_used a \<le> ids_used b \<Longrightarrow> draws uuid a (evs, b)"
  by (simp add: draws_def)

lemma draws_trans:
  assumes "draws uuid a (e1, b)" and "draws uuid b (e2, c)"
  shows "draws uuid a (e1 @ e2, c)"
proof -
  obtain ns where ns: "sorted_wrt (<) ns" "set ns \<subseteq> {ids_used a..<ids_used b}" "created e1 = map (new_id uuid ''resp'') ns"
    and m: "ids_used a \<le> ids_used b" using assms(1) by (auto simp: draws_def)
  obtain ms where ms: "sorted_wrt (<) ms" "set ms \<subseteq> {ids_used b..<ids_used c}" "created e2 = map (new_id uuid ''resp'') ms"
    and m2: "ids_used b \<le> ids_used c" using assms(2) by (auto simp: draws_def)
  have "sorted_wrt (<) (ns @ ms)" using ns ms by (fastforce simp: sorted_wrt_append)
  moreover have "set (ns @ ms) \<subseteq> {ids_used a..<ids_used c}" using ns ms m m2 by fastforce
  ultimately show ?thesis using ns ms m m2 unfolding draws_def by (intro conjI exI [of _ "ns @ ms"]) auto
qed

lemma draws_ensure: "draws uuid a (ensure_response_created uuid a)"
  by (auto simp: draws_def ensure_response_created_def fresh_def emit_eq session_part_def jget_def str_field_def
      intro!: exI [of _ "[ids_used a]"])

lemma draws_after_ensure:
  assumes "ensure_response_created uuid a = (evs, b)" and "created evs2 = []" and "ids_used b \<le> ids_used c"
  shows "draws uuid a (evs @ evs2, c)"
  using draws_ensure [of uuid a] draws_quiet [OF assms(2,3)] assms(1) by (auto intro: draws_trans)

lemma draws_audio_item:
  assumes "ensure_audio_item_added uuid a = (evs, b)"
  shows "draws uuid a (evs, b)"
proof -
  obtain e1 c where c: "ensure_response_created uuid a = (e1, c)" by fastforce
  from assms draws_after_ensure [OF c, of "[]" c] show ?thesis
    by (auto simp: ensure_audio_item_added_def c emit_eq split: if_splits intro!: draws_after_ensure [OF c])
qed

lemma ids_used_input_item: "ids_used a \<le> ids_used (ensure_input_item uuid a)"
  by (simp add: ensure_input_item_def fresh_def)

lemma draws_finish: "draws uuid a (finish_response uuid a)"
proof -
  obtain e1 c where c: "ensure_response_created uuid a = (e1, c)" by fastforce
  obtain e2 d where d: "close_audio_item uuid c = (e2, d)" by fastforce
  then have "created e2 = []" "ids_used c \<le> ids_used d"
    by (auto simp: close_audio_item_def emit_eq Let_def split: if_splits)
  then show ?thesis
    by (auto simp: finish_response_def c d emit_eq intro!: draws_after_ensure [OF c])
qed

lemma draws_tts_started: "draws uuid a (on_tts_started uuid p a)"
proof -
  obtain evs b where b: "ensure_audio_item_added uuid a = (evs, b)" by fastforce
  from draws_trans [OF draws_audio_item [OF b] draws_quiet] show ?thesis
    by (simp add: on_tts_started_def b emit_eq)
qed

lemma draws_tool_call: "draws uuid a (on_tool_call uuid rep dumps p a)"
proof -
  obtain e1 c where c: "ensure_response_created uuid a = (e1, c)" by fastforce
  from draws_after_ensure [OF c] show ?thesis by (simp add: on_tool_call_def c emit_eq fresh_def Let_def)
qed

lemma draws_input_handlers:
  "draws uuid a (on_vad_event uuid p a)" "draws uuid a (on_asr_endpoint uuid a)" "draws uuid a (on_asr_partial uuid p a)"
  "draws uuid a (on_asr_final uuid p a)" "draws uuid a (on_error uuid rep p a)" "draws uuid a (on_sentence_done uuid rep p a)"
  using ids_used_input_item [of a uuid]
  by (simp_all add: on_vad_event_def on_asr_endpoint_def on_asr_partial_def on_asr_final_def on_error_def
      on_sentence_done_def Let_def emit_eq fresh_def draws_quiet)

lemma draws_pass_through:
  assumes "\<And>t. type_of p = Some t \<Longrightarrow> \<not> canonical_type t"
  shows "draws uuid a (pass_through uuid p a)"
proof -
  have "type_of (setdefault p ''event_id'' v) = type_of p" for v
    by (simp add: type_of_def dget_setdefault)
  then have "marks_of (JObj (setdefault p ''event_id'' v)) = []" for v
    using assms by (auto simp: marks_of.simps canonical_type_def marks_for_other split: option.splits)
  then show ?thesis by (simp add: pass_through_def fresh_def draws_quiet)
qed

lemma step_draws:
  assumes "engine_op op"
  shows "draws uuid a (adapter_step uuid rep dumps op a)"
proof (cases op)
  case (Engine p)
  have n: "\<And>t. type_of p = Some t \<Longrightarrow> \<not> canonical_type t"
    using assms Engine by (auto simp: engine_op_def split: option.splits)
  have pass: "draws uuid a (pass_through uuid p a)" using n by (rule draws_pass_through)
  show ?thesis
    using n draws_input_handlers draws_tts_started draws_tool_call draws_finish pass
    by (simp add: Engine translate_def on_tts_done_def draws_quiet split: option.split)
qed (simp_all add: draws_quiet mark_cancelled_def mark_direct_speak_def)

lemma run_draws:
  "\<forall>op \<in> set ops. engine_op op \<Longrightarrow> draws uuid a (adapter_run uuid rep dumps ops a)"
proof (induction ops arbitrary: a)
  case Nil
  then show ?case by (simp add: draws_quiet)
next
  case (Cons op ops)
  obtain e1 a1 where e: "adapter_step uuid rep dumps op a = (e1, a1)" by fastforce
  obtain e2 a2 where e2: "adapter_run uuid rep dumps ops a1 = (e2, a2)" by fastforce
  have "draws uuid a (e1, a1)" using step_draws [of op uuid a rep dumps] Cons.prems e by simp
  moreover have "draws uuid a1 (e2, a2)" using Cons.IH [of a1] Cons.prems e2 by simp
  ultimately show ?case using e e2 by (auto intro: draws_trans)
qed

text \<open>No response id is ever created twice in a session, given that the id factory never repeats a
  value; with the lifecycle this makes \<open>response.done\<close> the single terminal event of its response.\<close>

theorem response_ids_unique:
  assumes "inj uuid" and "\<forall>op \<in> set ops. engine_op op"
  shows "distinct (created (fst (adapter_run uuid rep dumps ops a)))"
proof -
  obtain ns where ns: "sorted_wrt (<) (ns :: nat list)"
    "created (fst (adapter_run uuid rep dumps ops a)) = map (new_id uuid ''resp'') ns"
    using run_draws [OF assms(2), of uuid a rep dumps] by (auto simp: draws_def)
  have "inj (new_id uuid ''resp'')" using assms(1) by (auto simp: inj_def new_id_def)
  then show ?thesis using ns(1) unfolding ns(2)
    by (simp add: distinct_map strict_sorted_iff inj_on_def inj_def)
qed

theorem response_ids_unique_witness:
  "distinct (created (fst (adapter_run (\<lambda>n. replicate n CHR ''a'') (\<lambda>_. []) (\<lambda>_. []) demo_ops
     (new_adapter nat_str ''local'' ''m'' 16000 16000 None))))"
proof (rule response_ids_unique)
  show "inj (\<lambda>n. replicate n CHR ''a'')" by (rule injI) (simp add: replicate_eq_replicate)
  show "\<forall>op \<in> set demo_ops. engine_op op" by code_simp
qed

text \<open>A sentence that is reported done before any sentence has started belongs to no response: its delta
  names none and its text is missing from the transcript of the response that follows.\<close>

lemma early_sentence_is_lost:
  assumes "active_response_id a = None" and "\<not> audio_item_announced a"
  shows "marks (fst (adapter_run uuid rep dumps
       [Engine [(''type'', JStr ''tts_sentence_done''), (''sentence'', JStr s)],
        Engine [(''type'', JStr ''tts_started'')], Engine [(''type'', JStr ''tts_done'')]] a)) =
     [Delta None s, Created (new_id uuid ''resp'' (ids_used a + 2)),
      ItemAdded (Some (new_id uuid ''resp'' (ids_used a + 2))) (int (output_item_count a)),
      TranscriptDone (Some (new_id uuid ''resp'' (ids_used a + 2))) '''',
      Tagged (Some (new_id uuid ''resp'' (ids_used a + 2))), Finished (new_id uuid ''resp'' (ids_used a + 2))]"
  using assms
  by (simp add: translate_def type_of_def canonical_type_def SERVER_TTS_STARTED_def SERVER_TTS_SENTENCE_DONE_def
      SERVER_TTS_DONE_def on_sentence_done_def on_tts_started_def on_tts_done_def ensure_audio_item_added_def
      ensure_response_created_def finish_response_def close_audio_item_def emit_eq fresh_def Let_def
      session_part_def jget_def str_field_def)

end
