(* ===== verification/RealtimeProvider.thy ===== *)
theory RealtimeProvider
  imports RealtimeEvents "HOL-Library.Word"
begin

section \<open>Cloud providers of Realtime V2 and the relay\<close>

text \<open>
  \<^verbatim>\<open>server/core/realtime_provider.py\<close> and the pure steps of \<^verbatim>\<open>server/core/realtime_relay.py\<close>:
  the wire adapters of the two cloud providers, what the relay does with one message of either side,
  and the settings it connects with. PCM is a list of bytes. \<open>base64\<close> is the standard library's, its
  decoder the lenient one that \<open>b64decode\<close> uses by default. \<open>json.loads\<close>, \<open>urllib.parse.quote\<close> and
  the numeric resampling are parameters; connecting, sending and the two tasks are not modelled.
\<close>

subsection \<open>Base64\<close>

text \<open>The alphabet: \<open>A-Z\<close>, \<open>a-z\<close>, \<open>0-9\<close>, \<open>+\<close>, \<open>/\<close>.\<close>

definition b64_code :: "nat \<Rightarrow> nat" where
  "b64_code n = (if n < 26 then n + 65 else if n < 52 then n + 71 else if n < 62 then n - 4 else if n = 62 then 43 else 47)"

definition b64_char :: "nat \<Rightarrow> char" where
  "b64_char n = char_of (b64_code n)"

definition b64_value :: "char \<Rightarrow> nat option" where
  "b64_value c =
     (let n = of_char c :: nat
      in if 65 \<le> n \<and> n \<le> 90 then Some (n - 65)
         else if 97 \<le> n \<and> n \<le> 122 then Some (n - 71)
         else if 48 \<le> n \<and> n \<le> 57 then Some (n + 4)
         else if n = 43 then Some 62 else if n = 47 then Some 63 else None)"

fun b64encode :: "8 word list \<Rightarrow> string" where
  "b64encode [] = []"
| "b64encode [a] =
     [b64_char (unat a div 4), b64_char (unat a mod 4 * 16), CHR ''='', CHR ''='']"
| "b64encode [a, b] =
     [b64_char (unat a div 4), b64_char (unat a mod 4 * 16 + unat b div 16), b64_char (unat b mod 16 * 4), CHR ''='']"
| "b64encode (a # b # c # bs) =
     b64_char (unat a div 4) # b64_char (unat a mod 4 * 16 + unat b div 16)
     # b64_char (unat b mod 16 * 4 + unat c div 64) # b64_char (unat c mod 64) # b64encode bs"

text \<open>\<open>q\<close> is the position in the group of four, \<open>l\<close> the bits left over, \<open>p\<close> the padding seen in a row.
  \<^const>\<open>None\<close> is \<open>binascii.Error\<close>.\<close>

definition byte_of :: "nat \<Rightarrow> 8 word" where
  "byte_of n = word_of_nat n"

fun a2b :: "string \<Rightarrow> nat \<Rightarrow> nat \<Rightarrow> nat \<Rightarrow> 8 word list option" where
  "a2b [] q l p = (if q \<noteq> 0 then None else Some [])"
| "a2b (c # cs) q l p =
     (if c = CHR ''='' then
        (if 2 \<le> q then (if 4 \<le> q + Suc p then Some [] else a2b cs q l (Suc p)) else a2b cs q l p)
      else case b64_value c of
             None \<Rightarrow> a2b cs q l p
           | Some v \<Rightarrow>
               if q = 0 then a2b cs 1 v 0
               else if q = 1 then map_option ((#) (byte_of (l * 4 + v div 16))) (a2b cs 2 (v mod 16) 0)
               else if q = 2 then map_option ((#) (byte_of (l * 16 + v div 4))) (a2b cs 3 (v mod 4) 0)
               else map_option ((#) (byte_of (l * 64 + v))) (a2b cs 0 0 0))"

definition b64decode :: "string \<Rightarrow> (py_error, 8 word list) res" where
  "b64decode s =
     (if list_ex (\<lambda>c. 128 \<le> (of_char c :: nat)) s then Inl ValueErr
      else case a2b s 0 0 0 of None \<Rightarrow> Inl ValueErr | Some bs \<Rightarrow> Inr bs)"









subsection \<open>The two adapters\<close>

datatype provider = OpenAI | Qwen

record provider_output =
  po_events :: "json list"
  po_audio :: "8 word list list"

definition create_provider_adapter :: "string \<Rightarrow> (py_error, provider) res" where
  "create_provider_adapter nm =
     (let normalized = str_lower (str_strip nm)
      in if normalized = ''openai'' then Inr OpenAI
         else if normalized = ''qwen'' then Inr Qwen else Inl ValueErr)"

fun input_rate :: "provider \<Rightarrow> int" where
  "input_rate OpenAI = 24000"
| "input_rate Qwen = 16000"

fun output_rate :: "provider \<Rightarrow> int" where
  "output_rate _ = 24000"

fun provider_capabilities :: "provider \<Rightarrow> (string \<times> bool) list" where
  "provider_capabilities OpenAI = [(''function_calling'', True), (''conversation_truncate'', True),
     (''conversation_reset'', False), (''direct_speak'', False), (''input_transcription'', True)]"
| "provider_capabilities Qwen = [(''function_calling'', True), (''conversation_truncate'', False),
     (''conversation_reset'', False), (''direct_speak'', False), (''input_transcription'', True)]"

text \<open>\<open>_provider_tools\<close>: a truthy value that is not iterable raises; the items of a text or of the keys
  of an object are no objects and are skipped.\<close>

fun strip_policy :: "json list \<Rightarrow> json list" where
  "strip_policy [] = []"
| "strip_policy (JObj d # xs) = JObj (dpop d ''x_v2v'') # strip_policy xs"
| "strip_policy (_ # xs) = strip_policy xs"

definition provider_tools :: "json \<Rightarrow> (py_error, json list) res" where
  "provider_tools tools =
     (if \<not> jtruthy tools then Inr []
      else case tools of JList xs \<Rightarrow> Inr (strip_policy xs) | JObj d \<Rightarrow> Inr [] | JStr s \<Rightarrow> Inr [] | _ \<Rightarrow> Inl TypeErr)"

definition allowed_turn_fields :: "string set" where
  "allowed_turn_fields = {''type'', ''threshold'', ''prefix_padding_ms'', ''silence_duration_ms'',
     ''create_response'', ''interrupt_response'', ''eagerness''}"

definition provider_turn_detection :: "json \<Rightarrow> json" where
  "provider_turn_detection turn =
     (case turn of
        JObj d \<Rightarrow> if disabled_turn (jget d ''type'' JNull) then JNull
                  else JObj (filter (\<lambda>(k, v). k \<in> allowed_turn_fields) d)
      | _ \<Rightarrow> JNull)"

function without_none :: "json \<Rightarrow> json" and without_none_items :: "jdict \<Rightarrow> jdict"
  and without_none_list :: "json list \<Rightarrow> json list" where
  "without_none (JObj d) = JObj (without_none_items d)"
| "without_none (JList xs) = JList (without_none_list xs)"
| "without_none JNull = JNull"
| "without_none (JBool b) = JBool b"
| "without_none (JInt n) = JInt n"
| "without_none (JFloat x) = JFloat x"
| "without_none (JStr s) = JStr s"
| "without_none_items [] = []"
| "without_none_items ((k, v) # d) =
     (if v = JNull then without_none_items d else (k, without_none v) # without_none_items d)"
| "without_none_list [] = []"
| "without_none_list (v # vs) = without_none v # without_none_list vs"
  by pat_completeness auto
termination
  by (relation "measure (\<lambda>x. case x of Inl v \<Rightarrow> size v
        | Inr (Inl d) \<Rightarrow> size_list (size_prod (\<lambda>_. 0) size) d | Inr (Inr xs) \<Rightarrow> size_list size xs)") auto

definition copy_fields :: "string list \<Rightarrow> jdict \<Rightarrow> jdict" where
  "copy_fields ks d = concat (map (\<lambda>k. case dget d k of Some v \<Rightarrow> [(k, v)] | None \<Rightarrow> []) ks)"

definition has_key :: "jdict \<Rightarrow> string \<Rightarrow> bool" where
  "has_key d k \<longleftrightarrow> dget d k \<noteq> None"

definition add_tools :: "jdict \<Rightarrow> jdict \<Rightarrow> (py_error, jdict) res" where
  "add_tools canonical session =
     (if has_key canonical ''tools''
      then bind_res (provider_tools (jget canonical ''tools'' JNull)) (\<lambda>ts. Inr (session @ [(''tools'', JList ts)]))
      else Inr session)"

definition openai_session :: "jdict \<Rightarrow> jdict" where
  "openai_session canonical =
     (let turn = provider_turn_detection (jget (audio_in canonical) ''turn_detection'' JNull);
          base = copy_fields [''type'', ''model'', ''output_modalities'', ''instructions''] canonical;
          typed = (if has_key base ''type'' then base else base @ [(''type'', JStr ''realtime'')]);
          transcription = session_part (audio_in canonical) ''transcription''
      in if has_key canonical ''audio'' then
           typed @ [(''audio'', JObj [
             (''input'', JObj ([(''format'', JObj [(''type'', JStr ''audio/pcm''), (''rate'', JInt (input_rate OpenAI))]),
                               (''turn_detection'', turn)]
                               @ (if transcription \<noteq> [] then [(''transcription'', JObj transcription)] else []))),
             (''output'', JObj [(''format'', JObj [(''type'', JStr ''audio/pcm'')]),
                                (''voice'', jget (audio_out canonical) ''voice'' JNull)])])]
         else typed)"

definition qwen_session :: "jdict \<Rightarrow> jdict" where
  "qwen_session canonical =
     (if has_key canonical ''output_modalities'' \<or> has_key canonical ''modalities''
      then [(''modalities'', JList [JStr ''text'', JStr ''audio''])] else [])
     @ (if has_key canonical ''instructions'' then [(''instructions'', jget canonical ''instructions'' JNull)] else [])
     @ (if has_key canonical ''audio'' then
          [(''voice'', jget (audio_out canonical) ''voice'' JNull), (''input_audio_format'', JStr ''pcm''),
           (''output_audio_format'', JStr ''pcm''),
           (''turn_detection'', provider_turn_detection (jget (audio_in canonical) ''turn_detection'' JNull)),
           (''input_audio_transcription'', jget (audio_in canonical) ''transcription'' JNull)]
        else [])"

definition provider_session_update :: "provider \<Rightarrow> jdict \<Rightarrow> (py_error, json) res" where
  "provider_session_update prov canonical =
     bind_res (add_tools canonical (case prov of OpenAI \<Rightarrow> openai_session canonical | Qwen \<Rightarrow> qwen_session canonical))
       (\<lambda>session. Inr (JObj [(''type'', JStr ''session.update''), (''session'', without_none (JObj session))]))"

definition audio_append :: "8 word list \<Rightarrow> json" where
  "audio_append pcm = JObj [(''type'', JStr ''input_audio_buffer.append''), (''audio'', JStr (b64encode pcm))]"

fun forwarded_types :: "provider \<Rightarrow> string list" where
  "forwarded_types OpenAI = [''input_audio_buffer.commit'', ''input_audio_buffer.clear'', ''response.create'',
     ''response.cancel'', ''conversation.item.create'', ''conversation.item.truncate'']"
| "forwarded_types Qwen = [''input_audio_buffer.commit'', ''input_audio_buffer.clear'', ''response.create'',
     ''response.cancel'', ''conversation.item.create'']"

text \<open>Membership of a decoded value in a set of texts; lists and objects cannot be hashed.\<close>

definition in_types :: "json \<Rightarrow> string list \<Rightarrow> (py_error, bool) res" where
  "in_types v ts = (case v of JList _ \<Rightarrow> Inl TypeErr | JObj _ \<Rightarrow> Inl TypeErr | JStr t \<Rightarrow> Inr (t \<in> set ts) | _ \<Rightarrow> Inr False)"

definition client_event :: "provider \<Rightarrow> jdict \<Rightarrow> (py_error, jdict option) res" where
  "client_event prov ev =
     bind_res (in_types (jget ev ''type'' JNull) (forwarded_types prov)) (\<lambda>b. Inr (if b then Some ev else None))"

fun audio_delta_type :: "provider \<Rightarrow> string" where
  "audio_delta_type OpenAI = ''response.output_audio.delta''"
| "audio_delta_type Qwen = ''response.audio.delta''"

definition qwen_names :: "(string \<times> string) list" where
  "qwen_names = [(''response.audio.done'', ''response.output_audio.done''),
     (''response.audio_transcript.delta'', ''response.output_audio_transcript.delta''),
     (''response.audio_transcript.done'', ''response.output_audio_transcript.done''),
     (''conversation.item.created'', ''conversation.item.added'')]"

definition delta_audio :: "jdict \<Rightarrow> (py_error, 8 word list) res" where
  "delta_audio ev =
     (let v = jget ev ''delta'' JNull
      in if \<not> jtruthy v then Inr [] else case v of JStr s \<Rightarrow> b64decode s | _ \<Rightarrow> Inl TypeErr)"

definition provider_event :: "provider \<Rightarrow> jdict \<Rightarrow> (py_error, provider_output) res" where
  "provider_event prov ev =
     (if jget ev ''type'' JNull = JStr (audio_delta_type prov)
      then bind_res (delta_audio ev) (\<lambda>pcm. Inr \<lparr>po_events = [], po_audio = [pcm]\<rparr>)
      else case prov of
             OpenAI \<Rightarrow> Inr \<lparr>po_events = [JObj ev], po_audio = []\<rparr>
           | Qwen \<Rightarrow>
               bind_res (in_types (jget ev ''type'' JNull) (map fst qwen_names)) (\<lambda>b.
                 Inr \<lparr>po_events = [JObj (if b then (case jget ev ''type'' JNull of
                                             JStr t \<Rightarrow> dset ev ''type'' (JStr (the (dget qwen_names t))) | _ \<Rightarrow> ev)
                                           else ev)], po_audio = []\<rparr>))"

subsection \<open>The relay\<close>

definition environ_or :: "(string \<rightharpoonup> string) \<Rightarrow> string \<Rightarrow> string \<Rightarrow> string" where
  "environ_or e k dflt = (case e k of Some v \<Rightarrow> v | None \<Rightarrow> dflt)"

text \<open>The URL, the bearer key and the model; \<open>quote\<close> is \<open>urllib.parse.quote\<close>.\<close>

definition provider_settings ::
  "(string \<Rightarrow> string) \<Rightarrow> (string \<rightharpoonup> string) \<Rightarrow> string \<Rightarrow> (py_error, string \<times> string \<times> string) res" where
  "provider_settings quote e nm =
     (if nm = ''openai'' then
        (if env_get e ''OPENAI_API_KEY'' = '''' then Inl ValueErr
         else let model = environ_or e ''OVS_REALTIME_OPENAI_MODEL'' ''gpt-realtime-2.1''
              in Inr (environ_or e ''OVS_REALTIME_OPENAI_URL''
                        (''wss://api.openai.com/v1/realtime?model='' @ quote model),
                      env_get e ''OPENAI_API_KEY'', model))
      else if nm = ''qwen'' then
        (if env_get e ''DASHSCOPE_API_KEY'' = '''' then Inl ValueErr
         else let model = environ_or e ''OVS_REALTIME_QWEN_MODEL'' ''qwen-audio-3.0-realtime-flash'';
                  url = env_get e ''OVS_REALTIME_QWEN_URL''
              in if url = '''' then Inl ValueErr
                 else Inr (if contains_str ''model='' url then url
                           else url @ (if contains_str ''?'' url then ''&'' else ''?'') @ ''model='' @ quote model,
                           env_get e ''DASHSCOPE_API_KEY'', model))
      else Inl ValueErr)"

text \<open>One message of the client, by what \<open>downstream.receive\<close> delivers; \<open>text\<close> is decoded by \<open>loads\<close>,
  \<^const>\<open>None\<close> where it raises.\<close>

datatype ws_message = WsDisconnect | WsBytes "8 word list" | WsText string | WsOther

record relay_out =
  to_provider :: "json list"
  to_client :: "json list"
  relay_error :: "py_error option"
  relay_stop :: bool
  relay_adapter :: adapter

definition relay_done :: "json list \<Rightarrow> json list \<Rightarrow> adapter \<Rightarrow> relay_out" where
  "relay_done up down a =
     \<lparr>to_provider = up, to_client = down, relay_error = None, relay_stop = False, relay_adapter = a\<rparr>"

definition relay_fail :: "py_error \<Rightarrow> json list \<Rightarrow> adapter \<Rightarrow> relay_out" where
  "relay_fail err up a =
     \<lparr>to_provider = up, to_client = [], relay_error = Some err, relay_stop = True, relay_adapter = a\<rparr>"

definition unsupported_event :: "(json \<Rightarrow> string) \<Rightarrow> provider \<Rightarrow> jdict \<Rightarrow> jdict" where
  "unsupported_event rep prov ev =
     [(''type'', JStr ''error''), (''code'', JStr ''unsupported_provider_event''),
      (''error'', JStr (jstr rep (jget ev ''type'' JNull) @ '' is not supported by the ''
         @ (case prov of OpenAI \<Rightarrow> ''openai'' | Qwen \<Rightarrow> ''qwen'') @ '' adapter'')),
      (''param'', JStr ''type'')]"

definition response_create :: json where
  "response_create = JObj [(''type'', JStr ''response.create'')]"

text \<open>Whether an item is a tool result, for which the relay asks for a response.\<close>

definition is_tool_result :: "jdict \<Rightarrow> (py_error, bool) res" where
  "is_tool_result ev =
     (if jget ev ''type'' JNull \<noteq> JStr ''conversation.item.create'' then Inr False
      else bind_res (let v = jget ev ''item'' JNull in if \<not> jtruthy v then Inr [] else
                       case v of JObj d \<Rightarrow> Inr d | _ \<Rightarrow> Inl AttributeErr)
             (\<lambda>item. Inr (jget item ''type'' JNull = JStr ''function_call_output'')))"

definition relay_client_event ::
  "(nat \<Rightarrow> string) \<Rightarrow> (json \<Rightarrow> string) \<Rightarrow> provider \<Rightarrow> jdict \<Rightarrow> adapter \<Rightarrow> relay_out" where
  "relay_client_event uuid rep prov ev a =
     (if jget ev ''type'' JNull = JStr ''session.update'' then
        (case (let v = jget ev ''session'' JNull in if \<not> jtruthy v then Inr [] else
                 case v of JObj d \<Rightarrow> Inr d | _ \<Rightarrow> Inl AttributeErr) of
           Inl err \<Rightarrow> relay_fail err [] a
         | Inr session \<Rightarrow>
             (case provider_session_update prov session of
                Inl err \<Rightarrow> relay_fail err [] a | Inr u \<Rightarrow> relay_done [u] [] a))
      else case client_event prov ev of
             Inl err \<Rightarrow> relay_fail err [] a
           | Inr None \<Rightarrow>
               (case on_error uuid rep (unsupported_event rep prov ev) a of (evs, a1) \<Rightarrow> relay_done [] evs a1)
           | Inr (Some mapped) \<Rightarrow>
               (case is_tool_result mapped of
                  Inl err \<Rightarrow> relay_fail err [JObj mapped] a
                | Inr b \<Rightarrow> relay_done (if b then [JObj mapped, response_create] else [JObj mapped]) [] a))"

definition relay_client ::
  "(nat \<Rightarrow> string) \<Rightarrow> (json \<Rightarrow> string) \<Rightarrow> (8 word list \<Rightarrow> 8 word list) \<Rightarrow> (string \<Rightarrow> json option) \<Rightarrow> provider \<Rightarrow>
   ws_message \<Rightarrow> adapter \<Rightarrow> relay_out" where
  "relay_client uuid rep resample loads prov msg a =
     (case msg of
        WsDisconnect \<Rightarrow> (relay_done [] [] a)\<lparr>relay_stop := True\<rparr>
      | WsBytes pcm \<Rightarrow> relay_done [audio_append (resample pcm)] [] a
      | WsOther \<Rightarrow> relay_done [] [] a
      | WsText t \<Rightarrow>
          if t = '''' then relay_done [] [] a
          else case loads t of
                 None \<Rightarrow> relay_fail ValueErr [] a
               | Some (JObj ev) \<Rightarrow> relay_client_event uuid rep prov ev a
               | Some _ \<Rightarrow> relay_fail AttributeErr [] a)"

text \<open>One message of the provider: what goes to the client, audio first.\<close>

definition relay_provider_event :: "provider \<Rightarrow> jdict \<Rightarrow> (py_error, provider_output) res" where
  "relay_provider_event prov ev =
     bind_res (in_types (jget ev ''type'' JNull) [''session.created'', ''session.updated'']) (\<lambda>b.
       if b then Inr \<lparr>po_events = [], po_audio = []\<rparr> else provider_event prov ev)"

subsection \<open>What reaches whom\<close>


text \<open>A value under a key of an object, at any depth.\<close>

inductive has_field :: "json \<Rightarrow> string \<Rightarrow> json \<Rightarrow> bool" where
  here: "(k, v) \<in> set d \<Longrightarrow> has_field (JObj d) k v"
| in_obj: "(k', w) \<in> set d \<Longrightarrow> has_field w k v \<Longrightarrow> has_field (JObj d) k v"
| in_list: "w \<in> set xs \<Longrightarrow> has_field w k v \<Longrightarrow> has_field (JList xs) k v"

inductive_cases has_field_ObjE: "has_field (JObj d) k v"
inductive_cases has_field_ListE: "has_field (JList xs) k v"
inductive_simps has_field_atoms [simp]:
  "has_field JNull k v" "has_field (JBool b) k v" "has_field (JInt n) k v" "has_field (JFloat x) k v" "has_field (JStr s) k v"

lemma has_field_Obj:
  "has_field (JObj d) k v \<longleftrightarrow> (k, v) \<in> set d \<or> (\<exists>k' w. (k', w) \<in> set d \<and> has_field w k v)"
  by (auto elim: has_field_ObjE intro: has_field.intros)

lemma has_field_List: "has_field (JList xs) k v \<longleftrightarrow> (\<exists>w \<in> set xs. has_field w k v)"
  by (auto elim: has_field_ListE intro: has_field.intros)

lemma without_none_eq_null: "without_none v = JNull \<longleftrightarrow> v = JNull" "JNull = without_none v \<longleftrightarrow> v = JNull"
  by (cases v; auto)+

lemma without_none_clean:
  "\<not> has_field (without_none v) k JNull"
  "\<not> has_field (JObj (without_none_items d)) k JNull"
  "\<not> has_field (JList (without_none_list xs)) k JNull"
proof (induction v and d and xs rule: without_none_without_none_items_without_none_list.induct)
  case (9 k' v d)
  then show ?case by (auto simp: has_field_Obj without_none_eq_null)
qed (auto simp: has_field_Obj has_field_List)

lemma without_none_idem:
  "without_none (without_none v) = without_none v"
  "without_none_items (without_none_items d) = without_none_items d"
  "without_none_list (without_none_list xs) = without_none_list xs"
  by (induction v and d and xs rule: without_none_without_none_items_without_none_list.induct)
    (auto simp: without_none_eq_null)

lemma without_none_items_keys: "set (keys (without_none_items d)) \<subseteq> set (keys d)"
  by (induction d) (auto split: if_splits)

lemma without_none_items_append: "without_none_items (d @ e) = without_none_items d @ without_none_items e"
  by (induction d) auto

lemma strip_policy_items:
  "t \<in> set (strip_policy xs) \<Longrightarrow> \<exists>d. t = JObj (dpop d ''x_v2v'')"
  by (induction xs rule: strip_policy.induct) auto

lemma without_none_list_map: "without_none_list xs = map without_none xs"
  by (induction xs) auto

definition sent_tools :: "json \<Rightarrow> json list" where
  "sent_tools u = (case jget (session_part (as_dict u) ''session'') ''tools'' JNull of JList ts \<Rightarrow> ts | _ \<Rightarrow> [])"

lemma copy_fields_keys: "set (keys (copy_fields ks d)) \<subseteq> set ks"
  by (induction ks) (auto simp: copy_fields_def split: option.splits)

lemma session_no_tools:
  "''tools'' \<notin> set (keys (openai_session canonical))" "''tools'' \<notin> set (keys (qwen_session canonical))"
  using copy_fields_keys [of "[''type'', ''model'', ''output_modalities'', ''instructions'']" canonical]
  by (auto simp: openai_session_def qwen_session_def Let_def)

text \<open>What is sent to a provider as its session is clean. No field is null, at any depth, and no tool
  carries the execution policy under \<open>x_v2v\<close>, whatever the client put into its session.\<close>

theorem provider_session_clean:
  assumes "provider_session_update prov canonical = Inr u"
  shows "\<not> has_field u k JNull \<and>
    (\<forall>t \<in> set (sent_tools u). \<exists>d. t = JObj d \<and> \<not> has_key d ''x_v2v'')"
proof -
  define base where "base = (case prov of OpenAI \<Rightarrow> openai_session canonical | Qwen \<Rightarrow> qwen_session canonical)"
  have nt: "''tools'' \<notin> set (keys base)" using session_no_tools by (simp add: base_def split: provider.split)
  obtain session where s: "add_tools canonical base = Inr session"
    and u: "u = JObj [(''type'', JStr ''session.update''), (''session'', without_none (JObj session))]"
    using assms by (auto simp: provider_session_update_def bind_res_eq_Inr base_def)
  have "\<not> has_field u k JNull" using without_none_clean(2) [of session k]
    unfolding u by (subst has_field_Obj) auto
  moreover have "\<exists>d. t = JObj d \<and> \<not> has_key d ''x_v2v''" if t: "t \<in> set (sent_tools u)" for t
  proof -
    have tools: "sent_tools u = (case jget (without_none_items session) ''tools'' JNull of JList ts \<Rightarrow> ts | _ \<Rightarrow> [])"
      by (simp add: sent_tools_def u session_part_def jget_def)
    have n: "dget (without_none_items base) ''tools'' = None"
      using nt without_none_items_keys [of base] by (auto simp: dget_None_iff)
    obtain ts where ts: "provider_tools (jget canonical ''tools'' JNull) = Inr ts" "session = base @ [(''tools'', JList ts)]"
      using s t n by (auto simp: add_tools_def bind_res_eq_Inr tools jget_def split: if_splits)
    have "sent_tools u = map without_none ts"
      by (simp add: tools ts(2) without_none_items_append jget_def dget_append n without_none_list_map)
    with t obtain x where x: "x \<in> set ts" "t = without_none x" by auto
    have "\<exists>d. x = JObj (dpop d ''x_v2v'')"
      using ts(1) x(1) strip_policy_items by (auto simp: provider_tools_def split: if_splits json.splits)
    then obtain d where d: "x = JObj (dpop d ''x_v2v'')" by blast
    have "''x_v2v'' \<notin> set (keys (without_none_items (dpop d ''x_v2v'')))"
      using without_none_items_keys [of "dpop d ''x_v2v''"] by (auto simp: keys_dpop)
    then show ?thesis by (simp add: x(2) d has_key_def dget_None_iff)
  qed
  ultimately show ?thesis by blast
qed

theorem provider_session_clean_witness:
  "\<exists>u. provider_session_update OpenAI [(''instructions'', JNull), (''tools'', JList [JObj [(''name'', JStr ''f''),
     (''x_v2v'', JObj [])]])] = Inr u \<and> \<not> has_field u ''instructions'' JNull"
proof -
  let ?c = "[(''instructions'', JNull), (''tools'', JList [JObj [(''name'', JStr ''f''), (''x_v2v'', JObj [])]])]"
  have "is_ok (provider_session_update OpenAI ?c)" by code_simp
  then obtain u where "provider_session_update OpenAI ?c = Inr u" by (cases "provider_session_update OpenAI ?c") auto
  with provider_session_clean [OF this, of "''instructions''"] show ?thesis by blast
qed

text \<open>The relay forwards exactly what the provider supports. An event other than a session update goes to
  the provider unchanged if its type is supported, followed by one request for a response if it is a
  tool result; otherwise nothing goes to the provider and the client gets one error.\<close>

theorem relay_forwards_supported_only:
  assumes "jget ev ''type'' JNull = JStr t" and "t \<noteq> ''session.update''"
    and "relay_error (relay_client_event uuid rep prov ev a) = None"
  shows "if t \<in> set (forwarded_types prov)
     then to_client (relay_client_event uuid rep prov ev a) = [] \<and>
          to_provider (relay_client_event uuid rep prov ev a) =
            JObj ev # (if is_tool_result ev = Inr True then [response_create] else [])
     else to_provider (relay_client_event uuid rep prov ev a) = [] \<and>
          length (to_client (relay_client_event uuid rep prov ev a)) = 1"
proof (cases "t \<in> set (forwarded_types prov)")
  case True
  with assms show ?thesis
    by (cases "is_tool_result ev")
      (auto simp: relay_client_event_def client_event_def in_types_def relay_fail_def relay_done_def)
next
  case False
  with assms show ?thesis
    by (simp add: relay_client_event_def client_event_def in_types_def relay_done_def on_error_def Let_def emit_eq)
qed

theorem relay_forwards_supported_only_witness:
  "to_provider (relay_client_event nat_str (\<lambda>_. []) Qwen [(''type'', JStr ''conversation.item.truncate'')]
     (new_adapter nat_str ''qwen'' ''m'' 16000 24000 None)) = []"
proof -
  let ?r = "relay_client_event nat_str (\<lambda>_. []) Qwen [(''type'', JStr ''conversation.item.truncate'')]
     (new_adapter nat_str ''qwen'' ''m'' 16000 24000 None)"
  have "jget [(''type'', JStr ''conversation.item.truncate'')] ''type'' JNull = JStr ''conversation.item.truncate''"
    by code_simp
  moreover have "''conversation.item.truncate'' \<noteq> ''session.update''" by code_simp
  moreover have "relay_error ?r = None" by code_simp
  ultimately have "if ''conversation.item.truncate'' \<in> set (forwarded_types Qwen)
     then to_client ?r = [] \<and> to_provider ?r = JObj [(''type'', JStr ''conversation.item.truncate'')] #
            (if is_tool_result [(''type'', JStr ''conversation.item.truncate'')] = Inr True then [response_create] else [])
     else to_provider ?r = [] \<and> length (to_client ?r) = 1"
    by (rule relay_forwards_supported_only)
  moreover have "''conversation.item.truncate'' \<notin> set (forwarded_types Qwen)" by code_simp
  ultimately show ?thesis by (simp only: if_False simp_thms)
qed

text \<open>A disabled turn detector becomes null and is then dropped with the nulls: the provider is not told.\<close>

lemma disabled_turn_not_sent:
  assumes "disabled_turn (jget d ''type'' JNull)"
  shows "provider_turn_detection (JObj d) = JNull"
    and "\<not> has_field (without_none (JObj [(''turn_detection'', provider_turn_detection (JObj d))])) ''turn_detection'' v"
  using assms by (simp_all add: provider_turn_detection_def has_field_Obj)

text \<open>The capability a provider announces for truncation is whether it is forwarded.\<close>

lemma truncate_capability:
  "dget (provider_capabilities prov) ''conversation_truncate'' =
     Some (''conversation.item.truncate'' \<in> set (forwarded_types prov))"
proof (cases prov)
  case OpenAI
  show ?thesis unfolding OpenAI by code_simp
next
  case Qwen
  show ?thesis unfolding Qwen by code_simp
qed

end
