(* ===== verification/LeafComposition.thy ===== *)
theory LeafComposition
  imports Json ProfileLoader "HOL-Library.List_Lexorder" "HOL-Library.Char_ord" "HOL-Library.Sublist"
begin

section \<open>Leaves and compositions\<close>

text \<open>
  \<^verbatim>\<open>server/core/leaf_composition.py\<close>, the registry of provisioning units and its resolvers, and
  \<^verbatim>\<open>server/core/composition_boot.py\<close>, which applies a profile's \<open>composition\<close> block to the process
  environment at start. The files of \<open>configs/leaves\<close> are given by name with the value \<open>yaml.safe_load\<close>
  returns; the keys of a mapping are text. \<open>rep\<close> is \<open>str\<close> of floats and containers. The fraction of
  memory that may be used is a rational. Messages of exceptions are reduced to their parameters; the
  interpreter's limit on nested calls is not modelled.
\<close>

subsection \<open>Data\<close>

datatype comp_error =
  UnknownDevice string
| UnknownLeaf string
| IllegalPairing string string string
| IncompatibleFamilies "(string \<times> string) list"
| ExclusiveConflict string "string list"
| OverBudget int int
| NotAMapping
| MissingDevice
| NoLeaves
| BadOverrides
| RegistryError
| PyError py_error

record artifacts =
  art_repo :: string
  art_files :: "string list"
  art_revision :: string
  art_canonical_model_id :: string
  art_root :: string
  art_manifest :: string
  art_cache_root :: string

definition no_artifacts :: artifacts where
  "no_artifacts = \<lparr>art_repo = '''', art_files = [], art_revision = ''main'', art_canonical_model_id = '''',
     art_root = '''', art_manifest = '''', art_cache_root = ''''\<rparr>"

record leaf =
  leaf_id :: string
  capability :: string
  backend :: string
  leaf_device :: string
  concurrency :: int
  leaf_model :: string
  precision :: "string option"
  leaf_artifacts :: artifacts
  requires :: "string list"
  runtime_env :: "(string \<times> string) list"
  resources :: jdict

record device_spec =
  dev_id :: string
  unified_mb :: int
  base_reservation_mb :: int
  dev_default :: "(string \<times> string) list"
  dev_class :: string

record model_spec =
  model_id :: string
  default_precision :: "(string \<times> string) list"
  model_label :: "string option"
  aliases :: "string list"
  speakers :: "jdict list"
  metadata :: jdict

record model_source =
  src_model_id :: string
  src_repo :: string
  src_revision :: string
  src_canonical_model_id :: string
  src_root :: string
  src_manifest :: string
  src_cache_root :: string
  src_files :: "string list"

record resolved_leaf =
  rl_leaf :: leaf
  rl_precision :: "string option"

record plan =
  plan_device :: string
  plan_leaf_ids :: "string list"
  plan_resolved :: "resolved_leaf list"
  plan_peak :: int
  plan_headroom :: int

record registry =
  leaves :: "(string \<times> leaf) list"
  devices :: "(string \<times> device_spec) list"
  models :: "(string \<times> model_spec) list"
  headroom_fraction :: rat

definition DEFAULT_HEADROOM_FRACTION :: rat where
  "DEFAULT_HEADROOM_FRACTION = 85 / 100"

definition new_registry :: registry where
  "new_registry = \<lparr>leaves = [], devices = [], models = [], headroom_fraction = DEFAULT_HEADROOM_FRACTION\<rparr>"

definition peak_unified_mb :: "leaf \<Rightarrow> int" where
  "peak_unified_mb l = (case jint (jget (resources l) ''peak_unified_mb'' (JInt 0)) of Inr n \<Rightarrow> n | Inl _ \<Rightarrow> 0)"

text \<open>\<open>ModelArtifactSource.canonical_id\<close>, on ASCII text.\<close>

definition is_alnum :: "char \<Rightarrow> bool" where
  "is_alnum c = (is_digit_char c \<or> (65 \<le> (of_char c :: nat) \<and> (of_char c :: nat) \<le> 90)
     \<or> (97 \<le> (of_char c :: nat) \<and> (of_char c :: nat) \<le> 122))"

definition strip_chars :: "char set \<Rightarrow> string \<Rightarrow> string" where
  "strip_chars cs s = rev (dropWhile (\<lambda>c. c \<in> cs) (rev (dropWhile (\<lambda>c. c \<in> cs) s)))"

definition canonical_id :: "model_source \<Rightarrow> string" where
  "canonical_id src =
     (let value = concat (map (\<lambda>c. if c = CHR ''/'' then ''--'' else [c])
            (str_strip (if src_canonical_model_id src \<noteq> '''' then src_canonical_model_id src else src_model_id src)));
          out = map (\<lambda>c. if is_alnum c \<or> c \<in> {CHR ''.'', CHR ''_'', CHR ''-''} then c else CHR ''-'') value;
          stripped = strip_chars {CHR ''.'', CHR ''-''} out
      in if stripped \<noteq> '''' then stripped else ''model'')"

subsection \<open>The registry\<close>

definition device_class :: "registry \<Rightarrow> string \<Rightarrow> string" where
  "device_class reg device =
     (case dget (devices reg) device of
        Some spec \<Rightarrow> if dev_class spec \<noteq> '''' then dev_class spec
                     else if starts_with ''orin'' device then ''jetson'' else device
      | None \<Rightarrow> if starts_with ''orin'' device then ''jetson'' else device)"

definition resolve_precision :: "registry \<Rightarrow> leaf \<Rightarrow> string \<Rightarrow> string option" where
  "resolve_precision reg l device =
     (if precision l \<noteq> None then precision l
      else case dget (models reg) (leaf_model l) of
             None \<Rightarrow> None | Some spec \<Rightarrow> dget (default_precision spec) (device_class reg device))"

definition get_leaf :: "registry \<Rightarrow> string \<Rightarrow> (comp_error, leaf) res" where
  "get_leaf reg lid = (case dget (leaves reg) lid of None \<Rightarrow> Inl (UnknownLeaf lid) | Some l \<Rightarrow> Inr l)"

text \<open>The ids of the registry not yet marked.\<close>

definition unseen :: "registry \<Rightarrow> leaf list \<times> string set \<Rightarrow> nat" where
  "unseen reg st = card (set (keys (leaves reg)) - snd st)"

lemma unseen_insert:
  assumes "get_leaf reg lid = Inr l" and "lid \<notin> snd st"
  shows "unseen reg (ls, insert lid (snd st)) < unseen reg st"
proof -
  have "lid \<in> set (keys (leaves reg))"
    using assms(1) dget_None_iff [of "leaves reg" lid] by (auto simp: get_leaf_def split: option.splits)
  with assms(2) have "set (keys (leaves reg)) - insert lid (snd st) \<subset> set (keys (leaves reg)) - snd st" by blast
  then show ?thesis unfolding unseen_def snd_conv by (intro psubset_card_mono) simp_all
qed

lemma unseen_mono: "snd st \<subseteq> snd st' \<Longrightarrow> unseen reg st' \<le> unseen reg st"
  unfolding unseen_def by (auto intro: card_mono)

text \<open>\<open>expand\<close>: \<open>_visit\<close> for each id of a list, threading \<open>ordered\<close> and \<open>seen\<close>. The recursion is nested;
  it ends because every call that goes down marks an id of the registry that was not marked before.\<close>

function visit_all ::
  "registry \<Rightarrow> string list \<Rightarrow> leaf list \<times> string set \<Rightarrow> (comp_error, leaf list \<times> string set) res" where
  "visit_all reg [] st = Inr st"
| "visit_all reg (lid # lids) st =
     (case (if lid \<in> snd st then Inr st
            else case get_leaf reg lid of
                   Inl err \<Rightarrow> Inl err
                 | Inr l \<Rightarrow> visit_all reg (requires l) (fst st @ [l], insert lid (snd st))) of
        Inl err \<Rightarrow> Inl err
      | Inr st' \<Rightarrow> visit_all reg lids st')"
  by pat_completeness auto
termination
proof -
  have marks: "snd st \<subseteq> snd st'" if "visit_all_dom (reg, lids, st)" and "visit_all reg lids st = Inr st'"
    for reg lids st st'
    using that
  proof (induction reg lids st arbitrary: st' rule: visit_all.pinduct)
    case (1 reg st)
    then show ?case by (simp add: visit_all.psimps)
  next
    case (2 reg lid lids st)
    show ?case
    proof (cases "lid \<in> snd st")
      case True
      with "2.prems" "2.hyps" have "visit_all reg lids st = Inr st'" by (simp add: visit_all.psimps)
      with True "2.IH"(2) [of st] show ?thesis by simp
    next
      case False
      with "2.prems" "2.hyps" obtain l st1 where l: "get_leaf reg lid = Inr l"
        "visit_all reg (requires l) (fst st @ [l], insert lid (snd st)) = Inr st1" "visit_all reg lids st1 = Inr st'"
        by (auto simp: visit_all.psimps split: sum.splits)
      have "insert lid (snd st) \<subseteq> snd st1" using "2.IH"(1) [OF False l(1,2)] by simp
      moreover have "snd st1 \<subseteq> snd st'" using "2.IH"(2) [of st1] False l by simp
      ultimately show ?thesis by blast
    qed
  qed
  show ?thesis
  proof (relation "(\<lambda>(reg, lids, st). unseen reg st) <*mlex*> measure (\<lambda>(reg, lids, st). length lids)", goal_cases)
    case 1
    show ?case by (intro wf_mlex wf_measure)
  next
    case (2 reg lid lids st l)
    then show ?case by (intro mlex_less) (simp add: unseen_insert)
  next
    case (3 reg lid lids st st')
    have "snd st \<subseteq> snd st'"
    proof (cases "lid \<in> snd st")
      case False
      with 3(1) obtain l where l: "get_leaf reg lid = Inr l"
        "visit_all reg (requires l) (fst st @ [l], insert lid (snd st)) = Inr st'" by (auto split: sum.splits)
      from marks [OF 3(2) [OF False l(1)] l(2)] show ?thesis by simp
    qed (use 3(1) in simp)
    then show ?case by (intro mlex_leq) (simp_all add: unseen_mono)
  qed
qed

definition expand :: "registry \<Rightarrow> string list \<Rightarrow> (comp_error, leaf list) res" where
  "expand reg ids = bind_res (visit_all reg ids ([], {})) (\<lambda>st. Inr (fst st))"

subsection \<open>Reading the registry\<close>

definition as_tuple :: "(json \<Rightarrow> string) \<Rightarrow> json \<Rightarrow> string list" where
  "as_tuple rep v = (case v of JNull \<Rightarrow> [] | JList vs \<Rightarrow> map (jstr rep) vs | _ \<Rightarrow> [jstr rep v])"

text \<open>\<open>str(d.get(k1, d.get(k2, dflt)) or dflt)\<close>, for a chain of names.\<close>

fun jget_chain :: "jdict \<Rightarrow> string list \<Rightarrow> json \<Rightarrow> json" where
  "jget_chain d [] dflt = dflt"
| "jget_chain d (k # ks) dflt = jget d k (jget_chain d ks dflt)"

definition str_field_or :: "(json \<Rightarrow> string) \<Rightarrow> jdict \<Rightarrow> string list \<Rightarrow> string \<Rightarrow> string" where
  "str_field_or rep d ks dflt =
     (let v = jget_chain d ks (JStr dflt) in if jtruthy v then jstr rep v else dflt)"

definition parse_artifacts :: "(json \<Rightarrow> string) \<Rightarrow> json \<Rightarrow> (comp_error, artifacts) res" where
  "parse_artifacts rep raw =
     (if \<not> jtruthy raw then Inr no_artifacts
      else case raw of
             JObj d \<Rightarrow> Inr
               \<lparr>art_repo = str_field_or rep d [''repo'', ''hf_repo''] '''',
                art_files = as_tuple rep (jget d ''files'' JNull),
                art_revision = str_field_or rep d [''revision'', ''hf_revision''] ''main'',
                art_canonical_model_id = str_field_or rep d [''canonical_model_id'', ''canonical_id'', ''model_id''] '''',
                art_root = str_field_or rep d [''root'', ''model_root''] '''',
                art_manifest = str_field_or rep d [''manifest'', ''manifest_path''] '''',
                art_cache_root = str_field_or rep d [''cache_root'', ''model_cache_root''] ''''\<rparr>
           | _ \<Rightarrow> Inl RegistryError)"

text \<open>\<open>v or {}\<close>, which must then be an object: \<open>err\<close> otherwise.\<close>

definition object_or_empty :: "comp_error \<Rightarrow> json \<Rightarrow> (comp_error, jdict) res" where
  "object_or_empty err v = (if \<not> jtruthy v then Inr [] else case v of JObj d \<Rightarrow> Inr d | _ \<Rightarrow> Inl err)"

definition py_res :: "(py_error, 'a) res \<Rightarrow> (comp_error, 'a) res" where
  "py_res r = (case r of Inl e \<Rightarrow> Inl (PyError e) | Inr a \<Rightarrow> Inr a)"

definition str_items :: "(json \<Rightarrow> string) \<Rightarrow> jdict \<Rightarrow> (string \<times> string) list" where
  "str_items rep d = map (\<lambda>(k, v). (k, jstr rep v)) d"

definition parse_leaf :: "(json \<Rightarrow> string) \<Rightarrow> string \<Rightarrow> jdict \<Rightarrow> (comp_error, leaf) res" where
  "parse_leaf rep lid raw =
     (if \<not> jtruthy (jget raw ''capability'' JNull) then Inl RegistryError
      else bind_res (object_or_empty RegistryError (jget raw ''runtime_env'' JNull)) (\<lambda>renv.
           bind_res (object_or_empty RegistryError (jget raw ''resources'' JNull)) (\<lambda>resr.
           bind_res (py_res (jint (jget raw ''concurrency'' (JInt 1)))) (\<lambda>conc.
           bind_res (parse_artifacts rep (jget raw ''artifacts'' JNull)) (\<lambda>arts.
             Inr \<lparr>leaf_id = lid, capability = jstr rep (jget raw ''capability'' JNull),
                  backend = jstr rep (jget raw ''backend'' (JStr '''')),
                  leaf_device = jstr rep (jget raw ''device'' (JStr '''')), concurrency = conc,
                  leaf_model = jstr rep (jget raw ''model'' (JStr '''')),
                  precision = (case jget raw ''precision'' JNull of JNull \<Rightarrow> None | v \<Rightarrow> Some (jstr rep v)),
                  leaf_artifacts = arts, requires = as_tuple rep (jget raw ''requires'' JNull),
                  runtime_env = str_items rep renv, resources = resr\<rparr>)))))"

text \<open>\<open>data.get(k) or {}\<close> of a loaded file, then \<open>.items()\<close>: anything but an object raises.\<close>

definition section_of :: "json \<Rightarrow> string \<Rightarrow> (comp_error, jdict) res" where
  "section_of data k =
     bind_res (object_or_empty (PyError AttributeErr) data) (\<lambda>d.
       object_or_empty (PyError AttributeErr) (jget d k JNull))"

definition parse_device :: "(json \<Rightarrow> string) \<Rightarrow> string \<Rightarrow> json \<Rightarrow> (comp_error, device_spec) res" where
  "parse_device rep did v =
     bind_res (object_or_empty (PyError AttributeErr) v) (\<lambda>raw.
     bind_res (py_res (jint (jget raw ''unified_mb'' (JInt 0)))) (\<lambda>mb.
     bind_res (py_res (jint (jget raw ''base_reservation_mb'' (JInt 0)))) (\<lambda>base.
     bind_res (object_or_empty (PyError AttributeErr) (jget raw ''default'' JNull)) (\<lambda>dflt.
       Inr \<lparr>dev_id = did, unified_mb = mb, base_reservation_mb = base, dev_default = str_items rep dflt,
            dev_class = jstr rep (jget raw ''device_class'' (JStr ''''))\<rparr>))))"

definition parse_speakers :: "json \<Rightarrow> (comp_error, jdict list) res" where
  "parse_speakers v =
     (let xs = (if \<not> jtruthy v then Some [] else case v of JObj d \<Rightarrow> Some [v] | JList vs \<Rightarrow> Some vs | _ \<Rightarrow> None)
      in case xs of
           None \<Rightarrow> Inl RegistryError
         | Some vs \<Rightarrow> if list_all is_dict vs then Inr (map as_dict vs) else Inl RegistryError)"

definition parse_model :: "(json \<Rightarrow> string) \<Rightarrow> string \<Rightarrow> json \<Rightarrow> (comp_error, model_spec) res" where
  "parse_model rep mid v =
     bind_res (object_or_empty (PyError AttributeErr) v) (\<lambda>raw.
     bind_res (parse_speakers (jget raw ''speakers'' JNull)) (\<lambda>spk.
     bind_res (object_or_empty (PyError AttributeErr) (jget raw ''default_precision'' JNull)) (\<lambda>dp.
       Inr \<lparr>model_id = mid, default_precision = str_items rep dp,
            model_label = (case jget raw ''label'' JNull of JNull \<Rightarrow> None | w \<Rightarrow> Some (jstr rep w)),
            aliases = as_tuple rep (jget raw ''aliases'' JNull), speakers = spk,
            metadata = filter (\<lambda>(k, w). k \<notin> {''default_precision'', ''label'', ''aliases'', ''speakers''}) raw\<rparr>)))"

text \<open>One loop body per kind of file; a file is its name with its value.\<close>

definition add_device :: "(json \<Rightarrow> string) \<Rightarrow> string \<times> json \<Rightarrow> registry \<Rightarrow> (comp_error, registry) res" where
  "add_device rep kv reg =
     bind_res (parse_device rep (fst kv) (snd kv)) (\<lambda>d. Inr (reg\<lparr>devices := dset (devices reg) (fst kv) d\<rparr>))"

definition add_model :: "(json \<Rightarrow> string) \<Rightarrow> string \<times> json \<Rightarrow> registry \<Rightarrow> (comp_error, registry) res" where
  "add_model rep kv reg =
     bind_res (parse_model rep (fst kv) (snd kv)) (\<lambda>d. Inr (reg\<lparr>models := dset (models reg) (fst kv) d\<rparr>))"

definition add_leaf :: "(json \<Rightarrow> string) \<Rightarrow> string \<times> json \<Rightarrow> registry \<Rightarrow> (comp_error, registry) res" where
  "add_leaf rep kv reg =
     (if dget (leaves reg) (fst kv) \<noteq> None then Inl RegistryError
      else bind_res (object_or_empty (PyError AttributeErr) (snd kv)) (\<lambda>raw.
           bind_res (parse_leaf rep (fst kv) raw) (\<lambda>l. Inr (reg\<lparr>leaves := dset (leaves reg) (fst kv) l\<rparr>))))"

definition load_file ::
  "(string \<times> json \<Rightarrow> registry \<Rightarrow> (comp_error, registry) res) \<Rightarrow> string \<Rightarrow> json \<Rightarrow> registry \<Rightarrow> (comp_error, registry) res" where
  "load_file add k data reg = bind_res (section_of data k) (\<lambda>items. fold_res add items reg)"

definition load_named ::
  "(string \<times> json \<Rightarrow> registry \<Rightarrow> (comp_error, registry) res) \<Rightarrow> string \<Rightarrow> string \<Rightarrow> (string \<times> json) list \<Rightarrow>
   registry \<Rightarrow> (comp_error, registry) res" where
  "load_named add name k files reg =
     (case dget files name of None \<Rightarrow> Inr reg | Some data \<Rightarrow> load_file add k data reg)"

definition has_suffix :: "string \<Rightarrow> string \<Rightarrow> bool" where
  "has_suffix suf s = starts_with (rev suf) (rev s)"

definition leaf_files :: "(string \<times> json) list \<Rightarrow> (string \<times> json) list" where
  "leaf_files files =
     filter (\<lambda>(n, _). n \<noteq> ''devices.yaml'' \<and> n \<noteq> ''models.yaml'')
       (sort_key fst (filter (\<lambda>(n, _). has_suffix ''.yaml'' n) files))"

definition load_registry ::
  "(json \<Rightarrow> string) \<Rightarrow> (string \<times> json) list option \<Rightarrow> (comp_error, registry) res" where
  "load_registry rep dir =
     (case dir of
        None \<Rightarrow> Inl RegistryError
      | Some files \<Rightarrow>
          bind_res (load_named (add_device rep) ''devices.yaml'' ''devices'' files new_registry) (\<lambda>r1.
          bind_res (load_named (add_model rep) ''models.yaml'' ''models'' files r1) (\<lambda>r2.
            fold_res (\<lambda>f. load_file (add_leaf rep) ''leaves'' (snd f)) (leaf_files files) r2)))"

subsection \<open>The resolvers\<close>

text \<open>First occurrences, in order: the loop over \<open>seen\<close>.\<close>

fun add_new :: "'a list \<Rightarrow> 'a list \<Rightarrow> 'a list" where
  "add_new acc [] = acc"
| "add_new acc (x # xs) = (if x \<in> set acc then add_new acc xs else add_new (acc @ [x]) xs)"

definition leaf_files_union :: "leaf list \<Rightarrow> string list" where
  "leaf_files_union ls = foldl (\<lambda>acc l. add_new acc (art_files (leaf_artifacts l))) [] ls"

definition resolve_pull :: "string list \<Rightarrow> registry \<Rightarrow> (comp_error, string list) res" where
  "resolve_pull selected reg = bind_res (expand reg selected) (\<lambda>ls. Inr (leaf_files_union ls))"

text \<open>A source record without its files is the key of the group.\<close>

definition source_key :: "leaf \<Rightarrow> model_source" where
  "source_key l =
     (let a = leaf_artifacts l
      in \<lparr>src_model_id = str_strip (leaf_model l), src_repo = str_strip (art_repo a),
          src_revision = (if str_strip (art_revision a) \<noteq> '''' then str_strip (art_revision a) else ''main''),
          src_canonical_model_id = str_strip (art_canonical_model_id a), src_root = str_strip (art_root a),
          src_manifest = str_strip (art_manifest a), src_cache_root = str_strip (art_cache_root a), src_files = []\<rparr>)"

fun add_group :: "'k \<Rightarrow> 'v list \<Rightarrow> ('k \<times> 'v list) list \<Rightarrow> ('k \<times> 'v list) list" where
  "add_group k vs [] = [(k, add_new [] vs)]"
| "add_group k vs ((k', ws) # g) = (if k = k' then (k', add_new ws vs) # g else (k', ws) # add_group k vs g)"

definition has_source :: "leaf \<Rightarrow> bool" where
  "has_source l \<longleftrightarrow> str_strip (leaf_model l) \<noteq> '''' \<and>
     \<not> (str_strip (art_repo (leaf_artifacts l)) = '''' \<and> art_files (leaf_artifacts l) = [])"

definition sources_of :: "leaf list \<Rightarrow> model_source list" where
  "sources_of ls =
     map (\<lambda>(k, fs). k\<lparr>src_files := fs\<rparr>)
       (foldl (\<lambda>g l. if has_source l then add_group (source_key l) (art_files (leaf_artifacts l)) g else g) [] ls)"

definition resolve_model_sources :: "string list \<Rightarrow> registry \<Rightarrow> (comp_error, model_source list) res" where
  "resolve_model_sources selected reg = bind_res (expand reg selected) (\<lambda>ls. Inr (sources_of ls))"

text \<open>One pass of the expansion, and whether it changed anything.\<close>

definition expand_pass :: "(string \<times> string) list \<Rightarrow> (string \<times> string) list \<times> bool" where
  "expand_pass d =
     foldl (\<lambda>(acc, changed) (k, v).
         if template_subst (dget acc) v \<noteq> v then (dset acc k (template_subst (dget acc) v), True) else (acc, changed))
       (d, False) d"

definition merge_env :: "leaf list \<Rightarrow> (string \<times> string) list \<Rightarrow> (string \<times> string) list" where
  "merge_env ls overrides = dupdate (foldl (\<lambda>m l. dupdate m (runtime_env l)) [] ls) overrides"

definition expand_twice :: "(string \<times> string) list \<Rightarrow> (string \<times> string) list" where
  "expand_twice d = (if snd (expand_pass d) then fst (expand_pass (fst (expand_pass d))) else fst (expand_pass d))"

definition resolve_env ::
  "string list \<Rightarrow> registry \<Rightarrow> (string \<times> string) list \<Rightarrow> (comp_error, (string \<times> string) list) res" where
  "resolve_env selected reg overrides =
     bind_res (expand reg selected) (\<lambda>ls. Inr (expand_twice (merge_env ls overrides)))"

definition backend_family :: "leaf \<Rightarrow> string option" where
  "backend_family l =
     (if str_lower (case dget (runtime_env l) ''LANGUAGE_MODE'' of Some v \<Rightarrow> v | None \<Rightarrow> '''') = ''rk'' then Some ''rk''
      else if CHR ''.'' \<in> set (backend l) then Some (takeWhile (\<lambda>c. c \<noteq> CHR ''.'') (backend l))
      else None)"

subsection \<open>Validation\<close>

text \<open>\<open>by_capability\<close>: the id that provides each capability so far.\<close>

definition claim_capability ::
  "registry \<Rightarrow> string \<Rightarrow> (string \<times> string) list \<Rightarrow> (comp_error, (string \<times> string) list) res" where
  "claim_capability reg lid by_capability =
     bind_res (get_leaf reg lid) (\<lambda>l.
       case dget by_capability (capability l) of
         Some existing \<Rightarrow> Inl (IllegalPairing existing lid (capability l))
       | None \<Rightarrow> Inr (dset by_capability (capability l) lid))"

definition claim_family ::
  "registry \<Rightarrow> string \<Rightarrow> (string \<times> string) list \<Rightarrow> (comp_error, (string \<times> string) list) res" where
  "claim_family reg lid families =
     bind_res (get_leaf reg lid) (\<lambda>l.
       case backend_family l of None \<Rightarrow> Inr families | Some fam \<Rightarrow> Inr (setdefault families fam lid))"

definition exclusive_of :: "(json \<Rightarrow> string) \<Rightarrow> leaf \<Rightarrow> string option" where
  "exclusive_of rep l =
     (let v = jget (resources l) ''exclusive'' JNull in if jtruthy v then Some (jstr rep v) else None)"

definition claim_exclusive ::
  "(json \<Rightarrow> string) \<Rightarrow> registry \<Rightarrow> string \<Rightarrow> (string \<times> string list) list \<Rightarrow> (comp_error, (string \<times> string list) list) res" where
  "claim_exclusive rep reg lid excl =
     bind_res (get_leaf reg lid) (\<lambda>l.
       case exclusive_of rep l of
         None \<Rightarrow> Inr excl
       | Some r \<Rightarrow> Inr (dset excl r ((case dget excl r of Some hs \<Rightarrow> hs | None \<Rightarrow> []) @ [lid])))"

definition check_exclusive :: "string option \<Rightarrow> (string \<times> string list) list \<Rightarrow> (comp_error, unit) res" where
  "check_exclusive adm excl =
     (case filter (\<lambda>(r, hs). length hs > 1 \<and> adm \<noteq> Some ''serial'') excl of
        [] \<Rightarrow> Inr () | (r, hs) # _ \<Rightarrow> Inl (ExclusiveConflict r hs))"

definition headroom :: "registry \<Rightarrow> device_spec \<Rightarrow> int" where
  "headroom reg dev =
     (let x = of_int (unified_mb dev) * headroom_fraction reg in if x < 0 then - \<lfloor>- x\<rfloor> else \<lfloor>x\<rfloor>)"

definition validate_composition ::
  "(json \<Rightarrow> string) \<Rightarrow> string \<Rightarrow> string list \<Rightarrow> registry \<Rightarrow> string option \<Rightarrow> (comp_error, plan) res" where
  "validate_composition rep device selected reg adm =
     (case dget (devices reg) device of
        None \<Rightarrow> Inl (UnknownDevice device)
      | Some dev \<Rightarrow>
          bind_res (fold_res (claim_capability reg) selected []) (\<lambda>_.
          bind_res (fold_res (claim_family reg) selected []) (\<lambda>families.
          if length families > 1 then Inl (IncompatibleFamilies families)
          else
          bind_res (fold_res (claim_exclusive rep reg) selected []) (\<lambda>excl.
          bind_res (check_exclusive adm excl) (\<lambda>_.
          bind_res (expand reg selected) (\<lambda>expanded.
          let peak = base_reservation_mb dev + sum_list (map peak_unified_mb expanded)
          in if peak > headroom reg dev then Inl (OverBudget peak (headroom reg dev))
             else Inr \<lparr>plan_device = device, plan_leaf_ids = selected,
                       plan_resolved = map (\<lambda>l. \<lparr>rl_leaf = l, rl_precision = resolve_precision reg l device\<rparr>) expanded,
                       plan_peak = peak, plan_headroom = headroom reg dev\<rparr>))))))"

subsection \<open>Applying a composition at start\<close>

definition CAPABILITY_KEYS :: "string list" where
  "CAPABILITY_KEYS = [''asr'', ''tts'', ''vad'']"

definition PULL_FILES_ENV :: string where "PULL_FILES_ENV = ''OVS_COMPOSITION_PULL_FILES''"
definition MODEL_SOURCES_ENV :: string where "MODEL_SOURCES_ENV = ''OVS_COMPOSITION_MODEL_SOURCES''"

definition selected_leaf_ids :: "(json \<Rightarrow> string) \<Rightarrow> jdict \<Rightarrow> string list" where
  "selected_leaf_ids rep composition =
     concat (map (\<lambda>cap. let v = jget composition cap JNull in if jtruthy v then [jstr rep v] else []) CAPABILITY_KEYS)"

definition model_sources ::
  "(json \<Rightarrow> string) \<Rightarrow> (string \<times> json) list option \<Rightarrow> jdict \<Rightarrow> (comp_error, model_source list) res" where
  "model_sources rep dir profile =
     (case jget profile ''composition'' JNull of
        JObj composition \<Rightarrow>
          let selected = selected_leaf_ids rep composition
          in if selected = [] then Inr []
             else bind_res (load_registry rep dir) (\<lambda>reg. resolve_model_sources selected reg)
      | _ \<Rightarrow> Inr [])"

definition source_json :: "model_source \<Rightarrow> json" where
  "source_json s = JObj [(''model_id'', JStr (src_model_id s)), (''repo'', JStr (src_repo s)),
     (''revision'', JStr (src_revision s)), (''canonical_model_id'', JStr (canonical_id s)),
     (''root'', JStr (src_root s)), (''manifest'', JStr (src_manifest s)),
     (''cache_root'', JStr (src_cache_root s)), (''files'', JList (map JStr (src_files s)))]"

text \<open>Keys that are already set win; the others are expanded against the environment as it is then.\<close>

definition fill_env :: "environ \<Rightarrow> (string \<times> string) list \<Rightarrow> environ" where
  "fill_env e kvs = foldl (\<lambda>e (k, v). if e k \<noteq> None then e else e(k \<mapsto> template_subst e v)) e kvs"

fun join_path :: "string list \<Rightarrow> string" where
  "join_path [] = ''''"
| "join_path [f] = f"
| "join_path (f # fs) = f @ '':'' @ join_path fs"

definition publish :: "(json \<Rightarrow> string) \<Rightarrow> string list \<Rightarrow> model_source list \<Rightarrow> environ \<Rightarrow> environ" where
  "publish dumps pull sources e =
     (let e1 = (if pull = [] then e else e(PULL_FILES_ENV \<mapsto> join_path pull))
      in if sources = [] then e1 else e1(MODEL_SOURCES_ENV \<mapsto> dumps (JList (map source_json sources))))"

text \<open>The environment after the call, and its result.\<close>

definition apply_composition ::
  "(json \<Rightarrow> string) \<Rightarrow> (json \<Rightarrow> string) \<Rightarrow> (string \<times> json) list option \<Rightarrow> jdict \<Rightarrow> environ \<Rightarrow>
   environ \<times> (comp_error, string list) res" where
  "apply_composition rep dumps dir profile e =
     (let block = jget profile ''composition'' JNull
      in if \<not> jtruthy block then (e, Inr [])
         else case block of
           JObj composition \<Rightarrow>
             let devv = jget composition ''device'' JNull; selected = selected_leaf_ids rep composition
             in if \<not> jtruthy devv then (e, Inl MissingDevice)
                else if selected = [] then (e, Inl NoLeaves)
                else (case bind_res (object_or_empty BadOverrides (jget composition ''overrides'' JNull)) (\<lambda>ov.
                           bind_res (load_registry rep dir) (\<lambda>reg.
                           bind_res (validate_composition rep (jstr rep devv) selected reg None) (\<lambda>_.
                           bind_res (resolve_env selected reg (str_items rep ov)) (\<lambda>renv.
                           bind_res (resolve_pull selected reg) (\<lambda>pull.
                           bind_res (resolve_model_sources selected reg) (\<lambda>sources. Inr (renv, pull, sources))))))) of
                        Inl err \<Rightarrow> (e, Inl err)
                      | Inr (renv, pull, sources) \<Rightarrow> (publish dumps pull sources (fill_env e renv), Inr pull))
         | _ \<Rightarrow> (e, Inl NotAMapping))"

subsection \<open>The expansion is the closure under \<open>requires\<close>\<close>

inductive needed :: "registry \<Rightarrow> string list \<Rightarrow> string \<Rightarrow> bool" for reg ids where
  selected: "k \<in> set ids \<Longrightarrow> needed reg ids k"
| required: "needed reg ids k \<Longrightarrow> get_leaf reg k = Inr l \<Longrightarrow> k' \<in> set (requires l) \<Longrightarrow> needed reg ids k'"

lemma needed_Cons: "needed reg lids k \<Longrightarrow> needed reg (lid # lids) k"
  by (induction rule: needed.induct) (auto intro: needed.intros)

lemma needed_below:
  assumes "needed reg (requires l) k" and "get_leaf reg lid = Inr l" and "lid \<in> set ids"
  shows "needed reg ids k"
  using assms by (induction rule: needed.induct) (auto intro: needed.intros)

lemma get_leaf_eq:
  "get_leaf reg k = Inr l \<longleftrightarrow> dget (leaves reg) k = Some l"
  "get_leaf reg k = Inl err \<longleftrightarrow> dget (leaves reg) k = None \<and> err = UnknownLeaf k"
  by (auto simp: get_leaf_def split: option.split)

definition closed_at :: "registry \<Rightarrow> string \<Rightarrow> string set \<Rightarrow> bool" where
  "closed_at reg k S \<longleftrightarrow> (\<forall>l. dget (leaves reg) k = Some l \<longrightarrow> set (requires l) \<subseteq> S)"

lemma closed_at_mono: "closed_at reg k S \<Longrightarrow> S \<subseteq> T \<Longrightarrow> closed_at reg k T"
  unfolding closed_at_def by blast

text \<open>What one call adds: the leaves of the ids \<open>ks\<close>, none of them marked before, with everything they
  require.\<close>

definition adds :: "registry \<Rightarrow> string list \<Rightarrow> leaf list \<times> string set \<Rightarrow> leaf list \<times> string set \<Rightarrow> string list \<Rightarrow> bool" where
  "adds reg ids st st' ks \<longleftrightarrow>
     (\<exists>ls. fst st' = fst st @ ls \<and> map (dget (leaves reg)) ks = map Some ls) \<and>
     distinct ks \<and> set ks \<inter> snd st = {} \<and> snd st' = snd st \<union> set ks \<and> set ids \<subseteq> snd st' \<and>
     (\<forall>k \<in> set ks. needed reg ids k \<and> closed_at reg k (snd st'))"

lemma adds_skip: "adds reg lids st st' ks \<Longrightarrow> lid \<in> snd st \<Longrightarrow> adds reg (lid # lids) st st' ks"
  unfolding adds_def by (auto intro: needed_Cons)

lemma adds_down:
  assumes g: "dget (leaves reg) lid = Some l" and lid: "lid \<notin> snd st"
    and down: "adds reg (requires l) (fst st @ [l], insert lid (snd st)) st1 ks1" and rest: "adds reg lids st1 st' ks2"
  shows "adds reg (lid # lids) st st' (lid # ks1 @ ks2)"
proof -
  have n: "needed reg (lid # lids) k" if "k \<in> set ks1" for k
    using that down g needed_below [of reg l k lid "lid # lids"] by (auto simp: adds_def get_leaf_eq)
  moreover have "needed reg (lid # lids) k" if "k \<in> set ks2" for k
    using that rest by (auto simp: adds_def intro: needed_Cons)
  moreover have "closed_at reg k (snd st')" if "k \<in> set (lid # ks1 @ ks2)" for k
  proof -
    have "closed_at reg lid (snd st1)" "snd st1 \<subseteq> snd st'" using g down rest by (auto simp: adds_def closed_at_def)
    then show ?thesis using that down rest by (auto simp: adds_def intro: closed_at_mono)
  qed
  ultimately show ?thesis using assms by (auto simp: adds_def intro: needed.selected)
qed

lemma visit_all_Inr: "visit_all reg ids st = Inr st' \<Longrightarrow> \<exists>ks. adds reg ids st st' ks"
proof (induction reg ids st arbitrary: st' rule: visit_all.induct)
  case (1 reg st)
  then show ?case by (auto simp: adds_def intro: exI [of _ "[]"])
next
  case (2 reg lid lids st)
  show ?case
  proof (cases "lid \<in> snd st")
    case True
    with "2.prems" "2.IH"(2) [of st] show ?thesis by (auto intro: adds_skip)
  next
    case False
    with "2.prems" obtain l st1 where l: "get_leaf reg lid = Inr l"
      "visit_all reg (requires l) (fst st @ [l], insert lid (snd st)) = Inr st1" "visit_all reg lids st1 = Inr st'"
      by (auto split: sum.splits)
    obtain ks1 where "adds reg (requires l) (fst st @ [l], insert lid (snd st)) st1 ks1"
      using "2.IH"(1) [OF False l(1,2)] by blast
    moreover obtain ks2 where "adds reg lids st1 st' ks2" using "2.IH"(2) [of st1 st'] False l by auto
    ultimately show ?thesis using adds_down [of reg lid l st] False l(1) by (blast intro: get_leaf_eq(1) [THEN iffD1])
  qed
qed

lemma visit_all_Inl:
  "visit_all reg ids st = Inl err \<Longrightarrow> \<exists>k. needed reg ids k \<and> dget (leaves reg) k = None \<and> err = UnknownLeaf k"
proof (induction reg ids st rule: visit_all.induct)
  case (1 reg st)
  then show ?case by simp
next
  case (2 reg lid lids st)
  have rest: ?case if "visit_all reg lids st1 = Inl err"
    and "(if lid \<in> snd st then Inr st else case get_leaf reg lid of Inl e \<Rightarrow> Inl e
           | Inr l \<Rightarrow> visit_all reg (requires l) (fst st @ [l], insert lid (snd st))) = Inr st1" for st1
    using "2.IH"(2) [OF that(2,1)] by (auto intro: needed_Cons)
  show ?case
  proof (cases "lid \<in> snd st")
    case True
    with "2.prems" rest [of st] show ?thesis by simp
  next
    case False
    show ?thesis
    proof (cases "get_leaf reg lid")
      case (Inl e)
      with False "2.prems" show ?thesis by (auto simp: get_leaf_eq intro!: needed.selected)
    next
      case (Inr l)
      show ?thesis
      proof (cases "visit_all reg (requires l) (fst st @ [l], insert lid (snd st))")
        case (Inl e)
        with False Inr "2.prems" have "e = err" by simp
        with "2.IH"(1) [OF False Inr] Inl obtain k where k: "needed reg (requires l) k"
          "dget (leaves reg) k = None" "err = UnknownLeaf k" by auto
        moreover have "needed reg (lid # lids) k" using k(1) Inr by (rule needed_below) simp
        ultimately show ?thesis by blast
      next
        case (Inr st1)
        with False \<open>get_leaf reg lid = Inr l\<close> "2.prems" rest [of st1] show ?thesis by simp
      qed
    qed
  qed
qed

lemma expand_Inr:
  assumes "expand reg ids = Inr ls"
  shows "\<exists>ks. distinct ks \<and> set ks = {k. needed reg ids k} \<and> map (dget (leaves reg)) ks = map Some ls"
proof -
  obtain sn where "visit_all reg ids ([], {}) = Inr (ls, sn)"
    using assms by (auto simp: expand_def bind_res_eq_Inr)
  then obtain ks where a: "adds reg ids ([], {}) (ls, sn) ks" using visit_all_Inr by blast
  have "k \<in> set ks" if "needed reg ids k" for k
    using that a by (induction rule: needed.induct) (auto simp: adds_def get_leaf_eq closed_at_def)
  with a show ?thesis by (auto simp: adds_def)
qed

text \<open>C13: Expanding a selection always ends, also when leaves require each other in a cycle: either it yields
  the leaves of exactly the ids that are selected or required by them at any depth, each once, or it
  raises for a needed id that no registered leaf has.\<close>

theorem expand_total:
  "case expand reg ids of
     Inl err \<Rightarrow> \<exists>k. needed reg ids k \<and> dget (leaves reg) k = None \<and> err = UnknownLeaf k
   | Inr ls \<Rightarrow> \<exists>ks. distinct ks \<and> set ks = {k. needed reg ids k} \<and> map (dget (leaves reg)) ks = map Some ls"
proof (cases "expand reg ids")
  case (Inl err)
  then have "visit_all reg ids ([], {}) = Inl err" by (auto simp: expand_def bind_res_eq_Inl)
  with Inl visit_all_Inl show ?thesis by simp
next
  case (Inr ls)
  with expand_Inr show ?thesis by simp
qed

subsection \<open>What is pulled\<close>

lemma visit_all_append: "visit_all reg (xs @ ys) st = bind_res (visit_all reg xs st) (visit_all reg ys)"
proof (induction xs arbitrary: st)
  case (Cons x xs)
  then show ?case by (simp split: sum.split)
qed simp

lemma expand_append:
  assumes "expand reg (xs @ ys) = Inr ls"
  shows "\<exists>ls1 ls2. expand reg xs = Inr ls1 \<and> ls = ls1 @ ls2"
proof -
  obtain sn where "visit_all reg (xs @ ys) ([], {}) = Inr (ls, sn)"
    using assms by (auto simp: expand_def bind_res_eq_Inr)
  then obtain st1 where v: "visit_all reg xs ([], {}) = Inr st1" "visit_all reg ys st1 = Inr (ls, sn)"
    by (auto simp: visit_all_append bind_res_eq_Inr)
  from visit_all_Inr [OF v(2)] v(1) show ?thesis by (auto simp: adds_def expand_def)
qed

lemma add_new_facts: "prefix acc (add_new acc xs)" "set (add_new acc xs) = set acc \<union> set xs"
  "distinct acc \<Longrightarrow> distinct (add_new acc xs)"
  by (induction acc xs rule: add_new.induct) (auto dest: append_prefixD)

lemma union_extends: "prefix acc (foldl (\<lambda>acc l. add_new acc (f l)) acc ls)"
proof (induction ls arbitrary: acc)
  case (Cons l ls)
  then show ?case using add_new_facts(1) [of acc "f l"] by (auto intro: prefix_order.trans)
qed simp

lemma union_distinct: "distinct acc \<Longrightarrow> distinct (foldl (\<lambda>acc l. add_new acc (f l)) acc ls)"
  by (induction ls arbitrary: acc) (auto simp: add_new_facts)

lemma union_set: "set (foldl (\<lambda>acc l. add_new acc (f l)) acc ls) = set acc \<union> (\<Union>l \<in> set ls. set (f l))"
  by (induction ls arbitrary: acc) (auto simp: add_new_facts)

text \<open>The files to pull are those of the needed leaves, each once, and the choice of further leaves only
  adds to them: the list for a selection starts with the list for any selection it extends, so the files
  for speech recognition do not depend on the voice that is chosen.\<close>

theorem pull_grows_with_selection:
  assumes "resolve_pull (xs @ ys) reg = Inr files"
  shows "\<exists>files1. resolve_pull xs reg = Inr files1 \<and> prefix files1 files \<and> distinct files \<and>
    set files = {f. \<exists>k l. needed reg (xs @ ys) k \<and> dget (leaves reg) k = Some l \<and> f \<in> set (art_files (leaf_artifacts l))}"
proof -
  obtain ls where ls: "expand reg (xs @ ys) = Inr ls" "files = leaf_files_union ls"
    using assms by (auto simp: resolve_pull_def bind_res_eq_Inr)
  obtain ls1 ls2 where s: "expand reg xs = Inr ls1" "ls = ls1 @ ls2" using expand_append [OF ls(1)] by blast
  have "prefix (leaf_files_union ls1) files"
    using union_extends by (simp add: ls(2) s(2) leaf_files_union_def)
  moreover obtain ks where ks: "set ks = {k. needed reg (xs @ ys) k}" "map (dget (leaves reg)) ks = map Some ls"
    using expand_Inr [OF ls(1)] by blast
  have "l \<in> set ls \<longleftrightarrow> (\<exists>k. needed reg (xs @ ys) k \<and> dget (leaves reg) k = Some l)" for l
  proof -
    have "l \<in> set ls \<longleftrightarrow> Some l \<in> dget (leaves reg) ` set ks"
      using arg_cong [OF ks(2), of set] by (auto simp: image_iff)
    then show ?thesis unfolding ks(1) by (auto simp: image_iff)
  qed
  then have "set files = {f. \<exists>k l. needed reg (xs @ ys) k \<and> dget (leaves reg) k = Some l \<and> f \<in> set (art_files (leaf_artifacts l))}"
    unfolding ls(2) leaf_files_union_def union_set by (simp add: set_eq_iff Bex_def) blast
  ultimately show ?thesis
    using s(1) union_distinct [of "[]"] by (simp add: resolve_pull_def ls(2) leaf_files_union_def)
qed

definition demo_leaf :: "string \<Rightarrow> string \<Rightarrow> string list \<Rightarrow> string list \<Rightarrow> leaf" where
  "demo_leaf lid cap files req =
     \<lparr>leaf_id = lid, capability = cap, backend = ''jetson.x'', leaf_device = '''', concurrency = 1, leaf_model = lid,
      precision = None, leaf_artifacts = no_artifacts\<lparr>art_files := files\<rparr>, requires = req,
      runtime_env = [(''ROOT'', ''/m''), (''DIR'', ''${ROOT}/a'')], resources = [(''peak_unified_mb'', JInt 100)]\<rparr>"

definition demo_registry :: registry where
  "demo_registry = new_registry\<lparr>
     leaves := [(''a'', demo_leaf ''a'' ''asr'' [''f'', ''g''] [''s'']), (''t'', demo_leaf ''t'' ''tts'' [''h''] [''s'', ''a'']),
                (''s'', demo_leaf ''s'' ''shared'' [''g''] [''a''])],
     devices := [(''nx'', \<lparr>dev_id = ''nx'', unified_mb = 1000, base_reservation_mb = 500, dev_default = [], dev_class = ''''\<rparr>)]\<rparr>"

theorem pull_grows_with_selection_witness:
  "\<exists>files1. resolve_pull [''a''] demo_registry = Inr files1 \<and> prefix files1 [''f'', ''g'', ''h'']"
proof -
  have "resolve_pull ([''a''] @ [''t'']) demo_registry = Inr [''f'', ''g'', ''h'']" by code_simp
  from pull_grows_with_selection [OF this] show ?thesis by blast
qed

subsection \<open>A loaded registry is well formed\<close>

definition wf_registry :: "registry \<Rightarrow> bool" where
  "wf_registry reg \<longleftrightarrow> distinct (keys (leaves reg)) \<and> distinct (keys (devices reg)) \<and> distinct (keys (models reg)) \<and>
     (\<forall>(k, l) \<in> set (leaves reg). leaf_id l = k) \<and> (\<forall>(k, d) \<in> set (devices reg). dev_id d = k) \<and>
     (\<forall>(k, m) \<in> set (models reg). model_id m = k)"

lemma dset_entries: "(k', v') \<in> set (dset d k v) \<Longrightarrow> (k', v') \<in> set d \<or> (k', v') = (k, v)"
  by (induction d) (auto split: if_splits)

lemma distinct_dset: "distinct (keys d) \<Longrightarrow> distinct (keys (dset d k v))"
  by (rule dict.wf_assign)

lemma parsed_ids:
  "parse_leaf rep lid raw = Inr l \<Longrightarrow> leaf_id l = lid"
  "parse_device rep lid v = Inr d \<Longrightarrow> dev_id d = lid"
  "parse_model rep lid v = Inr m \<Longrightarrow> model_id m = lid"
  by (auto simp: parse_leaf_def parse_device_def parse_model_def bind_res_eq_Inr split: if_splits)

lemma add_wf:
  "add_leaf rep kv reg = Inr reg' \<Longrightarrow> wf_registry reg \<Longrightarrow> wf_registry reg'"
  "add_device rep kv reg = Inr reg' \<Longrightarrow> wf_registry reg \<Longrightarrow> wf_registry reg'"
  "add_model rep kv reg = Inr reg' \<Longrightarrow> wf_registry reg \<Longrightarrow> wf_registry reg'"
  by (auto simp: add_leaf_def add_device_def add_model_def bind_res_eq_Inr wf_registry_def distinct_dset
      dest!: dset_entries parsed_ids split: if_splits)

lemma load_file_wf:
  assumes "load_file add k data reg = Inr reg'" and "wf_registry reg"
    and "\<And>kv a b. add kv a = Inr b \<Longrightarrow> wf_registry a \<Longrightarrow> wf_registry b"
  shows "wf_registry reg'"
proof -
  obtain items where "fold_res add items reg = Inr reg'" using assms(1) by (auto simp: load_file_def bind_res_eq_Inr)
  then show ?thesis using assms(2) by (rule fold_res_inv) (use assms(3) in blast)
qed

lemma load_named_wf:
  assumes "load_named add name k files reg = Inr reg'" and "wf_registry reg"
    and "\<And>kv a b. add kv a = Inr b \<Longrightarrow> wf_registry a \<Longrightarrow> wf_registry b"
  shows "wf_registry reg'"
  using assms load_file_wf [of add k _ reg reg'] by (auto simp: load_named_def split: option.splits)

text \<open>Whatever the files hold, a registry that loads is well formed: ids are unique, and each leaf, device
  and model carries the id it is registered under.\<close>

theorem loaded_registry_wf:
  assumes "load_registry rep dir = Inr reg"
  shows "wf_registry reg"
proof -
  obtain files r1 r2 where r: "load_named (add_device rep) ''devices.yaml'' ''devices'' files new_registry = Inr r1"
    "load_named (add_model rep) ''models.yaml'' ''models'' files r1 = Inr r2"
    "fold_res (\<lambda>f. load_file (add_leaf rep) ''leaves'' (snd f)) (leaf_files files) r2 = Inr reg"
    using assms by (auto simp: load_registry_def bind_res_eq_Inr split: option.splits)
  have "wf_registry new_registry" by (simp add: wf_registry_def new_registry_def)
  with r(1) have "wf_registry r1" by (rule load_named_wf) (rule add_wf(2))
  with r(2) have "wf_registry r2" by (rule load_named_wf) (rule add_wf(3))
  with r(3) show ?thesis by (rule fold_res_inv) (auto intro: load_file_wf add_wf(1))
qed

definition demo_files :: "(string \<times> json) list" where
  "demo_files =
    [(''tts.yaml'', JObj [(''leaves'', JObj [(''t'', JObj [(''capability'', JStr ''tts''), (''requires'', JList [JStr ''a''])])])]),
     (''devices.yaml'', JObj [(''devices'', JObj [(''nx'', JObj [(''unified_mb'', JInt 1000)])])]),
     (''asr.yaml'', JObj [(''leaves'', JObj [(''a'', JObj [(''capability'', JStr ''asr''),
        (''artifacts'', JObj [(''hf_repo'', JStr ''r''), (''files'', JStr ''f'')])])])])]"

theorem loaded_registry_wf_witness:
  "\<exists>reg. load_registry (\<lambda>_. []) (Some demo_files) = Inr reg \<and> wf_registry reg"
proof -
  have "is_ok (load_registry (\<lambda>_. []) (Some demo_files))" by code_simp
  then obtain reg where "load_registry (\<lambda>_. []) (Some demo_files) = Inr reg" by (auto simp: is_ok_def split: sum.splits)
  with loaded_registry_wf [OF this] show ?thesis by blast
qed

subsection \<open>Validation accepts exactly the sound compositions\<close>

text \<open>The rules of a composition, stated on the leaves themselves: all are registered, no two give the same
  capability, all known families agree, an accelerator is claimed twice only under serial admission, and
  the needed leaves, each counted once, fit next to the device's reservation.\<close>

definition same_family :: "leaf list \<Rightarrow> bool" where
  "same_family ls \<longleftrightarrow>
     (\<forall>a \<in> set ls. \<forall>b \<in> set ls. backend_family a = None \<or> backend_family b = None \<or> backend_family a = backend_family b)"

definition fits :: "registry \<Rightarrow> device_spec \<Rightarrow> string list \<Rightarrow> bool" where
  "fits reg dev selected \<longleftrightarrow>
     base_reservation_mb dev + (\<Sum>k | needed reg selected k. peak_unified_mb (the (dget (leaves reg) k))) \<le> headroom reg dev"

definition composable :: "(json \<Rightarrow> string) \<Rightarrow> string \<Rightarrow> string list \<Rightarrow> registry \<Rightarrow> string option \<Rightarrow> bool" where
  "composable rep device selected reg adm \<longleftrightarrow>
     (\<exists>dev ls. dget (devices reg) device = Some dev \<and> map (dget (leaves reg)) selected = map Some ls \<and>
        distinct (map capability ls) \<and> same_family ls \<and>
        (adm = Some ''serial'' \<or> distinct (List.map_filter (exclusive_of rep) ls)) \<and>
        (\<forall>k. needed reg selected k \<longrightarrow> dget (leaves reg) k \<noteq> None) \<and> fits reg dev selected)"

lemma claim_capabilities:
  "is_ok (fold_res (claim_capability reg) ids bc) \<longleftrightarrow>
     (\<exists>ls. map (dget (leaves reg)) ids = map Some ls \<and> distinct (map capability ls) \<and>
        capability ` set ls \<inter> set (keys bc) = {})"
proof (induction ids arbitrary: bc)
  case Nil
  show ?case by simp
next
  case (Cons i ids)
  show ?case
  proof (cases "dget (leaves reg) i")
    case None
    then show ?thesis by (auto simp: claim_capability_def get_leaf_def)
  next
    case (Some l)
    have "is_ok (fold_res (claim_capability reg) (i # ids) bc) \<longleftrightarrow> capability l \<notin> set (keys bc) \<and>
        is_ok (fold_res (claim_capability reg) ids (dset bc (capability l) i))"
      using dget_None_iff [of bc "capability l"]
      by (auto simp: claim_capability_def get_leaf_def Some split: option.split)
    then show ?thesis unfolding Cons.IH by (auto simp: Some keys_dset Cons_eq_map_conv)
  qed
qed

lemma claim_families:
  assumes "map (dget (leaves reg)) ids = map Some ls" and "distinct (keys fams)"
  shows "\<exists>fams'. fold_res (claim_family reg) ids fams = Inr fams' \<and> distinct (keys fams') \<and>
    set (keys fams') = set (keys fams) \<union> set (List.map_filter backend_family ls)"
  using assms
proof (induction ids arbitrary: ls fams)
  case Nil
  then show ?case by (simp add: List.map_filter_def)
next
  case (Cons i ids)
  then obtain l ls' where ls: "ls = l # ls'" "dget (leaves reg) i = Some l" "map (dget (leaves reg)) ids = map Some ls'"
    by auto
  define fams1 where "fams1 = (case backend_family l of None \<Rightarrow> fams | Some f \<Rightarrow> setdefault fams f i)"
  have "distinct (keys fams1)" "set (keys fams1) = set (keys fams) \<union> set (List.map_filter backend_family [l])"
    using Cons.prems(2)
    by (auto simp: fams1_def setdefault_def dget_None_iff List.map_filter_def split: option.split dest!: dget_in)
      (force simp: keys_def)+
  with Cons.IH [OF ls(3), of fams1] ls show ?case
    by (auto simp: claim_family_def get_leaf_def fams1_def List.map_filter_def split: option.splits)
qed

lemma set_mf: "set (List.map_filter f xs) = {y. \<exists>x \<in> set xs. f x = Some y}"
  by (force simp: List.map_filter_def)

lemma family_count:
  assumes "distinct (keys fams)" and "set (keys fams) = set (List.map_filter backend_family ls)"
  shows "length fams \<le> 1 \<longleftrightarrow> same_family ls"
proof -
  have "length fams = card (set (keys fams))" using distinct_card [OF assms(1)] by (simp add: keys_def)
  then have "length fams \<le> 1 \<longleftrightarrow> (\<forall>x \<in> set (keys fams). \<forall>y \<in> set (keys fams). x = y)"
    by (simp add: card_le_Suc0_iff_eq)
  moreover have agree: "(u = None \<or> v = None \<or> u = v) \<longleftrightarrow> (\<forall>x y. u = Some x \<longrightarrow> v = Some y \<longrightarrow> x = y)" for u v :: "string option"
    by (cases u; cases v) auto
  ultimately show ?thesis unfolding assms(2) same_family_def set_mf agree by (simp only: mem_Collect_eq Ball_def) metis
qed

definition holders :: "(string \<times> string list) list \<Rightarrow> string \<Rightarrow> nat" where
  "holders excl r = (case dget excl r of Some hs \<Rightarrow> length hs | None \<Rightarrow> 0)"

lemma claim_exclusives:
  assumes "map (dget (leaves reg)) ids = map Some ls" and "distinct (keys excl)"
  shows "\<exists>excl'. fold_res (claim_exclusive rep reg) ids excl = Inr excl' \<and> distinct (keys excl') \<and>
    (\<forall>r. holders excl' r = holders excl r + count_list (List.map_filter (exclusive_of rep) ls) r)"
  using assms
proof (induction ids arbitrary: ls excl)
  case Nil
  then show ?case by (simp add: List.map_filter_def)
next
  case (Cons i ids)
  then obtain l ls' where ls: "ls = l # ls'" "dget (leaves reg) i = Some l" "map (dget (leaves reg)) ids = map Some ls'"
    by auto
  define excl1 where "excl1 = (case exclusive_of rep l of None \<Rightarrow> excl
    | Some r \<Rightarrow> dset excl r ((case dget excl r of Some hs \<Rightarrow> hs | None \<Rightarrow> []) @ [i]))"
  have e: "distinct (keys excl1)"
    "\<And>r. holders excl1 r = holders excl r + count_list (List.map_filter (exclusive_of rep) [l]) r"
    using Cons.prems(2)
    by (auto simp: excl1_def holders_def dget_dset distinct_dset List.map_filter_def split: option.split)
  have "claim_exclusive rep reg i excl = Inr excl1"
    by (simp add: claim_exclusive_def get_leaf_def ls(2) excl1_def split: option.split)
  moreover have "count_list (List.map_filter (exclusive_of rep) (l # ls')) r =
      count_list (List.map_filter (exclusive_of rep) [l]) r + count_list (List.map_filter (exclusive_of rep) ls') r" for r
    by (simp add: List.map_filter_def)
  ultimately show ?case using Cons.IH [OF ls(3) e(1)] e(2) by (auto simp: ls(1))
qed

lemma distinct_iff_count: "distinct xs \<longleftrightarrow> (\<forall>x. count_list xs x \<le> 1)"
proof (induction xs)
  case (Cons a xs)
  show ?case
  proof (cases "a \<in> set xs")
    case True
    then have "\<not> count_list (a # xs) a \<le> 1" by (simp add: count_list_0_iff)
    with True show ?thesis by auto
  next
    case False
    then have "count_list (a # xs) x \<le> 1 \<longleftrightarrow> count_list xs x \<le> 1" for x
      using count_list_0_iff [of xs a] by auto
    with False Cons.IH show ?thesis by simp
  qed
qed simp

lemma dget_iff: "distinct (keys d) \<Longrightarrow> dget d k = Some v \<longleftrightarrow> (k, v) \<in> set d"
proof
  show "(k, v) \<in> set d \<Longrightarrow> dget d k = Some v" if "distinct (keys d)"
    using that by (induction d) (auto simp: keys_def rev_image_eqI)
qed (rule dget_in)

lemma holders_more: "holders excl r > 1 \<longleftrightarrow> (\<exists>hs. dget excl r = Some hs \<and> length hs > 1)"
  by (simp add: holders_def split: option.split)

lemma exclusive_check:
  assumes "distinct (keys excl)"
  shows "is_ok (check_exclusive adm excl) \<longleftrightarrow> adm = Some ''serial'' \<or> (\<forall>r. holders excl r \<le> 1)"
proof -
  have "(\<exists>(r, hs) \<in> set excl. length hs > 1) \<longleftrightarrow> (\<exists>r. holders excl r > 1)"
    unfolding holders_more by (auto simp: dget_iff [OF assms])
  then have "(\<forall>(r, hs) \<in> set excl. \<not> length hs > 1) \<longleftrightarrow> (\<forall>r. holders excl r \<le> 1)"
    by (auto simp: not_less [symmetric])
  moreover have "is_ok (check_exclusive adm excl) \<longleftrightarrow>
      filter (\<lambda>(r, hs). length hs > 1 \<and> adm \<noteq> Some ''serial'') excl = []"
    by (simp add: check_exclusive_def split: list.split)
  ultimately show ?thesis by (auto simp: filter_empty_conv)
qed

lemma needed_sum:
  assumes "expand reg ids = Inr ls"
  shows "sum_list (map f ls) = (\<Sum>k | needed reg ids k. f (the (dget (leaves reg) k)))"
proof -
  obtain ks where ks: "distinct ks" "set ks = {k. needed reg ids k}" "map (dget (leaves reg)) ks = map Some ls"
    using expand_Inr [OF assms] by blast
  have "map f ls = map (f \<circ> the) (map Some ls)" by simp
  also have "\<dots> = map (\<lambda>k. f (the (dget (leaves reg) k))) ks" unfolding ks(3) [symmetric] by simp
  finally show ?thesis using sum_list_distinct_conv_sum_set [OF ks(1)] by (simp add: ks(2))
qed

lemma expand_ok: "is_ok (expand reg ids) \<longleftrightarrow> (\<forall>k. needed reg ids k \<longrightarrow> dget (leaves reg) k \<noteq> None)"
proof (cases "expand reg ids")
  case (Inl err)
  then have "visit_all reg ids ([], {}) = Inl err" by (auto simp: expand_def bind_res_eq_Inl)
  with Inl visit_all_Inl show ?thesis by fastforce
next
  case (Inr ls)
  from expand_Inr [OF this] obtain ks where "set ks = {k. needed reg ids k}" "map (dget (leaves reg)) ks = map Some ls"
    by blast
  moreover from this(2) have "\<forall>k \<in> set ks. dget (leaves reg) k \<noteq> None"
    by (metis image_eqI imageE list.set_map option.distinct(1))
  ultimately show ?thesis using Inr by auto
qed

lemma is_ok_bind: "is_ok (bind_res r f) \<longleftrightarrow> (\<exists>a. r = Inr a \<and> is_ok (f a))"
  by (cases r) auto

lemma is_ok_iff: "is_ok r \<longleftrightarrow> (\<exists>a. r = Inr a)"
  by (cases r) auto

lemma composable_at:
  assumes "dget (devices reg) device = Some dev" and "map (dget (leaves reg)) selected = map Some ls"
  shows "composable rep device selected reg adm \<longleftrightarrow> distinct (map capability ls) \<and> same_family ls \<and>
     (adm = Some ''serial'' \<or> distinct (List.map_filter (exclusive_of rep) ls)) \<and>
     (\<forall>k. needed reg selected k \<longrightarrow> dget (leaves reg) k \<noteq> None) \<and> fits reg dev selected"
proof -
  have "map (dget (leaves reg)) selected = map Some ls' \<longleftrightarrow> ls' = ls" for ls' using assms(2) by (auto simp: map_injective)
  then show ?thesis unfolding composable_def assms(1) option.inject by simp
qed

text \<open>C12: Validation succeeds exactly for the compositions that follow the rules.\<close>

theorem validate_iff_composable:
  "is_ok (validate_composition rep device selected reg adm) \<longleftrightarrow> composable rep device selected reg adm"
proof (cases "dget (devices reg) device")
  case None
  then show ?thesis by (simp add: validate_composition_def composable_def)
next
  case (Some dev)
  show ?thesis
  proof (cases "is_ok (fold_res (claim_capability reg) selected [])")
    case False
    then obtain err where "fold_res (claim_capability reg) selected [] = Inl err"
      by (cases "fold_res (claim_capability reg) selected []") auto
    then have "\<not> is_ok (validate_composition rep device selected reg adm)" by (simp add: validate_composition_def Some)
    with False claim_capabilities [of reg selected "[]"] show ?thesis by (auto simp: composable_def)
  next
    case True
    then obtain ls where ls: "map (dget (leaves reg)) selected = map Some ls" "distinct (map capability ls)"
      using claim_capabilities [of reg selected "[]"] by auto
    obtain bc where bc: "fold_res (claim_capability reg) selected [] = Inr bc" using True by (auto simp: is_ok_iff)
    obtain fams where fams: "fold_res (claim_family reg) selected [] = Inr fams" "distinct (keys fams)"
      "set (keys fams) = set (List.map_filter backend_family ls)"
      using claim_families [OF ls(1), of "[]"] by auto
    obtain excl where excl: "fold_res (claim_exclusive rep reg) selected [] = Inr excl" "distinct (keys excl)"
      "\<And>r. holders excl r = count_list (List.map_filter (exclusive_of rep) ls) r"
      using claim_exclusives [OF ls(1), of "[]" rep] by (auto simp: holders_def)
    have e: "is_ok (check_exclusive adm excl) \<longleftrightarrow> adm = Some ''serial'' \<or> distinct (List.map_filter (exclusive_of rep) ls)"
      unfolding exclusive_check [OF excl(2)] excl(3) distinct_iff_count ..
    have b: "is_ok (bind_res (expand reg selected) (\<lambda>expanded.
          let peak = base_reservation_mb dev + sum_list (map peak_unified_mb expanded)
          in if peak > headroom reg dev then Inl (OverBudget peak (headroom reg dev)) else Inr (p peak expanded)))
        \<longleftrightarrow> (\<forall>k. needed reg selected k \<longrightarrow> dget (leaves reg) k \<noteq> None) \<and> fits reg dev selected" for p :: "int \<Rightarrow> leaf list \<Rightarrow> plan"
    proof (cases "expand reg selected")
      case (Inl err)
      with expand_ok [of reg selected] show ?thesis by simp
    next
      case (Inr all)
      with expand_ok [of reg selected] show ?thesis
        by (simp add: Let_def fits_def not_less [symmetric] needed_sum [OF Inr])
    qed
    have "is_ok (validate_composition rep device selected reg adm) \<longleftrightarrow>
        length fams \<le> 1 \<and> is_ok (check_exclusive adm excl) \<and>
        (\<forall>k. needed reg selected k \<longrightarrow> dget (leaves reg) k \<noteq> None) \<and> fits reg dev selected"
      unfolding b [symmetric, of "\<lambda>peak expanded. \<lparr>plan_device = device, plan_leaf_ids = selected,
         plan_resolved = map (\<lambda>l. \<lparr>rl_leaf = l, rl_precision = resolve_precision reg l device\<rparr>) expanded,
         plan_peak = peak, plan_headroom = headroom reg dev\<rparr>"]
      by (simp add: validate_composition_def Some bc fams(1) excl(1) is_ok_bind [of "check_exclusive adm excl"]
          is_ok_iff [of "check_exclusive adm excl"] not_le)
    moreover have "composable rep device selected reg adm \<longleftrightarrow> same_family ls \<and>
        (adm = Some ''serial'' \<or> distinct (List.map_filter (exclusive_of rep) ls)) \<and>
        (\<forall>k. needed reg selected k \<longrightarrow> dget (leaves reg) k \<noteq> None) \<and> fits reg dev selected"
      using composable_at [OF Some ls(1)] ls(2) by simp
    ultimately show ?thesis unfolding e family_count [OF fams(2,3)] by simp
  qed
qed

subsection \<open>Applying never overrides the operator\<close>

lemma fill_env_keeps: "e k = Some v \<Longrightarrow> fill_env e kvs k = Some v"
  unfolding fill_env_def by (induction kvs arbitrary: e) (auto split: prod.split)

lemma fill_env_other: "k \<notin> fst ` set kvs \<Longrightarrow> fill_env e kvs k = e k"
  unfolding fill_env_def by (induction kvs arbitrary: e) (auto split: prod.split)

lemma fill_env_sets: "k \<in> fst ` set kvs \<Longrightarrow> fill_env e kvs k \<noteq> None"
proof (induction kvs arbitrary: e)
  case (Cons kv kvs)
  obtain k' v where kv: "kv = (k', v)" by fastforce
  define e1 where "e1 = (if e k' \<noteq> None then e else e(k' \<mapsto> template_subst e v))"
  have step: "fill_env e (kv # kvs) = fill_env e1 kvs" by (simp add: fill_env_def kv e1_def)
  show ?case
  proof (cases "k = k'")
    case True
    then have "e1 k \<noteq> None" by (simp add: e1_def)
    then show ?thesis unfolding step using fill_env_keeps by fastforce
  next
    case False
    with Cons.prems kv have "k \<in> fst ` set kvs" by auto
    then show ?thesis unfolding step by (rule Cons.IH)
  qed
qed simp

lemma fill_env_idem:
  assumes "\<And>k. k \<in> fst ` set kvs \<Longrightarrow> e k \<noteq> None"
  shows "fill_env e kvs = e"
  using assms by (induction kvs) (auto simp: fill_env_def split: prod.split)

text \<open>The successful branch of the call.\<close>

definition composed ::
  "(json \<Rightarrow> string) \<Rightarrow> (string \<times> json) list option \<Rightarrow> jdict \<Rightarrow> (string \<times> string) list \<Rightarrow> string list \<Rightarrow> model_source list \<Rightarrow> bool" where
  "composed rep dir profile renv pull sources \<longleftrightarrow>
     (\<exists>composition reg. jget profile ''composition'' JNull = JObj composition \<and> load_registry rep dir = Inr reg \<and>
        composable rep (jstr rep (jget composition ''device'' JNull)) (selected_leaf_ids rep composition) reg None \<and>
        resolve_pull (selected_leaf_ids rep composition) reg = Inr pull \<and>
        resolve_model_sources (selected_leaf_ids rep composition) reg = Inr sources)"

lemma apply_cases:
  "fst (apply_composition rep dumps dir profile e) = e \<and>
     (\<not> jtruthy (jget profile ''composition'' JNull) \<or> \<not> is_ok (snd (apply_composition rep dumps dir profile e)))
   \<or> (\<exists>renv pull sources. composed rep dir profile renv pull sources \<and>
        (\<forall>e'. apply_composition rep dumps dir profile e' = (publish dumps pull sources (fill_env e' renv), Inr pull)))"
proof (cases "\<exists>composition. jget profile ''composition'' JNull = JObj composition")
  case False
  then show ?thesis by (auto simp: apply_composition_def Let_def split: json.split)
next
  case True
  then obtain composition where c: "jget profile ''composition'' JNull = JObj composition" by blast
  define r where "r = bind_res (object_or_empty BadOverrides (jget composition ''overrides'' JNull)) (\<lambda>ov.
       bind_res (load_registry rep dir) (\<lambda>reg.
       bind_res (validate_composition rep (jstr rep (jget composition ''device'' JNull)) (selected_leaf_ids rep composition) reg None) (\<lambda>_.
       bind_res (resolve_env (selected_leaf_ids rep composition) reg (str_items rep ov)) (\<lambda>renv.
       bind_res (resolve_pull (selected_leaf_ids rep composition) reg) (\<lambda>pull.
       bind_res (resolve_model_sources (selected_leaf_ids rep composition) reg) (\<lambda>sources. Inr (renv, pull, sources)))))))"
  show ?thesis
  proof (cases "jtruthy (JObj composition) \<and> jtruthy (jget composition ''device'' JNull) \<and>
      selected_leaf_ids rep composition \<noteq> [] \<and> is_ok r")
    case False
    then show ?thesis
      by (cases r) (auto simp: apply_composition_def Let_def c r_def [symmetric])
  next
    case True
    then obtain renv pull sources where r: "r = Inr (renv, pull, sources)" by (auto simp: is_ok_iff)
    have "composed rep dir profile renv pull sources"
      using r c unfolding r_def composed_def
      by (auto simp: bind_res_eq_Inr validate_iff_composable [symmetric] is_ok_iff)
    moreover have "apply_composition rep dumps dir profile e' = (publish dumps pull sources (fill_env e' renv), Inr pull)" for e'
      using True by (simp add: apply_composition_def Let_def c r_def [symmetric] r)
    ultimately show ?thesis by blast
  qed
qed

text \<open>Applying a composition never changes a variable the operator has set, apart from the two that
  publish what to download; when it fails, or the profile has no composition, nothing changes at all;
  and applying it again changes nothing further.\<close>

theorem operator_env_wins:
  assumes "apply_composition rep dumps dir profile e = (e', r)"
  shows "(e k \<noteq> None \<and> k \<notin> {PULL_FILES_ENV, MODEL_SOURCES_ENV} \<longrightarrow> e' k = e k) \<and>
    (\<not> is_ok r \<longrightarrow> e' = e) \<and> (\<not> jtruthy (jget profile ''composition'' JNull) \<longrightarrow> e' = e) \<and>
    apply_composition rep dumps dir profile e' = (e', r)"
  using apply_cases [of rep dumps dir profile e]
proof (elim disjE exE conjE)
  fix renv pull sources
  assume a: "\<forall>e'. apply_composition rep dumps dir profile e' = (publish dumps pull sources (fill_env e' renv), Inr pull)"
    and c: "composed rep dir profile renv pull sources"
  have e': "e' = publish dumps pull sources (fill_env e renv)" "r = Inr pull" using a assms by auto
  have "e' k = e k" if "e k \<noteq> None" "k \<notin> {PULL_FILES_ENV, MODEL_SOURCES_ENV}"
    using that fill_env_keeps [of e k] by (auto simp: e'(1) publish_def Let_def)
  moreover have "fill_env e' renv = e'"
  proof (rule fill_env_idem)
    show "k \<in> fst ` set renv \<Longrightarrow> e' k \<noteq> None" for k
      using fill_env_sets [of k renv e] by (auto simp: e'(1) publish_def Let_def)
  qed
  moreover have "publish dumps pull sources e' = e'" by (auto simp: e'(1) publish_def Let_def fun_eq_iff)
  moreover have "\<not> jtruthy (jget profile ''composition'' JNull) \<Longrightarrow> e' = e"
    using assms by (simp add: apply_composition_def Let_def)
  ultimately show ?thesis using a e'(2) by simp
qed (use assms in auto)

definition demo_composition :: jdict where
  "demo_composition = [(''composition'', JObj [(''device'', JStr ''nx''), (''asr'', JStr ''a''),
     (''overrides'', JObj [(''K'', JStr ''v''), (''J'', JStr ''${K}w'')])])]"

theorem operator_env_wins_witness:
  "fst (apply_composition (\<lambda>_. []) (\<lambda>_. []) (Some demo_files) demo_composition [''K'' \<mapsto> ''x'']) ''K'' = Some ''x''"
proof -
  obtain e' r where r: "apply_composition (\<lambda>_. []) (\<lambda>_. []) (Some demo_files) demo_composition [''K'' \<mapsto> ''x''] = (e', r)"
    by fastforce
  have "''K'' \<notin> {PULL_FILES_ENV, MODEL_SOURCES_ENV}" by code_simp
  with operator_env_wins [OF r, of "''K''"] show ?thesis by (simp add: r)
qed

lemma demo_composition_applies:
  "snd (apply_composition (\<lambda>_. []) (\<lambda>_. []) (Some demo_files) demo_composition [''K'' \<mapsto> ''x'']) = Inr [''f'']"
  "fst (apply_composition (\<lambda>_. []) (\<lambda>_. []) (Some demo_files) demo_composition [''K'' \<mapsto> ''x'']) ''J'' = Some ''vw''"
  by code_simp+

end
