(* ===== verification/AgentSession.thy ===== *)
theory AgentSession
  imports Json "HOL-Library.Sublist"
begin

section \<open>The conversation of the voice agent\<close>

text \<open>
  \<^verbatim>\<open>agent/ovs_agent/session.py\<close>: the message history of one conversation, its latches for the caches
  of the language-model server, the trimming of the prompt to the token budget, and the recovery from
  echo loops. Text is a list of code points. The tokenizer is third-party: it is a parameter, with the
  estimate the code falls back to written out. \<open>dumps\<close> is \<open>json.dumps\<close> of tool calls, which may raise.
  The event bus, when one is attached, is the list of what was emitted.
\<close>

subsection \<open>State\<close>

text \<open>A message: \<open>m_calls\<close> and \<open>m_tool_id\<close> are \<^const>\<open>None\<close> where the key is absent; a null content is
  \<^const>\<open>None\<close>.\<close>

record msg =
  m_role :: string
  m_content :: "ustr option"
  m_calls :: "json list option"
  m_tool_id :: "string option"

definition user_msg :: "ustr \<Rightarrow> msg" where
  "user_msg t = \<lparr>m_role = ''user'', m_content = Some t, m_calls = None, m_tool_id = None\<rparr>"

definition system_msg :: "ustr \<Rightarrow> msg" where
  "system_msg t = \<lparr>m_role = ''system'', m_content = Some t, m_calls = None, m_tool_id = None\<rparr>"

definition assistant_msg :: "ustr \<Rightarrow> msg" where
  "assistant_msg t = \<lparr>m_role = ''assistant'', m_content = Some t, m_calls = None, m_tool_id = None\<rparr>"

definition calls_msg :: "ustr option \<Rightarrow> json list \<Rightarrow> msg" where
  "calls_msg content calls = \<lparr>m_role = ''assistant'', m_content = content, m_calls = Some calls, m_tool_id = None\<rparr>"

definition tool_msg :: "string \<Rightarrow> ustr \<Rightarrow> msg" where
  "tool_msg i t = \<lparr>m_role = ''tool'', m_content = Some t, m_calls = None, m_tool_id = Some i\<rparr>"

text \<open>Payloads put on the bus, without the session id.\<close>

datatype bus_event =
  EchoRecovery nat ustr
| Trimmed nat nat int int int
| TrimmedFallback nat nat int int int
| IterationLimit int nat

record session =
  history :: "msg list"
  prefix_cache_warmed :: bool
  graph_warmed :: bool
  max_input_tokens :: "int option"
  prefix_cache_disabled :: bool
  event_bus :: "bus_event list option"

definition new_session :: "int option \<Rightarrow> bus_event list option \<Rightarrow> session" where
  "new_session mx bus = \<lparr>history = [], prefix_cache_warmed = False, graph_warmed = False, max_input_tokens = mx,
     prefix_cache_disabled = False, event_bus = bus\<rparr>"

definition bus_emit :: "bus_event \<Rightarrow> session \<Rightarrow> session" where
  "bus_emit ev s = s\<lparr>event_bus := map_option (\<lambda>evs. evs @ [ev]) (event_bus s)\<rparr>"

definition clear_session :: "session \<Rightarrow> session" where
  "clear_session s = s\<lparr>history := [], prefix_cache_warmed := False, graph_warmed := False, prefix_cache_disabled := False\<rparr>"

definition append_msg :: "msg \<Rightarrow> session \<Rightarrow> session" where
  "append_msg m s = s\<lparr>history := history s @ [m]\<rparr>"

subsection \<open>Echo recovery\<close>

definition ECHO_WINDOW :: nat where "ECHO_WINDOW = 3"
definition ECHO_MAX_LEN :: nat where "ECHO_MAX_LEN = 40"

definition assistant_texts :: "msg list \<Rightarrow> ustr list" where
  "assistant_texts h = List.map_filter (\<lambda>m. if m_role m = ''assistant'' then m_content m else None) h"

definition last_texts :: "nat \<Rightarrow> 'a list \<Rightarrow> 'a list" where
  "last_texts n xs = drop (length xs - n) xs"

text \<open>\<open>maybe_recover_from_echo\<close>: the early returns, then the wipe and the event.\<close>

definition echo_locked :: "msg list \<Rightarrow> bool" where
  "echo_locked h \<longleftrightarrow>
     \<not> length h < ECHO_WINDOW \<and> \<not> length (assistant_texts h) < ECHO_WINDOW \<and>
     (let texts = last_texts ECHO_WINDOW (assistant_texts h)
      in \<not> length (hd texts) > ECHO_MAX_LEN \<and> \<not> list_ex (\<lambda>t. t \<noteq> hd texts) texts)"

definition maybe_recover_from_echo :: "session \<Rightarrow> session" where
  "maybe_recover_from_echo s =
     (if echo_locked (history s)
      then bus_emit (EchoRecovery ECHO_WINDOW (take 120 (last (assistant_texts (history s))))) (clear_session s)
      else s)"

subsection \<open>Operations\<close>

definition add_user :: "ustr \<Rightarrow> session \<Rightarrow> session" where
  "add_user t s = append_msg (user_msg t) s"

definition add_assistant :: "ustr \<Rightarrow> session \<Rightarrow> session" where
  "add_assistant t s = maybe_recover_from_echo (append_msg (assistant_msg t) s)"

definition add_assistant_tool_calls :: "ustr option \<Rightarrow> json list \<Rightarrow> session \<Rightarrow> session" where
  "add_assistant_tool_calls content calls s = append_msg (calls_msg content calls) s"

definition add_tool_result :: "string \<Rightarrow> ustr \<Rightarrow> session \<Rightarrow> session" where
  "add_tool_result i t s = append_msg (tool_msg i t) s"

definition rollback_to :: "int \<Rightarrow> session \<Rightarrow> nat \<times> session" where
  "rollback_to anchor s =
     (let a = nat (max 0 anchor)
      in if a \<ge> length (history s) then (0, s)
         else (length (history s) - a, s\<lparr>history := take a (history s)\<rparr>))"

definition reset_session :: "session \<Rightarrow> session" where
  "reset_session s = clear_session s"

subsection \<open>Counting tokens\<close>

text \<open>\<open>ceil(len * 1.5)\<close>, at least 1.\<close>

definition fallback_estimate :: "ustr \<Rightarrow> int" where
  "fallback_estimate t = max 1 ((3 * int (length t) + 1) div 2)"

text \<open>A tokenizer that could not be loaded is \<^const>\<open>None\<close>; encoding may raise.\<close>

type_synonym tokenizer = "(ustr \<Rightarrow> int option) option"

definition count_tokens :: "tokenizer \<Rightarrow> ustr \<Rightarrow> int" where
  "count_tokens tk t =
     (case tk of
        None \<Rightarrow> fallback_estimate t
      | Some encode \<Rightarrow> (case encode t of Some n \<Rightarrow> n | None \<Rightarrow> fallback_estimate t))"

text \<open>The cache over model names: a failed load is cached as well.\<close>

definition get_tokenizer ::
  "(string \<Rightarrow> tokenizer) \<Rightarrow> string \<Rightarrow> (string \<times> tokenizer) list \<Rightarrow> tokenizer \<times> (string \<times> tokenizer) list" where
  "get_tokenizer load name cache =
     (case dget cache name of Some tk \<Rightarrow> (tk, cache) | None \<Rightarrow> (load name, dset cache name (load name)))"

definition count_text :: "(ustr \<Rightarrow> int) option \<Rightarrow> tokenizer \<Rightarrow> ustr \<Rightarrow> int" where
  "count_text counter tk t = (case counter of Some f \<Rightarrow> f t | None \<Rightarrow> count_tokens tk t)"

definition msg_tokens :: "(ustr \<Rightarrow> int) \<Rightarrow> (json list \<Rightarrow> ustr option) \<Rightarrow> msg \<Rightarrow> int" where
  "msg_tokens count dumps m =
     (case m_content m of None \<Rightarrow> 0 | Some t \<Rightarrow> if t = [] then 0 else count t)
     + (case m_calls m of None \<Rightarrow> 0
        | Some cs \<Rightarrow> if cs = [] then 0 else case dumps cs of Some t \<Rightarrow> count t | None \<Rightarrow> 0)
     + 4"

subsection \<open>Trimming the prompt\<close>

definition token_budget :: "int \<Rightarrow> int" where
  "token_budget mx = (if mx < 0 then - ((- mx * 3) div 4) else mx * 3 div 4)"

definition not_user :: "msg \<Rightarrow> bool" where
  "not_user m \<longleftrightarrow> m_role m \<noteq> ''user''"

function split_turns :: "msg list \<Rightarrow> msg list list" where
  "split_turns [] = []"
| "split_turns (m # ms) = (m # takeWhile not_user ms) # split_turns (dropWhile not_user ms)"
  by pat_completeness auto
termination
  by (relation "measure length") (auto simp: le_imp_less_Suc length_dropWhile_le)

definition turns_of :: "msg list \<Rightarrow> msg list list" where
  "turns_of rest = split_turns (dropWhile not_user rest)"

definition total_tokens :: "(msg \<Rightarrow> int) \<Rightarrow> msg list \<Rightarrow> int" where
  "total_tokens tok ms = sum_list (map tok ms)"

text \<open>The loop that pops whole messages, for a history without any user message.\<close>

fun drop_messages :: "(msg \<Rightarrow> int) \<Rightarrow> int \<Rightarrow> int \<Rightarrow> msg list \<Rightarrow> msg list \<times> int \<times> nat" where
  "drop_messages tok budget tokens [] = ([], tokens, 0)"
| "drop_messages tok budget tokens (m # ms) =
     (if tokens > budget
      then (case drop_messages tok budget (tokens - tok m) ms of (kept, t, n) \<Rightarrow> (kept, t, Suc n))
      else (m # ms, tokens, 0))"

fun drop_turns :: "(msg \<Rightarrow> int) \<Rightarrow> int \<Rightarrow> nat \<Rightarrow> int \<Rightarrow> msg list list \<Rightarrow> msg list list \<times> int \<times> nat" where
  "drop_turns tok budget min_keep tokens [] = ([], tokens, 0)"
| "drop_turns tok budget min_keep tokens (t # ts) =
     (if tokens > budget \<and> length (t # ts) > min_keep
      then (case drop_turns tok budget min_keep (tokens - total_tokens tok t) ts of (kept, tot, n) \<Rightarrow> (kept, tot, Suc n))
      else (t # ts, tokens, 0))"

definition is_complete :: "msg list \<Rightarrow> bool" where
  "is_complete turn \<longleftrightarrow> turn \<noteq> [] \<and> m_role (last turn) = ''assistant'' \<and> m_content (last turn) \<noteq> None \<and>
     (case m_calls (last turn) of None \<Rightarrow> True | Some cs \<Rightarrow> cs = [])"

definition trim_unanchored :: "(msg \<Rightarrow> int) \<Rightarrow> int \<Rightarrow> msg \<Rightarrow> msg list \<Rightarrow> session \<Rightarrow> msg list \<times> session" where
  "trim_unanchored tok mx sys rest s =
     (if total_tokens tok rest \<le> token_budget mx then (sys # rest, s)
      else case drop_messages tok (token_budget mx) (total_tokens tok rest) rest of (kept, left, dropped) \<Rightarrow>
             (sys # kept, bus_emit (TrimmedFallback dropped (length kept) left (token_budget mx) mx)
                            (s\<lparr>prefix_cache_warmed := False\<rparr>)))"

text \<open>The last turn is pinned when it is not complete.\<close>

definition trim_turns :: "(msg \<Rightarrow> int) \<Rightarrow> int \<Rightarrow> msg \<Rightarrow> msg list \<Rightarrow> msg list list \<Rightarrow> session \<Rightarrow> msg list \<times> session" where
  "trim_turns tok mx sys rest turns s =
     (let pinned = \<not> is_complete (last turns);
          trailing = (if pinned then last turns else []);
          dynamic = (if pinned then butlast turns else turns);
          tokens = total_tokens tok trailing + sum_list (map (total_tokens tok) dynamic)
      in if tokens \<le> token_budget mx then (sys # rest, s)
         else case drop_turns tok (token_budget mx) (if trailing \<noteq> [] then 0 else 1) tokens dynamic of
                (kept, left, dropped) \<Rightarrow>
                  (sys # concat kept @ trailing,
                   if dropped > 0
                   then bus_emit (Trimmed dropped (length kept) left (token_budget mx) mx) (s\<lparr>prefix_cache_warmed := False\<rparr>)
                   else s))"

definition trim_to_budget :: "(msg \<Rightarrow> int) \<Rightarrow> int \<Rightarrow> msg list \<Rightarrow> session \<Rightarrow> msg list \<times> session" where
  "trim_to_budget tok mx ms s =
     (case ms of
        [] \<Rightarrow> ([], s)
      | sys # rest \<Rightarrow>
          if rest = [] then (ms, s)
          else if turns_of rest = [] then trim_unanchored tok mx sys rest s
          else trim_turns tok mx sys rest (turns_of rest) s)"

definition session_messages :: "(msg \<Rightarrow> int) \<Rightarrow> ustr \<Rightarrow> session \<Rightarrow> msg list \<times> session" where
  "session_messages tok system_prompt s =
     (let base = system_msg system_prompt # history s
      in case max_input_tokens s of None \<Rightarrow> (base, s) | Some mx \<Rightarrow> trim_to_budget tok mx base s)"

subsection \<open>Turns\<close>

lemma split_turns_concat: "concat (split_turns ms) = ms"
  by (induction ms rule: split_turns.induct) simp_all

lemma split_turns_user: "ms = [] \<or> \<not> not_user (hd ms) \<Longrightarrow> t \<in> set (split_turns ms) \<Longrightarrow>
    \<exists>u rest. t = u # rest \<and> \<not> not_user u \<and> list_all not_user rest"
proof (induction ms rule: split_turns.induct)
  case (2 m ms)
  have "dropWhile not_user ms = [] \<or> \<not> not_user (hd (dropWhile not_user ms))"
    using hd_dropWhile by blast
  with 2 show ?case by (auto simp: list_all_iff dest: set_takeWhileD)
qed simp

lemma turns_shape: "t \<in> set (turns_of h) \<Longrightarrow> \<exists>u rest. t = u # rest \<and> \<not> not_user u \<and> list_all not_user rest"
proof -
  have "dropWhile not_user h = [] \<or> \<not> not_user (hd (dropWhile not_user h))" using hd_dropWhile by blast
  then show "t \<in> set (turns_of h) \<Longrightarrow> ?thesis" unfolding turns_of_def by (rule split_turns_user)
qed

lemma turns_concat: "takeWhile not_user h @ concat (turns_of h) = h"
  by (simp add: turns_of_def split_turns_concat)

lemma split_turns_empty: "split_turns ms = [] \<longleftrightarrow> ms = []"
  by (cases ms) simp_all

lemma turns_empty: "turns_of h = [] \<longleftrightarrow> list_all not_user h"
  by (simp add: turns_of_def split_turns_empty list_all_iff)

subsection \<open>Trimming drops the fewest turns\<close>

text \<open>The specification: the least number of oldest turns whose removal brings the rest within the budget,
  but never the latest turn.\<close>

definition enough :: "(msg \<Rightarrow> int) \<Rightarrow> int \<Rightarrow> msg list list \<Rightarrow> nat \<Rightarrow> bool" where
  "enough tok budget turns d \<longleftrightarrow> total_tokens tok (concat (drop d turns)) \<le> budget \<or> Suc d = length turns"

definition trim_point :: "(msg \<Rightarrow> int) \<Rightarrow> int \<Rightarrow> msg list list \<Rightarrow> nat" where
  "trim_point tok budget turns = (LEAST d. enough tok budget turns d)"

lemma total_tokens_simps [simp]: "total_tokens tok [] = 0" "total_tokens tok (a @ b) = total_tokens tok a + total_tokens tok b"
  by (simp_all add: total_tokens_def)

lemma total_tokens_concat: "total_tokens tok (concat ts) = sum_list (map (total_tokens tok) ts)"
  by (induction ts) simp_all

lemma drop_turns_spec:
  assumes "drop_turns tok budget mk tokens ts = (kept, tot, n)" and "tokens = c + sum_list (map (total_tokens tok) ts)"
  shows "kept = drop n ts \<and> tot = c + sum_list (map (total_tokens tok) kept) \<and> n \<le> length ts \<and>
    (tot \<le> budget \<or> length kept \<le> mk) \<and>
    (\<forall>d < n. c + sum_list (map (total_tokens tok) (drop d ts)) > budget \<and> length ts - d > mk)"
  using assms
proof (induction tok budget mk tokens ts arbitrary: kept tot n rule: drop_turns.induct)
  case (2 tok budget mk tokens t ts)
  show ?case
  proof (cases "tokens > budget \<and> length (t # ts) > mk")
    case False
    with "2.prems" show ?thesis by auto
  next
    case True
    obtain k to m where r: "drop_turns tok budget mk (tokens - total_tokens tok t) ts = (k, to, m)"
      by (cases "drop_turns tok budget mk (tokens - total_tokens tok t) ts")
    have "kept = k" "tot = to" "n = Suc m" using "2.prems"(1) True r by auto
    moreover have "tokens - total_tokens tok t = c + sum_list (map (total_tokens tok) ts)" using "2.prems"(2) by simp
    note "2.IH" [OF True r this]
    ultimately show ?thesis using True "2.prems"(2) by (auto simp: less_Suc_eq_0_disj)
  qed
qed simp

text \<open>The two cases of the code, a pinned last turn or none, as one.\<close>

lemma drop_turns_least:
  assumes "drop_turns tok budget mk tokens dyn = (kept, left, n)"
    and "tokens = total_tokens tok (concat pinned) + sum_list (map (total_tokens tok) dyn)"
    and "length pinned + mk = 1" and "dyn @ pinned \<noteq> []"
  shows "concat kept @ concat pinned = concat (drop n (dyn @ pinned)) \<and> n = trim_point tok budget (dyn @ pinned)"
proof -
  note spec = drop_turns_spec [OF assms(1,2)]
  then have n: "n \<le> length dyn" "kept = drop n dyn" by auto
  have sums: "total_tokens tok (concat (drop d (dyn @ pinned)))
      = total_tokens tok (concat pinned) + sum_list (map (total_tokens tok) (drop d dyn))" if "d \<le> length dyn" for d
    using that by (simp add: total_tokens_concat)
  have lt: "n < length (dyn @ pinned)"
  proof (cases n)
    case 0
    with assms(4) show ?thesis by simp
  next
    case (Suc d)
    then have "length dyn - d > mk" using spec by blast
    with Suc assms(3) show ?thesis by simp
  qed
  have "trim_point tok budget (dyn @ pinned) = n"
    unfolding trim_point_def
  proof (rule Least_equality)
    have "length kept \<le> mk \<Longrightarrow> Suc n = length (dyn @ pinned)" using n lt assms(3) by simp
    then show "enough tok budget (dyn @ pinned) n"
      unfolding enough_def sums [OF n(1)] using spec by auto
  next
    fix d
    assume e: "enough tok budget (dyn @ pinned) d"
    show "n \<le> d"
    proof (rule ccontr)
      assume "\<not> n \<le> d"
      then have d: "d < n" by simp
      with spec have "total_tokens tok (concat pinned) + sum_list (map (total_tokens tok) (drop d dyn)) > budget"
        "length dyn - d > mk" by blast+
      with e d n(1) assms(3) show False unfolding enough_def by (simp add: sums total_tokens_concat)
    qed
  qed
  then show ?thesis using n by simp
qed

lemma trim_turns_spec:
  assumes "turns = turns_of rest" and "turns \<noteq> []"
  shows "trim_turns tok mx sys rest turns s =
    (if total_tokens tok (concat turns) \<le> token_budget mx then (sys # rest, s)
     else (sys # concat (drop (trim_point tok (token_budget mx) turns) turns), snd (trim_turns tok mx sys rest turns s)))"
proof -
  define pinned where "pinned = (if is_complete (last turns) then [] else [last turns])"
  define dyn where "dyn = (if is_complete (last turns) then turns else butlast turns)"
  have t: "turns = dyn @ pinned" using assms(2) by (simp add: pinned_def dyn_def)
  have l: "last turns \<noteq> []" using assms turns_shape [of "last turns" rest] by auto
  then have mk: "length pinned + (if concat pinned \<noteq> [] then 0 else 1) = 1" by (simp add: pinned_def)
  have tot: "total_tokens tok (concat turns) = total_tokens tok (concat pinned) + sum_list (map (total_tokens tok) dyn)"
    by (simp add: t total_tokens_concat)
  obtain kept left n where d: "drop_turns tok (token_budget mx) (if concat pinned \<noteq> [] then 0 else 1)
      (total_tokens tok (concat turns)) dyn = (kept, left, n)" by (metis prod_cases3)
  note spec = drop_turns_least [OF d tot mk]
  have eq: "trim_turns tok mx sys rest turns s = (if total_tokens tok (concat turns) \<le> token_budget mx then (sys # rest, s)
     else (sys # concat kept @ concat pinned,
       if n > 0 then bus_emit (Trimmed n (length kept) left (token_budget mx) mx) (s\<lparr>prefix_cache_warmed := False\<rparr>) else s))"
    using d tot l by (simp add: trim_turns_def Let_def pinned_def dyn_def split: if_splits)
  show ?thesis unfolding eq using spec assms(2) t by simp
qed

text \<open>C20: What is sent to the model. With a token limit, the prompt is the system prompt and the history
  without its oldest turns: exactly the fewest whole turns are dropped that bring the rest within three
  quarters of the limit, and the latest turn is never dropped; the history itself is not touched.\<close>

theorem prompt_drops_fewest_turns:
  assumes "max_input_tokens s = Some mx" and "m \<in> set (history s)" and "m_role m = ''user''"
  shows "fst (session_messages tok sp s) = system_msg sp #
      (if total_tokens tok (concat (turns_of (history s))) \<le> token_budget mx then history s
       else concat (drop (trim_point tok (token_budget mx) (turns_of (history s))) (turns_of (history s)))) \<and>
    history (snd (session_messages tok sp s)) = history s"
proof -
  have t: "turns_of (history s) \<noteq> []" using assms(2,3) by (auto simp: turns_empty list_all_iff not_user_def)
  have h: "history s \<noteq> []" using assms(2) by auto
  have eq: "session_messages tok sp s = trim_turns tok mx (system_msg sp) (history s) (turns_of (history s)) s"
    using assms(1) t h by (simp add: session_messages_def trim_to_budget_def)
  have "fst (session_messages tok sp s) = system_msg sp #
      (if total_tokens tok (concat (turns_of (history s))) \<le> token_budget mx then history s
       else concat (drop (trim_point tok (token_budget mx) (turns_of (history s))) (turns_of (history s))))"
    unfolding eq by (subst trim_turns_spec [OF refl t]) simp
  moreover have "history (snd (session_messages tok sp s)) = history s"
    unfolding eq by (simp add: trim_turns_def Let_def bus_emit_def split: prod.split)
  ultimately show ?thesis by simp
qed

definition demo_history :: "msg list" where
  "demo_history = [user_msg [1, 2, 3], assistant_msg [4], user_msg [5], calls_msg None [JNull], tool_msg ''i'' [6],
     assistant_msg [7], user_msg [8]]"

theorem prompt_drops_fewest_turns_witness:
  "fst (session_messages (\<lambda>_. 7) [] ((new_session (Some 50) None)\<lparr>history := demo_history\<rparr>)) =
     system_msg [] # drop 2 demo_history"
proof -
  let ?s = "(new_session (Some 50) None)\<lparr>history := demo_history\<rparr>"
  have t: "turns_of demo_history = [take 2 demo_history, take 4 (drop 2 demo_history), drop 6 demo_history]" by code_simp
  have b: "token_budget 50 = 37" by code_simp
  have "trim_point (\<lambda>_. 7) 37 (turns_of demo_history) = 1"
    unfolding trim_point_def
  proof (rule Least_equality)
    show "enough (\<lambda>_. 7) 37 (turns_of demo_history) 1" unfolding t by code_simp
    have "\<not> enough (\<lambda>_. 7) 37 (turns_of demo_history) 0" unfolding t by code_simp
    then show "enough (\<lambda>_. 7) 37 (turns_of demo_history) d \<Longrightarrow> 1 \<le> d" for d by (cases d) simp_all
  qed
  moreover have "\<not> total_tokens (\<lambda>_. 7) (concat (turns_of demo_history)) \<le> 37" unfolding t by code_simp
  moreover have "concat (drop 1 (turns_of demo_history)) = drop 2 demo_history" unfolding t by code_simp
  moreover have "max_input_tokens ?s = Some 50" "user_msg [8] \<in> set (history ?s)" "m_role (user_msg [8]) = ''user''"
    by (simp_all add: new_session_def demo_history_def user_msg_def)
  note prompt_drops_fewest_turns [OF this, of "\<lambda>_. 7" "[]"]
  ultimately show ?thesis by (simp add: b)
qed

subsection \<open>Echo loops do not survive\<close>

datatype session_op =
  OpUser ustr | OpAssistant ustr | OpCalls "ustr option" "json list" | OpTool string ustr | OpRollback int | OpReset
| OpMessages ustr

fun session_step :: "(msg \<Rightarrow> int) \<Rightarrow> session \<Rightarrow> session_op \<Rightarrow> session" where
  "session_step tok s (OpUser t) = add_user t s"
| "session_step tok s (OpAssistant t) = add_assistant t s"
| "session_step tok s (OpCalls content calls) = add_assistant_tool_calls content calls s"
| "session_step tok s (OpTool i t) = add_tool_result i t s"
| "session_step tok s (OpRollback n) = snd (rollback_to n s)"
| "session_step tok s OpReset = reset_session s"
| "session_step tok s (OpMessages sp) = snd (session_messages tok sp s)"

text \<open>Tool calls without a spoken text of their own.\<close>

definition silent_calls :: "session_op \<Rightarrow> bool" where
  "silent_calls op \<longleftrightarrow> (case op of OpCalls content calls \<Rightarrow> content = None | _ \<Rightarrow> True)"

definition no_echo :: "msg list \<Rightarrow> bool" where
  "no_echo h \<longleftrightarrow> (\<forall>k. \<not> echo_locked (take k h))"

lemma assistant_texts_append [simp]: "assistant_texts (a @ b) = assistant_texts a @ assistant_texts b"
  by (simp add: assistant_texts_def List.map_filter_def)

lemma assistant_texts_single [simp]:
  "assistant_texts [user_msg t] = []" "assistant_texts [calls_msg None cs] = []" "assistant_texts [tool_msg i t] = []"
  "assistant_texts [assistant_msg t] = [t]" "assistant_texts [] = []"
  by (simp_all add: assistant_texts_def List.map_filter_def user_msg_def calls_msg_def tool_msg_def assistant_msg_def)

lemma no_echo_Nil: "no_echo []"
  by (simp add: no_echo_def echo_locked_def ECHO_WINDOW_def)

lemma no_echo_take: "no_echo h \<Longrightarrow> no_echo (take n h)"
  by (simp add: no_echo_def)

lemma no_echo_append:
  assumes "no_echo h" and "\<not> echo_locked (h @ [m])"
  shows "no_echo (h @ [m])"
  unfolding no_echo_def
proof
  fix k
  show "\<not> echo_locked (take k (h @ [m]))"
  proof (cases "k \<le> length h")
    case True
    with assms(1) show ?thesis by (simp add: no_echo_def)
  next
    case False
    then have "take k (h @ [m]) = h @ [m]" by simp
    with assms(2) show ?thesis by simp
  qed
qed

lemma echo_locked_silent:
  assumes "assistant_texts [m] = []" and "no_echo h"
  shows "\<not> echo_locked (h @ [m])"
proof -
  have t: "assistant_texts (h @ [m]) = assistant_texts h" using assms(1) by simp
  have l: "length (assistant_texts h) \<le> length h" by (simp add: assistant_texts_def List.map_filter_def)
  have "\<not> echo_locked (take (length h) h)" using assms(2) by (auto simp only: no_echo_def)
  with l show ?thesis unfolding echo_locked_def t by auto
qed

lemma session_messages_history: "history (snd (session_messages tok sp s)) = history s"
  by (simp add: session_messages_def trim_to_budget_def trim_unanchored_def trim_turns_def Let_def bus_emit_def
      split: option.split list.split prod.split)

lemma step_no_echo:
  assumes "no_echo (history s)" and "silent_calls op"
  shows "no_echo (history (session_step tok s op))"
proof (cases op)
  case (OpAssistant t)
  show ?thesis
  proof (cases "echo_locked (history s @ [assistant_msg t])")
    case True
    then show ?thesis
      by (simp add: OpAssistant add_assistant_def maybe_recover_from_echo_def append_msg_def clear_session_def bus_emit_def no_echo_Nil)
  next
    case False
    with assms(1) no_echo_append show ?thesis
      by (simp add: OpAssistant add_assistant_def maybe_recover_from_echo_def append_msg_def)
  qed
next
  case (OpCalls content calls)
  with assms(2) have "content = None" by (simp add: silent_calls_def)
  with assms(1) show ?thesis
    by (simp add: OpCalls add_assistant_tool_calls_def append_msg_def no_echo_append echo_locked_silent)
next
  case (OpRollback n)
  with assms(1) show ?thesis by (simp add: rollback_to_def Let_def no_echo_take)
qed (use assms(1) in \<open>simp_all add: add_user_def add_tool_result_def append_msg_def no_echo_append echo_locked_silent
   reset_session_def clear_session_def no_echo_Nil session_messages_history\<close>)

text \<open>However a conversation goes, its history never holds three identical short replies in a row, and so
  never did at any earlier point that it can be rolled back to, provided that tool calls carry no text
  of their own.\<close>

theorem no_echo_loop:
  assumes "\<forall>op \<in> set ops. silent_calls op"
  shows "\<not> echo_locked (take k (history (foldl (session_step tok) (new_session mx bus) ops)))"
proof -
  have "no_echo (history (foldl (session_step tok) s ops))" if "no_echo (history s)" for s
    using that assms
  proof (induction ops arbitrary: s)
    case (Cons op ops)
    then have "no_echo (history (session_step tok s op))" by (simp add: step_no_echo)
    from Cons.IH [OF this] Cons.prems(2) show ?case by simp
  qed simp
  moreover have "no_echo (history (new_session mx bus))" by (simp add: no_echo_Nil new_session_def)
  ultimately show ?thesis by (simp add: no_echo_def)
qed

theorem no_echo_loop_witness:
  "history (foldl (session_step (\<lambda>_. 7)) (new_session None None) [OpAssistant [1], OpAssistant [1], OpAssistant [1], OpUser [2]])
     = [user_msg [2]] \<and>
   \<not> echo_locked (history (foldl (session_step (\<lambda>_. 7)) (new_session None None)
     [OpAssistant [1], OpAssistant [1], OpAssistant [1], OpUser [2]]))"
proof -
  let ?ops = "[OpAssistant [1], OpAssistant [1], OpAssistant [1], OpUser [2]]"
  have h: "history (foldl (session_step (\<lambda>_. 7)) (new_session None None) ?ops) = [user_msg [2]]" by code_simp
  have "\<forall>op \<in> set ?ops. silent_calls op" by (simp add: silent_calls_def)
  from no_echo_loop [OF this, of 1 "\<lambda>_. 7" None None] have "\<not> echo_locked (take 1 [user_msg [2]])" unfolding h .
  then show ?thesis unfolding h by simp
qed

text \<open>The proviso is needed: the text of a tool call counts as a reply but is not checked when it is added.\<close>

lemma tool_text_evades_check:
  "echo_locked (history (foldl (session_step (\<lambda>_. 7)) (new_session None None)
     [OpCalls (Some [1]) [JNull], OpTool ''i'' [], OpCalls (Some [1]) [JNull], OpTool ''i'' [], OpCalls (Some [1]) [JNull]]))"
  by code_simp

end
