(* ===== verification/ToolLoop.thy ===== *)
theory ToolLoop
  imports AgentSession LlmAvailability
begin

section \<open>Tools and the dialogue turn\<close>

text \<open>
  \<^verbatim>\<open>agent/ovs_agent/tools/registry.py\<close> (the tool registry), \<^verbatim>\<open>tools/runner.py\<close> (the shim around the
  third-party turn driver) and \<^verbatim>\<open>agent/ovs_agent/app_mode.py\<close> (one dialogue turn and the mode manager).
  A tool function is its signature with a function that gives the outcome of a call; whether the call
  gets the context object is a flag. The turn driver is a parameter: what it does in a run is the list
  of its calls of the code's sinks and callbacks with the way it ends. Logging, broadcasts to plugins
  and durations are left out.
\<close>

subsection \<open>Schemas\<close>

text \<open>Type hints, by the cases the code distinguishes.\<close>

datatype hint = HStr | HBool | HInt | HFloat | HList | HDict | HNone | HOther
| HLiteral "json list" | HUnion "hint list" | HSeq "hint list" | HMap




subsection \<open>The registry\<close>

datatype tool_outcome = Ret json | Timed_out | Raised string

text \<open>A parameter: its name, its hint if it has one, and whether it has a default.\<close>

record py_fn =
  fn_name :: string
  fn_doc :: "string option"
  fn_params :: "(string \<times> hint option \<times> bool) list"
  fn_run :: "jdict \<Rightarrow> bool \<Rightarrow> tool_outcome"

record tool =
  tool_name :: string
  tool_description :: string
  tool_parameters :: jdict
  tool_fn :: py_fn
  tool_timeout :: string
  preamble_text :: string
  completion_text :: string
  response_mode :: string

type_synonym tool_registry = "(string \<times> tool) list"








definition tool_schema :: "tool \<Rightarrow> jdict" where
  "tool_schema t = [(''type'', JStr ''function''), (''function'', JObj [(''name'', JStr (tool_name t)),
     (''description'', JStr (tool_description t)), (''parameters'', JObj (tool_parameters t))])]"

definition allowed_in :: "string set option \<Rightarrow> string \<Rightarrow> bool" where
  "allowed_in allow n \<longleftrightarrow> (case allow of None \<Rightarrow> True | Some ns \<Rightarrow> n \<in> ns)"

definition list_openai_tools :: "string set option \<Rightarrow> tool_registry \<Rightarrow> json list" where
  "list_openai_tools allow reg = map (\<lambda>(_, t). JObj (tool_schema t)) (filter (\<lambda>(n, _). allowed_in allow n) reg)"

definition advertised :: "tool \<Rightarrow> jdict" where
  "advertised t = tool_schema t
     @ (if preamble_text t \<noteq> '''' then [(''preamble_text'', JStr (preamble_text t))] else [])
     @ (if completion_text t \<noteq> '''' then [(''completion_text'', JStr (completion_text t))] else [])
     @ (if response_mode t \<noteq> '''' \<and> response_mode t \<noteq> ''await'' then [(''response_mode'', JStr (response_mode t))] else [])"

definition list_advertise_tools :: "string set option \<Rightarrow> tool_registry \<Rightarrow> json list" where
  "list_advertise_tools allow reg = map (\<lambda>(_, t). JObj (advertised t)) (filter (\<lambda>(n, _). allowed_in allow n) reg)"

definition has_tool :: "string \<Rightarrow> tool_registry \<Rightarrow> bool" where
  "has_tool n reg \<longleftrightarrow> dget reg n \<noteq> None"





subsection \<open>What reaches a tool\<close>












subsection \<open>The runner: history and prompt in lock-step\<close>

text \<open>What the driver does: it writes through the message sink, and may report its iteration limit. It
  then returns a final text or none, is cancelled, or fails.\<close>

datatype sink_op = AddCalls "ustr option" "json list" | AddText ustr | AddResult string ustr | LimitReached

datatype run_end = Finished_with "ustr option" | Cancelled_run | Failed_run

type_synonym loop_state = "session \<times> msg list"

definition truncate_messages :: "nat \<Rightarrow> nat \<Rightarrow> msg list \<Rightarrow> msg list" where
  "truncate_messages anchor offset ms = take (anchor + offset) ms"

definition roll_back :: "nat \<Rightarrow> nat \<Rightarrow> loop_state \<Rightarrow> nat \<times> loop_state" where
  "roll_back anchor offset st =
     (case rollback_to (int anchor) (fst st) of
        (dropped, s) \<Rightarrow> (dropped, (s, truncate_messages anchor offset (snd st))))"

fun sink_step :: "int \<Rightarrow> nat \<Rightarrow> nat \<Rightarrow> loop_state \<Rightarrow> sink_op \<Rightarrow> loop_state" where
  "sink_step max_iter anchor offset (s, ms) (AddCalls content calls) =
     (add_assistant_tool_calls content calls s, ms @ [calls_msg content calls])"
| "sink_step max_iter anchor offset (s, ms) (AddText t) = (add_assistant t s, ms @ [assistant_msg t])"
| "sink_step max_iter anchor offset (s, ms) (AddResult i t) = (add_tool_result i t s, ms @ [tool_msg i t])"
| "sink_step max_iter anchor offset (s, ms) LimitReached =
     (case roll_back anchor offset (s, ms) of
        (dropped, (s1, ms1)) \<Rightarrow> (bus_emit (IterationLimit max_iter dropped) s1, ms1))"

definition stream_with_tools ::
  "int \<Rightarrow> sink_op list \<Rightarrow> run_end \<Rightarrow> loop_state \<Rightarrow> ustr option \<times> loop_state" where
  "stream_with_tools max_iter ops fin st =
     (let anchor = length (history (fst st)); offset = length (snd st) - anchor;
          st1 = foldl (sink_step max_iter anchor offset) st ops
      in case fin of
           Finished_with t \<Rightarrow> (Some (case t of Some x \<Rightarrow> x | None \<Rightarrow> []), st1)
         | _ \<Rightarrow> (None, snd (roll_back anchor offset st1)))"

text \<open>\<open>tools_schema\<close> and the parameters of a round.\<close>

definition tools_schema :: "tool_registry \<Rightarrow> string set option \<Rightarrow> json list option" where
  "tools_schema reg allow = (let ts = list_openai_tools allow reg in if ts = [] then None else Some ts)"

definition params_for_round :: "jdict \<Rightarrow> nat \<Rightarrow> jdict" where
  "params_for_round base i =
     (if i = 0 then []
      else [(''extra_body'', JObj (setdefault (as_dict (jget base ''extra_body'' JNull))
                                     ''save_system_prompt_kv_cache'' (JBool True)))])"

text \<open>The writes that cannot trigger an echo recovery.\<close>

definition no_text :: "sink_op \<Rightarrow> bool" where
  "no_text op \<longleftrightarrow> (\<forall>t. op \<noteq> AddText t)"

text \<open>Both lists are the ones at the start, extended by the same messages.\<close>

definition lockstep :: "loop_state \<Rightarrow> loop_state \<Rightarrow> bool" where
  "lockstep st0 st \<longleftrightarrow>
     (\<exists>added. history (fst st) = history (fst st0) @ added \<and> snd st = snd st0 @ added)"

lemma roll_back_lockstep:
  assumes "lockstep st0 st" and "length (history (fst st0)) \<le> length (snd st0)"
  shows "history (fst (snd (roll_back (length (history (fst st0))) (length (snd st0) - length (history (fst st0))) st)))
      = history (fst st0)"
    and "snd (snd (roll_back (length (history (fst st0))) (length (snd st0) - length (history (fst st0))) st)) = snd st0"
  using assms by (auto simp: lockstep_def roll_back_def rollback_to_def truncate_messages_def Let_def)

lemma sink_lockstep:
  assumes "lockstep st0 st" and "length (history (fst st0)) \<le> length (snd st0)" and "no_text op"
  shows "lockstep st0 (sink_step mx (length (history (fst st0))) (length (snd st0) - length (history (fst st0))) st op)"
proof (cases op)
  case LimitReached
  define r where "r = roll_back (length (history (fst st0))) (length (snd st0) - length (history (fst st0))) st"
  have "history (fst (snd r)) = history (fst st0)" "snd (snd r) = snd st0"
    using roll_back_lockstep [OF assms(1,2)] unfolding r_def by blast+
  moreover obtain s ms where "st = (s, ms)" by fastforce
  ultimately show ?thesis
    by (cases r) (auto simp: LimitReached lockstep_def bus_emit_def r_def split: prod.splits)
next
  case (AddText t)
  with assms(3) show ?thesis by (simp add: no_text_def)
qed (use assms(1) in \<open>cases st; auto simp: lockstep_def add_assistant_tool_calls_def add_tool_result_def append_msg_def\<close>)+

lemma sinks_lockstep:
  assumes "lockstep st0 st" and "length (history (fst st0)) \<le> length (snd st0)" and "\<forall>op \<in> set ops. no_text op"
  shows "lockstep st0 (foldl (sink_step mx (length (history (fst st0))) (length (snd st0) - length (history (fst st0)))) st ops)"
  using assms(1,3)
proof (induction ops arbitrary: st)
  case (Cons op ops)
  then have "lockstep st0 (sink_step mx (length (history (fst st0))) (length (snd st0) - length (history (fst st0))) st op)"
    using assms(2) by (intro sink_lockstep) auto
  with Cons show ?case by simp
qed simp

lemma failed_run_leaves_no_trace_aux:
  assumes "\<forall>t. fin \<noteq> Finished_with t" and "\<forall>op \<in> set ops. no_text op"
    and "length (history s) \<le> length ms"
  shows "history (fst (snd (stream_with_tools mx ops fin (s, ms)))) = history s \<and>
    snd (snd (stream_with_tools mx ops fin (s, ms))) = ms"
proof -
  have "lockstep (s, ms) (s, ms)" by (simp add: lockstep_def)
  from sinks_lockstep [OF this _ assms(2)] assms(3)
  have l: "lockstep (s, ms) (foldl (sink_step mx (length (history s)) (length ms - length (history s))) (s, ms) ops)" by simp
  from roll_back_lockstep [OF l] assms(3) assms(1) show ?thesis
    by (cases fin) (simp_all add: stream_with_tools_def Let_def)
qed

text \<open>A run that is cancelled or fails before it has written a final text leaves no trace: the history and
  the prompt are what they were, however many rounds of tool calls it made.\<close>

theorem failed_run_leaves_no_trace:
  assumes "\<forall>t. fin \<noteq> Finished_with t" and "\<forall>op \<in> set ops. no_text op"
    and "length (history s) \<le> length ms"
  shows "history (fst (snd (stream_with_tools mx ops fin (s, ms)))) = history s \<and>
    snd (snd (stream_with_tools mx ops fin (s, ms))) = ms"
  using failed_run_leaves_no_trace_aux [OF assms] .

theorem failed_run_leaves_no_trace_witness:
  "history (fst (snd (stream_with_tools 5 [AddCalls None [JNull], AddResult ''i'' [1]] Cancelled_run
     ((new_session None None)\<lparr>history := [user_msg [1]]\<rparr>, [system_msg [], user_msg [1]])))) = [user_msg [1]]"
proof -
  have "\<forall>t. Cancelled_run \<noteq> Finished_with t" "\<forall>op \<in> set [AddCalls None [JNull], AddResult ''i'' [1]]. no_text op"
    by (simp_all add: no_text_def)
  moreover have "length (history ((new_session None None)\<lparr>history := [user_msg [1]]\<rparr>)) \<le> length [system_msg [], user_msg [1]]"
    by simp
  ultimately have "history (fst (snd (stream_with_tools 5 [AddCalls None [JNull], AddResult ''i'' [1]] Cancelled_run
     ((new_session None None)\<lparr>history := [user_msg [1]]\<rparr>, [system_msg [], user_msg [1]])))) =
     history ((new_session None None)\<lparr>history := [user_msg [1]]\<rparr>)"
    using failed_run_leaves_no_trace by blast
  then show ?thesis by simp
qed

text \<open>When the prompt was trimmed it is shorter than the history, the offset is 0, and the messages of the
  failed run stay in the prompt.\<close>

lemma trimmed_prompt_keeps_failed_round:
  "snd (snd (stream_with_tools 5 [AddCalls None [JNull]] Cancelled_run
     ((new_session None None)\<lparr>history := [user_msg [1], assistant_msg [2], user_msg [3], assistant_msg [4], user_msg [5]]\<rparr>,
      [system_msg [], user_msg [5]]))) = [system_msg [], user_msg [5], calls_msg None [JNull]]"
  by code_simp



subsection \<open>One dialogue turn\<close>

text \<open>The configuration of the active mode: its name, its class attributes and \<open>mode_overrides\<close>.\<close>

record mode =
  mode_name :: string
  mode_attrs :: jdict

definition mode_override :: "json \<Rightarrow> string \<Rightarrow> string \<Rightarrow> json option" where
  "mode_override overrides n k =
     (if n = '''' then None
      else case (if jtruthy overrides then overrides else JObj []) of
             JObj d \<Rightarrow> (case jget d n JNull of JObj mo \<Rightarrow> dget mo k | _ \<Rightarrow> None)
           | _ \<Rightarrow> None)"

definition resolve_mode_value :: "json \<Rightarrow> mode option \<Rightarrow> string \<Rightarrow> json" where
  "resolve_mode_value overrides cur k =
     (case cur of
        None \<Rightarrow> JNull
      | Some md \<Rightarrow> (case mode_override overrides (mode_name md) k of
                       Some v \<Rightarrow> v | None \<Rightarrow> jget (mode_attrs md) k JNull))"

definition resolve_system_prompt ::
  "(json \<Rightarrow> string) \<Rightarrow> json \<Rightarrow> mode option \<Rightarrow> string \<Rightarrow> string option \<Rightarrow> string" where
  "resolve_system_prompt rep overrides cur global override =
     (case override of
        Some p \<Rightarrow> p
      | None \<Rightarrow>
          (case cur of
             None \<Rightarrow> global
           | Some md \<Rightarrow>
               (case mode_override overrides (mode_name md) ''system_prompt'' of
                  Some v \<Rightarrow> if v \<noteq> JNull then jstr rep v
                            else (case jget (mode_attrs md) ''system_prompt'' JNull of JNull \<Rightarrow> global | w \<Rightarrow> jstr rep w)
                | None \<Rightarrow> (case jget (mode_attrs md) ''system_prompt'' JNull of JNull \<Rightarrow> global | w \<Rightarrow> jstr rep w))))"

text \<open>The tools a turn may use: \<open>None\<close> is all that are registered.\<close>

definition set_of_names :: "(json \<Rightarrow> string) \<Rightarrow> json \<Rightarrow> (py_error, string set) res" where
  "set_of_names rep v =
     (case v of JList vs \<Rightarrow> Inr (set (map (jstr rep) vs)) | JStr t \<Rightarrow> Inr (set (map (\<lambda>c. [c]) t))
      | JObj d \<Rightarrow> Inr (set (keys d)) | _ \<Rightarrow> Inl TypeErr)"

definition resolve_allowed ::
  "(json \<Rightarrow> string) \<Rightarrow> json \<Rightarrow> mode option \<Rightarrow> bool \<Rightarrow> json list \<Rightarrow> (py_error, string set option) res" where
  "resolve_allowed rep overrides cur enabled_by_default default_allowlist =
     (let override = resolve_mode_value overrides cur ''tools_enabled'';
          enabled = (if override = JNull then enabled_by_default else jtruthy override);
          raw = resolve_mode_value overrides cur ''tools_allowlist'';
          names = (if raw = JNull then JList default_allowlist else raw)
      in if \<not> enabled then Inr (Some {})
         else if jtruthy names then bind_res (set_of_names rep names) (\<lambda>ns. Inr (Some ns)) else Inr None)"














subsection \<open>Switching modes\<close>

text \<open>What happens to the modes, in order: hooks of a mode, and the broadcast with the previous name.\<close>

datatype mode_event = Entered string | Exited string | Changed string "string option"

record mode_manager =
  modes :: "(string \<times> mode) list"
  current_mode :: "string option"
  started :: bool
  mode_log :: "mode_event list"

definition new_mode_manager :: mode_manager where
  "new_mode_manager = \<lparr>modes = [], current_mode = None, started = False, mode_log = []\<rparr>"

definition register_mode :: "mode \<Rightarrow> mode_manager \<Rightarrow> (py_error, mode_manager) res" where
  "register_mode md mm =
     (if mode_name md = '''' \<or> mode_name md = ''unnamed'' then Inl ValueErr
      else if dget (modes mm) (mode_name md) \<noteq> None then Inl ValueErr
      else Inr (mm\<lparr>modes := dset (modes mm) (mode_name md) md\<rparr>))"

text \<open>The hooks may raise; the code goes on either way.\<close>

definition switch_mode :: "string \<Rightarrow> mode_manager \<Rightarrow> (py_error, mode_manager) res" where
  "switch_mode n mm =
     (if dget (modes mm) n = None then Inl KeyErr
      else if current_mode mm = Some n then Inr mm
      else Inr (mm\<lparr>current_mode := Some n,
                   mode_log := mode_log mm
                     @ (case current_mode mm of Some p \<Rightarrow> [Exited p] | None \<Rightarrow> [])
                     @ [Entered n, Changed n (current_mode mm)]\<rparr>))"

definition start_modes :: "string \<Rightarrow> mode_manager \<Rightarrow> (py_error, mode_manager) res" where
  "start_modes dflt mm =
     (case (if dget (modes mm) dflt \<noteq> None then Some dflt else case modes mm of [] \<Rightarrow> None | (n, _) # _ \<Rightarrow> Some n) of
        None \<Rightarrow> Inl RuntimeErr
      | Some n \<Rightarrow> bind_res (switch_mode n mm) (\<lambda>mm1. Inr (mm1\<lparr>started := True\<rparr>)))"

definition list_modes :: "mode_manager \<Rightarrow> (string \<times> bool) list" where
  "list_modes mm = map (\<lambda>(n, md). (mode_name md, current_mode mm = Some (mode_name md))) (modes mm)"

datatype mode_op = RegisterMode mode | SwitchMode string | StartModes string

fun mode_step :: "mode_manager \<Rightarrow> mode_op \<Rightarrow> mode_manager" where
  "mode_step mm (RegisterMode md) = (case register_mode md mm of Inr mm1 \<Rightarrow> mm1 | Inl _ \<Rightarrow> mm)"
| "mode_step mm (SwitchMode n) = (case switch_mode n mm of Inr mm1 \<Rightarrow> mm1 | Inl _ \<Rightarrow> mm)"
| "mode_step mm (StartModes n) = (case start_modes n mm of Inr mm1 \<Rightarrow> mm1 | Inl _ \<Rightarrow> mm)"

text \<open>A checker of the log: a mode is entered only when none is active and left only when it is the active
  one; the result is the active mode.\<close>

fun brackets :: "string option \<Rightarrow> mode_event list \<Rightarrow> string option option" where
  "brackets act [] = Some act"
| "brackets None (Entered n # es) = brackets (Some n) es"
| "brackets (Some m) (Exited n # es) = (if n = m then brackets None es else None)"
| "brackets (Some m) (Changed n p # es) = (if n = m then brackets (Some m) es else None)"
| "brackets _ _ = None"

lemma brackets_append: "brackets a (xs @ ys) = (case brackets a xs of None \<Rightarrow> None | Some b \<Rightarrow> brackets b ys)"
  by (induction a xs rule: brackets.induct) auto

definition modes_inv :: "mode_manager \<Rightarrow> bool" where
  "modes_inv mm \<longleftrightarrow> brackets None (mode_log mm) = Some (current_mode mm) \<and>
     (\<forall>n. current_mode mm = Some n \<longrightarrow> dget (modes mm) n \<noteq> None)"

lemma switch_inv: "modes_inv mm \<Longrightarrow> switch_mode n mm = Inr mm1 \<Longrightarrow> modes_inv mm1"
  by (cases "current_mode mm") (auto simp: modes_inv_def switch_mode_def brackets_append split: if_splits)

interpretation mode_machine: inv_machine mode_step modes_inv
proof
  fix mm op
  assume i: "modes_inv mm"
  show "modes_inv (mode_step mm op)"
  proof (cases op)
    case (RegisterMode md)
    with i show ?thesis by (auto simp: modes_inv_def register_mode_def dget_dset split: if_splits)
  next
    case (SwitchMode n)
    with i switch_inv show ?thesis by (auto split: sum.split)
  next
    case (StartModes n)
    show ?thesis
    proof (cases "start_modes n mm")
      case (Inr mm2)
      then obtain k mm1 where "switch_mode k mm = Inr mm1" "mm2 = mm1\<lparr>started := True\<rparr>"
        by (auto simp: start_modes_def bind_res_eq_Inr split: option.splits)
      with switch_inv [OF i] Inr StartModes show ?thesis by (auto simp: modes_inv_def)
    qed (use i StartModes in simp)
  qed
qed

text \<open>Hooks are bracketed: in any sequence of registrations, switches and starts, a mode is entered only
  after the previous one was left, and the mode that the manager reports is the one entered last, which
  is registered.\<close>

theorem mode_hooks_bracketed:
  "brackets None (mode_log (foldl mode_step new_mode_manager ops)) = Some (current_mode (foldl mode_step new_mode_manager ops)) \<and>
   (current_mode (foldl mode_step new_mode_manager ops) \<noteq> None \<longrightarrow>
      dget (modes (foldl mode_step new_mode_manager ops)) (the (current_mode (foldl mode_step new_mode_manager ops))) \<noteq> None)"
proof -
  have "modes_inv (foldl mode_step new_mode_manager ops)"
    by (rule mode_machine.run_inv) (simp add: modes_inv_def new_mode_manager_def)
  then show ?thesis by (auto simp: modes_inv_def)
qed

end
