(* ===== verification/V2vAdmission.thy ===== *)
theory V2vAdmission
  imports SessionLimiter
begin

section \<open>Admission of voice sessions with eviction\<close>

text \<open>
  \<^verbatim>\<open>server/main.py\<close>: how a connection of \<open>/v2v/stream\<close> takes a slot of the session limiter, how a
  newcomer evicts a stale holder (\<open>_v2v_evict_and_reacquire\<close>), and every way a connection gives its
  slot back. A connection is a number; what it does between two awaits is one event, so a run is a
  sequence of events. Other endpoints share the limiter: the tokens they hold are \<open>va_others\<close>.
  \<open>v2\<close> says which connections speak the V2 dialect: these send a first event after they were admitted
  and before the block that guarantees the release. Closing a socket is taken to succeed or to be
  swallowed; the service loop of an admitted connection is not modelled here.
\<close>

definition env_truthy :: "string option \<Rightarrow> bool" where
  "env_truthy value =
     (case value of
        None \<Rightarrow> False
      | Some s \<Rightarrow>
          let v = str_strip s;
              w = (if length v \<ge> 2 \<and> hd v = last v \<and> hd v \<in> {CHR 0x22, CHR 0x27}
                   then str_strip (butlast (tl v)) else v)
          in str_lower w \<in> {''1'', ''true'', ''yes'', ''on''})"

text \<open>\<open>_v2v_evict_enabled\<close>: the flag, and a limit of 1.\<close>

definition v2v_evict_enabled :: "(string \<rightharpoonup> string) \<Rightarrow> limiter option \<Rightarrow> bool" where
  "v2v_evict_enabled e g \<longleftrightarrow>
     env_truthy (e ''OVS_V2V_EVICT_ON_FULL'') \<and> (case g of None \<Rightarrow> False | Some l \<Rightarrow> l_limit l = 1)"

text \<open>Where a connection is. \<open>Setup\<close> and \<open>Serving\<close> hold a token, with whether the task was cancelled;
  \<open>Lost\<close> is a connection that ended without giving its token back.\<close>

datatype vphase = Absent | LockWait | Evicting "nat list" | Polling nat | Setup nat bool | Serving nat bool
| Gone | Refused | Lost nat

record vadm =
  va_lim :: limiter
  va_phase :: "nat \<Rightarrow> vphase"
  va_holders :: "nat list"
  va_lock :: "nat option"
  va_waiters :: "nat list"
  va_others :: "nat list"

definition new_vadm :: "limiter \<Rightarrow> vadm" where
  "new_vadm l = \<lparr>va_lim = l, va_phase = (\<lambda>_. Absent), va_holders = [], va_lock = None, va_waiters = [], va_others = []\<rparr>"

definition set_vphase :: "nat \<Rightarrow> vphase \<Rightarrow> vadm \<Rightarrow> vadm" where
  "set_vphase i p s = s\<lparr>va_phase := (va_phase s)(i := p)\<rparr>"

text \<open>After a token was taken: the holder is recorded; a V1 connection enters the guarded block at once.\<close>

definition admit :: "(nat \<Rightarrow> bool) \<Rightarrow> nat \<Rightarrow> nat \<Rightarrow> vadm \<Rightarrow> vadm" where
  "admit v2 i k s =
     set_vphase i (if v2 i then Setup k False else Serving k False) (s\<lparr>va_holders := va_holders s @ [i]\<rparr>)"

definition unlock :: "vadm \<Rightarrow> vadm" where
  "unlock s = s\<lparr>va_lock := None\<rparr>"

text \<open>\<open>_v2v_evict_and_reacquire\<close> from the lock to the first await, with the lock held by \<open>i\<close>.\<close>

definition evict_begin :: "(nat \<Rightarrow> bool) \<Rightarrow> nat \<Rightarrow> vadm \<Rightarrow> vadm" where
  "evict_begin v2 i s =
     (case try_acquire False (va_lim s) of
        (Some k, l1) \<Rightarrow> unlock (admit v2 i k (s\<lparr>va_lim := l1\<rparr>))
      | (None, l1) \<Rightarrow>
          if va_holders s = [] then unlock (set_vphase i Refused s)
          else set_vphase i (Evicting (va_holders s)) s)"

definition cancel_holder :: "nat \<Rightarrow> vadm \<Rightarrow> vadm" where
  "cancel_holder h s =
     (case va_phase s h of
        Setup k c \<Rightarrow> set_vphase h (Setup k True) s
      | Serving k c \<Rightarrow> set_vphase h (Serving k True) s
      | _ \<Rightarrow> s)"

definition evict_next :: "nat \<Rightarrow> nat \<Rightarrow> vadm \<Rightarrow> vadm" where
  "evict_next poll_steps i s =
     (case va_phase s i of
        Evicting (h # hs) \<Rightarrow>
          set_vphase i (if hs = [] then Polling poll_steps else Evicting hs) (cancel_holder h s)
      | _ \<Rightarrow> s)"

text \<open>One round of the bounded wait.\<close>

definition poll :: "(nat \<Rightarrow> bool) \<Rightarrow> nat \<Rightarrow> vadm \<Rightarrow> vadm" where
  "poll v2 i s =
     (case va_phase s i of
        Polling n \<Rightarrow>
          (case try_acquire False (va_lim s) of
             (Some k, l1) \<Rightarrow> unlock (admit v2 i k (s\<lparr>va_lim := l1\<rparr>))
           | (None, l1) \<Rightarrow> if n \<le> 1 then unlock (set_vphase i Refused s) else set_vphase i (Polling (n - 1)) s)
      | _ \<Rightarrow> s)"

text \<open>A connection that was authenticated and accepted.\<close>

definition arrive :: "(nat \<Rightarrow> bool) \<Rightarrow> bool \<Rightarrow> nat \<Rightarrow> vadm \<Rightarrow> vadm" where
  "arrive v2 evict_env i s =
     (if va_phase s i \<noteq> Absent then s
      else case try_acquire False (va_lim s) of
             (Some k, l1) \<Rightarrow> admit v2 i k (s\<lparr>va_lim := l1\<rparr>)
           | (None, l1) \<Rightarrow>
               if \<not> (evict_env \<and> l_limit (va_lim s) = 1) then set_vphase i Refused s
               else if va_lock s = None \<and> va_waiters s = [] then evict_begin v2 i (s\<lparr>va_lock := Some i\<rparr>)
               else set_vphase i LockWait (s\<lparr>va_waiters := va_waiters s @ [i]\<rparr>))"

definition lock_granted :: "(nat \<Rightarrow> bool) \<Rightarrow> vadm \<Rightarrow> vadm" where
  "lock_granted v2 s =
     (case (va_lock s, va_waiters s) of
        (None, i # ws) \<Rightarrow>
          if va_phase s i = LockWait then evict_begin v2 i (s\<lparr>va_lock := Some i, va_waiters := ws\<rparr>) else s
      | _ \<Rightarrow> s)"

text \<open>\<open>_v2v_release_early\<close>.\<close>

definition release_early :: "nat \<Rightarrow> nat \<Rightarrow> vadm \<Rightarrow> vadm" where
  "release_early i k s =
     s\<lparr>va_holders := filter (\<lambda>h. h \<noteq> i) (va_holders s), va_lim := release False k (va_lim s)\<rparr>"

text \<open>The first event of a V2 connection is sent, or raises; a cancelled task raises there.\<close>

definition setup_done :: "nat \<Rightarrow> bool \<Rightarrow> vadm \<Rightarrow> vadm" where
  "setup_done i sent s =
     (case va_phase s i of
        Setup k c \<Rightarrow> if sent \<and> \<not> c then set_vphase i (Serving k False) s else set_vphase i (Lost k) s
      | _ \<Rightarrow> s)"

text \<open>Leaving the guarded block: through an early exit, the engine path or an exception, which all call
  \<open>_v2v_release_early\<close>; or through the final clause of the built-in path, which does not.\<close>

definition early_exit :: "nat \<Rightarrow> vadm \<Rightarrow> vadm" where
  "early_exit i s =
     (case va_phase s i of Serving k c \<Rightarrow> set_vphase i Gone (release_early i k s) | _ \<Rightarrow> s)"

definition normal_end :: "nat \<Rightarrow> vadm \<Rightarrow> vadm" where
  "normal_end i s =
     (case va_phase s i of
        Serving k c \<Rightarrow> set_vphase i Gone (s\<lparr>va_lim := release False k (release False k (va_lim s))\<rparr>)
      | _ \<Rightarrow> s)"

definition other_take :: "vadm \<Rightarrow> vadm" where
  "other_take s =
     (case try_acquire False (va_lim s) of
        (Some k, l1) \<Rightarrow> s\<lparr>va_lim := l1, va_others := k # va_others s\<rparr>
      | (None, l1) \<Rightarrow> s)"

definition other_done :: "nat \<Rightarrow> vadm \<Rightarrow> vadm" where
  "other_done k s =
     (if k \<in> set (va_others s)
      then s\<lparr>va_lim := release False k (va_lim s), va_others := filter (\<lambda>j. j \<noteq> k) (va_others s)\<rparr> else s)"

datatype vevent = Arrive nat | LockGranted | EvictNext nat | Poll nat | SetupDone nat bool | EarlyExit nat
| NormalEnd nat | OtherTake | OtherDone nat

fun vadm_step :: "(nat \<Rightarrow> bool) \<Rightarrow> bool \<Rightarrow> nat \<Rightarrow> vadm \<Rightarrow> vevent \<Rightarrow> vadm" where
  "vadm_step v2 env n s (Arrive i) = arrive v2 env i s"
| "vadm_step v2 env n s LockGranted = lock_granted v2 s"
| "vadm_step v2 env n s (EvictNext i) = evict_next n i s"
| "vadm_step v2 env n s (Poll i) = poll v2 i s"
| "vadm_step v2 env n s (SetupDone i sent) = setup_done i sent s"
| "vadm_step v2 env n s (EarlyExit i) = early_exit i s"
| "vadm_step v2 env n s (NormalEnd i) = normal_end i s"
| "vadm_step v2 env n s OtherTake = other_take s"
| "vadm_step v2 env n s (OtherDone k) = other_done k s"

subsection \<open>Every token has one owner\<close>

fun token_of :: "vphase \<Rightarrow> nat option" where
  "token_of (Setup k c) = Some k"
| "token_of (Serving k c) = Some k"
| "token_of (Lost k) = Some k"
| "token_of _ = None"

definition live :: "limiter \<Rightarrow> nat \<Rightarrow> bool" where
  "live l k \<longleftrightarrow> k < length (l_toks l) \<and> \<not> released (l_toks l ! k)"

definition vadm_inv :: "vadm \<Rightarrow> bool" where
  "vadm_inv s \<longleftrightarrow> limiter_inv (va_lim s) \<and>
     (\<forall>i k. token_of (va_phase s i) = Some k \<longrightarrow> live (va_lim s) k \<and> k \<notin> set (va_others s)) \<and>
     (\<forall>i j k. token_of (va_phase s i) = Some k \<longrightarrow> token_of (va_phase s j) = Some k \<longrightarrow> i = j) \<and>
     (\<forall>k \<in> set (va_others s). live (va_lim s) k)"

lemma vadm_inv_frame [simp]:
  "vadm_inv (s\<lparr>va_lock := x\<rparr>) = vadm_inv s" "vadm_inv (s\<lparr>va_waiters := ws\<rparr>) = vadm_inv s"
  "vadm_inv (s\<lparr>va_holders := hs\<rparr>) = vadm_inv s" "vadm_inv (unlock s) = vadm_inv s"
  by (simp_all add: vadm_inv_def unlock_def)

lemma try_acquire_live:
  assumes "try_acquire b l = (Some k, l1)"
  shows "live l1 k" "\<not> live l k" "live l j \<Longrightarrow> live l1 j"
  using assms by (auto simp: try_acquire_def live_def Let_def nth_append split: if_splits)

lemma try_acquire_full: "try_acquire b l = (None, l1) \<Longrightarrow> l1 = l"
  by (simp add: try_acquire_def Let_def split: if_splits)

lemma release_live: "live l j \<Longrightarrow> j \<noteq> k \<Longrightarrow> live (release b k l) j"
  by (simp add: release_def live_def)

lemma vadm_inv_tokens:
  assumes "vadm_inv s" and "va_lim s' = va_lim s" and "va_others s' = va_others s"
    and "\<And>j. token_of (va_phase s' j) = token_of (va_phase s j) \<or> token_of (va_phase s' j) = None"
  shows "vadm_inv s'"
proof -
  have "token_of (va_phase s' j) = Some k \<Longrightarrow> token_of (va_phase s j) = Some k" for j k
    using assms(4) [of j] by auto
  with assms(1-3) show ?thesis unfolding vadm_inv_def by (metis (no_types, lifting))
qed

lemma set_vphase_inv:
  assumes "vadm_inv s" and "token_of p = token_of (va_phase s i) \<or> token_of p = None"
  shows "vadm_inv (set_vphase i p s)"
proof (rule vadm_inv_tokens [OF assms(1)])
  show "token_of (va_phase (set_vphase i p s) j) = token_of (va_phase s j) \<or> token_of (va_phase (set_vphase i p s) j) = None" for j
    using assms(2) by (simp add: set_vphase_def)
qed (simp_all add: set_vphase_def)

lemma admit_inv:
  assumes i: "vadm_inv s" and a: "try_acquire False (va_lim s) = (Some k, l1)" and n: "token_of (va_phase s i) = None"
  shows "vadm_inv (admit v2 i k (s\<lparr>va_lim := l1\<rparr>))"
proof -
  have l1: "limiter_inv l1" using i a try_acquire_inv [of "va_lim s" False] by (simp add: vadm_inv_def)
  have fresh: "token_of (va_phase s j) \<noteq> Some k" "k \<notin> set (va_others s)" for j
    using i try_acquire_live(2) [OF a] by (auto simp: vadm_inv_def)
  have p: "token_of (if v2 i then Setup k False else Serving k False) = Some k" by simp
  show ?thesis
    using i l1 fresh try_acquire_live(1,3) [OF a] n
    unfolding vadm_inv_def admit_def set_vphase_def by (auto simp: p split: if_splits)
qed

lemma free_inv:
  assumes i: "vadm_inv s" and t: "token_of (va_phase s i) = Some k"
  shows "vadm_inv (set_vphase i Gone (s\<lparr>va_lim := release False k (va_lim s)\<rparr>))"
proof -
  have k: "live (va_lim s) k" "k \<notin> set (va_others s)" using i t by (auto simp: vadm_inv_def)
  then have "limiter_inv (release False k (va_lim s))" using i by (simp add: vadm_inv_def live_def release_inv)
  moreover have "token_of (va_phase s j) = Some k' \<Longrightarrow> j \<noteq> i \<Longrightarrow> k' \<noteq> k" for j k'
    using i t unfolding vadm_inv_def by blast
  moreover have "j \<in> set (va_others s) \<Longrightarrow> j \<noteq> k" for j using k by blast
  ultimately show ?thesis
    using i k unfolding vadm_inv_def set_vphase_def by (auto simp: release_live split: if_splits)
qed

lemma evict_begin_inv:
  assumes "vadm_inv s" and "token_of (va_phase s i) = None"
  shows "vadm_inv (evict_begin v2 i s)"
  using assms admit_inv [of s _ _ i v2]
  by (auto simp: evict_begin_def set_vphase_inv dest!: try_acquire_full split: prod.split option.split)

lemma cancel_holder_inv: "vadm_inv s \<Longrightarrow> vadm_inv (cancel_holder h s)"
  by (auto simp: cancel_holder_def intro: set_vphase_inv split: vphase.split)

lemma cancel_holder_token: "token_of (va_phase (cancel_holder h s) j) = token_of (va_phase s j)"
  by (auto simp: cancel_holder_def set_vphase_def split: vphase.split)

lemma poll_inv: "vadm_inv s \<Longrightarrow> vadm_inv (poll v2 i s)"
  using admit_inv [of s _ _ i v2]
  by (auto simp: poll_def set_vphase_inv split: vphase.split prod.split option.split)

lemma other_take_inv: "vadm_inv s \<Longrightarrow> vadm_inv (other_take s)"
proof (cases "try_acquire False (va_lim s)")
  case (Pair r l1)
  assume i: "vadm_inv s"
  show ?thesis
  proof (cases r)
    case (Some k)
    with Pair have a: "try_acquire False (va_lim s) = (Some k, l1)" by simp
    have l1: "limiter_inv l1" using i a try_acquire_inv [of "va_lim s" False] by (simp add: vadm_inv_def)
    have "token_of (va_phase s j) \<noteq> Some k" for j
      using i try_acquire_live(2) [OF a] by (auto simp: vadm_inv_def)
    with i l1 try_acquire_live(1,3) [OF a] show ?thesis
      unfolding other_take_def vadm_inv_def by (auto simp: a)
  qed (use i Pair in \<open>simp add: other_take_def\<close>)
qed

lemma other_done_inv:
  assumes i: "vadm_inv s"
  shows "vadm_inv (other_done k s)"
proof (cases "k \<in> set (va_others s)")
  case True
  then have "live (va_lim s) k" using i by (simp add: vadm_inv_def)
  then have "limiter_inv (release False k (va_lim s))" using i by (simp add: vadm_inv_def live_def release_inv)
  moreover have "token_of (va_phase s j) = Some k' \<Longrightarrow> k' \<noteq> k" for j k'
    using i True unfolding vadm_inv_def by blast
  ultimately show ?thesis
    using i True unfolding other_done_def vadm_inv_def by (auto simp: release_live)
qed (use i in \<open>simp add: other_done_def\<close>)

lemma vadm_step_inv:
  assumes i: "vadm_inv s"
  shows "vadm_inv (vadm_step v2 env n s e)"
proof (cases e)
  case (Arrive c)
  show ?thesis
    using i admit_inv [OF i, of _ _ c v2]
    by (auto simp: Arrive arrive_def set_vphase_inv evict_begin_inv split: prod.split option.split)
next
  case LockGranted
  show ?thesis
    using i by (auto simp: LockGranted lock_granted_def evict_begin_inv split: option.split list.split)
next
  case (EvictNext c)
  have "vadm_inv (set_vphase c p (cancel_holder h s))" if "token_of p = None" for h p
    using that cancel_holder_inv [OF i] by (intro set_vphase_inv) auto
  with i show ?thesis by (auto simp: EvictNext evict_next_def split: vphase.split list.split)
next
  case (SetupDone c sent)
  with i show ?thesis by (auto simp: setup_done_def intro: set_vphase_inv split: vphase.split)
next
  case (EarlyExit c)
  have "set_vphase c Gone (release_early c k s)
      = (set_vphase c Gone (s\<lparr>va_lim := release False k (va_lim s)\<rparr>))\<lparr>va_holders := filter (\<lambda>h. h \<noteq> c) (va_holders s)\<rparr>" for k
    by (simp add: set_vphase_def release_early_def)
  with i free_inv [OF i, of c] show ?thesis
    by (auto simp: EarlyExit early_exit_def split: vphase.split)
next
  case (NormalEnd c)
  show ?thesis
  proof (cases "va_phase s c")
    case (Serving k b)
    then have t: "token_of (va_phase s c) = Some k" by simp
    then have "live (va_lim s) k" using i unfolding vadm_inv_def by blast
    then have "release False k (release False k (va_lim s)) = release False k (va_lim s)"
      by (simp add: live_def release_idem)
    with free_inv [OF i t] Serving show ?thesis by (simp add: NormalEnd normal_end_def)
  qed (use i in \<open>simp_all add: NormalEnd normal_end_def\<close>)
qed (use i in \<open>simp_all add: poll_inv other_take_inv other_done_inv\<close>)

interpretation vad: inv_machine "vadm_step v2 env n" vadm_inv
  by unfold_locales (rule vadm_step_inv)

lemma new_vadm_inv: "new_limiter lim m = Inr l \<Longrightarrow> vadm_inv (new_vadm l)"
  using new_limiter_inv by (simp add: vadm_inv_def new_vadm_def)

lemma vadm_step_limit: "l_limit (va_lim (vadm_step v2 env n s e)) = l_limit (va_lim s)"
proof -
  have t: "l_limit (snd (try_acquire b l)) = l_limit l" for b l by (simp add: try_acquire_def Let_def)
  have t': "try_acquire b l = (r, l1) \<Longrightarrow> l_limit l1 = l_limit l" for b l r l1 using t [of b l] by simp
  have r: "l_limit (release b k l) = l_limit l" for b k l by (simp add: release_def)
  have eb: "l_limit (va_lim (evict_begin v2 i s)) = l_limit (va_lim s)" for i s
    by (auto simp: evict_begin_def unlock_def admit_def set_vphase_def dest: t' split: prod.split option.split)
  show ?thesis
    by (cases e)
      (auto simp: arrive_def lock_granted_def evict_next_def cancel_holder_def poll_def setup_done_def early_exit_def
        normal_end_def release_early_def other_take_def other_done_def unlock_def admit_def set_vphase_def r eb
        dest: t' split: prod.split option.split list.split vphase.split)
qed

lemma vadm_run_limit: "vadm_inv s \<Longrightarrow> l_limit (va_lim (foldl (vadm_step v2 env n) s es)) = l_limit (va_lim s)"
  by (rule vad.run_const) (simp_all add: vadm_step_limit)

lemma new_vadm_limit: "new_limiter lim m = Inr l \<Longrightarrow> l_limit (va_lim (new_vadm l)) = lim"
  by (auto simp: new_vadm_def new_limiter_def split: if_splits)

subsection \<open>What the admission promises\<close>

lemma outstanding_card: "outstanding l = card {k. live l k}"
  unfolding outstanding_def count_where_def live_def by (simp add: length_filter_conv_card)

lemma owners_bounded:
  assumes "vadm_inv s"
  shows "finite {i. token_of (va_phase s i) \<noteq> None} \<and>
    int (card {i. token_of (va_phase s i) \<noteq> None}) + int (card (set (va_others s))) \<le> l_limit (va_lim s)"
proof -
  let ?I = "{i. token_of (va_phase s i) \<noteq> None}" and ?t = "\<lambda>i. the (token_of (va_phase s i))"
  have fin: "finite {k. live (va_lim s) k}" by (rule finite_subset [of _ "{..<length (l_toks (va_lim s))}"]) (auto simp: live_def)
  have inj: "inj_on ?t ?I" using assms unfolding vadm_inv_def inj_on_def by fastforce
  have sub: "?t ` ?I \<union> set (va_others s) \<subseteq> {k. live (va_lim s) k}" and dis: "?t ` ?I \<inter> set (va_others s) = {}"
    using assms unfolding vadm_inv_def by fastforce+
  have fi: "finite (?t ` ?I)" using sub fin finite_subset by blast
  then have fI: "finite ?I" using inj finite_imageD by blast
  have "card ?I + card (set (va_others s)) = card (?t ` ?I \<union> set (va_others s))"
    using card_Un_disjoint [OF fi _ dis] card_image [OF inj] by simp
  also have "\<dots> \<le> outstanding (va_lim s)" unfolding outstanding_card using fin sub by (rule card_mono)
  finally show ?thesis using assms fI by (simp add: vadm_inv_def limiter_inv_def)
qed

text \<open>C35: However connections arrive, evict each other, are cancelled and end, the voice sessions being served
  and the requests of other endpoints together never exceed the limit.\<close>

theorem voice_sessions_within_limit:
  assumes "new_limiter lim m = Inr l"
  shows "int (card {i. \<exists>k c. va_phase (foldl (vadm_step v2 env n) (new_vadm l) es) i = Serving k c})
      + int (card (set (va_others (foldl (vadm_step v2 env n) (new_vadm l) es)))) \<le> lim"
proof -
  let ?s = "foldl (vadm_step v2 env n) (new_vadm l) es"
  have i: "vadm_inv ?s" by (rule vad.run_inv) (rule new_vadm_inv [OF assms])
  have "l_limit (va_lim ?s) = l_limit (va_lim (new_vadm l))" by (rule vadm_run_limit) (rule new_vadm_inv [OF assms])
  also have "\<dots> = lim" using assms by (rule new_vadm_limit)
  finally have lim: "l_limit (va_lim ?s) = lim" .
  have "card {i. \<exists>k c. va_phase ?s i = Serving k c} \<le> card {i. token_of (va_phase ?s i) \<noteq> None}"
    using owners_bounded [OF i] by (intro card_mono) auto
  with owners_bounded [OF i] lim show ?thesis by linarith
qed

theorem voice_sessions_within_limit_witness:
  "int (card {i. \<exists>k c. va_phase (foldl (vadm_step (\<lambda>_. False) True 40)
       (new_vadm \<lparr>l_limit = 1, l_active = 0, l_toks = [], l_met = metrics_init\<rparr>) [Arrive 0, Arrive 1]) i = Serving k c}) \<le> 1"
proof -
  have "new_limiter 1 metrics_init = Inr \<lparr>l_limit = 1, l_active = 0, l_toks = [], l_met = metrics_init\<rparr>"
    by (simp add: new_limiter_def)
  from voice_sessions_within_limit [OF this, of "\<lambda>_. False" True 40 "[Arrive 0, Arrive 1]"] show ?thesis by linarith
qed

text \<open>A token that was lost stays lost.\<close>

lemma lost_step: "va_phase s i = Lost k \<Longrightarrow> va_phase (vadm_step v2 env n s e) i = Lost k"
proof -
  assume a: "va_phase s i = Lost k"
  have eb: "va_phase (evict_begin v2 j s') i = Lost k" if "va_phase s' i = Lost k" "va_phase s' j \<noteq> Lost k" for j s'
    using that by (auto simp: evict_begin_def unlock_def admit_def set_vphase_def split: prod.split option.split)
  have ch: "va_phase (cancel_holder h s) i = Lost k" for h
    using a by (auto simp: cancel_holder_def set_vphase_def split: vphase.split)
  show ?thesis
    using a ch
    by (cases e)
      (auto simp: arrive_def lock_granted_def evict_next_def poll_def setup_done_def early_exit_def normal_end_def
        release_early_def other_take_def other_done_def unlock_def admit_def set_vphase_def eb
        split: prod.split option.split list.split vphase.split)
qed

lemma lost_run: "va_phase s i = Lost k \<Longrightarrow> va_phase (foldl (vadm_step v2 env n) s es) i = Lost k"
  by (induction es arbitrary: s) (simp_all add: lost_step)

text \<open>With a limit of 1, a V2 connection whose first event cannot be sent, because the client is gone or a
  newcomer is evicting it, takes its slot with it: from then on, whatever happens, no other connection
  is ever admitted.\<close>

theorem failed_first_event_blocks_server:
  assumes "new_limiter 1 m = Inr l" and "va_phase (foldl (vadm_step v2 env n) (new_vadm l) es) i = Setup k c" and "j \<noteq> i"
  shows "token_of (va_phase (foldl (vadm_step v2 env n) (new_vadm l) (es @ SetupDone i False # es')) j) = None"
proof -
  let ?s = "foldl (vadm_step v2 env n) (new_vadm l) (es @ SetupDone i False # es')"
  have i: "vadm_inv ?s" by (rule vad.run_inv) (rule new_vadm_inv [OF assms(1)])
  have "l_limit (va_lim ?s) = l_limit (va_lim (new_vadm l))" by (rule vadm_run_limit) (rule new_vadm_inv [OF assms(1)])
  also have "\<dots> = 1" using assms(1) by (rule new_vadm_limit)
  finally have lim: "l_limit (va_lim ?s) = 1" .
  have "va_phase ?s i = Lost k"
    using assms(2) by (simp add: lost_run setup_done_def set_vphase_def)
  then have t: "i \<in> {i. token_of (va_phase ?s i) \<noteq> None}" by simp
  have f: "finite {i. token_of (va_phase ?s i) \<noteq> None}" "card {i. token_of (va_phase ?s i) \<noteq> None} \<le> 1"
    using owners_bounded [OF i] lim by auto
  show ?thesis
  proof (rule ccontr)
    assume "token_of (va_phase ?s j) \<noteq> None"
    then have "{i, j} \<subseteq> {i. token_of (va_phase ?s i) \<noteq> None}" using t by blast
    from card_mono [OF f(1) this] f(2) assms(3) show False by simp
  qed
qed

theorem failed_first_event_blocks_server_witness:
  "token_of (va_phase (foldl (vadm_step (\<lambda>_. True) True 40)
       (new_vadm \<lparr>l_limit = 1, l_active = 0, l_toks = [], l_met = metrics_init\<rparr>) ([Arrive 0] @ SetupDone 0 False # [Arrive 1])) 1)
     = None"
proof (rule failed_first_event_blocks_server)
  show "new_limiter 1 metrics_init = Inr \<lparr>l_limit = 1, l_active = 0, l_toks = [], l_met = metrics_init\<rparr>"
    by (simp add: new_limiter_def)
  show "va_phase (foldl (vadm_step (\<lambda>_. True) True 40)
      (new_vadm \<lparr>l_limit = 1, l_active = 0, l_toks = [], l_met = metrics_init\<rparr>) [Arrive 0]) 0 = Setup 0 False"
    by (simp add: arrive_def new_vadm_def try_acquire_def admit_def set_vphase_def)
qed simp

text \<open>The handle of a session that ended through the built-in path stays among the holders.\<close>

lemma ended_session_stays_holder:
  "va_phase s i = Serving k c \<Longrightarrow>
   va_holders (vadm_step v2 env n s (NormalEnd i)) = va_holders s \<and> va_phase (vadm_step v2 env n s (NormalEnd i)) i = Gone"
  by (simp add: normal_end_def set_vphase_def)

text \<open>An eviction works when the holder gives way in time: the newcomer is admitted at its next look.\<close>

theorem eviction_hands_over:
  assumes "new_limiter 1 m = Inr l" and "s = foldl (vadm_step v2 env n) (new_vadm l) es"
    and "va_phase s i = Evicting [h]" and "va_phase s h = Serving k c"
  shows "token_of (va_phase (foldl (vadm_step v2 env n) s [EvictNext i, EarlyExit h, Poll i]) i) \<noteq> None \<and>
    va_phase (foldl (vadm_step v2 env n) s [EvictNext i, EarlyExit h, Poll i]) h = Gone"
proof -
  have inv: "vadm_inv s" unfolding assms(2) by (rule vad.run_inv) (rule new_vadm_inv [OF assms(1)])
  have "l_limit (va_lim s) = l_limit (va_lim (new_vadm l))"
    unfolding assms(2) by (rule vadm_run_limit) (rule new_vadm_inv [OF assms(1)])
  also have "\<dots> = 1" using assms(1) by (rule new_vadm_limit)
  finally have lim: "l_limit (va_lim s) = 1" .
  have hi: "h \<noteq> i" using assms(3,4) by auto
  have "token_of (va_phase s h) = Some k" using assms(4) by simp
  then have k: "live (va_lim s) k" using inv unfolding vadm_inv_def by blast
  have "l_active (va_lim s) = int (outstanding (va_lim s))" "l_active (va_lim s) \<le> 1"
    using inv lim by (simp_all add: vadm_inv_def limiter_inv_def)
  moreover have "Suc (outstanding (release False k (va_lim s))) = outstanding (va_lim s)"
    using k by (intro outstanding_release) (simp_all add: live_def)
  moreover have "limiter_inv (release False k (va_lim s))"
    using k inv by (intro release_inv) (simp_all add: live_def vadm_inv_def)
  ultimately have a: "l_active (release False k (va_lim s)) < l_limit (release False k (va_lim s))"
    using lim by (simp add: limiter_inv_def release_def)
  then obtain k' l1 where t: "try_acquire False (release False k (va_lim s)) = (Some k', l1)"
    by (auto simp: try_acquire_def Let_def)
  show ?thesis
    using assms(3,4) hi
    by (simp add: evict_next_def cancel_holder_def set_vphase_def early_exit_def release_early_def poll_def t
        admit_def unlock_def)
qed

theorem eviction_hands_over_witness:
  "\<exists>s. token_of (va_phase (foldl (vadm_step (\<lambda>_. False) True 40) s [EvictNext 1, EarlyExit 0, Poll 1]) 1) \<noteq> None"
proof -
  let ?l = "\<lparr>l_limit = 1, l_active = 0, l_toks = [], l_met = metrics_init\<rparr>"
  let ?s = "foldl (vadm_step (\<lambda>_. False) True 40) (new_vadm ?l) [Arrive 0, Arrive 1]"
  have "new_limiter 1 metrics_init = Inr ?l" by (simp add: new_limiter_def)
  moreover have "va_phase ?s 1 = Evicting [0]" "va_phase ?s 0 = Serving 0 False"
    by (simp_all add: arrive_def new_vadm_def try_acquire_def admit_def set_vphase_def evict_begin_def inc_sessions_active_def Let_def)
  ultimately show ?thesis using eviction_hands_over [where m = metrics_init and l = ?l and s = ?s and es = "[Arrive 0, Arrive 1]" and i = 1 and h = 0
      and k = 0 and c = False and n = 40 and ?v2.0 = "\<lambda>_. False" and env = True] by blast
qed

end
