(* ===== verification/RealtimeProxy.thy ===== *)
theory RealtimeProxy
  imports RealtimeEvents
begin

section \<open>The realtime proxy in front of the engine\<close>

text \<open>
  \<open>_RealtimeV2WebSocketProxy\<close> of \<^verbatim>\<open>server/main.py\<close>: the speech engine talks the old frames, the client
  talks Realtime V2, and the proxy stands between them. \<open>receive\<close> reads client frames until one of them
  is for the engine and hands it over rewritten; the others are answered at once. What the proxy does
  is a log: events and audio sent to the client, frames handed to the engine, tools removed from the
  registry of the engine. \<open>loads\<close> is \<open>json.loads\<close>, \<open>None\<close> when the text is not JSON; a payload handed over
  stands for its \<open>json.dumps\<close>. The frames that have arrived are \<open>px_inbox\<close>. An exception ends the
  session. The set of advertised names is a list; the order in which names are removed is not specified.
\<close>

definition CLIENT_TEXT :: string where "CLIENT_TEXT = ''text''"
definition CLIENT_ASR_EOS :: string where "CLIENT_ASR_EOS = ''asr_eos''"
definition CLIENT_TTS_FLUSH :: string where "CLIENT_TTS_FLUSH = ''tts_flush''"
definition CLIENT_ABORT :: string where "CLIENT_ABORT = ''abort''"
definition CLIENT_TOOL_RESULT :: string where "CLIENT_TOOL_RESULT = ''tool_result''"
definition CLIENT_TOOL_ADVERTISE :: string where "CLIENT_TOOL_ADVERTISE = ''tool_advertise''"
definition CLIENT_SESSION_UPDATE :: string where "CLIENT_SESSION_UPDATE = ''session.update''"
definition CLIENT_INPUT_AUDIO_BUFFER_COMMIT :: string where "CLIENT_INPUT_AUDIO_BUFFER_COMMIT = ''input_audio_buffer.commit''"
definition CLIENT_INPUT_AUDIO_BUFFER_CLEAR :: string where "CLIENT_INPUT_AUDIO_BUFFER_CLEAR = ''input_audio_buffer.clear''"
definition CLIENT_RESPONSE_CANCEL :: string where "CLIENT_RESPONSE_CANCEL = ''response.cancel''"
definition CLIENT_CONVERSATION_ITEM_CREATE :: string where "CLIENT_CONVERSATION_ITEM_CREATE = ''conversation.item.create''"
definition CLIENT_CONVERSATION_ITEM_TRUNCATE :: string where "CLIENT_CONVERSATION_ITEM_TRUNCATE = ''conversation.item.truncate''"
definition CLIENT_DIRECT_SPEAK :: string where "CLIENT_DIRECT_SPEAK = ''x_v2v.response.speak''"
definition CLIENT_CONVERSATION_RESET :: string where "CLIENT_CONVERSATION_RESET = ''x_v2v.conversation.reset''"
definition SERVER_CONVERSATION_ITEM_TRUNCATED :: string where "SERVER_CONVERSATION_ITEM_TRUNCATED = ''conversation.item.truncated''"
definition SERVER_CONVERSATION_RESET_DONE :: string where "SERVER_CONVERSATION_RESET_DONE = ''x_v2v.conversation.reset.done''"

lemmas client_types = CLIENT_TEXT_def CLIENT_ASR_EOS_def CLIENT_TTS_FLUSH_def CLIENT_ABORT_def CLIENT_TOOL_RESULT_def
  CLIENT_TOOL_ADVERTISE_def CLIENT_SESSION_UPDATE_def CLIENT_INPUT_AUDIO_BUFFER_COMMIT_def
  CLIENT_INPUT_AUDIO_BUFFER_CLEAR_def CLIENT_RESPONSE_CANCEL_def CLIENT_CONVERSATION_ITEM_CREATE_def
  CLIENT_CONVERSATION_ITEM_TRUNCATE_def CLIENT_DIRECT_SPEAK_def CLIENT_CONVERSATION_RESET_def

datatype frame = Binary "nat list" | Text string

datatype delivered = Unchanged frame | Payload jdict

datatype effect = Sent json | SentAudio "nat list" | Delivered delivered | Unregistered string

record proxy =
  px_adapter :: adapter
  px_binary_seen :: bool
  px_pending :: "delivered list"
  px_bound :: bool
  px_advertised :: "string list"
  px_inbox :: "frame list"
  px_log :: "effect list"

definition new_proxy :: "adapter \<Rightarrow> proxy" where
  "new_proxy a = \<lparr>px_adapter = a, px_binary_seen = False, px_pending = [], px_bound = False, px_advertised = [],
     px_inbox = [], px_log = []\<rparr>"

definition bind_tool_registry :: "proxy \<Rightarrow> proxy" where
  "bind_tool_registry px = px\<lparr>px_bound := True\<rparr>"

definition log_eff :: "effect list \<Rightarrow> proxy \<Rightarrow> proxy" where
  "log_eff es px = px\<lparr>px_log := px_log px @ es\<rparr>"

text \<open>The answer of a handler: the payload for the engine, if any, and the state with its log.\<close>

type_synonym handled = "(py_error, jdict option \<times> proxy) res"

subsection \<open>Client events\<close>

definition tool_entries :: "jdict \<Rightarrow> (py_error, json list) res" where
  "tool_entries session =
     (let v = jget session ''tools'' JNull
      in if \<not> jtruthy v then Inr []
         else case v of
                JList xs \<Rightarrow> Inr xs
              | JObj d \<Rightarrow> Inr (map JStr (keys d))
              | JStr s \<Rightarrow> Inr (map (\<lambda>c. JStr [c]) s)
              | _ \<Rightarrow> Inl TypeErr)"

definition tool_function :: "jdict \<Rightarrow> json" where
  "tool_function entry = (let f = jget entry ''function'' JNull in if jtruthy f then f else JObj entry)"

definition entry_name :: "(json \<Rightarrow> string) \<Rightarrow> json \<Rightarrow> string list" where
  "entry_name rep e =
     (case e of
        JObj d \<Rightarrow>
          (case tool_function d of
             JObj f \<Rightarrow> (let n = jget f ''name'' JNull in if jtruthy n then [jstr rep n] else [])
           | _ \<Rightarrow> [])
      | _ \<Rightarrow> [])"

definition tool_names :: "(json \<Rightarrow> string) \<Rightarrow> json list \<Rightarrow> string list" where
  "tool_names rep entries = filter (\<lambda>n. n \<noteq> []) (remdups (concat (map (entry_name rep) entries)))"

definition advertised_tools :: "json list \<Rightarrow> json list" where
  "advertised_tools entries =
     concat (map (\<lambda>e. case e of JObj d \<Rightarrow> [JObj (dupdate d (as_dict (jget d ''x_v2v'' JNull)))] | _ \<Rightarrow> []) entries)"

definition on_session_update :: "(nat \<Rightarrow> string) \<Rightarrow> (json \<Rightarrow> string) \<Rightarrow> jdict \<Rightarrow> proxy \<Rightarrow> handled" where
  "on_session_update uuid rep payload px =
     (let session = session_part payload ''session'';
          extension = session_part session ''x_v2v'';
          supplied = (dget session ''tools'' \<noteq> None)
      in bind_res (tool_entries session) (\<lambda>tools.
         let names = tool_names rep tools;
             removed = (if supplied \<and> px_bound px then filter (\<lambda>n. n \<notin> set names) (px_advertised px) else []);
             px1 = log_eff (map Unregistered removed) (if supplied then px\<lparr>px_advertised := names\<rparr> else px)
         in bind_res (dict_of (jget extension ''llm_params'' JNull)) (\<lambda>params.
            bind_res (session_updated uuid session None None (px_adapter px1)) (\<lambda>(ev, a1).
              Inr (Some [(''type'', JStr CLIENT_TOOL_ADVERTISE), (''tools'', JList (advertised_tools tools)),
                     (''system_prompt'', jget session ''instructions'' JNull), (''llm_params'', JObj params),
                     (''warm_prefix'', JBool supplied)],
                   log_eff [Sent ev] (px1\<lparr>px_adapter := a1\<rparr>))))))"

text \<open>An error of the proxy itself, in the shape the adapter gives it: \<open>translate(...)[0]\<close>.\<close>

definition reply_error ::
  "(nat \<Rightarrow> string) \<Rightarrow> (json \<Rightarrow> string) \<Rightarrow> string \<Rightarrow> string \<Rightarrow> string \<Rightarrow> proxy \<Rightarrow> proxy" where
  "reply_error uuid rep code msg param px =
     (case translate uuid rep rep [(''type'', JStr SERVER_ERROR), (''code'', JStr code), (''error'', JStr msg),
        (''param'', JStr param)] (px_adapter px) of
        (evs, a) \<Rightarrow> log_eff [Sent (hd evs)] (px\<lparr>px_adapter := a\<rparr>))"

definition tool_result_of :: "(string \<Rightarrow> json option) \<Rightarrow> (json \<Rightarrow> string) \<Rightarrow> jdict \<Rightarrow> jdict" where
  "tool_result_of loads rep item =
     (let output = jget item ''output'' (JStr ''{}'');
          result = (case output of
                      JStr s \<Rightarrow> (case loads s of
                                  Some v \<Rightarrow> v
                                | None \<Rightarrow> JObj [(''ok'', JBool True), (''result'', JObj [(''output'', JStr s)])])
                    | v \<Rightarrow> v);
          d = (case result of JObj d \<Rightarrow> d | v \<Rightarrow> [(''result'', v)]);
          okay = jtruthy (jget d ''ok'' (JBool True));
          err = jget d ''error'' JNull;
          val = jget d ''result'' (JObj d)
      in [(''type'', JStr CLIENT_TOOL_RESULT), (''call_id'', jget item ''call_id'' JNull),
          (''id'', jget item ''call_id'' JNull), (''name'', jget d ''name'' (JStr '''')), (''ok'', JBool okay)] @
         (if okay then [(''result'', case val of JObj r \<Rightarrow> JObj r | v \<Rightarrow> JObj [(''value'', v)])]
          else [(''error'', JStr (if jtruthy err then jstr rep err else ''tool execution failed''))]))"

definition on_item_create ::
  "(nat \<Rightarrow> string) \<Rightarrow> (json \<Rightarrow> string) \<Rightarrow> (string \<Rightarrow> json option) \<Rightarrow> jdict \<Rightarrow> proxy \<Rightarrow> handled" where
  "on_item_create uuid rep loads payload px =
     (let item = session_part payload ''item''
      in if dget item ''type'' \<noteq> Some (JStr ''function_call_output'')
         then Inr (None, reply_error uuid rep ''unsupported_conversation_item''
                     ''only function_call_output items are accepted'' ''item.type'' px)
         else Inr (Some (tool_result_of loads rep item), px))"

definition on_direct_speak :: "(json \<Rightarrow> string) \<Rightarrow> jdict \<Rightarrow> proxy \<Rightarrow> handled" where
  "on_direct_speak rep payload px =
     (let v = jget (session_part payload ''speech'') ''text'' JNull;
          text = (if jtruthy v then jstr rep v else '''')
      in Inr (Some [(''type'', JStr CLIENT_TEXT), (''text'', JStr text)],
              px\<lparr>px_adapter := mark_direct_speak (px_adapter px),
                 px_pending := px_pending px @ [Payload [(''type'', JStr CLIENT_TTS_FLUSH)]]\<rparr>))"

definition on_truncate :: "(nat \<Rightarrow> string) \<Rightarrow> (json \<Rightarrow> string) \<Rightarrow> jdict \<Rightarrow> proxy \<Rightarrow> handled" where
  "on_truncate uuid rep payload px =
     (case jint (jget payload ''audio_end_ms'' (JInt 0)) of
        Inl e \<Rightarrow> Inr (None, reply_error uuid rep ''invalid_audio_end_ms'' ''audio_end_ms must be a non-negative integer''
                             ''audio_end_ms'' px)
      | Inr ms \<Rightarrow>
          (case emit uuid SERVER_CONVERSATION_ITEM_TRUNCATED
                  [(''item_id'', jget payload ''item_id'' JNull),
                   (''content_index'', jget payload ''content_index'' (JInt 0)),
                   (''audio_end_ms'', JInt (max 0 ms))] (px_adapter px) of
             (ev, a) \<Rightarrow> Inr (None, log_eff [Sent ev] (px\<lparr>px_adapter := a\<rparr>))))"

definition on_reset :: "(nat \<Rightarrow> string) \<Rightarrow> proxy \<Rightarrow> handled" where
  "on_reset uuid px =
     (case emit uuid SERVER_CONVERSATION_RESET_DONE [] (mark_cancelled ''conversation_reset'' (px_adapter px)) of
        (ev, a) \<Rightarrow> Inr (Some [(''type'', JStr CLIENT_ABORT)], log_eff [Sent ev] (px\<lparr>px_adapter := a\<rparr>)))"

definition on_payload ::
  "(nat \<Rightarrow> string) \<Rightarrow> (json \<Rightarrow> string) \<Rightarrow> (string \<Rightarrow> json option) \<Rightarrow> jdict \<Rightarrow> proxy \<Rightarrow> handled" where
  "on_payload uuid rep loads payload px =
     (let typ = type_of payload
      in if typ = Some CLIENT_INPUT_AUDIO_BUFFER_COMMIT then Inr (Some [(''type'', JStr CLIENT_ASR_EOS)], px)
         else if typ = Some CLIENT_RESPONSE_CANCEL then
           Inr (Some [(''type'', JStr CLIENT_ABORT)],
                px\<lparr>px_adapter := mark_cancelled ''client_cancelled'' (px_adapter px)\<rparr>)
         else if typ = Some CLIENT_INPUT_AUDIO_BUFFER_CLEAR then Inr (Some [(''type'', JStr CLIENT_ABORT)], px)
         else if typ = Some CLIENT_SESSION_UPDATE then on_session_update uuid rep payload px
         else if typ = Some CLIENT_CONVERSATION_ITEM_CREATE then on_item_create uuid rep loads payload px
         else if typ = Some CLIENT_DIRECT_SPEAK then on_direct_speak rep payload px
         else if typ = Some CLIENT_CONVERSATION_ITEM_TRUNCATE then on_truncate uuid rep payload px
         else if typ = Some CLIENT_CONVERSATION_RESET then on_reset uuid px
         else Inr (Some payload, px))"

text \<open>One frame. A JSON value that is not an object has no \<open>get\<close>.\<close>

definition on_frame ::
  "(nat \<Rightarrow> string) \<Rightarrow> (json \<Rightarrow> string) \<Rightarrow> (string \<Rightarrow> json option) \<Rightarrow> frame \<Rightarrow> proxy \<Rightarrow>
   (py_error, delivered option \<times> proxy) res" where
  "on_frame uuid rep loads f px =
     (case f of
        Binary b \<Rightarrow> Inr (Some (Unchanged f), px)
      | Text s \<Rightarrow>
          if s = [] then Inr (Some (Unchanged f), px)
          else (case loads s of
                  None \<Rightarrow> Inr (Some (Unchanged f), px)
                | Some (JObj d) \<Rightarrow> bind_res (on_payload uuid rep loads d px) (\<lambda>(p, px1). Inr (map_option Payload p, px1))
                | Some v \<Rightarrow> Inl AttributeErr))"

text \<open>\<open>receive\<close>: a pending frame goes first; then frames are read until one is for the engine.\<close>

fun receive_loop ::
  "(nat \<Rightarrow> string) \<Rightarrow> (json \<Rightarrow> string) \<Rightarrow> (string \<Rightarrow> json option) \<Rightarrow> frame list \<Rightarrow> proxy \<Rightarrow> (py_error, proxy) res" where
  "receive_loop uuid rep loads inbox px =
     (case px_pending px of
        d # ds \<Rightarrow> Inr (log_eff [Delivered d] (px\<lparr>px_pending := ds, px_inbox := inbox\<rparr>))
      | [] \<Rightarrow>
          (case inbox of
             [] \<Rightarrow> Inr (px\<lparr>px_inbox := []\<rparr>)
           | f # fs \<Rightarrow> bind_res (on_frame uuid rep loads f px) (\<lambda>(d, px1).
               case d of
                 Some m \<Rightarrow> Inr (log_eff [Delivered m] (px1\<lparr>px_inbox := fs\<rparr>))
               | None \<Rightarrow> receive_loop uuid rep loads fs px1)))"

declare receive_loop.simps [simp del]

definition receive ::
  "(nat \<Rightarrow> string) \<Rightarrow> (json \<Rightarrow> string) \<Rightarrow> (string \<Rightarrow> json option) \<Rightarrow> proxy \<Rightarrow> (py_error, proxy) res" where
  "receive uuid rep loads px = receive_loop uuid rep loads (px_inbox px) px"

subsection \<open>Engine events and audio\<close>

definition send_json ::
  "(nat \<Rightarrow> string) \<Rightarrow> (json \<Rightarrow> string) \<Rightarrow> (json \<Rightarrow> string) \<Rightarrow> jdict \<Rightarrow> proxy \<Rightarrow> proxy" where
  "send_json uuid rep dumps p px =
     (case translate uuid rep dumps p (px_adapter px) of
        (evs, a) \<Rightarrow> log_eff (map Sent evs) (px\<lparr>px_adapter := a\<rparr>))"

definition send_bytes :: "nat list \<Rightarrow> proxy \<Rightarrow> proxy" where
  "send_bytes b px =
     (if \<not> px_binary_seen px \<and> length b = 4 then px\<lparr>px_binary_seen := True\<rparr>
      else log_eff [SentAudio b] (px\<lparr>px_binary_seen := True\<rparr>))"

text \<open>A session: frames arrive, the engine calls the proxy, in any order.\<close>

datatype proxy_event = Arrives frame | Receive | BindTools | SendJson jdict | SendBytes "nat list"

fun proxy_step ::
  "(nat \<Rightarrow> string) \<Rightarrow> (json \<Rightarrow> string) \<Rightarrow> (json \<Rightarrow> string) \<Rightarrow> (string \<Rightarrow> json option) \<Rightarrow> proxy_event \<Rightarrow> proxy \<Rightarrow>
   (py_error, proxy) res" where
  "proxy_step uuid rep dumps loads (Arrives f) px = Inr (px\<lparr>px_inbox := px_inbox px @ [f]\<rparr>)"
| "proxy_step uuid rep dumps loads Receive px = receive uuid rep loads px"
| "proxy_step uuid rep dumps loads BindTools px = Inr (bind_tool_registry px)"
| "proxy_step uuid rep dumps loads (SendJson p) px = Inr (send_json uuid rep dumps p px)"
| "proxy_step uuid rep dumps loads (SendBytes b) px = Inr (send_bytes b px)"

definition proxy_run ::
  "(nat \<Rightarrow> string) \<Rightarrow> (json \<Rightarrow> string) \<Rightarrow> (json \<Rightarrow> string) \<Rightarrow> (string \<Rightarrow> json option) \<Rightarrow> proxy_event list \<Rightarrow> proxy \<Rightarrow>
   (py_error, proxy) res" where
  "proxy_run uuid rep dumps loads = fold_res (proxy_step uuid rep dumps loads)"

subsection \<open>What the client sees follows the lifecycle\<close>

definition sent :: "effect list \<Rightarrow> json list" where
  "sent es = concat (map (\<lambda>e. case e of Sent j \<Rightarrow> [j] | _ \<Rightarrow> []) es)"

lemma sent_simps [simp]:
  "sent [] = []" "sent (xs @ ys) = sent xs @ sent ys" "sent (Sent j # es) = j # sent es" "sent (Delivered d # es) = sent es"
  "sent (SentAudio b # es) = sent es" "sent (Unregistered n # es) = sent es" "sent (map Sent js) = js"
  "sent (map Unregistered ns) = []"
  by (simp_all add: sent_def) (induction js; simp)

definition life_ok :: "proxy \<Rightarrow> bool" where
  "life_ok px \<longleftrightarrow> adapter_inv (px_adapter px) \<and>
     spec_run None (marks (sent (px_log px))) = Some (life_of (px_adapter px))"

lemma life_ok_ext:
  assumes "life_ok px" and "simulates (px_adapter px) (sent es, px_adapter px1)" and "px_log px1 = px_log px @ es"
  shows "life_ok px1"
  using assms by (simp add: life_ok_def simulates_def spec_run_append)

lemma log_eff_simps [simp]:
  "px_log (log_eff es px) = px_log px @ es" "px_adapter (log_eff es px) = px_adapter px"
  "px_pending (log_eff es px) = px_pending px" "px_advertised (log_eff es px) = px_advertised px"
  "px_bound (log_eff es px) = px_bound px" "px_inbox (log_eff es px) = px_inbox px"
  by (simp_all add: log_eff_def)

lemma reply_types [simp]:
  "marks_for SERVER_SESSION_UPDATED d = []" "marks_for SERVER_CONVERSATION_ITEM_TRUNCATED d = []"
  "marks_for SERVER_CONVERSATION_RESET_DONE d = []"
  by (rule marks_for_other, code_simp)+

lemma error_translated:
  "translate uuid rep dumps ((''type'', JStr SERVER_ERROR) # d) a = on_error uuid rep ((''type'', JStr SERVER_ERROR) # d) a"
proof -
  have "\<not> canonical_type SERVER_ERROR" "SERVER_ERROR \<noteq> SERVER_TTS_STARTED" "SERVER_ERROR \<noteq> SERVER_TTS_SENTENCE_DONE"
    "SERVER_ERROR \<noteq> SERVER_TTS_DONE" "SERVER_ERROR \<noteq> SERVER_VAD_EVENT" "SERVER_ERROR \<noteq> SERVER_ASR_ENDPOINT"
    "SERVER_ERROR \<noteq> SERVER_ASR_PARTIAL" "SERVER_ERROR \<noteq> SERVER_ASR_FINAL" "SERVER_ERROR \<noteq> SERVER_TOOL_CALL"
    by code_simp+
  then show ?thesis by (simp add: translate_def type_of_def)
qed

lemma on_error_one: "fst (on_error uuid rep p a) = [hd (fst (on_error uuid rep p a))]"
  by (simp add: on_error_def emit_eq Let_def)

lemma reply_error_life: "life_ok px \<Longrightarrow> life_ok (reply_error uuid rep code msg param px)"
proof -
  assume l: "life_ok px"
  let ?p = "[(''type'', JStr SERVER_ERROR), (''code'', JStr code), (''error'', JStr msg), (''param'', JStr param)]"
  obtain evs a where e: "on_error uuid rep ?p (px_adapter px) = (evs, a)" by fastforce
  have one: "[hd evs] = evs" using on_error_one [of uuid rep ?p "px_adapter px"] e by simp
  have "simulates (px_adapter px) (on_error uuid rep ?p (px_adapter px))"
    using l by (intro input_handlers_simulate) (simp add: life_ok_def)
  then have "simulates (px_adapter px) ([hd evs], a)" by (simp only: e one)
  then show ?thesis
    by (intro life_ok_ext [OF l, where es = "[Sent (hd evs)]"]) (simp_all add: reply_error_def error_translated e)
qed

lemma session_updated_quiet:
  assumes "session_updated uuid session c i a = Inr (ev, b)" and "adapter_inv a"
  shows "simulates a ([ev], b)"
  using assms by (auto simp: session_updated_def Let_def bind_res_eq_Inr emit_eq quiet)

text \<open>An update that does not raise: the removed names, the new names, the payload.\<close>

definition withdrawn :: "(json \<Rightarrow> string) \<Rightarrow> jdict \<Rightarrow> json list \<Rightarrow> proxy \<Rightarrow> string list" where
  "withdrawn rep session tools px =
     (if dget session ''tools'' \<noteq> None \<and> px_bound px
      then filter (\<lambda>n. n \<notin> set (tool_names rep tools)) (px_advertised px) else [])"

lemma on_session_update_cases:
  assumes "on_session_update uuid rep payload px = Inr (p, px1)"
  obtains session tools params ev a1 where "session = session_part payload ''session''"
    "tool_entries session = Inr tools" "session_updated uuid session None None (px_adapter px) = Inr (ev, a1)"
    "p = Some [(''type'', JStr CLIENT_TOOL_ADVERTISE), (''tools'', JList (advertised_tools tools)),
       (''system_prompt'', jget session ''instructions'' JNull), (''llm_params'', JObj params),
       (''warm_prefix'', JBool (dget session ''tools'' \<noteq> None))]"
    "px_advertised px1 = (if dget session ''tools'' \<noteq> None then tool_names rep tools else px_advertised px)"
    "px_log px1 = px_log px @ map Unregistered (withdrawn rep session tools px) @ [Sent ev]" "px_adapter px1 = a1"
    "px_bound px1 = px_bound px" "px_pending px1 = px_pending px"
proof -
  let ?s = "session_part payload ''session''"
  have a: "px_adapter (if b then px\<lparr>px_advertised := ns\<rparr> else px) = px_adapter px" for b ns by simp
  from assms obtain tools params ev a1 where t: "tool_entries ?s = Inr tools"
    and u: "session_updated uuid ?s None None (px_adapter px) = Inr (ev, a1)"
    and p: "p = Some [(''type'', JStr CLIENT_TOOL_ADVERTISE), (''tools'', JList (advertised_tools tools)),
       (''system_prompt'', jget ?s ''instructions'' JNull), (''llm_params'', JObj params),
       (''warm_prefix'', JBool (dget ?s ''tools'' \<noteq> None))]"
    and x: "px1 = log_eff [Sent ev] (log_eff (map Unregistered (withdrawn rep ?s tools px))
       (if dget ?s ''tools'' \<noteq> None then px\<lparr>px_advertised := tool_names rep tools\<rparr> else px)\<lparr>px_adapter := a1\<rparr>)"
    unfolding on_session_update_def Let_def bind_res_eq_Inr withdrawn_def [symmetric] by (auto simp: a split: prod.splits)
  show thesis
    by (rule that [OF refl t u p]) (simp_all add: x)
qed

lemma on_session_update_life:
  assumes l: "life_ok px" and "on_session_update uuid rep payload px = Inr (p, px1)"
  shows "life_ok px1"
  using assms(2)
proof (rule on_session_update_cases)
  fix session tools params ev a1
  assume u: "session_updated uuid session None None (px_adapter px) = Inr (ev, a1)"
    and px1: "px_log px1 = px_log px @ map Unregistered (withdrawn rep session tools px) @ [Sent ev]" "px_adapter px1 = a1"
  have "simulates (px_adapter px) ([ev], a1)" using session_updated_quiet [OF u] l by (simp add: life_ok_def)
  then show ?thesis
    by (intro life_ok_ext [OF l, where es = "map Unregistered (withdrawn rep session tools px) @ [Sent ev]"]) (simp_all add: px1)
qed

lemma mark_quiet:
  "adapter_inv a \<Longrightarrow> simulates a ([], mark_cancelled reason a)" "adapter_inv a \<Longrightarrow> simulates a ([], mark_direct_speak a)"
  by (simp_all add: quiet mark_cancelled_def mark_direct_speak_def)

lemma emit_quiet:
  assumes "adapter_inv a" and "marks_for t [] = []" and "\<And>d. marks_for t d = []"
  shows "simulates a ([fst (emit uuid t d a)], snd (emit uuid t d a))"
  using assms by (simp add: emit_eq quiet)

lemma on_payload_life:
  assumes l: "life_ok px" and h: "on_payload uuid rep loads payload px = Inr (p, px1)"
  shows "life_ok px1"
proof -
  let ?a = "px_adapter px"
  have inv: "adapter_inv ?a" using l by (simp add: life_ok_def)
  have c: "adapter_inv (mark_cancelled r ?a)" "simulates ?a ([], mark_cancelled r ?a)" for r
    using mark_quiet(1) [OF inv, of r] by (simp_all add: simulates_def)
  have keep: "life_ok (px\<lparr>px_adapter := b, px_pending := q\<rparr>)" "life_ok (px\<lparr>px_adapter := b\<rparr>)" if "simulates ?a ([], b)" for b q
    using that by (auto intro: life_ok_ext [OF l, where es = "[]"])
  have item: "on_item_create uuid rep loads payload px = Inr (p, px1) \<Longrightarrow> ?thesis"
    using l reply_error_life by (auto simp: on_item_create_def Let_def split: if_splits)
  have speak: "on_direct_speak rep payload px = Inr (p, px1) \<Longrightarrow> ?thesis"
    using keep(1) [OF mark_quiet(2) [OF inv]] by (auto simp: on_direct_speak_def Let_def)
  have trunc: "?thesis" if "on_truncate uuid rep payload px = Inr (p, px1)"
  proof (cases "jint (jget payload ''audio_end_ms'' (JInt 0))")
    case (Inr ms)
    with that emit_quiet [OF inv, of SERVER_CONVERSATION_ITEM_TRUNCATED] show ?thesis
      by (auto simp: on_truncate_def emit_eq intro!: life_ok_ext [OF l])
  qed (use that l reply_error_life in \<open>auto simp: on_truncate_def\<close>)
  have reset: "on_reset uuid px = Inr (p, px1) \<Longrightarrow> ?thesis"
    using simulates_trans [OF c(2) emit_quiet [OF c(1), of SERVER_CONVERSATION_RESET_DONE]]
    by (auto simp: on_reset_def emit_eq intro!: life_ok_ext [OF l])
  show ?thesis
    using h l keep(2) [OF c(2)] on_session_update_life [OF l] item speak trunc reset
    by (auto simp: on_payload_def Let_def split: if_splits)
qed

lemma on_frame_life:
  "life_ok px \<Longrightarrow> on_frame uuid rep loads f px = Inr (d, px1) \<Longrightarrow> life_ok px1"
  by (auto simp: on_frame_def bind_res_eq_Inr dest: on_payload_life split: frame.splits if_splits option.splits json.splits)

lemma life_ok_frame [simp]:
  "life_ok (px\<lparr>px_inbox := fs\<rparr>) = life_ok px" "life_ok (px\<lparr>px_pending := ds\<rparr>) = life_ok px"
  "life_ok (px\<lparr>px_bound := b\<rparr>) = life_ok px" "life_ok (px\<lparr>px_binary_seen := b\<rparr>) = life_ok px"
  "life_ok (log_eff [Delivered d] px) = life_ok px" "life_ok (log_eff [SentAudio bs] px) = life_ok px"
  by (simp_all add: life_ok_def)

text \<open>What one frame and one hand-over keep, a call of \<open>receive\<close> keeps.\<close>

lemma receive_loop_keeps:
  assumes "P px" and "receive_loop uuid rep loads inbox px = Inr px1"
    and inbox: "\<And>px fs. P px \<Longrightarrow> P (px\<lparr>px_inbox := fs\<rparr>)"
    and pop: "\<And>px d ds. P px \<Longrightarrow> px_pending px = d # ds \<Longrightarrow> P (log_eff [Delivered d] (px\<lparr>px_pending := ds\<rparr>))"
    and skip: "\<And>px px1 f. f \<in> set inbox \<Longrightarrow> P px \<Longrightarrow> px_pending px = [] \<Longrightarrow> on_frame uuid rep loads f px = Inr (None, px1) \<Longrightarrow> P px1"
    and deliver: "\<And>px px1 f m. f \<in> set inbox \<Longrightarrow> P px \<Longrightarrow> px_pending px = [] \<Longrightarrow> on_frame uuid rep loads f px = Inr (Some m, px1) \<Longrightarrow>
      P (log_eff [Delivered m] px1)"
  shows "P px1"
  using assms(1,2) skip deliver
proof (induction inbox arbitrary: px)
  case Nil
  have "log_eff [Delivered d] (px\<lparr>px_pending := ds, px_inbox := []\<rparr>) =
      (log_eff [Delivered d] (px\<lparr>px_pending := ds\<rparr>))\<lparr>px_inbox := []\<rparr>" for d ds by (simp add: log_eff_def)
  then show ?case
    using Nil inbox [OF Nil(1)] inbox [OF pop [OF Nil(1)]] by (auto simp: receive_loop.simps [of _ _ _ "[]"] split: list.splits)
next
  case (Cons f fs)
  show ?case
  proof (cases "px_pending px")
    case (Cons d ds)
    have "px1 = (log_eff [Delivered d] (px\<lparr>px_pending := ds\<rparr>))\<lparr>px_inbox := f # fs\<rparr>"
      using Cons.prems(2) Cons by (auto simp: receive_loop.simps [of _ _ _ "f # fs"] log_eff_def)
    with inbox [OF pop [OF Cons.prems(1) Cons]] show ?thesis by simp
  next
    case Nil
    with Cons.prems(2) obtain d px2 where f: "on_frame uuid rep loads f px = Inr (d, px2)"
      and r: "(case d of Some m \<Rightarrow> Inr (log_eff [Delivered m] (px2\<lparr>px_inbox := fs\<rparr>)) | None \<Rightarrow> receive_loop uuid rep loads fs px2) = Inr px1"
      by (auto simp: receive_loop.simps [of _ _ _ "f # fs"] bind_res_eq_Inr)
    show ?thesis
    proof (cases d)
      case None
      with r have "receive_loop uuid rep loads fs px2 = Inr px1" by simp
      moreover have "P px2" using Cons.prems(3) [of f px px2] Cons.prems(1) Nil f None by simp
      moreover have "P px'" if "g \<in> set fs" "P px0" "px_pending px0 = []" "on_frame uuid rep loads g px0 = Inr (None, px')" for g px0 px'
        using Cons.prems(3) [of g px0 px'] that by simp
      moreover have "P (log_eff [Delivered m] px')"
        if "g \<in> set fs" "P px0" "px_pending px0 = []" "on_frame uuid rep loads g px0 = Inr (Some m, px')" for g px0 m px'
        using Cons.prems(4) [of g px0 m px'] that by simp
      ultimately show ?thesis using Cons.IH [of px2] by blast
    next
      case (Some m)
      with r have "px1 = (log_eff [Delivered m] px2)\<lparr>px_inbox := fs\<rparr>" by (auto simp: log_eff_def)
      moreover have "P (log_eff [Delivered m] px2)" using Cons.prems(4) [of f px m px2] Cons.prems(1) Nil f Some by simp
      ultimately show ?thesis using inbox by simp
    qed
  qed
qed

lemma receive_loop_life:
  "life_ok px \<Longrightarrow> receive_loop uuid rep loads inbox px = Inr px1 \<Longrightarrow> life_ok px1"
  by (erule receive_loop_keeps) (simp_all, (blast intro: on_frame_life)+)

definition engine_event :: "proxy_event \<Rightarrow> bool" where
  "engine_event e = (case e of SendJson p \<Rightarrow> engine_op (Engine p) | _ \<Rightarrow> True)"

lemma proxy_step_life:
  assumes l: "life_ok px" and "engine_event e" and s: "proxy_step uuid rep dumps loads e px = Inr px1"
  shows "life_ok px1"
proof (cases e)
  case (SendJson p)
  obtain evs a where t: "translate uuid rep dumps p (px_adapter px) = (evs, a)" by fastforce
  have "simulates (px_adapter px) (adapter_step uuid rep dumps (Engine p) (px_adapter px))"
    using l assms(2) SendJson by (intro step_simulates) (simp_all add: life_ok_def engine_event_def)
  then show ?thesis
    using s by (intro life_ok_ext [OF l, where es = "map Sent evs"]) (auto simp: SendJson send_json_def t)
next
  case Receive
  with s receive_loop_life [OF l] show ?thesis by (simp add: receive_def)
qed (use s l in \<open>auto simp: bind_tool_registry_def send_bytes_def split: if_splits\<close>)

text \<open>C38: Whatever the client sends and the engine reports, in whatever order, the events the client gets
  follow the lifecycle of responses: the answers of the proxy itself never fall out of it.\<close>

theorem proxied_session_follows_lifecycle:
  assumes "proxy_run uuid rep dumps loads es (new_proxy (new_adapter uuid prov model i out caps)) = Inr px"
    and "\<forall>e \<in> set es. engine_event e"
  shows "spec_run None (marks (sent (px_log px))) = Some (life_of (px_adapter px))"
proof -
  have "life_ok (new_proxy (new_adapter uuid prov model i out caps))"
    using new_adapter_inv [of uuid prov model i out caps] by (simp add: life_ok_def new_proxy_def)
  then have "life_ok px"
    using assms proxy_step_life by (auto simp: proxy_run_def elim!: fold_res_inv)
  then show ?thesis by (simp add: life_ok_def)
qed

text \<open>A client asks for tools, cancels, gets an error, and resets the conversation.\<close>

definition demo_loads :: "string \<Rightarrow> json option" where
  "demo_loads s =
     (if s = ''tools'' then Some (JObj [(''type'', JStr CLIENT_SESSION_UPDATE),
         (''session'', JObj [(''tools'', JList [JObj [(''name'', JStr ''lamp'')]])])])
      else if s = ''no tools'' then Some (JObj [(''type'', JStr CLIENT_SESSION_UPDATE), (''session'', JObj [(''tools'', JList [])])])
      else if s = ''speak'' then Some (JObj [(''type'', JStr CLIENT_DIRECT_SPEAK), (''speech'', JObj [(''text'', JStr ''hi'')])])
      else if s = ''item'' then Some (JObj [(''type'', JStr CLIENT_CONVERSATION_ITEM_CREATE)])
      else if s = ''reset'' then Some (JObj [(''type'', JStr CLIENT_CONVERSATION_RESET)])
      else None)"

definition demo_proxy_events :: "proxy_event list" where
  "demo_proxy_events =
     [BindTools, Arrives (Text ''tools''), Receive, Arrives (Text ''item''), Arrives (Text ''speak''), Receive, Receive,
      SendJson [(''type'', JStr SERVER_TTS_STARTED), (''sentence'', JStr ''hi'')], SendBytes [0, 0, 62, 128],
      SendBytes [1, 2, 3, 4], Arrives (Text ''reset''), Receive, SendJson [(''type'', JStr SERVER_TTS_DONE)],
      Arrives (Text ''no tools''), Receive]"

definition demo_proxy_end :: "(py_error, proxy) res" where
  "demo_proxy_end = proxy_run nat_str (\<lambda>_. []) (\<lambda>_. []) demo_loads demo_proxy_events
     (new_proxy (new_adapter nat_str ''local'' ''m'' 16000 16000 None))"

lemma demo_proxy_ok: "is_ok demo_proxy_end"
  by code_simp

theorem proxied_session_follows_lifecycle_witness:
  "\<exists>px. demo_proxy_end = Inr px \<and> spec_run None (marks (sent (px_log px))) = Some (life_of (px_adapter px))"
proof -
  obtain px where px: "demo_proxy_end = Inr px" using demo_proxy_ok by (auto simp: is_ok_def split: sum.splits)
  moreover have "\<forall>e \<in> set demo_proxy_events. engine_event e" by code_simp
  ultimately show ?thesis
    using proxied_session_follows_lifecycle [of nat_str "\<lambda>_. []" "\<lambda>_. []" demo_loads demo_proxy_events] by (auto simp: demo_proxy_end_def)
qed

subsection \<open>What the engine gets\<close>

text \<open>The events of the new protocol that the engine does not know.\<close>

definition control_types :: "string set" where
  "control_types = {CLIENT_INPUT_AUDIO_BUFFER_COMMIT, CLIENT_RESPONSE_CANCEL, CLIENT_INPUT_AUDIO_BUFFER_CLEAR,
     CLIENT_SESSION_UPDATE, CLIENT_CONVERSATION_ITEM_CREATE, CLIENT_DIRECT_SPEAK, CLIENT_CONVERSATION_ITEM_TRUNCATE,
     CLIENT_CONVERSATION_RESET}"

definition for_engine :: "(string \<Rightarrow> json option) \<Rightarrow> delivered \<Rightarrow> bool" where
  "for_engine loads d =
     (case d of
        Payload p \<Rightarrow> (case type_of p of Some t \<Rightarrow> t \<notin> control_types | None \<Rightarrow> True)
      | Unchanged (Text s) \<Rightarrow> s = [] \<or> loads s = None
      | Unchanged (Binary b) \<Rightarrow> True)"

definition legacy_only :: "(string \<Rightarrow> json option) \<Rightarrow> proxy \<Rightarrow> bool" where
  "legacy_only loads px \<longleftrightarrow>
     (\<forall>d. Delivered d \<in> set (px_log px) \<longrightarrow> for_engine loads d) \<and> (\<forall>d \<in> set (px_pending px). for_engine loads d)"

lemma legacy_types [simp]:
  "CLIENT_TEXT \<notin> control_types" "CLIENT_ASR_EOS \<notin> control_types" "CLIENT_TTS_FLUSH \<notin> control_types"
  "CLIENT_ABORT \<notin> control_types" "CLIENT_TOOL_RESULT \<notin> control_types" "CLIENT_TOOL_ADVERTISE \<notin> control_types"
  by code_simp+

lemma for_engine_typed [simp]:
  "for_engine loads (Payload ((''type'', JStr t) # d)) = (t \<notin> control_types)"
  by (simp add: for_engine_def type_of_def)

lemma reply_error_frame [simp]:
  "px_pending (reply_error uuid rep code msg param px) = px_pending px"
  "\<exists>es. px_log (reply_error uuid rep code msg param px) = px_log px @ [Sent es]"
  by (simp_all add: reply_error_def split: prod.split)

lemma legacy_only_simps [simp]:
  "legacy_only loads (px\<lparr>px_adapter := a\<rparr>) = legacy_only loads px"
  "legacy_only loads (px\<lparr>px_inbox := fs\<rparr>) = legacy_only loads px"
  "legacy_only loads (px\<lparr>px_bound := b\<rparr>) = legacy_only loads px"
  "legacy_only loads (px\<lparr>px_binary_seen := b\<rparr>) = legacy_only loads px"
  "legacy_only loads (log_eff [Sent e] px) = legacy_only loads px"
  "legacy_only loads (log_eff [SentAudio bs] px) = legacy_only loads px"
  "legacy_only loads (log_eff (map Sent evs) px) = legacy_only loads px"
  "legacy_only loads (log_eff [Delivered d] px) = (legacy_only loads px \<and> for_engine loads d)"
  by (auto simp: legacy_only_def)

lemma reply_error_legacy [simp]: "legacy_only loads (reply_error uuid rep code msg param px) = legacy_only loads px"
  by (simp add: reply_error_def split: prod.split)

lemma on_session_update_legacy:
  assumes "legacy_only loads px" and "on_session_update uuid rep payload px = Inr (p, px1)"
  shows "legacy_only loads px1 \<and> (\<forall>j. p = Some j \<longrightarrow> for_engine loads (Payload j))"
  using assms(2)
proof (rule on_session_update_cases)
  fix session tools params ev a1
  assume p: "p = Some [(''type'', JStr CLIENT_TOOL_ADVERTISE), (''tools'', JList (advertised_tools tools)),
       (''system_prompt'', jget session ''instructions'' JNull), (''llm_params'', JObj params),
       (''warm_prefix'', JBool (dget session ''tools'' \<noteq> None))]"
    and x: "px_log px1 = px_log px @ map Unregistered (withdrawn rep session tools px) @ [Sent ev]"
      "px_pending px1 = px_pending px"
  have "legacy_only loads px1" using assms(1) by (auto simp: legacy_only_def x)
  then show ?thesis by (simp add: p)
qed

lemma item_and_truncate_legacy:
  assumes "legacy_only loads px"
  shows "on_item_create uuid rep loads payload px = Inr (p, px1) \<Longrightarrow>
      legacy_only loads px1 \<and> (\<forall>j. p = Some j \<longrightarrow> for_engine loads (Payload j))"
    and "on_truncate uuid rep payload px = Inr (p, px1) \<Longrightarrow>
      legacy_only loads px1 \<and> (\<forall>j. p = Some j \<longrightarrow> for_engine loads (Payload j))"
  using assms
  by (auto simp: on_item_create_def tool_result_of_def on_truncate_def Let_def split: if_splits sum.splits prod.splits)

lemma speak_and_reset_legacy:
  assumes "legacy_only loads px"
  shows "on_direct_speak rep payload px = Inr (p, px1) \<Longrightarrow>
      legacy_only loads px1 \<and> (\<forall>j. p = Some j \<longrightarrow> for_engine loads (Payload j))"
    and "on_reset uuid px = Inr (p, px1) \<Longrightarrow>
      legacy_only loads px1 \<and> (\<forall>j. p = Some j \<longrightarrow> for_engine loads (Payload j))"
proof -
  assume "on_direct_speak rep payload px = Inr (p, px1)"
  with assms show "legacy_only loads px1 \<and> (\<forall>j. p = Some j \<longrightarrow> for_engine loads (Payload j))"
    by (auto simp: on_direct_speak_def Let_def legacy_only_def)
next
  assume "on_reset uuid px = Inr (p, px1)"
  with assms show "legacy_only loads px1 \<and> (\<forall>j. p = Some j \<longrightarrow> for_engine loads (Payload j))"
    by (auto simp: on_reset_def split: prod.splits)
qed

lemma on_payload_legacy:
  assumes l: "legacy_only loads px" and h: "on_payload uuid rep loads payload px = Inr (p, px1)"
  shows "legacy_only loads px1 \<and> (\<forall>j. p = Some j \<longrightarrow> for_engine loads (Payload j))"
proof (cases "\<exists>t. type_of payload = Some t \<and> t \<in> control_types")
  case True
  then obtain t where t: "type_of payload = Some t" "t \<in> control_types" by blast
  have "t = CLIENT_INPUT_AUDIO_BUFFER_COMMIT \<or> t = CLIENT_RESPONSE_CANCEL \<or> t = CLIENT_INPUT_AUDIO_BUFFER_CLEAR \<or>
     t = CLIENT_SESSION_UPDATE \<or> t = CLIENT_CONVERSATION_ITEM_CREATE \<or> t = CLIENT_DIRECT_SPEAK \<or>
     t = CLIENT_CONVERSATION_ITEM_TRUNCATE \<or> t = CLIENT_CONVERSATION_RESET"
    using t(2) by (simp add: control_types_def)
  with h show ?thesis
    unfolding on_payload_def t(1) Let_def option.inject
    using l by (auto dest!: on_session_update_legacy [OF l] item_and_truncate_legacy [OF l]
        speak_and_reset_legacy [OF l] split: if_split_asm)
next
  case False
  then have "for_engine loads (Payload payload)" by (auto simp: for_engine_def split: option.split)
  moreover have "p = Some payload \<and> px1 = px"
    using h False unfolding on_payload_def Let_def by (simp add: control_types_def split: if_split_asm)
  ultimately show ?thesis using l by simp
qed

lemma on_frame_legacy:
  assumes "legacy_only loads px" and "on_frame uuid rep loads f px = Inr (d, px1)"
  shows "legacy_only loads px1 \<and> (\<forall>m. d = Some m \<longrightarrow> for_engine loads m)"
proof (cases f)
  case (Text s)
  show ?thesis
  proof (cases "s = [] \<or> loads s = None")
    case True
    then have "d = Some (Unchanged (Text s))" "px1 = px" using assms(2) by (auto simp: Text on_frame_def split: if_splits)
    with True assms(1) show ?thesis by (auto simp: for_engine_def)
  next
    case False
    with assms(2) obtain q p where "loads s = Some (JObj q)" "on_payload uuid rep loads q px = Inr (p, px1)"
      "d = map_option Payload p"
      by (auto simp: Text on_frame_def bind_res_eq_Inr split: json.splits)
    with on_payload_legacy [OF assms(1)] show ?thesis by auto
  qed
qed (use assms in \<open>auto simp: on_frame_def for_engine_def\<close>)

lemma receive_legacy: "legacy_only loads px \<Longrightarrow> receive uuid rep loads px = Inr px1 \<Longrightarrow> legacy_only loads px1"
  unfolding receive_def
proof (erule receive_loop_keeps)
  fix px d ds
  assume "legacy_only loads px" and "px_pending px = d # ds"
  then show "legacy_only loads (log_eff [Delivered d] (px\<lparr>px_pending := ds\<rparr>))" by (auto simp: legacy_only_def)
next
  fix px px1 f
  assume "legacy_only loads px" and "on_frame uuid rep loads f px = Inr (None, px1)"
  from on_frame_legacy [OF this] show "legacy_only loads px1" by simp
next
  fix px px1 f m
  assume "legacy_only loads px" and "on_frame uuid rep loads f px = Inr (Some m, px1)"
  from on_frame_legacy [OF this] show "legacy_only loads (log_eff [Delivered m] px1)" by simp
qed simp_all

text \<open>The engine never gets an event of the new protocol, however the client mixes the two: what reaches it
  is binary, no JSON, or an object of another type. A direct speech is its text and a flush.\<close>

theorem engine_gets_legacy_frames:
  assumes "proxy_run uuid rep dumps loads es (new_proxy a) = Inr px" and "Delivered d \<in> set (px_log px)"
  shows "for_engine loads d"
proof -
  have step: "legacy_only loads px2" if "legacy_only loads px1" "proxy_step uuid rep dumps loads e px1 = Inr px2" for e px1 px2
    using that receive_legacy [OF that(1)]
    by (cases e) (auto simp: bind_tool_registry_def send_json_def send_bytes_def split: prod.splits if_splits)
  have "legacy_only loads (new_proxy a)" by (simp add: legacy_only_def new_proxy_def)
  then have "legacy_only loads px"
    using assms(1) step by (auto simp: proxy_run_def elim!: fold_res_inv)
  with assms(2) show ?thesis by (simp add: legacy_only_def)
qed

theorem engine_gets_legacy_frames_witness:
  "\<exists>px. demo_proxy_end = Inr px \<and> Delivered (Payload [(''type'', JStr CLIENT_TTS_FLUSH)]) \<in> set (px_log px) \<and>
     for_engine demo_loads (Payload [(''type'', JStr CLIENT_TTS_FLUSH)])"
proof -
  obtain px where px: "demo_proxy_end = Inr px" using demo_proxy_ok by (elim is_okE)
  have "is_ok demo_proxy_end \<and>
    (case demo_proxy_end of Inr px \<Rightarrow> Delivered (Payload [(''type'', JStr CLIENT_TTS_FLUSH)]) \<in> set (px_log px) | Inl _ \<Rightarrow> False)"
    by code_simp
  then have d: "Delivered (Payload [(''type'', JStr CLIENT_TTS_FLUSH)]) \<in> set (px_log px)" by (simp add: px)
  from engine_gets_legacy_frames [OF px [unfolded demo_proxy_end_def] d] px d show ?thesis by blast
qed

subsection \<open>Withdrawn tools\<close>

text \<open>What the registry of the engine holds after a log, when the engine registers the tools of each
  advertisement it gets under their names.\<close>

fun registered_tools :: "(json \<Rightarrow> string) \<Rightarrow> effect list \<Rightarrow> string set \<Rightarrow> string set" where
  "registered_tools rep [] R = R"
| "registered_tools rep (Unregistered n # es) R = registered_tools rep es (R - {n})"
| "registered_tools rep (Delivered (Payload p) # es) R =
     registered_tools rep es
       (if type_of p = Some CLIENT_TOOL_ADVERTISE
        then R \<union> (case dget p ''tools'' of Some (JList xs) \<Rightarrow> set (tool_names rep xs) | _ \<Rightarrow> {}) else R)"
| "registered_tools rep (_ # es) R = registered_tools rep es R"

lemma registered_tools_append: "registered_tools rep (xs @ ys) R = registered_tools rep ys (registered_tools rep xs R)"
  by (induction rep xs R rule: registered_tools.induct) simp_all

lemma registered_tools_unregister: "registered_tools rep (map Unregistered ns) R = R - set ns"
  by (induction ns arbitrary: R) auto

lemma registered_tools_sent: "registered_tools rep (map Sent evs) R = R"
  by (induction evs) simp_all

text \<open>A client that never sends the engine's own frames, and whose tools do not rename themselves in the
  extension of their entry.\<close>

definition plain_entry :: "json \<Rightarrow> bool" where
  "plain_entry e = (case e of
     JObj d \<Rightarrow> dget (as_dict (jget d ''x_v2v'' JNull)) ''name'' = None \<and>
              dget (as_dict (jget d ''x_v2v'' JNull)) ''function'' = None
   | _ \<Rightarrow> True)"

definition plain_client :: "json \<Rightarrow> bool" where
  "plain_client v = (case v of
     JObj p \<Rightarrow> type_of p \<noteq> Some CLIENT_TOOL_ADVERTISE \<and>
       (case tool_entries (session_part p ''session'') of Inr es \<Rightarrow> list_all plain_entry es | Inl _ \<Rightarrow> True)
   | _ \<Rightarrow> True)"

lemma map_of_rev_None: "dget d k = None \<Longrightarrow> map_of (rev d) k = None"
  by (metis dget_None_iff keys_def map_of_eq_None_iff rev_map set_rev image_set)

lemma entry_name_advertised:
  assumes "plain_entry (JObj d)"
  shows "entry_name rep (JObj (dupdate d (as_dict (jget d ''x_v2v'' JNull)))) = entry_name rep (JObj d)"
proof -
  let ?x = "as_dict (jget d ''x_v2v'' JNull)"
  have "dget ?x ''name'' = None" "dget ?x ''function'' = None" using assms by (simp_all add: plain_entry_def)
  then have g: "dget (dupdate d ?x) ''name'' = dget d ''name''" "dget (dupdate d ?x) ''function'' = dget d ''function''"
    by (simp_all add: dget_dupdate map_of_rev_None)
  have j: "jget e k v = jget d k v" if "dget e k = dget d k" for e k v using that by (simp add: jget_def)
  show ?thesis
    by (simp add: entry_name_def tool_function_def Let_def j [OF g(1)] j [OF g(2)])
qed

lemma tool_names_advertised:
  assumes "list_all plain_entry es"
  shows "set (tool_names rep (advertised_tools es)) = set (tool_names rep es)"
proof -
  have "set (concat (map (entry_name rep) (advertised_tools es))) = set (concat (map (entry_name rep) es))"
    using assms
  proof (induction es)
    case (Cons e es)
    then have "set (concat (map (entry_name rep) (advertised_tools [e]))) = set (entry_name rep e)"
      by (cases e) (simp_all add: advertised_tools_def entry_name_advertised, simp_all add: entry_name_def)
    with Cons show ?case by (simp add: advertised_tools_def)
  qed (simp add: advertised_tools_def)
  then show ?thesis by (simp add: tool_names_def)
qed

lemma receive_loop_inbox: "receive_loop uuid rep loads inbox px = Inr px1 \<Longrightarrow> set (px_inbox px1) \<subseteq> set inbox"
proof (induction inbox arbitrary: px)
  case Nil
  then show ?case by (auto simp: receive_loop.simps [of _ _ _ "[]"] split: list.splits)
next
  case (Cons f fs)
  then show ?case
    by (auto simp: receive_loop.simps [of _ _ _ "f # fs"] bind_res_eq_Inr split: list.splits option.split_asm)
qed

definition is_advertise :: "delivered \<Rightarrow> bool" where
  "is_advertise d = (case d of Payload p \<Rightarrow> type_of p = Some CLIENT_TOOL_ADVERTISE | _ \<Rightarrow> False)"

definition tools_tracked :: "(json \<Rightarrow> string) \<Rightarrow> proxy \<Rightarrow> bool" where
  "tools_tracked rep px \<longleftrightarrow> px_bound px \<and> registered_tools rep (px_log px) {} = set (px_advertised px) \<and>
     (\<forall>d \<in> set (px_pending px). \<not> is_advertise d)"

lemma registered_quiet:
  "\<not> is_advertise d \<Longrightarrow> registered_tools rep [Delivered d] R = R" "registered_tools rep [Sent e] R = R"
  "registered_tools rep [SentAudio b] R = R"
  by (cases d) (auto simp: is_advertise_def)

lemma tools_tracked_simps [simp]:
  "tools_tracked rep (px\<lparr>px_adapter := a\<rparr>) = tools_tracked rep px"
  "tools_tracked rep (px\<lparr>px_inbox := fs\<rparr>) = tools_tracked rep px"
  "tools_tracked rep (px\<lparr>px_binary_seen := b\<rparr>) = tools_tracked rep px"
  "tools_tracked rep (log_eff [Sent e] px) = tools_tracked rep px"
  "tools_tracked rep (log_eff [SentAudio bs] px) = tools_tracked rep px"
  "tools_tracked rep (log_eff (map Sent evs) px) = tools_tracked rep px"
  "tools_tracked rep (bind_tool_registry px) = tools_tracked rep (px\<lparr>px_bound := True\<rparr>)"
  "\<not> is_advertise d \<Longrightarrow> tools_tracked rep (log_eff [Delivered d] px) = tools_tracked rep px"
  by (auto simp: tools_tracked_def registered_tools_append registered_quiet registered_tools_sent bind_tool_registry_def)

lemma reply_error_tracked [simp]: "tools_tracked rep' (reply_error uuid rep code msg param px) = tools_tracked rep' px"
  by (simp add: reply_error_def split: prod.split)

text \<open>A session update withdraws and advertises; every other event does neither.\<close>

lemma on_session_update_tracked:
  assumes t: "tools_tracked rep px" and h: "on_session_update uuid rep payload px = Inr (p, px1)"
    and c: "\<And>es. tool_entries (session_part payload ''session'') = Inr es \<Longrightarrow> list_all plain_entry es"
  shows "\<exists>q. p = Some q \<and> tools_tracked rep (log_eff [Delivered (Payload q)] px1)"
  using h
proof (rule on_session_update_cases)
  fix session tools params ev a1
  let ?q = "[(''type'', JStr CLIENT_TOOL_ADVERTISE), (''tools'', JList (advertised_tools tools)),
       (''system_prompt'', jget session ''instructions'' JNull), (''llm_params'', JObj params),
       (''warm_prefix'', JBool (dget session ''tools'' \<noteq> None))]"
  assume session: "session = session_part payload ''session''" and te: "tool_entries session = Inr tools" and p: "p = Some ?q"
    and x: "px_advertised px1 = (if dget session ''tools'' \<noteq> None then tool_names rep tools else px_advertised px)"
      "px_log px1 = px_log px @ map Unregistered (withdrawn rep session tools px) @ [Sent ev]"
      "px_bound px1 = px_bound px" "px_pending px1 = px_pending px"
  have "list_all plain_entry tools" using c te session by simp
  then have n: "set (tool_names rep (advertised_tools tools)) = set (tool_names rep tools)" by (rule tool_names_advertised)
  have none: "tools = []" if "dget session ''tools'' = None"
    using that te by (simp add: tool_entries_def jget_def)
  have tn: "tool_names rep [] = []" by (simp add: tool_names_def)
  have "registered_tools rep (px_log (log_eff [Delivered (Payload ?q)] px1)) {} =
      (set (px_advertised px) - set (withdrawn rep session tools px)) \<union> set (tool_names rep tools)"
    using t by (simp add: x tools_tracked_def registered_tools_append registered_tools_unregister type_of_def n)
  also have "\<dots> = set (px_advertised px1)"
    using t none by (auto simp: x withdrawn_def tools_tracked_def tn)
  finally show ?thesis
    using t p by (simp add: tools_tracked_def x)
qed

lemma not_advertise [simp]:
  "is_advertise (Payload ((''type'', JStr t) # d)) = (t = CLIENT_TOOL_ADVERTISE)" "\<not> is_advertise (Unchanged f)"
  by (simp_all add: is_advertise_def type_of_def)

lemma legacy_not_advertise [simp]:
  "CLIENT_TEXT \<noteq> CLIENT_TOOL_ADVERTISE" "CLIENT_ASR_EOS \<noteq> CLIENT_TOOL_ADVERTISE" "CLIENT_TTS_FLUSH \<noteq> CLIENT_TOOL_ADVERTISE"
  "CLIENT_ABORT \<noteq> CLIENT_TOOL_ADVERTISE" "CLIENT_TOOL_RESULT \<noteq> CLIENT_TOOL_ADVERTISE"
  by code_simp+

lemma other_events_tracked:
  assumes t: "tools_tracked rep px" and h: "on_payload uuid rep loads payload px = Inr (p, px1)"
    and ty: "type_of payload \<noteq> Some CLIENT_SESSION_UPDATE" "type_of payload \<noteq> Some CLIENT_TOOL_ADVERTISE"
  shows "tools_tracked rep px1 \<and> (\<forall>q. p = Some q \<longrightarrow> \<not> is_advertise (Payload q))"
proof -
  have item: "on_item_create uuid rep loads payload px = Inr (p, px1) \<Longrightarrow> ?thesis"
    using t by (auto simp: on_item_create_def tool_result_of_def Let_def split: if_splits)
  have trunc: "on_truncate uuid rep payload px = Inr (p, px1) \<Longrightarrow> ?thesis"
    using t by (auto simp: on_truncate_def split: sum.splits prod.splits)
  have speak: "on_direct_speak rep payload px = Inr (p, px1) \<Longrightarrow> ?thesis"
    using t by (auto simp: on_direct_speak_def Let_def tools_tracked_def)
  have reset: "on_reset uuid px = Inr (p, px1) \<Longrightarrow> ?thesis"
    using t by (auto simp: on_reset_def split: prod.splits)
  have other: "\<not> is_advertise (Payload payload)" using ty(2) by (simp add: is_advertise_def)
  from h ty(1) t item trunc speak reset other show ?thesis
    unfolding on_payload_def Let_def by (auto split: if_split_asm)
qed

definition plain_frame :: "(string \<Rightarrow> json option) \<Rightarrow> frame \<Rightarrow> bool" where
  "plain_frame loads f = (case f of Text s \<Rightarrow> (case loads s of Some v \<Rightarrow> plain_client v | None \<Rightarrow> True) | Binary b \<Rightarrow> True)"

lemma on_frame_tracked:
  assumes t: "tools_tracked rep px" and h: "on_frame uuid rep loads f px = Inr (d, px1)" and p: "plain_frame loads f"
  shows "tools_tracked rep (case d of Some m \<Rightarrow> log_eff [Delivered m] px1 | None \<Rightarrow> px1)"
proof (cases "\<exists>s q. f = Text s \<and> s \<noteq> [] \<and> loads s = Some (JObj q)")
  case True
  then obtain s q where f: "f = Text s" "s \<noteq> []" "loads s = Some (JObj q)" by blast
  with h obtain r where r: "on_payload uuid rep loads q px = Inr (r, px1)" "d = map_option Payload r"
    by (auto simp: on_frame_def bind_res_eq_Inr)
  have q: "type_of q \<noteq> Some CLIENT_TOOL_ADVERTISE"
    "\<And>es. tool_entries (session_part q ''session'') = Inr es \<Longrightarrow> list_all plain_entry es"
    using p f by (auto simp: plain_frame_def plain_client_def)
  show ?thesis
  proof (cases "type_of q = Some CLIENT_SESSION_UPDATE")
    case True
    then have "on_payload uuid rep loads q px = on_session_update uuid rep q px"
      by (simp add: on_payload_def client_types)
    with on_session_update_tracked [OF t _ q(2)] r show ?thesis by fastforce
  next
    case False
    from other_events_tracked [OF t r(1) False q(1)] show ?thesis
      by (cases r) (simp_all add: r(2))
  qed
next
  case False
  then have "d = Some (Unchanged f) \<and> px1 = px"
    using h by (auto simp: on_frame_def split: frame.splits if_splits option.splits json.splits)
  with t show ?thesis by simp
qed

lemma receive_tracked:
  assumes "tools_tracked rep px" and "receive uuid rep loads px = Inr px1" and "\<forall>f \<in> set (px_inbox px). plain_frame loads f"
  shows "tools_tracked rep px1"
  using assms(1,2) unfolding receive_def
proof (rule receive_loop_keeps)
  fix px d ds
  assume "tools_tracked rep px" and "px_pending px = d # ds"
  then have "tools_tracked rep (px\<lparr>px_pending := ds\<rparr>)" "\<not> is_advertise d" by (simp_all add: tools_tracked_def)
  then show "tools_tracked rep (log_eff [Delivered d] (px\<lparr>px_pending := ds\<rparr>))" by simp
next
  fix px' px1 f
  assume "f \<in> set (px_inbox px)" and a: "tools_tracked rep px'" "on_frame uuid rep loads f px' = Inr (None, px1)"
  with assms(3) on_frame_tracked [OF a] show "tools_tracked rep px1" by simp
next
  fix px' px1 f m
  assume "f \<in> set (px_inbox px)" and a: "tools_tracked rep px'" "on_frame uuid rep loads f px' = Inr (Some m, px1)"
  with assms(3) on_frame_tracked [OF a] show "tools_tracked rep (log_eff [Delivered m] px1)" by simp
qed simp

definition plain_event :: "(string \<Rightarrow> json option) \<Rightarrow> proxy_event \<Rightarrow> bool" where
  "plain_event loads e = (case e of Arrives f \<Rightarrow> plain_frame loads f | _ \<Rightarrow> True)"

text \<open>Once the engine has bound its registry, the registry holds exactly the tools of the latest session
  update that named any: a tool the client no longer offers is removed, whatever came in between.\<close>

theorem registry_follows_client:
  assumes "proxy_run uuid rep dumps loads es (bind_tool_registry (new_proxy a)) = Inr px"
    and "\<forall>e \<in> set es. plain_event loads e"
  shows "registered_tools rep (px_log px) {} = set (px_advertised px)"
proof -
  let ?P = "\<lambda>px. tools_tracked rep px \<and> (\<forall>f \<in> set (px_inbox px). plain_frame loads f)"
  have step: "?P px2" if "?P px1" "plain_event loads e" "proxy_step uuid rep dumps loads e px1 = Inr px2" for e px1 px2
  proof (cases e)
    case Receive
    with that(3) have r: "receive uuid rep loads px1 = Inr px2" by simp
    have "set (px_inbox px2) \<subseteq> set (px_inbox px1)" using r receive_loop_inbox unfolding receive_def by blast
    with receive_tracked [OF _ r] that(1) show ?thesis by blast
  qed (use that in \<open>auto simp: plain_event_def bind_tool_registry_def send_json_def send_bytes_def tools_tracked_def
      registered_tools_append registered_tools_sent split: prod.splits if_splits\<close>)
  have "?P (bind_tool_registry (new_proxy a))" by (simp add: tools_tracked_def bind_tool_registry_def new_proxy_def)
  with assms have "?P px"
    unfolding proxy_run_def by (elim fold_res_inv) (use step in \<open>blast+\<close>)
  then show ?thesis by (simp add: tools_tracked_def)
qed

definition demo_bound_end :: "(py_error, proxy) res" where
  "demo_bound_end = proxy_run nat_str (\<lambda>_. []) (\<lambda>_. []) demo_loads demo_proxy_events
     (bind_tool_registry (new_proxy (new_adapter nat_str ''local'' ''m'' 16000 16000 None)))"

theorem registry_follows_client_witness:
  "\<exists>px. demo_bound_end = Inr px \<and> Unregistered ''lamp'' \<in> set (px_log px) \<and>
     registered_tools (\<lambda>_. []) (px_log px) {} = set (px_advertised px)"
proof -
  have "is_ok demo_bound_end" by code_simp
  then obtain px where px: "demo_bound_end = Inr px" by (elim is_okE)
  have "(case demo_bound_end of Inr px \<Rightarrow> Unregistered ''lamp'' \<in> set (px_log px) | Inl _ \<Rightarrow> False)" by code_simp
  then have "Unregistered ''lamp'' \<in> set (px_log px)" by (simp add: px)
  moreover have "\<forall>e \<in> set demo_proxy_events. plain_event demo_loads e" by code_simp
  ultimately show ?thesis
    using registry_follows_client [of nat_str "\<lambda>_. []" "\<lambda>_. []" demo_loads demo_proxy_events] px
    by (auto simp: demo_bound_end_def)
qed

subsection \<open>Audio\<close>

definition audio_log :: "effect list \<Rightarrow> nat list list" where
  "audio_log es = concat (map (\<lambda>e. case e of SentAudio b \<Rightarrow> [b] | _ \<Rightarrow> []) es)"

fun audio_of :: "proxy_event list \<Rightarrow> nat list list" where
  "audio_of [] = []"
| "audio_of (SendBytes b # es) = b # audio_of es"
| "audio_of (_ # es) = audio_of es"

lemma audio_log_simps [simp]:
  "audio_log [] = []" "audio_log (xs @ ys) = audio_log xs @ audio_log ys" "audio_log [Sent j] = []"
  "audio_log [Delivered d] = []" "audio_log (map Sent js) = []" "audio_log (map Unregistered ns) = []"
  "audio_log [SentAudio b] = [b]"
  by (simp_all add: audio_log_def)

text \<open>Reading a frame does not touch the audio.\<close>

definition same_audio :: "proxy \<Rightarrow> proxy \<Rightarrow> bool" where
  "same_audio px px1 \<longleftrightarrow> audio_log (px_log px1) = audio_log (px_log px) \<and> px_binary_seen px1 = px_binary_seen px"

lemma log_eff_seen [simp]: "px_binary_seen (log_eff es px) = px_binary_seen px"
  by (simp add: log_eff_def)

lemma reply_error_audio: "same_audio px (reply_error uuid rep code msg param px)"
  by (simp add: reply_error_def same_audio_def split: prod.split)

lemma on_frame_audio:
  assumes "on_frame uuid rep loads f px = Inr (d, px1)"
  shows "same_audio px px1"
proof -
  have upd: "same_audio px px1" if "on_session_update uuid rep payload px = Inr (p, px1)" for payload p
  proof -
    have "px_binary_seen px1 = px_binary_seen px"
      using that by (auto simp: on_session_update_def Let_def bind_res_eq_Inr split: prod.splits if_splits)
    moreover have "audio_log (px_log px1) = audio_log (px_log px)"
      using that by (rule on_session_update_cases) simp
    ultimately show ?thesis by (simp add: same_audio_def)
  qed
  have "same_audio px px1" if "on_payload uuid rep loads payload px = Inr (p, px1)" for payload p
    using that reply_error_audio upd
    by (auto simp: on_payload_def Let_def on_item_create_def on_direct_speak_def on_truncate_def on_reset_def
        split: if_splits sum.splits prod.splits) (auto simp: same_audio_def)
  with assms show ?thesis
    by (auto simp: on_frame_def bind_res_eq_Inr same_audio_def split: frame.splits if_splits option.splits json.splits)
qed

lemma receive_audio:
  assumes "receive uuid rep loads px = Inr px1"
  shows "same_audio px px1"
proof -
  have "same_audio px px" by (simp add: same_audio_def)
  then show ?thesis
    using assms unfolding receive_def
  proof (rule receive_loop_keeps)
    fix px' px1 f
    assume "same_audio px px'" and "on_frame uuid rep loads f px' = Inr (None, px1)"
    with on_frame_audio [OF this(2)] show "same_audio px px1" by (simp add: same_audio_def)
  next
    fix px' px1 f m
    assume "same_audio px px'" and "on_frame uuid rep loads f px' = Inr (Some m, px1)"
    with on_frame_audio [OF this(2)] show "same_audio px (log_eff [Delivered m] px1)" by (simp add: same_audio_def)
  qed (simp_all add: same_audio_def)
qed

definition heard :: "bool \<Rightarrow> nat list list \<Rightarrow> nat list list" where
  "heard seen bs = (case bs of [] \<Rightarrow> [] | b # r \<Rightarrow> if \<not> seen \<and> length b = 4 then r else b # r)"

text \<open>The client gets every audio frame of the engine in order, but the first if it has four bytes.\<close>

lemma proxied_audio:
  "proxy_run uuid rep dumps loads es px = Inr px1 \<Longrightarrow>
   audio_log (px_log px1) = audio_log (px_log px) @
     heard (px_binary_seen px) (audio_of es)"
proof (induction es arbitrary: px)
  case Nil
  then show ?case by (simp add: proxy_run_def heard_def)
next
  case (Cons e es)
  then obtain px2 where e: "proxy_step uuid rep dumps loads e px = Inr px2"
    and r: "proxy_run uuid rep dumps loads es px2 = Inr px1"
    by (auto simp: proxy_run_def bind_res_eq_Inr)
  show ?case
  proof (cases e)
    case (SendBytes b)
    with e Cons.IH [OF r] show ?thesis
      by (auto simp: send_bytes_def heard_def split: list.splits if_splits)
  next
    case Receive
    with e have "same_audio px px2" by (auto intro: receive_audio)
    with Cons.IH [OF r] show ?thesis by (auto simp: same_audio_def Receive)
  qed (use e Cons.IH [OF r] in \<open>auto simp: bind_tool_registry_def send_json_def split: prod.splits\<close>)
qed

text \<open>A text frame that is JSON but no object ends the session with an exception.\<close>

lemma non_object_text_raises:
  assumes "s \<noteq> []" and "loads s = Some v" and "\<not> is_dict v"
  shows "on_frame uuid rep loads (Text s) px = Inl AttributeErr"
  using assms by (cases v) (simp_all add: on_frame_def)

end
