(* ===== verification/Base64.thy ===== *)
theory Base64
  imports Prelude
begin

section \<open>Base64\<close>

text \<open>
  The standard alphabet with padding, as \<open>base64.encode_b64\<close> writes it, and a decoder that accepts
  exactly such texts. The code calls \<open>base64.b64decode\<close> with \<open>validate=True\<close>, whose treatment of
  superfluous padding differs between Python versions: the definitions that decode take the decoder as
  a parameter, and the properties assume of it that it undoes the encoder. \<open>b64_strict\<close> is a decoder for
  which this holds.
\<close>

definition sextet_char :: "nat \<Rightarrow> char" where
  "sextet_char n = char_of (if n < 26 then n + 65 else if n < 52 then n + 71 else if n < 62 then n - 4
     else if n = 62 then 43 else (47 :: nat))"

definition b64_val :: "char \<Rightarrow> nat option" where
  "b64_val ch =
     (let n = of_char ch
      in if 65 \<le> n \<and> n \<le> 90 then Some (n - 65)
         else if 97 \<le> n \<and> n \<le> 122 then Some (n - 71)
         else if 48 \<le> n \<and> n \<le> 57 then Some (n + 4)
         else if n = 43 then Some 62 else if n = 47 then Some 63 else None)"

definition b64_pad :: char where "b64_pad = CHR 0x3D"

fun encode_b64 :: "nat list \<Rightarrow> string" where
  "encode_b64 [] = []"
| "encode_b64 [a] = [sextet_char (a div 4), sextet_char (a mod 4 * 16), b64_pad, b64_pad]"
| "encode_b64 [a, b] = [sextet_char (a div 4), sextet_char (a mod 4 * 16 + b div 16), sextet_char (b mod 16 * 4), b64_pad]"
| "encode_b64 (a # b # c # rest) =
     sextet_char (a div 4) # sextet_char (a mod 4 * 16 + b div 16) # sextet_char (b mod 16 * 4 + c div 64) # sextet_char (c mod 64) #
     encode_b64 rest"

fun b64_strict :: "string \<Rightarrow> nat list option" where
  "b64_strict [] = Some []"
| "b64_strict (p # q # r # s # rest) =
     (case (b64_val p, b64_val q) of
        (Some w, Some x) \<Rightarrow>
          if rest = [] \<and> s = b64_pad then
            (if r = b64_pad then Some [w * 4 + x div 16]
             else case b64_val r of Some y \<Rightarrow> Some [w * 4 + x div 16, x mod 16 * 16 + y div 4] | None \<Rightarrow> None)
          else (case (b64_val r, b64_val s, b64_strict rest) of
                  (Some y, Some z, Some bs) \<Rightarrow> Some ((w * 4 + x div 16) # (x mod 16 * 16 + y div 4) # (y mod 4 * 64 + z) # bs)
                | _ \<Rightarrow> None)
      | _ \<Rightarrow> None)"
| "b64_strict _ = None"

lemma sextet_val_char [simp]: "n < 64 \<Longrightarrow> b64_val (sextet_char n) = Some n"
proof -
  assume n: "n < 64"
  consider "n < 26" | "26 \<le> n" "n < 52" | "52 \<le> n" "n < 62" | "n = 62" | "n = 63" using n by linarith
  then show ?thesis by cases (simp_all add: b64_val_def sextet_char_def Let_def, arith)
qed

lemma b64_pad_val [simp]: "b64_val b64_pad = None"
  by (simp add: b64_val_def b64_pad_def)

lemma sextet_char_pad [simp]: "n < 64 \<Longrightarrow> sextet_char n \<noteq> b64_pad"
  using sextet_val_char b64_pad_val by (metis option.distinct(1))

text \<open>Bytes survive the way through the text, which has four characters for three bytes.\<close>

lemma sextet_bounds:
  assumes "a < 256" and "b < (256 :: nat)"
  shows "a div 4 < 64" "a mod 4 * 16 < 64" "a mod 4 * 16 + b div 16 < 64" "b mod 16 * 4 < 64"
    "b mod 16 * 4 + a div 64 < 64" "a mod 64 < 64"
proof -
  have "a div 4 \<le> 63" "a mod 4 \<le> 3" "b div 16 \<le> 15" "b mod 16 \<le> 15" "a div 64 \<le> 3" using assms by simp_all
  then show "a div 4 < 64" "a mod 4 * 16 < 64" "a mod 4 * 16 + b div 16 < 64" "b mod 16 * 4 < 64"
    "b mod 16 * 4 + a div 64 < 64" "a mod 64 < 64" by simp_all
qed

lemma byte_parts:
  assumes "b < 256" and "c < (256 :: nat)"
  shows "a div 4 * 4 + (a mod 4 * 16 + b div 16) div 16 = a" "a div 4 * 4 + a mod 4 * 16 div 16 = a"
    "(a mod 4 * 16 + b div 16) mod 16 * 16 + (b mod 16 * 4 + c div 64) div 4 = b"
    "(a mod 4 * 16 + b div 16) mod 16 * 16 + b mod 16 * 4 div 4 = b"
    "(b mod 16 * 4 + c div 64) mod 4 * 64 + c mod 64 = c + 0 * a"
proof -
  have "b div 16 < 16" "c div 64 < 4" using assms by simp_all
  then have "(a mod 4 * 16 + b div 16) div 16 = a mod 4" "(a mod 4 * 16 + b div 16) mod 16 = b div 16"
    "(b mod 16 * 4 + c div 64) div 4 = b mod 16" "(b mod 16 * 4 + c div 64) mod 4 = c div 64" by simp_all
  then show "a div 4 * 4 + (a mod 4 * 16 + b div 16) div 16 = a" "a div 4 * 4 + a mod 4 * 16 div 16 = a"
    "(a mod 4 * 16 + b div 16) mod 16 * 16 + (b mod 16 * 4 + c div 64) div 4 = b"
    "(a mod 4 * 16 + b div 16) mod 16 * 16 + b mod 16 * 4 div 4 = b"
    "(b mod 16 * 4 + c div 64) mod 4 * 64 + c mod 64 = c + 0 * a" by simp_all
qed

lemma encode_b64_Nil_iff [simp]: "encode_b64 bs = [] \<longleftrightarrow> bs = []"
  by (cases bs rule: encode_b64.cases) simp_all

lemma b64_strict_encode: "\<forall>b \<in> set bs. b < 256 \<Longrightarrow> b64_strict (encode_b64 bs) = Some bs"
proof (induction bs rule: encode_b64.induct)
  case (2 a)
  then have a: "a < 256" by simp
  show ?case using sextet_bounds [OF a a] byte_parts [of 0 0 a] by simp
next
  case (3 a b)
  then have ab: "a < 256" "b < 256" by simp_all
  show ?case using sextet_bounds [OF ab] byte_parts [OF ab(2) ab(1), of a] by simp
next
  case (4 a b c rest)
  then have abc: "a < 256" "b < 256" "c < 256" "b64_strict (encode_b64 rest) = Some rest" by simp_all
  show ?case
    using sextet_bounds [OF abc(1,2)] sextet_bounds [OF abc(3,2)] byte_parts [OF abc(2,3), of a] abc(4) by simp
qed simp

lemma length_encode_b64: "length (encode_b64 bs) = 4 * ((length bs + 2) div 3)"
proof (induction bs rule: encode_b64.induct)
  case (4 a b c rest)
  have "(5 + length rest) div 3 = Suc ((length rest + 2) div 3)" by presburger
  with 4 show ?case by simp
qed simp_all

end
