(* ===== verification/VoiceRegistry.thy ===== *)
theory VoiceRegistry
  imports Json Base64 "HOL-Library.AList" "HOL-Library.Char_ord" "HOL-Library.List_Lexorder"
begin

section \<open>Registered voices\<close>

text \<open>
  \<^verbatim>\<open>server/core/tts_speakers.py\<close>: each model has a table of speakers, built from the presets, the file of
  registered embeddings and the overrides of the environment, later layers winning, and cached until a
  registration drops it. The state is the file and the cache; the file holds the JSON value, or is
  missing, or cannot be read. A table is its list of items in insertion order. What an operation does
  is a value or an exception, and the state it leaves. \<open>rep\<close> is \<open>str\<close> of floats and containers,
  \<open>b64decode\<close> the strict decoder, \<open>now\<close> the time stamp. Other processes, and file writes that fail, are
  not modelled; the lock makes each operation atomic.
\<close>

datatype stype = Preset | Embedding | Intrinsic

record speaker =
  sp_id :: int
  sp_type :: stype
  sp_label :: string
  sp_payload :: string
  sp_meta :: json

type_synonym table = "(int \<times> speaker) list"

definition preset :: "int \<Rightarrow> string \<Rightarrow> string \<Rightarrow> int \<times> speaker" where
  "preset sid label payload =
     (sid, \<lparr>sp_id = sid, sp_type = Preset, sp_label = label, sp_payload = payload, sp_meta = JNull\<rparr>)"

definition intrinsic :: "string \<Rightarrow> int \<times> speaker" where
  "intrinsic label = (0, \<lparr>sp_id = 0, sp_type = Intrinsic, sp_label = label, sp_payload = [], sp_meta = JNull\<rparr>)"

subsection \<open>Tables of the program\<close>

definition canonical_model_id :: "string \<Rightarrow> string" where
  "canonical_model_id model =
     (let mid = str_strip model
      in if mid = ''qwen3-tts-base'' \<or> mid = ''qwen3-tts-0.6b'' then ''qwen3-tts-0.6b-base'' else mid)"

lemma canonical_idem [simp]: "canonical_model_id (canonical_model_id m) = canonical_model_id m"
proof -
  have "str_strip ''qwen3-tts-0.6b-base'' = ''qwen3-tts-0.6b-base''" by code_simp
  then show ?thesis by (simp add: canonical_model_id_def Let_def)
qed

definition qwen3_presets :: table where
  "qwen3_presets = [preset 0 ''Default'' [], preset 2301 ''Female 1'' ''2301'', preset 2302 ''Female 2'' ''2302'']"

definition customvoice_presets :: table where
  "customvoice_presets = map (\<lambda>(sid, label). preset sid label (int_str sid))
     [(3065, ''vivian''), (3061, ''ryan''), (2861, ''aiden''), (3066, ''serena''), (2878, ''dylan''), (2875, ''eric''),
      (3010, ''uncle_fu''), (2873, ''ono_anna''), (2864, ''sohee'')]"

definition kokoro_labels :: "string list" where
  "kokoro_labels =
     [''af_heart'', ''af_bella'', ''af_nicole'', ''af_aoede'', ''af_kore'', ''af_sarah'', ''af_nova'',
      ''af_sky'', ''af_alloy'', ''af_jessica'', ''af_river'', ''af_miley'', ''af_seraph'', ''af_eve'',
      ''am_adam'', ''am_echo'', ''am_eric'', ''am_fenrir'', ''am_liam'', ''am_michael'', ''am_onyx'',
      ''am_puck'', ''am_santa'', ''bf_alice'', ''bf_emma'', ''bf_isabella'', ''bf_lily'', ''bm_daniel'',
      ''bm_fable'', ''bm_george'', ''bm_lewis'', ''ef_dora'', ''em_alex'', ''ff_siwis'', ''hf_alpha'',
      ''hf_beta'', ''hm_omega'', ''hm_psi'', ''if_irina'', ''im_nikolai'', ''jf_alpha'', ''jf_nezumi'',
      ''jf_gorudo'', ''jm_fLEMING'', ''pf_dora'', ''pm_alex'', ''pm_santa'', ''zf_xiaobei'', ''zf_xiaoni'',
      ''zf_xiaoxiao'', ''zf_xiaoyi'', ''zm_yunyang'', ''zm_yunxi'']"

definition kokoro_presets :: table where
  "kokoro_presets = map (\<lambda>i. preset (int i) (kokoro_labels ! i) (nat_str i)) [0..<length kokoro_labels]"

definition sparktts_presets :: table where
  "sparktts_presets =
     [preset 0 (''Female '' @ [CHR 0xB7] @ '' moderate pitch '' @ [CHR 0xB7] @ '' moderate speed'') ''female_moderate_moderate'']"

text \<open>\<open>_PRESETS.get(model_id, {})\<close>.\<close>

definition presets_of :: "string \<Rightarrow> table" where
  "presets_of model =
     (if model = ''qwen3-tts'' then qwen3_presets
      else if model = ''qwen3-tts-0.6b-base'' then [intrinsic ''Default reference voice'']
      else if model = ''kokoro-convonly-v1_0-rk3576'' \<or> model = ''kokoro-convonly-v1_0-rk3588''
        then [intrinsic ''Bundle language default'']
      else if model = ''qwen3-tts-customvoice'' then customvoice_presets
      else if model = ''kokoro-multi-lang-v1_0'' then kokoro_presets
      else if model = ''matcha-icefall-zh-en'' \<or> model = ''matcha-icefall-zh-en.rknn'' \<or> model = ''sherpa''
        then [preset 0 ''Default'' ''0'']
      else if model = ''sparktts-0p5b'' then sparktts_presets else [])"

definition SELECTOR_ALIASES :: "(string \<times> (string \<times> int) list) list" where
  "SELECTOR_ALIASES =
     [(''qwen3-tts-customvoice'', [(''0'', 3065), (''default'', 3065)]),
      (''qwen3-tts-0.6b-base'', [(''default'', 0), (''reference'', 0), (''default reference voice'', 0)]),
      (''sparktts-0p5b'', [(''default'', 0), (''female_moderate_moderate'', 0)])]"

definition aliases_of :: "string \<Rightarrow> (string \<times> int) list" where
  "aliases_of model = (case map_of SELECTOR_ALIASES (canonical_model_id model) of Some al \<Rightarrow> al | None \<Rightarrow> [])"

definition selector_alias_id :: "int \<Rightarrow> string \<Rightarrow> int" where
  "selector_alias_id sid model = (case map_of (aliases_of model) (int_str sid) of Some a \<Rightarrow> a | None \<Rightarrow> sid)"

subsection \<open>Reading entries\<close>

definition por :: "json \<Rightarrow> json \<Rightarrow> json" where
  "por a b = (if jtruthy a then a else b)"

definition parse_speaker_entry :: "(json \<Rightarrow> string) \<Rightarrow> int \<Rightarrow> json \<Rightarrow> (py_error, speaker) res" where
  "parse_speaker_entry rep sid value =
     (case value of
        JObj d \<Rightarrow>
          let typ = str_lower (str_strip (jstr rep (jget d ''type'' (JStr ''preset''))));
              label = jstr rep (jget d ''label'' (jget d ''name'' (JStr '''')));
              emb = jstr rep (por (jget d ''speaker_embedding_b64'' JNull) (por (jget d ''payload'' JNull)
                      (por (jget d ''embedding_b64'' JNull) (JStr ''''))));
              native = jstr rep (jget d ''speaker'' (jget d ''name'' (JStr '''')))
          in if typ = ''embedding'' then
               (if emb = [] then Inl ValueErr
                else Inr \<lparr>sp_id = sid, sp_type = Embedding, sp_label = label, sp_payload = emb, sp_meta = jget d ''meta'' JNull\<rparr>)
             else if typ = ''intrinsic'' then
               Inr \<lparr>sp_id = sid, sp_type = Intrinsic, sp_label = label, sp_payload = [], sp_meta = JNull\<rparr>
             else if typ \<noteq> ''preset'' then Inl ValueErr
             else Inr \<lparr>sp_id = sid, sp_type = Preset, sp_label = label, sp_payload = native, sp_meta = JNull\<rparr>
      | v \<Rightarrow> Inr \<lparr>sp_id = sid, sp_type = Preset, sp_label = jstr rep v, sp_payload = jstr rep v, sp_meta = JNull\<rparr>)"

definition int_of_str :: "string \<Rightarrow> (py_error, int) res" where
  "int_of_str s = (case py_int s of Some n \<Rightarrow> Inr n | None \<Rightarrow> Inl ValueErr)"

text \<open>\<open>_env_overrides\<close>: \<open>raw\<close> is the variable, \<open>loads\<close> gives \<open>None\<close> for invalid JSON.\<close>

definition env_overrides ::
  "(json \<Rightarrow> string) \<Rightarrow> (string \<Rightarrow> json option) \<Rightarrow> string option \<Rightarrow> (py_error, table) res" where
  "env_overrides rep loads raw =
     (if raw = None \<or> raw = Some [] then Inr []
      else bind_res
        (case loads (the raw) of
           Some (JObj d) \<Rightarrow> fold_res (\<lambda>(k, v) es. bind_res (int_of_str k) (\<lambda>n. Inr (AList.update n v es))) d []
         | Some (JList xs) \<Rightarrow>
             fold_res (\<lambda>x es. case x of
                 JObj i \<Rightarrow> (case dget i ''id'' of Some v \<Rightarrow> bind_res (jint v) (\<lambda>n. Inr (AList.update n x es)) | None \<Rightarrow> Inr es)
               | _ \<Rightarrow> Inr es) xs []
         | _ \<Rightarrow> Inr [])
        (\<lambda>entries. fold_res (\<lambda>(sid, v) t. bind_res (parse_speaker_entry rep sid v) (\<lambda>s. Inr (AList.update sid s t))) entries []))"

subsection \<open>The file and the cache\<close>

datatype vfile = NoFile | BadFile | FileJson json

record voices =
  vr_file :: vfile
  vr_cache :: "string \<rightharpoonup> table"

text \<open>One entry of the file put into a table; the entries of a model.\<close>

definition put_entry :: "(json \<Rightarrow> string) \<Rightarrow> string \<times> json \<Rightarrow> table \<Rightarrow> (py_error, table) res" where
  "put_entry rep kv t =
     bind_res (int_of_str (fst kv)) (\<lambda>sid. bind_res (parse_speaker_entry rep sid (snd kv)) (\<lambda>s. Inr (AList.update sid s t)))"

definition file_root :: "vfile \<Rightarrow> jdict" where
  "file_root f = (case f of FileJson (JObj d) \<Rightarrow> d | _ \<Rightarrow> [])"

definition load_file_speakers :: "(json \<Rightarrow> string) \<Rightarrow> vfile \<Rightarrow> string \<Rightarrow> table \<Rightarrow> (py_error, table) res" where
  "load_file_speakers rep f model mapping =
     (case jget (file_root f) model (JObj []) of
        JObj entries \<Rightarrow> fold_res (put_entry rep) entries mapping
      | _ \<Rightarrow> Inl AttributeErr)"

definition fresh_map :: "(json \<Rightarrow> string) \<Rightarrow> table \<Rightarrow> vfile \<Rightarrow> string \<Rightarrow> (py_error, table) res" where
  "fresh_map rep envo f model =
     bind_res (load_file_speakers rep f model (presets_of model))
       (\<lambda>t. Inr (foldl (\<lambda>t (sid, s). AList.update sid s t) t envo))"

text \<open>Operations on the state that may raise.\<close>

type_synonym 'a vm = "voices \<Rightarrow> (py_error, 'a) res \<times> voices"

definition ret_vm :: "'a \<Rightarrow> 'a vm" where
  "ret_vm a = (\<lambda>st. (Inr a, st))"

definition lift_vm :: "(py_error, 'a) res \<Rightarrow> 'a vm" where
  "lift_vm r = (\<lambda>st. (r, st))"

definition bind_vm :: "'a vm \<Rightarrow> ('a \<Rightarrow> 'b vm) \<Rightarrow> 'b vm" where
  "bind_vm m f = (\<lambda>st. case m st of (Inl e, st1) \<Rightarrow> (Inl e, st1) | (Inr a, st1) \<Rightarrow> f a st1)"

definition load_speaker_map :: "(json \<Rightarrow> string) \<Rightarrow> table \<Rightarrow> string \<Rightarrow> table vm" where
  "load_speaker_map rep envo model = (\<lambda>st.
     let mid = canonical_model_id model
     in case vr_cache st mid of
          Some t \<Rightarrow> (Inr t, st)
        | None \<Rightarrow> (case fresh_map rep envo (vr_file st) mid of
            Inl e \<Rightarrow> (Inl e, st)
          | Inr t \<Rightarrow> (Inr t, st\<lparr>vr_cache := (vr_cache st)(mid \<mapsto> t)\<rparr>)))"

definition reload_speakers :: "voices \<Rightarrow> voices" where
  "reload_speakers st = st\<lparr>vr_cache := Map.empty\<rparr>"

subsection \<open>Queries\<close>

definition allow_unmapped :: "(string \<rightharpoonup> string) \<Rightarrow> bool" where
  "allow_unmapped e =
     (str_lower (case e ''OVS_TTS_ALLOW_UNMAPPED_SPEAKER_ID'' of Some v \<Rightarrow> v | None \<Rightarrow> ''1'') \<notin>
        {''0'', ''false'', ''no'', ''off''})"

definition speaker_spec_for_id ::
  "(json \<Rightarrow> string) \<Rightarrow> table \<Rightarrow> (string \<rightharpoonup> string) \<Rightarrow> int option \<Rightarrow> string \<Rightarrow> speaker option vm" where
  "speaker_spec_for_id rep envo e speaker_id model =
     (case speaker_id of
        None \<Rightarrow> ret_vm None
      | Some n \<Rightarrow>
          let mid = canonical_model_id model; sid = selector_alias_id n mid
          in bind_vm (load_speaker_map rep envo mid) (\<lambda>t.
               case map_of t sid of
                 Some s \<Rightarrow> ret_vm (Some s)
               | None \<Rightarrow> if allow_unmapped e then ret_vm (Some (snd (preset sid (int_str sid) (int_str sid))))
                         else lift_vm (Inl ValueErr)))"

datatype voice_kwargs = NoVoice | ById int string | ByEmbedding int "nat list"

text \<open>\<open>b64decode_lax\<close> is the decoder without validation, \<open>None\<close> where it raises.\<close>

definition kwargs_of_spec :: "(string \<Rightarrow> nat list option) \<Rightarrow> speaker option \<Rightarrow> (py_error, voice_kwargs) res" where
  "kwargs_of_spec b64decode_lax spec =
     (case spec of
        None \<Rightarrow> Inr NoVoice
      | Some s \<Rightarrow>
          (case sp_type s of
             Intrinsic \<Rightarrow> Inr NoVoice
           | Embedding \<Rightarrow>
               (if sp_payload s = [] then Inl ValueErr
                else case b64decode_lax (sp_payload s) of Some b \<Rightarrow> Inr (ByEmbedding (sp_id s) b) | None \<Rightarrow> Inl ValueErr)
           | Preset \<Rightarrow> Inr (ById (sp_id s) (sp_payload s))))"

definition speaker_kwargs_for_id ::
  "(json \<Rightarrow> string) \<Rightarrow> table \<Rightarrow> (string \<rightharpoonup> string) \<Rightarrow> (string \<Rightarrow> nat list option) \<Rightarrow> int option \<Rightarrow> string \<Rightarrow> voice_kwargs vm" where
  "speaker_kwargs_for_id rep envo e b64decode_lax speaker_id model =
     bind_vm (speaker_spec_for_id rep envo e speaker_id model) (\<lambda>spec. lift_vm (kwargs_of_spec b64decode_lax spec))"

definition strict_speaker_spec_for_id ::
  "(json \<Rightarrow> string) \<Rightarrow> table \<Rightarrow> int option \<Rightarrow> string \<Rightarrow> speaker option vm" where
  "strict_speaker_spec_for_id rep envo speaker_id model =
     (case speaker_id of
        None \<Rightarrow> ret_vm None
      | Some n \<Rightarrow>
          let mid = canonical_model_id model; sid = selector_alias_id n mid
          in bind_vm (load_speaker_map rep envo mid) (\<lambda>t. ret_vm (map_of t sid)))"

definition model_default :: "string \<Rightarrow> int option" where
  "model_default mid = (if mid = ''qwen3-tts-customvoice'' then Some 3065 else if mid = ''moss-tts-nano-v1'' then None else Some 0)"

definition default_speaker_id ::
  "(json \<Rightarrow> string) \<Rightarrow> table \<Rightarrow> (string \<rightharpoonup> string) \<Rightarrow> string \<Rightarrow> int option vm" where
  "default_speaker_id rep envo e model = (\<lambda>st.
     let mid = canonical_model_id model;
         first = e ''OVS_TTS_DEFAULT_SPEAKER_ID'';
         raw = (if first = None \<or> first = Some [] then e ''TTS_DEFAULT_SID'' else first)
     in case Option.bind raw py_int of
          None \<Rightarrow> (Inr (model_default mid), st)
        | Some n \<Rightarrow> (case strict_speaker_spec_for_id rep envo (Some n) mid st of
            (Inr (Some s), st1) \<Rightarrow> (Inr (Some (sp_id s)), st1)
          | (Inr None, st1) \<Rightarrow> (Inr (model_default mid), st1)
          | (Inl err, st1) \<Rightarrow> if err = ValueErr \<or> err = TypeErr then (Inr (model_default mid), st1) else (Inl err, st1)))"

text \<open>A selector of the versioned API: a JSON value. \<open>isdigit\<close> and \<open>casefold\<close> are those of ASCII text.\<close>

definition looks_numeric :: "string \<Rightarrow> bool" where
  "looks_numeric s = (let d = dropWhile (\<lambda>c. c \<in> {CHR ''+'', CHR ''-''}) (str_strip s) in d \<noteq> [] \<and> list_all is_digit_char d)"

definition strict_or_raise :: "(json \<Rightarrow> string) \<Rightarrow> table \<Rightarrow> int \<Rightarrow> string \<Rightarrow> speaker option vm" where
  "strict_or_raise rep envo sid mid =
     bind_vm (strict_speaker_spec_for_id rep envo (Some sid) mid)
       (\<lambda>r. case r of Some s \<Rightarrow> ret_vm (Some s) | None \<Rightarrow> lift_vm (Inl ValueErr))"

definition speaker_names :: "int \<Rightarrow> speaker \<Rightarrow> string list" where
  "speaker_names sid s =
     map (\<lambda>n. str_lower (str_strip n)) (filter (\<lambda>n. n \<noteq> []) [sp_label s, sp_payload s, int_str sid])"

definition find_by_name :: "string \<Rightarrow> table \<Rightarrow> int option" where
  "find_by_name needle t = map_option fst (find (\<lambda>(sid, s). needle \<in> set (speaker_names sid s)) t)"

definition check_scope :: "(json \<Rightarrow> string) \<Rightarrow> string \<Rightarrow> speaker \<Rightarrow> (py_error, speaker option) res" where
  "check_scope rep mid s =
     (if sp_type s = Embedding \<and> jtruthy (sp_meta s) then
        (case sp_meta s of
           JObj d \<Rightarrow>
             let scoped = jget d ''model_id'' JNull
             in if jtruthy scoped \<and> canonical_model_id (jstr rep scoped) \<noteq> mid then Inl ValueErr else Inr (Some s)
         | _ \<Rightarrow> Inl AttributeErr)
      else Inr (Some s))"

definition resolve_speaker_selector ::
  "(json \<Rightarrow> string) \<Rightarrow> table \<Rightarrow> (string \<rightharpoonup> string) \<Rightarrow> json \<Rightarrow> string \<Rightarrow> speaker option vm" where
  "resolve_speaker_selector rep envo e selector model =
     (let mid = canonical_model_id model;
          dflt = bind_vm (default_speaker_id rep envo e mid) (\<lambda>sid. strict_speaker_spec_for_id rep envo sid mid)
      in case selector of
           JNull \<Rightarrow> dflt
         | JInt n \<Rightarrow> strict_or_raise rep envo n mid
         | JStr s \<Rightarrow>
             if str_strip s = [] then dflt
             else if looks_numeric s then bind_vm (lift_vm (int_of_str s)) (\<lambda>n. strict_or_raise rep envo n mid)
             else let needle = str_lower (str_strip s)
                  in bind_vm (load_speaker_map rep envo mid) (\<lambda>t.
                       case (case map_of (aliases_of mid) needle of Some a \<Rightarrow> Some a | None \<Rightarrow> find_by_name needle t) of
                         None \<Rightarrow> lift_vm (Inl ValueErr)
                       | Some sid \<Rightarrow> bind_vm (strict_or_raise rep envo sid mid) (\<lambda>r. case r of
                             Some s \<Rightarrow> lift_vm (check_scope rep mid s) | None \<Rightarrow> ret_vm None))
         | _ \<Rightarrow> lift_vm (Inl ValueErr))"

definition speaker_kwargs_for_selector ::
  "(json \<Rightarrow> string) \<Rightarrow> table \<Rightarrow> (string \<rightharpoonup> string) \<Rightarrow> (string \<Rightarrow> nat list option) \<Rightarrow> json \<Rightarrow> string \<Rightarrow> voice_kwargs vm" where
  "speaker_kwargs_for_selector rep envo e b64decode_lax selector model =
     bind_vm (resolve_speaker_selector rep envo e selector model)
       (\<lambda>r. case r of None \<Rightarrow> ret_vm NoVoice | Some s \<Rightarrow> speaker_kwargs_for_id rep envo e b64decode_lax (Some (sp_id s)) model)"

text \<open>One line of the public list.\<close>

definition speaker_item :: "int \<Rightarrow> speaker \<Rightarrow> jdict" where
  "speaker_item sid s =
     [(''id'', JInt sid), (''type'', JStr (case sp_type s of Preset \<Rightarrow> ''preset'' | Embedding \<Rightarrow> ''embedding'' | Intrinsic \<Rightarrow> ''intrinsic'')),
      (''label'', JStr (sp_label s))] @
     (case sp_type s of
        Preset \<Rightarrow> [(''payload'', JStr (sp_payload s))]
      | Embedding \<Rightarrow>
          (''speaker_embedding_b64'', JStr (if length (sp_payload s) > 40 then take 40 (sp_payload s) @ ''...'' else sp_payload s))
          # (if jtruthy (sp_meta s) then [(''meta'', sp_meta s)] else [])
      | Intrinsic \<Rightarrow> [])"

definition available_speakers :: "(json \<Rightarrow> string) \<Rightarrow> table \<Rightarrow> string \<Rightarrow> jdict list vm" where
  "available_speakers rep envo model =
     bind_vm (load_speaker_map rep envo model) (\<lambda>t. ret_vm (map (\<lambda>(sid, s). speaker_item sid s) (sort_key fst t)))"

text \<open>The entry point for backends: \<open>emb\<close>, \<open>sid\<close> are the keyword arguments.\<close>

definition resolve_speaker_kwargs ::
  "(json \<Rightarrow> string) \<Rightarrow> table \<Rightarrow> (string \<rightharpoonup> string) \<Rightarrow> (string \<Rightarrow> nat list option) \<Rightarrow> string \<Rightarrow> bool \<Rightarrow> nat list option \<Rightarrow>
   int option \<Rightarrow> (nat list + voice_kwargs) vm" where
  "resolve_speaker_kwargs rep envo e b64decode_lax model allow_embedding emb sid =
     (case emb of
        Some b \<Rightarrow> if \<not> allow_embedding then lift_vm (Inl ValueErr) else ret_vm (Inl b)
      | None \<Rightarrow> (case sid of
          None \<Rightarrow> ret_vm (Inr NoVoice)
        | Some n \<Rightarrow> bind_vm (speaker_kwargs_for_id rep envo e b64decode_lax (Some n) model) (\<lambda>k.
            case k of
              ByEmbedding i b \<Rightarrow> if \<not> allow_embedding \<and> b \<noteq> [] then lift_vm (Inl ValueErr) else ret_vm (Inr k)
            | _ \<Rightarrow> ret_vm (Inr k))))"

subsection \<open>Registration\<close>

text \<open>\<open>json.dump\<close> with sorted keys.\<close>

fun sort_json :: "json \<Rightarrow> json" where
  "sort_json (JObj d) = JObj (sort_key fst (map (\<lambda>(k, v). (k, sort_json v)) d))"
| "sort_json (JList xs) = JList (map sort_json xs)"
| "sort_json v = v"

definition write_file :: "jdict \<Rightarrow> voices \<Rightarrow> voices" where
  "write_file d st = st\<lparr>vr_file := FileJson (sort_json (JObj d))\<rparr>"

definition valid_entry :: "(json \<Rightarrow> string) \<Rightarrow> string \<times> json \<Rightarrow> bool" where
  "valid_entry rep kv = (case py_int (fst kv) of None \<Rightarrow> False | Some sid \<Rightarrow> is_ok (parse_speaker_entry rep sid (snd kv)))"

definition read_speaker_file_for_update :: "(json \<Rightarrow> string) \<Rightarrow> vfile \<Rightarrow> (py_error, jdict) res" where
  "read_speaker_file_for_update rep f =
     (case f of
        NoFile \<Rightarrow> Inr []
      | FileJson (JObj d) \<Rightarrow>
          if list_all (\<lambda>(m, es). case es of JObj entries \<Rightarrow> list_all (valid_entry rep) entries | _ \<Rightarrow> False) d then Inr d
          else Inl RuntimeErr
      | _ \<Rightarrow> Inl RuntimeErr)"

definition validate_embedding_payload :: "(string \<Rightarrow> nat list option) \<Rightarrow> string \<Rightarrow> (py_error, unit) res" where
  "validate_embedding_payload b64decode payload =
     (if int (length payload) > 4 * 1024 * 2 then Inl ValueErr
      else case b64decode payload of
             None \<Rightarrow> Inl ValueErr
           | Some emb \<Rightarrow> if length emb mod 4 \<noteq> 0 then Inl ValueErr else if emb = [] then Inl ValueErr else Inr ())"

definition entries_of :: "jdict \<Rightarrow> string \<Rightarrow> jdict" where
  "entries_of d model = as_dict (jget d model (JObj []))"

definition file_ids :: "jdict \<Rightarrow> string \<Rightarrow> int list" where
  "file_ids d model = map (\<lambda>(k, e). case py_int k of Some n \<Rightarrow> n | None \<Rightarrow> 0) (entries_of d model)"

definition choose_id ::
  "(json \<Rightarrow> string) \<Rightarrow> table \<Rightarrow> (string \<rightharpoonup> string) \<Rightarrow> string \<Rightarrow> jdict \<Rightarrow> int option \<Rightarrow> int vm" where
  "choose_id rep envo e model d speaker_id =
     (let existing = map fst (presets_of model) @ file_ids d model
      in case speaker_id of
           None \<Rightarrow> ret_vm (max ((if existing = [] then 0 else Max (set existing)) + 1) 10000)
         | Some sid \<Rightarrow>
             if sid \<in> set existing then
               bind_vm (speaker_spec_for_id rep envo e (Some sid) model) (\<lambda>r.
                 case r of
                   Some s \<Rightarrow> if sp_type s = Preset then lift_vm (Inl ValueErr) else ret_vm sid
                 | None \<Rightarrow> ret_vm sid)
             else ret_vm sid)"

definition entry_json :: "speaker \<Rightarrow> json" where
  "entry_json s = JObj [(''type'', JStr ''embedding''), (''label'', JStr (sp_label s)),
     (''speaker_embedding_b64'', JStr (sp_payload s)), (''meta'', sp_meta s)]"

definition drop_cached :: "string \<Rightarrow> voices \<Rightarrow> voices" where
  "drop_cached model st = st\<lparr>vr_cache := (vr_cache st)(model := None)\<rparr>"

definition register_speaker ::
  "(json \<Rightarrow> string) \<Rightarrow> (string \<Rightarrow> nat list option) \<Rightarrow> table \<Rightarrow> (string \<rightharpoonup> string) \<Rightarrow> string \<Rightarrow> string \<Rightarrow> string \<Rightarrow> string \<Rightarrow> jdict \<Rightarrow>
   int option \<Rightarrow> speaker vm" where
  "register_speaker rep b64decode envo e now model payload label meta speaker_id =
     bind_vm (lift_vm (validate_embedding_payload b64decode payload)) (\<lambda>_.
     let meta1 = setdefault (setdefault meta ''model_id'' (JStr model)) ''created'' (JStr now)
     in bind_vm (\<lambda>st. (read_speaker_file_for_update rep (vr_file st), st)) (\<lambda>d.
        bind_vm (choose_id rep envo e model d speaker_id) (\<lambda>sid.
          let s = \<lparr>sp_id = sid, sp_type = Embedding, sp_label = (if label \<noteq> [] then label else ''voice-'' @ int_str sid),
                   sp_payload = payload, sp_meta = JObj meta1\<rparr>
          in (\<lambda>st. (Inr s, drop_cached model
                (write_file (dset d model (JObj (dset (entries_of d model) (int_str sid) (entry_json s)))) st))))))"

definition unregister_speaker :: "(json \<Rightarrow> string) \<Rightarrow> string \<Rightarrow> int \<Rightarrow> bool vm" where
  "unregister_speaker rep model speaker_id =
     bind_vm (\<lambda>st. (read_speaker_file_for_update rep (vr_file st), st)) (\<lambda>d.
       let entries = entries_of d model; key = int_str speaker_id
       in case dget entries key of
            Some entry \<Rightarrow>
              bind_vm (lift_vm (parse_speaker_entry rep speaker_id entry)) (\<lambda>s.
                if sp_type s \<noteq> Embedding then lift_vm (Inl ValueErr)
                else (\<lambda>st.
                  let left = dpop entries key;
                      d1 = (if left = [] then dpop d model else dset d model (JObj left))
                  in (Inr True, (write_file d1 st)\<lparr>vr_cache := (vr_cache st)(model := map_option (AList.delete speaker_id) (vr_cache st model))\<rparr>)))
          | None \<Rightarrow>
              if speaker_id \<in> set (map fst (presets_of model)) then lift_vm (Inl ValueErr) else ret_vm False)"

datatype vr_op =
  Query "int option" string
| Select json string
| ListAll string
| Register string string string string jdict "int option"
| Unregister string int
| Reload

fun vr_step ::
  "(json \<Rightarrow> string) \<Rightarrow> (string \<Rightarrow> nat list option) \<Rightarrow> table \<Rightarrow> (string \<rightharpoonup> string) \<Rightarrow> voices \<Rightarrow> vr_op \<Rightarrow> voices" where
  "vr_step rep b64 envo e st (Query sid model) = snd (speaker_spec_for_id rep envo e sid model st)"
| "vr_step rep b64 envo e st (Select sel model) = snd (resolve_speaker_selector rep envo e sel model st)"
| "vr_step rep b64 envo e st (ListAll model) = snd (available_speakers rep envo model st)"
| "vr_step rep b64 envo e st (Register now model payload label meta sid) =
     snd (register_speaker rep b64 envo e now model payload label meta sid st)"
| "vr_step rep b64 envo e st (Unregister model sid) = snd (unregister_speaker rep model sid st)"
| "vr_step rep b64 envo e st Reload = reload_speakers st"

text \<open>Two registrations that the table shows in an odd light. The reference voice of a model is overwritten,
  and after the overwriting voice was removed, the default voice is gone until the next reload. A new
  voice takes an id that an override of the environment holds, and is never heard.\<close>

abbreviation demo_voices :: voices where
  "demo_voices \<equiv> \<lparr>vr_file = NoFile, vr_cache = Map.empty\<rparr>"

definition demo_register :: "int option \<Rightarrow> vr_op" where
  "demo_register sid = Register ''now'' ''qwen3-tts-0.6b-base'' ''AAAAAA=='' ''ann'' [] sid"

lemma default_voice_lost:
  "fst (speaker_spec_for_id (\<lambda>_. []) [] Map.empty (Some 0) ''qwen3-tts-0.6b-base''
      (foldl (vr_step (\<lambda>_. []) b64_strict [] Map.empty) demo_voices
        [demo_register (Some 0), Query (Some 0) ''qwen3-tts-0.6b-base'', Unregister ''qwen3-tts-0.6b-base'' 0])) =
    Inr (Some (snd (preset 0 ''0'' ''0'')))"
  by code_simp

lemma default_voice_back_after_reload:
  "fst (speaker_spec_for_id (\<lambda>_. []) [] Map.empty (Some 0) ''qwen3-tts-0.6b-base''
      (foldl (vr_step (\<lambda>_. []) b64_strict [] Map.empty) demo_voices
        [demo_register (Some 0), Query (Some 0) ''qwen3-tts-0.6b-base'', Unregister ''qwen3-tts-0.6b-base'' 0, Reload])) =
    Inr (Some (snd (intrinsic ''Default reference voice'')))"
  by code_simp

lemma shadowed_registration:
  "fst (register_speaker (\<lambda>_. []) b64_strict [preset 5 ''op'' ''7''] Map.empty ''now'' ''qwen3-tts'' ''AAAAAA=='' ''ann'' [] (Some 5)
      demo_voices) = Inr \<lparr>sp_id = 5, sp_type = Embedding, sp_label = ''ann'', sp_payload = ''AAAAAA=='',
        sp_meta = JObj [(''model_id'', JStr ''qwen3-tts''), (''created'', JStr ''now'')]\<rparr> \<and>
   fst (speaker_spec_for_id (\<lambda>_. []) [preset 5 ''op'' ''7''] Map.empty (Some 5) ''qwen3-tts''
      (snd (register_speaker (\<lambda>_. []) b64_strict [preset 5 ''op'' ''7''] Map.empty ''now'' ''qwen3-tts'' ''AAAAAA=='' ''ann'' []
        (Some 5) demo_voices))) = Inr (Some (snd (preset 5 ''op'' ''7'')))"
  by code_simp

end
