(* ===== verification/VoiceTables.thy ===== *)
theory VoiceTables
  imports VoiceRegistry
begin

section \<open>Voice tables: the layers behind the cache\<close>

text \<open>
  The abstract specification of the voice registry, \<open>voice_spec\<close>: the voice of an id is that of the
  environment, else that of the file, else the preset. As long as no registered voice hides a preset or
  an override when it is removed (\<open>safe_op\<close>), the cached tables of VoiceRegistry always agree with it; a
  registration or removal changes one voice of one model. The file is assumed to have been written by
  this module (\<open>tidy_file\<close>) or to be missing.
\<close>

subsection \<open>Sorting the file keeps what it says\<close>

lemma insort_key_map: "insort_key f (g x) (map g xs) = map g (insort_key (f \<circ> g) x xs)"
  by (induction xs) simp_all

lemma sort_key_map: "sort_key f (map g xs) = map g (sort_key (f \<circ> g) xs)"
  by (induction xs) (simp_all add: insort_key_map comp_def)

lemma sort_items:
  fixes h :: "'a \<Rightarrow> 'b" and d :: "('k :: linorder \<times> 'a) list"
  shows "sort_key fst (map (\<lambda>(k, v). (k, h v)) d) = map (\<lambda>(k, v). (k, h v)) (sort_key fst d)"
proof -
  have "fst \<circ> (\<lambda>(k, v). (k, h v)) = (fst :: 'k \<times> 'a \<Rightarrow> 'k)" by (auto simp: fun_eq_iff)
  then show ?thesis by (simp only: sort_key_map)
qed

lemma sort_json_idem [simp]: "sort_json (sort_json j) = sort_json j"
proof (induction j rule: sort_json.induct)
  case (1 d)
  have "map (\<lambda>(k, v). (k, sort_json v)) (map (\<lambda>(k, v). (k, sort_json v)) (sort_key fst d)) =
      map (\<lambda>(k, v). (k, sort_json v)) (sort_key fst d)"
    using 1 by (auto simp: split_def)
  then show ?case
    by (simp only: sort_json.simps sort_items) (simp add: sort_key_id_if_sorted)
qed simp_all

lemma keys_map_snd [simp]: "keys (map (\<lambda>(k, v). (k, h v)) d) = keys d"
  by (induction d) auto

lemma dget_map_snd: "dget (map (\<lambda>(k, v). (k, h v)) d) k = map_option h (dget d k)"
  by (induction d) auto

lemma dget_map_of: "dget d = map_of d"
proof
  show "dget d k = map_of d k" for k by (induction d) auto
qed

lemma distinct_keys_sort: "distinct (keys (sort_key fst d)) = distinct (keys d)"
proof -
  have "set (keys (sort_key fst d)) = set (keys d)" "length (keys (sort_key fst d)) = length (keys d)"
    by (simp_all add: keys_def)
  then show ?thesis by (metis card_distinct distinct_card)
qed

lemma dget_sort:
  assumes "distinct (keys d)"
  shows "dget (sort_key fst d) k = dget d k"
proof -
  have "map_of (sort_key fst d) = map_of d"
    using assms distinct_keys_sort [of d] by (intro map_of_inject_set [THEN iffD2]) (simp_all add: keys_def)
  then show ?thesis by (simp add: dget_map_of)
qed

text \<open>What a sorted object says: the same fields, with sorted values.\<close>

lemma dget_sorted_obj:
  assumes "distinct (keys d)" and "sort_json (JObj d) = JObj d'"
  shows "dget d' k = map_option sort_json (dget d k)" "distinct (keys d')" "set (keys d') = set (keys d)"
proof -
  have d': "d' = sort_key fst (map (\<lambda>(k, v). (k, sort_json v)) d)" using assms(2) by simp
  have dk: "distinct (keys (map (\<lambda>(k, v). (k, sort_json v)) d))" using assms(1) by simp
  show "dget d' k = map_option sort_json (dget d k)" unfolding d' dget_sort [OF dk] by (simp add: dget_map_snd)
  show "distinct (keys d')" unfolding d' using dk by (simp only: distinct_keys_sort)
  show "set (keys d') = set (keys d)" unfolding d' by (simp add: keys_def image_image split_def)
qed

subsection \<open>A tidy file\<close>

text \<open>What this module writes: for each model an object whose keys are numbers and whose entries parse and are
  sorted.\<close>

definition tidy_entries :: "(json \<Rightarrow> string) \<Rightarrow> jdict \<Rightarrow> bool" where
  "tidy_entries rep entries \<longleftrightarrow> distinct (keys entries) \<and>
     (\<forall>(k, v) \<in> set entries. sort_json v = v \<and> (\<exists>n. k = int_str n \<and> is_ok (parse_speaker_entry rep n v)))"

definition tidy_root :: "(json \<Rightarrow> string) \<Rightarrow> jdict \<Rightarrow> bool" where
  "tidy_root rep d \<longleftrightarrow> distinct (keys d) \<and> (\<forall>(m, es) \<in> set d. is_dict es \<and> tidy_entries rep (as_dict es))"

definition tidy_file :: "(json \<Rightarrow> string) \<Rightarrow> vfile \<Rightarrow> bool" where
  "tidy_file rep f \<longleftrightarrow> (case f of NoFile \<Rightarrow> True | FileJson (JObj d) \<Rightarrow> tidy_root rep d | _ \<Rightarrow> False)"

lemma tidy_root_entries:
  assumes "tidy_root rep d"
  shows "tidy_entries rep (entries_of d m)"
proof (cases "dget d m")
  case None
  then show ?thesis by (simp add: entries_of_def jget_def tidy_entries_def)
next
  case (Some es)
  then have "(m, es) \<in> set d" by (rule dget_in)
  with assms Some show ?thesis by (auto simp: tidy_root_def entries_of_def jget_def)
qed

lemma tidy_entries_sorted:
  assumes "distinct (keys entries)" and "\<And>k v. (k, v) \<in> set entries \<Longrightarrow> \<exists>n. k = int_str n \<and> is_ok (parse_speaker_entry rep n (sort_json v))"
  shows "tidy_entries rep (sort_key fst (map (\<lambda>(k, v). (k, sort_json v)) entries))"
  using assms unfolding tidy_entries_def by (auto simp: distinct_keys_sort)

text \<open>The abstract specification: the layers of a table.\<close>

definition file_voice :: "(json \<Rightarrow> string) \<Rightarrow> vfile \<Rightarrow> string \<Rightarrow> int \<Rightarrow> speaker option" where
  "file_voice rep f model n =
     (case dget (entries_of (file_root f) model) (int_str n) of
        None \<Rightarrow> None
      | Some v \<Rightarrow> (case parse_speaker_entry rep n v of Inr s \<Rightarrow> Some s | Inl _ \<Rightarrow> None))"

definition voice_spec :: "(json \<Rightarrow> string) \<Rightarrow> table \<Rightarrow> vfile \<Rightarrow> string \<Rightarrow> int \<Rightarrow> speaker option" where
  "voice_spec rep envo f model n =
     (case map_of (rev envo) n of
        Some s \<Rightarrow> Some s
      | None \<Rightarrow> (case file_voice rep f model n of Some s \<Rightarrow> Some s | None \<Rightarrow> map_of (presets_of model) n))"

lemma map_of_updates:
  "map_of (foldl (\<lambda>t (n, s). AList.update n s t) t envo) k = (case map_of (rev envo) k of Some s \<Rightarrow> Some s | None \<Rightarrow> map_of t k)"
proof (induction envo arbitrary: t)
  case (Cons ns envo)
  show ?case by (cases ns) (auto simp: Cons.IH update_conv' map_add_def split: option.splits)
qed simp

lemma load_tidy:
  assumes "tidy_entries rep entries"
  shows "\<exists>t'. fold_res (put_entry rep) entries t = Inr t' \<and>
    (\<forall>n. map_of t' n = (case dget entries (int_str n) of
        Some v \<Rightarrow> (case parse_speaker_entry rep n v of Inr s \<Rightarrow> Some s | Inl _ \<Rightarrow> None) | None \<Rightarrow> map_of t n))"
  using assms
proof (induction entries arbitrary: t)
  case (Cons kv entries)
  obtain n v where kv: "kv = (int_str n, v)" and p: "is_ok (parse_speaker_entry rep n v)"
    using Cons.prems by (cases kv) (auto simp: tidy_entries_def)
  from p obtain s where s: "parse_speaker_entry rep n v = Inr s" by (elim is_okE)
  have te: "tidy_entries rep entries" and new: "dget entries (int_str n) = None"
    using Cons.prems by (auto simp: tidy_entries_def kv dget_None_iff)
  have "put_entry rep kv t = Inr (AList.update n s t)" by (simp add: put_entry_def kv int_of_str_def s)
  moreover obtain t' where "fold_res (put_entry rep) entries (AList.update n s t) = Inr t'"
    "\<forall>n'. map_of t' n' = (case dget entries (int_str n') of
        Some v \<Rightarrow> (case parse_speaker_entry rep n' v of Inr s \<Rightarrow> Some s | Inl _ \<Rightarrow> None) | None \<Rightarrow> map_of (AList.update n s t) n')"
    using Cons.IH [OF te] by blast
  ultimately show ?case
    by (auto simp: kv s new update_conv' split: option.split)
qed simp

lemma fresh_map_spec:
  assumes "tidy_file rep f"
  shows "\<exists>t. fresh_map rep envo f model = Inr t \<and> map_of t = voice_spec rep envo f model"
proof -
  have te: "tidy_entries rep (entries_of (file_root f) model)"
  proof -
    have "tidy_root rep []" by (simp add: tidy_root_def)
    with assms have "tidy_root rep (file_root f)" by (auto simp: tidy_file_def file_root_def split: vfile.splits json.splits)
    then show ?thesis by (rule tidy_root_entries)
  qed
  have ob: "jget (file_root f) model (JObj []) = JObj (entries_of (file_root f) model)"
  proof (cases "dget (file_root f) model")
    case (Some es)
    then have "(model, es) \<in> set (file_root f)" by (rule dget_in)
    then have "is_dict es" using assms by (auto simp: tidy_file_def tidy_root_def file_root_def split: vfile.splits json.splits)
    with Some show ?thesis by (cases es) (simp_all add: entries_of_def jget_def)
  qed (simp add: entries_of_def jget_def)
  obtain t where "fold_res (put_entry rep) (entries_of (file_root f) model) (presets_of model) = Inr t"
    "\<forall>n. map_of t n = (case dget (entries_of (file_root f) model) (int_str n) of
        Some v \<Rightarrow> (case parse_speaker_entry rep n v of Inr s \<Rightarrow> Some s | Inl _ \<Rightarrow> None) | None \<Rightarrow> map_of (presets_of model) n)"
    using load_tidy [OF te] by blast
  moreover have "\<exists>s. parse_speaker_entry rep n v = Inr s" if "dget (entries_of (file_root f) model) (int_str n) = Some v" for n v
    using te dget_in [OF that] by (auto simp: tidy_entries_def elim!: is_okE)
  ultimately show ?thesis
    unfolding fresh_map_def load_file_speakers_def ob
    by (auto simp: fun_eq_iff map_of_updates voice_spec_def file_voice_def split: option.split) fastforce+
qed

subsection \<open>What a write does\<close>

definition ready_root :: "jdict \<Rightarrow> bool" where
  "ready_root d \<longleftrightarrow> distinct (keys d) \<and> (\<forall>(m, es) \<in> set d. is_dict es \<and> distinct (keys (as_dict es)))"

lemma is_dict_eq: "is_dict j \<longleftrightarrow> (\<exists>d. j = JObj d)"
  by (cases j) simp_all

lemma tidy_ready: "tidy_root rep d \<Longrightarrow> ready_root d"
  by (auto simp: tidy_root_def ready_root_def tidy_entries_def)

lemma entries_written:
  assumes "ready_root d" and "sort_json (JObj d) = JObj d'"
  shows "dget (entries_of d' m) k = map_option sort_json (dget (entries_of d m) k)" "distinct (keys (entries_of d' m))"
proof -
  have dk: "distinct (keys d)" using assms(1) by (simp add: ready_root_def)
  show "dget (entries_of d' m) k = map_option sort_json (dget (entries_of d m) k)" "distinct (keys (entries_of d' m))"
  proof (atomize (full), cases "dget d m")
    case None
    then show "dget (entries_of d' m) k = map_option sort_json (dget (entries_of d m) k) \<and> distinct (keys (entries_of d' m))"
      using dget_sorted_obj(1) [OF dk assms(2), of m] by (simp add: entries_of_def jget_def)
  next
    case (Some es)
    then have "(m, es) \<in> set d" by (rule dget_in)
    then obtain e where e: "es = JObj e" "distinct (keys e)" using assms(1) by (auto simp: ready_root_def is_dict_eq)
    obtain e' where e': "sort_json (JObj e) = JObj e'" by simp
    have "dget d' m = Some (JObj e')" using dget_sorted_obj(1) [OF dk assms(2), of m] Some e(1) e' by simp
    then have "entries_of d' m = e'" "entries_of d m = e" using Some e(1) by (simp_all add: entries_of_def jget_def)
    with dget_sorted_obj [OF e(2) e'] show "dget (entries_of d' m) k = map_option sort_json (dget (entries_of d m) k) \<and>
        distinct (keys (entries_of d' m))" by simp
  qed
qed

lemma file_voice_written:
  assumes "ready_root d"
  shows "file_voice rep (vr_file (write_file d st)) m n =
     (case dget (entries_of d m) (int_str n) of
        None \<Rightarrow> None
      | Some v \<Rightarrow> (case parse_speaker_entry rep n (sort_json v) of Inr s \<Rightarrow> Some s | Inl _ \<Rightarrow> None))"
proof -
  obtain d' where d': "sort_json (JObj d) = JObj d'" by simp
  then have "file_root (vr_file (write_file d st)) = d'" unfolding write_file_def by (simp add: file_root_def del: sort_json.simps)
  then show ?thesis
    using entries_written(1) [OF assms d', of m "int_str n"] by (simp add: file_voice_def split: option.split)
qed

definition entry_fine :: "(json \<Rightarrow> string) \<Rightarrow> string \<times> json \<Rightarrow> bool" where
  "entry_fine rep kv \<longleftrightarrow> (\<exists>n. fst kv = int_str n \<and> is_ok (parse_speaker_entry rep n (sort_json (snd kv))))"

lemma tidy_written:
  assumes r: "ready_root d" and f: "\<And>m es kv. (m, es) \<in> set d \<Longrightarrow> kv \<in> set (as_dict es) \<Longrightarrow> entry_fine rep kv"
  shows "tidy_file rep (vr_file (write_file d st))"
proof -
  let ?d' = "sort_key fst (map (\<lambda>(k, v). (k, sort_json v)) d)"
  have dk: "distinct (keys ?d')" using r by (simp add: distinct_keys_sort ready_root_def)
  have "is_dict es' \<and> tidy_entries rep (as_dict es')" if m: "(m, es') \<in> set ?d'" for m es'
  proof -
    from m obtain es where es: "(m, es) \<in> set d" "es' = sort_json es" by auto
    then obtain e where e: "es = JObj e" "distinct (keys e)" using r by (auto simp: ready_root_def is_dict_eq)
    have "tidy_entries rep (sort_key fst (map (\<lambda>(k, v). (k, sort_json v)) e))"
    proof (rule tidy_entries_sorted [OF e(2)])
      fix k v assume "(k, v) \<in> set e"
      with f [OF es(1), of "(k, v)"] e(1) show "\<exists>n. k = int_str n \<and> is_ok (parse_speaker_entry rep n (sort_json v))"
        by (simp add: entry_fine_def)
    qed
    then show ?thesis by (simp add: es(2) e(1))
  qed
  with dk have "tidy_root rep ?d'" unfolding tidy_root_def by blast
  then show ?thesis by (simp add: tidy_file_def write_file_def)
qed

lemma tidy_root_fine: "tidy_root rep d \<Longrightarrow> (m, es) \<in> set d \<Longrightarrow> kv \<in> set (as_dict es) \<Longrightarrow> entry_fine rep kv"
  by (fastforce simp: tidy_root_def tidy_entries_def entry_fine_def)

lemma entry_round_trip:
  assumes "sp_type s = Embedding" and "sp_payload s \<noteq> []"
  shows "parse_speaker_entry rep (sp_id s) (sort_json (entry_json s)) = Inr (s\<lparr>sp_meta := sort_json (sp_meta s)\<rparr>)"
proof -
  let ?d = "[(''type'', JStr ''embedding''), (''label'', JStr (sp_label s)), (''speaker_embedding_b64'', JStr (sp_payload s)),
     (''meta'', sp_meta s)]"
  have dk: "distinct (keys ?d)" by simp
  obtain d' where d': "sort_json (JObj ?d) = JObj d'" by simp
  have g: "dget d' ''type'' = Some (JStr ''embedding'')" "dget d' ''label'' = Some (JStr (sp_label s))"
    "dget d' ''speaker_embedding_b64'' = Some (JStr (sp_payload s))" "dget d' ''meta'' = Some (sort_json (sp_meta s))"
    using dget_sorted_obj(1) [OF dk d'] by simp_all
  have t: "str_lower (str_strip ''embedding'') = ''embedding''" by code_simp
  show ?thesis
    unfolding entry_json_def d' using assms by (simp add: parse_speaker_entry_def Let_def jget_def g t por_def)
qed

subsection \<open>The cache is invisible\<close>

definition coherent :: "(json \<Rightarrow> string) \<Rightarrow> table \<Rightarrow> voices \<Rightarrow> bool" where
  "coherent rep envo st \<longleftrightarrow> tidy_file rep (vr_file st) \<and>
     (\<forall>m t. vr_cache st m = Some t \<longrightarrow> map_of t = voice_spec rep envo (vr_file st) m)"

definition reads :: "(json \<Rightarrow> string) \<Rightarrow> table \<Rightarrow> 'a vm \<Rightarrow> bool" where
  "reads rep envo m \<longleftrightarrow>
     (\<forall>st. coherent rep envo st \<longrightarrow> coherent rep envo (snd (m st)) \<and> vr_file (snd (m st)) = vr_file st)"

lemma reads_ret [simp, intro]: "reads rep envo (ret_vm a)" "reads rep envo (lift_vm r)"
  by (simp_all add: reads_def ret_vm_def lift_vm_def)

lemma reads_bind [intro]:
  assumes "reads rep envo m" and "\<And>a. reads rep envo (f a)"
  shows "reads rep envo (bind_vm m f)"
proof (unfold reads_def, intro allI impI)
  fix st assume c: "coherent rep envo st"
  obtain r st1 where m: "m st = (r, st1)" by fastforce
  with assms(1) c have "coherent rep envo st1" "vr_file st1 = vr_file st" unfolding reads_def by force+
  with assms(2) show "coherent rep envo (snd (bind_vm m f st)) \<and> vr_file (snd (bind_vm m f st)) = vr_file st"
    by (cases r) (auto simp: bind_vm_def m reads_def)
qed

lemma reads_case [intro]:
  "reads rep envo m \<Longrightarrow> (\<And>a. reads rep envo (f a)) \<Longrightarrow> reads rep envo (case x of None \<Rightarrow> m | Some a \<Rightarrow> f a)"
  by (cases x) simp_all

lemma load_speaker_map_spec:
  assumes "coherent rep envo st"
  shows "\<exists>t. fst (load_speaker_map rep envo model st) = Inr t \<and>
    map_of t = voice_spec rep envo (vr_file st) (canonical_model_id model)"
  using assms fresh_map_spec [of rep "vr_file st" envo "canonical_model_id model"]
  by (auto simp: load_speaker_map_def Let_def coherent_def split: option.split)

lemma reads_load [intro]: "reads rep envo (load_speaker_map rep envo model)"
  unfolding reads_def
proof (intro allI impI)
  fix st assume c: "coherent rep envo st"
  let ?m = "canonical_model_id model"
  show "coherent rep envo (snd (load_speaker_map rep envo model st)) \<and> vr_file (snd (load_speaker_map rep envo model st)) = vr_file st"
  proof (cases "vr_cache st ?m")
    case None
    obtain t where "fresh_map rep envo (vr_file st) ?m = Inr t" "map_of t = voice_spec rep envo (vr_file st) ?m"
      using fresh_map_spec c unfolding coherent_def by blast
    with c None show ?thesis by (simp add: load_speaker_map_def Let_def coherent_def)
  qed (use c in \<open>simp add: load_speaker_map_def Let_def\<close>)
qed

lemma reads_strict [intro]: "reads rep envo (strict_speaker_spec_for_id rep envo sid model)"
  by (auto simp: strict_speaker_spec_for_id_def Let_def split: option.split)

lemma reads_spec [intro]: "reads rep envo (speaker_spec_for_id rep envo e sid model)"
  by (auto simp: speaker_spec_for_id_def Let_def split: option.split)

lemma reads_default [intro]: "reads rep envo (default_speaker_id rep envo e model)"
  unfolding reads_def
proof (intro allI impI)
  fix st assume c: "coherent rep envo st"
  define raw where "raw = (if e ''OVS_TTS_DEFAULT_SPEAKER_ID'' = None \<or> e ''OVS_TTS_DEFAULT_SPEAKER_ID'' = Some []
    then e ''TTS_DEFAULT_SID'' else e ''OVS_TTS_DEFAULT_SPEAKER_ID'')"
  show "coherent rep envo (snd (default_speaker_id rep envo e model st)) \<and>
      vr_file (snd (default_speaker_id rep envo e model st)) = vr_file st"
  proof (cases "Option.bind raw py_int")
    case None
    with c show ?thesis by (simp add: default_speaker_id_def Let_def raw_def [symmetric])
  next
    case (Some n)
    obtain r st1 where s: "strict_speaker_spec_for_id rep envo (Some n) (canonical_model_id model) st = (r, st1)" by fastforce
    with reads_strict c have "coherent rep envo st1" "vr_file st1 = vr_file st" unfolding reads_def by (metis snd_conv)+
    with Some s show ?thesis
      by (cases r) (simp_all add: default_speaker_id_def Let_def raw_def [symmetric] split: option.split)
  qed
qed

lemma reads_strict_or_raise [intro]: "reads rep envo (strict_or_raise rep envo sid mid)"
  by (auto simp: strict_or_raise_def split: option.split)

lemma reads_resolve: "reads rep envo (resolve_speaker_selector rep envo e sel model)"
proof -
  have d: "reads rep envo (bind_vm (default_speaker_id rep envo e mid) (\<lambda>sid. strict_speaker_spec_for_id rep envo sid mid))" for mid
    by (intro reads_bind reads_default reads_strict)
  show ?thesis
    by (cases sel) (simp_all add: resolve_speaker_selector_def Let_def d reads_strict_or_raise,
        auto intro!: d reads_bind reads_load reads_case reads_strict_or_raise reads_ret)
qed

lemma reads_available: "reads rep envo (available_speakers rep envo model)"
  by (auto simp: available_speakers_def)

lemma reads_choose: "reads rep envo (choose_id rep envo e model d sid)"
  by (auto simp: choose_id_def Let_def split: option.split)

lemma read_for_update_root:
  "read_speaker_file_for_update rep f = Inr d \<Longrightarrow> tidy_file rep f \<Longrightarrow> d = file_root f \<and> tidy_root rep d"
  by (auto simp: read_speaker_file_for_update_def tidy_file_def file_root_def tidy_root_def split: vfile.splits json.splits if_splits)

lemma entries_of_dset: "entries_of (dset d model es) m = (if m = model then as_dict es else entries_of d m)"
  by (simp add: entries_of_def jget_def dget_dset)

lemma in_dset: "distinct (keys d) \<Longrightarrow> (k', v') \<in> set (dset d k v) \<longleftrightarrow> (if k' = k then v' = v else (k', v') \<in> set d)"
proof (induction d)
  case (Cons kv d)
  obtain a b where kv: "kv = (a, b)" by fastforce
  with Cons.prems have "(a, w) \<notin> set d" for w by (force simp: keys_def)
  with Cons kv show ?case by auto
qed auto

lemma in_dpop: "(k', v') \<in> set (dpop d k) \<longleftrightarrow> (k', v') \<in> set d \<and> k' \<noteq> k"
  by (induction d) (auto split: if_splits)

lemma ready_dset:
  assumes "ready_root d" and "distinct (keys e)"
  shows "ready_root (dset d m (JObj e))"
  using assms by (auto simp: ready_root_def keys_dset in_dset dget_None_iff split: if_splits)

lemma ready_dpop: "ready_root d \<Longrightarrow> ready_root (dpop d m)"
  by (auto simp: ready_root_def keys_dpop in_dpop)

text \<open>A registration that succeeds: what it writes.\<close>

lemma register_cases:
  assumes "register_speaker rep b64 envo e now model payload label meta sid st = (Inr s, st')"
  obtains d n st1 where "read_speaker_file_for_update rep (vr_file st) = Inr d"
    "choose_id rep envo e model d sid st = (Inr n, st1)" "b64 payload \<noteq> Some []" "b64 payload \<noteq> None"
    "sp_id s = n" "sp_type s = Embedding" "sp_payload s = payload"
    "st' = drop_cached model (write_file (dset d model (JObj (dset (entries_of d model) (int_str n) (entry_json s)))) st1)"
  using assms
  by (auto simp: register_speaker_def bind_vm_def lift_vm_def Let_def validate_embedding_payload_def
      split: sum.splits prod.splits if_splits option.splits)

lemma register_fails:
  assumes "register_speaker rep b64 envo e now model payload label meta sid st = (Inl err, st')"
  shows "st' = st \<or> (\<exists>d. st' = snd (choose_id rep envo e model d sid st))"
  using assms
  by (auto simp: register_speaker_def bind_vm_def lift_vm_def Let_def split: sum.splits prod.splits if_splits) (metis snd_conv)

lemma voice_spec_cong:
  "file_voice rep f m = file_voice rep g m \<Longrightarrow> voice_spec rep envo f m = voice_spec rep envo g m"
  by (rule ext) (simp add: voice_spec_def split: option.split)

lemma file_voice_tidy:
  assumes "tidy_root rep d" and "dget (entries_of d m) (int_str n) = Some v"
  shows "sort_json v = v"
  using tidy_root_entries [OF assms(1), of m] dget_in [OF assms(2)] by (auto simp: tidy_entries_def)

text \<open>Registering changes one voice of one model in the file.\<close>

lemma register_effect:
  assumes c: "coherent rep envo st" and b: "\<And>bs. b64 [] = Some bs \<Longrightarrow> bs = []"
    and r: "register_speaker rep b64 envo e now model payload label meta sid st = (Inr s, st')"
  shows "coherent rep envo st' \<and> sp_type s = Embedding \<and>
    file_voice rep (vr_file st') = (file_voice rep (vr_file st))(model := (file_voice rep (vr_file st) model)
      (sp_id s := Some (s\<lparr>sp_meta := sort_json (sp_meta s)\<rparr>)))"
  using r
proof (rule register_cases)
  fix d n st1
  assume d: "read_speaker_file_for_update rep (vr_file st) = Inr d" and ch: "choose_id rep envo e model d sid st = (Inr n, st1)"
    and p: "b64 payload \<noteq> Some []" "b64 payload \<noteq> None" and s: "sp_id s = n" "sp_type s = Embedding" "sp_payload s = payload"
    and st': "st' = drop_cached model (write_file (dset d model (JObj (dset (entries_of d model) (int_str n) (entry_json s)))) st1)"
  let ?e = "dset (entries_of d model) (int_str n) (entry_json s)" and ?d = "dset d model (JObj (dset (entries_of d model) (int_str n) (entry_json s)))"
  have root: "d = file_root (vr_file st)" "tidy_root rep d"
    using read_for_update_root [OF d] c by (auto simp: coherent_def)
  have st1: "coherent rep envo st1" "vr_file st1 = vr_file st"
    using reads_choose [of rep envo e model d sid] c ch unfolding reads_def by force+
  have payload: "payload \<noteq> []" using p b by blast
  have new: "parse_speaker_entry rep n (sort_json (entry_json s)) = Inr (s\<lparr>sp_meta := sort_json (sp_meta s)\<rparr>)"
    using entry_round_trip [of s rep] s payload by simp
  have te: "tidy_entries rep (entries_of d model)" using root(2) by (rule tidy_root_entries)
  then have dk: "distinct (keys ?e)" by (auto simp: tidy_entries_def keys_dset dget_None_iff)
  have ready: "ready_root ?d" using tidy_ready [OF root(2)] dk by (rule ready_dset)
  have fv: "file_voice rep (vr_file st') m k = (if m = model \<and> k = n then Some (s\<lparr>sp_meta := sort_json (sp_meta s)\<rparr>)
      else file_voice rep (vr_file st) m k)" for m k
  proof -
    have "file_voice rep (vr_file st') m k = (case dget (entries_of ?d m) (int_str k) of
        None \<Rightarrow> None | Some v \<Rightarrow> (case parse_speaker_entry rep k (sort_json v) of Inr s \<Rightarrow> Some s | Inl _ \<Rightarrow> None))"
      unfolding st' by (simp add: drop_cached_def file_voice_written [OF ready])
    also have "\<dots> = (if m = model \<and> k = n then Some (s\<lparr>sp_meta := sort_json (sp_meta s)\<rparr>) else file_voice rep (vr_file st) m k)"
      using file_voice_tidy [OF root(2), of m k]
      by (auto simp: entries_of_dset dget_dset new file_voice_def root(1) [symmetric] split: option.split)
    finally show ?thesis .
  qed
  have "tidy_file rep (vr_file (write_file ?d st1))"
  proof (rule tidy_written [OF ready])
    fix m es kv
    assume m: "(m, es) \<in> set ?d" "kv \<in> set (as_dict es)"
    have dd: "distinct (keys d)" "distinct (keys (entries_of d model))" using root(2) te by (simp_all add: tidy_root_def tidy_entries_def)
    show "entry_fine rep kv"
    proof (cases "m = model")
      case True
      with m have "kv \<in> set ?e" by (auto simp: in_dset [OF dd(1)])
      then consider "kv = (int_str n, entry_json s)" | "kv \<in> set (entries_of d model)"
        by (metis in_dset [OF dd(2)] surj_pair)
      then show ?thesis
      proof cases
        case 1
        then show ?thesis using new by (auto simp: entry_fine_def)
      next
        case 2
        with te show ?thesis by (fastforce simp: tidy_entries_def entry_fine_def)
      qed
    next
      case False
      with m(1) have "(m, es) \<in> set d" by (simp add: in_dset [OF dd(1)])
      with tidy_root_fine [OF root(2)] m(2) show ?thesis by blast
    qed
  qed
  moreover have "map_of t = voice_spec rep envo (vr_file st') m" if "vr_cache st' m = Some t" for m t
  proof -
    have "m \<noteq> model" "vr_cache st1 m = Some t"
      using that by (auto simp: st' drop_cached_def write_file_def split: if_splits)
    moreover have "voice_spec rep envo (vr_file st') m = voice_spec rep envo (vr_file st) m" if "m \<noteq> model" for m
      using that by (intro voice_spec_cong) (simp add: fun_eq_iff fv)
    ultimately show ?thesis using st1 by (simp add: coherent_def)
  qed
  ultimately have "coherent rep envo st'" by (simp add: coherent_def st' drop_cached_def)
  then show ?thesis using s fv by (simp add: fun_eq_iff)
qed

definition own_id :: "table \<Rightarrow> string \<Rightarrow> int \<Rightarrow> bool" where
  "own_id envo model n \<longleftrightarrow> map_of (rev envo) n = None \<and> map_of (presets_of model) n = None"

lemma unregister_effect:
  assumes c: "coherent rep envo st" and u: "unregister_speaker rep model n st = (r, st')" and own: "own_id envo model n"
  shows "coherent rep envo st' \<and> (r = Inr True \<longrightarrow>
    file_voice rep (vr_file st') = (file_voice rep (vr_file st))(model := (file_voice rep (vr_file st) model)(n := None)))"
proof (cases "r = Inr True")
  case False
  then have "st' = st"
    using u by (auto simp: unregister_speaker_def bind_vm_def lift_vm_def ret_vm_def Let_def
        split: sum.splits prod.splits if_splits option.splits)
  with c False show ?thesis by simp
next
  case True
  let ?left = "\<lambda>d. dpop (entries_of d model) (int_str n)"
  let ?d1 = "\<lambda>d. if ?left d = [] then dpop d model else dset d model (JObj (?left d))"
  obtain d where d: "read_speaker_file_for_update rep (vr_file st) = Inr d"
    and st': "st' = (write_file (?d1 d) st)\<lparr>vr_cache := (vr_cache st)(model := map_option (AList.delete n) (vr_cache st model))\<rparr>"
    using u True by (auto simp: unregister_speaker_def bind_vm_def lift_vm_def ret_vm_def Let_def
        split: sum.splits prod.splits if_split_asm option.splits)
  have root: "d = file_root (vr_file st)" "tidy_root rep d"
    using read_for_update_root [OF d] c by (auto simp: coherent_def)
  have te: "tidy_entries rep (entries_of d model)" using root(2) by (rule tidy_root_entries)
  then have dk: "distinct (keys (?left d))" by (simp add: tidy_entries_def keys_dpop)
  have ready: "ready_root (?d1 d)"
    using ready_dset [OF tidy_ready [OF root(2)] dk] ready_dpop [OF tidy_ready [OF root(2)]] by simp
  have ent: "entries_of (?d1 d) m = (if m = model then ?left d else entries_of d m)" for m
    by (simp add: entries_of_dset) (simp add: entries_of_def jget_def dget_dpop)
  have fv: "file_voice rep (vr_file st') m k = (if m = model \<and> k = n then None else file_voice rep (vr_file st) m k)" for m k
  proof -
    have "file_voice rep (vr_file st') m k = (case dget (entries_of (?d1 d) m) (int_str k) of
        None \<Rightarrow> None | Some v \<Rightarrow> (case parse_speaker_entry rep k (sort_json v) of Inr s \<Rightarrow> Some s | Inl _ \<Rightarrow> None))"
      unfolding st' using file_voice_written [OF ready] by simp
    also have "\<dots> = (if m = model \<and> k = n then None else file_voice rep (vr_file st) m k)"
      using file_voice_tidy [OF root(2), of m k]
      by (auto simp: ent dget_dpop file_voice_def root(1) [symmetric] split: option.split)
    finally show ?thesis .
  qed
  have "tidy_file rep (vr_file (write_file (?d1 d) st))"
  proof (rule tidy_written [OF ready])
    fix m es kv
    assume m: "(m, es) \<in> set (?d1 d)" "kv \<in> set (as_dict es)"
    have dd: "distinct (keys d)" using root(2) by (simp add: tidy_root_def)
    have "kv \<in> set (?left d) \<or> (m, es) \<in> set d"
      using m by (auto simp: in_dset [OF dd] in_dpop split: if_splits)
    then show "entry_fine rep kv"
    proof
      assume "kv \<in> set (?left d)"
      then have "kv \<in> set (entries_of d model)" by (metis in_dpop surj_pair)
      with te show ?thesis by (fastforce simp: tidy_entries_def entry_fine_def)
    qed (use tidy_root_fine [OF root(2)] m(2) in blast)
  qed
  then have tidy: "tidy_file rep (vr_file st')" by (simp add: st')
  have "map_of t = voice_spec rep envo (vr_file st') m" if t: "vr_cache st' m = Some t" for m t
  proof (cases "m = model")
    case True
    with t obtain t0 where t0: "vr_cache st model = Some t0" "t = AList.delete n t0" by (auto simp: st')
    then have "map_of t0 = voice_spec rep envo (vr_file st) model" using c by (simp add: coherent_def)
    then have "map_of t = (voice_spec rep envo (vr_file st) model)(n := None)" by (simp add: t0 delete_conv')
    also have "\<dots> = voice_spec rep envo (vr_file st') model"
      using own by (rule_tac ext) (simp add: voice_spec_def fv own_id_def split: option.split)
    finally show ?thesis by (simp add: True)
  next
    case False
    have "voice_spec rep envo (vr_file st') m = voice_spec rep envo (vr_file st) m"
      using False by (intro voice_spec_cong) (simp add: fun_eq_iff fv)
    moreover have "vr_cache st m = Some t" using t False by (simp add: st')
    ultimately show ?thesis using c by (simp add: coherent_def)
  qed
  with tidy show ?thesis by (simp add: coherent_def fun_eq_iff fv)
qed

definition safe_op :: "table \<Rightarrow> vr_op \<Rightarrow> bool" where
  "safe_op envo op = (case op of Unregister model n \<Rightarrow> own_id envo model n | _ \<Rightarrow> True)"

lemma vr_step_coherent:
  assumes c: "coherent rep envo st" and b: "\<And>bs. b64 [] = Some bs \<Longrightarrow> bs = []" and s: "safe_op envo op"
  shows "coherent rep envo (vr_step rep b64 envo e st op)"
proof (cases op)
  case (Query sid model)
  with reads_spec c show ?thesis unfolding reads_def by simp
next
  case (Select sel model)
  with reads_resolve c show ?thesis unfolding reads_def by simp
next
  case (ListAll model)
  with reads_available c show ?thesis unfolding reads_def by simp
next
  case (Register now model payload label meta sid)
  obtain r st' where r: "register_speaker rep b64 envo e now model payload label meta sid st = (r, st')" by fastforce
  show ?thesis
  proof (cases r)
    case (Inl err)
    with register_fails r have "st' = st \<or> (\<exists>d. st' = snd (choose_id rep envo e model d sid st))" by blast
    with c reads_choose have "coherent rep envo st'" unfolding reads_def by blast
    with Register r show ?thesis by simp
  next
    case (Inr s)
    with r have "register_speaker rep b64 envo e now model payload label meta sid st = (Inr s, st')" by simp
    from register_effect [OF c b this] Register r show ?thesis by simp
  qed
next
  case (Unregister model n)
  obtain r st' where "unregister_speaker rep model n st = (r, st')" by fastforce
  with unregister_effect [OF c this] s Unregister show ?thesis by (simp add: safe_op_def)
next
  case Reload
  with c show ?thesis by (simp add: reload_speakers_def coherent_def)
qed

lemma vr_run_coherent:
  assumes "coherent rep envo st" and "\<And>bs. b64 [] = Some bs \<Longrightarrow> bs = []" and "\<forall>op \<in> set ops. safe_op envo op"
  shows "coherent rep envo (foldl (vr_step rep b64 envo e) st ops)"
  using assms(1,3)
proof (induction ops arbitrary: st)
  case (Cons op ops)
  then show ?case using vr_step_coherent [OF Cons.prems(1) assms(2)] by simp
qed simp

lemma strict_lookup:
  assumes "coherent rep envo st"
  shows "fst (strict_speaker_spec_for_id rep envo (Some n) model st) =
    Inr (voice_spec rep envo (vr_file st) (canonical_model_id model) (selector_alias_id n (canonical_model_id model)))"
  using load_speaker_map_spec [OF assms, of "canonical_model_id model"]
  by (auto simp: strict_speaker_spec_for_id_def bind_vm_def ret_vm_def Let_def split: prod.splits)

text \<open>Whatever was queried, registered, removed and reloaded before, a lookup answers by the layers of the
  current file: override, registered voice, preset. The cache never shows.\<close>

theorem lookups_follow_the_layers:
  assumes "tidy_file rep (vr_file st)" and "vr_cache st = Map.empty" and "\<And>bs. b64 [] = Some bs \<Longrightarrow> bs = []"
    and "\<forall>op \<in> set ops. safe_op envo op"
  shows "fst (strict_speaker_spec_for_id rep envo (Some n) model (foldl (vr_step rep b64 envo e) st ops)) =
    Inr (voice_spec rep envo (vr_file (foldl (vr_step rep b64 envo e) st ops)) (canonical_model_id model)
      (selector_alias_id n (canonical_model_id model)))"
  using assms by (intro strict_lookup vr_run_coherent) (simp_all add: coherent_def)

text \<open>A registered voice is found under the id that was handed out, with the fields it was given (the meta
  data with sorted keys), and no other voice of any model is touched.\<close>

theorem registered_voice_found:
  assumes "tidy_file rep (vr_file st)" and "vr_cache st = Map.empty" and "\<And>bs. b64 [] = Some bs \<Longrightarrow> bs = []"
    and "\<forall>op \<in> set ops. safe_op envo op"
    and "register_speaker rep b64 envo e now model payload label meta sid (foldl (vr_step rep b64 envo e) st ops) = (Inr s, st')"
    and "canonical_model_id model = model" and "map_of (rev envo) (sp_id s) = None"
    and "selector_alias_id (sp_id s) model = sp_id s"
  shows "fst (speaker_spec_for_id rep envo e (Some (sp_id s)) model st') = Inr (Some (s\<lparr>sp_meta := sort_json (sp_meta s)\<rparr>)) \<and>
    (\<forall>m n. (m, n) \<noteq> (model, sp_id s) \<longrightarrow>
      file_voice rep (vr_file st') m n = file_voice rep (vr_file (foldl (vr_step rep b64 envo e) st ops)) m n)"
proof -
  have "coherent rep envo (foldl (vr_step rep b64 envo e) st ops)"
    using assms(1-4) by (intro vr_run_coherent) (simp_all add: coherent_def)
  from register_effect [OF this assms(3,5)] have c: "coherent rep envo st'"
    and fv: "file_voice rep (vr_file st') = (file_voice rep (vr_file (foldl (vr_step rep b64 envo e) st ops)))
      (model := (file_voice rep (vr_file (foldl (vr_step rep b64 envo e) st ops)) model)
        (sp_id s := Some (s\<lparr>sp_meta := sort_json (sp_meta s)\<rparr>)))" by simp_all
  have "voice_spec rep envo (vr_file st') model (sp_id s) = Some (s\<lparr>sp_meta := sort_json (sp_meta s)\<rparr>)"
    by (simp add: voice_spec_def assms(7) fv)
  then have "fst (speaker_spec_for_id rep envo e (Some (sp_id s)) model st') = Inr (Some (s\<lparr>sp_meta := sort_json (sp_meta s)\<rparr>))"
    using load_speaker_map_spec [OF c, of model] assms(6,8)
    by (auto simp: speaker_spec_for_id_def bind_vm_def ret_vm_def Let_def split: prod.splits)
  then show ?thesis by (simp add: fv)
qed

theorem lookups_follow_the_layers_witness:
  "fst (strict_speaker_spec_for_id (\<lambda>_. []) [] (Some 0) ''qwen3-tts-base''
     (foldl (vr_step (\<lambda>_. []) b64_strict [] Map.empty) demo_voices [demo_register (Some 7), Unregister ''qwen3-tts-0.6b-base'' 7])) =
   Inr (voice_spec (\<lambda>_. []) [] (vr_file (foldl (vr_step (\<lambda>_. []) b64_strict [] Map.empty) demo_voices
     [demo_register (Some 7), Unregister ''qwen3-tts-0.6b-base'' 7])) (canonical_model_id ''qwen3-tts-base'')
       (selector_alias_id 0 (canonical_model_id ''qwen3-tts-base'')))"
proof (rule lookups_follow_the_layers)
  have "own_id [] ''qwen3-tts-0.6b-base'' 7" by code_simp
  then show "\<forall>op \<in> set [demo_register (Some 7), Unregister ''qwen3-tts-0.6b-base'' 7]. safe_op [] op"
    by (simp add: safe_op_def demo_register_def)
qed (simp_all add: tidy_file_def)

theorem registered_voice_found_witness:
  "\<exists>s st'. register_speaker (\<lambda>_. []) b64_strict [] Map.empty ''now'' ''qwen3-tts'' ''AAAAAA=='' ''ann'' [] (Some 7) demo_voices = (Inr s, st') \<and>
     fst (speaker_spec_for_id (\<lambda>_. []) [] Map.empty (Some (sp_id s)) ''qwen3-tts'' st') = Inr (Some (s\<lparr>sp_meta := sort_json (sp_meta s)\<rparr>))"
proof -
  let ?r = "register_speaker (\<lambda>_. []) b64_strict [] Map.empty ''now'' ''qwen3-tts'' ''AAAAAA=='' ''ann'' [] (Some 7) demo_voices"
  obtain r st' where r: "?r = (r, st')" by fastforce
  have "(case fst ?r of Inr s \<Rightarrow> sp_id s = 7 | Inl _ \<Rightarrow> False)" by code_simp
  then obtain s where s: "r = Inr s" "sp_id s = 7" by (cases r) (simp_all add: r)
  have c: "canonical_model_id ''qwen3-tts'' = ''qwen3-tts''" "selector_alias_id 7 ''qwen3-tts'' = 7" by code_simp+
  show ?thesis
    using registered_voice_found [where ops = "[]" and st = demo_voices and envo = "[]" and ?b64.0 = b64_strict
        and rep = "\<lambda>_. []" and e = Map.empty and model = "''qwen3-tts''" and s = s and st' = st' and now = "''now''"
        and payload = "''AAAAAA==''" and label = "''ann''" and meta = "[]" and sid = "Some 7"]
    by (simp add: tidy_file_def r s c)
qed

text \<open>An id that is handed out without being asked for is new, and at least 10000.\<close>

lemma auto_id_new:
  assumes "choose_id rep envo e model d None st = (Inr n, st')"
  shows "10000 \<le> n" "n \<notin> set (map fst (presets_of model) @ file_ids d model)"
proof -
  let ?x = "map fst (presets_of model) @ file_ids d model"
  have n: "n = max ((if ?x = [] then 0 else Max (set ?x)) + 1) 10000"
    using assms by (simp add: choose_id_def ret_vm_def Let_def)
  then show "10000 \<le> n" by simp
  show "n \<notin> set ?x"
  proof
    assume m: "n \<in> set ?x"
    then have "n \<le> Max (set ?x)" by (intro Max_ge) auto
    moreover have "?x \<noteq> []" using m by auto
    with n have "n = max (Max (set ?x) + 1) 10000" by (simp only: if_False)
    ultimately show False by linarith
  qed
qed

end
