(* ===== verification/VoiceFiles.thy ===== *)
theory VoiceFiles
  imports VoiceRegistry
begin

section \<open>Voice profile files\<close>

text \<open>
  The directory of clone voices of \<open>server/core/sparktts_voices.py\<close>: a voice is a pair of files, a JSON
  with its metadata and an NPZ with its arrays, both marked with the token of the write that made
  them. The directory is an association list from relative paths to contents; \<open>fsync\<close> is the order
  of the list of instructions an operation issues, so a crash is a prefix of that list
  (theory \<open>VoiceTxn\<close>). Contents are decoded: two files are equal when they decode to the same value,
  which the code asks only of a file and a copy of it or of another generation.
  numpy, the text of floats and containers, the order in which a directory is scanned, the names
  \<open>mkstemp\<close> picks and the absolute path of the directory are the fields of a record \<open>host\<close>.
\<close>

subsection \<open>Contents\<close>

datatype cell = CStr string | CF32 "nat list" | COther string

datatype arr = Arr (shape: "nat list") (cells: "cell list")

type_synonym npz = "(string \<times> arr) list"

datatype content = CText json | CNpz npz | CBytes "nat list" | CDir

type_synonym fs = "(string \<times> content) list"

record host =
  h_rep :: "json \<Rightarrow> string"
  h_txt :: "arr \<Rightarrow> string"
  h_f32 :: "cell \<Rightarrow> nat list"
  h_scan :: "string list \<Rightarrow> string list"
  h_tmp :: "fs \<Rightarrow> string"
  h_root :: string

definition is_file :: "fs \<Rightarrow> string \<Rightarrow> bool" where
  "is_file s f = (case dget s f of None \<Rightarrow> False | Some CDir \<Rightarrow> False | _ \<Rightarrow> True)"

definition file_exists :: "fs \<Rightarrow> string \<Rightarrow> bool" where
  "file_exists s f = (dget s f \<noteq> None)"

definition load_json :: "fs \<Rightarrow> string \<Rightarrow> jdict option" where
  "load_json s f = (case dget s f of Some (CText (JObj d)) \<Rightarrow> Some d | _ \<Rightarrow> None)"

definition np_load :: "fs \<Rightarrow> string \<Rightarrow> npz option" where
  "np_load s f = (case dget s f of Some (CNpz z) \<Rightarrow> Some z | _ \<Rightarrow> None)"

subsection \<open>Names\<close>

definition SPARK_MODEL_ID :: string where "SPARK_MODEL_ID = ''sparktts-0p5b''"
definition QWEN_BASE_MODEL_ID :: string where "QWEN_BASE_MODEL_ID = ''qwen3-tts-0.6b-base''"
definition SPARK_PROFILE_TYPE :: string where "SPARK_PROFILE_TYPE = ''voice_profile''"
definition EMBEDDING_PROFILE_TYPE :: string where "EMBEDDING_PROFILE_TYPE = ''speaker_embedding''"
definition TXN_PREFIX :: string where "TXN_PREFIX = ''.sparktts-txn-''"
definition pair_key :: string where "pair_key = ''__pair_token''"

definition safe_id :: "json \<Rightarrow> (py_error, string) res" where
  "safe_id voice_id =
     (case voice_id of
        JStr v \<Rightarrow>
          let v = str_strip v
          in if v = [] then Inl ValueErr
             else if CHR 0x00 \<in> set v then Inl ValueErr
             else let safe = map (\<lambda>c. if c = CHR '':'' \<or> c = CHR ''/'' then CHR ''_'' else c) v
                  in if safe \<in> {[], ''.'', ''..''} \<or> starts_with ''/'' safe then Inl ValueErr else Inr safe
      | _ \<Rightarrow> Inl ValueErr)"

definition json_name :: "string \<Rightarrow> string" where "json_name safe = safe @ ''.json''"
definition npz_name :: "string \<Rightarrow> string" where "npz_name safe = safe @ ''.npz''"

definition name_ends :: "string \<Rightarrow> string \<Rightarrow> bool" where
  "name_ends suf s = starts_with (rev suf) (rev s)"

definition canonical_opt :: "host \<Rightarrow> json \<Rightarrow> string option \<Rightarrow> string option" where
  "canonical_opt h model_id dflt =
     (if model_id = JNull \<or> (case model_id of JStr m \<Rightarrow> str_strip m = [] | _ \<Rightarrow> False) then dflt
      else let value = canonical_model_id (str_strip (jstr (h_rep h) model_id))
           in if value = [] then dflt else Some value)"

definition add_model_id :: "host \<Rightarrow> json \<Rightarrow> string list \<Rightarrow> (py_error, string list) res" where
  "add_model_id h v out =
     (case canonical_opt h v None of
        None \<Rightarrow> Inl ValueErr
      | Some m \<Rightarrow> Inr (if m \<in> set out then out else out @ [m]))"

definition normalise_compatible_models :: "host \<Rightarrow> string \<Rightarrow> json \<Rightarrow> (py_error, string list) res" where
  "normalise_compatible_models h model_id compatible =
     (case compatible of
        JNull \<Rightarrow> fold_res (add_model_id h) [JStr model_id] []
      | JList vs \<Rightarrow> fold_res (add_model_id h) (JStr model_id # vs) []
      | _ \<Rightarrow> Inl ValueErr)"

subsection \<open>Generation tokens\<close>

definition json_pair_token :: "host \<Rightarrow> jdict option \<Rightarrow> string option" where
  "json_pair_token h d =
     (case d of
        None \<Rightarrow> None
      | Some d \<Rightarrow> (case jget d pair_key JNull of JNull \<Rightarrow> None | v \<Rightarrow> Some (jstr (h_rep h) v)))"

definition cell_str :: "host \<Rightarrow> cell \<Rightarrow> string" where
  "cell_str h c = (case c of CStr s \<Rightarrow> s | _ \<Rightarrow> h_txt h (Arr [] [c]))"

definition npz_pair_token :: "host \<Rightarrow> npz \<Rightarrow> string option" where
  "npz_pair_token h z =
     (case dget z pair_key of
        None \<Rightarrow> None
      | Some a \<Rightarrow> (case cells a of [c] \<Rightarrow> Some (cell_str h c) | _ \<Rightarrow> Some (h_txt h a)))"

definition pair_token_matches :: "host \<Rightarrow> fs \<Rightarrow> jdict \<Rightarrow> string \<Rightarrow> bool" where
  "pair_token_matches h s j npath =
     (case np_load s npath of
        None \<Rightarrow> False
      | Some z \<Rightarrow>
          let jt = json_pair_token h (Some j); nt = npz_pair_token h z
          in if jt = None \<and> nt = None then True else jt \<noteq> None \<and> jt = nt)"

definition pair_has_token :: "host \<Rightarrow> fs \<Rightarrow> string \<Rightarrow> string \<Rightarrow> string \<Rightarrow> bool" where
  "pair_has_token h s jpath npath token =
     (json_pair_token h (load_json s jpath) = Some token \<and>
      (case np_load s npath of None \<Rightarrow> False | Some z \<Rightarrow> npz_pair_token h z = Some token))"

definition files_equal :: "fs \<Rightarrow> string \<Rightarrow> string \<Rightarrow> bool" where
  "files_equal s f g = (is_file s f \<and> is_file s g \<and> dget s f = dget s g)"

subsection \<open>Metadata\<close>

definition has_global_ids :: "npz \<Rightarrow> bool" where
  "has_global_ids z = (case dget z ''global_ids'' of None \<Rightarrow> False | Some a \<Rightarrow> length (cells a) = 32)"

definition profile_payload_matches :: "fs \<Rightarrow> string \<Rightarrow> string \<Rightarrow> bool" where
  "profile_payload_matches s ptype npath =
     (case np_load s npath of
        None \<Rightarrow> False
      | Some z \<Rightarrow>
          if ptype = SPARK_PROFILE_TYPE then has_global_ids z
          else if ptype = EMBEDDING_PROFILE_TYPE then dget z ''speaker_embedding'' \<noteq> None \<or> dget z ''d_vector'' \<noteq> None
          else False)"

text \<open>\<open>ptype not in _PROFILE_TYPES\<close> hashes the value: a list or a dict raises.\<close>

fun hashable :: "json \<Rightarrow> bool" where
  "hashable (JList _) = False"
| "hashable (JObj _) = False"
| "hashable _ = True"

type_synonym profile_meta = "string \<times> string \<times> string list \<times> bool"

definition scoped_metadata ::
  "host \<Rightarrow> fs \<Rightarrow> string option \<Rightarrow> json \<Rightarrow> json \<Rightarrow> string \<Rightarrow> (py_error, profile_meta option) res" where
  "scoped_metadata h s model ptype compatible npath =
     (case model of
        None \<Rightarrow> Inr None
      | Some m \<Rightarrow>
          if \<not> hashable ptype then Inl TypeErr
          else case ptype of
                 JStr p \<Rightarrow>
                   if p \<notin> {SPARK_PROFILE_TYPE, EMBEDDING_PROFILE_TYPE} then Inr None
                   else if \<not> profile_payload_matches s p npath then Inr None
                   else (case normalise_compatible_models h m compatible of
                           Inl _ \<Rightarrow> Inr None
                         | Inr models \<Rightarrow> if m \<in> set models then Inr (Some (m, p, models, False)) else Inr None)
               | _ \<Rightarrow> Inr None)"

definition profile_metadata :: "host \<Rightarrow> fs \<Rightarrow> jdict \<Rightarrow> string \<Rightarrow> (py_error, profile_meta option) res" where
  "profile_metadata h s j npath =
     (let present = map (\<lambda>k. dget j k \<noteq> None) [''model_id'', ''profile_type'', ''compatible_models'']
      in if list_all id present then
           scoped_metadata h s (canonical_opt h (jget j ''model_id'' JNull) None) (jget j ''profile_type'' JNull)
             (jget j ''compatible_models'' JNull) npath
         else if list_ex id present then Inr None
         else (case np_load s npath of
                 None \<Rightarrow> Inr None
               | Some z \<Rightarrow> if has_global_ids z then Inr (Some (SPARK_MODEL_ID, SPARK_PROFILE_TYPE, [SPARK_MODEL_ID], True))
                           else Inr None))"

subsection \<open>Looking before replacing\<close>

definition assert_safe_id_available :: "host \<Rightarrow> fs \<Rightarrow> json \<Rightarrow> string \<Rightarrow> (py_error, unit) res" where
  "assert_safe_id_available h s voice_id safe =
     (let jpath = json_name safe; npath = npz_name safe;
          j_exists = file_exists s jpath; n_exists = file_exists s npath
      in if \<not> j_exists \<and> \<not> n_exists then Inr ()
         else if j_exists \<noteq> n_exists then Inl ValueErr
         else case load_json s jpath of
                None \<Rightarrow> Inl ValueErr
              | Some data \<Rightarrow>
                  if jget data ''voice_id'' JNull \<noteq> voice_id then Inl ValueErr
                  else if data = [] \<or> jget data ''npz_file'' (JStr npath) \<noteq> JStr npath then Inl ValueErr
                  else if \<not> pair_token_matches h s data npath then Inl ValueErr
                  else bind_res (profile_metadata h s data npath) (\<lambda>m.
                         case m of
                           None \<Rightarrow> Inl ValueErr
                         | Some (_, _, _, legacy) \<Rightarrow> if legacy then Inl ValueErr else Inr ()))"

subsection \<open>Instructions of the file system\<close>

datatype instr = Put string content | Del string | Ren string string

fun exec_instr :: "fs \<Rightarrow> instr \<Rightarrow> fs" where
  "exec_instr s (Put f c) = dset s f c"
| "exec_instr s (Del f) = dpop s f"
| "exec_instr s (Ren f g) = (case dget s f of None \<Rightarrow> s | Some c \<Rightarrow> dset (dpop s f) g c)"

definition run :: "instr list \<Rightarrow> fs \<Rightarrow> fs" where
  "run p s = foldl exec_instr s p"

text \<open>\<open>_write_bytes_fsync\<close>: the file exists with part of its bytes before it has all of them.\<close>

definition put_file :: "string \<Rightarrow> content \<Rightarrow> instr list" where
  "put_file f c = [Put f (CBytes []), Put f c]"

definition children :: "fs \<Rightarrow> string \<Rightarrow> string list" where
  "children s d = filter (starts_with (d @ ''/'')) (keys s)"

definition remove_path :: "host \<Rightarrow> fs \<Rightarrow> string \<Rightarrow> instr list" where
  "remove_path h s p =
     (if dget s p = Some CDir then map Del (h_scan h (children s p)) @ [Del p] else [Del p])"

definition cleanup_transaction :: "host \<Rightarrow> fs \<Rightarrow> string \<Rightarrow> string \<Rightarrow> instr list" where
  "cleanup_transaction h s txdir journal = remove_path h s txdir @ [Del journal]"

definition tmp_name :: "host \<Rightarrow> fs \<Rightarrow> string" where
  "tmp_name h s = ''.rollback-'' @ h_tmp h s @ ''.tmp''"

definition restore_from_file :: "host \<Rightarrow> fs \<Rightarrow> string \<Rightarrow> string \<Rightarrow> instr list" where
  "restore_from_file h s backup destination =
     (case dget s backup of
        None \<Rightarrow> []
      | Some c \<Rightarrow> put_file (tmp_name h s) c @ [Ren (tmp_name h s) destination])"

subsection \<open>Journals\<close>

record journal =
  jr_op :: json
  jr_token :: string
  jr_txdir :: string
  jr_json :: string
  jr_npz :: string
  jr_old :: bool

definition is_one :: "json \<Rightarrow> bool" where
  "is_one v = (v = JInt 1 \<or> v = JBool True \<or> v = JFloat 1)"

text \<open>An absolute path directly under the directory of the voices, by its name there.\<close>

definition name_in_root :: "host \<Rightarrow> string \<Rightarrow> string option" where
  "name_in_root h p =
     (let r = h_root h @ ''/''; n = drop (length r) p
      in if starts_with ''/'' p \<and> starts_with r p \<and> CHR ''/'' \<notin> set n then Some n else None)"

definition journal_json :: "host \<Rightarrow> string \<Rightarrow> string \<Rightarrow> string \<Rightarrow> bool \<Rightarrow> content" where
  "journal_json h op token safe old_present =
     CText (JObj
       [(''json_path'', JStr (h_root h @ ''/'' @ json_name safe)),
        (''npz_path'', JStr (h_root h @ ''/'' @ npz_name safe)),
        (''old_present'', JBool old_present), (''operation'', JStr op), (''schema_version'', JInt 1),
        (''token'', JStr token), (''tx_dir'', JStr (TXN_PREFIX @ token))])"

definition read_journal :: "host \<Rightarrow> fs \<Rightarrow> string \<Rightarrow> journal option" where
  "read_journal h s jn =
     (case load_json s jn of
        None \<Rightarrow> None
      | Some d \<Rightarrow>
          if \<not> is_one (jget d ''schema_version'' JNull) then None
          else let token = jstr (h_rep h) (por (jget d ''token'' JNull) (JStr ''''));
                   tx_name = jstr (h_rep h) (por (jget d ''tx_dir'' JNull) (JStr (TXN_PREFIX @ token)))
               in if token = [] \<or> \<not> starts_with TXN_PREFIX jn then None
                  else if CHR ''/'' \<in> set tx_name \<or> \<not> starts_with TXN_PREFIX tx_name then None
                  else case (name_in_root h (jstr (h_rep h) (jget d ''json_path'' (JStr ''''))),
                             name_in_root h (jstr (h_rep h) (jget d ''npz_path'' (JStr '''')))) of
                         (Some jf, Some nf) \<Rightarrow>
                           Some \<lparr>jr_op = jget d ''operation'' JNull, jr_token = token, jr_txdir = tx_name,
                                 jr_json = jf, jr_npz = nf, jr_old = jtruthy (jget d ''old_present'' JNull)\<rparr>
                       | _ \<Rightarrow> None)"

definition old_json :: "string \<Rightarrow> string" where "old_json d = d @ ''/old.json''"
definition old_npz :: "string \<Rightarrow> string" where "old_npz d = d @ ''/old.npz''"
definition new_json :: "string \<Rightarrow> string" where "new_json d = d @ ''/new.json''"
definition new_npz :: "string \<Rightarrow> string" where "new_npz d = d @ ''/new.npz''"

definition restore_or_remove :: "host \<Rightarrow> fs \<Rightarrow> journal \<Rightarrow> string \<Rightarrow> (py_error, instr list) res" where
  "restore_or_remove h s jr jn =
     (let d = jr_txdir jr
      in if jr_old jr then
           (if \<not> is_file s (old_json d) \<or> \<not> is_file s (old_npz d) then Inl ValueErr
            else Inr (restore_from_file h s (old_json d) (jr_json jr) @ restore_from_file h s (old_npz d) (jr_npz jr) @
                      cleanup_transaction h s d jn))
         else Inr ([Del (jr_json jr), Del (jr_npz jr)] @ cleanup_transaction h s d jn))"

definition recover_transaction :: "host \<Rightarrow> fs \<Rightarrow> string \<Rightarrow> (py_error, instr list) res" where
  "recover_transaction h s jn =
     (case read_journal h s jn of
        None \<Rightarrow> Inr []
      | Some jr \<Rightarrow>
          let d = jr_txdir jr; jf = jr_json jr; nf = jr_npz jr
          in if dget s d \<noteq> Some CDir then Inr []
             else if jr_op jr = JStr ''write'' then
               (if pair_has_token h s jf nf (jr_token jr) then Inr (cleanup_transaction h s d jn)
                else if (if jr_old jr then files_equal s jf (old_json d) \<and> files_equal s nf (old_npz d)
                         else \<not> file_exists s jf \<and> \<not> file_exists s nf) then Inr (cleanup_transaction h s d jn)
                else restore_or_remove h s jr jn)
             else if jr_op jr = JStr ''delete'' then
               (if \<not> file_exists s jf \<and> \<not> file_exists s nf then Inr (cleanup_transaction h s d jn)
                else restore_or_remove h s jr jn)
             else Inr [])"

subsection \<open>One pass over the journals\<close>

text \<open>An exception in one journal is logged and leaves it in place.\<close>

definition recover_one :: "host \<Rightarrow> fs \<Rightarrow> string \<Rightarrow> instr list" where
  "recover_one h s jn = (case recover_transaction h s jn of Inl _ \<Rightarrow> [] | Inr p \<Rightarrow> p)"

definition is_txn_name :: "string \<Rightarrow> bool" where
  "is_txn_name n = (starts_with TXN_PREFIX n \<and> CHR ''/'' \<notin> set n)"

definition is_journal_name :: "string \<Rightarrow> bool" where
  "is_journal_name n = (is_txn_name n \<and> name_ends ''.json'' n)"

fun sweep :: "(fs \<Rightarrow> string \<Rightarrow> instr list) \<Rightarrow> fs \<Rightarrow> string list \<Rightarrow> instr list" where
  "sweep f s [] = []"
| "sweep f s (n # ns) = f s n @ sweep f (run (f s n) s) ns"

definition remove_orphan :: "host \<Rightarrow> fs \<Rightarrow> string \<Rightarrow> instr list" where
  "remove_orphan h s d =
     (if dget s d = Some CDir \<and> \<not> name_ends ''.json'' d \<and> \<not> file_exists s (d @ ''.json'') then remove_path h s d else [])"

definition journals :: "fs \<Rightarrow> string list" where
  "journals s = sort (filter is_journal_name (keys s))"

definition recovery :: "host \<Rightarrow> fs \<Rightarrow> instr list" where
  "recovery h s =
     (let p = sweep (recover_one h) s (journals s); s' = run p s
      in p @ sweep (remove_orphan h) s' (h_scan h (filter is_txn_name (keys s'))))"

definition recover_transactions :: "host \<Rightarrow> fs \<Rightarrow> fs" where
  "recover_transactions h s = run (recovery h s) s"

subsection \<open>Writing and deleting a pair\<close>

definition backup :: "fs \<Rightarrow> string \<Rightarrow> string \<Rightarrow> instr list" where
  "backup s f g = (case dget s f of None \<Rightarrow> [] | Some c \<Rightarrow> put_file g c)"

definition marked_json :: "string \<Rightarrow> jdict \<Rightarrow> content" where
  "marked_json token j = CText (JObj (dset j pair_key (JStr token)))"

definition marked_npz :: "string \<Rightarrow> npz \<Rightarrow> content" where
  "marked_npz token z = CNpz (dset (dpop z pair_key) pair_key (Arr [] [CStr token]))"

definition write_prepare :: "host \<Rightarrow> fs \<Rightarrow> string \<Rightarrow> string \<Rightarrow> jdict \<Rightarrow> npz \<Rightarrow> instr list" where
  "write_prepare h s token safe j z =
     (let d = TXN_PREFIX @ token; jf = json_name safe; nf = npz_name safe;
          old_present = (is_file s jf \<and> is_file s nf)
      in [Put d CDir] @
         (if old_present then backup s jf (old_json d) @ backup s nf (old_npz d) else []) @
         put_file (new_json d) (marked_json token j) @ put_file (new_npz d) (marked_npz token z) @
         put_file (d @ ''.json'') (journal_json h ''write'' token safe old_present))"

definition write_commit :: "string \<Rightarrow> string \<Rightarrow> instr list" where
  "write_commit token safe =
     (let d = TXN_PREFIX @ token in [Ren (new_npz d) (npz_name safe), Ren (new_json d) (json_name safe)])"

definition delete_prepare :: "host \<Rightarrow> fs \<Rightarrow> string \<Rightarrow> string \<Rightarrow> instr list" where
  "delete_prepare h s token safe =
     (let d = TXN_PREFIX @ token
      in [Put d CDir] @ backup s (json_name safe) (old_json d) @ backup s (npz_name safe) (old_npz d) @
         put_file (d @ ''.json'') (journal_json h ''delete'' token safe True))"

definition delete_commit :: "string \<Rightarrow> instr list" where
  "delete_commit safe = [Del (json_name safe), Del (npz_name safe)]"

text \<open>The whole transaction when nothing fails: its instructions in order.\<close>

definition txn_prog :: "host \<Rightarrow> fs \<Rightarrow> string \<Rightarrow> instr list \<Rightarrow> instr list \<Rightarrow> instr list" where
  "txn_prog h s token prep commit =
     (let d = TXN_PREFIX @ token; p = prep @ commit in p @ cleanup_transaction h (run p s) d (d @ ''.json''))"

text \<open>
  The transaction when the instruction with index \<open>k\<close> raises \<open>OSError\<close>: before the commit the
  exception leaves what was prepared, in the commit the journal is recovered at once and the
  exception goes on, in the cleanup it is swallowed.
\<close>

definition atomic_txn :: "host \<Rightarrow> nat option \<Rightarrow> string \<Rightarrow> instr list \<Rightarrow> instr list \<Rightarrow> fs \<Rightarrow> bool \<times> fs" where
  "atomic_txn h fault token prep commit s =
     (let p = txn_prog h s token prep commit
      in case fault of
           None \<Rightarrow> (True, run p s)
         | Some k \<Rightarrow>
             let s' = run (take k p) s
             in if k < length prep then (False, s')
                else if k < length prep + length commit then
                  (False, run (recover_one h s' (TXN_PREFIX @ token @ ''.json'')) s')
                else (True, s'))"

definition atomic_write_pair ::
  "host \<Rightarrow> nat option \<Rightarrow> string \<Rightarrow> string \<Rightarrow> jdict \<Rightarrow> npz \<Rightarrow> fs \<Rightarrow> bool \<times> fs" where
  "atomic_write_pair h fault token safe j z s =
     atomic_txn h fault token (write_prepare h s token safe j z) (write_commit token safe) s"

definition atomic_delete_pair :: "host \<Rightarrow> nat option \<Rightarrow> string \<Rightarrow> string \<Rightarrow> fs \<Rightarrow> bool \<times> fs" where
  "atomic_delete_pair h fault token safe s =
     atomic_txn h fault token (delete_prepare h s token safe) (delete_commit safe) s"

end
