(* ===== verification/VoiceTxn.thy ===== *)
theory VoiceTxn
  imports VoiceFiles
begin

section \<open>Crashes of the transactions on voice files\<close>

text \<open>
  What the journal of \<open>sparktts_voices.py\<close> promises: a write or a delete that is cut at any point,
  followed by any number of recoveries that are themselves cut, and then one that is not, leaves the
  pair of the voice as it was or as it was to become, and no other voice changed.
  The invariant \<open>txn_inv\<close> holds between any two instructions of the transaction and of the recoveries.
\<close>

subsection \<open>Every point of a program\<close>

definition every_point :: "(fs \<Rightarrow> bool) \<Rightarrow> instr list \<Rightarrow> fs \<Rightarrow> bool" where
  "every_point I p s = (\<forall>k \<le> length p. I (run (take k p) s))"

lemma run_simps [simp]: "run [] s = s" "run (i # p) s = run p (exec_instr s i)" "run (p @ q) s = run q (run p s)"
  by (simp_all add: run_def)

lemma every_point_Nil [simp]: "every_point I [] s = I s"
  by (simp add: every_point_def)

lemma every_point_Cons [simp]: "every_point I (i # p) s \<longleftrightarrow> I s \<and> every_point I p (exec_instr s i)"
proof
  assume l: "every_point I (i # p) s"
  have "I (run (take k p) (exec_instr s i))" if "k \<le> length p" for k
    using l[unfolded every_point_def, rule_format, of "Suc k"] that by simp
  then show "I s \<and> every_point I p (exec_instr s i)"
    using l[unfolded every_point_def, rule_format, of 0] by (simp add: every_point_def)
next
  assume r: "I s \<and> every_point I p (exec_instr s i)"
  show "every_point I (i # p) s"
    unfolding every_point_def
  proof (intro allI impI)
    fix k assume "k \<le> length (i # p)"
    with r show "I (run (take k (i # p)) s)" by (cases k) (auto simp: every_point_def)
  qed
qed

lemma every_point_append [simp]: "every_point I (p @ q) s \<longleftrightarrow> every_point I p s \<and> every_point I q (run p s)"
proof (induction p arbitrary: s)
  case Nil
  then show ?case by (auto simp: every_point_def dest: spec[of _ 0])
next
  case (Cons i p)
  then show ?case by auto
qed

lemma every_pointD: "every_point I p s \<Longrightarrow> I (run (take k p) s)"
  by (cases "k \<le> length p") (auto simp: every_point_def dest: spec[of _ "length p"])

lemma every_point_end: "every_point I p s \<Longrightarrow> I (run p s)"
  using every_pointD[of I p s "length p"] by simp

subsection \<open>Journals that recovery leaves alone\<close>

definition pair_of :: "fs \<Rightarrow> string \<Rightarrow> content option \<times> content option" where
  "pair_of s safe = (dget s (json_name safe), dget s (npz_name safe))"

definition quiet_journal :: "host \<Rightarrow> fs \<Rightarrow> string \<Rightarrow> bool" where
  "quiet_journal h s n =
     (case read_journal h s n of
        None \<Rightarrow> True
      | Some jr \<Rightarrow> dget s (jr_txdir jr) \<noteq> Some CDir \<or>
          jr_old jr \<and> (\<not> is_file s (old_json (jr_txdir jr)) \<or> \<not> is_file s (old_npz (jr_txdir jr))))"

definition resting :: "host \<Rightarrow> fs \<Rightarrow> bool" where
  "resting h s = list_all (quiet_journal h s) (journals s)"

definition voice_file :: "string \<Rightarrow> bool" where
  "voice_file f = (\<not> starts_with TXN_PREFIX f \<and> (name_ends ''.json'' f \<or> name_ends ''.npz'' f))"

definition safe_name :: "string \<Rightarrow> bool" where
  "safe_name safe = (CHR ''/'' \<notin> set safe \<and> voice_file (json_name safe) \<and> voice_file (npz_name safe))"

definition host_ok :: "host \<Rightarrow> bool" where
  "host_ok h = (starts_with ''/'' (h_root h) \<and> (\<forall>xs. set (h_scan h xs) = set xs))"

text \<open>\<open>secrets.token_hex(16)\<close>: digits that occur nowhere in the directory.\<close>

definition fresh_token :: "host \<Rightarrow> fs \<Rightarrow> string \<Rightarrow> string \<Rightarrow> bool" where
  "fresh_token h s t safe =
     (t \<noteq> [] \<and> list_all (\<lambda>c. c \<in> set ''0123456789abcdef'') t \<and>
      list_all (\<lambda>k. \<not> starts_with (TXN_PREFIX @ t) k) (keys s) \<and>
      list_all (\<lambda>n. case read_journal h s n of None \<Rightarrow> True | Some jr \<Rightarrow> jr_txdir jr \<noteq> TXN_PREFIX @ t) (journals s) \<and>
      json_pair_token h (load_json s (json_name safe)) \<noteq> Some t)"

lemma read_journal_cong: "dget s n = dget s' n \<Longrightarrow> read_journal h s n = read_journal h s' n"
  by (simp add: read_journal_def load_json_def)

lemma read_journal_None: "load_json s n = None \<Longrightarrow> read_journal h s n = None"
  by (simp add: read_journal_def)

lemma harmless_unreadable: "load_json s n = None \<Longrightarrow> quiet_journal h s n"
  by (simp add: quiet_journal_def read_journal_None)

lemma is_file_dpop: "is_file (dpop s f) g \<longleftrightarrow> g \<noteq> f \<and> is_file s g"
  by (simp add: is_file_def dget_dpop)

lemma is_file_cong: "dget s f = dget s' f \<Longrightarrow> is_file s f = is_file s' f"
  by (simp add: is_file_def)

lemma read_journal_dpop: "read_journal h (dpop s f) n = (if n = f then None else read_journal h s n)"
  by (auto simp: read_journal_def load_json_def dget_dpop)

lemma harmless_dpop: "quiet_journal h s n \<Longrightarrow> quiet_journal h (dpop s f) n"
  by (auto simp: quiet_journal_def read_journal_dpop dget_dpop is_file_dpop split: option.splits)

lemma read_journal_txdir:
  assumes "read_journal h s n = Some jr"
  shows "starts_with TXN_PREFIX (jr_txdir jr)" "CHR ''/'' \<notin> set (jr_txdir jr)" "starts_with TXN_PREFIX n"
  using assms by (auto simp: read_journal_def Let_def split: option.splits if_splits)

lemma resting_iff: "resting h s \<longleftrightarrow> (\<forall>n. is_journal_name n \<longrightarrow> quiet_journal h s n)"
proof -
  have "quiet_journal h s n" if "n \<notin> set (keys s)" for n
    using that by (intro harmless_unreadable) (simp add: load_json_def dget_None_iff[symmetric])
  then show ?thesis by (auto simp: resting_def journals_def list_all_iff)
qed

subsection \<open>The invariant of a transaction\<close>

record txn =
  x_op :: string
  x_tok :: string
  x_safe :: string
  x_old :: "content option \<times> content option"
  x_mid :: "content option \<times> content option"
  x_new :: "content option \<times> content option"

abbreviation x_dir :: "txn \<Rightarrow> string" where "x_dir T \<equiv> TXN_PREFIX @ x_tok T"
abbreviation x_journal :: "txn \<Rightarrow> string" where "x_journal T \<equiv> TXN_PREFIX @ x_tok T @ ''.json''"
abbreviation x_present :: "txn \<Rightarrow> bool" where "x_present T \<equiv> fst (x_old T) \<noteq> None"

definition is_own :: "txn \<Rightarrow> string \<Rightarrow> bool" where
  "is_own T f = (f = x_dir T \<or> f = x_journal T \<or> starts_with (x_dir T @ ''/'') f)"

definition is_pair :: "txn \<Rightarrow> string \<Rightarrow> bool" where
  "is_pair T f = (f = json_name (x_safe T) \<or> f = npz_name (x_safe T))"

definition plain_file :: "content option \<Rightarrow> bool" where
  "plain_file c = (c \<noteq> None \<and> c \<noteq> Some CDir)"

definition wf_txn :: "host \<Rightarrow> txn \<Rightarrow> bool" where
  "wf_txn h T =
     (host_ok h \<and> safe_name (x_safe T) \<and> x_tok T \<noteq> [] \<and>
      list_all (\<lambda>c. c \<in> set ''0123456789abcdef'') (x_tok T) \<and>
      (if x_present T then plain_file (fst (x_old T)) \<and> plain_file (snd (x_old T)) else x_old T = (None, None)) \<and>
      (if x_op T = ''write'' then
         x_mid T = (fst (x_old T), snd (x_new T)) \<and>
         (\<exists>j z. x_new T = (Some (marked_json (x_tok T) j), Some (marked_npz (x_tok T) z))) \<and>
         (\<forall>d. fst (x_old T) = Some (CText (JObj d)) \<longrightarrow> json_pair_token h (Some d) \<noteq> Some (x_tok T))
       else x_op T = ''delete'' \<and> x_present T \<and> x_mid T = (None, snd (x_old T)) \<and> x_new T = (None, None)))"

definition elsewhere :: "host \<Rightarrow> txn \<Rightarrow> fs \<Rightarrow> fs \<Rightarrow> bool" where
  "elsewhere h T s0 s =
     ((\<forall>f. voice_file f \<longrightarrow> \<not> is_pair T f \<longrightarrow> dget s f = dget s0 f) \<and>
      (\<forall>n. is_journal_name n \<longrightarrow> n \<noteq> x_journal T \<longrightarrow>
         quiet_journal h s n \<and> (\<forall>jr. read_journal h s n = Some jr \<longrightarrow> jr_txdir jr \<noteq> x_dir T)))"

definition journalled :: "host \<Rightarrow> txn \<Rightarrow> fs \<Rightarrow> bool" where
  "journalled h T s =
     (dget s (x_journal T) = Some (journal_json h (x_op T) (x_tok T) (x_safe T) (x_present T)) \<and>
      dget s (x_dir T) = Some CDir \<and>
      (x_present T \<longrightarrow> dget s (old_json (x_dir T)) = fst (x_old T) \<and> dget s (old_npz (x_dir T)) = snd (x_old T)))"

definition pair_settled :: "txn \<Rightarrow> fs \<Rightarrow> bool" where
  "pair_settled T s = (pair_of s (x_safe T) = x_old T \<or> pair_of s (x_safe T) = x_new T)"

definition txn_inv :: "host \<Rightarrow> txn \<Rightarrow> fs \<Rightarrow> fs \<Rightarrow> bool" where
  "txn_inv h T s0 s =
     (elsewhere h T s0 s \<and>
      (quiet_journal h s (x_journal T) \<and> pair_settled T s \<or>
       journalled h T s \<and> (pair_settled T s \<or> pair_of s (x_safe T) = x_mid T)))"

definition txn_done :: "host \<Rightarrow> txn \<Rightarrow> fs \<Rightarrow> fs \<Rightarrow> bool" where
  "txn_done h T s0 s = (elsewhere h T s0 s \<and> quiet_journal h s (x_journal T) \<and> pair_settled T s)"

lemma done_inv: "txn_done h T s0 s \<Longrightarrow> txn_inv h T s0 s"
  by (simp add: txn_done_def txn_inv_def)

subsubsection \<open>Names\<close>

lemma name_neq [simp]:
  "json_name a \<noteq> npz_name b" "npz_name b \<noteq> json_name a" "old_json d \<noteq> old_npz e" "old_npz e \<noteq> old_json d"
  by (simp_all add: json_name_def npz_name_def old_json_def old_npz_def append_eq_append_conv2)

lemma starts_with_append [simp]: "starts_with p (p @ q)"
  by (simp add: starts_with_iff)

lemma name_ends_append: "name_ends suf s \<longleftrightarrow> (\<exists>p. s = p @ suf)"
  unfolding name_ends_def starts_with_iff by (metis rev_append rev_rev_ident)

lemma own_txn: "is_own T f \<Longrightarrow> starts_with TXN_PREFIX f"
  by (auto simp: is_own_def starts_with_iff)

lemma own_not_voice: "is_own T f \<Longrightarrow> \<not> voice_file f"
  by (auto simp: voice_file_def dest: own_txn)

lemma own_backups [simp]: "is_own T (x_dir T)" "is_own T (x_journal T)"
  "is_own T (old_json (x_dir T))" "is_own T (old_npz (x_dir T))" "is_own T (new_json (x_dir T))" "is_own T (new_npz (x_dir T))"
  by (auto simp: is_own_def old_json_def old_npz_def new_json_def new_npz_def starts_with_iff)

lemma wf_token_chars:
  assumes "wf_txn h T"
  shows "CHR ''/'' \<notin> set (x_tok T)" "x_tok T \<noteq> []" "\<not> name_ends ''.json'' (x_dir T)"
proof -
  have hex: "\<forall>c \<in> set (x_tok T). c \<in> set ''0123456789abcdef''" using assms by (simp add: wf_txn_def list_all_iff)
  show "CHR ''/'' \<notin> set (x_tok T)" using hex by auto
  show ne: "x_tok T \<noteq> []" using assms by (simp add: wf_txn_def)
  show "\<not> name_ends ''.json'' (x_dir T)"
  proof
    assume "name_ends ''.json'' (x_dir T)"
    then obtain p where "TXN_PREFIX @ x_tok T = p @ ''.json''" by (auto simp: name_ends_append)
    then have "last (TXN_PREFIX @ x_tok T) = CHR ''n''" by (simp add: last_append)
    then have "last (x_tok T) = CHR ''n''" using ne by simp
    moreover have "last (x_tok T) \<in> set ''0123456789abcdef''" using hex last_in_set[OF ne] by blast
    ultimately show False by simp
  qed
qed

lemma own_journal_name:
  assumes "wf_txn h T" and "is_journal_name n" and "is_own T n"
  shows "n = x_journal T"
  using assms wf_token_chars[OF assms(1)] by (auto simp: is_own_def is_journal_name_def is_txn_name_def starts_with_iff)

lemma own_below:
  assumes "wf_txn h T" and "is_own T f" and "starts_with (d @ ''/'') f" and "CHR ''/'' \<notin> set d"
  shows "d = x_dir T"
proof -
  have slash: "CHR ''/'' \<notin> set TXN_PREFIX" by (simp add: TXN_PREFIX_def)
  have top: "takeWhile (\<lambda>c. c \<noteq> CHR ''/'') (e @ ''/'' @ g) = e" if "CHR ''/'' \<notin> set e" for e g :: string
    using that by (induction e) auto
  from assms(3) obtain e where f: "f = d @ ''/'' @ e" by (auto simp: starts_with_iff)
  from f have "CHR ''/'' \<in> set f" by simp
  then obtain g where "f = x_dir T @ ''/'' @ g"
    using assms(2) wf_token_chars(1)[OF assms(1)] slash by (auto simp: is_own_def starts_with_iff)
  with f top[OF assms(4), of e] top[of "x_dir T" g] wf_token_chars(1)[OF assms(1)] slash show ?thesis by simp
qed

lemma wf_journal_name: "wf_txn h T \<Longrightarrow> is_journal_name (x_journal T)"
  using wf_token_chars(1) by (force simp: is_journal_name_def is_txn_name_def TXN_PREFIX_def name_ends_append)

subsubsection \<open>What one instruction keeps\<close>

lemma elsewhere_del: "elsewhere h T s0 s \<Longrightarrow> \<not> voice_file f \<or> is_pair T f \<Longrightarrow> elsewhere h T s0 (dpop s f)"
  by (auto simp: elsewhere_def dget_dpop read_journal_dpop harmless_dpop)

lemma elsewhere_put:
  assumes "elsewhere h T s0 s" and "wf_txn h T" and "is_pair T f \<or> is_own T f \<or> \<not> starts_with TXN_PREFIX f \<and> \<not> voice_file f"
    and "f = x_journal T \<longrightarrow> c \<noteq> CDir"
  shows "elsewhere h T s0 (dset s f c)"
proof -
  have away: "f \<noteq> n \<and> (\<forall>d e. starts_with TXN_PREFIX d \<longrightarrow> CHR ''/'' \<notin> set d \<longrightarrow> d \<noteq> x_dir T \<longrightarrow>
      (d = f \<longrightarrow> f = x_journal T) \<and> f \<noteq> d @ ''/'' @ e)"
    if n: "is_journal_name n" "n \<noteq> x_journal T" for n
  proof (cases "starts_with TXN_PREFIX f")
    case False
    then show ?thesis using n by (auto simp: is_journal_name_def is_txn_name_def starts_with_iff)
  next
    case True
    then have "\<not> is_pair T f" using assms(2) by (auto simp: wf_txn_def safe_name_def voice_file_def is_pair_def)
    then have own: "is_own T f" using True assms(3) by auto
    have "f \<noteq> n" using own_journal_name[OF assms(2) n(1)] own n(2) by auto
    moreover have "(d = f \<longrightarrow> f = x_journal T) \<and> f \<noteq> d @ ''/'' @ e"
      if "starts_with TXN_PREFIX d" "CHR ''/'' \<notin> set d" "d \<noteq> x_dir T" for d e
      using own that wf_token_chars[OF assms(2)] unfolding is_own_def starts_with_iff
      by (auto simp: append_eq_append_conv2 append_eq_Cons_conv Cons_eq_append_conv TXN_PREFIX_def)
    ultimately show ?thesis by blast
  qed
  have "quiet_journal h (dset s f c) n \<and> (\<forall>jr. read_journal h (dset s f c) n = Some jr \<longrightarrow> jr_txdir jr \<noteq> x_dir T)"
    if n: "is_journal_name n" "n \<noteq> x_journal T" for n
  proof -
    have same: "read_journal h (dset s f c) n = read_journal h s n"
      using away[OF n] by (intro read_journal_cong) (auto simp: dget_dset)
    have old: "quiet_journal h s n" "\<forall>jr. read_journal h s n = Some jr \<longrightarrow> jr_txdir jr \<noteq> x_dir T"
      using assms(1) n by (auto simp: elsewhere_def)
    have "quiet_journal h (dset s f c) n"
    proof (cases "read_journal h s n")
      case None
      then show ?thesis by (simp add: quiet_journal_def same)
    next
      case (Some jr)
      note dir = away[OF n, THEN conjunct2, rule_format, OF read_journal_txdir(1,2)[OF Some]]
      have d: "jr_txdir jr \<noteq> x_dir T" using old(2) Some by blast
      have "is_file (dset s f c) (old_json (jr_txdir jr)) = is_file s (old_json (jr_txdir jr))"
           "is_file (dset s f c) (old_npz (jr_txdir jr)) = is_file s (old_npz (jr_txdir jr))"
        using dir[OF d, of "''old.json''"] dir[OF d, of "''old.npz''"]
        by (auto simp: is_file_def dget_dset old_json_def old_npz_def)
      moreover have "dget s (jr_txdir jr) \<noteq> Some CDir \<Longrightarrow> dget (dset s f c) (jr_txdir jr) \<noteq> Some CDir"
        using dir[OF d] assms(4) by (auto simp: dget_dset)
      ultimately show ?thesis using old(1) by (auto simp: quiet_journal_def same Some)
    qed
    with same old(2) show ?thesis by simp
  qed
  moreover have "dget (dset s f c) g = dget s0 g" if "voice_file g" "\<not> is_pair T g" for g
  proof -
    have "g \<noteq> f" using assms(3) that by (auto simp: own_not_voice)
    then show ?thesis using assms(1) that by (simp add: dget_dset elsewhere_def)
  qed
  ultimately show ?thesis by (simp add: elsewhere_def)
qed

lemma journalled_del: "journalled h T s \<Longrightarrow> \<not> is_own T f \<Longrightarrow> journalled h T (dpop s f)"
  by (auto simp: journalled_def dget_dpop)

lemma journalled_put: "journalled h T s \<Longrightarrow> \<not> is_own T f \<Longrightarrow> journalled h T (dset s f c)"
  by (auto simp: journalled_def dget_dset)

lemma name_in_root: "host_ok h \<Longrightarrow> CHR ''/'' \<notin> set n \<Longrightarrow> name_in_root h (h_root h @ ''/'' @ n) = Some n"
  by (auto simp: name_in_root_def host_ok_def starts_with_iff)

lemma read_own:
  assumes "wf_txn h T" and "journalled h T s"
  shows "read_journal h s (x_journal T) =
    Some \<lparr>jr_op = JStr (x_op T), jr_token = x_tok T, jr_txdir = x_dir T, jr_json = json_name (x_safe T),
          jr_npz = npz_name (x_safe T), jr_old = x_present T\<rparr>"
proof -
  have "CHR ''/'' \<notin> set (json_name (x_safe T))" "CHR ''/'' \<notin> set (npz_name (x_safe T))" and h: "host_ok h"
    using assms(1) by (auto simp: wf_txn_def safe_name_def json_name_def npz_name_def)
  note names = this(1,2)[THEN name_in_root[OF h]]
  note tok = wf_token_chars[OF assms(1)]
  have slash: "CHR ''/'' \<notin> set TXN_PREFIX" by (simp add: TXN_PREFIX_def)
  show ?thesis
    using assms(2) tok names slash
    by (simp add: read_journal_def load_json_def journalled_def journal_json_def jget_def is_one_def por_def Let_def)
qed

lemma plain_is_file: "dget s f = c \<Longrightarrow> plain_file c \<Longrightarrow> is_file s f"
  by (auto simp: is_file_def plain_file_def split: content.splits)

lemma wf_present: "wf_txn h T \<Longrightarrow> x_present T \<Longrightarrow> plain_file (fst (x_old T)) \<and> plain_file (snd (x_old T))"
  by (simp add: wf_txn_def split: if_splits)

lemma journalled_harmful: "wf_txn h T \<Longrightarrow> journalled h T s \<Longrightarrow> \<not> quiet_journal h s (x_journal T)"
  using read_own[of h T s] wf_present[of h T]
  by (auto simp: quiet_journal_def journalled_def dest: plain_is_file)

lemma own_del:
  assumes "wf_txn h T" and "journalled h T s" and "is_own T f"
  shows "quiet_journal h (dpop s f) (x_journal T) \<or> journalled h T (dpop s f)"
proof (cases "f \<in> {x_journal T, x_dir T} \<or> x_present T \<and> f \<in> {old_json (x_dir T), old_npz (x_dir T)}")
  case True
  then have "quiet_journal h (dpop s f) (x_journal T)"
    using read_own[OF assms(1,2)] by (auto simp: quiet_journal_def read_journal_dpop dget_dpop is_file_dpop)
  then show ?thesis by simp
next
  case False
  then have "journalled h T (dpop s f)" using assms(2) by (auto simp: journalled_def dget_dpop)
  then show ?thesis by simp
qed

subsubsection \<open>Deletions\<close>

lemma dget_dels: "dget (run (map Del fs) s) g = (if g \<in> set fs then None else dget s g)"
  by (induction fs arbitrary: s) (auto simp: dget_dpop)

lemma txn_not_pair: "wf_txn h T \<Longrightarrow> starts_with TXN_PREFIX f \<Longrightarrow> \<not> is_pair T f"
  by (auto simp: wf_txn_def safe_name_def voice_file_def is_pair_def)

lemma pair_del: "\<not> is_pair T f \<Longrightarrow> pair_of (dpop s f) (x_safe T) = pair_of s (x_safe T)"
  by (auto simp: pair_of_def dget_dpop is_pair_def)

lemma pair_put: "\<not> is_pair T f \<Longrightarrow> pair_of (dset s f c) (x_safe T) = pair_of s (x_safe T)"
  by (auto simp: pair_of_def dget_dset is_pair_def)

lemma inv_del:
  assumes wf: "wf_txn h T" and inv: "txn_inv h T s0 s" and f: "starts_with TXN_PREFIX f" "is_own T f \<longrightarrow> pair_settled T s"
  shows "txn_inv h T s0 (dpop s f)"
proof -
  have p: "pair_of (dpop s f) (x_safe T) = pair_of s (x_safe T)" by (rule pair_del[OF txn_not_pair[OF wf f(1)]])
  then have st: "pair_settled T (dpop s f) = pair_settled T s" by (simp add: pair_settled_def)
  have e: "elsewhere h T s0 (dpop s f)"
    using inv f(1) by (intro elsewhere_del) (auto simp: txn_inv_def voice_file_def)
  consider "quiet_journal h s (x_journal T)" "pair_settled T s"
    | "journalled h T s" "is_own T f" | "journalled h T s" "\<not> is_own T f" "pair_settled T s \<or> pair_of s (x_safe T) = x_mid T"
    using inv by (auto simp: txn_inv_def)
  then show ?thesis
  proof cases
    case 1
    then show ?thesis using e st harmless_dpop by (auto simp: txn_inv_def)
  next
    case 2
    then show ?thesis using e st own_del[OF wf 2] f(2) by (auto simp: txn_inv_def)
  next
    case 3
    then show ?thesis using e st p journalled_del by (auto simp: txn_inv_def)
  qed
qed

lemma inv_dels:
  assumes "wf_txn h T" and "txn_inv h T s0 s"
    and "\<forall>f \<in> set fs. starts_with TXN_PREFIX f \<and> (is_own T f \<longrightarrow> pair_settled T s)"
  shows "every_point (txn_inv h T s0) (map Del fs) s \<and>
    pair_of (run (map Del fs) s) (x_safe T) = pair_of s (x_safe T) \<and>
    (\<forall>n. quiet_journal h s n \<or> n \<in> set fs \<longrightarrow> quiet_journal h (run (map Del fs) s) n)"
  using assms(2,3)
proof (induction fs arbitrary: s)
  case Nil
  then show ?case by simp
next
  case (Cons f fs)
  have f: "starts_with TXN_PREFIX f" "is_own T f \<longrightarrow> pair_settled T s" using Cons.prems(2) by simp_all
  have p: "pair_of (dpop s f) (x_safe T) = pair_of s (x_safe T)" by (rule pair_del[OF txn_not_pair[OF assms(1) f(1)]])
  have inv: "txn_inv h T s0 (dpop s f)" by (rule inv_del[OF assms(1) Cons.prems(1) f])
  have h: "quiet_journal h (dpop s f) f"
    by (rule harmless_unreadable) (simp add: load_json_def dget_dpop)
  show ?case
  proof -
    have "pair_settled T (dpop s f) = pair_settled T s" using p by (simp add: pair_settled_def)
    then have "\<forall>g \<in> set fs. starts_with TXN_PREFIX g \<and> (is_own T g \<longrightarrow> pair_settled T (dpop s f))"
      using Cons.prems(2) by simp
    note ih = Cons.IH[OF inv this]
    then have "quiet_journal h (run (map Del fs) (dpop s f)) n" if "quiet_journal h s n \<or> n \<in> set (f # fs)" for n
      using that h harmless_dpop[of h s n f] by (auto simp only: set_simps)
    then show ?thesis using ih p Cons.prems(1) by simp
  qed
qed

subsection \<open>Recovering one journal\<close>

lemma cleanup_dels:
  assumes "host_ok h" and "starts_with TXN_PREFIX d" and "starts_with TXN_PREFIX n"
  shows "\<exists>fs. cleanup_transaction h s d n = map Del fs \<and> n \<in> set fs \<and>
    (\<forall>f \<in> set fs. starts_with TXN_PREFIX f \<and> (f = n \<or> f = d \<or> starts_with (d @ ''/'') f))"
proof -
  have c: "\<forall>f \<in> set (h_scan h (children s d)). starts_with (d @ ''/'') f \<and> starts_with TXN_PREFIX f"
    using assms by (auto simp: host_ok_def children_def starts_with_iff)
  show ?thesis
  proof (cases "dget s d = Some CDir")
    case True
    then show ?thesis using c assms(2,3)
      by (intro exI[of _ "h_scan h (children s d) @ [d, n]"]) (auto simp: cleanup_transaction_def remove_path_def)
  next
    case False
    then show ?thesis using assms(2,3)
      by (intro exI[of _ "[d, n]"]) (auto simp: cleanup_transaction_def remove_path_def)
  qed
qed

lemma harmless_recovery:
  assumes "host_ok h" and "quiet_journal h s n"
  shows "\<exists>fs. recover_one h s n = map Del fs \<and>
    (\<forall>f \<in> set fs. starts_with TXN_PREFIX f \<and>
       (f = n \<or> (\<exists>jr. read_journal h s n = Some jr \<and> dget s (jr_txdir jr) = Some CDir \<and>
         (f = jr_txdir jr \<or> starts_with (jr_txdir jr @ ''/'') f))))"
proof (cases "read_journal h s n")
  case None
  then show ?thesis by (simp add: recover_one_def recover_transaction_def)
next
  case (Some jr)
  note p = read_journal_txdir[OF Some]
  have "recover_one h s n = [] \<or>
    dget s (jr_txdir jr) = Some CDir \<and> recover_one h s n = cleanup_transaction h s (jr_txdir jr) n"
    using assms(2) by (auto simp: recover_one_def recover_transaction_def Some quiet_journal_def Let_def restore_or_remove_def
        files_equal_def split: if_splits)
  then show ?thesis
    using cleanup_dels[OF assms(1) p(1,3), of s] Some by (elim disjE exE conjE) auto
qed

lemma recover_other:
  assumes wf: "wf_txn h T" and inv: "txn_inv h T s0 s" and n: "is_journal_name n" "n \<noteq> x_journal T"
  shows "every_point (txn_inv h T s0) (recover_one h s n) s \<and>
    pair_of (run (recover_one h s n) s) (x_safe T) = pair_of s (x_safe T) \<and>
    (quiet_journal h s (x_journal T) \<longrightarrow> quiet_journal h (run (recover_one h s n) s) (x_journal T))"
proof -
  have hn: "quiet_journal h s n" "\<forall>jr. read_journal h s n = Some jr \<longrightarrow> jr_txdir jr \<noteq> x_dir T"
    using inv n by (auto simp: txn_inv_def elsewhere_def)
  have hok: "host_ok h" using wf by (simp add: wf_txn_def)
  obtain fs where fs: "recover_one h s n = map Del fs"
    "\<forall>f \<in> set fs. starts_with TXN_PREFIX f \<and>
       (f = n \<or> (\<exists>jr. read_journal h s n = Some jr \<and> dget s (jr_txdir jr) = Some CDir \<and>
          (f = jr_txdir jr \<or> starts_with (jr_txdir jr @ ''/'') f)))"
    using harmless_recovery[OF hok hn(1)] by blast
  have "pair_settled T s" if f: "f \<in> set fs" "is_own T f" for f
  proof (rule ccontr)
    assume "\<not> pair_settled T s"
    then have j: "journalled h T s" using inv by (auto simp: txn_inv_def)
    have "f \<noteq> n" using own_journal_name[OF wf n(1)] f(2) n(2) by auto
    then obtain jr where jr: "read_journal h s n = Some jr" "dget s (jr_txdir jr) = Some CDir"
      "f = jr_txdir jr \<or> starts_with (jr_txdir jr @ ''/'') f" using fs(2) f(1) by blast
    have d: "jr_txdir jr \<noteq> x_dir T" "jr_txdir jr \<noteq> x_journal T"
      using hn(2) jr(1,2) j by (auto simp: journalled_def journal_json_def)
    show False
      using jr(3)
    proof
      assume "f = jr_txdir jr"
      with f(2) d show False
        using read_journal_txdir(2)[OF jr(1)] by (auto simp: is_own_def starts_with_iff)
    next
      assume "starts_with (jr_txdir jr @ ''/'') f"
      from own_below[OF wf f(2) this read_journal_txdir(2)[OF jr(1)]] d(1) show False by simp
    qed
  qed
  then have "\<forall>f \<in> set fs. starts_with TXN_PREFIX f \<and> (is_own T f \<longrightarrow> pair_settled T s)" using fs(2) by blast
  from inv_dels[OF wf inv this] show ?thesis by (simp add: fs(1))
qed

subsubsection \<open>Putting a backup back\<close>

definition on_track :: "host \<Rightarrow> txn \<Rightarrow> fs \<Rightarrow> fs \<Rightarrow> bool" where
  "on_track h T s0 s = (elsewhere h T s0 s \<and> journalled h T s \<and> (pair_settled T s \<or> pair_of s (x_safe T) = x_mid T))"

lemma on_track_inv: "on_track h T s0 s \<Longrightarrow> txn_inv h T s0 s"
  by (auto simp: on_track_def txn_inv_def)

lemma pair_voice: "wf_txn h T \<Longrightarrow> is_pair T f \<Longrightarrow> voice_file f"
  by (auto simp: wf_txn_def safe_name_def is_pair_def)

lemma tmp_aside: "\<not> starts_with TXN_PREFIX (tmp_name h s)" "\<not> voice_file (tmp_name h s)"
  by (simp_all add: voice_file_def tmp_name_def TXN_PREFIX_def name_ends_def)

lemma on_track_put:
  assumes wf: "wf_txn h T" and "on_track h T s0 s"
    and f: "is_pair T f \<or> \<not> starts_with TXN_PREFIX f \<and> \<not> voice_file f"
    and p: "pair_settled T (dset s f c) \<or> pair_of (dset s f c) (x_safe T) = x_mid T"
  shows "on_track h T s0 (dset s f c)"
proof -
  have o: "\<not> is_own T f" using f pair_voice[OF wf, of f] own_not_voice own_txn by blast
  then have "f \<noteq> x_journal T" by auto
  then show ?thesis using assms o elsewhere_put[OF _ wf, of s0 s f c] journalled_put[of h T s f c]
    by (auto simp: on_track_def)
qed

lemma on_track_del_pair:
  assumes wf: "wf_txn h T" and "on_track h T s0 s" and f: "is_pair T f"
    and p: "pair_settled T (dpop s f) \<or> pair_of (dpop s f) (x_safe T) = x_mid T"
  shows "on_track h T s0 (dpop s f)"
proof -
  have o: "\<not> is_own T f" using f pair_voice[OF wf, of f] own_not_voice by blast
  then show ?thesis using assms elsewhere_del[of h T s0 s f] journalled_del[of h T s f]
    by (auto simp: on_track_def)
qed

lemma on_track_move:
  assumes wf: "wf_txn h T" and t: "on_track h T s0 s" and f: "\<not> starts_with TXN_PREFIX f" "\<not> voice_file f"
    and c: "dget s f = Some c" and g: "is_pair T g"
    and p: "pair_settled T (dset s g c) \<or> pair_of (dset s g c) (x_safe T) = x_mid T"
  shows "on_track h T s0 (exec_instr s (Ren f g))"
proof -
  have np: "\<not> is_pair T f" using f(2) pair_voice[OF wf] by blast
  have no: "\<not> is_own T f" using f(1) own_txn by blast
  have same: "pair_of (dpop s f) (x_safe T) = pair_of s (x_safe T)" by (rule pair_del[OF np])
  have 1: "on_track h T s0 (dpop s f)"
    using t f(2) no same elsewhere_del[of h T s0 s f] journalled_del[of h T s f]
    by (auto simp: on_track_def pair_settled_def)
  have "pair_of (dset (dpop s f) g c) (x_safe T) = pair_of (dset s g c) (x_safe T)"
    using np by (auto simp: pair_of_def dget_dset dget_dpop is_pair_def)
  with p have "pair_settled T (dset (dpop s f) g c) \<or> pair_of (dset (dpop s f) g c) (x_safe T) = x_mid T"
    by (simp add: pair_settled_def)
  from on_track_put[OF wf 1 _ this] g show ?thesis by (simp add: c)
qed

lemma on_track_tmp:
  assumes wf: "wf_txn h T" and t: "on_track h T s0 s" and f: "\<not> starts_with TXN_PREFIX f" "\<not> voice_file f"
  shows "on_track h T s0 (dset s f c)" "pair_of (dset s f c) (x_safe T) = pair_of s (x_safe T)"
proof -
  have "\<not> is_pair T f" using f(2) pair_voice[OF wf] by blast
  then show p: "pair_of (dset s f c) (x_safe T) = pair_of s (x_safe T)" by (rule pair_put)
  show "on_track h T s0 (dset s f c)"
    using t p f by (intro on_track_put[OF wf t]) (auto simp: on_track_def pair_settled_def)
qed

lemma restore_points:
  assumes wf: "wf_txn h T" and t: "on_track h T s0 s" and b: "dget s1 src = Some c" and g: "is_pair T g"
    and p: "pair_settled T (dset s g c) \<or> pair_of (dset s g c) (x_safe T) = x_mid T"
  shows "every_point (txn_inv h T s0) (restore_from_file h s1 src g) s \<and>
    on_track h T s0 (run (restore_from_file h s1 src g) s) \<and>
    pair_of (run (restore_from_file h s1 src g) s) (x_safe T) = pair_of (dset s g c) (x_safe T)"
proof -
  let ?t = "tmp_name h s1" and ?a = "dset s (tmp_name h s1) (CBytes [])"
  let ?b = "dset ?a ?t c"
  note aside = tmp_aside[of h s1]
  note a = on_track_tmp[OF wf t aside, of "CBytes []"]
  note b' = on_track_tmp[OF wf a(1) aside, of c]
  have np: "\<not> is_pair T ?t" using aside(2) pair_voice[OF wf] by blast
  have q: "pair_of (dset ?b g c) (x_safe T) = pair_of (dset s g c) (x_safe T)"
    using np by (auto simp: pair_of_def dget_dset is_pair_def)
  with p have "pair_settled T (dset ?b g c) \<or> pair_of (dset ?b g c) (x_safe T) = x_mid T" by (simp add: pair_settled_def)
  from on_track_move[OF wf b'(1) aside _ g this] have m: "on_track h T s0 (exec_instr ?b (Ren ?t g))"
    by (simp add: dget_dset)
  have r: "pair_of (exec_instr ?b (Ren ?t g)) (x_safe T) = pair_of (dset s g c) (x_safe T)"
    using np by (auto simp: pair_of_def dget_dset dget_dpop is_pair_def)
  have prog: "restore_from_file h s1 src g = [Put ?t (CBytes []), Put ?t c, Ren ?t g]"
    by (simp add: restore_from_file_def put_file_def b)
  show ?thesis
    using on_track_inv[OF t] on_track_inv[OF a(1)] on_track_inv[OF b'(1)] on_track_inv[OF m] m r
    by (simp add: prog del: exec_instr.simps(3))
qed

lemma own_cleanup:
  fixes s1 :: fs
  assumes wf: "wf_txn h T" and inv: "txn_inv h T s0 s" and st: "pair_settled T s"
  defines "p \<equiv> cleanup_transaction h s1 (x_dir T) (x_journal T)"
  shows "every_point (txn_inv h T s0) p s \<and> quiet_journal h (run p s) (x_journal T) \<and>
    pair_of (run p s) (x_safe T) = pair_of s (x_safe T)"
proof -
  have hok: "host_ok h" using wf by (simp add: wf_txn_def)
  obtain fs where fs: "p = map Del fs" "x_journal T \<in> set fs" "\<forall>f \<in> set fs. starts_with TXN_PREFIX f"
    using cleanup_dels[OF hok, of "x_dir T" "x_journal T" s1] unfolding p_def by auto
  then have "\<forall>f \<in> set fs. starts_with TXN_PREFIX f \<and> (is_own T f \<longrightarrow> pair_settled T s)" using st by simp
  from inv_dels[OF wf inv this] show ?thesis using fs by simp
qed

lemma has_token_iff_new:
  assumes wf: "wf_txn h T" and op: "x_op T = ''write''" and p: "pair_settled T s \<or> pair_of s (x_safe T) = x_mid T"
  shows "pair_has_token h s (json_name (x_safe T)) (npz_name (x_safe T)) (x_tok T) \<longleftrightarrow> pair_of s (x_safe T) = x_new T"
proof -
  obtain j z where new: "x_new T = (Some (marked_json (x_tok T) j), Some (marked_npz (x_tok T) z))"
    and mid: "x_mid T = (fst (x_old T), snd (x_new T))"
    and old: "\<forall>d. fst (x_old T) = Some (CText (JObj d)) \<longrightarrow> json_pair_token h (Some d) \<noteq> Some (x_tok T)"
    using wf op by (auto simp: wf_txn_def)
  show ?thesis
  proof
    assume "pair_of s (x_safe T) = x_new T"
    then show "pair_has_token h s (json_name (x_safe T)) (npz_name (x_safe T)) (x_tok T)"
      by (simp add: pair_of_def new pair_has_token_def load_json_def np_load_def marked_json_def marked_npz_def
          json_pair_token_def npz_pair_token_def jget_def dget_dset cell_str_def)
  next
    assume t: "pair_has_token h s (json_name (x_safe T)) (npz_name (x_safe T)) (x_tok T)"
    have "dget s (json_name (x_safe T)) \<noteq> fst (x_old T)"
    proof
      assume "dget s (json_name (x_safe T)) = fst (x_old T)"
      with t old show False
        by (auto simp: pair_has_token_def load_json_def json_pair_token_def split: option.splits content.splits json.splits)
    qed
    then have "pair_of s (x_safe T) \<noteq> x_old T" "pair_of s (x_safe T) \<noteq> x_mid T"
      using mid by (metis pair_of_def fst_conv)+
    then show "pair_of s (x_safe T) = x_new T" using p by (simp add: pair_settled_def)
  qed
qed

lemma pair_dset:
  "pair_of (dset s (json_name (x_safe T)) c) (x_safe T) = (Some c, snd (pair_of s (x_safe T)))"
  "pair_of (dset s (npz_name (x_safe T)) c) (x_safe T) = (fst (pair_of s (x_safe T)), Some c)"
  by (simp_all add: pair_of_def dget_dset)

lemma pair_dpop:
  "pair_of (dpop s (json_name (x_safe T))) (x_safe T) = (None, snd (pair_of s (x_safe T)))"
  "pair_of (dpop s (npz_name (x_safe T))) (x_safe T) = (fst (pair_of s (x_safe T)), None)"
  by (simp_all add: pair_of_def dget_dpop)

lemma roll_back:
  assumes wf: "wf_txn h T" and t: "on_track h T s0 s" and p: "pair_of s (x_safe T) \<in> {x_old T, x_mid T}"
    and r: "restore_or_remove h s \<lparr>jr_op = JStr (x_op T), jr_token = x_tok T, jr_txdir = x_dir T, jr_json = json_name (x_safe T),
          jr_npz = npz_name (x_safe T), jr_old = x_present T\<rparr> (x_journal T) = r"
  shows "\<exists>prog. r = Inr prog \<and> every_point (txn_inv h T s0) prog s \<and> quiet_journal h (run prog s) (x_journal T) \<and>
    pair_of (run prog s) (x_safe T) = x_old T"
proof (cases "x_present T")
  case True
  then obtain oj on where old: "x_old T = (Some oj, Some on)" and plain: "plain_file (Some oj)" "plain_file (Some on)"
    using wf_present[OF wf True] by (cases "x_old T") (auto simp: plain_file_def)
  have b: "dget s (old_json (x_dir T)) = Some oj" "dget s (old_npz (x_dir T)) = Some on"
    using t True old by (auto simp: on_track_def journalled_def)
  have files: "is_file s (old_json (x_dir T))" "is_file s (old_npz (x_dir T))"
    using plain_is_file[OF b(1) plain(1)] plain_is_file[OF b(2) plain(2)] by simp_all
  have pj: "is_pair T (json_name (x_safe T))" and pn: "is_pair T (npz_name (x_safe T))" by (simp_all add: is_pair_def)
  let ?r1 = "restore_from_file h s (old_json (x_dir T)) (json_name (x_safe T))"
  let ?r2 = "restore_from_file h s (old_npz (x_dir T)) (npz_name (x_safe T))"
  have m: "x_mid T = (Some oj, snd (x_new T)) \<or> x_mid T = (None, Some on)"
    using wf old by (auto simp: wf_txn_def split: if_splits)
  have first: "pair_of (dset s (json_name (x_safe T)) oj) (x_safe T) \<in> {x_old T, x_mid T}"
    using p m old by (auto simp: pair_dset)
  then have "pair_settled T (dset s (json_name (x_safe T)) oj) \<or> pair_of (dset s (json_name (x_safe T)) oj) (x_safe T) = x_mid T"
    by (auto simp: pair_settled_def)
  note 1 = restore_points[OF wf t b(1) pj this]
  have fst1: "fst (pair_of (run ?r1 s) (x_safe T)) = Some oj" using 1 by (simp add: pair_dset)
  have second: "pair_of (dset (run ?r1 s) (npz_name (x_safe T)) on) (x_safe T) = x_old T"
    using fst1 old by (simp add: pair_dset)
  then have "pair_settled T (dset (run ?r1 s) (npz_name (x_safe T)) on) \<or>
      pair_of (dset (run ?r1 s) (npz_name (x_safe T)) on) (x_safe T) = x_mid T" by (simp add: pair_settled_def)
  note 2 = restore_points[OF wf _ b(2) pn this]
  have t2: "on_track h T s0 (run ?r2 (run ?r1 s))" and p2: "pair_of (run ?r2 (run ?r1 s)) (x_safe T) = x_old T"
    and e2: "every_point (txn_inv h T s0) ?r2 (run ?r1 s)" using 1 2 second by auto
  have "pair_settled T (run ?r2 (run ?r1 s))" using p2 by (simp add: pair_settled_def)
  note 3 = own_cleanup[OF wf on_track_inv[OF t2] this, of s]
  have "r = Inr (?r1 @ ?r2 @ cleanup_transaction h s (x_dir T) (x_journal T))"
    using True files by (simp add: restore_or_remove_def Let_def flip: r)
  then show ?thesis using 1 e2 3 p2 by simp
next
  case False
  then have old: "x_old T = (None, None)" and m: "x_mid T = (None, snd (x_new T))"
    using wf by (auto simp: wf_txn_def split: if_splits)
  let ?s1 = "dpop s (json_name (x_safe T))" let ?s2 = "dpop ?s1 (npz_name (x_safe T))"
  have p1: "pair_of ?s1 (x_safe T) \<in> {x_old T, x_mid T}" using p old m by (auto simp: pair_dpop)
  have p2: "pair_of ?s2 (x_safe T) = x_old T" using old by (simp add: pair_dpop)
  have t1: "on_track h T s0 ?s1"
    using p1 by (intro on_track_del_pair[OF wf t]) (auto simp: is_pair_def pair_settled_def)
  have t2: "on_track h T s0 ?s2"
    using p2 by (intro on_track_del_pair[OF wf t1]) (auto simp: is_pair_def pair_settled_def)
  have "pair_settled T ?s2" using p2 by (simp add: pair_settled_def)
  note 3 = own_cleanup[OF wf on_track_inv[OF t2] this, of s]
  have "r = Inr ([Del (json_name (x_safe T)), Del (npz_name (x_safe T))] @ cleanup_transaction h s (x_dir T) (x_journal T))"
    using False by (simp add: restore_or_remove_def Let_def flip: r)
  then show ?thesis using 3 p2 on_track_inv[OF t] on_track_inv[OF t1] on_track_inv[OF t2] by simp
qed

lemma old_complete_iff:
  assumes wf: "wf_txn h T" and j: "journalled h T s"
  shows "(if x_present T
          then files_equal s (json_name (x_safe T)) (old_json (x_dir T)) \<and> files_equal s (npz_name (x_safe T)) (old_npz (x_dir T))
          else \<not> file_exists s (json_name (x_safe T)) \<and> \<not> file_exists s (npz_name (x_safe T))) \<longleftrightarrow>
    pair_of s (x_safe T) = x_old T"
proof (cases "x_present T")
  case True
  have b: "dget s (old_json (x_dir T)) = fst (x_old T)" "dget s (old_npz (x_dir T)) = snd (x_old T)"
    using j True by (auto simp: journalled_def)
  have eq: "files_equal s f g \<longleftrightarrow> dget s f = c" if "dget s g = c" "plain_file c" for f g c
    using that plain_is_file[of s] by (auto simp: files_equal_def)
  show ?thesis
    using True eq[OF b(1)] eq[OF b(2)] wf_present[OF wf True] by (cases "x_old T") (auto simp: pair_of_def)
next
  case False
  then have "x_old T = (None, None)" using wf by (auto simp: wf_txn_def split: if_splits)
  then show ?thesis using False by (simp add: file_exists_def pair_of_def)
qed

lemma recover_own:
  assumes wf: "wf_txn h T" and inv: "txn_inv h T s0 s"
  shows "every_point (txn_inv h T s0) (recover_one h s (x_journal T)) s \<and>
    quiet_journal h (run (recover_one h s (x_journal T)) s) (x_journal T) \<and>
    pair_of (run (recover_one h s (x_journal T)) s) (x_safe T) =
      (if pair_of s (x_safe T) = x_new T then x_new T else x_old T)"
proof (cases "journalled h T s")
  case False
  then have hl: "quiet_journal h s (x_journal T)" and st: "pair_settled T s" using inv by (auto simp: txn_inv_def)
  have hok: "host_ok h" using wf by (simp add: wf_txn_def)
  obtain fs where fs: "recover_one h s (x_journal T) = map Del fs" "\<forall>f \<in> set fs. starts_with TXN_PREFIX f"
    using harmless_recovery[OF hok hl] by blast
  then have "\<forall>f \<in> set fs. starts_with TXN_PREFIX f \<and> (is_own T f \<longrightarrow> pair_settled T s)" using st by simp
  from inv_dels[OF wf inv this] show ?thesis using fs hl st by (auto simp: pair_settled_def)
next
  case True
  let ?P = "pair_of s (x_safe T)"
  have t: "on_track h T s0 s"
    using inv True journalled_harmful[OF wf True] by (auto simp: txn_inv_def on_track_def)
  have d: "dget s (x_dir T) = Some CDir" using True by (simp add: journalled_def)
  let ?jr = "\<lparr>jr_op = JStr (x_op T), jr_token = x_tok T, jr_txdir = x_dir T, jr_json = json_name (x_safe T),
          jr_npz = npz_name (x_safe T), jr_old = x_present T\<rparr>"
  have P: "pair_settled T s \<or> ?P = x_mid T" using t by (simp add: on_track_def)
  have "recover_transaction h s (x_journal T) = Inr (cleanup_transaction h s (x_dir T) (x_journal T)) \<and> pair_settled T s \<or>
    recover_transaction h s (x_journal T) = restore_or_remove h s ?jr (x_journal T) \<and> ?P \<in> {x_old T, x_mid T} \<and> ?P \<noteq> x_new T"
  proof (cases "x_op T = ''write''")
    case True
    then show ?thesis
      using P has_token_iff_new[OF wf True P] old_complete_iff[OF wf \<open>journalled h T s\<close>] d
      by (auto simp: recover_transaction_def read_own[OF wf \<open>journalled h T s\<close>] pair_settled_def Let_def)
  next
    case False
    then have op: "x_op T = ''delete''" "x_new T = (None, None)" using wf by (auto simp: wf_txn_def)
    have "\<not> file_exists s (json_name (x_safe T)) \<and> \<not> file_exists s (npz_name (x_safe T)) \<longleftrightarrow> ?P = x_new T"
      by (simp add: file_exists_def pair_of_def op)
    then show ?thesis using P op d
      by (auto simp: recover_transaction_def read_own[OF wf \<open>journalled h T s\<close>] pair_settled_def Let_def)
  qed
  then show ?thesis
  proof (elim disjE conjE)
    assume "recover_transaction h s (x_journal T) = Inr (cleanup_transaction h s (x_dir T) (x_journal T))" "pair_settled T s"
    then show ?thesis using own_cleanup[OF wf inv, of s] by (auto simp: recover_one_def pair_settled_def)
  next
    assume r: "recover_transaction h s (x_journal T) = restore_or_remove h s ?jr (x_journal T)"
      "?P \<in> {x_old T, x_mid T}" "?P \<noteq> x_new T"
    from roll_back[OF wf t r(2) refl] show ?thesis using r by (auto simp: recover_one_def)
  qed
qed

subsection \<open>One pass of recovery\<close>

definition pair_outcome :: "txn \<Rightarrow> fs \<Rightarrow> content option \<times> content option" where
  "pair_outcome T s = (if pair_of s (x_safe T) = x_new T then x_new T else x_old T)"

lemma settled_outcome: "pair_settled T s \<Longrightarrow> pair_of s (x_safe T) = pair_outcome T s"
  by (auto simp: pair_settled_def pair_outcome_def)

lemma inv_settled: "wf_txn h T \<Longrightarrow> txn_inv h T s0 s \<Longrightarrow> quiet_journal h s (x_journal T) \<Longrightarrow> pair_settled T s"
  using journalled_harmful by (auto simp: txn_inv_def)

lemma sweep_journals:
  assumes wf: "wf_txn h T" and "txn_inv h T s0 s" and "\<forall>n \<in> set ns. is_journal_name n"
  shows "every_point (txn_inv h T s0) (sweep (recover_one h) s ns) s \<and>
    pair_outcome T (run (sweep (recover_one h) s ns) s) = pair_outcome T s \<and>
    (quiet_journal h s (x_journal T) \<or> x_journal T \<in> set ns \<longrightarrow> quiet_journal h (run (sweep (recover_one h) s ns) s) (x_journal T))"
  using assms(2,3)
proof (induction ns arbitrary: s)
  case Nil
  then show ?case by simp
next
  case (Cons n ns)
  let ?s = "run (recover_one h s n) s"
  have one: "every_point (txn_inv h T s0) (recover_one h s n) s \<and> pair_outcome T ?s = pair_outcome T s \<and>
    (quiet_journal h s (x_journal T) \<or> n = x_journal T \<longrightarrow> quiet_journal h ?s (x_journal T))"
  proof (cases "n = x_journal T")
    case True
    then show ?thesis using recover_own[OF wf Cons.prems(1)] by (auto simp: pair_outcome_def)
  next
    case False
    then show ?thesis using recover_other[OF wf Cons.prems(1) _ False] Cons.prems(2) by (auto simp: pair_outcome_def)
  qed
  then have "txn_inv h T s0 ?s" by (blast dest: every_point_end)
  from Cons.IH[OF this] Cons.prems(2) one show ?case by auto
qed

lemma sweep_orphans:
  assumes wf: "wf_txn h T" and "txn_inv h T s0 s" and "quiet_journal h s (x_journal T)" and "\<forall>n \<in> set ns. is_txn_name n"
  shows "every_point (txn_inv h T s0) (sweep (remove_orphan h) s ns) s \<and>
    pair_of (run (sweep (remove_orphan h) s ns) s) (x_safe T) = pair_of s (x_safe T) \<and>
    quiet_journal h (run (sweep (remove_orphan h) s ns) s) (x_journal T)"
  using assms(2,3,4)
proof (induction ns arbitrary: s)
  case Nil
  then show ?case by simp
next
  case (Cons n ns)
  have hok: "host_ok h" using wf by (simp add: wf_txn_def)
  have n: "starts_with TXN_PREFIX n" using Cons.prems(3) by (simp add: is_txn_name_def)
  have "\<exists>fs. remove_orphan h s n = map Del fs \<and> (\<forall>f \<in> set fs. starts_with TXN_PREFIX f)"
  proof (cases "remove_orphan h s n = []")
    case False
    have "\<forall>f \<in> set (h_scan h (children s n)). starts_with TXN_PREFIX f"
      using hok n by (auto simp: host_ok_def children_def starts_with_iff)
    with False n show ?thesis
      by (intro exI[of _ "h_scan h (children s n) @ [n]"]) (auto simp: remove_orphan_def remove_path_def split: if_splits)
  qed simp
  then obtain fs where fs: "remove_orphan h s n = map Del fs" "\<forall>f \<in> set fs. starts_with TXN_PREFIX f" by blast
  have st: "pair_settled T s" by (rule inv_settled[OF wf Cons.prems(1,2)])
  with fs(2) have "\<forall>f \<in> set fs. starts_with TXN_PREFIX f \<and> (is_own T f \<longrightarrow> pair_settled T s)" by simp
  note one = inv_dels[OF wf Cons.prems(1) this]
  then have "txn_inv h T s0 (run (map Del fs) s)" "quiet_journal h (run (map Del fs) s) (x_journal T)"
    using Cons.prems(2) by (blast dest: every_point_end)+
  from Cons.IH[OF this] Cons.prems(3) one show ?case by (simp add: fs(1))
qed

lemma recovery_points:
  assumes wf: "wf_txn h T" and inv: "txn_inv h T s0 s"
  shows "every_point (txn_inv h T s0) (recovery h s) s" and "pair_of (recover_transactions h s) (x_safe T) = pair_outcome T s"
    and "quiet_journal h (recover_transactions h s) (x_journal T)"
proof -
  let ?p = "sweep (recover_one h) s (journals s)"
  have js: "\<forall>n \<in> set (journals s). is_journal_name n" by (simp add: journals_def)
  have "quiet_journal h s (x_journal T) \<or> x_journal T \<in> set (journals s)"
  proof (cases "x_journal T \<in> set (keys s)")
    case True
    then show ?thesis using wf_journal_name[OF wf] by (simp add: journals_def)
  next
    case False
    then have "quiet_journal h s (x_journal T)"
      by (intro harmless_unreadable) (simp add: load_json_def dget_None_iff[symmetric])
    then show ?thesis by simp
  qed
  with sweep_journals[OF wf inv js]
  have 1: "every_point (txn_inv h T s0) ?p s" "pair_outcome T (run ?p s) = pair_outcome T s" "quiet_journal h (run ?p s) (x_journal T)"
    by blast+
  have hok: "host_ok h" using wf by (simp add: wf_txn_def)
  then have ns: "\<forall>n \<in> set (h_scan h (filter is_txn_name (keys (run ?p s)))). is_txn_name n" by (simp add: host_ok_def)
  note inv1 = every_point_end[OF 1(1)]
  note 2 = sweep_orphans[OF wf inv1 1(3) ns]
  have "pair_of (run ?p s) (x_safe T) = pair_outcome T s"
    using settled_outcome[OF inv_settled[OF wf inv1 1(3)]] 1(2) by simp
  then show "every_point (txn_inv h T s0) (recovery h s) s" "pair_of (recover_transactions h s) (x_safe T) = pair_outcome T s"
    "quiet_journal h (recover_transactions h s) (x_journal T)"
    using 1 2 by (simp_all add: recovery_def recover_transactions_def Let_def)
qed

text \<open>Recoveries that are cut after \<open>k\<close> instructions, for each \<open>k\<close> in a list.\<close>

definition cut_recoveries :: "host \<Rightarrow> nat list \<Rightarrow> fs \<Rightarrow> fs" where
  "cut_recoveries h ks s = foldl (\<lambda>s k. run (take k (recovery h s)) s) s ks"

lemma cut_recoveries_inv:
  assumes "wf_txn h T" and "txn_inv h T s0 s"
  shows "txn_inv h T s0 (cut_recoveries h ks s)"
  using assms(2)
proof (induction ks arbitrary: s)
  case (Cons k ks)
  from every_pointD[OF recovery_points(1)[OF assms(1) Cons.prems], of k] Cons.IH show ?case
    by (simp add: cut_recoveries_def)
qed (simp add: cut_recoveries_def)

lemma recovered:
  assumes wf: "wf_txn h T" and inv: "txn_inv h T s0 s"
  defines "r \<equiv> recover_transactions h s"
  shows "pair_of r (x_safe T) \<in> {x_old T, x_new T}" "resting h r"
    "\<And>f. voice_file f \<Longrightarrow> \<not> is_pair T f \<Longrightarrow> dget r f = dget s0 f"
proof -
  show "pair_of r (x_safe T) \<in> {x_old T, x_new T}"
    using recovery_points(2)[OF wf inv] by (simp add: r_def pair_outcome_def)
  have e: "elsewhere h T s0 r"
    using every_point_end[OF recovery_points(1)[OF wf inv]] by (simp add: r_def recover_transactions_def txn_inv_def)
  then show "\<And>f. voice_file f \<Longrightarrow> \<not> is_pair T f \<Longrightarrow> dget r f = dget s0 f" by (simp add: elsewhere_def)
  show "resting h r"
    using e recovery_points(3)[OF wf inv] by (auto simp: resting_iff elsewhere_def r_def)
qed

subsection \<open>The two transactions\<close>

datatype voice_op = WriteVoice jdict npz | DeleteVoice

definition op_prepare :: "host \<Rightarrow> fs \<Rightarrow> string \<Rightarrow> string \<Rightarrow> voice_op \<Rightarrow> instr list" where
  "op_prepare h s t safe op =
     (case op of WriteVoice j z \<Rightarrow> write_prepare h s t safe j z | DeleteVoice \<Rightarrow> delete_prepare h s t safe)"

definition op_commit :: "string \<Rightarrow> string \<Rightarrow> voice_op \<Rightarrow> instr list" where
  "op_commit t safe op = (case op of WriteVoice _ _ \<Rightarrow> write_commit t safe | DeleteVoice \<Rightarrow> delete_commit safe)"

definition op_prog :: "host \<Rightarrow> fs \<Rightarrow> string \<Rightarrow> string \<Rightarrow> voice_op \<Rightarrow> instr list" where
  "op_prog h s t safe op = txn_prog h s t (op_prepare h s t safe op) (op_commit t safe op)"

definition atomic_op :: "host \<Rightarrow> nat option \<Rightarrow> string \<Rightarrow> string \<Rightarrow> voice_op \<Rightarrow> fs \<Rightarrow> bool \<times> fs" where
  "atomic_op h fault t safe op s =
     (case op of WriteVoice j z \<Rightarrow> atomic_write_pair h fault t safe j z s | DeleteVoice \<Rightarrow> atomic_delete_pair h fault t safe s)"

text \<open>The pair the operation is to leave.\<close>

definition op_pair :: "string \<Rightarrow> voice_op \<Rightarrow> content option \<times> content option" where
  "op_pair t op =
     (case op of WriteVoice j z \<Rightarrow> (Some (marked_json t j), Some (marked_npz t z)) | DeleteVoice \<Rightarrow> (None, None))"

text \<open>
  What both operations have made sure of before they start: no half pair, and a deleted voice exists.
\<close>

definition pair_intact :: "fs \<Rightarrow> string \<Rightarrow> voice_op \<Rightarrow> bool" where
  "pair_intact s safe op =
     (is_file s (json_name safe) \<and> is_file s (npz_name safe) \<or>
      op \<noteq> DeleteVoice \<and> \<not> file_exists s (json_name safe) \<and> \<not> file_exists s (npz_name safe))"

definition op_ready :: "host \<Rightarrow> fs \<Rightarrow> string \<Rightarrow> string \<Rightarrow> voice_op \<Rightarrow> bool" where
  "op_ready h s t safe op =
     (host_ok h \<and> safe_name safe \<and> resting h s \<and> fresh_token h s t safe \<and> pair_intact s safe op)"

definition view :: "fs \<Rightarrow> string \<Rightarrow> string \<Rightarrow> voice_op \<Rightarrow> txn" where
  "view s t safe op =
     \<lparr>x_op = (if op = DeleteVoice then ''delete'' else ''write''), x_tok = t, x_safe = safe, x_old = pair_of s safe,
      x_mid = (if op = DeleteVoice then (None, snd (pair_of s safe)) else (fst (pair_of s safe), snd (op_pair t op))),
      x_new = op_pair t op\<rparr>"

lemma view_simps [simp]:
  "x_tok (view s t safe op) = t" "x_safe (view s t safe op) = safe" "x_old (view s t safe op) = pair_of s safe"
  "x_new (view s t safe op) = op_pair t op"
  by (simp_all add: view_def)

lemma is_file_plain: "is_file s f \<longleftrightarrow> plain_file (dget s f)"
  by (auto simp: is_file_def plain_file_def split: option.splits content.splits)

lemma wf_view:
  assumes "op_ready h s t safe op"
  shows "wf_txn h (view s t safe op)"
proof -
  have tok: "json_pair_token h (Some d) \<noteq> Some t" if "dget s (json_name safe) = Some (CText (JObj d))" for d
    using assms that by (auto simp: op_ready_def fresh_token_def load_json_def)
  have pr: "(if fst (pair_of s safe) \<noteq> None then plain_file (fst (pair_of s safe)) \<and> plain_file (snd (pair_of s safe))
      else pair_of s safe = (None, None))" and del: "op = DeleteVoice \<Longrightarrow> fst (pair_of s safe) \<noteq> None"
    using assms by (auto simp: op_ready_def pair_intact_def is_file_plain pair_of_def file_exists_def plain_file_def)
  have "host_ok h" "safe_name safe" "t \<noteq> []" "list_all (\<lambda>c. c \<in> set ''0123456789abcdef'') t"
    using assms by (simp_all add: op_ready_def fresh_token_def)
  then show ?thesis
    using pr del tok by (cases op) (auto simp: wf_txn_def view_def op_pair_def pair_of_def)
qed

definition staged :: "host \<Rightarrow> txn \<Rightarrow> fs \<Rightarrow> fs \<Rightarrow> bool" where
  "staged h T s0 s = (elsewhere h T s0 s \<and> pair_of s (x_safe T) = x_old T \<and> load_json s (x_journal T) = None)"

lemma staged_inv: "staged h T s0 s \<Longrightarrow> txn_inv h T s0 s"
  by (auto simp: staged_def txn_inv_def pair_settled_def harmless_unreadable)

lemma ready_staged:
  assumes "op_ready h s t safe op"
  shows "staged h (view s t safe op) s s"
proof -
  have fr: "fresh_token h s t safe" and rest: "resting h s" using assms by (simp_all add: op_ready_def)
  have "TXN_PREFIX @ t @ ''.json'' \<notin> set (keys s)"
    using fr by (auto simp: fresh_token_def list_all_iff starts_with_iff)
  then have none: "load_json s (TXN_PREFIX @ t @ ''.json'') = None" by (simp add: load_json_def dget_None_iff[symmetric])
  have dirs: "jr_txdir jr \<noteq> TXN_PREFIX @ t" if n: "is_journal_name n" "read_journal h s n = Some jr" for n jr
  proof -
    have "dget s n \<noteq> None" using n(2) by (cases "dget s n") (auto simp: read_journal_None load_json_def)
    then have "n \<in> set (journals s)" using n(1) by (simp add: journals_def dget_None_iff)
    moreover have "\<forall>n \<in> set (journals s). case read_journal h s n of None \<Rightarrow> True | Some jr \<Rightarrow> jr_txdir jr \<noteq> TXN_PREFIX @ t"
      using fr by (simp add: fresh_token_def list_all_iff)
    ultimately have "case read_journal h s n of None \<Rightarrow> True | Some jr \<Rightarrow> jr_txdir jr \<noteq> TXN_PREFIX @ t" by blast
    with n(2) show ?thesis by simp
  qed
  have "elsewhere h (view s t safe op) s s"
    unfolding elsewhere_def using rest dirs by (auto simp only: resting_iff view_simps)
  with none show ?thesis by (simp add: staged_def)
qed

lemma staged_put:
  assumes "wf_txn h T" and "staged h T s0 s" and f: "is_own T f" and c: "f = x_journal T \<longrightarrow> c = CBytes []"
  shows "staged h T s0 (dset s f c)"
proof -
  have "\<not> is_pair T f" using f pair_voice[OF assms(1)] own_not_voice by blast
  moreover have "elsewhere h T s0 (dset s f c)"
    using assms by (intro elsewhere_put) (auto simp: staged_def)
  ultimately show ?thesis using assms(2) c pair_put
    by (auto simp: staged_def load_json_def dget_dset)
qed

lemma staged_points:
  assumes wf: "wf_txn h T" and "staged h T s0 s"
    and "\<forall>i \<in> set p. \<exists>f c. i = Put f c \<and> is_own T f \<and> (f = x_journal T \<longrightarrow> c = CBytes [])"
  shows "every_point (staged h T s0) p s"
  using assms(2,3)
proof (induction p arbitrary: s)
  case (Cons i p)
  then obtain f c where i: "i = Put f c" "is_own T f" "f = x_journal T \<longrightarrow> c = CBytes []" by auto
  from Cons.IH[OF staged_put[OF wf Cons.prems(1) i(2,3)]] Cons.prems i(1) show ?case by simp
qed simp

lemma every_point_mono: "every_point I p s \<Longrightarrow> (\<And>s. I s \<Longrightarrow> J s) \<Longrightarrow> every_point J p s"
  by (simp add: every_point_def)

subsubsection \<open>Up to the journal\<close>

lemma path_neq [simp]:
  "old_json d \<noteq> d" "old_npz d \<noteq> d" "new_json d \<noteq> d" "new_npz d \<noteq> d"
  "d \<noteq> old_json d" "d \<noteq> old_npz d" "d \<noteq> new_json d" "d \<noteq> new_npz d"
  "new_json d \<noteq> new_npz d" "new_npz d \<noteq> new_json d" "new_json d \<noteq> old_json d" "old_json d \<noteq> new_json d"
  "new_json d \<noteq> old_npz d" "old_npz d \<noteq> new_json d" "new_npz d \<noteq> old_json d" "old_json d \<noteq> new_npz d"
  "new_npz d \<noteq> old_npz d" "old_npz d \<noteq> new_npz d"
  by (simp_all add: old_json_def old_npz_def new_json_def new_npz_def)

lemma journal_path_neq [simp]:
  "d @ ''.json'' \<noteq> old_json d" "d @ ''.json'' \<noteq> old_npz d" "d @ ''.json'' \<noteq> new_json d" "d @ ''.json'' \<noteq> new_npz d"
  "d @ ''.json'' \<noteq> d"
  "old_json d \<noteq> d @ ''.json''" "old_npz d \<noteq> d @ ''.json''" "new_json d \<noteq> d @ ''.json''" "new_npz d \<noteq> d @ ''.json''"
  "d \<noteq> d @ ''.json''"
  by (simp_all add: old_json_def old_npz_def new_json_def new_npz_def)

lemma journal_path_neq_assoc [simp]:
  "p @ t @ ''.json'' \<noteq> old_json (p @ t)" "p @ t @ ''.json'' \<noteq> old_npz (p @ t)" "p @ t @ ''.json'' \<noteq> new_json (p @ t)"
  "p @ t @ ''.json'' \<noteq> new_npz (p @ t)"
  "old_json (p @ t) \<noteq> p @ t @ ''.json''" "old_npz (p @ t) \<noteq> p @ t @ ''.json''" "new_json (p @ t) \<noteq> p @ t @ ''.json''"
  "new_npz (p @ t) \<noteq> p @ t @ ''.json''"
  by (simp_all add: old_json_def old_npz_def new_json_def new_npz_def)

text \<open>Both preparations are puts below the private directory, then the journal.\<close>

definition before_journal :: "host \<Rightarrow> fs \<Rightarrow> string \<Rightarrow> string \<Rightarrow> voice_op \<Rightarrow> instr list" where
  "before_journal h s t safe op = butlast (op_prepare h s t safe op)"

lemma prepare_split:
  "op_prepare h s t safe op = before_journal h s t safe op @
     [Put (TXN_PREFIX @ t @ ''.json'')
        (journal_json h (x_op (view s t safe op)) t safe
           (op = DeleteVoice \<or> is_file s (json_name safe) \<and> is_file s (npz_name safe)))]"
  by (cases op) (simp_all add: before_journal_def op_prepare_def write_prepare_def delete_prepare_def put_file_def
      Let_def butlast_append view_def)

lemma before_journal_own:
  assumes "i \<in> set (before_journal h s t safe op)"
  shows "\<exists>f c. i = Put f c \<and> is_own (view s t safe op) f \<and> (f = x_journal (view s t safe op) \<longrightarrow> c = CBytes [])"
proof -
  note own = own_backups[of "view s t safe op", simplified]
  have b: "\<exists>c. j = Put g c" if "j \<in> set (backup s f g)" for j f g
    using that by (auto simp: backup_def put_file_def split: option.splits)
  have "\<exists>f c. i = Put f c \<and>
     (f \<in> {TXN_PREFIX @ t, old_json (TXN_PREFIX @ t), old_npz (TXN_PREFIX @ t), new_json (TXN_PREFIX @ t), new_npz (TXN_PREFIX @ t)} \<or>
      f = TXN_PREFIX @ t @ ''.json'' \<and> c = CBytes [])"
    using assms
    by (cases op) (auto simp: before_journal_def op_prepare_def write_prepare_def delete_prepare_def put_file_def Let_def
        butlast_append dest!: b split: if_splits)
  then show ?thesis using own journal_path_neq[of "TXN_PREFIX @ t"] by auto
qed

lemma is_file_content: "is_file s f \<Longrightarrow> \<exists>c. dget s f = Some c \<and> plain_file (Some c)"
  by (auto simp: is_file_plain plain_file_def)

lemma prepared_files:
  assumes "op_ready h s t safe op"
  defines "d \<equiv> TXN_PREFIX @ t" and "s2 \<equiv> run (op_prepare h s t safe op) s"
  shows "dget s2 d = Some CDir" "fst (pair_of s safe) \<noteq> None \<Longrightarrow> dget s2 (old_json d) = fst (pair_of s safe)"
    "fst (pair_of s safe) \<noteq> None \<Longrightarrow> dget s2 (old_npz d) = snd (pair_of s safe)"
    "op = WriteVoice j z \<Longrightarrow> dget s2 (new_json d) = Some (marked_json t j)"
    "op = WriteVoice j z \<Longrightarrow> dget s2 (new_npz d) = Some (marked_npz t z)"
    "dget s2 (d @ ''.json'') = Some (journal_json h (x_op (view s t safe op)) t safe (fst (pair_of s safe) \<noteq> None))"
proof -
  have i: "pair_intact s safe op" using assms(1) by (simp add: op_ready_def)
  have eqs: "(op = DeleteVoice \<or> is_file s (json_name safe) \<and> is_file s (npz_name safe)) = (fst (pair_of s safe) \<noteq> None)"
    using i by (auto simp: pair_intact_def pair_of_def file_exists_def is_file_plain plain_file_def)
  show "dget s2 (d @ ''.json'') = Some (journal_json h (x_op (view s t safe op)) t safe (fst (pair_of s safe) \<noteq> None))"
    unfolding s2_def prepare_split eqs d_def by (simp add: dget_dset)
  show "dget s2 d = Some CDir"
    unfolding s2_def d_def
    by (cases op) (auto simp: op_prepare_def write_prepare_def delete_prepare_def put_file_def Let_def dget_dset backup_def split: option.splits)
  show "op = WriteVoice j z \<Longrightarrow> dget s2 (new_json d) = Some (marked_json t j)"
    "op = WriteVoice j z \<Longrightarrow> dget s2 (new_npz d) = Some (marked_npz t z)"
    unfolding s2_def d_def
    by (simp_all add: op_prepare_def write_prepare_def put_file_def Let_def dget_dset)
  show "dget s2 (old_json d) = fst (pair_of s safe)" "dget s2 (old_npz d) = snd (pair_of s safe)" if "fst (pair_of s safe) \<noteq> None"
  proof -
    from that eqs have "is_file s (json_name safe)" "is_file s (npz_name safe)"
      using i by (auto simp: pair_intact_def)
    then obtain a b where ab: "dget s (json_name safe) = Some a" "dget s (npz_name safe) = Some b"
      "is_file s (json_name safe)" "is_file s (npz_name safe)"
      using is_file_content by blast
    then show "dget s2 (old_json d) = fst (pair_of s safe)" "dget s2 (old_npz d) = snd (pair_of s safe)"
      unfolding s2_def d_def
      by (cases op; simp add: op_prepare_def write_prepare_def delete_prepare_def put_file_def Let_def dget_dset backup_def pair_of_def)+
  qed
qed

lemma prepare_points:
  assumes "op_ready h s t safe op"
  defines "T \<equiv> view s t safe op" and "p \<equiv> op_prepare h s t safe op"
  shows "every_point (\<lambda>s'. txn_inv h T s s' \<and> pair_of s' safe = pair_of s safe) p s" "on_track h T s (run p s)"
proof -
  let ?b = "before_journal h s t safe op"
  have wf: "wf_txn h T" unfolding T_def by (rule wf_view[OF assms(1)])
  have st: "every_point (staged h T s) ?b s"
    unfolding T_def using wf_view[OF assms(1)] ready_staged[OF assms(1)] before_journal_own by (intro staged_points) blast+
  have tok: "x_tok T = t" "x_safe T = safe" "x_old T = pair_of s safe" by (simp_all add: T_def)
  note last = every_point_end[OF st]
  note files = prepared_files[OF assms(1), folded p_def T_def]
  have j: "journalled h T (run p s)" using files by (simp add: journalled_def tok)
  obtain c where p: "p = ?b @ [Put (TXN_PREFIX @ t @ ''.json'') c]" "c \<noteq> CDir"
    unfolding p_def prepare_split by (auto simp: journal_json_def)
  have own: "is_own T (TXN_PREFIX @ t @ ''.json'')" by (simp add: is_own_def tok)
  have "elsewhere h T s (dset (run ?b s) (TXN_PREFIX @ t @ ''.json'') c)"
    using last p(2) own by (intro elsewhere_put[OF _ wf]) (auto simp: staged_def)
  moreover have "pair_of (dset (run ?b s) (TXN_PREFIX @ t @ ''.json'') c) safe = pair_of s safe"
  proof -
    have "\<not> is_pair T (TXN_PREFIX @ t @ ''.json'')" using pair_voice[OF wf] own_not_voice[OF own] by blast
    from pair_put[OF this] last show ?thesis by (simp add: staged_def tok)
  qed
  ultimately show t: "on_track h T s (run p s)"
    using j unfolding p(1) by (auto simp: on_track_def pair_settled_def tok)
  have "pair_of (run p s) safe = pair_of s safe"
    using \<open>pair_of (dset _ _ c) safe = _\<close> by (simp add: p(1))
  moreover have "every_point (\<lambda>s'. txn_inv h T s s' \<and> pair_of s' safe = pair_of s safe) ?b s"
    using st by (rule every_point_mono) (auto simp: staged_inv staged_def tok)
  ultimately show "every_point (\<lambda>s'. txn_inv h T s s' \<and> pair_of s' safe = pair_of s safe) p s"
    using on_track_inv[OF t] every_point_end by (fastforce simp: p(1))
qed

subsubsection \<open>The commit\<close>

lemma mid_not_new: "wf_txn h T \<Longrightarrow> x_mid T \<noteq> x_new T \<and> x_old T \<noteq> x_new T"
proof -
  assume wf: "wf_txn h T"
  show ?thesis
  proof (cases "x_op T = ''write''")
    case True
    obtain j where "x_mid T = (fst (x_old T), snd (x_new T))" "fst (x_new T) = Some (marked_json (x_tok T) j)"
      "\<forall>d. fst (x_old T) = Some (CText (JObj d)) \<longrightarrow> json_pair_token h (Some d) \<noteq> Some (x_tok T)"
      using wf True by (auto simp: wf_txn_def)
    then have "fst (x_old T) \<noteq> fst (x_new T)"
      by (auto simp: marked_json_def json_pair_token_def jget_def dget_dset)
    then show ?thesis using \<open>x_mid T = _\<close> by (metis fst_conv)
  next
    case False
    then show ?thesis using wf by (auto simp: wf_txn_def plain_file_def)
  qed
qed

lemma publish:
  assumes wf: "wf_txn h T" and t: "on_track h T s0 s" and f: "f = new_json (x_dir T) \<or> f = new_npz (x_dir T)"
    and c: "dget s f = Some c" and g: "is_pair T g"
    and p: "pair_settled T (dset s g c) \<or> pair_of (dset s g c) (x_safe T) = x_mid T"
  shows "on_track h T s0 (exec_instr s (Ren f g))"
    "pair_of (exec_instr s (Ren f g)) (x_safe T) = pair_of (dset s g c) (x_safe T)"
proof -
  have own: "is_own T f" using f by auto
  have np: "\<not> is_pair T f" using pair_voice[OF wf] own_not_voice[OF own] by blast
  have nv: "\<not> voice_file f" by (rule own_not_voice[OF own])
  have same: "pair_of (dpop s f) (x_safe T) = pair_of s (x_safe T)" by (rule pair_del[OF np])
  have "journalled h T (dpop s f)" using t f by (auto simp: on_track_def journalled_def dget_dpop)
  then have 1: "on_track h T s0 (dpop s f)"
    using t nv same elsewhere_del[of h T s0 s f] by (auto simp: on_track_def pair_settled_def)
  have eq: "pair_of (dset (dpop s f) g c) (x_safe T) = pair_of (dset s g c) (x_safe T)"
    using np by (auto simp: pair_of_def dget_dset dget_dpop is_pair_def)
  then show "pair_of (exec_instr s (Ren f g)) (x_safe T) = pair_of (dset s g c) (x_safe T)" by (simp add: c)
  from p eq have "pair_settled T (dset (dpop s f) g c) \<or> pair_of (dset (dpop s f) g c) (x_safe T) = x_mid T"
    by (simp add: pair_settled_def)
  from on_track_put[OF wf 1 _ this] g show "on_track h T s0 (exec_instr s (Ren f g))" by (simp add: c)
qed

text \<open>Both commits have two steps: the pair is the old one, the one between, the new one.\<close>

lemma commit_points:
  assumes r: "op_ready h s t safe op"
  defines "T \<equiv> view s t safe op" and "s2 \<equiv> run (op_prepare h s t safe op) s"
  shows "\<exists>i1 i2. op_commit t safe op = [i1, i2] \<and>
    on_track h T s (exec_instr s2 i1) \<and> pair_of (exec_instr s2 i1) safe = x_mid T \<and>
    on_track h T s (exec_instr (exec_instr s2 i1) i2) \<and> pair_of (exec_instr (exec_instr s2 i1) i2) safe = x_new T"
proof -
  have wf: "wf_txn h T" unfolding T_def by (rule wf_view[OF r])
  have t: "on_track h T s s2" unfolding T_def s2_def by (rule prepare_points(2)[OF r])
  have p: "pair_of s2 safe = pair_of s safe"
    unfolding s2_def using every_point_end[OF prepare_points(1)[OF r]] by simp
  have T: "x_safe T = safe" "x_tok T = t" "x_new T = op_pair t op" "x_old T = pair_of s safe" by (simp_all add: T_def)
  have pj: "is_pair T (json_name safe)" and pn: "is_pair T (npz_name safe)" by (simp_all add: is_pair_def T)
  note ds = pair_dset[of s2 T, unfolded T] and ps = pair_dpop[of s2 T, unfolded T]
  show ?thesis
  proof (cases op)
    case (WriteVoice j z)
    let ?d = "TXN_PREFIX @ t" and ?s3 = "exec_instr s2 (Ren (new_npz (TXN_PREFIX @ t)) (npz_name safe))"
    have mid: "x_mid T = (fst (pair_of s safe), Some (marked_npz t z))"
      and new: "x_new T = (Some (marked_json t j), Some (marked_npz t z))"
      by (simp_all add: T_def view_def WriteVoice op_pair_def)
    note files = prepared_files(4,5)[OF r WriteVoice, folded s2_def]
    have m: "pair_of (dset s2 (npz_name safe) (marked_npz t z)) safe = x_mid T" by (simp add: ds p mid)
    have fn: "dget s2 (new_npz (x_dir T)) = Some (marked_npz t z)" using files(2) by (simp add: T)
    have mt: "pair_of (dset s2 (npz_name safe) (marked_npz t z)) (x_safe T) = x_mid T" using m by (simp add: T)
    have 1: "on_track h T s ?s3" "pair_of ?s3 safe = x_mid T"
      using publish[OF wf t disjI2[OF refl] fn pn disjI2[OF mt]] mt by (simp_all only: T)
    have f3: "dget ?s3 (new_json ?d) = Some (marked_json t j)"
    proof -
      have "new_json ?d \<noteq> npz_name safe"
        using wf pair_voice[OF wf pn] own_not_voice[OF own_backups(5)[of T]] by (auto simp: T)
      then show ?thesis using files by (simp add: dget_dset dget_dpop)
    qed
    have n: "pair_of (dset ?s3 (json_name safe) (marked_json t j)) safe = x_new T"
      using 1(2) m pair_dset(1)[of ?s3 T, unfolded T] by (simp add: mid new del: exec_instr.simps)
    then have st: "pair_settled T (dset ?s3 (json_name safe) (marked_json t j))"
      unfolding pair_settled_def by (simp only: T simp_thms)
    have fj: "dget ?s3 (new_json (x_dir T)) = Some (marked_json t j)" using f3 by (simp only: T)
    have 2: "on_track h T s (exec_instr ?s3 (Ren (new_json ?d) (json_name safe)))"
      "pair_of (exec_instr ?s3 (Ren (new_json ?d) (json_name safe))) safe = x_new T"
      using publish[OF wf 1(1) disjI1[OF refl] fj pj disjI1[OF st]] n by (simp_all only: T)
    have "op_commit t safe op = [Ren (new_npz ?d) (npz_name safe), Ren (new_json ?d) (json_name safe)]"
      by (simp add: op_commit_def WriteVoice write_commit_def Let_def)
    then show ?thesis using 1 2 m n by (simp del: exec_instr.simps)
  next
    case DeleteVoice
    have mid: "x_mid T = (None, snd (pair_of s safe))" and new: "x_new T = (None, None)"
      by (simp_all add: T_def view_def DeleteVoice op_pair_def)
    let ?a = "dpop s2 (json_name safe)" let ?b = "dpop ?a (npz_name safe)"
    have m: "pair_of ?a safe = x_mid T" by (simp add: ps p mid)
    have n: "pair_of ?b safe = x_new T" using m pair_dpop(2)[of ?a T, unfolded T] by (simp add: mid new)
    have ta: "on_track h T s ?a" using m by (intro on_track_del_pair[OF wf t pj]) (simp add: T)
    have tb: "on_track h T s ?b" using n by (intro on_track_del_pair[OF wf ta pn]) (simp add: T pair_settled_def)
    show ?thesis using m n ta tb by (simp add: op_commit_def DeleteVoice delete_commit_def)
  qed
qed

subsection \<open>The whole operation\<close>

lemma cleanup_keeps_pair:
  assumes wf: "wf_txn h T"
  shows "pair_of (run (take k (cleanup_transaction h s1 (x_dir T) (x_journal T))) s) (x_safe T) = pair_of s (x_safe T)"
proof -
  have hok: "host_ok h" using wf by (simp add: wf_txn_def)
  obtain fs where fs: "cleanup_transaction h s1 (x_dir T) (x_journal T) = map Del fs" "\<forall>f \<in> set fs. starts_with TXN_PREFIX f"
    using cleanup_dels[OF hok, of "x_dir T" "x_journal T" s1] by auto
  have "\<not> is_pair T f" if "f \<in> set (take k fs)" for f
    using txn_not_pair[OF wf] fs(2) that by (blast dest: in_set_takeD)
  then show ?thesis by (auto simp: fs(1) take_map pair_of_def dget_dels is_pair_def)
qed

lemma op_points:
  assumes r: "op_ready h s t safe op"
  shows "every_point (txn_inv h (view s t safe op) s) (op_prog h s t safe op) s"
proof -
  let ?T = "view s t safe op" and ?s2 = "run (op_prepare h s t safe op) s"
  have wf: "wf_txn h ?T" by (rule wf_view[OF r])
  obtain i1 i2 where c: "op_commit t safe op = [i1, i2]" "on_track h ?T s (exec_instr ?s2 i1)"
    "on_track h ?T s (exec_instr (exec_instr ?s2 i1) i2)" "pair_of (exec_instr (exec_instr ?s2 i1) i2) safe = x_new ?T"
    using commit_points[OF r] by blast
  have "pair_settled ?T (exec_instr (exec_instr ?s2 i1) i2)" using c(4) by (simp add: pair_settled_def)
  from own_cleanup[OF wf on_track_inv[OF c(3)] this]
  have "every_point (txn_inv h ?T s) (cleanup_transaction h (exec_instr (exec_instr ?s2 i1) i2) (TXN_PREFIX @ t) (TXN_PREFIX @ t @ ''.json''))
      (exec_instr (exec_instr ?s2 i1) i2)"
    by simp
  moreover have "every_point (txn_inv h ?T s) (op_prepare h s t safe op) s"
    using prepare_points(1)[OF r] by (rule every_point_mono) simp
  ultimately show ?thesis
    using on_track_inv[OF c(2)] on_track_inv[OF c(3)] on_track_inv[OF prepare_points(2)[OF r]]
    by (simp add: op_prog_def txn_prog_def Let_def c(1))
qed

lemma atomic_op_cases:
  assumes r: "op_ready h s t safe op" and a: "atomic_op h fault t safe op s = (finished, s')"
  shows "txn_inv h (view s t safe op) s s' \<and> pair_of s' safe = (if finished then op_pair t op else pair_of s safe)"
proof -
  let ?T = "view s t safe op" and ?p = "op_prepare h s t safe op"
  let ?s2 = "run ?p s"
  have wf: "wf_txn h ?T" by (rule wf_view[OF r])
  obtain i1 i2 where c: "op_commit t safe op = [i1, i2]" "on_track h ?T s (exec_instr ?s2 i1)"
    "pair_of (exec_instr ?s2 i1) safe = x_mid ?T" "pair_of (exec_instr (exec_instr ?s2 i1) i2) safe = x_new ?T"
    using commit_points[OF r] by blast
  let ?s4 = "exec_instr (exec_instr ?s2 i1) i2"
  let ?q = "cleanup_transaction h ?s4 (TXN_PREFIX @ t) (TXN_PREFIX @ t @ ''.json'')"
  have prog: "op_prog h s t safe op = ?p @ [i1, i2] @ ?q"
    by (simp add: op_prog_def txn_prog_def Let_def c(1))
  note inv = every_pointD[OF op_points[OF r]]
  have eq: "atomic_op h fault t safe op s =
    (case fault of None \<Rightarrow> (True, run (op_prog h s t safe op) s)
     | Some k \<Rightarrow> let s' = run (take k (op_prog h s t safe op)) s in
         if k < length ?p then (False, s')
         else if k < length ?p + 2 then (False, run (recover_one h s' (TXN_PREFIX @ t @ ''.json'')) s') else (True, s'))"
    by (cases op) (simp_all add: atomic_op_def atomic_write_pair_def atomic_delete_pair_def atomic_txn_def op_prog_def
        op_prepare_def op_commit_def write_commit_def delete_commit_def Let_def split: option.splits)
  have rolled: "txn_inv h ?T s (run (recover_one h x (TXN_PREFIX @ t @ ''.json'')) x) \<and>
      pair_of (run (recover_one h x (TXN_PREFIX @ t @ ''.json'')) x) safe = pair_of s safe"
    if "txn_inv h ?T s x" "pair_of x safe \<noteq> op_pair t op" for x
    using recover_own[OF wf that(1)] that(2) every_point_end by fastforce
  have full: "take k (?p @ [i1, i2] @ ?q) = ?p @ [i1, i2] @ take (k - (length ?p + 2)) ?q" if "length ?p + 2 \<le> k" for k
    using le_Suc_ex[OF that] by auto
  have keep: "pair_of (run (take k ?q) ?s4) safe = op_pair t op" for k
    using cleanup_keeps_pair[OF wf, of k ?s4 ?s4] c(4) by simp
  note a' = a[unfolded eq]
  show ?thesis
  proof (cases fault)
    case None
    then show ?thesis using a' None inv[of "length (op_prog h s t safe op)"] keep[of "length ?q"] by (auto simp: prog)
  next
    case (Some k)
    consider "k < length ?p" | "k = length ?p" | "k = Suc (length ?p)" | "length ?p + 2 \<le> k" by linarith
    then show ?thesis
    proof cases
      case 1
      then show ?thesis using a' Some inv[of k] every_pointD[OF prepare_points(1)[OF r], of k]
        by (auto simp: prog Let_def)
    next
      case 2
      have "pair_of ?s2 safe = pair_of s safe" using every_point_end[OF prepare_points(1)[OF r]] by simp
      with 2 show ?thesis using a' Some rolled[of ?s2] inv[of k] mid_not_new[OF wf] by (auto simp: prog Let_def)
    next
      case 3
      with c(3) show ?thesis using a' Some rolled[of "exec_instr ?s2 i1"] inv[of k] mid_not_new[OF wf]
        by (auto simp: prog Let_def)
    next
      case 4
      then show ?thesis using a' Some inv[of k] keep[of "k - (length ?p + 2)"] full[OF 4]
        by (auto simp: prog Let_def)
    qed
  qed
qed

text \<open>C4: A write or a delete that dies at any instruction, recoveries that die at any instruction, and one
  that does not: the pair is the old one or the new one, nothing else changed, no journal is left
  that a later recovery would act on.
\<close>

theorem crash_atomic:
  assumes "op_ready h s t safe op"
  shows "let r = recover_transactions h (cut_recoveries h ks (run (take k (op_prog h s t safe op)) s))
     in pair_of r safe \<in> {pair_of s safe, op_pair t op} \<and> resting h r \<and>
        (\<forall>f. voice_file f \<and> f \<notin> {json_name safe, npz_name safe} \<longrightarrow> dget r f = dget s f)"
proof -
  have wf: "wf_txn h (view s t safe op)" by (rule wf_view[OF assms])
  have "txn_inv h (view s t safe op) s (cut_recoveries h ks (run (take k (op_prog h s t safe op)) s))"
    by (rule cut_recoveries_inv[OF wf every_pointD[OF op_points[OF assms]]])
  from recovered[OF wf this] show ?thesis by (simp add: Let_def is_pair_def)
qed

text \<open>C14: The exception of the file system at any instruction: the operation fails and the old pair is back, or it
  succeeds and the new pair is there, and the recovery that the next reader makes keeps it.
\<close>

theorem failed_operation_rolled_back:
  assumes "op_ready h s t safe op" and "atomic_op h fault t safe op s = (finished, s')"
  shows "pair_of s' safe = (if finished then op_pair t op else pair_of s safe) \<and>
    pair_of (recover_transactions h s') safe = pair_of s' safe \<and> resting h (recover_transactions h s')"
proof -
  have wf: "wf_txn h (view s t safe op)" by (rule wf_view[OF assms(1)])
  note a = atomic_op_cases[OF assms]
  have "pair_of (recover_transactions h s') safe = pair_of s' safe"
    using recovery_points(2)[OF wf conjunct1[OF a]] conjunct2[OF a] by (auto simp: pair_outcome_def)
  with a recovered(2)[OF wf conjunct1[OF a]] show ?thesis by simp
qed

subsection \<open>A directory to try it on\<close>

definition demo_host :: host where
  "demo_host = \<lparr>h_rep = (\<lambda>_. []), h_txt = (\<lambda>_. []), h_f32 = (\<lambda>c. case c of CF32 b \<Rightarrow> b | _ \<Rightarrow> []),
     h_scan = rev, h_tmp = (\<lambda>_. ''x''), h_root = ''/v''\<rparr>"

definition demo_pair :: "string \<Rightarrow> int \<Rightarrow> voice_op" where
  "demo_pair vid n =
     WriteVoice [(''voice_id'', JStr vid)] [(''speaker_embedding'', Arr [1] [COther (int_str n)])]"

definition demo_dir :: fs where
  "demo_dir = snd (atomic_op demo_host None ''a1'' ''v'' (demo_pair ''v'' 1) [])"

lemma demo_host_ok: "host_ok demo_host"
  by (simp add: host_ok_def demo_host_def)

lemma demo_ready: "op_ready demo_host demo_dir ''b2'' ''v'' (demo_pair ''v'' 2)"
proof -
  have "safe_name ''v'' \<and> resting demo_host demo_dir \<and> fresh_token demo_host demo_dir ''b2'' ''v'' \<and>
      pair_intact demo_dir ''v'' (demo_pair ''v'' 2)"
    by code_simp
  then show ?thesis by (simp add: op_ready_def demo_host_ok)
qed

text \<open>The process dies between the two renames; the recovery is cut twice.\<close>

lemma crash_atomic_witness:
  "let r = recover_transactions demo_host (cut_recoveries demo_host [3, 7] (run (take 12 (op_prog demo_host demo_dir ''b2'' ''v'' (demo_pair ''v'' 2))) demo_dir))
   in pair_of r ''v'' \<in> {pair_of demo_dir ''v'', op_pair ''b2'' (demo_pair ''v'' 2)} \<and> resting demo_host r \<and>
      (\<forall>f. voice_file f \<and> f \<notin> {json_name ''v'', npz_name ''v''} \<longrightarrow> dget r f = dget demo_dir f)"
  using crash_atomic[OF demo_ready, of "[3, 7]" 12] by (simp add: Let_def)

lemma demo_fault:
  "atomic_op demo_host (Some 12) ''b2'' ''v'' (demo_pair ''v'' 2) demo_dir = (False, demo_dir)"
  by code_simp

lemma failed_operation_rolled_back_witness:
  "pair_of demo_dir ''v'' = pair_of demo_dir ''v'' \<and>
   pair_of (recover_transactions demo_host demo_dir) ''v'' = pair_of demo_dir ''v'' \<and>
   resting demo_host (recover_transactions demo_host demo_dir)"
  using failed_operation_rolled_back[OF demo_ready demo_fault] by simp

end
