(* ===== verification/VoiceProfiles.thy ===== *)
theory VoiceProfiles
  imports VoiceTxn
begin

section \<open>Voice profiles\<close>

text \<open>
  The public operations of \<open>sparktts_voices.py\<close>: listing, registering a Spark profile or a speaker
  embedding, loading an embedding, deleting. Each one recovers pending transactions first, under the
  lock of the directory, which makes it one step here.
\<close>

subsection \<open>Listing\<close>

type_synonym ovalue = "string option"

definition list_entry ::
  "host \<Rightarrow> fs \<Rightarrow> ovalue \<Rightarrow> ovalue \<Rightarrow> ovalue \<Rightarrow> string \<Rightarrow> (py_error, jdict option) res" where
  "list_entry h s model ptype compatible name =
     (case load_json s name of
        None \<Rightarrow> Inr None
      | Some j \<Rightarrow>
          let safe = take (length name - 5) name
          in case por (jget j ''npz_file'' JNull) (JStr (npz_name safe)) of
               JStr npath \<Rightarrow>
                 if CHR ''/'' \<in> set npath then Inr None
                 else if \<not> pair_token_matches h s j npath then Inr None
                 else bind_res (profile_metadata h s j npath) (\<lambda>md.
                        case md of
                          None \<Rightarrow> Inr None
                        | Some (m, p, models, legacy) \<Rightarrow>
                            if (case model of Some r \<Rightarrow> r \<noteq> m | None \<Rightarrow> False) then Inr None
                            else if (case ptype of Some r \<Rightarrow> r \<noteq> [] \<and> r \<noteq> p | None \<Rightarrow> False) then Inr None
                            else if (case compatible of Some r \<Rightarrow> r \<notin> set models | None \<Rightarrow> False) then Inr None
                            else Inr (Some
                              [(''voice_id'', por (jget j ''voice_id'' JNull) (JStr safe)), (''type'', JStr p),
                               (''profile_type'', JStr p), (''model_id'', JStr m),
                               (''compatible_models'', JList (map JStr models)), (''legacy_metadata'', JBool legacy),
                               (''sample_rate'', jget j ''sample_rate'' (JInt 16000)),
                               (''has_ref_semantic'', JBool (jtruthy (jget j ''ref_semantic_len'' JNull))),
                               (''ref_semantic_len'', jget j ''ref_semantic_len'' (JInt 0)),
                               (''ref_text'', jget j ''ref_text'' JNull), (''source_meta'', jget j ''source_meta'' JNull)]))
             | _ \<Rightarrow> Inr None)"

definition profile_names :: "fs \<Rightarrow> string list" where
  "profile_names s =
     sort (filter (\<lambda>n. CHR ''/'' \<notin> set n \<and> \<not> starts_with ''.'' n \<and> name_ends ''.json'' n) (keys s))"

definition list_from_disk ::
  "host \<Rightarrow> ovalue \<Rightarrow> ovalue \<Rightarrow> ovalue \<Rightarrow> fs \<Rightarrow> (py_error, jdict list) res" where
  "list_from_disk h model ptype compatible s =
     (let m = canonical_opt h (jopt model) None; c = canonical_opt h (jopt compatible) None
      in fold_res (\<lambda>n out. bind_res (list_entry h s m ptype c n) (\<lambda>e.
           Inr (case e of None \<Rightarrow> out | Some d \<Rightarrow> out @ [d]))) (profile_names s) [])"

definition list_voices ::
  "host \<Rightarrow> ovalue \<Rightarrow> ovalue \<Rightarrow> ovalue \<Rightarrow> fs \<Rightarrow> (py_error, jdict list) res \<times> fs" where
  "list_voices h model ptype compatible s =
     (let s' = recover_transactions h s in (list_from_disk h model ptype compatible s', s'))"

subsection \<open>Registering\<close>

text \<open>
  The part under the lock. \<open>fault\<close> is the instruction of the file system that raises, as in
  \<open>atomic_txn\<close>; an \<open>OSError\<close> is shown as \<open>RuntimeErr\<close>.
\<close>

definition store_pair ::
  "host \<Rightarrow> nat option \<Rightarrow> string \<Rightarrow> json \<Rightarrow> string \<Rightarrow> jdict \<Rightarrow> npz \<Rightarrow> fs \<Rightarrow> (py_error, unit) res \<times> fs" where
  "store_pair h fault t vid safe j z s =
     (let s1 = recover_transactions h s
      in case assert_safe_id_available h s1 vid safe of
           Inl e \<Rightarrow> (Inl e, s1)
         | Inr _ \<Rightarrow> (let (fine, s2) = atomic_write_pair h fault t safe j z s1 in (if fine then Inr () else Inl RuntimeErr, s2)))"

definition spark_profile ::
  "host \<Rightarrow> json option \<Rightarrow> npz option \<Rightarrow> json \<Rightarrow> json \<Rightarrow> json \<Rightarrow> (py_error, json \<times> string \<times> jdict \<times> npz) res" where
  "spark_profile h parsed loaded voice_id model_id compatible =
     (case parsed of
        Some (JObj j0) \<Rightarrow>
          let vid = por voice_id (jget j0 ''voice_id'' JNull)
          in if \<not> jtruthy vid then Inl ValueErr
             else let j1 = dset j0 ''voice_id'' vid
                  in if canonical_opt h (por model_id (jget j1 ''model_id'' JNull)) (Some SPARK_MODEL_ID) \<noteq> Some SPARK_MODEL_ID
                     then Inl ValueErr
                     else if jget j1 ''profile_type'' JNull \<notin> {JNull, JStr SPARK_PROFILE_TYPE} then Inl ValueErr
                     else
                       let incoming = (if compatible \<noteq> JNull then compatible else jget j1 ''compatible_models'' JNull);
                           j2 = dset (dset j1 ''model_id'' (JStr SPARK_MODEL_ID)) ''profile_type'' (JStr SPARK_PROFILE_TYPE)
                       in bind_res (normalise_compatible_models h SPARK_MODEL_ID incoming) (\<lambda>models.
                            let j3 = dset j2 ''compatible_models'' (JList (map JStr models))
                            in case loaded of
                                 None \<Rightarrow> Inl ValueErr
                               | Some z \<Rightarrow>
                                   if \<not> has_global_ids z then Inl ValueErr
                                   else bind_res (safe_id vid) (\<lambda>safe.
                                     Inr (vid, safe, dset j3 ''npz_file'' (JStr (npz_name safe)), dpop z pair_key)))
      | _ \<Rightarrow> Inl ValueErr)"

definition register_from_profile_files ::
  "host \<Rightarrow> nat option \<Rightarrow> string \<Rightarrow> json option \<Rightarrow> npz option \<Rightarrow> json \<Rightarrow> json \<Rightarrow> json \<Rightarrow> fs \<Rightarrow> (py_error, json) res \<times> fs" where
  "register_from_profile_files h fault t parsed loaded voice_id model_id compatible s =
     (case spark_profile h parsed loaded voice_id model_id compatible of
        Inl e \<Rightarrow> (Inl e, s)
      | Inr (vid, safe, j, z) \<Rightarrow>
          (let (r, s') = store_pair h fault t vid safe j z s in (bind_res r (\<lambda>_. Inr vid), s')))"

fun f32_cells :: "nat list \<Rightarrow> cell list" where
  "f32_cells (a # b # c # d # bs) = CF32 [a, b, c, d] # f32_cells bs"
| "f32_cells _ = []"

definition embedding_json :: "string \<Rightarrow> string \<Rightarrow> string \<Rightarrow> string list \<Rightarrow> nat list \<Rightarrow> int \<Rightarrow> json \<Rightarrow> json \<Rightarrow> jdict" where
  "embedding_json voice_id safe m models emb sample_rate ref_text source_meta =
     [(''voice_id'', JStr voice_id), (''npz_file'', JStr (npz_name safe)),
      (''profile_type'', JStr EMBEDDING_PROFILE_TYPE), (''model_id'', JStr m),
      (''compatible_models'', JList (map JStr models)), (''embedding_dim'', JInt (int (length emb div 4))),
      (''embedding_dtype'', JStr ''float32''), (''sample_rate'', JInt sample_rate),
      (''ref_text'', ref_text), (''source_meta'', source_meta)]"

definition embedding_profile ::
  "host \<Rightarrow> string \<Rightarrow> nat list \<Rightarrow> int \<Rightarrow> json \<Rightarrow> json \<Rightarrow> json \<Rightarrow> json \<Rightarrow> (py_error, string \<times> jdict \<times> npz) res" where
  "embedding_profile h voice_id emb sample_rate ref_text source_meta model_id compatible =
     (if voice_id = [] then Inl ValueErr
      else if length emb mod 4 \<noteq> 0 \<or> emb = [] then Inl ValueErr
      else bind_res (safe_id (JStr voice_id)) (\<lambda>safe.
        case canonical_opt h model_id (Some QWEN_BASE_MODEL_ID) of
          None \<Rightarrow> Inl ValueErr
        | Some m \<Rightarrow>
            bind_res (normalise_compatible_models h m compatible) (\<lambda>models.
              Inr (safe, embedding_json voice_id safe m models emb sample_rate ref_text source_meta,
                [(''speaker_embedding'', Arr [length emb div 4] (f32_cells emb))]))))"

definition register_embedding_voice ::
  "host \<Rightarrow> nat option \<Rightarrow> string \<Rightarrow> string \<Rightarrow> nat list \<Rightarrow> int \<Rightarrow> json \<Rightarrow> json \<Rightarrow> json \<Rightarrow> json \<Rightarrow> fs \<Rightarrow>
   (py_error, jdict) res \<times> fs" where
  "register_embedding_voice h fault t voice_id emb sample_rate ref_text source_meta model_id compatible s =
     (case embedding_profile h voice_id emb sample_rate ref_text source_meta model_id compatible of
        Inl e \<Rightarrow> (Inl e, s)
      | Inr (safe, j, z) \<Rightarrow> (let (r, s') = store_pair h fault t (JStr voice_id) safe j z s in (bind_res r (\<lambda>_. Inr j), s')))"

subsection \<open>Loading and deleting\<close>

definition embedding_bytes :: "host \<Rightarrow> npz \<Rightarrow> nat list option" where
  "embedding_bytes h z =
     (case (case dget z ''speaker_embedding'' of Some a \<Rightarrow> Some a | None \<Rightarrow> dget z ''d_vector'') of
        None \<Rightarrow> None
      | Some a \<Rightarrow> Some (concat (map (h_f32 h) (cells a))))"

definition load_embedding ::
  "host \<Rightarrow> fs \<Rightarrow> string \<Rightarrow> string \<Rightarrow> json \<Rightarrow> (py_error, nat list option) res" where
  "load_embedding h s voice_id safe model_id =
     (case (if is_file s (json_name safe) then load_json s (json_name safe) else None) of
        None \<Rightarrow> Inr None
      | Some j \<Rightarrow>
          if jget j ''voice_id'' JNull \<noteq> JStr voice_id then Inr None
          else bind_res (profile_metadata h s j (npz_name safe)) (\<lambda>md.
            case md of
              None \<Rightarrow> Inr None
            | Some (m, p, models, _) \<Rightarrow>
                let r = canonical_opt h model_id None
                in if p \<noteq> EMBEDDING_PROFILE_TYPE then Inr None
                   else if (case r of Some r \<Rightarrow> r \<notin> set models | None \<Rightarrow> False) then Inr None
                   else if (case r of Some r \<Rightarrow> m \<noteq> r | None \<Rightarrow> False) then Inr None
                   else if por (jget j ''npz_file'' JNull) (JStr (npz_name safe)) \<noteq> JStr (npz_name safe) then Inr None
                   else if \<not> pair_token_matches h s j (npz_name safe) then Inr None
                   else Inr (case np_load s (npz_name safe) of None \<Rightarrow> None | Some z \<Rightarrow> embedding_bytes h z)))"

definition load_embedding_voice ::
  "host \<Rightarrow> string \<Rightarrow> json \<Rightarrow> fs \<Rightarrow> (py_error, nat list option) res \<times> fs" where
  "load_embedding_voice h voice_id model_id s =
     (if voice_id = [] then (Inr None, s)
      else let s' = recover_transactions h s
           in case safe_id (JStr voice_id) of
                Inl _ \<Rightarrow> (Inr None, s')
              | Inr safe \<Rightarrow> (load_embedding h s' voice_id safe model_id, s'))"


subsection \<open>Canonical model ids\<close>

lemma canonical_model_stripped: "str_strip (canonical_model_id m) = canonical_model_id m"
proof -
  have "str_strip ''qwen3-tts-0.6b-base'' = ''qwen3-tts-0.6b-base''" by code_simp
  then show ?thesis by (simp add: canonical_model_id_def Let_def)
qed

lemma canonical_model_strip_arg: "canonical_model_id (str_strip m) = canonical_model_id m"
  by (simp add: canonical_model_id_def)

definition canonical_name :: "string \<Rightarrow> bool" where
  "canonical_name m = (m \<noteq> [] \<and> canonical_model_id m = m)"

lemma canonical_opt_name:
  assumes "canonical_opt h v d = Some m" and "d = None \<or> (\<exists>x. d = Some x \<and> canonical_name x)"
  shows "canonical_name m"
  using assms by (auto simp: canonical_opt_def canonical_name_def Let_def canonical_model_strip_arg split: if_splits)

lemma canonical_opt_id: "canonical_name m \<Longrightarrow> canonical_opt h (JStr m) d = Some m"
  using canonical_model_stripped[of m] by (auto simp: canonical_opt_def canonical_name_def Let_def)

lemma qwen_base_name: "canonical_name QWEN_BASE_MODEL_ID"
  unfolding canonical_name_def QWEN_BASE_MODEL_ID_def by code_simp

lemma add_models:
  assumes "fold_res (add_model_id h) vs acc = Inr out" and "list_all canonical_name acc"
  shows "set acc \<subseteq> set out \<and> list_all canonical_name out \<and> (\<forall>v \<in> set vs. \<exists>m \<in> set out. canonical_opt h v None = Some m)"
  using assms
proof (induction vs arbitrary: acc)
  case (Cons v vs)
  then obtain acc' where a: "add_model_id h v acc = Inr acc'" "fold_res (add_model_id h) vs acc' = Inr out"
    by (auto simp: bind_res_eq_Inr)
  then obtain m where m: "canonical_opt h v None = Some m" "acc' = (if m \<in> set acc then acc else acc @ [m])"
    by (auto simp: add_model_id_def split: option.splits)
  have "canonical_name m" using canonical_opt_name[OF m(1)] by simp
  then have "list_all canonical_name acc'" using Cons.prems(2) m(2) by simp
  from Cons.IH[OF a(2) this] m show ?case by (auto split: if_splits)
qed simp

lemma add_canonical_models:
  assumes "list_all canonical_name ms" and "list_all canonical_name acc"
  shows "\<exists>out. fold_res (add_model_id h) (map JStr ms) acc = Inr out \<and> set out = set acc \<union> set ms"
  using assms
proof (induction ms arbitrary: acc)
  case (Cons m ms)
  let ?acc = "if m \<in> set acc then acc else acc @ [m]"
  have one: "add_model_id h (JStr m) acc = Inr ?acc" using Cons.prems by (simp add: add_model_id_def canonical_opt_id)
  have "list_all canonical_name ?acc" using Cons.prems by simp
  then obtain out where "fold_res (add_model_id h) (map JStr ms) ?acc = Inr out" "set out = set ?acc \<union> set ms"
    using Cons by auto
  then show ?case using one by (intro exI[of _ out]) (auto split: if_splits)
qed simp

lemma normalised:
  assumes "normalise_compatible_models h m v = Inr models"
  shows "list_all canonical_name models"
  using assms add_models[of h _ "[]"]
  by (auto simp: normalise_compatible_models_def simp del: fold_res.simps split: json.splits)

lemma normalise_again:
  assumes "list_all canonical_name models" and "canonical_name m"
  shows "\<exists>out. normalise_compatible_models h m (JList (map JStr models)) = Inr out \<and> set out = insert m (set models)"
  using add_canonical_models[of "m # models" "[]" h] assms by (simp add: normalise_compatible_models_def)

lemma normalised_has_model:
  assumes "normalise_compatible_models h m v = Inr models" and "canonical_name m"
  shows "m \<in> set models"
  using assms add_models[of h _ "[]"] canonical_opt_id[OF assms(2)]
  by (fastforce simp: normalise_compatible_models_def simp del: fold_res.simps split: json.splits)

subsection \<open>A stored pair\<close>

lemma f32_cells_bytes:
  assumes "\<And>b. h_f32 h (CF32 b) = b" and "length emb mod 4 = 0"
  shows "concat (map (h_f32 h) (f32_cells emb)) = emb"
  using assms(2)
proof (induction emb rule: f32_cells.induct)
  case (1 a b c d bs)
  then show ?case by (simp add: assms(1))
qed (auto simp: mod_Suc split: if_splits)

lemma available_intact:
  assumes "assert_safe_id_available h s vid safe = Inr ()"
  shows "pair_intact s safe (WriteVoice j z)"
  using assms
  by (auto simp: assert_safe_id_available_def pair_intact_def is_file_def file_exists_def load_json_def pair_token_matches_def
      np_load_def Let_def split: option.splits content.splits json.splits if_splits)

lemma store_pair_stored:
  assumes "store_pair h fault t vid safe j z s = (Inr (), s')" and "host_ok h" and "safe_name safe"
    and "resting h (recover_transactions h s)" and "fresh_token h (recover_transactions h s) t safe"
  shows "pair_of (recover_transactions h s') safe = (Some (marked_json t j), Some (marked_npz t z)) \<and> pair_of s' safe = (Some (marked_json t j), Some (marked_npz t z))"
proof -
  let ?s1 = "recover_transactions h s"
  have av: "assert_safe_id_available h ?s1 vid safe = Inr ()" and w: "atomic_write_pair h fault t safe j z ?s1 = (True, s')"
    using assms(1) by (auto simp: store_pair_def Let_def split: sum.splits prod.splits if_splits)
  have r: "op_ready h ?s1 t safe (WriteVoice j z)"
    using assms(2-5) available_intact[OF av] by (simp add: op_ready_def)
  have a: "atomic_op h fault t safe (WriteVoice j z) ?s1 = (True, s')" using w by (simp add: atomic_op_def)
  note c = atomic_op_cases[OF r a]
  then show ?thesis
    using recovery_points(2)[OF wf_view[OF r] conjunct1[OF c]] by (auto simp: pair_outcome_def op_pair_def)
qed

subsection \<open>Embeddings come back\<close>

lemma embedding_profileE:
  assumes "embedding_profile h vid emb sr rt sm model cmodels = Inr (safe, j, z)"
  obtains m models where "safe_id (JStr vid) = Inr safe" "vid \<noteq> []" "length emb mod 4 = 0"
    "canonical_opt h model (Some QWEN_BASE_MODEL_ID) = Some m" "canonical_name m"
    "normalise_compatible_models h m cmodels = Inr models"
    "j = embedding_json vid safe m models emb sr rt sm"
    "z = [(''speaker_embedding'', Arr [length emb div 4] (f32_cells emb))]"
proof -
  from assms obtain m models where *: "safe_id (JStr vid) = Inr safe" "vid \<noteq> []" "length emb mod 4 = 0"
    "canonical_opt h model (Some QWEN_BASE_MODEL_ID) = Some m"
    "normalise_compatible_models h m cmodels = Inr models"
    "j = embedding_json vid safe m models emb sr rt sm"
    "z = [(''speaker_embedding'', Arr [length emb div 4] (f32_cells emb))]"
    by (auto simp: embedding_profile_def bind_res_eq_Inr split: if_splits option.splits)
  have "canonical_name m" using canonical_opt_name[OF *(4)] qwen_base_name by simp
  then show ?thesis by (rule that[OF *(1-4) _ *(5-7)])
qed

lemma requested_model:
  assumes "canonical_opt h model (Some QWEN_BASE_MODEL_ID) = Some m" and "canonical_name m"
  shows "canonical_opt h model None = None \<or> canonical_opt h model None = Some m"
  using assms by (auto simp: canonical_opt_def Let_def split: if_splits)

lemma stored_embedding_loads:
  assumes prof: "embedding_profile h vid emb sr rt sm model cmodels = Inr (safe, j, z)"
    and pair: "pair_of s safe = (Some (marked_json t j), Some (marked_npz t z))"
    and f32: "\<And>b. h_f32 h (CF32 b) = b"
  shows "load_embedding h s vid safe model = Inr (Some emb)"
proof -
  from prof obtain m models where "safe_id (JStr vid) = Inr safe" and *: "vid \<noteq> []" "length emb mod 4 = 0"
    "canonical_opt h model (Some QWEN_BASE_MODEL_ID) = Some m" "canonical_name m"
    "normalise_compatible_models h m cmodels = Inr models"
    and j: "j = embedding_json vid safe m models emb sr rt sm"
    and z: "z = [(''speaker_embedding'', Arr [length emb div 4] (f32_cells emb))]"
    by (rule embedding_profileE)
  define jt where "jt = dset j pair_key (JStr t)"
  let ?j = jt and ?z = "dset (dpop z pair_key) pair_key (Arr [] [CStr t])"
  have files: "load_json s (json_name safe) = Some ?j" "np_load s (npz_name safe) = Some ?z" "is_file s (json_name safe)"
    using pair by (simp_all add: pair_of_def load_json_def np_load_def is_file_def marked_json_def marked_npz_def jt_def)
  have dj: "dget j ''voice_id'' = Some (JStr vid)" "dget j ''npz_file'' = Some (JStr (npz_name safe))"
    "dget j ''profile_type'' = Some (JStr EMBEDDING_PROFILE_TYPE)" "dget j ''model_id'' = Some (JStr m)"
    "dget j ''compatible_models'' = Some (JList (map JStr models))"
    by (simp_all add: j embedding_json_def)
  have get: "dget ?j ''voice_id'' = Some (JStr vid)" "dget ?j ''npz_file'' = Some (JStr (npz_name safe))"
    "dget ?j ''profile_type'' = Some (JStr EMBEDDING_PROFILE_TYPE)" "dget ?j ''model_id'' = Some (JStr m)"
    "dget ?j ''compatible_models'' = Some (JList (map JStr models))" "dget ?j pair_key = Some (JStr t)"
    by (simp_all add: jt_def dget_dset pair_key_def dj)
  have zget: "dget ?z ''speaker_embedding'' = Some (Arr [length emb div 4] (f32_cells emb))"
    by (simp add: z dget_dset dget_dpop pair_key_def)
  have tok: "pair_token_matches h s ?j (npz_name safe)"
    by (simp add: pair_token_matches_def files json_pair_token_def npz_pair_token_def jget_def get dget_dset cell_str_def)
  obtain out where out: "normalise_compatible_models h m (JList (map JStr models)) = Inr out" "set out = insert m (set models)"
    using normalise_again[OF normalised[OF *(5)] *(4)] by blast
  have payload: "profile_payload_matches s EMBEDDING_PROFILE_TYPE (npz_name safe)"
    by (simp add: profile_payload_matches_def files zget EMBEDDING_PROFILE_TYPE_def SPARK_PROFILE_TYPE_def)
  have md: "profile_metadata h s ?j (npz_name safe) = Inr (Some (m, EMBEDDING_PROFILE_TYPE, out, False))"
    using out payload
    by (simp add: profile_metadata_def get jget_def EMBEDDING_PROFILE_TYPE_def[symmetric] canonical_opt_id[OF *(4)] scoped_metadata_def)
  have bytes: "embedding_bytes h ?z = Some emb"
    using f32_cells_bytes[of h emb, OF f32 *(2)] by (simp add: embedding_bytes_def zget)
  have npz_nonempty: "npz_name safe \<noteq> []" by (simp add: npz_name_def)
  show ?thesis
    using requested_model[OF *(3,4)] out(2) tok bytes md npz_nonempty
    by (auto simp: load_embedding_def files get jget_def por_def)
qed

lemma registered_pair:
  assumes "register_embedding_voice h fault t vid emb sr rt sm model cmodels s = (Inr j, s')" and "host_ok h"
    and "safe_id (JStr vid) = Inr safe" and "safe_name safe"
    and "resting h (recover_transactions h s)" and "fresh_token h (recover_transactions h s) t safe"
  shows "\<exists>z. embedding_profile h vid emb sr rt sm model cmodels = Inr (safe, j, z) \<and>
    pair_of s' safe = (Some (marked_json t j), Some (marked_npz t z)) \<and>
    pair_of (recover_transactions h s') safe = (Some (marked_json t j), Some (marked_npz t z))"
proof -
  obtain safe' z where p: "embedding_profile h vid emb sr rt sm model cmodels = Inr (safe', j, z)"
    "store_pair h fault t (JStr vid) safe' j z s = (Inr (), s')"
    using assms(1) by (auto simp: register_embedding_voice_def bind_res_eq_Inr split: sum.splits prod.splits)
  from p(1) have "safe_id (JStr vid) = Inr safe'" by (rule embedding_profileE)
  with assms(3) have "safe' = safe" by simp
  with p store_pair_stored[OF _ assms(2,4-6), of fault "JStr vid" j z s'] show ?thesis by auto
qed

text \<open>What \<open>register_embedding_voice\<close> has accepted, \<open>load_embedding_voice\<close> gives back byte for byte when asked
  with the same id and model, whatever the directory held and wherever the cleanup of the write failed.
\<close>

theorem embedding_round_trip:
  assumes "host_ok h" and "\<forall>b. h_f32 h (CF32 b) = b" and "safe_id (JStr vid) = Inr safe" and "safe_name safe"
    and "resting h (recover_transactions h s)" and "fresh_token h (recover_transactions h s) t safe"
    and "register_embedding_voice h fault t vid emb sr rt sm model cmodels s = (Inr j, s')"
  shows "fst (load_embedding_voice h vid model s') = Inr (Some emb)"
proof -
  obtain z where z: "embedding_profile h vid emb sr rt sm model cmodels = Inr (safe, j, z)"
    "pair_of (recover_transactions h s') safe = (Some (marked_json t j), Some (marked_npz t z))"
    using registered_pair[OF assms(7,1,3,4,5,6)] by blast
  from z(1) have "vid \<noteq> []" by (rule embedding_profileE)
  with stored_embedding_loads[OF z] assms(2,3) show ?thesis by (simp add: load_embedding_voice_def Let_def)
qed



subsection \<open>On a directory\<close>

definition demo_enrol :: "fs \<Rightarrow> (py_error, jdict) res \<times> fs" where
  "demo_enrol = register_embedding_voice demo_host None ''c3'' ''clone:a/b'' [0, 0, 128, 63] 24000 JNull JNull JNull JNull"

lemma demo_enrol_ok: "\<exists>j. demo_enrol [] = (Inr j, snd (demo_enrol []))"
proof -
  have "is_ok (fst (demo_enrol []))" by code_simp
  then show ?thesis by (metis is_okE prod.collapse)
qed

lemma demo_facts:
  "resting demo_host (recover_transactions demo_host []) \<and> fresh_token demo_host (recover_transactions demo_host []) ''c3'' ''clone_a_b''"
  "safe_name ''clone_a_b''" "safe_id (JStr ''clone:a/b'') = Inr ''clone_a_b''" "safe_id (JStr ''clone:a:b'') = Inr ''clone_a_b''"
  by code_simp+

lemma embedding_round_trip_witness:
  "fst (load_embedding_voice demo_host ''clone:a/b'' JNull (snd (demo_enrol []))) = Inr (Some [0, 0, 128, 63])"
proof -
  obtain j where j: "demo_enrol [] = (Inr j, snd (demo_enrol []))" using demo_enrol_ok by blast
  have f32: "\<forall>b. h_f32 demo_host (CF32 b) = b" by (simp add: demo_host_def)
  show ?thesis
    using embedding_round_trip[OF demo_host_ok f32 demo_facts(3,2) conjunct1[OF demo_facts(1)] conjunct2[OF demo_facts(1)]
          j[unfolded demo_enrol_def]]
    unfolding demo_enrol_def .
qed


subsection \<open>What a journal that stays behind does\<close>

text \<open>
  The cleanup of a write fails at its first instruction, which the code swallows; so does the cleanup
  of the next recovery. A second write of the same voice then commits. The reader that follows recovers
  the first journal and puts the backup of the first write, older than both, back.
\<close>

definition stale_dir :: fs where
  "stale_dir = snd (atomic_op demo_host None ''c3'' ''v'' (demo_pair ''v'' 3)
     (snd (atomic_op demo_host (Some 13) ''b2'' ''v'' (demo_pair ''v'' 2) demo_dir)))"

lemma stale_journal_takes_back_later_write:
  "fst (atomic_op demo_host (Some 13) ''b2'' ''v'' (demo_pair ''v'' 2) demo_dir)"
  "pair_of stale_dir ''v'' = op_pair ''c3'' (demo_pair ''v'' 3)"
  "pair_of (recover_transactions demo_host stale_dir) ''v'' = pair_of demo_dir ''v''"
  "pair_of demo_dir ''v'' \<noteq> pair_of stale_dir ''v''"
  by code_simp+

text \<open>One file whose profile type is a list ends the listing of all voices.\<close>

lemma malformed_profile_stops_listing:
  "fst (list_voices demo_host None None None
     (dset (dset (snd (demo_enrol [])) ''bad.json''
        (CText (JObj [(''model_id'', JStr ''m''), (''profile_type'', JList []), (''compatible_models'', JNull)])))
        ''bad.npz'' (CNpz []))) = Inl TypeErr"
  by code_simp

text \<open>A voice whose id begins with a dot is registered and loaded, and never listed.\<close>

lemma dotted_voice_not_listed:
  "let (r, s) = register_embedding_voice demo_host None ''c3'' ''.v'' [0, 0, 128, 63] 24000 JNull JNull JNull JNull []
   in is_ok r \<and> fst (load_embedding_voice demo_host ''.v'' JNull s) = Inr (Some [0, 0, 128, 63]) \<and>
      fst (list_voices demo_host None None None s) = Inr []"
  by code_simp

text \<open>A torn journal and its directory stay for ever.\<close>

lemma torn_journal_stays:
  "let s = run (take 10 (op_prog demo_host demo_dir ''b2'' ''v'' (demo_pair ''v'' 2))) demo_dir; r = recover_transactions demo_host s
   in dget r ''.sparktts-txn-b2'' = Some CDir \<and> recover_transactions demo_host r = r"
  by code_simp

end
