(* ===== verification/VadGate.thy ===== *)
theory VadGate
  imports Json "HOL-Library.Sublist"
begin

section \<open>Voice activity segmentation\<close>

text \<open>
  \<open>PrerollRing\<close> and \<open>vad_gated\<close> of \<open>agent/ovs_agent/audio/vad_gate.py\<close>: a stream of audio chunks cut
  into utterances by a voice activity detector. The detector is a parameter: a state that answers for
  a chunk (or raises, \<open>None\<close>) and can be reset. A chunk is of any type.
\<close>

subsection \<open>The ring\<close>

definition ring_append :: "nat \<Rightarrow> 'c list \<Rightarrow> 'c \<Rightarrow> 'c list" where
  "ring_append n buf chunk = (let b = buf @ [chunk] in drop (length b - n) b)"

definition ring_drain :: "'c list \<Rightarrow> 'c list \<times> 'c list" where
  "ring_drain buf = (buf, [])"

definition ring_max :: "int \<Rightarrow> nat" where
  "ring_max preroll_max = nat (max 1 preroll_max)"

subsection \<open>The segmenter\<close>

datatype 'c stretch_event = SpeechStart | Audio 'c | SpeechEnd

record ('v, 'c) detector =
  vad_says :: "'v \<Rightarrow> 'c \<Rightarrow> bool option \<times> 'v"
  vad_reset :: "'v \<Rightarrow> 'v"

record gate_times =
  gt_chunk :: int
  gt_preroll :: int
  gt_silence :: int
  gt_min_speech :: int

definition chunk_time :: "gate_times \<Rightarrow> int" where
  "chunk_time g = max 1 (gt_chunk g)"

definition gate_ring_max :: "gate_times \<Rightarrow> nat" where
  "gate_ring_max g = ring_max (round_even (of_int (gt_preroll g) / of_int (chunk_time g)))"

record ('v, 'c) vgate =
  vg_speech :: bool
  vg_ring :: "'c list"
  vg_speech_ms :: int
  vg_silence_ms :: int
  vg_vad :: 'v

definition new_vgate :: "'v \<Rightarrow> ('v, 'c) vgate" where
  "new_vgate v = \<lparr>vg_speech = False, vg_ring = [], vg_speech_ms = 0, vg_silence_ms = 0, vg_vad = v\<rparr>"

definition vad_heard :: "('v, 'c) detector \<Rightarrow> ('v, 'c) vgate \<Rightarrow> 'c \<Rightarrow> bool \<times> ('v, 'c) vgate" where
  "vad_heard dt s chunk =
     (let (r, v) = vad_says dt (vg_vad s) chunk in (case r of None \<Rightarrow> False | Some b \<Rightarrow> b, s\<lparr>vg_vad := v\<rparr>))"

definition gate_idle ::
  "gate_times \<Rightarrow> bool \<Rightarrow> 'c \<Rightarrow> ('v, 'c) vgate \<Rightarrow> 'c stretch_event list \<times> ('v, 'c) vgate" where
  "gate_idle g is_speech chunk s =
     (let ring = ring_append (gate_ring_max g) (vg_ring s) chunk
      in if is_speech then
           (let ms = vg_speech_ms s + chunk_time g
            in if ms \<ge> gt_min_speech g then
                 (SpeechStart # map Audio (fst (ring_drain ring)),
                  s\<lparr>vg_speech_ms := ms, vg_ring := snd (ring_drain ring), vg_speech := True, vg_silence_ms := 0\<rparr>)
               else ([], s\<lparr>vg_speech_ms := ms, vg_ring := ring\<rparr>))
         else ([], s\<lparr>vg_speech_ms := 0, vg_ring := ring\<rparr>))"

definition gate_speaking ::
  "('v, 'c) detector \<Rightarrow> gate_times \<Rightarrow> bool \<Rightarrow> 'c \<Rightarrow> ('v, 'c) vgate \<Rightarrow> 'c stretch_event list \<times> ('v, 'c) vgate" where
  "gate_speaking dt g is_speech chunk s =
     (if is_speech then ([Audio chunk], s\<lparr>vg_silence_ms := 0\<rparr>)
      else let ms = vg_silence_ms s + chunk_time g
           in if ms \<ge> gt_silence g then
                ([Audio chunk, SpeechEnd],
                 s\<lparr>vg_speech := False, vg_speech_ms := 0, vg_silence_ms := 0, vg_ring := [], vg_vad := vad_reset dt (vg_vad s)\<rparr>)
              else ([Audio chunk], s\<lparr>vg_silence_ms := ms\<rparr>))"

definition gate_chunk ::
  "('v, 'c) detector \<Rightarrow> gate_times \<Rightarrow> ('v, 'c) vgate \<Rightarrow> 'c \<Rightarrow> 'c stretch_event list \<times> ('v, 'c) vgate" where
  "gate_chunk dt g s chunk =
     (let (is_speech, s) = vad_heard dt s chunk
      in if vg_speech s then gate_speaking dt g is_speech chunk s else gate_idle g is_speech chunk s)"

definition vad_gated ::
  "('v, 'c) detector \<Rightarrow> gate_times \<Rightarrow> 'v \<Rightarrow> 'c list \<Rightarrow> 'c stretch_event list \<times> ('v, 'c) vgate" where
  "vad_gated dt g v chunks =
     foldl (\<lambda>(evs, s) c. let (es, s') = gate_chunk dt g s c in (evs @ es, s')) ([], new_vgate v) chunks"

subsection \<open>Utterances\<close>

text \<open>
  The grammar of the events: a start, audio, an end, over and over, the last utterance possibly still
  open. \<open>None\<close> for a sequence outside the grammar; otherwise the closed utterances and the open one.
\<close>

fun utter :: "('c list list \<times> 'c list option) option \<Rightarrow> 'c stretch_event \<Rightarrow> ('c list list \<times> 'c list option) option" where
  "utter (Some (us, None)) SpeechStart = Some (us, Some [])"
| "utter (Some (us, Some u)) (Audio c) = Some (us, Some (u @ [c]))"
| "utter (Some (us, Some u)) SpeechEnd = Some (us @ [u], None)"
| "utter _ _ = None"

definition utterances :: "'c stretch_event list \<Rightarrow> ('c list list \<times> 'c list option) option" where
  "utterances evs = foldl utter (Some ([], None)) evs"

lemma utter_audio: "foldl utter (Some (us, Some u)) (map Audio cs) = Some (us, Some (u @ cs))"
  by (induction cs arbitrary: u) auto

lemma utterances_append: "utterances (as @ bs) = foldl utter (utterances as) bs"
  by (simp add: utterances_def)

lemma ring_append_suffix: "suffix r h \<Longrightarrow> suffix (ring_append n r c) (h @ [c])"
  unfolding ring_append_def Let_def by (metis suffix_drop suffix_order.trans suffix_snoc)

lemma ring_append_length:
  "length (ring_append n r c) = min n (Suc (length r))"
  by (simp add: ring_append_def Let_def)

lemma chunk_time_pos: "chunk_time g > 0"
  by (simp add: chunk_time_def)

text \<open>Long enough: it fills the ring, or it holds the speech that confirmed the onset.\<close>

definition long_enough :: "gate_times \<Rightarrow> 'c list \<Rightarrow> bool" where
  "long_enough g u = (length u \<ge> gate_ring_max g \<or> chunk_time g * int (length u) \<ge> gt_min_speech g)"

definition vgate_inv :: "gate_times \<Rightarrow> 'c list \<Rightarrow> 'c list list \<Rightarrow> 'c list option \<Rightarrow> ('v, 'c) vgate \<Rightarrow> bool" where
  "vgate_inv g h us cur s =
     ((\<forall>u \<in> set us. sublist u h \<and> long_enough g u) \<and> subseq (concat us @ (case cur of None \<Rightarrow> [] | Some u \<Rightarrow> u)) h \<and>
      (case cur of
         None \<Rightarrow> \<not> vg_speech s \<and> suffix (vg_ring s) h \<and>
           (length (vg_ring s) = gate_ring_max g \<or> vg_speech_ms s \<le> chunk_time g * int (length (vg_ring s))) \<and>
           (\<exists>p. h = p @ vg_ring s \<and> subseq (concat us) p)
       | Some u \<Rightarrow> vg_speech s \<and> suffix u h \<and> long_enough g u))"

lemma ring_split:
  assumes "h = p @ r" and "subseq a p"
  shows "\<exists>q. h @ [c] = q @ ring_append n r c \<and> subseq a q"
proof -
  let ?k = "length (r @ [c]) - n"
  have "h @ [c] = (p @ take ?k (r @ [c])) @ ring_append n r c"
  proof -
    have "h @ [c] = p @ (r @ [c])" using assms(1) by simp
    also have "\<dots> = p @ (take ?k (r @ [c]) @ drop ?k (r @ [c]))" by (simp only: append_take_drop_id)
    finally show ?thesis by (simp only: ring_append_def Let_def append_assoc)
  qed
  moreover have "subseq a (p @ take ?k (r @ [c]))" using assms(2) by (rule list_emb_prefix)
  ultimately show ?thesis by blast
qed
lemma sublist_snoc: "sublist u h \<Longrightarrow> sublist u (h @ [c])"
  by (metis sublist_append_rightI sublist_order.order.trans)

lemma closed_snoc:
  assumes "vgate_inv g h us cur s"
  shows "\<forall>u \<in> set us. sublist u (h @ [c]) \<and> long_enough g u"
  using assms unfolding vgate_inv_def by (blast intro: sublist_snoc)

lemma heard_same [simp]:
  "vad_heard dt s c = (b, s') \<Longrightarrow> vg_speech s' = vg_speech s \<and> vg_ring s' = vg_ring s \<and> vg_speech_ms s' = vg_speech_ms s"
  by (auto simp: vad_heard_def split: prod.splits)

lemma gate_idle_inv:
  assumes inv: "vgate_inv g h us None s" and r: "gate_idle g b c s = (es, s')"
  shows "\<exists>cur. foldl utter (Some (us, None)) es = Some (us, cur) \<and> vgate_inv g (h @ [c]) us cur s'"
proof -
  let ?n = "gate_ring_max g" let ?r = "ring_append ?n (vg_ring s) c"
  obtain p where p: "h = p @ vg_ring s" "subseq (concat us) p" using inv by (auto simp: vgate_inv_def)
  obtain q where q: "h @ [c] = q @ ?r" "subseq (concat us) q" using ring_split[OF p] by blast
  have us: "\<forall>u \<in> set us. sublist u (h @ [c]) \<and> long_enough g u" using inv by (rule closed_snoc)
  have suf: "suffix ?r (h @ [c])" using q(1) by (simp add: suffix_def)
  have len: "length ?r = min ?n (Suc (length (vg_ring s)))" by (rule ring_append_length)
  have old: "length (vg_ring s) = ?n \<or> vg_speech_ms s \<le> chunk_time g * int (length (vg_ring s))"
    using inv by (simp add: vgate_inv_def)
  have ms: "length ?r = ?n \<or> vg_speech_ms s + chunk_time g \<le> chunk_time g * int (length ?r)"
    using old by (auto simp: len min_def algebra_simps)
  have nn: "0 \<le> chunk_time g * int (length ?r)" using chunk_time_pos[of g] by simp
  show ?thesis
  proof (cases "b \<and> vg_speech_ms s + chunk_time g \<ge> gt_min_speech g")
    case True
    then have "es = SpeechStart # map Audio ?r" and s': "vg_speech s'"
      using r by (auto simp: gate_idle_def ring_drain_def Let_def)
    then have "foldl utter (Some (us, None)) es = Some (us, Some ?r)" by (simp add: utter_audio)
    moreover have "long_enough g ?r" using ms True by (auto simp: long_enough_def)
    moreover have "subseq (concat us @ ?r) (h @ [c])" unfolding q(1) using q(2) by (rule list_emb_append_mono) simp
    ultimately show ?thesis using us suf s' by (auto simp: vgate_inv_def)
  next
    case False
    then have es: "es = []" and s': "vg_ring s' = ?r" "vg_speech s' = vg_speech s"
      "vg_speech_ms s' = (if b then vg_speech_ms s + chunk_time g else 0)"
      using r by (auto simp: gate_idle_def Let_def split: if_splits)
    have "subseq (concat us) (h @ [c])" unfolding q(1) using q(2) by (rule list_emb_prefix)
    then have "vgate_inv g (h @ [c]) us None s'"
      using us suf ms nn q inv s' by (auto simp: vgate_inv_def)
    then show ?thesis by (simp add: es)
  qed
qed

lemma gate_speaking_inv:
  assumes inv: "vgate_inv g h us (Some u) s" and r: "gate_speaking dt g b c s = (es, s')"
  shows "\<exists>us' cur. foldl utter (Some (us, Some u)) es = Some (us', cur) \<and> vgate_inv g (h @ [c]) us' cur s'"
proof -
  have us: "\<forall>v \<in> set us. sublist v (h @ [c]) \<and> long_enough g v" using inv by (rule closed_snoc)
  have suf: "suffix (u @ [c]) (h @ [c])" using inv by (simp add: vgate_inv_def)
  have "long_enough g u" using inv by (simp add: vgate_inv_def)
  then have long: "long_enough g (u @ [c])"
    using chunk_time_pos[of g] by (auto simp: long_enough_def algebra_simps)
  have "subseq (concat us @ u) h" using inv by (simp add: vgate_inv_def)
  then have sub: "subseq (concat us @ u @ [c]) (h @ [c])" using list_emb_append_mono[of "(=)" "concat us @ u" h "[c]" "[c]"] by simp
  consider "es = [Audio c]" "vg_speech s' = vg_speech s" | "es = [Audio c, SpeechEnd]" "\<not> vg_speech s'" "vg_ring s' = []" "vg_speech_ms s' = 0"
    using r by (auto simp: gate_speaking_def Let_def split: if_splits)
  then show ?thesis
  proof cases
    case 1
    then show ?thesis using inv us suf long sub by (auto simp: vgate_inv_def)
  next
    case 2
    have "sublist (u @ [c]) (h @ [c])" using suf by (rule suffix_imp_sublist)
    then have "vgate_inv g (h @ [c]) (us @ [u @ [c]]) None s'"
      using 2 us long sub by (auto simp: vgate_inv_def)
    then show ?thesis using 2(1) by simp
  qed
qed

lemma gate_chunk_inv:
  assumes inv: "vgate_inv g h us cur s" and r: "gate_chunk dt g s c = (es, s')"
  shows "\<exists>us' cur'. foldl utter (Some (us, cur)) es = Some (us', cur') \<and> vgate_inv g (h @ [c]) us' cur' s'"
proof -
  obtain b s1 where h: "vad_heard dt s c = (b, s1)" by (cases "vad_heard dt s c")
  have inv1: "vgate_inv g h us cur s1" using inv heard_same[OF h] by (cases cur) (auto simp: vgate_inv_def)
  show ?thesis
  proof (cases cur)
    case None
    then have "gate_idle g b c s1 = (es, s')" using r h inv1 by (simp add: gate_chunk_def vgate_inv_def)
    from gate_idle_inv[OF inv1[unfolded None] this] None show ?thesis by blast
  next
    case (Some u)
    then have "gate_speaking dt g b c s1 = (es, s')" using r h inv1 by (simp add: gate_chunk_def vgate_inv_def)
    from gate_speaking_inv[OF inv1[unfolded Some] this] Some show ?thesis by blast
  qed
qed

lemma vad_gated_inv:
  "\<exists>us cur. utterances (fst (vad_gated dt g v chunks)) = Some (us, cur) \<and> vgate_inv g chunks us cur (snd (vad_gated dt g v chunks))"
proof (induction chunks rule: rev_induct)
  case Nil
  have "vgate_inv g [] [] None (new_vgate v)" by (simp add: vgate_inv_def new_vgate_def)
  then show ?case by (simp add: vad_gated_def utterances_def)
next
  case (snoc c cs)
  obtain evs s where r: "vad_gated dt g v cs = (evs, s)" by (cases "vad_gated dt g v cs")
  with snoc.IH obtain us cur where ih: "utterances evs = Some (us, cur)" "vgate_inv g cs us cur s" by auto
  obtain es s' where st: "gate_chunk dt g s c = (es, s')" by (cases "gate_chunk dt g s c")
  from gate_chunk_inv[OF ih(2) st] r st ih(1) show ?case
    by (auto simp: vad_gated_def utterances_append)
qed

text \<open>C40: Whatever the detector says, the events follow the grammar, every utterance is an unbroken stretch of
  the captured audio that is long enough, and all of them together are captured audio in its order,
  no chunk twice.
\<close>

theorem utterances_are_stretches:
  "\<exists>us cur. utterances (fst (vad_gated dt g v chunks)) = Some (us, cur) \<and>
     (\<forall>u \<in> set us \<union> set_option cur. sublist u chunks \<and> long_enough g u) \<and>
     subseq (concat us @ (case cur of None \<Rightarrow> [] | Some u \<Rightarrow> u)) chunks"
proof -
  obtain us cur where *: "utterances (fst (vad_gated dt g v chunks)) = Some (us, cur)"
    "vgate_inv g chunks us cur (snd (vad_gated dt g v chunks))" using vad_gated_inv[of dt g v chunks] by auto
  then have "\<forall>u \<in> set us \<union> set_option cur. sublist u chunks \<and> long_enough g u"
    by (auto simp: vgate_inv_def suffix_imp_sublist split: option.splits)
  with * show ?thesis by (auto simp: vgate_inv_def)
qed

text \<open>A detector by level, on a stream with one utterance and one onset that is not confirmed.\<close>

definition level_detector :: "(unit, int) detector" where
  "level_detector = \<lparr>vad_says = (\<lambda>v c. (Some (c > 3), v)), vad_reset = (\<lambda>v. v)\<rparr>"

definition demo_times :: gate_times where
  "demo_times = \<lparr>gt_chunk = 100, gt_preroll = 300, gt_silence = 200, gt_min_speech = 200\<rparr>"

lemma demo_utterance:
  "utterances (fst (vad_gated level_detector demo_times () [0, 1, 5, 6, 0, 1, 7, 2])) = Some ([[1, 5, 6, 0, 1]], None)"
  by code_simp

theorem utterances_are_stretches_witness:
  "sublist [1, 5, 6, 0, 1] [0, 1, 5, 6, 0, 1, 7, 2 :: int] \<and> long_enough demo_times [1, 5, 6, 0, 1 :: int]"
  using utterances_are_stretches[of level_detector demo_times "()" "[0, 1, 5, 6, 0, 1, 7, 2]"] demo_utterance by auto

end
