(* ===== verification/GpuWatchdog.thy ===== *)
theory GpuWatchdog
  imports Json
begin

section \<open>The accelerator watchdog\<close>

text \<open>
  \<open>server/core/gpu_watchdog.py\<close>: which platform the host is, how it is probed, and the cached health
  with its hysteresis. What the host shows (paths, programs on the path, what a probe command does) is a
  parameter; the clock and the metrics are left out; a probe that raises (a path that may not be looked at) is the event
  \<open>ProbeRaised\<close>.
\<close>

subsection \<open>Probes\<close>

datatype platform = Jetson | Rk | Hailo | DesktopCuda | CpuOnly

datatype reason = ReasonOk | ProbeTimeout | ProbeUnavailable | ProbeFailed | TaskCrashed | CpuOnlyReason

datatype command_result = TimedOut | NotFound | Crashed | Exited int

record machine =
  mc_env :: "string \<rightharpoonup> string"
  mc_path :: "string \<Rightarrow> bool"
  mc_which :: "string \<Rightarrow> bool"
  mc_run :: "string list \<Rightarrow> command_result"
  mc_read :: "string \<Rightarrow> string option"
  mc_devfreq :: "string list"
  mc_pycuda :: "nat option"
  mc_nvml :: "nat option"

definition run_command :: "machine \<Rightarrow> string list \<Rightarrow> bool \<times> reason" where
  "run_command m cmd =
     (case mc_run m cmd of
        TimedOut \<Rightarrow> (False, ProbeTimeout)
      | NotFound \<Rightarrow> (False, ProbeUnavailable)
      | Crashed \<Rightarrow> (False, ProbeFailed)
      | Exited code \<Rightarrow> if code \<noteq> 0 then (False, ProbeFailed) else (True, ReasonOk))"

definition env_word :: "machine \<Rightarrow> string \<Rightarrow> string" where
  "env_word m k = str_lower (str_strip (case mc_env m k of None \<Rightarrow> '''' | Some v \<Rightarrow> v))"

definition detect_platform :: "machine \<Rightarrow> platform" where
  "detect_platform m =
     (if env_word m ''LANGUAGE_MODE'' = ''rk'' \<or> starts_with ''rk'' (env_word m ''RK_PLATFORM'') \<or>
         starts_with ''rk'' (env_word m ''ASR_PLATFORM'') then Rk
      else if mc_path m ''/sys/class/devfreq'' \<and> mc_path m ''/sys/kernel/debug/rknpu'' then Rk
      else if mc_path m ''/etc/nv_tegra_release'' then Jetson
      else if mc_which m ''tegrastats'' then Jetson
      else if mc_which m ''hailortcli'' then Hailo
      else if mc_which m ''nvidia-smi'' then DesktopCuda
      else CpuOnly)"

definition check_jetson :: "machine \<Rightarrow> bool \<times> reason" where
  "check_jetson m =
     (let (fine, reason) = (if mc_which m ''tegrastats'' then run_command m [''tegrastats'', ''--interval'', ''1000'']
                            else (False, ProbeUnavailable))
      in if mc_which m ''tegrastats'' \<and> (reason = ProbeTimeout \<or> fine) then (True, ReasonOk)
         else if mc_which m ''nvidia-smi'' then run_command m [''nvidia-smi'', ''-L'']
         else (case mc_pycuda m of
                 Some n \<Rightarrow> if n > 0 then (True, ReasonOk) else (False, ProbeUnavailable)
               | None \<Rightarrow> (False, ProbeUnavailable)))"

definition frequency_shown :: "string \<Rightarrow> bool" where
  "frequency_shown raw =
     (let r = str_strip raw; d = dropWhile (\<lambda>c. c = CHR ''-'') r in r \<noteq> [] \<and> d \<noteq> [] \<and> list_all is_digit_char d)"

definition check_rk :: "machine \<Rightarrow> bool \<times> reason" where
  "check_rk m =
     (if mc_path m ''/sys/kernel/debug/rknpu/load'' \<and>
         (case mc_read m ''/sys/kernel/debug/rknpu/load'' of Some t \<Rightarrow> str_strip t \<noteq> [] | None \<Rightarrow> False) then (True, ReasonOk)
      else if mc_path m ''/sys/class/devfreq'' \<and>
         list_ex (\<lambda>d. mc_path m (d @ ''/cur_freq'') \<and>
            (case mc_read m (d @ ''/cur_freq'') of Some t \<Rightarrow> frequency_shown t | None \<Rightarrow> False)) (mc_devfreq m)
      then (True, ReasonOk)
      else (False, ProbeUnavailable))"

definition check_hailo :: "machine \<Rightarrow> bool \<times> reason" where
  "check_hailo m =
     (if \<not> mc_which m ''hailortcli'' then (False, ProbeUnavailable)
      else let (fine, reason) = run_command m [''hailortcli'', ''fw-control'', ''identify'']
           in if fine then (True, ReasonOk) else (False, reason))"

definition check_desktop_cuda :: "machine \<Rightarrow> bool \<times> reason" where
  "check_desktop_cuda m =
     (case mc_nvml m of
        Some n \<Rightarrow> if n > 0 then (True, ReasonOk) else (False, ProbeUnavailable)
      | None \<Rightarrow> if mc_which m ''nvidia-smi'' then run_command m [''nvidia-smi'', ''-L''] else (False, ProbeUnavailable))"

fun check_once :: "machine \<Rightarrow> platform \<Rightarrow> bool \<times> reason" where
  "check_once m Jetson = check_jetson m"
| "check_once m Rk = check_rk m"
| "check_once m Hailo = check_hailo m"
| "check_once m DesktopCuda = check_desktop_cuda m"
| "check_once m CpuOnly = (True, CpuOnlyReason)"

subsection \<open>The interval\<close>

datatype interval_float = Finite rat | Infinite bool | NotANumber

definition parse_interval :: "(string \<Rightarrow> interval_float option) \<Rightarrow> string option \<Rightarrow> interval_float" where
  "parse_interval float raw =
     (case raw of
        None \<Rightarrow> Finite 5
      | Some r \<Rightarrow>
          if str_strip r = [] then Finite 5
          else case float r of
                 None \<Rightarrow> Finite 5
               | Some (Finite v) \<Rightarrow> if v < 1 then Finite 1 else Finite v
               | Some (Infinite neg) \<Rightarrow> if neg then Finite 1 else Infinite False
               | Some NotANumber \<Rightarrow> NotANumber)"

subsection \<open>Hysteresis\<close>

record wstatus =
  ws_ok :: bool
  ws_reason :: reason
  ws_failures :: nat
  ws_successes :: nat
  ws_checks :: nat
  ws_failed :: nat

definition new_wstatus :: wstatus where
  "new_wstatus = \<lparr>ws_ok = True, ws_reason = ReasonOk, ws_failures = 0, ws_successes = 0, ws_checks = 0, ws_failed = 0\<rparr>"

definition FAIL_THRESHOLD :: nat where "FAIL_THRESHOLD = 3"
definition RECOVER_THRESHOLD :: nat where "RECOVER_THRESHOLD = 5"

definition apply_check_result :: "wstatus \<Rightarrow> bool \<times> reason \<Rightarrow> wstatus" where
  "apply_check_result s r =
     (case r of (fine, reason) \<Rightarrow>
        let s = s\<lparr>ws_checks := ws_checks s + 1\<rparr>
        in if fine then
             (let s = s\<lparr>ws_successes := ws_successes s + 1, ws_failures := 0\<rparr>
              in if \<not> ws_ok s \<and> ws_successes s \<ge> RECOVER_THRESHOLD then s\<lparr>ws_ok := True, ws_reason := ReasonOk\<rparr> else s)
           else
             (let s = s\<lparr>ws_failed := ws_failed s + 1, ws_failures := ws_failures s + 1, ws_successes := 0\<rparr>;
                  s = (if ws_ok s \<and> ws_failures s \<ge> FAIL_THRESHOLD then s\<lparr>ws_ok := False, ws_reason := reason\<rparr> else s)
              in if \<not> ws_ok s then s\<lparr>ws_reason := reason\<rparr> else s))"

datatype watch_event = Probed "bool \<times> reason" | ProbeRaised | Died | Restarted

fun watch_step :: "wstatus \<Rightarrow> watch_event \<Rightarrow> wstatus" where
  "watch_step s (Probed r) = apply_check_result s r"
| "watch_step s ProbeRaised = apply_check_result s (False, ProbeFailed)"
| "watch_step s Died = s\<lparr>ws_ok := False, ws_reason := TaskCrashed\<rparr>"
| "watch_step s Restarted = s\<lparr>ws_reason := ReasonOk\<rparr>"

text \<open>What the probes so far mean: the last run of three failures or of five successes decides.\<close>

fun health :: "bool list \<Rightarrow> bool" where
  "health [] = True"
| "health (r # rs) =
     (if length (r # rs) \<ge> 3 \<and> \<not> r \<and> list_all Not (take 2 rs) then False
      else if length (r # rs) \<ge> 5 \<and> r \<and> list_all id (take 4 rs) then True
      else health rs)"

definition run_length :: "('a \<Rightarrow> bool) \<Rightarrow> 'a list \<Rightarrow> nat" where
  "run_length P rs = length (takeWhile P rs)"

lemma run_length_simps [simp]: "run_length P [] = 0" "run_length P (r # rs) = (if P r then Suc (run_length P rs) else 0)"
  by (simp_all add: run_length_def)

lemma run_length_ge: "k \<le> run_length P rs \<longleftrightarrow> k \<le> length rs \<and> list_all P (take k rs)"
proof (induction rs arbitrary: k)
  case (Cons r rs)
  then show ?case by (cases k) auto
qed simp

lemma health_step:
  "health (r # rs) =
     (if r then (if 5 \<le> run_length id (r # rs) then True else health rs)
      else (if 3 \<le> run_length Not (r # rs) then False else health rs))"
  using run_length_ge[of 2 Not rs] run_length_ge[of 4 id rs] by (auto simp: numeral_eq_Suc)

definition watch_inv :: "bool list \<Rightarrow> wstatus \<Rightarrow> bool" where
  "watch_inv rs s =
     (ws_ok s = health rs \<and> ws_successes s = run_length id rs \<and> ws_failures s = run_length Not rs \<and>
      ws_checks s = length rs \<and> ws_failed s = length (filter Not rs))"

lemma apply_check_inv:
  assumes "watch_inv rs s"
  shows "watch_inv (fst r # rs) (apply_check_result s r)"
  using assms
  by (cases r) (auto simp: watch_inv_def apply_check_result_def Let_def FAIL_THRESHOLD_def RECOVER_THRESHOLD_def
      health_step simp del: health.simps)

text \<open>The cached health is what the history of probes means: not ok from three failures in a row until five
  successes in a row, whatever came between.
\<close>

theorem health_follows_probes:
  "ws_ok (foldl apply_check_result new_wstatus rs) = health (rev (map fst rs))"
proof -
  have "watch_inv (rev (map fst rs)) (foldl apply_check_result new_wstatus rs)"
  proof (induction rs rule: rev_induct)
    case Nil
    show ?case by (simp add: watch_inv_def new_wstatus_def)
  next
    case (snoc r rs)
    then show ?case using apply_check_inv[of "rev (map fst rs)" _ r] by simp
  qed
  then show ?thesis by (simp add: watch_inv_def)
qed

text \<open>
  A watchdog that died while the device was healthy keeps its count of successes: after a restart one
  good probe makes it ok again, not five.
\<close>

lemma restart_skips_hysteresis:
  "let es = replicate 5 (Probed (True, ReasonOk)) @ [Died, Restarted]; s = foldl watch_step new_wstatus es
   in \<not> ws_ok s \<and> ws_reason s = ReasonOk \<and> ws_ok (watch_step s (Probed (True, ReasonOk)))"
  by code_simp

text \<open>\<open>nan\<close> and \<open>inf\<close> pass the check of the interval; the sleep then raises or does not return.\<close>

lemma interval_not_finite:
  "parse_interval (\<lambda>_. Some NotANumber) (Some ''nan'') = NotANumber"
  "parse_interval (\<lambda>_. Some (Infinite False)) (Some ''inf'') = Infinite False"
  by code_simp+

end
