(* ===== verification/AgentText.thy ===== *)
theory AgentText
  imports Prelude "HOL-Library.Sublist"
begin

section \<open>What the agent reads in a transcript\<close>

text \<open>
  The checks of \<open>BaseApp\<close> (\<^verbatim>\<open>agent/ovs_agent/app_base.py\<close>) on recognised text: the stop intent, the wake
  phrase in front of a command, and finals that carry no signal. Case folding and the Unicode category
  are parameters: \<open>lower\<close> is \<open>str.lower\<close>, \<open>letter\<close> holds for the categories L and N.
\<close>

record text_tables =
  tt_lower :: "ustr \<Rightarrow> ustr"
  tt_letter :: "int \<Rightarrow> bool"
  tt_stop_words :: "ustr list"
  tt_wake_phrases :: "ustr list"

definition text_ascii :: "ustr \<Rightarrow> bool" where
  "text_ascii s = list_all (\<lambda>c. 0 \<le> c \<and> c < 128) s"

text \<open>The punctuation of a sentence end, and what can stand between a wake phrase and a command.\<close>

definition stop_punct :: "int list" where
  "stop_punct = [12290, 65292, 65281, 65311, 46, 33, 63, 44, 59, 58]"

definition WAKE_SEPARATORS :: "int list" where
  "WAKE_SEPARATORS = [32, 44, 65292, 46, 12290, 33, 65281, 63, 65311, 58, 65306, 59, 12289]"

definition normalise_for_stop :: "text_tables \<Rightarrow> ustr \<Rightarrow> ustr" where
  "normalise_for_stop tt text =
     (if text = [] then []
      else tt_lower tt (u_strip (rev (dropWhile (\<lambda>c. c \<in> set stop_punct) (rev (u_strip text))))))"

definition stop_word_hit :: "text_tables \<Rightarrow> ustr \<Rightarrow> ustr \<Rightarrow> bool" where
  "stop_word_hit tt norm w =
     (w \<noteq> [] \<and>
      (let wn = tt_lower tt (u_strip w)
       in wn \<noteq> [] \<and>
          (if \<not> text_ascii wn then norm = wn
           else norm = wn \<or>
             (length wn \<ge> 2 \<and> (\<exists>c \<in> set [32, 44, 33, 63, 46]. starts_with (wn @ [c]) norm)))))"

definition is_stop_intent :: "text_tables \<Rightarrow> ustr \<Rightarrow> bool" where
  "is_stop_intent tt text =
     (let norm = normalise_for_stop tt text in norm \<noteq> [] \<and> list_ex (stop_word_hit tt norm) (tt_stop_words tt))"

text \<open>
  \<open>None\<close>: the utterance is the wake phrase and is dropped. The separator test of the code is a
  substring test, so it holds at the end of the text too.
\<close>

fun strip_wake_phrases :: "text_tables \<Rightarrow> ustr \<Rightarrow> ustr list \<Rightarrow> ustr option" where
  "strip_wake_phrases tt stripped [] = Some stripped"
| "strip_wake_phrases tt stripped (raw # phrases) =
     (let p = tt_lower tt (u_strip raw); rest = drop (length p) stripped
      in if p = [] then strip_wake_phrases tt stripped phrases
         else if normalise_for_stop tt stripped = p then None
         else if starts_with p (tt_lower tt stripped) \<and> (rest = [] \<or> hd rest \<in> set WAKE_SEPARATORS) then
           (let r = u_strip (dropWhile (\<lambda>c. c \<in> set WAKE_SEPARATORS) rest) in if r = [] then None else Some r)
         else strip_wake_phrases tt stripped phrases)"

definition strip_wake_prefix :: "text_tables \<Rightarrow> ustr \<Rightarrow> ustr option" where
  "strip_wake_prefix tt text =
     (if text = [] \<or> tt_wake_phrases tt = [] then Some text
      else strip_wake_phrases tt (u_strip text) (tt_wake_phrases tt))"

definition INTERJECTIONS :: "ustr list" where
  "INTERJECTIONS =
    [[21999], [21834], [21734], [21571], [21769], [35830], [21710], [22114], [21780], [21568], [21704],
     [21703], [21602], [21543], [21527], [21584], [22043], [35830, 21568], [21834, 21834], [21999, 21999],
     [117, 104], [117, 109], [97, 104], [111, 104], [111, 107], [111, 107, 97, 121], [104, 109, 109],
     [104, 117, 104], [121, 101, 97, 104], [121, 101, 112], [121, 111, 117], [116, 104, 101], [97, 110, 100],
     [97], [105]]"

definition strip_for_signal :: "text_tables \<Rightarrow> ustr \<Rightarrow> ustr" where
  "strip_for_signal tt text = tt_lower tt (filter (tt_letter tt) text)"

definition low_signal :: "text_tables \<Rightarrow> ustr \<Rightarrow> bool" where
  "low_signal tt text =
     (let signal = strip_for_signal tt text
      in u_strip text = [] \<or> length signal \<le> 1 \<or> signal \<in> set INTERJECTIONS)"

subsection \<open>Properties\<close>

lemma u_strip_sublist: "sublist (u_strip s) s"
proof -
  have "sublist (u_lstrip s) s" unfolding u_lstrip_def by (metis suffix_dropWhile suffix_imp_sublist)
  moreover have "prefix (u_rstrip t) t" for t
    unfolding u_rstrip_def using suffix_dropWhile[of u_space "rev t"] by (simp add: suffix_to_prefix)
  then have "sublist (u_rstrip (u_lstrip s)) (u_lstrip s)" by (rule prefix_imp_sublist)
  ultimately show ?thesis unfolding u_strip_def by (meson sublist_order.order.trans)
qed

lemma strip_wake_phrases_sublist:
  "strip_wake_phrases tt s ps = Some r \<Longrightarrow> sublist r s"
proof (induction tt s ps rule: strip_wake_phrases.induct)
  case (2 tt s raw phrases)
  let ?rest = "drop (length (tt_lower tt (u_strip raw))) s"
  have "sublist (u_strip (dropWhile (\<lambda>c. c \<in> set WAKE_SEPARATORS) ?rest)) s"
    by (meson sublist_order.order.trans u_strip_sublist suffix_imp_sublist suffix_dropWhile suffix_drop)
  with 2 show ?case by (auto simp: Let_def split: if_splits)
qed simp

text \<open>
  What is left of an utterance after its wake phrase is an unbroken part of what was said: nothing is
  made up or reordered.
\<close>

lemma strip_wake_prefix_sublist: "strip_wake_prefix tt text = Some r \<Longrightarrow> sublist r text"
  unfolding strip_wake_prefix_def
  by (auto split: if_splits dest!: strip_wake_phrases_sublist intro: sublist_order.order.trans u_strip_sublist)

text \<open>
  The code cuts the original text by the length of the lower-case phrase, on the ground that lower case
  keeps the length. Where it does not (a dotted capital I becomes two code points) the separator is cut
  off with the phrase, and the phrase stays in front of the command.
\<close>

definition dotted_tables :: text_tables where
  "dotted_tables = \<lparr>tt_lower = (\<lambda>s. concat (map (\<lambda>c. if c = 304 then [105, 775] else if 65 \<le> c \<and> c \<le> 90 then [c + 32] else [c]) s)),
     tt_letter = (\<lambda>c. 64 < c), tt_stop_words = [], tt_wake_phrases = [[304, 98]]\<rparr>"

lemma wake_phrase_stays:
  "strip_wake_prefix dotted_tables [304, 98, 32, 103, 111] = Some [304, 98, 32, 103, 111]"
  "strip_wake_prefix dotted_tables [304, 98, 44, 32, 103, 111] = Some [103, 111]"
  by code_simp+

end
