(* ===== verification/AgentConv.thy ===== *)
theory AgentConv
  imports AgentText Complex_Main
begin

section \<open>The conversation of the voice agent\<close>

text \<open>
  The conversation state of \<open>BaseApp\<close> (\<^verbatim>\<open>agent/ovs_agent/app_base.py\<close>, \<^verbatim>\<open>state.py\<close>) with the timers and
  tasks around it, and the push-to-talk and reconnect controls of the dashboard
  (\<^verbatim>\<open>plugins/debug_dashboard.py\<close>). A handler is a function on the state and runs to its end: what other
  handlers do while one of them waits is not modelled. A timer or task is armed or not, and its end is an
  event of its own, at any time. What a handler does to the outside is appended to a trace. The clock,
  whether audio is playing and how the connection is are inputs of each event; a reconnect that fails does
  so with one of the errors of the client. Reports to the availability monitor are left out.
\<close>

subsection \<open>State\<close>

datatype conv = Idle | Listening | Thinking | Speaking | BargedIn | Sleeping

datatype pipeline_mode = AlwaysOn | WakeWord | PushToTalk

datatype action =
    StateChange conv conv
  | Hook string
  | StartLlm ustr
  | CancelLlm
  | StopPlayback
  | ArmPlayback
  | PlayFrame
  | MarkPlaybackDone
  | AbortEngine
  | TruncateEngine
  | SendEos
  | Reconnect
  | Say ustr
  | WakeTone
  | SleepTone

record agent_cfg =
  ac_text :: text_tables
  ac_mode :: pipeline_mode
  ac_single_turn :: bool
  ac_wake_timeout :: rat
  ac_no_final_text :: ustr
  ac_stall_ms :: rat
  ac_drain :: bool
  ac_reconnect_on_wake :: bool
  ac_wake_skip_ms :: rat
  ac_wake_tone :: "rat option"
  ac_sleep_tone :: "rat option"
  ac_barge_override :: "bool option"
  ac_barge :: "bool option"
  ac_barge_chars :: int
  ac_barge_ms :: rat
  ac_dup_window :: rat
  ac_client_vad :: bool
  ac_chunk_ms :: int
  ac_vad_min_ms :: int
  ac_vad_silence_ms :: int
  ac_drive_eos :: bool
  ac_ptt_no_vad :: bool

record surroundings =
  w_now :: rat
  w_playing :: bool
  w_healthy :: bool
  w_idle_s :: rat
  w_reconnects :: bool
  w_sends :: bool

record agent =
  ag_conv :: conv
  ag_llm :: bool
  ag_first_tts :: bool
  ag_drop :: bool
  ag_last_sentence :: ustr
  ag_last_ts :: rat
  ag_speaking_since :: rat
  ag_vad_speech :: bool
  ag_speech_ms :: int
  ag_silence_ms :: int
  ag_vad_eos :: bool
  ag_latch :: bool
  ag_asr_wd :: bool
  ag_stall_wd :: bool
  ag_think_wd :: bool
  ag_drain :: bool
  ag_sleep_timer :: bool
  ag_wake_timer :: bool
  ag_retry :: bool
  ag_ptt_pending :: bool
  ag_skip_until :: rat
  ag_suppress_until :: rat
  ag_reconnects :: nat
  ag_utterance :: ustr
  ag_trace :: "action list"

definition new_agent :: "agent_cfg \<Rightarrow> agent" where
  "new_agent cfg =
     \<lparr>ag_conv = (if ac_mode cfg = AlwaysOn then Idle else Sleeping), ag_llm = False, ag_first_tts = False,
      ag_drop = False, ag_last_sentence = [], ag_last_ts = 0, ag_speaking_since = 0, ag_vad_speech = False,
      ag_speech_ms = 0, ag_silence_ms = 0, ag_vad_eos = False, ag_latch = False, ag_asr_wd = False,
      ag_stall_wd = False, ag_think_wd = False, ag_drain = False, ag_sleep_timer = False,
      ag_wake_timer = False, ag_retry = False, ag_ptt_pending = False, ag_skip_until = 0,
      ag_suppress_until = 0, ag_reconnects = 0, ag_utterance = [], ag_trace = []\<rparr>"

definition act :: "action \<Rightarrow> agent \<Rightarrow> agent" where
  "act a s = s\<lparr>ag_trace := ag_trace s @ [a]\<rparr>"

definition hook :: "string \<Rightarrow> agent \<Rightarrow> agent" where
  "hook h = act (Hook h)"

definition set_state :: "conv \<Rightarrow> agent \<Rightarrow> agent" where
  "set_state c s = (if ag_conv s = c then s else act (StateChange (ag_conv s) c) (s\<lparr>ag_conv := c\<rparr>))"

definition cancel_llm :: "agent \<Rightarrow> agent" where
  "cancel_llm s = (if ag_llm s then act CancelLlm (s\<lparr>ag_llm := False\<rparr>) else s)"

definition single_turn :: "agent_cfg \<Rightarrow> bool" where
  "single_turn cfg = (ac_mode cfg = WakeWord \<and> ac_single_turn cfg)"

subsection \<open>Timers\<close>

definition reset_sleep_timer :: "agent_cfg \<Rightarrow> agent \<Rightarrow> agent" where
  "reset_sleep_timer cfg s = (if ac_mode cfg = AlwaysOn then s else s\<lparr>ag_sleep_timer := True\<rparr>)"

definition ensure_sleep_timer :: "agent_cfg \<Rightarrow> agent \<Rightarrow> agent" where
  "ensure_sleep_timer cfg s =
     (if ac_mode cfg = AlwaysOn then s else if ag_sleep_timer s then s else reset_sleep_timer cfg s)"

definition cancel_wake_timeout :: "agent \<Rightarrow> agent" where
  "cancel_wake_timeout s = s\<lparr>ag_wake_timer := False\<rparr>"

definition arm_wake_timeout :: "agent_cfg \<Rightarrow> agent \<Rightarrow> agent" where
  "arm_wake_timeout cfg s =
     (let s = cancel_wake_timeout s
      in if \<not> single_turn cfg \<or> ac_wake_timeout cfg \<le> 0 then s else s\<lparr>ag_wake_timer := True\<rparr>)"

definition arm_stall_watchdog :: "agent_cfg \<Rightarrow> agent \<Rightarrow> agent" where
  "arm_stall_watchdog cfg s = (if ac_stall_ms cfg \<le> 0 then s else s\<lparr>ag_stall_wd := True\<rparr>)"

definition play_tone :: "rat option \<Rightarrow> action \<Rightarrow> surroundings \<Rightarrow> agent \<Rightarrow> agent" where
  "play_tone tone a w s =
     (case tone of None \<Rightarrow> s
      | Some d \<Rightarrow> act a (s\<lparr>ag_suppress_until := max (ag_suppress_until s) (w_now w + d)\<rparr>))"

definition send_asr_eos_once :: "agent \<Rightarrow> bool \<times> agent" where
  "send_asr_eos_once s =
     (if ag_latch s then (False, s) else (True, (act SendEos (s\<lparr>ag_latch := True\<rparr>))\<lparr>ag_asr_wd := True\<rparr>))"

subsection \<open>Wake and sleep\<close>

definition reconnected :: "agent \<Rightarrow> agent" where
  "reconnected s = act Reconnect (s\<lparr>ag_reconnects := ag_reconnects s + 1\<rparr>)"

definition awaken :: "agent_cfg \<Rightarrow> surroundings \<Rightarrow> agent \<Rightarrow> agent" where
  "awaken cfg w s =
     (let s = act ArmPlayback (hook ''on_wake'' s);
          s = reset_sleep_timer cfg (set_state Idle s)
      in play_tone (ac_wake_tone cfg) WakeTone w (arm_wake_timeout cfg s))"

definition wake :: "agent_cfg \<Rightarrow> surroundings \<Rightarrow> bool \<Rightarrow> agent \<Rightarrow> agent" where
  "wake cfg w local s =
     (let s = (if local \<and> ac_wake_skip_ms cfg > 0 then s\<lparr>ag_skip_until := w_now w + ac_wake_skip_ms cfg / 1000\<rparr> else s)
      in if ag_conv s \<noteq> Sleeping then s
         else if ac_reconnect_on_wake cfg \<or> \<not> w_healthy w \<or> w_idle_s w > 30 then
           if w_reconnects w then awaken cfg w (hook ''on_slv_reconnect'' (reconnected s))
           else hook ''on_wake_failed'' s
         else awaken cfg w s)"

definition go_to_sleep :: "agent \<Rightarrow> agent" where
  "go_to_sleep s =
     (if ag_conv s = Sleeping then s
      else let s = act StopPlayback (act AbortEngine (cancel_llm (hook ''on_sleep'' s)));
               s = (cancel_wake_timeout s)\<lparr>ag_drain := False, ag_first_tts := False\<rparr>
           in (set_state Sleeping s)\<lparr>ag_sleep_timer := False\<rparr>)"

definition return_to_sleep :: "agent_cfg \<Rightarrow> surroundings \<Rightarrow> agent \<Rightarrow> agent" where
  "return_to_sleep cfg w s =
     (let s = cancel_wake_timeout s
      in if ag_conv s = Sleeping then s
         else let s = s\<lparr>ag_sleep_timer := False, ag_first_tts := False, ag_latch := False, ag_retry := False\<rparr>
              in set_state Sleeping (play_tone (ac_sleep_tone cfg) SleepTone w s))"

definition open_retry_window :: "agent_cfg \<Rightarrow> agent \<Rightarrow> agent" where
  "open_retry_window cfg s =
     (let s = (cancel_wake_timeout s)\<lparr>ag_sleep_timer := False, ag_first_tts := False, ag_latch := False, ag_retry := False\<rparr>
      in if ag_conv s \<noteq> BargedIn then arm_wake_timeout cfg (set_state Idle s) else s)"

definition complete_turn :: "agent_cfg \<Rightarrow> surroundings \<Rightarrow> agent \<Rightarrow> agent" where
  "complete_turn cfg w s =
     (if ag_conv s \<noteq> BargedIn \<and> single_turn cfg \<and> ag_retry s then
        hook ''on_assistant_done'' (open_retry_window cfg s)
      else hook ''on_assistant_done''
        (if ag_conv s \<noteq> BargedIn \<and> single_turn cfg then return_to_sleep cfg w s
         else if ag_conv s \<noteq> BargedIn then reset_sleep_timer cfg (set_state Idle s)
         else s))"

text \<open>The feedback after a command that was not heard, and what follows when there is none to give.\<close>

definition speak_no_final :: "agent_cfg \<Rightarrow> surroundings \<Rightarrow> agent \<Rightarrow> bool \<times> agent" where
  "speak_no_final cfg w s =
     (let text = u_strip (ac_no_final_text cfg)
      in if text = [] then (False, s)
         else if w_sends w then (True, act (Say text) (hook ''on_assistant_sentence_start'' (s\<lparr>ag_retry := True\<rparr>)))
         else (False, hook ''on_assistant_sentence_start'' (s\<lparr>ag_retry := False\<rparr>)))"

definition no_final_heard :: "agent_cfg \<Rightarrow> surroundings \<Rightarrow> agent \<Rightarrow> agent" where
  "no_final_heard cfg w s =
     (let (spoken, s) = speak_no_final cfg w s
      in if spoken then s else hook ''on_assistant_done'' (return_to_sleep cfg w s))"

subsection \<open>Barge-in\<close>

definition barge_in_enabled :: "agent_cfg \<Rightarrow> bool" where
  "barge_in_enabled cfg =
     (case ac_barge_override cfg of Some b \<Rightarrow> b
      | None \<Rightarrow> (case ac_barge cfg of None \<Rightarrow> True | Some b \<Rightarrow> b))"

definition barge_delay_elapsed :: "agent_cfg \<Rightarrow> surroundings \<Rightarrow> agent \<Rightarrow> bool" where
  "barge_delay_elapsed cfg w s =
     ((if ag_speaking_since s \<noteq> 0 then (w_now w - ag_speaking_since s) * 1000 else 99999) \<ge> ac_barge_ms cfg)"

definition interrupt_turn :: "agent \<Rightarrow> agent" where
  "interrupt_turn s =
     (let s = act TruncateEngine (act AbortEngine (act StopPlayback (cancel_llm s)))
      in s\<lparr>ag_latch := False, ag_asr_wd := False, ag_first_tts := False\<rparr>)"

definition barge_in :: "agent \<Rightarrow> agent" where
  "barge_in s = interrupt_turn (set_state BargedIn s)"

definition can_barge_in :: "agent_cfg \<Rightarrow> surroundings \<Rightarrow> agent \<Rightarrow> bool" where
  "can_barge_in cfg w s = (w_playing w \<and> barge_in_enabled cfg \<and> barge_delay_elapsed cfg w s)"

subsection \<open>Client-side voice activity\<close>

definition vad_onset :: "agent_cfg \<Rightarrow> surroundings \<Rightarrow> agent \<Rightarrow> agent" where
  "vad_onset cfg w s =
     (let s = s\<lparr>ag_vad_speech := True, ag_silence_ms := 0, ag_vad_eos := False\<rparr>;
          s = (if ag_conv s = Thinking \<and> ag_latch s then s\<lparr>ag_latch := False, ag_asr_wd := False\<rparr> else s)
      in if ag_conv s = Speaking \<and> can_barge_in cfg w s then barge_in s
         else if w_playing w then s
         else set_state Listening s)"

definition vad_end :: "agent_cfg \<Rightarrow> agent \<Rightarrow> agent" where
  "vad_end cfg s =
     (let s = (if ag_vad_eos s then s
               else let s = hook ''on_user_speech_end_client'' s;
                        s = (if ac_drive_eos cfg then snd (send_asr_eos_once s) else s)
                    in (set_state Thinking s)\<lparr>ag_think_wd := True, ag_vad_eos := True\<rparr>)
      in s\<lparr>ag_vad_speech := False, ag_speech_ms := 0, ag_silence_ms := 0\<rparr>)"

definition update_vad :: "agent_cfg \<Rightarrow> surroundings \<Rightarrow> bool \<Rightarrow> agent \<Rightarrow> agent" where
  "update_vad cfg w is_speech s =
     (if ag_conv s = Sleeping then s
      else if ac_mode cfg = PushToTalk \<and> ac_ptt_no_vad cfg then s
      else if \<not> ag_vad_speech s then
        (if is_speech then
           (let s = s\<lparr>ag_speech_ms := ag_speech_ms s + ac_chunk_ms cfg\<rparr>
            in if ag_speech_ms s \<ge> ac_vad_min_ms cfg then vad_onset cfg w s else s)
         else s\<lparr>ag_speech_ms := 0\<rparr>)
      else if \<not> is_speech then
        (let s = s\<lparr>ag_silence_ms := ag_silence_ms s + ac_chunk_ms cfg\<rparr>
         in if ag_silence_ms s \<ge> ac_vad_silence_ms cfg then vad_end cfg s else s)
      else s\<lparr>ag_silence_ms := 0\<rparr>)"

text \<open>The energy gate of the microphone closed after speech long enough.\<close>

definition gate_eos :: "agent \<Rightarrow> agent" where
  "gate_eos s = (let (sent, s) = send_asr_eos_once s in if sent then set_state Thinking (cancel_wake_timeout s) else s)"

subsection \<open>Watchdogs\<close>

datatype timer = AsrWatchdog | StallWatchdog | ThinkingWatchdog | SleepTimer | WakeTimeout | PlaybackDrain

definition asr_final_watchdog :: "agent_cfg \<Rightarrow> surroundings \<Rightarrow> agent \<Rightarrow> agent" where
  "asr_final_watchdog cfg w s =
     (if \<not> ag_latch s then s
      else if ag_conv s \<noteq> Thinking then s\<lparr>ag_latch := False\<rparr>
      else let s = s\<lparr>ag_latch := False\<rparr>
           in if single_turn cfg then no_final_heard cfg w s else set_state Idle s)"

definition stall_eos_watchdog :: "agent_cfg \<Rightarrow> agent \<Rightarrow> agent" where
  "stall_eos_watchdog cfg s =
     (if ac_stall_ms cfg \<le> 0 \<or> ag_conv s \<notin> {Idle, Listening} \<or> ag_latch s then s else snd (send_asr_eos_once s))"

definition thinking_watchdog :: "agent_cfg \<Rightarrow> surroundings \<Rightarrow> agent \<Rightarrow> agent" where
  "thinking_watchdog cfg w s =
     (if ag_conv s \<noteq> Thinking then s
      else let s = act AbortEngine (cancel_llm s);
               s = (if w_reconnects w then hook ''on_slv_reconnect'' (reconnected s) else s)
           in reset_sleep_timer cfg (set_state Idle (s\<lparr>ag_first_tts := False, ag_latch := False\<rparr>)))"

definition sleep_after :: "agent \<Rightarrow> agent" where
  "sleep_after s = (if ag_conv s = Idle then go_to_sleep s else s)"

definition wake_command_timeout :: "agent_cfg \<Rightarrow> agent \<Rightarrow> agent" where
  "wake_command_timeout cfg s =
     (if single_turn cfg \<and> ag_conv s \<in> {Idle, Listening} then snd (send_asr_eos_once (set_state Thinking s)) else s)"

fun armed :: "timer \<Rightarrow> agent \<Rightarrow> bool" where
  "armed AsrWatchdog s = ag_asr_wd s"
| "armed StallWatchdog s = ag_stall_wd s"
| "armed ThinkingWatchdog s = ag_think_wd s"
| "armed SleepTimer s = ag_sleep_timer s"
| "armed WakeTimeout s = ag_wake_timer s"
| "armed PlaybackDrain s = ag_drain s"

text \<open>The task of a timer is over when its handler has run.\<close>

fun fire :: "agent_cfg \<Rightarrow> surroundings \<Rightarrow> timer \<Rightarrow> agent \<Rightarrow> agent" where
  "fire cfg w AsrWatchdog s = asr_final_watchdog cfg w (s\<lparr>ag_asr_wd := False\<rparr>)"
| "fire cfg w StallWatchdog s = stall_eos_watchdog cfg (s\<lparr>ag_stall_wd := False\<rparr>)"
| "fire cfg w ThinkingWatchdog s = thinking_watchdog cfg w (s\<lparr>ag_think_wd := False\<rparr>)"
| "fire cfg w SleepTimer s = sleep_after (s\<lparr>ag_sleep_timer := False\<rparr>)"
| "fire cfg w WakeTimeout s = wake_command_timeout cfg (s\<lparr>ag_wake_timer := False\<rparr>)"
| "fire cfg w PlaybackDrain s = complete_turn cfg w (s\<lparr>ag_drain := False\<rparr>)"

subsection \<open>Events of the speech engine\<close>

datatype speech_event =
    AsrPartial ustr
  | AsrEndpoint
  | SpeechStarted
  | SpeechStopped
  | AudioCommitted
  | ItemTruncated
  | ConversationReset
  | AsrFinal ustr bool bool
  | TtsStarted ustr
  | ResponseCreated
  | TtsAudio
  | TtsSentenceDone
  | OutputAudioDone
  | TranscriptDelta
  | TranscriptDone
  | ResponseDone bool
  | TtsDone
  | EngineError

text \<open>
  A final carries its text, whether it repeats streamed text, and whether the session is complete; the
  end of a response, whether its output is function calls and nothing else.
\<close>

definition on_partial :: "agent_cfg \<Rightarrow> surroundings \<Rightarrow> ustr \<Rightarrow> agent \<Rightarrow> agent" where
  "on_partial cfg w text s =
     (let partial = u_strip text
      in if partial = [] then s
         else let s = (if ag_conv s \<in> {Idle, Listening} then arm_stall_watchdog cfg s else s)
              in if int (length partial) < ac_barge_chars cfg \<or> \<not> barge_delay_elapsed cfg w s then s
                 else let s = (if ag_conv s \<in> {Speaking, BargedIn} \<and> w_playing w \<and> barge_in_enabled cfg
                               then barge_in s else s)
                      in hook ''on_user_partial'' s)"

definition on_speech_started :: "agent_cfg \<Rightarrow> surroundings \<Rightarrow> agent \<Rightarrow> agent" where
  "on_speech_started cfg w s =
     (let s = hook ''on_user_speech_start'' s
      in if ag_conv s = Speaking \<and> can_barge_in cfg w s then barge_in s else s)"

definition final_reconnect :: "surroundings \<Rightarrow> bool \<Rightarrow> agent \<Rightarrow> agent" where
  "final_reconnect w ended s =
     (if ended \<and> w_reconnects w then hook ''on_slv_reconnect'' ((reconnected s)\<lparr>ag_first_tts := False\<rparr>) else s)"

definition on_low_signal :: "agent_cfg \<Rightarrow> surroundings \<Rightarrow> bool \<Rightarrow> agent \<Rightarrow> agent" where
  "on_low_signal cfg w had_eos s =
     (let s = act ArmPlayback s
      in if ag_conv s \<in> {Listening, BargedIn} then ensure_sleep_timer cfg (set_state Idle s)
         else if ag_conv s = Thinking \<and> had_eos then
           (if single_turn cfg then no_final_heard cfg w s else ensure_sleep_timer cfg (set_state Idle s))
         else s)"

definition stop_turn :: "agent_cfg \<Rightarrow> agent \<Rightarrow> agent" where
  "stop_turn cfg s =
     (let s = act StopPlayback (act AbortEngine (cancel_llm s))
      in hook ''on_user_stop_intent'' (reset_sleep_timer cfg (set_state Idle s)))"

definition start_turn :: "ustr \<Rightarrow> agent \<Rightarrow> agent" where
  "start_turn text s =
     (let s = (set_state Thinking (cancel_llm s))\<lparr>ag_think_wd := True, ag_llm := True\<rparr> in act (StartLlm text) s)"

definition on_utterance :: "agent_cfg \<Rightarrow> ustr \<Rightarrow> agent \<Rightarrow> agent" where
  "on_utterance cfg text s =
     (let s = act ArmPlayback (cancel_wake_timeout (s\<lparr>ag_utterance := text\<rparr>));
          s = s\<lparr>ag_vad_speech := False, ag_speech_ms := 0, ag_silence_ms := 0, ag_vad_eos := False, ag_latch := False\<rparr>;
          s = hook ''on_user_utterance'' s
      in if is_stop_intent (ac_text cfg) text then stop_turn cfg s else start_turn text s)"

definition on_final :: "agent_cfg \<Rightarrow> surroundings \<Rightarrow> ustr \<Rightarrow> bool \<Rightarrow> bool \<Rightarrow> agent \<Rightarrow> agent" where
  "on_final cfg w text dup ended s =
     (let had_eos = ag_latch s; s = s\<lparr>ag_asr_wd := False, ag_stall_wd := False, ag_latch := False\<rparr>
      in if dup then (if ag_conv s = Thinking then reset_sleep_timer cfg (set_state Idle s) else s)
         else let s = final_reconnect w ended s
              in if low_signal (ac_text cfg) text then on_low_signal cfg w had_eos s
                 else on_utterance cfg text s)"

definition agent_tts_started :: "agent_cfg \<Rightarrow> surroundings \<Rightarrow> ustr \<Rightarrow> agent \<Rightarrow> agent" where
  "agent_tts_started cfg w text s =
     (let s = s\<lparr>ag_think_wd := False\<rparr>; sentence = u_strip text
      in if ac_dup_window cfg > 0 \<and> sentence \<noteq> [] \<and> sentence = ag_last_sentence s \<and>
            w_now w - ag_last_ts s \<le> ac_dup_window cfg
         then s\<lparr>ag_drop := True\<rparr>
         else hook ''on_assistant_sentence_start'' (s\<lparr>ag_drop := False, ag_last_sentence := sentence, ag_last_ts := w_now w\<rparr>))"

definition on_tts_audio :: "surroundings \<Rightarrow> agent \<Rightarrow> agent" where
  "on_tts_audio w s =
     (if ag_drop s \<or> ag_conv s = BargedIn then s
      else let s = (if ag_first_tts s then s
                    else (set_state Speaking (s\<lparr>ag_first_tts := True\<rparr>))\<lparr>ag_speaking_since := w_now w\<rparr>)
           in act PlayFrame (hook ''on_tts_audio_frame'' s))"

text \<open>The end of a turn: at once, or after the playback has drained.\<close>

definition end_turn :: "agent_cfg \<Rightarrow> surroundings \<Rightarrow> agent \<Rightarrow> agent" where
  "end_turn cfg w s =
     (let barged = (ag_conv s = BargedIn); s = (if barged then s else s\<lparr>ag_drain := False\<rparr>)
      in if \<not> barged \<and> ac_drain cfg \<and> w_playing w then s\<lparr>ag_drain := True\<rparr>
         else (complete_turn cfg w s)\<lparr>ag_first_tts := False, ag_latch := False\<rparr>)"

definition on_response_done :: "agent_cfg \<Rightarrow> surroundings \<Rightarrow> bool \<Rightarrow> agent \<Rightarrow> agent" where
  "on_response_done cfg w functions_only s =
     (let s = hook ''on_response_done'' (s\<lparr>ag_first_tts := False, ag_think_wd := False\<rparr>)
      in if functions_only then (if ag_conv s \<noteq> BargedIn then set_state Thinking s else s)
         else end_turn cfg w s)"

text \<open>Whether audio still plays is read after \<open>mark_playback_done\<close>, which leaves buffered audio alone.\<close>

definition agent_tts_done :: "agent_cfg \<Rightarrow> surroundings \<Rightarrow> agent \<Rightarrow> agent" where
  "agent_tts_done cfg w s =
     end_turn cfg w (act MarkPlaybackDone (s\<lparr>ag_first_tts := False, ag_think_wd := False\<rparr>))"

definition on_engine_error :: "agent \<Rightarrow> agent" where
  "on_engine_error s =
     (let old = ag_conv s; s = cancel_llm (hook ''on_error'' (s\<lparr>ag_asr_wd := False, ag_think_wd := False\<rparr>))
      in if old \<noteq> Sleeping then set_state Idle s else s)"

fun dispatch_awake :: "agent_cfg \<Rightarrow> surroundings \<Rightarrow> speech_event \<Rightarrow> agent \<Rightarrow> agent" where
  "dispatch_awake cfg w (AsrPartial t) s = on_partial cfg w t s"
| "dispatch_awake cfg w AsrEndpoint s = hook ''on_user_speech_start'' s"
| "dispatch_awake cfg w SpeechStarted s = on_speech_started cfg w s"
| "dispatch_awake cfg w SpeechStopped s = hook ''on_user_speech_end'' s"
| "dispatch_awake cfg w AudioCommitted s = hook ''on_user_audio_committed'' s"
| "dispatch_awake cfg w ItemTruncated s = hook ''on_conversation_item_truncated'' s"
| "dispatch_awake cfg w ConversationReset s = hook ''on_conversation_reset'' s"
| "dispatch_awake cfg w (AsrFinal t dup ended) s = on_final cfg w t dup ended s"
| "dispatch_awake cfg w (TtsStarted t) s = agent_tts_started cfg w t s"
| "dispatch_awake cfg w ResponseCreated s = hook ''on_response_created'' (s\<lparr>ag_think_wd := False\<rparr>)"
| "dispatch_awake cfg w TtsAudio s = on_tts_audio w s"
| "dispatch_awake cfg w TtsSentenceDone s =
     (if ag_drop s then s\<lparr>ag_drop := False\<rparr> else hook ''on_assistant_sentence'' s)"
| "dispatch_awake cfg w OutputAudioDone s = hook ''on_response_output_audio_done'' (act MarkPlaybackDone s)"
| "dispatch_awake cfg w TranscriptDelta s = hook ''on_assistant_token'' s"
| "dispatch_awake cfg w TranscriptDone s = hook ''on_assistant_transcript_done'' s"
| "dispatch_awake cfg w (ResponseDone f) s = on_response_done cfg w f s"
| "dispatch_awake cfg w TtsDone s = agent_tts_done cfg w s"
| "dispatch_awake cfg w EngineError s = on_engine_error s"

fun asr_event :: "speech_event \<Rightarrow> bool" where
  "asr_event (AsrPartial t) = True"
| "asr_event AsrEndpoint = True"
| "asr_event (AsrFinal t d c) = True"
| "asr_event e = False"

text \<open>While asleep, transcripts are dropped; a final that ends the session still reconnects.\<close>

definition dispatch_one :: "agent_cfg \<Rightarrow> surroundings \<Rightarrow> speech_event \<Rightarrow> agent \<Rightarrow> agent" where
  "dispatch_one cfg w e s =
     (if ag_conv s = Sleeping \<and> asr_event e then
        (case e of AsrFinal t dup ended \<Rightarrow> final_reconnect w ended s | _ \<Rightarrow> s)
      else dispatch_awake cfg w e s)"

subsection \<open>Reader, language model and dashboard\<close>

definition dispatch_reconnect :: "surroundings \<Rightarrow> agent \<Rightarrow> agent" where
  "dispatch_reconnect w s =
     (if \<not> w_reconnects w then s
      else let s = (reconnected s)\<lparr>ag_first_tts := False, ag_latch := False, ag_asr_wd := False\<rparr>;
               s = (if ag_conv s \<in> {Thinking, BargedIn} then set_state Idle s else s)
           in hook ''on_slv_reconnect'' s)"

datatype llm_end = LlmFinished | LlmSilent | LlmNotOverridden | LlmFailed

definition llm_over :: "agent_cfg \<Rightarrow> llm_end \<Rightarrow> agent \<Rightarrow> agent" where
  "llm_over cfg r s =
     (let s = s\<lparr>ag_llm := False\<rparr>
      in case r of
           LlmFinished \<Rightarrow> s
         | LlmSilent \<Rightarrow> if ag_conv s = Thinking then reset_sleep_timer cfg (set_state Idle s) else s
         | LlmNotOverridden \<Rightarrow> set_state Idle s
         | LlmFailed \<Rightarrow> reset_sleep_timer cfg (set_state Idle (hook ''on_error'' s)))"

definition ptt_start :: "agent_cfg \<Rightarrow> surroundings \<Rightarrow> agent \<Rightarrow> agent" where
  "ptt_start cfg w s =
     (set_state Listening ((wake cfg w False s)\<lparr>ag_ptt_pending := True\<rparr>))
       \<lparr>ag_vad_speech := True, ag_speech_ms := 0, ag_silence_ms := 0, ag_vad_eos := False, ag_latch := False\<rparr>"

definition ptt_end :: "agent \<Rightarrow> agent" where
  "ptt_end s = (set_state Thinking ((snd (send_asr_eos_once s))\<lparr>ag_ptt_pending := False\<rparr>))\<lparr>ag_think_wd := True\<rparr>"

definition dash_reconnect :: "surroundings \<Rightarrow> agent \<Rightarrow> agent" where
  "dash_reconnect w s =
     (let s = set_state Idle ((act StopPlayback s)\<lparr>ag_first_tts := False\<rparr>)
      in if w_reconnects w then act ArmPlayback (act Reconnect s) else s)"

subsection \<open>The machine\<close>

datatype agent_event =
    Engine speech_event
  | MicChunk bool
  | GateClosed
  | WakeUp bool
  | SleepNow
  | Fire timer
  | LlmEnds llm_end
  | ReaderExited
  | PttStart
  | PttEnd
  | DashReconnect

text \<open>
  A timer that is not armed does not fire, and a turn that does not run does not end. With a client
  detector the microphone drives the detector, without one the energy gate.
\<close>

fun agent_step :: "agent_cfg \<Rightarrow> agent \<Rightarrow> surroundings \<times> agent_event \<Rightarrow> agent" where
  "agent_step cfg s (w, Engine e) = dispatch_one cfg w e s"
| "agent_step cfg s (w, MicChunk b) = (if ac_client_vad cfg then update_vad cfg w b s else s)"
| "agent_step cfg s (w, GateClosed) = (if ac_client_vad cfg then s else gate_eos s)"
| "agent_step cfg s (w, WakeUp local) = wake cfg w local s"
| "agent_step cfg s (w, SleepNow) = go_to_sleep s"
| "agent_step cfg s (w, Fire t) = (if armed t s then fire cfg w t s else s)"
| "agent_step cfg s (w, LlmEnds r) = (if ag_llm s then llm_over cfg r s else s)"
| "agent_step cfg s (w, ReaderExited) = dispatch_reconnect w s"
| "agent_step cfg s (w, PttStart) = ptt_start cfg w s"
| "agent_step cfg s (w, PttEnd) = ptt_end s"
| "agent_step cfg s (w, DashReconnect) = dash_reconnect w s"

definition agent_run :: "agent_cfg \<Rightarrow> agent \<Rightarrow> (surroundings \<times> agent_event) list \<Rightarrow> agent" where
  "agent_run cfg s es = foldl (agent_step cfg) s es"

end
