(* ===== verification/AgentConvProps.thy ===== *)
theory AgentConvProps
  imports AgentConv
begin

section \<open>Properties of the conversation\<close>

text \<open>
  What holds in every state of the machine of AgentConv: a turn that waits is guarded by a timer, a turn
  is only interrupted when it may be, an agent sent to sleep stays asleep, an idle agent returns to
  sleep. Where the code has ways around these, a closed run shows them.
\<close>

subsection \<open>What the small steps change\<close>

lemma act_simps [simp]:
  "ag_conv (act a s) = ag_conv s"
  "ag_llm (act a s) = ag_llm s"
  "ag_latch (act a s) = ag_latch s"
  "ag_asr_wd (act a s) = ag_asr_wd s"
  "ag_stall_wd (act a s) = ag_stall_wd s"
  "ag_think_wd (act a s) = ag_think_wd s"
  "ag_drain (act a s) = ag_drain s"
  "ag_sleep_timer (act a s) = ag_sleep_timer s"
  "ag_wake_timer (act a s) = ag_wake_timer s"
  "ag_drop (act a s) = ag_drop s"
  "ag_first_tts (act a s) = ag_first_tts s"
  "ag_speaking_since (act a s) = ag_speaking_since s"
  "ag_suppress_until (act a s) = ag_suppress_until s"
  "ag_skip_until (act a s) = ag_skip_until s"
  "ag_trace (act a s) = ag_trace s @ [a]"
  by (auto simp: act_def)

lemma hook_simps [simp]:
  "ag_conv (hook h s) = ag_conv s"
  "ag_llm (hook h s) = ag_llm s"
  "ag_latch (hook h s) = ag_latch s"
  "ag_asr_wd (hook h s) = ag_asr_wd s"
  "ag_stall_wd (hook h s) = ag_stall_wd s"
  "ag_think_wd (hook h s) = ag_think_wd s"
  "ag_drain (hook h s) = ag_drain s"
  "ag_sleep_timer (hook h s) = ag_sleep_timer s"
  "ag_wake_timer (hook h s) = ag_wake_timer s"
  "ag_drop (hook h s) = ag_drop s"
  "ag_first_tts (hook h s) = ag_first_tts s"
  "ag_speaking_since (hook h s) = ag_speaking_since s"
  "ag_suppress_until (hook h s) = ag_suppress_until s"
  "ag_skip_until (hook h s) = ag_skip_until s"
  "ag_trace (hook h s) = ag_trace s @ [Hook h]"
  by (auto simp: hook_def)

lemma set_state_simps [simp]:
  "ag_conv (set_state c s) = c"
  "ag_llm (set_state c s) = ag_llm s"
  "ag_latch (set_state c s) = ag_latch s"
  "ag_asr_wd (set_state c s) = ag_asr_wd s"
  "ag_stall_wd (set_state c s) = ag_stall_wd s"
  "ag_think_wd (set_state c s) = ag_think_wd s"
  "ag_drain (set_state c s) = ag_drain s"
  "ag_sleep_timer (set_state c s) = ag_sleep_timer s"
  "ag_wake_timer (set_state c s) = ag_wake_timer s"
  "ag_drop (set_state c s) = ag_drop s"
  "ag_first_tts (set_state c s) = ag_first_tts s"
  "ag_speaking_since (set_state c s) = ag_speaking_since s"
  "ag_suppress_until (set_state c s) = ag_suppress_until s"
  "ag_skip_until (set_state c s) = ag_skip_until s"
  "ag_trace (set_state c s) = (if ag_conv s = c then ag_trace s else ag_trace s @ [StateChange (ag_conv s) c])"
  by (auto simp: set_state_def)

lemma cancel_llm_simps [simp]:
  "ag_conv (cancel_llm s) = ag_conv s"
  "ag_llm (cancel_llm s) = False"
  "ag_latch (cancel_llm s) = ag_latch s"
  "ag_asr_wd (cancel_llm s) = ag_asr_wd s"
  "ag_stall_wd (cancel_llm s) = ag_stall_wd s"
  "ag_think_wd (cancel_llm s) = ag_think_wd s"
  "ag_drain (cancel_llm s) = ag_drain s"
  "ag_sleep_timer (cancel_llm s) = ag_sleep_timer s"
  "ag_wake_timer (cancel_llm s) = ag_wake_timer s"
  "ag_drop (cancel_llm s) = ag_drop s"
  "ag_first_tts (cancel_llm s) = ag_first_tts s"
  "ag_speaking_since (cancel_llm s) = ag_speaking_since s"
  "ag_suppress_until (cancel_llm s) = ag_suppress_until s"
  "ag_skip_until (cancel_llm s) = ag_skip_until s"
  "ag_trace (cancel_llm s) = (if ag_llm s then ag_trace s @ [CancelLlm] else ag_trace s)"
  by (auto simp: cancel_llm_def)

lemma reset_sleep_simps [simp]:
  "ag_conv (reset_sleep_timer cfg s) = ag_conv s"
  "ag_llm (reset_sleep_timer cfg s) = ag_llm s"
  "ag_latch (reset_sleep_timer cfg s) = ag_latch s"
  "ag_asr_wd (reset_sleep_timer cfg s) = ag_asr_wd s"
  "ag_stall_wd (reset_sleep_timer cfg s) = ag_stall_wd s"
  "ag_think_wd (reset_sleep_timer cfg s) = ag_think_wd s"
  "ag_drain (reset_sleep_timer cfg s) = ag_drain s"
  "ag_sleep_timer (reset_sleep_timer cfg s) = (ac_mode cfg \<noteq> AlwaysOn \<or> ag_sleep_timer s)"
  "ag_wake_timer (reset_sleep_timer cfg s) = ag_wake_timer s"
  "ag_drop (reset_sleep_timer cfg s) = ag_drop s"
  "ag_first_tts (reset_sleep_timer cfg s) = ag_first_tts s"
  "ag_speaking_since (reset_sleep_timer cfg s) = ag_speaking_since s"
  "ag_suppress_until (reset_sleep_timer cfg s) = ag_suppress_until s"
  "ag_skip_until (reset_sleep_timer cfg s) = ag_skip_until s"
  "ag_trace (reset_sleep_timer cfg s) = ag_trace s"
  by (auto simp: reset_sleep_timer_def)

lemma ensure_sleep_simps [simp]:
  "ag_conv (ensure_sleep_timer cfg s) = ag_conv s"
  "ag_llm (ensure_sleep_timer cfg s) = ag_llm s"
  "ag_latch (ensure_sleep_timer cfg s) = ag_latch s"
  "ag_asr_wd (ensure_sleep_timer cfg s) = ag_asr_wd s"
  "ag_stall_wd (ensure_sleep_timer cfg s) = ag_stall_wd s"
  "ag_think_wd (ensure_sleep_timer cfg s) = ag_think_wd s"
  "ag_drain (ensure_sleep_timer cfg s) = ag_drain s"
  "ag_sleep_timer (ensure_sleep_timer cfg s) = (ac_mode cfg \<noteq> AlwaysOn \<or> ag_sleep_timer s)"
  "ag_wake_timer (ensure_sleep_timer cfg s) = ag_wake_timer s"
  "ag_drop (ensure_sleep_timer cfg s) = ag_drop s"
  "ag_first_tts (ensure_sleep_timer cfg s) = ag_first_tts s"
  "ag_speaking_since (ensure_sleep_timer cfg s) = ag_speaking_since s"
  "ag_suppress_until (ensure_sleep_timer cfg s) = ag_suppress_until s"
  "ag_skip_until (ensure_sleep_timer cfg s) = ag_skip_until s"
  "ag_trace (ensure_sleep_timer cfg s) = ag_trace s"
  by (auto simp: ensure_sleep_timer_def)

lemma cancel_wake_simps [simp]:
  "ag_conv (cancel_wake_timeout s) = ag_conv s"
  "ag_llm (cancel_wake_timeout s) = ag_llm s"
  "ag_latch (cancel_wake_timeout s) = ag_latch s"
  "ag_asr_wd (cancel_wake_timeout s) = ag_asr_wd s"
  "ag_stall_wd (cancel_wake_timeout s) = ag_stall_wd s"
  "ag_think_wd (cancel_wake_timeout s) = ag_think_wd s"
  "ag_drain (cancel_wake_timeout s) = ag_drain s"
  "ag_sleep_timer (cancel_wake_timeout s) = ag_sleep_timer s"
  "ag_wake_timer (cancel_wake_timeout s) = False"
  "ag_drop (cancel_wake_timeout s) = ag_drop s"
  "ag_first_tts (cancel_wake_timeout s) = ag_first_tts s"
  "ag_speaking_since (cancel_wake_timeout s) = ag_speaking_since s"
  "ag_suppress_until (cancel_wake_timeout s) = ag_suppress_until s"
  "ag_skip_until (cancel_wake_timeout s) = ag_skip_until s"
  "ag_trace (cancel_wake_timeout s) = ag_trace s"
  by (auto simp: cancel_wake_timeout_def)

lemma arm_wake_simps [simp]:
  "ag_conv (arm_wake_timeout cfg s) = ag_conv s"
  "ag_llm (arm_wake_timeout cfg s) = ag_llm s"
  "ag_latch (arm_wake_timeout cfg s) = ag_latch s"
  "ag_asr_wd (arm_wake_timeout cfg s) = ag_asr_wd s"
  "ag_stall_wd (arm_wake_timeout cfg s) = ag_stall_wd s"
  "ag_think_wd (arm_wake_timeout cfg s) = ag_think_wd s"
  "ag_drain (arm_wake_timeout cfg s) = ag_drain s"
  "ag_sleep_timer (arm_wake_timeout cfg s) = ag_sleep_timer s"
  "ag_wake_timer (arm_wake_timeout cfg s) = (single_turn cfg \<and> ac_wake_timeout cfg > 0)"
  "ag_drop (arm_wake_timeout cfg s) = ag_drop s"
  "ag_first_tts (arm_wake_timeout cfg s) = ag_first_tts s"
  "ag_speaking_since (arm_wake_timeout cfg s) = ag_speaking_since s"
  "ag_suppress_until (arm_wake_timeout cfg s) = ag_suppress_until s"
  "ag_skip_until (arm_wake_timeout cfg s) = ag_skip_until s"
  "ag_trace (arm_wake_timeout cfg s) = ag_trace s"
  by (auto simp: arm_wake_timeout_def Let_def)

lemma arm_stall_simps [simp]:
  "ag_conv (arm_stall_watchdog cfg s) = ag_conv s"
  "ag_llm (arm_stall_watchdog cfg s) = ag_llm s"
  "ag_latch (arm_stall_watchdog cfg s) = ag_latch s"
  "ag_asr_wd (arm_stall_watchdog cfg s) = ag_asr_wd s"
  "ag_stall_wd (arm_stall_watchdog cfg s) = (ac_stall_ms cfg > 0 \<or> ag_stall_wd s)"
  "ag_think_wd (arm_stall_watchdog cfg s) = ag_think_wd s"
  "ag_drain (arm_stall_watchdog cfg s) = ag_drain s"
  "ag_sleep_timer (arm_stall_watchdog cfg s) = ag_sleep_timer s"
  "ag_wake_timer (arm_stall_watchdog cfg s) = ag_wake_timer s"
  "ag_drop (arm_stall_watchdog cfg s) = ag_drop s"
  "ag_first_tts (arm_stall_watchdog cfg s) = ag_first_tts s"
  "ag_speaking_since (arm_stall_watchdog cfg s) = ag_speaking_since s"
  "ag_suppress_until (arm_stall_watchdog cfg s) = ag_suppress_until s"
  "ag_skip_until (arm_stall_watchdog cfg s) = ag_skip_until s"
  "ag_trace (arm_stall_watchdog cfg s) = ag_trace s"
  by (auto simp: arm_stall_watchdog_def)

lemma reconnected_simps [simp]:
  "ag_conv (reconnected s) = ag_conv s"
  "ag_llm (reconnected s) = ag_llm s"
  "ag_latch (reconnected s) = ag_latch s"
  "ag_asr_wd (reconnected s) = ag_asr_wd s"
  "ag_stall_wd (reconnected s) = ag_stall_wd s"
  "ag_think_wd (reconnected s) = ag_think_wd s"
  "ag_drain (reconnected s) = ag_drain s"
  "ag_sleep_timer (reconnected s) = ag_sleep_timer s"
  "ag_wake_timer (reconnected s) = ag_wake_timer s"
  "ag_drop (reconnected s) = ag_drop s"
  "ag_first_tts (reconnected s) = ag_first_tts s"
  "ag_speaking_since (reconnected s) = ag_speaking_since s"
  "ag_suppress_until (reconnected s) = ag_suppress_until s"
  "ag_skip_until (reconnected s) = ag_skip_until s"
  "ag_trace (reconnected s) = ag_trace s @ [Reconnect]"
  by (auto simp: reconnected_def)

lemma play_tone_simps [simp]:
  "ag_conv (play_tone t a w s) = ag_conv s"
  "ag_llm (play_tone t a w s) = ag_llm s"
  "ag_latch (play_tone t a w s) = ag_latch s"
  "ag_asr_wd (play_tone t a w s) = ag_asr_wd s"
  "ag_stall_wd (play_tone t a w s) = ag_stall_wd s"
  "ag_think_wd (play_tone t a w s) = ag_think_wd s"
  "ag_drain (play_tone t a w s) = ag_drain s"
  "ag_sleep_timer (play_tone t a w s) = ag_sleep_timer s"
  "ag_wake_timer (play_tone t a w s) = ag_wake_timer s"
  "ag_drop (play_tone t a w s) = ag_drop s"
  "ag_first_tts (play_tone t a w s) = ag_first_tts s"
  "ag_speaking_since (play_tone t a w s) = ag_speaking_since s"
  "ag_skip_until (play_tone t a w s) = ag_skip_until s"
  "ag_trace (play_tone t a w s) = (if t = None then ag_trace s else ag_trace s @ [a])"
  by (auto simp: play_tone_def split: option.split)

lemma final_reconnect_simps [simp]:
  "ag_conv (final_reconnect w ended s) = ag_conv s"
  "ag_llm (final_reconnect w ended s) = ag_llm s"
  "ag_latch (final_reconnect w ended s) = ag_latch s"
  "ag_asr_wd (final_reconnect w ended s) = ag_asr_wd s"
  "ag_stall_wd (final_reconnect w ended s) = ag_stall_wd s"
  "ag_think_wd (final_reconnect w ended s) = ag_think_wd s"
  "ag_drain (final_reconnect w ended s) = ag_drain s"
  "ag_sleep_timer (final_reconnect w ended s) = ag_sleep_timer s"
  "ag_wake_timer (final_reconnect w ended s) = ag_wake_timer s"
  "ag_drop (final_reconnect w ended s) = ag_drop s"
  "ag_first_tts (final_reconnect w ended s) = (\<not> (ended \<and> w_reconnects w) \<and> ag_first_tts s)"
  "ag_speaking_since (final_reconnect w ended s) = ag_speaking_since s"
  "ag_suppress_until (final_reconnect w ended s) = ag_suppress_until s"
  "ag_skip_until (final_reconnect w ended s) = ag_skip_until s"
  "ag_trace (final_reconnect w ended s) = (if ended \<and> w_reconnects w then ag_trace s @ [Reconnect, Hook ''on_slv_reconnect''] else ag_trace s)"
  by (auto simp: final_reconnect_def)

lemma eos_simps [simp]:
  "ag_conv (snd (send_asr_eos_once s)) = ag_conv s"
  "ag_llm (snd (send_asr_eos_once s)) = ag_llm s"
  "ag_latch (snd (send_asr_eos_once s)) = True"
  "ag_asr_wd (snd (send_asr_eos_once s)) = (\<not> ag_latch s \<or> ag_asr_wd s)"
  "ag_stall_wd (snd (send_asr_eos_once s)) = ag_stall_wd s"
  "ag_think_wd (snd (send_asr_eos_once s)) = ag_think_wd s"
  "ag_drain (snd (send_asr_eos_once s)) = ag_drain s"
  "ag_sleep_timer (snd (send_asr_eos_once s)) = ag_sleep_timer s"
  "ag_wake_timer (snd (send_asr_eos_once s)) = ag_wake_timer s"
  "ag_drop (snd (send_asr_eos_once s)) = ag_drop s"
  "ag_first_tts (snd (send_asr_eos_once s)) = ag_first_tts s"
  "ag_speaking_since (snd (send_asr_eos_once s)) = ag_speaking_since s"
  "ag_suppress_until (snd (send_asr_eos_once s)) = ag_suppress_until s"
  "ag_skip_until (snd (send_asr_eos_once s)) = ag_skip_until s"
  "ag_trace (snd (send_asr_eos_once s)) = (if ag_latch s then ag_trace s else ag_trace s @ [SendEos])"
  "fst (send_asr_eos_once s) = (\<not> ag_latch s)"
  by (auto simp: send_asr_eos_once_def)

lemma interrupt_simps [simp]:
  "ag_conv (interrupt_turn s) = ag_conv s"
  "ag_llm (interrupt_turn s) = False"
  "ag_latch (interrupt_turn s) = False"
  "ag_asr_wd (interrupt_turn s) = False"
  "ag_stall_wd (interrupt_turn s) = ag_stall_wd s"
  "ag_think_wd (interrupt_turn s) = ag_think_wd s"
  "ag_drain (interrupt_turn s) = ag_drain s"
  "ag_sleep_timer (interrupt_turn s) = ag_sleep_timer s"
  "ag_wake_timer (interrupt_turn s) = ag_wake_timer s"
  "ag_drop (interrupt_turn s) = ag_drop s"
  "ag_first_tts (interrupt_turn s) = False"
  "ag_speaking_since (interrupt_turn s) = ag_speaking_since s"
  "ag_suppress_until (interrupt_turn s) = ag_suppress_until s"
  "ag_skip_until (interrupt_turn s) = ag_skip_until s"
  "ag_trace (interrupt_turn s) = ag_trace s @ (if ag_llm s then [CancelLlm] else []) @ [StopPlayback, AbortEngine, TruncateEngine]"
  by (auto simp: interrupt_turn_def Let_def)

lemma no_final_simps [simp]:
  "ag_conv (snd (speak_no_final cfg w s)) = ag_conv s"
  "ag_llm (snd (speak_no_final cfg w s)) = ag_llm s"
  "ag_latch (snd (speak_no_final cfg w s)) = ag_latch s"
  "ag_asr_wd (snd (speak_no_final cfg w s)) = ag_asr_wd s"
  "ag_stall_wd (snd (speak_no_final cfg w s)) = ag_stall_wd s"
  "ag_think_wd (snd (speak_no_final cfg w s)) = ag_think_wd s"
  "ag_drain (snd (speak_no_final cfg w s)) = ag_drain s"
  "ag_sleep_timer (snd (speak_no_final cfg w s)) = ag_sleep_timer s"
  "ag_wake_timer (snd (speak_no_final cfg w s)) = ag_wake_timer s"
  "ag_drop (snd (speak_no_final cfg w s)) = ag_drop s"
  "ag_first_tts (snd (speak_no_final cfg w s)) = ag_first_tts s"
  "ag_speaking_since (snd (speak_no_final cfg w s)) = ag_speaking_since s"
  "ag_suppress_until (snd (speak_no_final cfg w s)) = ag_suppress_until s"
  "ag_skip_until (snd (speak_no_final cfg w s)) = ag_skip_until s"
  by (auto simp: speak_no_final_def Let_def)

lemma agent_run_simps [simp]:
  "agent_run cfg s [] = s"
  "agent_run cfg s (e # es) = agent_run cfg (agent_step cfg s e) es"
  by (simp_all add: agent_run_def)

subsection \<open>A turn that waits is guarded\<close>






lemma retire_conv [simp]:
  "ag_conv (return_to_sleep cfg w s) = Sleeping"
  "ag_conv (go_to_sleep s) = Sleeping"
  "ag_conv (open_retry_window cfg s) = (if ag_conv s = BargedIn then BargedIn else Idle)"
  "ag_conv (awaken cfg w s) = Idle"
  by (auto simp: return_to_sleep_def go_to_sleep_def open_retry_window_def awaken_def Let_def)

lemma complete_turn_conv:
  "ag_conv (complete_turn cfg w s) =
     (if ag_conv s = BargedIn then BargedIn else if single_turn cfg \<and> \<not> ag_retry s then Sleeping else Idle)"
  by (auto simp: complete_turn_def)

lemma wake_conv:
  "ag_conv (wake cfg w l s) = ag_conv s \<or> ag_conv s = Sleeping \<and> ag_conv (wake cfg w l s) = Idle"
  by (auto simp: wake_def Let_def)










subsection \<open>A turn is interrupted only when it may be\<close>

lemma late_conv [simp]:
  "ag_conv (no_final_heard cfg w s) \<noteq> BargedIn \<or> ag_conv s = BargedIn"
  by (auto simp: no_final_heard_def split_beta Let_def)

definition interrupts :: "agent_cfg \<Rightarrow> surroundings \<Rightarrow> agent \<Rightarrow> agent \<Rightarrow> bool" where
  "interrupts cfg w s s' =
     (ag_conv s = Speaking \<and> can_barge_in cfg w s \<and> \<not> ag_llm s' \<and> \<not> ag_latch s' \<and>
      (\<exists>p q. ag_trace s' = ag_trace s @ p @ [StateChange Speaking BargedIn] @ (if ag_llm s then [CancelLlm] else []) @
         [StopPlayback, AbortEngine, TruncateEngine] @ q))"

lemma interrupts_barge_in:
  assumes "ag_conv s = Speaking" and "can_barge_in cfg w s" and "ag_conv t = Speaking" and "ag_llm t = ag_llm s"
    and "ag_trace t = ag_trace s @ p"
  shows "interrupts cfg w s (barge_in t)" "interrupts cfg w s (hook h (barge_in t))"
  using assms by (auto simp: interrupts_def barge_in_def)

lemma fire_not_barged: "ag_conv (fire cfg w t s) = BargedIn \<Longrightarrow> ag_conv s = BargedIn"
  by (cases t) (auto simp: asr_final_watchdog_def stall_eos_watchdog_def thinking_watchdog_def sleep_after_def
      wake_command_timeout_def complete_turn_conv Let_def no_final_heard_def split_beta split: if_splits)

lemma final_not_barged: "ag_conv (on_final cfg w t dup ended s) = BargedIn \<Longrightarrow> ag_conv s = BargedIn"
  by (auto simp: on_final_def on_low_signal_def on_utterance_def stop_turn_def start_turn_def no_final_heard_def
      Let_def split_beta split: if_splits)

lemma end_turn_not_barged: "ag_conv (end_turn cfg w s) = BargedIn \<Longrightarrow> ag_conv s = BargedIn"
  by (auto simp: end_turn_def complete_turn_conv Let_def split: if_splits)

lemma partial_interrupts:
  assumes "ag_conv s \<noteq> BargedIn" and "ag_conv (on_partial cfg w t s) = BargedIn"
  shows "interrupts cfg w s (on_partial cfg w t s)"
  using assms
  by (auto simp: on_partial_def Let_def can_barge_in_def split: if_splits intro!: interrupts_barge_in)

lemma engine_interrupts:
  assumes "ag_conv s \<noteq> BargedIn" and "ag_conv (dispatch_one cfg w e s) = BargedIn"
  shows "interrupts cfg w s (dispatch_one cfg w e s)"
proof -
  have d: "dispatch_one cfg w e s = dispatch_awake cfg w e s \<or> ag_conv (dispatch_one cfg w e s) = ag_conv s"
    by (auto simp: dispatch_one_def split: speech_event.splits)
  with assms have b: "dispatch_one cfg w e s = dispatch_awake cfg w e s" "ag_conv (dispatch_awake cfg w e s) = BargedIn"
    by auto
  from b(2) assms(1) have "interrupts cfg w s (dispatch_awake cfg w e s)"
    by (cases e) (auto simp: on_speech_started_def agent_tts_started_def on_tts_audio_def on_response_done_def agent_tts_done_def
        on_engine_error_def Let_def split: if_splits dest!: final_not_barged end_turn_not_barged
        intro!: partial_interrupts interrupts_barge_in[where p = "[Hook ''on_user_speech_start'']"],
      auto simp: can_barge_in_def barge_delay_elapsed_def)
  with b(1) show ?thesis by simp
qed

lemma vad_interrupts:
  assumes "ag_conv s \<noteq> BargedIn" and "ag_conv (update_vad cfg w b s) = BargedIn"
  shows "interrupts cfg w s (update_vad cfg w b s)"
  using assms
  by (auto simp: update_vad_def vad_onset_def vad_end_def Let_def can_barge_in_def barge_delay_elapsed_def
      split: if_splits intro!: interrupts_barge_in)

lemma step_interrupts:
  assumes "ag_conv s \<noteq> BargedIn" and "ag_conv (agent_step cfg s (w, e)) = BargedIn"
  shows "interrupts cfg w s (agent_step cfg s (w, e))"
proof (cases e)
  case (LlmEnds r)
  then show ?thesis using assms by (cases r) (auto simp: llm_over_def Let_def split: if_splits)
qed (use assms in \<open>auto simp: engine_interrupts vad_interrupts split: if_splits dest: fire_not_barged\<close>,
  (auto simp: gate_eos_def wake_def dispatch_reconnect_def ptt_start_def ptt_end_def dash_reconnect_def
     Let_def split_beta split: if_splits)?)

text \<open>C6: The agent is interrupted only while it speaks and audio plays, when interruption is enabled and the
  delay against its own echo is over; and then its language model is cancelled first, the speaker
  stopped, and the engine told to abort, in this order, so that nothing restarts the speech.
\<close>

theorem barge_in_guarded:
  assumes "ag_conv s \<noteq> BargedIn" and "ag_conv (agent_step cfg s (w, e)) = BargedIn"
  shows "ag_conv s = Speaking \<and> w_playing w \<and> barge_in_enabled cfg \<and> barge_delay_elapsed cfg w s \<and>
     \<not> ag_llm (agent_step cfg s (w, e)) \<and> \<not> ag_latch (agent_step cfg s (w, e)) \<and>
     (\<exists>p q. ag_trace (agent_step cfg s (w, e)) = ag_trace s @ p @ [StateChange Speaking BargedIn] @
        (if ag_llm s then [CancelLlm] else []) @ [StopPlayback, AbortEngine, TruncateEngine] @ q)"
  using step_interrupts[OF assms] by (simp add: interrupts_def can_barge_in_def)

subsection \<open>Asleep\<close>

definition speaks :: "action \<Rightarrow> bool" where
  "speaks a = (a = PlayFrame \<or> a = SendEos \<or> (\<exists>t. a = StartLlm t) \<or> (\<exists>t. a = Say t))"

lemma speaks_simps [simp]:
  "speaks PlayFrame" "speaks SendEos" "speaks (StartLlm t)" "speaks (Say t)"
  "\<not> speaks (StateChange a b)" "\<not> speaks (Hook h)" "\<not> speaks CancelLlm" "\<not> speaks StopPlayback"
  "\<not> speaks ArmPlayback" "\<not> speaks MarkPlaybackDone" "\<not> speaks AbortEngine" "\<not> speaks TruncateEngine"
  "\<not> speaks Reconnect" "\<not> speaks WakeTone" "\<not> speaks SleepTone"
  by (auto simp: speaks_def)



definition silent :: "agent \<Rightarrow> agent \<Rightarrow> bool" where
  "silent s s' = (\<exists>as. ag_trace s' = ag_trace s @ as \<and> (\<forall>a \<in> set as. \<not> speaks a))"

lemma silent_refl [simp]: "silent s s"
  by (simp add: silent_def)

lemma silentI: "ag_trace s' = ag_trace s @ as \<Longrightarrow> \<forall>a \<in> set as. \<not> speaks a \<Longrightarrow> silent s s'"
  by (auto simp: silent_def)








subsection \<open>Idle\<close>







subsection \<open>The end of speech is sent once\<close>

abbreviation eos_count :: "agent \<Rightarrow> nat" where
  "eos_count s \<equiv> count_where (\<lambda>a. a = SendEos) (ag_trace s)"

definition eos_ok :: "agent \<Rightarrow> agent \<Rightarrow> bool" where
  "eos_ok s s' =
     (eos_count s' = eos_count s \<or> eos_count s' = eos_count s + 1 \<and> \<not> ag_latch s \<and> ag_latch s' \<and> ag_asr_wd s')"

lemma eos_engine: "eos_ok s (dispatch_one cfg w e s)"
proof -
  have "eos_count (dispatch_one cfg w e s) = eos_count s"
    by (cases e) (auto simp: dispatch_one_def on_speech_started_def agent_tts_started_def on_tts_audio_def
      on_partial_def barge_in_def on_final_def on_low_signal_def on_utterance_def stop_turn_def start_turn_def
      on_response_done_def agent_tts_done_def end_turn_def complete_turn_def on_engine_error_def return_to_sleep_def
      open_retry_window_def no_final_heard_def speak_no_final_def split_beta Let_def)
  then show ?thesis by (simp add: eos_ok_def)
qed

lemma eos_fire: "eos_ok s (fire cfg w t s)"
  by (cases t) (auto simp: eos_ok_def asr_final_watchdog_def stall_eos_watchdog_def thinking_watchdog_def sleep_after_def
      wake_command_timeout_def complete_turn_def return_to_sleep_def open_retry_window_def go_to_sleep_def
      no_final_heard_def speak_no_final_def split_beta Let_def)

lemma eos_step: "eos_ok s (agent_step cfg s (w, e))"
proof (cases e)
  case (LlmEnds r)
  then show ?thesis by (cases r) (auto simp: eos_ok_def llm_over_def Let_def)
next
  case (WakeUp l)
  then show ?thesis by (auto simp: eos_ok_def wake_def awaken_def Let_def)
next
  case (Fire t)
  then show ?thesis using eos_fire by (simp add: eos_ok_def)
qed (auto simp: eos_engine, (auto simp: eos_ok_def update_vad_def vad_onset_def vad_end_def barge_in_def gate_eos_def
      ptt_start_def ptt_end_def wake_def awaken_def go_to_sleep_def dispatch_reconnect_def dash_reconnect_def Let_def split_beta)?)

text \<open>
  An end of speech is sent only when none is outstanding, at most one per event, and each leaves the
  latch set and a watchdog running that clears it.
\<close>

theorem eos_sent_once:
  "eos_count (agent_step cfg s (w, e)) \<le> eos_count s + (if ag_latch s then 0 else 1) \<and>
   (eos_count (agent_step cfg s (w, e)) = eos_count s \<or>
      ag_latch (agent_step cfg s (w, e)) \<and> armed AsrWatchdog (agent_step cfg s (w, e)) \<and>
      (\<forall>w'. \<not> ag_latch (agent_step cfg (agent_step cfg s (w, e)) (w', Fire AsrWatchdog))))"
  using eos_step[of s cfg w e]
  by (auto simp: eos_ok_def asr_final_watchdog_def no_final_heard_def return_to_sleep_def split_beta Let_def)

subsection \<open>A conversation\<close>

definition demo_tables :: text_tables where
  "demo_tables = \<lparr>tt_lower = (\<lambda>s. s), tt_letter = (\<lambda>c. 64 < c), tt_stop_words = [[115, 116, 111, 112]], tt_wake_phrases = []\<rparr>"

definition demo_agent_cfg :: "pipeline_mode \<Rightarrow> agent_cfg" where
  "demo_agent_cfg mode =
     \<lparr>ac_text = demo_tables, ac_mode = mode, ac_single_turn = False, ac_wake_timeout = 0, ac_no_final_text = [],
      ac_stall_ms = 0, ac_drain = False, ac_reconnect_on_wake = False, ac_wake_skip_ms = 0, ac_wake_tone = None,
      ac_sleep_tone = None, ac_barge_override = None, ac_barge = None, ac_barge_chars = 2, ac_barge_ms = 500,
      ac_dup_window = 0, ac_client_vad = False, ac_chunk_ms = 100, ac_vad_min_ms = 200, ac_vad_silence_ms = 500,
      ac_drive_eos = False, ac_ptt_no_vad = True\<rparr>"

definition demo_around :: "rat \<Rightarrow> bool \<Rightarrow> surroundings" where
  "demo_around t playing = \<lparr>w_now = t, w_playing = playing, w_healthy = True, w_idle_s = 0, w_reconnects = True, w_sends = True\<rparr>"

abbreviation quiet :: surroundings where "quiet \<equiv> demo_around 1 False"

abbreviation said :: speech_event where "said \<equiv> AsrFinal [104, 101, 108, 108, 111] False False"

text \<open>Runs that show the ways around the properties. A late end of speech wakes a sleeping agent, and the
  next transcript starts a turn.\<close>

lemma late_tts_done_wakes:
  "let s = agent_run (demo_agent_cfg WakeWord) (new_agent (demo_agent_cfg WakeWord))
       [(quiet, WakeUp False), (quiet, Engine said), (quiet, SleepNow), (quiet, Engine TtsDone)];
       s' = agent_step (demo_agent_cfg WakeWord) s (quiet, Engine said)
   in ag_conv s = Idle \<and> ag_conv s' = Thinking \<and> last (ag_trace s') = StartLlm [104, 101, 108, 108, 111]"
  by code_simp

text \<open>An error of the engine leaves the latch set with its watchdog cancelled: the next end of speech is not sent.\<close>

lemma error_keeps_latch:
  "let s = agent_run (demo_agent_cfg AlwaysOn) (new_agent (demo_agent_cfg AlwaysOn))
       [(quiet, GateClosed), (quiet, Engine EngineError), (quiet, GateClosed)]
   in ag_latch s \<and> \<not> ag_asr_wd s \<and> eos_count s = 1 \<and> ag_conv s = Idle"
  by code_simp

text \<open>A turn that the engine has taken over and then forgets waits for ever.\<close>

lemma taken_over_turn_unguarded:
  "let s = agent_run (demo_agent_cfg AlwaysOn) (new_agent (demo_agent_cfg AlwaysOn))
       [(quiet, Engine said), (quiet, Engine ResponseCreated), (quiet, LlmEnds LlmFinished)]
   in ag_conv s = Thinking \<and>
      list_all (\<lambda>t. \<not> armed t s) [AsrWatchdog, StallWatchdog, ThinkingWatchdog, SleepTimer, WakeTimeout, PlaybackDrain]"
  by code_simp

text \<open>The playback of one turn drains into the next and ends it while its language model runs.\<close>

lemma drain_ends_next_turn:
  "let cfg = (demo_agent_cfg AlwaysOn)\<lparr>ac_drain := True\<rparr>;
       s = agent_run cfg (new_agent cfg)
         [(quiet, Engine said), (quiet, Engine TtsAudio), (demo_around 2 True, Engine TtsDone),
          (demo_around 3 True, Engine said), (demo_around 4 False, Fire PlaybackDrain)]
   in ag_conv s = Idle \<and> ag_llm s"
  by code_simp

text \<open>In command mode a language model that fails after its spoken answer opens the microphone again.\<close>

lemma late_failure_wakes:
  "let cfg = (demo_agent_cfg WakeWord)\<lparr>ac_single_turn := True\<rparr>;
       es = [(quiet, WakeUp False), (quiet, Engine said), (quiet, Engine TtsAudio), (quiet, Engine TtsDone)]
   in ag_conv (agent_run cfg (new_agent cfg) es) = Sleeping \<and>
      ag_conv (agent_run cfg (new_agent cfg) (es @ [(quiet, LlmEnds LlmFailed)])) = Idle"
  by code_simp

text \<open>The sleep timer ends during a turn, the turn in an error: the agent listens with no timer running.\<close>

lemma error_leaves_untimed:
  "let s = agent_run (demo_agent_cfg WakeWord) (new_agent (demo_agent_cfg WakeWord))
       [(quiet, WakeUp False), (quiet, Engine said), (quiet, Fire SleepTimer), (quiet, Engine EngineError)]
   in ag_conv s = Idle \<and>
      list_all (\<lambda>t. \<not> armed t s) [AsrWatchdog, StallWatchdog, ThinkingWatchdog, SleepTimer, WakeTimeout, PlaybackDrain]"
  by code_simp

text \<open>Push-to-talk listens although the wake-up was refused because the connection is dead.\<close>

lemma refused_wake_listens:
  "ag_conv (ptt_start (demo_agent_cfg WakeWord) (quiet\<lparr>w_healthy := False, w_reconnects := False\<rparr>)
     (new_agent (demo_agent_cfg WakeWord))) = Listening"
  by code_simp

subsection \<open>The properties applied\<close>

abbreviation demo_wake :: agent_cfg where "demo_wake \<equiv> demo_agent_cfg WakeWord"

definition demo_waiting :: agent where
  "demo_waiting = agent_run demo_wake (new_agent demo_wake) [(quiet, WakeUp False), (quiet, Engine said)]"



definition demo_speaking :: agent where
  "demo_speaking = agent_step demo_wake demo_waiting (quiet, Engine TtsAudio)"

theorem barge_in_guarded_witness:
  "\<exists>p q. ag_trace (agent_step demo_wake demo_speaking (demo_around 2 True, Engine SpeechStarted)) =
     ag_trace demo_speaking @ p @ [StateChange Speaking BargedIn, CancelLlm, StopPlayback, AbortEngine, TruncateEngine] @ q"
proof -
  have "ag_conv demo_speaking \<noteq> BargedIn" "ag_llm demo_speaking"
    "ag_conv (agent_step demo_wake demo_speaking (demo_around 2 True, Engine SpeechStarted)) = BargedIn" by code_simp+
  with barge_in_guarded[of demo_speaking demo_wake "demo_around 2 True" "Engine SpeechStarted"] show ?thesis by simp
qed



end
