(* ===== verification/AgentMic.thy ===== *)
theory AgentMic
  imports AgentConvProps VadGate
begin

section \<open>The microphone of the voice agent\<close>

text \<open>
  \<open>_mic_pump\<close> and \<open>_send_audio_nonblocking\<close> of \<^verbatim>\<open>agent/ovs_agent/app_base.py\<close>: which captured chunks go
  to the engine. The pump runs beside the machine of AgentConv, reads its state for every chunk and
  drives its detector or its end of speech. The level of a chunk is a parameter, and so is the numeric
  gain: an amplified chunk is only marked. While the pump waits before an end of speech it takes no
  chunk from the queue. The level broadcast to the dashboard is left out.
\<close>

record 'c mic_cfg =
  mi_rms :: "'c \<Rightarrow> rat"
  mi_gate :: bool
  mi_open :: rat
  mi_close :: rat
  mi_hangover :: rat
  mi_gain :: rat
  mi_drive_eos :: bool
  mi_min_speech :: rat
  mi_eos_delay :: rat
  mi_drop_speaking :: bool



datatype 'c mic_sent = Raw 'c | Amplified 'c | Zeros






definition amplify :: "'c mic_cfg \<Rightarrow> 'c \<Rightarrow> 'c mic_sent" where
  "amplify mc c = (if mi_gain mc \<noteq> 1 then Amplified c else Raw c)"








subsection \<open>What leaves the device\<close>

fun origin :: "'c mic_sent \<Rightarrow> 'c list" where
  "origin (Raw c) = [c]"
| "origin (Amplified c) = [c]"
| "origin Zeros = []"

definition origins :: "'c mic_sent list \<Rightarrow> 'c list" where
  "origins xs = concat (map origin xs)"

lemma origins_simps [simp]:
  "origins [] = []" "origins (x # xs) = origin x @ origins xs" "origins (xs @ ys) = origins xs @ origins ys"
  "origins (map Raw cs) = cs" "origins (map (amplify mc) cs) = cs" "origin (amplify mc c) = [c]"
  by (induction cs) (auto simp: origins_def amplify_def)



















end
