(* ===== verification/ActionsStore.thy ===== *)
theory ActionsStore
  imports Prelude Complex_Main "HOL-Library.AList" "HOL-Library.List_Lexorder" "HOL-Library.Countable" "HOL-Library.Sublist"
begin

section \<open>The store of robot actions\<close>

text \<open>
  \<open>ActionsManager\<close> of \<^verbatim>\<open>agent/ovs_agent/actuators/actions.py\<close>: named sequences of joint positions in memory
  and in one YAML file, with entity tags for optimistic concurrency. Every public operation runs under one
  lock, so a run is a sequence of operations. The YAML library, the hash, the conversion of text to a float
  and the encoded size of a text are parameters; the file system is the text of the file and its time of
  modification. Texts are code points, floats are rationals with infinities and not-a-number.
\<close>

subsection \<open>Values\<close>

datatype float_value = Fin rat | Infinity bool | NaN

datatype yaml = YNull | YBool bool | YInt int | YFloat float_value | YStr ustr | YList "yaml list" | YMap "(yaml \<times> yaml) list"

record yaml_lib =
  yl_load :: "ustr \<Rightarrow> yaml option"
  yl_dump :: "yaml \<Rightarrow> ustr"
  yl_float :: "ustr \<Rightarrow> float_value option"
  yl_str :: "yaml \<Rightarrow> ustr"
  yl_bytes :: "ustr \<Rightarrow> nat"
  yl_digest :: "ustr \<Rightarrow> ustr"

definition yget :: "(yaml \<times> yaml) list \<Rightarrow> ustr \<Rightarrow> yaml option" where
  "yget m k = map_of m (YStr k)"

fun falsy :: "yaml \<Rightarrow> bool" where
  "falsy YNull = True"
| "falsy (YBool b) = (\<not> b)"
| "falsy (YInt i) = (i = 0)"
| "falsy (YFloat f) = (f = Fin 0)"
| "falsy (YStr s) = (s = [])"
| "falsy (YList xs) = (xs = [])"
| "falsy (YMap m) = (m = [])"

fun to_float :: "yaml_lib \<Rightarrow> yaml \<Rightarrow> float_value option" where
  "to_float L (YBool b) = Some (Fin (if b then 1 else 0))"
| "to_float L (YInt i) = Some (Fin (of_int i))"
| "to_float L (YFloat f) = Some f"
| "to_float L (YStr s) = yl_float L s"
| "to_float L _ = None"

fun key_str :: "yaml_lib \<Rightarrow> yaml \<Rightarrow> ustr" where
  "key_str L (YStr s) = s"
| "key_str L v = yl_str L v"

record action_frame =
  fr_joints :: "(ustr \<times> float_value) list"
  fr_delay :: float_value

record action_entry =
  en_description :: ustr
  en_frames :: "action_frame list"
  en_mode :: ustr
  en_text :: ustr

type_synonym action_map = "(ustr \<times> action_entry) list"

text \<open>The keys of the file, as code points.\<close>

definition ustr_of :: "string \<Rightarrow> ustr" where
  "ustr_of s = map (\<lambda>c. int (of_char c)) s"

abbreviation kJoints :: ustr where "kJoints \<equiv> ustr_of ''joints''"
abbreviation kDelay :: ustr where "kDelay \<equiv> ustr_of ''delay''"
abbreviation kFrames :: ustr where "kFrames \<equiv> ustr_of ''frames''"
abbreviation kDescription :: ustr where "kDescription \<equiv> ustr_of ''description''"
abbreviation kMode :: ustr where "kMode \<equiv> ustr_of ''response_mode''"
abbreviation kText :: ustr where "kText \<equiv> ustr_of ''completion_text''"
abbreviation kSequences :: ustr where "kSequences \<equiv> ustr_of ''sequences''"
abbreviation kPoses :: ustr where "kPoses \<equiv> ustr_of ''poses''"

subsection \<open>Validation\<close>

datatype actions_error = BadName | EmptyFrames | TooManyFrames | BadFrame | MissingJoint | BadDelay
  | EtagMismatch | YamlTooLarge | WriteFailed

definition MAX_FRAMES :: nat where "MAX_FRAMES = 50"
definition MIN_DELAY :: rat where "MIN_DELAY = 1 / 20"
definition MAX_DELAY :: rat where "MAX_DELAY = 5"
definition MAX_YAML_BYTES :: nat where "MAX_YAML_BYTES = 100 * 1024"
definition DEFAULT_DELAY :: rat where "DEFAULT_DELAY = 2 / 5"

definition REQUIRED_JOINTS :: "ustr list" where
  "REQUIRED_JOINTS = map ustr_of [''shoulder_pan.pos'', ''shoulder_lift.pos'', ''elbow_flex.pos'', ''wrist_flex.pos'',
     ''wrist_roll.pos'', ''gripper.pos'']"

text \<open>The dollar of the pattern also matches before a line feed at the end.\<close>

definition name_ok :: "ustr \<Rightarrow> bool" where
  "name_ok s =
     (case s of [] \<Rightarrow> False
      | c # cs \<Rightarrow> 97 \<le> c \<and> c \<le> 122 \<and>
          list_all (\<lambda>d. 97 \<le> d \<and> d \<le> 122 \<or> 48 \<le> d \<and> d \<le> 57 \<or> d = 95)
            (if cs \<noteq> [] \<and> last cs = 10 then butlast cs else cs))"

definition update_all :: "('k \<times> 'v) list \<Rightarrow> ('k \<times> 'v) list \<Rightarrow> ('k \<times> 'v) list" where
  "update_all ps d = fold (\<lambda>(k, v). AList.update k v) ps d"

fun all_some :: "'a option list \<Rightarrow> 'a list option" where
  "all_some [] = Some []"
| "all_some (None # xs) = None"
| "all_some (Some x # xs) = map_option ((#) x) (all_some xs)"

definition delay_ok :: "float_value \<Rightarrow> bool" where
  "delay_ok d = (case d of Fin r \<Rightarrow> MIN_DELAY \<le> r \<and> r \<le> MAX_DELAY | _ \<Rightarrow> False)"

definition frame_delay :: "yaml_lib \<Rightarrow> (yaml \<times> yaml) list \<Rightarrow> float_value option" where
  "frame_delay L m = (case yget m kDelay of None \<Rightarrow> Some (Fin DEFAULT_DELAY) | Some v \<Rightarrow> to_float L v)"

definition validate_frame :: "yaml_lib \<Rightarrow> ustr list \<Rightarrow> yaml \<Rightarrow> (actions_error, action_frame) res" where
  "validate_frame L required fr =
     (case fr of
        YMap m \<Rightarrow>
          (case yget m kJoints of
             Some (YMap js) \<Rightarrow>
               if list_ex (\<lambda>r. yget js r = None) required then Inl MissingJoint
               else (case all_some (map (\<lambda>r. to_float L (the (yget js r))) required) of
                       None \<Rightarrow> Inl BadFrame
                     | Some vs \<Rightarrow>
                         (case frame_delay L m of
                            None \<Rightarrow> Inl BadFrame
                          | Some d \<Rightarrow>
                              if delay_ok d then Inr \<lparr>fr_joints = update_all (zip required vs) [], fr_delay = d\<rparr>
                              else Inl BadDelay))
           | _ \<Rightarrow> Inl BadFrame)
      | _ \<Rightarrow> Inl BadFrame)"

fun validate_each :: "yaml_lib \<Rightarrow> ustr list \<Rightarrow> yaml list \<Rightarrow> (actions_error, action_frame list) res" where
  "validate_each L required [] = Inr []"
| "validate_each L required (f # fs) =
     bind_res (validate_frame L required f) (\<lambda>x. bind_res (validate_each L required fs) (\<lambda>xs. Inr (x # xs)))"

definition validate_frames :: "yaml_lib \<Rightarrow> ustr list \<Rightarrow> yaml \<Rightarrow> (actions_error, action_frame list) res" where
  "validate_frames L required frames =
     (let required = (if required = [] then REQUIRED_JOINTS else required)
      in case frames of
           YList fs \<Rightarrow> if fs = [] then Inl EmptyFrames
             else if length fs > MAX_FRAMES then Inl TooManyFrames else validate_each L required fs
         | _ \<Rightarrow> Inl EmptyFrames)"

subsection \<open>Reading the file\<close>

text \<open>\<open>None\<close>: a conversion raised. \<open>Some None\<close>: not a sequence of frames.\<close>

definition float_items :: "yaml_lib \<Rightarrow> (yaml \<times> yaml) list \<Rightarrow> (ustr \<times> float_value) list option" where
  "float_items L m =
     map_option (\<lambda>vs. update_all (zip (map (key_str L \<circ> fst) m) vs) []) (all_some (map (to_float L \<circ> snd) m))"

definition coerce_frame :: "yaml_lib \<Rightarrow> (yaml \<times> yaml) list \<Rightarrow> action_frame option" where
  "coerce_frame L m =
     (let js = (case yget m kJoints of Some (YMap j) \<Rightarrow> j | _ \<Rightarrow> filter (\<lambda>(k, v). k \<noteq> YStr kDelay) m)
      in case float_items L js of None \<Rightarrow> None
         | Some joints \<Rightarrow> map_option (\<lambda>d. \<lparr>fr_joints = joints, fr_delay = d\<rparr>) (frame_delay L m))"

fun coerce_list :: "yaml_lib \<Rightarrow> yaml list \<Rightarrow> action_frame list option" where
  "coerce_list L [] = Some []"
| "coerce_list L (YMap m # fs) =
     (case coerce_frame L m of None \<Rightarrow> None | Some f \<Rightarrow> map_option ((#) f) (coerce_list L fs))"
| "coerce_list L (f # fs) = coerce_list L fs"

definition coerce_frames :: "yaml_lib \<Rightarrow> yaml \<Rightarrow> action_frame list option option" where
  "coerce_frames L v =
     (case v of
        YList fs \<Rightarrow> map_option Some (coerce_list L fs)
      | YMap m \<Rightarrow> (case yget m kFrames of Some (YList fs) \<Rightarrow> map_option Some (coerce_list L fs) | _ \<Rightarrow> Some None)
      | _ \<Rightarrow> Some None)"

definition meta :: "yaml \<Rightarrow> ustr \<Rightarrow> ustr" where
  "meta v k = (case v of YMap m \<Rightarrow> (case yget m k of Some (YStr s) \<Rightarrow> u_strip s | _ \<Rightarrow> []) | _ \<Rightarrow> [])"

definition load_item :: "yaml_lib \<Rightarrow> yaml \<times> yaml \<Rightarrow> action_map \<Rightarrow> action_map option" where
  "load_item L kv acts =
     (case kv of (k, v) \<Rightarrow>
        (case coerce_frames L v of
           None \<Rightarrow> None
         | Some None \<Rightarrow> Some acts
         | Some (Some frames) \<Rightarrow>
             (case k of
                YStr name \<Rightarrow>
                  if \<not> name_ok name then Some acts
                  else Some (AList.update name
                    \<lparr>en_description = meta v kDescription, en_frames = frames, en_mode = meta v kMode, en_text = meta v kText\<rparr> acts)
              | _ \<Rightarrow> Some acts)))"

fun load_items :: "yaml_lib \<Rightarrow> (yaml \<times> yaml) list \<Rightarrow> action_map \<Rightarrow> action_map option" where
  "load_items L [] acts = Some acts"
| "load_items L (kv # kvs) acts = (case load_item L kv acts of None \<Rightarrow> None | Some a \<Rightarrow> load_items L kvs a)"

text \<open>
  The membership test and the assignment of an old pose raise when the sequences are no mapping (for a
  list, unless the key is an index of it). The sequences are then of no use anyway.
\<close>

fun pose_raises :: "yaml \<Rightarrow> yaml \<Rightarrow> bool \<Rightarrow> bool" where
  "pose_raises (YMap m) k posed = False"
| "pose_raises (YList xs) k posed =
     (k \<notin> set xs \<and> posed \<and>
      (case k of YInt i \<Rightarrow> \<not> (- int (length xs) \<le> i \<and> i < int (length xs)) | YBool b \<Rightarrow> \<not> (if b then 1 else 0) < length xs | _ \<Rightarrow> True))"
| "pose_raises (YStr s) k posed = (case k of YStr p \<Rightarrow> \<not> contains_str p s \<and> posed | _ \<Rightarrow> True)"
| "pose_raises v k posed = True"

definition pose_joints :: "yaml \<Rightarrow> yaml option" where
  "pose_joints v = (case v of YMap m \<Rightarrow> (case yget m kJoints of Some (YMap j) \<Rightarrow> Some (YMap j) | _ \<Rightarrow> None) | _ \<Rightarrow> None)"

fun add_poses :: "(yaml \<times> yaml) list \<Rightarrow> yaml \<Rightarrow> yaml option" where
  "add_poses [] s = Some s"
| "add_poses ((k, v) # ps) s =
     (if pose_raises s k (pose_joints v \<noteq> None) then None
      else add_poses ps (case s of
             YMap m \<Rightarrow>
               (case (map_of m k, pose_joints v) of
                  (None, Some j) \<Rightarrow> YMap (m @ [(k, YList [YMap [(YStr kJoints, j), (YStr kDelay, YFloat (Fin (3 / 2)))]])])
                | _ \<Rightarrow> s)
           | _ \<Rightarrow> s))"

definition or_empty :: "yaml option \<Rightarrow> yaml" where
  "or_empty v = (case v of None \<Rightarrow> YMap [] | Some y \<Rightarrow> if falsy y then YMap [] else y)"

definition load_actions :: "yaml_lib \<Rightarrow> ustr option \<Rightarrow> action_map option" where
  "load_actions L file =
     (case file of
        None \<Rightarrow> Some []
      | Some t \<Rightarrow>
          (case yl_load L t of
             None \<Rightarrow> Some []
           | Some data \<Rightarrow>
               (case or_empty (Some data) of
                  YMap d \<Rightarrow>
                    (case add_poses (case or_empty (yget d kPoses) of YMap ps \<Rightarrow> ps | _ \<Rightarrow> []) (or_empty (yget d kSequences)) of
                       None \<Rightarrow> None
                     | Some (YMap s) \<Rightarrow> load_items L s []
                     | Some _ \<Rightarrow> Some [])
                | _ \<Rightarrow> Some [])))"

subsection \<open>Writing the file\<close>

definition frame_yaml :: "action_frame \<Rightarrow> yaml" where
  "frame_yaml f = YMap [(YStr kJoints, YMap (map (\<lambda>(k, v). (YStr k, YFloat v)) (fr_joints f))), (YStr kDelay, YFloat (fr_delay f))]"

definition optional :: "ustr \<Rightarrow> ustr \<Rightarrow> (yaml \<times> yaml) list" where
  "optional k v = (if v = [] then [] else [(YStr k, YStr v)])"

definition serialize_entry :: "action_entry \<Rightarrow> yaml" where
  "serialize_entry e =
     (let frames = YList (map frame_yaml (en_frames e))
      in if en_description e = [] \<and> en_mode e = [] \<and> en_text e = [] then frames
         else YMap (optional kDescription (en_description e) @ optional kMode (en_mode e) @ optional kText (en_text e) @
           [(YStr kFrames, frames)]))"

definition payload :: "action_map \<Rightarrow> yaml" where
  "payload acts =
     YMap [(YStr kSequences, YMap (map (\<lambda>k. (YStr k, serialize_entry (the (map_of acts k)))) (sort (map fst acts))))]"

record disk =
  dk_text :: "ustr option"
  dk_mtime :: int

record actions_manager =
  am_map :: action_map
  am_required :: "ustr list"
  am_cache :: "(ustr \<times> nat \<times> int) option"

definition EMPTY_ETAG :: ustr where "EMPTY_ETAG = ustr_of ''sha256:empty''"


definition etag_of :: "yaml_lib \<Rightarrow> ustr \<Rightarrow> ustr" where
  "etag_of L t = ustr_of ''sha256:'' @ yl_digest L t"

definition refresh_etag :: "yaml_lib \<Rightarrow> disk \<Rightarrow> actions_manager \<Rightarrow> ustr \<times> actions_manager" where
  "refresh_etag L dk m =
     (case dk_text dk of
        None \<Rightarrow> (EMPTY_ETAG, m\<lparr>am_cache := None\<rparr>)
      | Some t \<Rightarrow> (etag_of L t, m\<lparr>am_cache := Some (etag_of L t, yl_bytes L t, dk_mtime dk)\<rparr>))"

definition compute_etag :: "yaml_lib \<Rightarrow> disk \<Rightarrow> actions_manager \<Rightarrow> ustr \<times> actions_manager" where
  "compute_etag L dk m =
     (case dk_text dk of
        None \<Rightarrow> (EMPTY_ETAG, m\<lparr>am_cache := None\<rparr>)
      | Some t \<Rightarrow>
          (case am_cache m of
             Some (e, n, mtime) \<Rightarrow> if n = yl_bytes L t \<and> mtime = dk_mtime dk then (e, m) else refresh_etag L dk m
           | None \<Rightarrow> refresh_etag L dk m))"

text \<open>The constructor. A file that cannot be parsed leaves no cached tag; a conversion that raises leaves no manager.\<close>

definition boot :: "yaml_lib \<Rightarrow> ustr list \<Rightarrow> disk \<Rightarrow> actions_manager option" where
  "boot L required dk =
     (case load_actions L (dk_text dk) of
        None \<Rightarrow> None
      | Some acts \<Rightarrow>
          (let m = \<lparr>am_map = acts, am_required = (if required = [] then REQUIRED_JOINTS else required), am_cache = None\<rparr>
           in case dk_text dk of
                None \<Rightarrow> Some m
              | Some t \<Rightarrow>
                  (case yl_load L t of
                     None \<Rightarrow> Some m
                   | Some data \<Rightarrow> (case or_empty (Some data) of YMap d \<Rightarrow> Some (snd (refresh_etag L dk m)) | _ \<Rightarrow> Some m))))"

text \<open>A request to save: the tag the caller has seen, and what the file system will do.\<close>

record save_request =
  sr_name :: ustr
  sr_frames :: yaml
  sr_if_match :: "ustr option"
  sr_description :: "ustr option"
  sr_writes :: bool
  sr_now :: int

definition new_entry :: "actions_manager \<Rightarrow> save_request \<Rightarrow> action_frame list \<Rightarrow> action_entry" where
  "new_entry m r frames =
     (case map_of (am_map m) (sr_name r) of
        None \<Rightarrow> \<lparr>en_description = (case sr_description r of None \<Rightarrow> [] | Some d \<Rightarrow> u_strip d), en_frames = frames,
                 en_mode = [], en_text = []\<rparr>
      | Some old \<Rightarrow> \<lparr>en_description = (case sr_description r of None \<Rightarrow> en_description old | Some d \<Rightarrow> u_strip d),
                 en_frames = frames, en_mode = en_mode old, en_text = en_text old\<rparr>)"

definition save_action ::
  "yaml_lib \<Rightarrow> save_request \<Rightarrow> actions_manager \<times> disk \<Rightarrow> (actions_error, ustr \<times> bool) res \<times> actions_manager \<times> disk" where
  "save_action L r md =
     (case md of (m, dk) \<Rightarrow>
        if \<not> name_ok (sr_name r) then (Inl BadName, m, dk)
        else case validate_frames L (am_required m) (sr_frames r) of
               Inl e \<Rightarrow> (Inl e, m, dk)
             | Inr frames \<Rightarrow>
                 (let (current, m) = compute_etag L dk m
                  in if sr_if_match r \<noteq> None \<and> sr_if_match r \<noteq> Some current then (Inl EtagMismatch, m, dk)
                     else let acts = AList.update (sr_name r) (new_entry m r frames) (am_map m);
                              text = yl_dump L (payload acts)
                          in if yl_bytes L text > MAX_YAML_BYTES then (Inl YamlTooLarge, m, dk)
                             else if \<not> sr_writes r then (Inl WriteFailed, m, dk)
                             else let dk = \<lparr>dk_text = Some text, dk_mtime = sr_now r\<rparr>;
                                      replaced = (map_of (am_map m) (sr_name r) \<noteq> None);
                                      (etag, m) = refresh_etag L dk (m\<lparr>am_map := acts\<rparr>)
                                  in (Inr (etag, replaced), m, dk)))"

subsection \<open>Reading\<close>

definition get_etag :: "yaml_lib \<Rightarrow> actions_manager \<times> disk \<Rightarrow> ustr \<times> actions_manager \<times> disk" where
  "get_etag L md = (case md of (m, dk) \<Rightarrow> let (e, m) = compute_etag L dk m in (e, m, dk))"

definition get_sequence :: "actions_manager \<Rightarrow> ustr \<Rightarrow> action_frame list option" where
  "get_sequence m name = (if \<not> name_ok name then None else map_option en_frames (map_of (am_map m) name))"

definition get_description :: "actions_manager \<Rightarrow> ustr \<Rightarrow> ustr option" where
  "get_description m name = (if \<not> name_ok name then None else map_option en_description (map_of (am_map m) name))"

definition list_names :: "actions_manager \<Rightarrow> ustr list" where
  "list_names m = sort (map fst (am_map m))"

definition get_all :: "yaml_lib \<Rightarrow> actions_manager \<times> disk \<Rightarrow> (ustr \<times> (ustr \<times> nat \<times> ustr) list) \<times> actions_manager \<times> disk" where
  "get_all L md =
     (let (e, m, dk) = get_etag L md
      in ((e, map (\<lambda>n. let en = the (map_of (am_map m) n) in (n, length (en_frames en), en_description en)) (list_names m)), m, dk))"

datatype actions_op = SaveAction save_request | ReadTag

fun actions_step :: "yaml_lib \<Rightarrow> actions_manager \<times> disk \<Rightarrow> actions_op \<Rightarrow> actions_manager \<times> disk" where
  "actions_step L md (SaveAction r) = snd (save_action L r md)"
| "actions_step L md ReadTag = snd (get_etag L md)"

definition actions_run :: "yaml_lib \<Rightarrow> actions_manager \<times> disk \<Rightarrow> actions_op list \<Rightarrow> actions_manager \<times> disk" where
  "actions_run L md ops = foldl (actions_step L) md ops"

subsection \<open>What is stored\<close>

lemma update_all_simps [simp]:
  "update_all [] d = d" "update_all ((k, v) # ps) d = update_all ps (AList.update k v d)"
  by (simp_all add: update_all_def)

lemma update_all_distinct: "distinct (map fst d) \<Longrightarrow> distinct (map fst (update_all ps d))"
  by (induction ps arbitrary: d) (auto simp: distinct_update)

lemma update_fresh: "k \<notin> fst ` set d \<Longrightarrow> AList.update k v d = d @ [(k, v)]"
  by (induction d) auto

lemma update_all_fresh:
  "distinct (map fst ps) \<Longrightarrow> fst ` set ps \<inter> fst ` set d = {} \<Longrightarrow> update_all ps d = d @ ps"
  by (induction ps arbitrary: d) (auto simp: update_fresh)

lemma dropWhile_rstrip: "\<not> P c \<Longrightarrow> dropWhile P (c # xs) = c # xs"
  by simp

lemma u_strip_idem [simp]: "u_strip (u_strip s) = u_strip s"
proof -
  let ?l = "dropWhile u_space s"
  have e: "u_strip s = rev (dropWhile u_space (rev ?l))" by (simp add: u_strip_def u_lstrip_def u_rstrip_def)
  have "dropWhile u_space (u_strip s) = u_strip s"
  proof (cases "u_strip s")
    case (Cons c cs)
    have "prefix (u_strip s) ?l" unfolding e by (metis rev_rev_ident suffix_dropWhile suffix_to_prefix)
    then have "?l = c # drop 1 ?l" using Cons by (cases ?l) auto
    then have "\<not> u_space c" by (metis dropWhile_eq_Cons_conv)
    with Cons show ?thesis by simp
  qed simp
  then show ?thesis by (simp add: u_strip_def[of "u_strip s"] u_lstrip_def u_rstrip_def, simp add: e)
qed

text \<open>A stored entry is canonical: a proper name, trimmed texts, and each joint of a frame once.\<close>

definition canonical_entry :: "action_entry \<Rightarrow> bool" where
  "canonical_entry e =
     (u_strip (en_description e) = en_description e \<and> u_strip (en_mode e) = en_mode e \<and> u_strip (en_text e) = en_text e \<and>
      (\<forall>f \<in> set (en_frames e). distinct (map fst (fr_joints f))))"

definition canonical :: "action_map \<Rightarrow> bool" where
  "canonical acts = (distinct (map fst acts) \<and> (\<forall>(k, e) \<in> set acts. name_ok k \<and> canonical_entry e))"

lemma canonical_map_of: "canonical acts \<Longrightarrow> map_of acts k = Some e \<Longrightarrow> name_ok k \<and> canonical_entry e"
  by (auto simp: canonical_def dest!: map_of_SomeD)

lemma canonical_update:
  assumes "canonical acts" and "name_ok k" and "canonical_entry e"
  shows "canonical (AList.update k e acts)"
proof -
  have "set (AList.update k e acts) \<subseteq> insert (k, e) (set acts)" by (induction acts) auto
  with assms show ?thesis unfolding canonical_def by (auto simp: distinct_update)
qed

lemma meta_strip [simp]: "u_strip (meta v k) = meta v k"
  by (auto simp: meta_def split: yaml.splits option.splits)

lemma coerce_frame_distinct: "coerce_frame L m = Some f \<Longrightarrow> distinct (map fst (fr_joints f))"
  by (auto simp: coerce_frame_def float_items_def Let_def update_all_distinct split: option.splits)

lemma coerce_list_distinct: "coerce_list L fs = Some xs \<Longrightarrow> f \<in> set xs \<Longrightarrow> distinct (map fst (fr_joints f))"
  by (induction L fs arbitrary: xs rule: coerce_list.induct) (auto split: option.splits dest: coerce_frame_distinct)

lemma load_item_canonical:
  assumes "load_item L kv acts = Some acts'" and "canonical acts"
  shows "canonical acts'"
  using assms
  by (auto simp: load_item_def coerce_frames_def canonical_entry_def split: prod.splits option.splits yaml.splits if_splits
      intro!: canonical_update dest: coerce_list_distinct)

lemma load_items_canonical: "load_items L kvs acts = Some acts' \<Longrightarrow> canonical acts \<Longrightarrow> canonical acts'"
  by (induction kvs arbitrary: acts) (auto split: option.splits dest: load_item_canonical)

lemma load_actions_canonical: "load_actions L t = Some acts \<Longrightarrow> canonical acts"
  by (auto simp: load_actions_def canonical_def[of "[]"] split: option.splits yaml.splits intro: load_items_canonical)

subsection \<open>A save and a load\<close>

lemma yget_simps [simp]: "yget ((YStr k, v) # m) k' = (if k = k' then Some v else yget m k')" "yget [] k = None"
  by (auto simp: yget_def)

lemma key_neq [simp]:
  "kJoints \<noteq> kDelay" "kDelay \<noteq> kJoints" "kDescription \<noteq> kFrames" "kFrames \<noteq> kDescription" "kMode \<noteq> kFrames" "kFrames \<noteq> kMode"
  "kText \<noteq> kFrames" "kFrames \<noteq> kText" "kDescription \<noteq> kMode" "kMode \<noteq> kDescription" "kDescription \<noteq> kText" "kText \<noteq> kDescription"
  "kMode \<noteq> kText" "kText \<noteq> kMode" "kSequences \<noteq> kPoses"
  by (code_simp+)

lemma all_some_map: "all_some (map Some xs) = Some xs"
  by (induction xs) auto

lemma coerce_frame_yaml:
  assumes "distinct (map fst (fr_joints f))"
  shows "coerce_list L (frame_yaml f # fs) = map_option ((#) f) (coerce_list L fs)"
proof -
  have "map (to_float L \<circ> snd) (map (\<lambda>(k, v). (YStr k, YFloat v)) (fr_joints f)) = map Some (map snd (fr_joints f))"
    and k: "map (key_str L \<circ> fst) (map (\<lambda>(k, v). (YStr k, YFloat v)) (fr_joints f)) = map fst (fr_joints f)" by auto
  then have "float_items L (map (\<lambda>(k, v). (YStr k, YFloat v)) (fr_joints f)) = Some (fr_joints f)"
    using assms by (simp only: float_items_def all_some_map k) (simp add: zip_map_fst_snd update_all_fresh)
  then show ?thesis by (cases f) (simp add: frame_yaml_def coerce_frame_def frame_delay_def)
qed

lemma coerce_list_yaml:
  "\<forall>f \<in> set fs. distinct (map fst (fr_joints f)) \<Longrightarrow> coerce_list L (map frame_yaml fs) = Some fs"
  by (induction fs) (auto simp: coerce_frame_yaml simp del: coerce_list.simps(2))


lemma yget_optional [simp]:
  "yget (optional k v @ m) k' = (if k = k' \<and> v \<noteq> [] then Some (YStr v) else yget m k')"
  by (simp add: optional_def)

lemma load_serialized:
  assumes "name_ok k" and "canonical_entry e"
  shows "load_item L (YStr k, serialize_entry e) acts = Some (AList.update k e acts)"
proof -
  have f: "coerce_list L (map frame_yaml (en_frames e)) = Some (en_frames e)"
    using assms(2) by (simp add: canonical_entry_def coerce_list_yaml)
  show ?thesis
  proof (cases "en_description e = [] \<and> en_mode e = [] \<and> en_text e = []")
    case True
    then show ?thesis using assms(1) f
      by (cases e) (simp add: load_item_def serialize_entry_def coerce_frames_def meta_def)
  next
    case False
    then have "serialize_entry e = YMap (optional kDescription (en_description e) @ optional kMode (en_mode e) @
        optional kText (en_text e) @ [(YStr kFrames, YList (map frame_yaml (en_frames e)))])"
      by (auto simp: serialize_entry_def Let_def)
    then show ?thesis using assms f
      by (cases e) (auto simp: load_item_def coerce_frames_def meta_def canonical_entry_def)
  qed
qed

lemma load_payload_items:
  assumes "canonical acts" and "set ks \<subseteq> fst ` set acts"
  shows "load_items L (map (\<lambda>k. (YStr k, serialize_entry (the (map_of acts k)))) ks) d =
    Some (update_all (map (\<lambda>k. (k, the (map_of acts k))) ks) d)"
  using assms(2)
proof (induction ks arbitrary: d)
  case (Cons k ks)
  then obtain e where e: "map_of acts k = Some e" by (auto simp: map_of_eq_None_iff dest: weak_map_of_SomeI)
  with canonical_map_of[OF assms(1)] have "name_ok k" "canonical_entry e" by auto
  with Cons e show ?case by (simp add: load_serialized)
qed simp

lemma map_of_update_all:
  "distinct ks \<Longrightarrow> map_of (update_all (map (\<lambda>k. (k, f k)) ks) d) k = (if k \<in> set ks then Some (f k) else map_of d k)"
  by (induction ks arbitrary: d) (auto simp: update_conv')

text \<open>The YAML library gives back what it has written of an action map.\<close>

definition yaml_faithful :: "yaml_lib \<Rightarrow> bool" where
  "yaml_faithful L = (\<forall>acts. canonical acts \<longrightarrow> yl_load L (yl_dump L (payload acts)) = Some (payload acts))"

lemma load_saved:
  assumes "yaml_faithful L" and "canonical acts"
  shows "\<exists>acts'. load_actions L (Some (yl_dump L (payload acts))) = Some acts' \<and> map_of acts' = map_of acts"
proof -
  let ?ks = "sort (map fst acts)"
  let ?r = "update_all (map (\<lambda>k. (k, the (map_of acts k))) ?ks) []"
  have s: "load_items L (map (\<lambda>k. (YStr k, serialize_entry (the (map_of acts k)))) ?ks) [] = Some ?r"
    by (rule load_payload_items[OF assms(2)]) auto
  have "load_actions L (Some (yl_dump L (payload acts))) = Some ?r"
    using assms s by (auto simp: yaml_faithful_def load_actions_def payload_def or_empty_def)
  moreover have "map_of ?r k = map_of acts k" for k
  proof (cases "k \<in> fst ` set acts")
    case True
    then obtain e where "map_of acts k = Some e" by (auto simp: map_of_eq_None_iff dest: weak_map_of_SomeI)
    with True assms(2) show ?thesis by (simp add: map_of_update_all canonical_def)
  next
    case False
    moreover have "map_of acts k = None" using False by (simp add: map_of_eq_None_iff)
    ultimately show ?thesis using assms(2) by (simp add: map_of_update_all canonical_def)
  qed
  ultimately show ?thesis by auto
qed

subsection \<open>Every reachable state\<close>

definition frame_valid :: "ustr list \<Rightarrow> action_frame \<Rightarrow> bool" where
  "frame_valid required f = (set (map fst (fr_joints f)) = set required \<and> distinct (map fst (fr_joints f)) \<and> delay_ok (fr_delay f))"

lemma all_some_length: "all_some xs = Some ys \<Longrightarrow> length ys = length xs"
  by (induction xs arbitrary: ys rule: all_some.induct) auto

lemma update_all_keys: "fst ` set (update_all ps d) = fst ` set ps \<union> fst ` set d"
  proof (induction ps arbitrary: d)
  case (Cons p ps)
  obtain k v where p: "p = (k, v)" by (cases p)
  have "fst ` set (AList.update k v d) = insert k (fst ` set d)" by (induction d) auto
  with Cons.IH[of "AList.update k v d"] p show ?case by auto
qed simp

lemma validate_frame_valid:
  assumes "validate_frame L required v = Inr f"
  shows "frame_valid required f"
proof -
  obtain vs d where f: "f = \<lparr>fr_joints = update_all (zip required vs) [], fr_delay = d\<rparr>" "delay_ok d" "length vs = length required"
    using assms by (auto simp: validate_frame_def split: yaml.splits option.splits if_splits dest!: all_some_length)
  have "set (map fst (update_all (zip required vs) [])) = set required"
    using f(3) by (simp only: set_map update_all_keys) (simp add: set_map[symmetric] del: set_map)
  with f show ?thesis by (simp add: frame_valid_def update_all_distinct)
qed

lemma validate_each_valid: "validate_each L required vs = Inr fs \<Longrightarrow> length fs = length vs \<and> (\<forall>f \<in> set fs. frame_valid required f)"
  by (induction vs arbitrary: fs) (auto simp: bind_res_eq_Inr dest: validate_frame_valid)

lemma validate_frames_valid:
  assumes "validate_frames L required v = Inr fs" and "required \<noteq> []"
  shows "fs \<noteq> [] \<and> length fs \<le> MAX_FRAMES \<and> (\<forall>f \<in> set fs. frame_valid required f)"
  using assms by (auto simp: validate_frames_def Let_def split: yaml.splits if_splits dest: validate_each_valid)


text \<open>
  The invariant of a manager \<open>booted\<close> with its first map: what is stored is canonical, is what a new
  manager would read from the file, and is either as it was read or validated; a cached tag that matches
  the file is the tag of the file.
\<close>

definition entry_valid :: "ustr list \<Rightarrow> action_entry \<Rightarrow> bool" where
  "entry_valid required e =
     (en_frames e \<noteq> [] \<and> length (en_frames e) \<le> MAX_FRAMES \<and> (\<forall>f \<in> set (en_frames e). frame_valid required f))"

definition sound :: "action_map \<Rightarrow> ustr list \<Rightarrow> action_map \<Rightarrow> bool" where
  "sound booted required acts =
     (\<forall>k e. map_of acts k = Some e \<longrightarrow> map_of booted k = Some e \<or> entry_valid required e)"

lemma sound_refl: "sound acts required acts"
  by (simp add: sound_def)

lemma sound_update: "sound booted required acts \<Longrightarrow> entry_valid required e \<Longrightarrow> sound booted required (AList.update k e acts)"
  by (auto simp: sound_def update_conv')

definition actions_inv :: "yaml_lib \<Rightarrow> action_map \<Rightarrow> actions_manager \<times> disk \<Rightarrow> bool" where
  "actions_inv L booted md =
     (case md of (m, dk) \<Rightarrow>
        canonical (am_map m) \<and> am_required m \<noteq> [] \<and>
        (\<exists>acts. load_actions L (dk_text dk) = Some acts \<and> map_of acts = map_of (am_map m)) \<and>
        sound booted (am_required m) (am_map m) \<and>
        (case am_cache m of None \<Rightarrow> True
         | Some (e, n, t) \<Rightarrow> \<exists>text. dk_text dk = Some text \<and> e = etag_of L text \<and> n = yl_bytes L text \<and> t = dk_mtime dk))"

lemma actions_boot_inv: "boot L required dk = Some m \<Longrightarrow> actions_inv L (am_map m) (m, dk)"
  by (auto simp: boot_def actions_inv_def refresh_etag_def REQUIRED_JOINTS_def Let_def sound_refl
      split: option.splits yaml.splits if_splits dest: load_actions_canonical)

definition true_etag :: "yaml_lib \<Rightarrow> disk \<Rightarrow> ustr" where
  "true_etag L dk = (case dk_text dk of None \<Rightarrow> EMPTY_ETAG | Some t \<Rightarrow> etag_of L t)"

lemma compute_etag_inv:
  assumes "actions_inv L booted (m, dk)" and "compute_etag L dk m = (e, m')"
  shows "actions_inv L booted (m', dk) \<and> e = true_etag L dk \<and> am_map m' = am_map m \<and> am_required m' = am_required m"
  using assms by (auto simp: compute_etag_def refresh_etag_def actions_inv_def true_etag_def split: option.splits if_splits)

lemma new_entry_canonical:
  assumes "canonical (am_map m)" and "\<forall>f \<in> set frames. distinct (map fst (fr_joints f))"
  shows "canonical_entry (new_entry m r frames)"
  using assms by (auto simp: new_entry_def canonical_entry_def split: option.splits dest: canonical_map_of)

lemma new_entry_frames [simp]: "en_frames (new_entry m r frames) = frames"
  by (simp add: new_entry_def split: option.splits)

text \<open>The outcome of a save: nothing has changed, or one entry has, in memory and in the file.\<close>

lemma save_cases:
  assumes "save_action L r (m, dk) = (res, m', dk')" and "actions_inv L booted (m, dk)"
  obtains (refused) e where "res = Inl e" "am_map m' = am_map m" "dk' = dk" "actions_inv L booted (m', dk)"
  | (saved) frames where "res = Inr (true_etag L dk', map_of (am_map m) (sr_name r) \<noteq> None)"
      "name_ok (sr_name r)" "validate_frames L (am_required m) (sr_frames r) = Inr frames"
      "sr_if_match r = None \<or> sr_if_match r = Some (true_etag L dk)"
      "am_map m' = AList.update (sr_name r) (new_entry m r frames) (am_map m)" "am_required m' = am_required m"
      "dk' = \<lparr>dk_text = Some (yl_dump L (payload (am_map m'))), dk_mtime = sr_now r\<rparr>"
      "am_cache m' = Some (true_etag L dk', yl_bytes L (yl_dump L (payload (am_map m'))), sr_now r)"
proof -
  obtain e m1 where c: "compute_etag L dk m = (e, m1)" by (cases "compute_etag L dk m")
  note inv1 = compute_etag_inv[OF assms(2) c]
  have n: "new_entry m1 r = new_entry m r" using inv1 by (simp add: new_entry_def fun_eq_iff split: option.splits)
  show thesis
    using assms inv1 n
    by (auto simp: save_action_def c refresh_etag_def true_etag_def Let_def split: sum.splits if_splits
        intro: refused saved)
qed

lemma actions_save_inv:
  assumes "yaml_faithful L" and "actions_inv L booted md" and "save_action L r md = (res, md')"
  shows "actions_inv L booted md'"
proof -
  obtain m dk m' dk' where md: "md = (m, dk)" "md' = (m', dk')" by (cases md, cases md')
  have "actions_inv L booted (m', dk')"
    using assms(3,2)[unfolded md]
  proof (cases rule: save_cases)
    case (refused e)
    then show ?thesis by (simp add: md)
  next
    case (saved frames)
    have inv: "canonical (am_map m)" "am_required m \<noteq> []" using assms(2) by (simp_all add: md actions_inv_def)
    have valid: "entry_valid (am_required m) (new_entry m r frames)"
      using validate_frames_valid[OF saved(3) inv(2)] by (simp add: entry_valid_def)
    then have "canonical_entry (new_entry m r frames)"
      by (intro new_entry_canonical inv(1)) (auto simp: entry_valid_def frame_valid_def)
    then have can: "canonical (am_map m')" unfolding saved(5) by (intro canonical_update inv(1) saved(2))
    then obtain acts where "load_actions L (dk_text dk') = Some acts" "map_of acts = map_of (am_map m')"
      using load_saved[OF assms(1) can] saved(7) by auto
    moreover have "sound booted (am_required m) (am_map m')"
      using sound_update valid assms(2) unfolding saved(5) md by (simp add: actions_inv_def)
    moreover have "true_etag L dk' = etag_of L (yl_dump L (payload (am_map m')))" using saved(7) by (simp add: true_etag_def)
    ultimately show ?thesis using can saved inv(2) by (auto simp: actions_inv_def)
  qed
  then show ?thesis by (simp add: md)
qed

lemma actions_step_inv:
  assumes "yaml_faithful L" and "actions_inv L booted md"
  shows "actions_inv L booted (actions_step L md op)"
proof (cases op)
  case (SaveAction r)
  then show ?thesis using actions_save_inv[OF assms, of r] by (cases "save_action L r md") simp
next
  case ReadTag
  obtain m dk where md: "md = (m, dk)" by (cases md)
  then show ?thesis using compute_etag_inv[of L booted m dk] assms(2) ReadTag
    by (cases "compute_etag L dk m") (simp add: get_etag_def)
qed

lemma actions_run_inv:
  assumes "yaml_faithful L" and "actions_inv L booted md"
  shows "actions_inv L booted (actions_run L md ops)"
  using assms(2) unfolding actions_run_def
proof (induction ops arbitrary: md)
  case (Cons op ops)
  from Cons.IH[OF actions_step_inv[OF assms(1) Cons.prems]] show ?case by simp
qed simp

lemma actions_boot_run_inv:
  assumes "yaml_faithful L" and "boot L required dk = Some m" and "actions_run L (m, dk) ops = (m', dk')"
  shows "actions_inv L (am_map m) (m', dk')"
  using actions_run_inv[OF assms(1) actions_boot_inv[OF assms(2)], of ops] assms(3) by simp

text \<open>C26: However a manager is used, each stored action has a proper name and trimmed texts, and is either as the
  file had it at the start or well-formed: at least one and at most fifty frames, each with exactly the
  joints of the actuator and a delay within its bounds.
\<close>

theorem stored_actions_well_formed:
  assumes "yaml_faithful L" and "boot L required dk = Some m" and "actions_run L (m, dk) ops = (m', dk')"
    and "map_of (am_map m') k = Some e"
  shows "name_ok k \<and> canonical_entry e \<and> (map_of (am_map m) k = Some e \<or> entry_valid (am_required m') e)"
  using actions_boot_run_inv[OF assms(1-3)] canonical_map_of[of "am_map m'" k e] assms(4)
  by (auto simp: actions_inv_def sound_def)

text \<open>C27: The file is the source of truth: in every state a manager started anew on the file has the same actions.
\<close>

theorem memory_is_file:
  assumes "yaml_faithful L" and "boot L required dk = Some m" and "actions_run L (m, dk) ops = (m', dk')"
  shows "\<exists>m''. boot L required dk' = Some m'' \<and> map_of (am_map m'') = map_of (am_map m')"
proof -
  obtain acts where "load_actions L (dk_text dk') = Some acts" "map_of acts = map_of (am_map m')"
    using actions_boot_run_inv[OF assms] by (auto simp: actions_inv_def)
  then show ?thesis by (auto simp: boot_def refresh_etag_def Let_def split: option.splits yaml.splits)
qed



subsection \<open>The properties applied\<close>

text \<open>A library that numbers the values, on which the hypotheses hold.\<close>

instance float_value :: countable
  by countable_datatype

instance yaml :: countable
  by countable_datatype

definition toy_yaml :: yaml_lib where
  "toy_yaml = \<lparr>yl_load = (\<lambda>t. case t of [n] \<Rightarrow> Some (from_nat (nat n)) | _ \<Rightarrow> None), yl_dump = (\<lambda>v. [int (to_nat v)]),
     yl_float = (\<lambda>_. None), yl_str = (\<lambda>_. []), yl_bytes = length, yl_digest = (\<lambda>t. 0 # t)\<rparr>"

lemma toy_faithful: "yaml_faithful toy_yaml"
  by (simp add: yaml_faithful_def toy_yaml_def)

definition toy_disk :: disk where "toy_disk = \<lparr>dk_text = None, dk_mtime = 0\<rparr>"

definition toy_manager :: actions_manager where
  "toy_manager = \<lparr>am_map = [], am_required = [[106]], am_cache = None\<rparr>"

lemma toy_boot: "boot toy_yaml [[106]] toy_disk = Some toy_manager"
  by (simp add: boot_def load_actions_def toy_disk_def toy_manager_def)

definition toy_save :: "ustr \<Rightarrow> save_request" where
  "toy_save name = \<lparr>sr_name = name, sr_frames = YList [YMap [(YStr kJoints, YMap [(YStr [106], YInt 3)])]],
     sr_if_match = None, sr_description = None, sr_writes = True, sr_now = 1\<rparr>"

lemma toy_frames:
  "validate_frames toy_yaml [[106]] (sr_frames (toy_save name)) = Inr [\<lparr>fr_joints = [([106], Fin 3)], fr_delay = Fin (2 / 5)\<rparr>]"
  by (simp add: validate_frames_def toy_save_def validate_frame_def frame_delay_def delay_ok_def bind_res_def
      MAX_FRAMES_def MIN_DELAY_def MAX_DELAY_def DEFAULT_DELAY_def)

lemma toy_bytes [simp]: "yl_bytes toy_yaml (yl_dump toy_yaml v) = 1" "(MAX_YAML_BYTES < 1) = False" "0 < MAX_YAML_BYTES"
  by (simp_all add: toy_yaml_def MAX_YAML_BYTES_def)

lemma toy_saved:
  "name_ok name \<Longrightarrow> sr_if_match r = None \<or> sr_if_match r = Some EMPTY_ETAG \<Longrightarrow>
   r = toy_save name\<lparr>sr_if_match := x\<rparr> \<Longrightarrow>
   \<exists>e m' dk'. save_action toy_yaml r (toy_manager, toy_disk) = (Inr (e, False), m', dk') \<and> map_of (am_map m') name \<noteq> None"
  using toy_frames[of name]
  by (auto simp: save_action_def toy_manager_def toy_disk_def compute_etag_def refresh_etag_def Let_def toy_save_def)

theorem stored_actions_well_formed_witness:
  "\<exists>m' dk' e. actions_run toy_yaml (toy_manager, toy_disk) [SaveAction (toy_save [97])] = (m', dk') \<and>
     map_of (am_map m') [97] = Some e \<and> canonical_entry e \<and> entry_valid (am_required m') e"
proof -
  have n: "name_ok [97]" by code_simp
  obtain e m' dk' where s: "save_action toy_yaml (toy_save [97]) (toy_manager, toy_disk) = (Inr (e, False), m', dk')"
    "map_of (am_map m') [97] \<noteq> None"
    using toy_saved[OF n, of "toy_save [97]" None] by (auto simp: toy_save_def)
  then obtain en where en: "map_of (am_map m') [97] = Some en" by auto
  have run: "actions_run toy_yaml (toy_manager, toy_disk) [SaveAction (toy_save [97])] = (m', dk')"
    using s(1) by (simp add: actions_run_def)
  from stored_actions_well_formed[OF toy_faithful toy_boot run en] en run show ?thesis
    by (auto simp: toy_manager_def)
qed

theorem memory_is_file_witness:
  "\<exists>m' dk' m''. actions_run toy_yaml (toy_manager, toy_disk) [SaveAction (toy_save [97]), ReadTag] = (m', dk') \<and>
     boot toy_yaml [[106]] dk' = Some m'' \<and> map_of (am_map m'') = map_of (am_map m')"
proof -
  obtain m' dk' where r: "actions_run toy_yaml (toy_manager, toy_disk) [SaveAction (toy_save [97]), ReadTag] = (m', dk')"
    by (cases "actions_run toy_yaml (toy_manager, toy_disk) [SaveAction (toy_save [97]), ReadTag]")
  from memory_is_file[OF toy_faithful toy_boot r] r show ?thesis by blast
qed


subsection \<open>What the tags do not protect\<close>

text \<open>
  The tag is that of the file, the actions are those in memory: after a change of the file from outside,
  a client that reads both and saves with that tag passes the check, and its save removes the change.
\<close>

lemma external_change_lost:
  fixes L :: yaml_lib and t :: ustr
  assumes "name_ok name" and "validate_frames L [[106]] (sr_frames (toy_save name)) = Inr frames"
    and "yl_bytes L (yl_dump L (payload [(name, \<lparr>en_description = [], en_frames = frames, en_mode = [], en_text = []\<rparr>)])) \<le> MAX_YAML_BYTES"
  shows "case get_etag L (toy_manager, \<lparr>dk_text = Some t, dk_mtime = 5\<rparr>) of
    (e, m, dk) \<Rightarrow> \<exists>x m'. save_action L (toy_save name\<lparr>sr_if_match := Some e\<rparr>) (m, dk) =
      (Inr x, m', \<lparr>dk_text = Some (yl_dump L (payload [(name, \<lparr>en_description = [], en_frames = frames, en_mode = [], en_text = []\<rparr>)])), dk_mtime = 1\<rparr>)"
  using assms
  by (auto simp: get_etag_def compute_etag_def refresh_etag_def toy_manager_def save_action_def toy_save_def new_entry_def Let_def)

text \<open>A name may end in a line feed, and a joint may be no number at all.\<close>

lemma name_with_line_feed: "name_ok [97, 10]"
  by code_simp

lemma joint_not_a_number:
  "validate_frame (toy_yaml\<lparr>yl_float := (\<lambda>_. Some NaN)\<rparr>) [[106]] (YMap [(YStr kJoints, YMap [(YStr [106], YStr [110, 97, 110])])]) =
     Inr \<lparr>fr_joints = [([106], NaN)], fr_delay = Fin (2 / 5)\<rparr>"
  by (simp add: validate_frame_def frame_delay_def delay_ok_def MIN_DELAY_def MAX_DELAY_def DEFAULT_DELAY_def)

text \<open>One joint of the file that is no number, and the store cannot be built at all.\<close>

lemma bad_joint_stops_start:
  assumes "yl_load L t = Some (YMap [(YStr kSequences, YMap [(YStr [97], YList [YMap [(YStr kJoints, YMap [(YStr [106], YNull)])]])])])"
  shows "boot L required \<lparr>dk_text = Some t, dk_mtime = 0\<rparr> = None"
  using assms
  by (simp add: boot_def load_actions_def or_empty_def load_item_def coerce_frames_def coerce_frame_def float_items_def)

end
