(* ===== verification/Provision.thy ===== *)
theory Provision
  imports Prelude "HOL-Library.Sublist"
begin

section \<open>Artifacts fetched at start\<close>

text \<open>
  \<^verbatim>\<open>server/core/artifact_provision.py\<close> with its two clients \<^verbatim>\<open>moss_artifacts.py\<close> and
  \<^verbatim>\<open>edgellm_v090_artifacts.py\<close>, and the downloads of \<^verbatim>\<open>hf_artifacts.py\<close>: where a file of a manifest goes,
  where it comes from, and how it is verified and installed. What is done to the file system is a list of
  instructions, so a crash is a prefix of it. Hash functions and the answers of the network are
  parameters; a fetch may leave any partial contents in its temporary file before it ends.
\<close>

subsection \<open>Files\<close>

type_synonym 'b files = "string \<Rightarrow> 'b option"

datatype 'b file_instr = Write string 'b | Replace string string | Unlink string | MarkExecutable string

fun do_instr :: "'b files \<Rightarrow> 'b file_instr \<Rightarrow> 'b files" where
  "do_instr fs (Write p b) = fs(p \<mapsto> b)"
| "do_instr fs (Replace p q) = (case fs p of None \<Rightarrow> fs | Some b \<Rightarrow> fs(p := None, q \<mapsto> b))"
| "do_instr fs (Unlink p) = fs(p := None)"
| "do_instr fs (MarkExecutable p) = fs"

definition do_instrs :: "'b files \<Rightarrow> 'b file_instr list \<Rightarrow> 'b files" where
  "do_instrs fs is = foldl do_instr fs is"

lemma do_instrs_simps [simp]:
  "do_instrs fs [] = fs" "do_instrs fs (i # is) = do_instrs (do_instr fs i) is"
  "do_instrs fs (is @ js) = do_instrs (do_instrs fs is) js"
  by (simp_all add: do_instrs_def)

subsection \<open>Items and hashes\<close>

text \<open>An empty text stands for a field that is absent, which the code treats alike.\<close>

record artifact_item =
  it_path :: string
  it_dest :: "string option"
  it_source :: "string option"
  it_sha256 :: string
  it_md5 :: string
  it_optional :: bool
  it_executable :: bool

record 'b hashes =
  hs_sha256 :: "'b \<Rightarrow> string"
  hs_md5 :: "'b \<Rightarrow> string"

definition hash_ok :: "'b hashes \<Rightarrow> artifact_item \<Rightarrow> 'b \<Rightarrow> bool" where
  "hash_ok h it b =
     (if it_sha256 it \<noteq> [] then hs_sha256 h b = it_sha256 it
      else if it_md5 it \<noteq> [] then hs_md5 h b = it_md5 it
      else True)"

definition verify :: "'b hashes \<Rightarrow> 'b files \<Rightarrow> string \<Rightarrow> artifact_item \<Rightarrow> bool" where
  "verify h fs p it = (case fs p of None \<Rightarrow> False | Some b \<Rightarrow> hash_ok h it b)"

definition staged_path :: "string \<Rightarrow> string" where
  "staged_path dest = dest @ ''.staged''"

definition tmp_path :: "string \<Rightarrow> string" where
  "tmp_path dest = dest @ ''.tmp''"

subsection \<open>Download, check, install\<close>

datatype 'b fetch = Fetched "'b list" 'b | FetchFailed "'b list"

definition curl_download :: "string \<Rightarrow> 'b fetch \<Rightarrow> 'b file_instr list \<times> bool" where
  "curl_download dest f =
     (case f of
        Fetched parts b \<Rightarrow> (map (Write (tmp_path dest)) parts @ [Write (tmp_path dest) b, Replace (tmp_path dest) dest], True)
      | FetchFailed parts \<Rightarrow> (map (Write (tmp_path dest)) parts @ [Unlink (tmp_path dest)], False))"

definition check_hashes :: "'b hashes \<Rightarrow> string \<Rightarrow> artifact_item \<Rightarrow> 'b \<Rightarrow> 'b file_instr list \<times> bool" where
  "check_hashes h p it b = (if hash_ok h it b then ([], True) else ([Unlink p], False))"

definition install_verified :: "'b hashes \<Rightarrow> string \<Rightarrow> artifact_item \<Rightarrow> 'b fetch \<Rightarrow> 'b file_instr list \<times> bool" where
  "install_verified h dest it f =
     (let staged = staged_path dest; (down, fetched) = curl_download staged f
      in case f of
           FetchFailed parts \<Rightarrow> (down @ [Unlink staged], False)
         | Fetched parts b \<Rightarrow>
             (let (chk, fine) = check_hashes h staged it b
              in if fine then (down @ chk @ [Replace staged dest], True) else (down @ chk @ [Unlink staged], False)))"

text \<open>The loop of a provisioner: instructions, and whether it returned.\<close>

fun ensure_items ::
  "'b hashes \<Rightarrow> (artifact_item \<Rightarrow> string) \<Rightarrow> (artifact_item \<Rightarrow> 'b fetch) \<Rightarrow> 'b files \<Rightarrow> artifact_item list \<Rightarrow> 'b file_instr list \<times> bool" where
  "ensure_items h dest net fs [] = ([], True)"
| "ensure_items h dest net fs (it # its) =
     (let mark = (if it_executable it then [MarkExecutable (dest it)] else [])
      in if verify h fs (dest it) it then
           (let (js, fine) = ensure_items h dest net fs its in (mark @ js, fine))
         else
           (let (is, installed) = install_verified h (dest it) it (net it)
            in if \<not> installed \<and> \<not> it_optional it then (is, False)
               else let is = (if installed then is @ mark else is);
                        (js, fine) = ensure_items h dest net (do_instrs fs is) its
                    in (is @ js, fine)))"

subsection \<open>Where files come from and go\<close>

definition lstrip_slash :: "string \<Rightarrow> string" where
  "lstrip_slash s = dropWhile (\<lambda>c. c = CHR ''/'') s"

definition rstrip_slash :: "string \<Rightarrow> string" where
  "rstrip_slash s = rev (dropWhile (\<lambda>c. c = CHR ''/'') (rev s))"

definition strip_slash :: "string \<Rightarrow> string" where
  "strip_slash s = rstrip_slash (lstrip_slash s)"

definition base_name :: "string \<Rightarrow> string" where
  "base_name s = rev (takeWhile (\<lambda>c. c \<noteq> CHR ''/'') (rev (rstrip_slash s)))"

fun first_set :: "string option list \<Rightarrow> string" where
  "first_set [] = []"
| "first_set (None # vs) = first_set vs"
| "first_set (Some v # vs) = (if v = [] then first_set vs else v)"

definition endpoint :: "(string \<rightharpoonup> string) \<Rightarrow> string" where
  "endpoint env = rstrip_slash (case env ''HF_ENDPOINT'' of None \<Rightarrow> ''https://huggingface.co'' | Some v \<Rightarrow> v)"

record artifact_manifest =
  mf_repo :: string
  mf_prefix :: string
  mf_revision :: string
  mf_model_root :: string
  mf_worker_dir :: string
  mf_engine_root :: string
  mf_files :: "artifact_item list"

text \<open>What tells the two provisioners apart: the prefix of their variables, their defaults, and the sidecars of the engines.\<close>

record provisioner =
  pv_env :: string
  pv_prefix :: string
  pv_sidecars :: bool

definition moss_provisioner :: provisioner where
  "moss_provisioner = \<lparr>pv_env = ''MOSS_ARTIFACT_'', pv_prefix = ''models/moss-tts-nano'', pv_sidecars = True\<rparr>"

definition edgellm_provisioner :: provisioner where
  "edgellm_provisioner = \<lparr>pv_env = ''EDGELLM_V090_ARTIFACT_'', pv_prefix = ''models/edgellm-v090-asr'', pv_sidecars = False\<rparr>"

definition DEFAULT_REPO :: string where "DEFAULT_REPO = ''harvestsu/seeed-local-voice-artifacts''"

definition auto_download_off :: "provisioner \<Rightarrow> (string \<rightharpoonup> string) \<Rightarrow> bool" where
  "auto_download_off pv env =
     (str_lower (case env (pv_env pv @ ''AUTO_DOWNLOAD'') of None \<Rightarrow> ''1'' | Some v \<Rightarrow> v) \<in> {''0'', ''false'', ''no''})"

definition artifact_repo :: "provisioner \<Rightarrow> (string \<rightharpoonup> string) \<Rightarrow> artifact_manifest \<Rightarrow> string" where
  "artifact_repo pv env mf = strip_slash (first_set [env (pv_env pv @ ''REPO_ID''), Some (mf_repo mf), Some DEFAULT_REPO])"

definition artifact_prefix :: "provisioner \<Rightarrow> (string \<rightharpoonup> string) \<Rightarrow> artifact_manifest \<Rightarrow> string" where
  "artifact_prefix pv env mf = strip_slash (first_set [env (pv_env pv @ ''HF_PREFIX''), Some (mf_prefix mf), Some (pv_prefix pv)])"

definition artifact_revision :: "provisioner \<Rightarrow> (string \<rightharpoonup> string) \<Rightarrow> artifact_manifest \<Rightarrow> string" where
  "artifact_revision pv env mf = first_set [env (pv_env pv @ ''REVISION''), Some (mf_revision mf), Some ''main'']"

definition artifact_url :: "provisioner \<Rightarrow> (string \<rightharpoonup> string) \<Rightarrow> artifact_manifest \<Rightarrow> artifact_item \<Rightarrow> string" where
  "artifact_url pv env mf it =
     endpoint env @ ''/'' @ artifact_repo pv env mf @ ''/resolve/'' @ artifact_revision pv env mf @ ''/'' @
     artifact_prefix pv env mf @ ''/'' @
     lstrip_slash (case it_source it of None \<Rightarrow> lstrip_slash (it_path it) | Some s \<Rightarrow> s)"

definition moss_dest :: "(string \<rightharpoonup> string) \<Rightarrow> artifact_manifest \<Rightarrow> artifact_item \<Rightarrow> string" where
  "moss_dest env mf it =
     (let model_root = first_set [env ''MOSS_MODEL_ROOT'', Some (mf_model_root mf), Some ''/opt/models/moss-tts-nano''];
          worker_dir = first_set [env ''MOSS_WORKER_DIR'', Some (mf_worker_dir mf), Some ''/opt/jv-workers''];
          rel = lstrip_slash (it_path it)
      in if it_dest it = Some ''worker_dir'' then worker_dir @ ''/'' @ base_name rel else model_root @ ''/'' @ rel)"

definition edgellm_dest :: "(string \<rightharpoonup> string) \<Rightarrow> artifact_manifest \<Rightarrow> artifact_item \<Rightarrow> string" where
  "edgellm_dest env mf it =
     first_set [env ''EDGELLM_V090_ENGINE_ROOT'', Some (mf_engine_root mf), Some ''/opt/edgellm-v090''] @ ''/'' @ lstrip_slash (it_path it)"

text \<open>
  \<open>write_engine_meta_sidecars\<close>: beside each engine found below the root. What is written, and whether the
  write succeeds, is a parameter; a failure is only logged.
\<close>

definition meta_path :: "string \<Rightarrow> string" where
  "meta_path p = p @ ''.meta.json''"

definition is_engine :: "string \<Rightarrow> bool" where
  "is_engine p = list_ex (\<lambda>e. suffix e (base_name p) \<and> base_name p \<noteq> e) [''.plan'', ''.engine'']"

definition write_sidecar :: "string \<Rightarrow> 'b fetch \<Rightarrow> 'b file_instr list" where
  "write_sidecar p f =
     (let tmp = tmp_path (meta_path p)
      in case f of FetchFailed parts \<Rightarrow> map (Write tmp) parts
         | Fetched parts b \<Rightarrow> map (Write tmp) parts @ [Write tmp b, Replace tmp (meta_path p)])"

definition engine_sidecars :: "(string \<Rightarrow> 'b option \<Rightarrow> 'b fetch) \<Rightarrow> 'b files \<Rightarrow> string list \<Rightarrow> 'b file_instr list" where
  "engine_sidecars side fs walk = concat (map (\<lambda>p. write_sidecar p (side p (fs p))) (filter is_engine walk))"

text \<open>\<open>ensure_moss_artifacts\<close> and \<open>ensure_edgellm_v090_artifacts\<close>; \<open>walk\<close> lists the files below the root.\<close>

definition ensure_artifacts ::
  "provisioner \<Rightarrow> ((string \<rightharpoonup> string) \<Rightarrow> artifact_manifest \<Rightarrow> artifact_item \<Rightarrow> string) \<Rightarrow> 'b hashes \<Rightarrow> (string \<rightharpoonup> string) \<Rightarrow>
   artifact_manifest \<Rightarrow> (string \<Rightarrow> 'b fetch) \<Rightarrow> ('b files \<Rightarrow> string list) \<Rightarrow> (string \<Rightarrow> 'b option \<Rightarrow> 'b fetch) \<Rightarrow> 'b files \<Rightarrow>
   'b file_instr list \<times> bool" where
  "ensure_artifacts pv dest h env mf web walk side fs =
     (if auto_download_off pv env then ([], True)
      else if mf_files mf = [] then ([], False)
      else let (is, fine) = ensure_items h (dest env mf) (\<lambda>it. web (artifact_url pv env mf it)) fs (mf_files mf);
               fs' = do_instrs fs is
           in if fine \<and> pv_sidecars pv then (is @ engine_sidecars side fs' (walk fs'), True) else (is, fine))"

text \<open>Where the manifest itself is read from.\<close>

datatype manifest_origin = FromFile string | FromWeb string | ManifestMissing string

definition remote_manifest :: "provisioner \<Rightarrow> (string \<rightharpoonup> string) \<Rightarrow> string" where
  "remote_manifest pv env =
     (let var = (\<lambda>k d. case env (pv_env pv @ k) of None \<Rightarrow> d | Some v \<Rightarrow> v)
      in endpoint env @ ''/'' @ strip_slash (var ''REPO_ID'' DEFAULT_REPO) @ ''/resolve/'' @ var ''REVISION'' ''main'' @ ''/'' @
         strip_slash (var ''HF_PREFIX'' (pv_prefix pv)) @ ''/manifest.json'')"

definition manifest_source ::
  "provisioner \<Rightarrow> (string \<rightharpoonup> string) \<Rightarrow> (string \<Rightarrow> bool) \<Rightarrow> string option \<Rightarrow> string list \<Rightarrow> string \<Rightarrow> manifest_origin" where
  "manifest_source pv env exists profile candidates bundled =
     (let override = str_strip (case env (pv_env pv @ ''MANIFEST'') of None \<Rightarrow> '''' | Some v \<Rightarrow> v)
      in if override \<noteq> [] then (if exists override then FromFile override else ManifestMissing override)
         else case profile of
                Some p \<Rightarrow> if p = [] then (if exists bundled then FromFile bundled else FromWeb (remote_manifest pv env))
                  else (case filter exists candidates of [] \<Rightarrow> ManifestMissing p | c # _ \<Rightarrow> FromFile c)
              | None \<Rightarrow> if exists bundled then FromFile bundled else FromWeb (remote_manifest pv env))"

subsection \<open>Single files and bundles\<close>

text \<open>\<open>download_file\<close> of \<^verbatim>\<open>hf_artifacts.py\<close>: size and hash are checked in the temporary file.\<close>

definition download_file ::
  "'b hashes \<Rightarrow> ('b \<Rightarrow> int) \<Rightarrow> string \<Rightarrow> string \<Rightarrow> int option \<Rightarrow> 'b fetch \<Rightarrow> 'b file_instr list \<times> bool" where
  "download_file h weight dest sha expected f =
     (let tmp = tmp_path dest
      in case f of
           FetchFailed parts \<Rightarrow> (map (Write tmp) parts @ [Unlink tmp], False)
         | Fetched parts b \<Rightarrow>
             (let got = map (Write tmp) parts @ [Write tmp b]
              in if expected \<noteq> None \<and> expected \<noteq> Some (weight b) \<or> sha \<noteq> [] \<and> hs_sha256 h b \<noteq> sha
                 then (got @ [Unlink tmp], False) else (got @ [Replace tmp dest], True)))"

text \<open>The last step of \<open>download_and_extract_tarball\<close>: what was extracted replaces what was there, file by file.\<close>

definition move_extracted :: "'b files \<Rightarrow> string \<Rightarrow> string \<Rightarrow> string list \<Rightarrow> 'b file_instr list" where
  "move_extracted fs from dest names =
     concat (map (\<lambda>n. (if fs (dest @ ''/'' @ n) \<noteq> None then [Unlink (dest @ ''/'' @ n)] else []) @
       [Replace (from @ ''/'' @ n) (dest @ ''/'' @ n)]) names)"

subsection \<open>What a run leaves behind\<close>

fun touched :: "'b file_instr \<Rightarrow> string set" where
  "touched (Write p b) = {p}"
| "touched (Replace p q) = {p, q}"
| "touched (Unlink p) = {p}"
| "touched (MarkExecutable p) = {}"

lemma untouched: "\<forall>i \<in> set is. q \<notin> touched i \<Longrightarrow> do_instrs fs is q = fs q"
proof (induction "is" arbitrary: fs)
  case (Cons i js)
  then have "do_instr fs i q = fs q" by (cases i) (auto split: option.splits)
  with Cons show ?case by simp
qed simp

definition temps :: "string \<Rightarrow> string set" where
  "temps d = {staged_path d, tmp_path (staged_path d)}"

lemma temp_names [simp]: "d \<noteq> staged_path d" "d \<noteq> tmp_path (staged_path d)" "tmp_path p \<noteq> p"
  by (simp_all add: staged_path_def tmp_path_def)

lemma writes_temp: "do_instrs fs (map (Write p) parts @ [Write p b]) = fs(p \<mapsto> b)"
  by (induction parts arbitrary: fs) auto

text \<open>An installation works on temporary files, and its last instruction puts verified contents in place.\<close>

lemma install_shape:
  assumes "install_verified h d it f = (is, installed)"
  obtains (bad) "\<not> installed" "\<forall>i \<in> set is. touched i \<subseteq> temps d"
  | (good) js b where "installed" "is = js @ [Replace (staged_path d) d]" "\<forall>i \<in> set js. touched i \<subseteq> temps d"
      "hash_ok h it b" "\<And>fs. do_instrs fs js (staged_path d) = Some b"
proof (cases f)
  case (FetchFailed parts)
  then show thesis using assms by (intro bad) (auto simp: install_verified_def curl_download_def temps_def Let_def)
next
  case (Fetched parts b)
  let ?t = "tmp_path (staged_path d)"
  let ?js = "map (Write ?t) parts @ [Write ?t b, Replace ?t (staged_path d)]"
  show thesis
  proof (cases "hash_ok h it b")
    case True
    have "do_instrs fs ?js (staged_path d) = Some b" for fs
      using writes_temp[of fs ?t parts b] by (simp del: fun_upd_apply) simp
    then show thesis using True assms Fetched
      by (intro good[of ?js b]) (auto simp: install_verified_def curl_download_def check_hashes_def temps_def Let_def)
  next
    case False
    then show thesis using assms Fetched
      by (intro bad) (auto simp: install_verified_def curl_download_def check_hashes_def temps_def Let_def)
  qed
qed

definition fetched_for :: "'b hashes \<Rightarrow> string \<Rightarrow> artifact_item \<Rightarrow> 'b files \<Rightarrow> bool" where
  "fetched_for h d it fs = (\<exists>b. fs d = Some b \<and> hash_ok h it b)"

lemma verify_iff: "verify h fs d it = fetched_for h d it fs"
  by (auto simp: verify_def fetched_for_def split: option.splits)

lemma install_prefix:
  assumes "install_verified h d it f = (is, installed)" and "prefix p is" and "q \<notin> temps d"
  shows "do_instrs fs p q = fs q \<or> q = d \<and> fetched_for h d it (do_instrs fs p)"
  using assms(1)
proof (cases rule: install_shape)
  case bad
  then have "\<forall>i \<in> set p. q \<notin> touched i" using assms(2,3) set_mono_prefix by blast
  then show ?thesis by (simp add: untouched)
next
  case (good js b)
  then consider "prefix p js" | "p = js @ [Replace (staged_path d) d]" using assms(2) by (auto simp: prefix_append prefix_Cons)
  then show ?thesis
  proof cases
    case 1
    then have "\<forall>i \<in> set p. q \<notin> touched i" using good(3) assms(3) set_mono_prefix by blast
    then show ?thesis by (simp add: untouched)
  next
    case 2
    have "do_instrs fs js q = fs q" using good(3) assms(3) by (intro untouched) blast
    then show ?thesis using 2 good(4,5) assms(3) by (auto simp: fetched_for_def temps_def)
  qed
qed


lemma prefix_append_cases: "prefix p (is @ js) \<Longrightarrow> prefix p is \<or> (\<exists>p'. p = is @ p' \<and> prefix p' js)"
  by (auto simp: prefix_append)

definition kept_or_verified :: "'b hashes \<Rightarrow> (artifact_item \<Rightarrow> string) \<Rightarrow> artifact_item list \<Rightarrow> string \<Rightarrow> 'b files \<Rightarrow> 'b files \<Rightarrow> bool" where
  "kept_or_verified h dest its q fs fs' = (fs' q = fs q \<or> (\<exists>it \<in> set its. q = dest it \<and> fetched_for h q it fs'))"

lemma kept_trans:
  "kept_or_verified h dest [it] q fs fs1 \<Longrightarrow> kept_or_verified h dest its q fs1 fs2 \<Longrightarrow> kept_or_verified h dest (it # its) q fs fs2"
  by (auto simp: kept_or_verified_def fetched_for_def)

lemma kept_Cons: "kept_or_verified h dest [it] q fs fs' \<Longrightarrow> kept_or_verified h dest (it # its) q fs fs'"
  by (auto simp: kept_or_verified_def)

lemma install_kept:
  assumes "install_verified h (dest it) it f = (is, installed)" and "prefix p (is @ (if x then [MarkExecutable d] else []))"
    and "q \<notin> temps (dest it)"
  shows "kept_or_verified h dest [it] q fs (do_instrs fs p)"
proof -
  from assms(2) have "prefix p is \<or> do_instrs fs p = do_instrs fs is"
    by (auto simp: prefix_append prefix_Cons split: if_splits)
  then obtain p' where "prefix p' is" "do_instrs fs p = do_instrs fs p'" by blast
  with install_prefix[OF assms(1) this(1) assms(3), of fs] show ?thesis by (auto simp: kept_or_verified_def)
qed

lemma ensure_prefix:
  assumes "prefix p (fst (ensure_items h dest net fs its))" and "\<forall>it \<in> set its. q \<notin> temps (dest it)"
  shows "kept_or_verified h dest its q fs (do_instrs fs p)"
  using assms
proof (induction its arbitrary: fs p)
  case Nil
  then show ?case by (simp add: kept_or_verified_def)
next
  case (Cons it its)
  let ?mark = "if it_executable it then [MarkExecutable (dest it)] else []"
  have q: "\<forall>it \<in> set its. q \<notin> temps (dest it)" "q \<notin> temps (dest it)" using Cons.prems(2) by auto
  show ?case
  proof (cases "verify h fs (dest it) it")
    case True
    then have "prefix p (?mark @ fst (ensure_items h dest net fs its))"
      using Cons.prems(1) by (auto simp: split_beta Let_def)
    then consider "prefix p ?mark" | p' where "p = ?mark @ p'" "prefix p' (fst (ensure_items h dest net fs its))"
      using prefix_append_cases by blast
    then show ?thesis
    proof cases
      case 1
      then have "do_instrs fs p = fs" by (auto simp: prefix_Cons split: if_splits)
      then show ?thesis by (simp add: kept_or_verified_def)
    next
      case 2
      then have "do_instrs fs p = do_instrs fs p'" by simp
      then show ?thesis using Cons.IH[OF 2(2) q(1)] by (auto simp: kept_or_verified_def)
    qed
  next
    case False
    obtain "is" installed where i: "install_verified h (dest it) it (net it) = (is, installed)"
      by (cases "install_verified h (dest it) it (net it)")
    define block where "block = is @ (if installed \<and> it_executable it then [MarkExecutable (dest it)] else [])"
    have "prefix p block \<or> prefix p (block @ fst (ensure_items h dest net (do_instrs fs block) its))"
      using Cons.prems(1) False i by (cases installed) (auto simp: block_def split_beta Let_def split: if_splits)
    then consider "prefix p block" | p' where "p = block @ p'" "prefix p' (fst (ensure_items h dest net (do_instrs fs block) its))"
      using prefix_append_cases by blast
    then show ?thesis
    proof cases
      case 1
      then show ?thesis using install_kept[where dest = dest, OF i _ q(2)] unfolding block_def by (blast intro: kept_Cons)
    next
      case 2
      have "kept_or_verified h dest [it] q fs (do_instrs fs block)"
        unfolding block_def
        by (rule install_kept[where dest = dest and x = "installed \<and> it_executable it" and d = "dest it", OF i _ q(2)]) simp
      with Cons.IH[OF 2(2) q(1)] 2(1) show ?thesis by (simp add: kept_trans)
    qed
  qed
qed

definition is_sidecar :: "string \<Rightarrow> bool" where
  "is_sidecar q = (suffix ''.meta.json'' q \<or> suffix ''.meta.json.tmp'' q)"

lemma sidecar_names [simp]: "is_sidecar (meta_path p)" "is_sidecar (tmp_path (meta_path p))"
  by (auto simp: is_sidecar_def meta_path_def tmp_path_def suffix_def)

lemma sidecar_touched: "i \<in> set (write_sidecar p f) \<Longrightarrow> q \<in> touched i \<Longrightarrow> is_sidecar q"
  by (cases f) (auto simp: write_sidecar_def Let_def)

lemma sidecars_touched: "i \<in> set (engine_sidecars side fs walk) \<Longrightarrow> q \<in> touched i \<Longrightarrow> is_sidecar q"
  using sidecar_touched by (auto simp: engine_sidecars_def)

lemma sidecars_apart:
  assumes "set is \<subseteq> set (engine_sidecars side fs' walk)" and "\<not> is_sidecar q"
  shows "do_instrs fs is q = fs q"
proof (rule untouched, intro ballI notI)
  fix i assume "i \<in> set is" "q \<in> touched i"
  then show False using assms sidecars_touched[of i side fs' walk q] by blast
qed

text \<open>C29: A run that dies at any instruction, ends in an error or succeeds: outside its temporary files each path
  holds what it held before, or contents that pass the check of an item that goes there. A stale manifest
  or a broken download never costs a working file.
\<close>

theorem working_files_survive:
  assumes "prefix p (fst (ensure_artifacts pv dest h env mf web walk side fs))"
    and "\<forall>it \<in> set (mf_files mf). q \<notin> temps (dest env mf it)" and "\<not> is_sidecar q"
  shows "do_instrs fs p q = fs q \<or>
    (\<exists>it \<in> set (mf_files mf). q = dest env mf it \<and> verify h (do_instrs fs p) q it)"
proof -
  define its where "its = fst (ensure_items h (dest env mf) (\<lambda>it. web (artifact_url pv env mf it)) fs (mf_files mf))"
  define extra where "extra = engine_sidecars side (do_instrs fs its) (walk (do_instrs fs its))"
  have base: "do_instrs fs p q = fs q \<or> (\<exists>it \<in> set (mf_files mf). q = dest env mf it \<and> verify h (do_instrs fs p) q it)"
    if "prefix p its" for p
    using ensure_prefix[OF that[unfolded its_def] assms(2)] by (auto simp: kept_or_verified_def verify_iff)
  from assms(1) consider "prefix p its" | p' where "p = its @ p'" "prefix p' extra"
    by (auto simp: ensure_artifacts_def its_def[symmetric] extra_def split_beta Let_def prefix_append split: if_splits)
  then show ?thesis
  proof cases
    case 2
    then have "do_instrs fs p q = do_instrs fs its q"
      using sidecars_apart[of p'] assms(3) set_mono_prefix unfolding extra_def by fastforce
    then show ?thesis using base[of its] by (auto simp: verify_def)
  qed (use base in blast)
qed

subsection \<open>A run that succeeds\<close>






subsection \<open>The properties applied\<close>

definition demo_hashes :: "string hashes" where
  "demo_hashes = \<lparr>hs_sha256 = (\<lambda>b. b), hs_md5 = (\<lambda>b. b)\<rparr>"

definition demo_item :: artifact_item where
  "demo_item = \<lparr>it_path = ''engines/a.plan'', it_dest = None, it_source = None, it_sha256 = ''new'', it_md5 = '''',
     it_optional = False, it_executable = True\<rparr>"

definition demo_manifest :: artifact_manifest where
  "demo_manifest = \<lparr>mf_repo = '''', mf_prefix = '''', mf_revision = '''', mf_model_root = ''/e'', mf_worker_dir = '''',
     mf_engine_root = '''', mf_files = [demo_item]\<rparr>"

definition demo_artifacts :: "string files" where
  "demo_artifacts = [''/e/engines/a.plan'' \<mapsto> ''old'']"

definition demo_ensure :: "string \<Rightarrow> string files \<Rightarrow> string file_instr list \<times> bool" where
  "demo_ensure answer = ensure_artifacts moss_provisioner moss_dest demo_hashes (\<lambda>_. None) demo_manifest (\<lambda>_. Fetched [''ne''] answer)
     (\<lambda>_. [''/e/engines/a.plan'']) (\<lambda>_ _. Fetched [] ''meta'')"

theorem working_files_survive_witness:
  "do_instrs demo_artifacts (take 2 (fst (demo_ensure ''bad'' demo_artifacts))) ''/e/engines/a.plan'' = Some ''old'' \<or>
   verify demo_hashes (do_instrs demo_artifacts (take 2 (fst (demo_ensure ''bad'' demo_artifacts)))) ''/e/engines/a.plan'' demo_item"
proof -
  have m: "\<forall>it \<in> set (mf_files demo_manifest). ''/e/engines/a.plan'' \<notin> temps (moss_dest (\<lambda>_. None) demo_manifest it)"
    "\<not> is_sidecar ''/e/engines/a.plan''" by code_simp+
  have p: "prefix (take 2 (fst (demo_ensure ''bad'' demo_artifacts))) (fst (demo_ensure ''bad'' demo_artifacts))"
    by (rule take_is_prefix)
  have f: "mf_files demo_manifest = [demo_item]" "demo_artifacts ''/e/engines/a.plan'' = Some ''old''"
    by (simp_all add: demo_manifest_def demo_artifacts_def)
  show ?thesis using working_files_survive[where dest = moss_dest, OF p[unfolded demo_ensure_def] m] unfolding f demo_ensure_def by auto
qed


subsection \<open>Bundles and empty variables\<close>

text \<open>
  The contents of a bundle are said to be moved atomically. Each file that is there is removed first: a
  crash in between leaves neither the old file nor the new one at its place.
\<close>

lemma bundle_move_not_atomic:
  "let fs = [''d/a'' \<mapsto> ''old'', ''x/a'' \<mapsto> ''new'']; is = move_extracted fs ''x'' ''d'' [''a'']
   in do_instrs fs (take 1 is) ''d/a'' = None \<and> do_instrs fs is ''d/a'' = Some ''new''"
  by code_simp

text \<open>
  An empty variable is unset for the files and set for the remote manifest, whose address then has no
  repository.
\<close>

lemma empty_repository_variable:
  "let env = [''MOSS_ARTIFACT_REPO_ID'' \<mapsto> '''']
   in artifact_repo moss_provisioner env demo_manifest = DEFAULT_REPO \<and>
      remote_manifest moss_provisioner env = ''https://huggingface.co//resolve/main/models/moss-tts-nano/manifest.json''"
  by code_simp

end
