(* ===== verification/SpeechErrors.thy ===== *)
theory SpeechErrors
  imports Json
begin

section \<open>Errors of the versioned speech endpoints\<close>

text \<open>
  What an operation of the versioned endpoints raises (\<open>APIExecutionError\<close> of
  \<^verbatim>\<open>server/core/api_execution.py\<close> with its subclasses, \<open>_v1_clone_error\<close>, \<open>_native_error_response\<close>,
  \<open>_is_pool_saturated\<close> and \<open>_v1_limit\<close> of \<^verbatim>\<open>server/main.py\<close>). Every exception that reaches the
  serializer is an \<open>exc\<close>: a domain error, an \<open>HTTPException\<close> of the framework, or any other one with
  its class, its \<open>status\<close> attribute and its text.
\<close>

record api_error =
  ae_message :: string
  ae_status :: int
  ae_code :: string
  ae_param :: "string option"
  ae_headers :: "(string \<times> string) list"

datatype exc =
  ApiExc api_error
| HttpExc int json "(string \<times> string) list"
| PyExc (pe_class: string) (pe_status: "int option") (pe_text: string)

definition api_exc :: "string \<Rightarrow> int \<Rightarrow> string \<Rightarrow> string option \<Rightarrow> exc" where
  "api_exc message status code param = ApiExc \<lparr>ae_message = message, ae_status = status, ae_code = code, ae_param = param, ae_headers = []\<rparr>"

definition clone_error :: "string \<Rightarrow> string \<Rightarrow> string \<Rightarrow> exc" where
  "clone_error message code param = api_exc message 400 code (Some param)"

definition backend_not_ready :: "string \<Rightarrow> exc" where
  "backend_not_ready KIND = api_exc (KIND @ '' backend not available'') 503 ''backend_not_ready'' None"

definition backend_busy :: "int option \<Rightarrow> exc" where
  "backend_busy max_slots =
     ApiExc \<lparr>ae_message = ''backend is busy'' @ (case max_slots of None \<Rightarrow> [] | Some n \<Rightarrow> ''; maximum concurrent slots: '' @ int_str n),
       ae_status = 429, ae_code = ''backend_busy'', ae_param = None, ae_headers = [(''Retry-After'', ''1'')]\<rparr>"

definition is_pool_saturated :: "exc \<Rightarrow> bool" where
  "is_pool_saturated x = (case x of PyExc c st _ \<Rightarrow> st = Some 4429 \<or> c = ''PoolSaturatedError'' | _ \<Rightarrow> False)"

text \<open>The response that is sent: status, headers and the error object of the body.\<close>

record response =
  rs_status :: int
  rs_code :: string
  rs_message :: string
  rs_param :: "string option"
  rs_headers :: "(string \<times> string) list"

definition public_message :: "string \<Rightarrow> string" where
  "public_message code =
     (if code = ''tts_manager_start_failed'' then ''TTS backend failed to start''
      else if code = ''tts_manager_failed'' then ''TTS backend is not ready''
      else if code = ''tts_manager_unavailable'' then ''TTS backend is temporarily unavailable''
      else ''service unavailable'')"

definition jor :: "json \<Rightarrow> json \<Rightarrow> json" where
  "jor a b = (if jtruthy a then a else b)"

definition http_code :: "(json \<Rightarrow> string) \<Rightarrow> json \<Rightarrow> string" where
  "http_code rep detail =
     (case detail of JObj d \<Rightarrow> jstr rep (jor (jget d ''error'' JNull) (JStr ''http_error'')) | _ \<Rightarrow> ''http_error'')"

definition http_message :: "(json \<Rightarrow> string) \<Rightarrow> int \<Rightarrow> json \<Rightarrow> string" where
  "http_message rep status detail =
     (case detail of
        JObj d \<Rightarrow>
          if status \<ge> 500 then public_message (http_code rep detail)
          else jstr rep (jor (jget d ''message'' JNull) (jor (jget d ''detail'' JNull) (JStr (http_code rep detail))))
      | _ \<Rightarrow> if status \<ge> 500 then ''service unavailable'' else jstr rep detail)"

definition native_error_response :: "(json \<Rightarrow> string) \<Rightarrow> exc \<Rightarrow> response" where
  "native_error_response rep x =
     (let r = (case x of
          ApiExc a \<Rightarrow> \<lparr>rs_status = ae_status a, rs_code = ae_code a, rs_message = ae_message a, rs_param = ae_param a,
              rs_headers = ae_headers a\<rparr>
        | _ \<Rightarrow>
          if is_pool_saturated x then
            \<lparr>rs_status = 429, rs_code = ''backend_busy'', rs_message = ''backend is busy'', rs_param = None,
              rs_headers = [(''Retry-After'', ''1'')]\<rparr>
          else (case x of
            HttpExc status detail headers \<Rightarrow>
              \<lparr>rs_status = status, rs_code = http_code rep detail, rs_message = http_message rep status detail, rs_param = None,
                rs_headers = headers\<rparr>
          | _ \<Rightarrow> \<lparr>rs_status = 503, rs_code = ''backend_error'', rs_message = ''backend execution failed'', rs_param = None,
              rs_headers = [(''Retry-After'', ''1'')]\<rparr>))
      in r\<lparr>rs_param := (case rs_param r of Some [] \<Rightarrow> None | p \<Rightarrow> p)\<rparr>)"

text \<open>\<open>_v1_limit\<close>: an unset, blank, malformed or non-positive limit is the default.\<close>

definition v1_limit :: "(string \<rightharpoonup> string) \<Rightarrow> string \<Rightarrow> int \<Rightarrow> int" where
  "v1_limit e name dflt =
     (case e name of
        None \<Rightarrow> dflt
      | Some raw \<Rightarrow>
          if str_strip raw = [] then dflt
          else case py_int raw of None \<Rightarrow> dflt | Some v \<Rightarrow> if v \<le> 0 then dflt else v)"

lemma v1_limit_pos: "0 < dflt \<Longrightarrow> 0 < v1_limit e name dflt"
  by (simp add: v1_limit_def split: option.splits)

lemma api_exc_saturated [simp]: "\<not> is_pool_saturated (api_exc m s c p)" "\<not> is_pool_saturated (ApiExc a)"
  by (simp_all add: is_pool_saturated_def api_exc_def)

text \<open>What the model of an error tells the outside. Two exceptions of the server's side that differ only in
  their text or detail, with the same status and the same error class, are indistinguishable.\<close>

definition same_class :: "(json \<Rightarrow> string) \<Rightarrow> exc \<Rightarrow> exc \<Rightarrow> bool" where
  "same_class rep x y =
     (case (x, y) of
        (PyExc c st _, PyExc c' st' _) \<Rightarrow> c = c' \<and> st = st'
      | (HttpExc st d h, HttpExc st' d' h') \<Rightarrow> st = st' \<and> st \<ge> 500 \<and> h = h' \<and> http_code rep d = http_code rep d'
      | _ \<Rightarrow> False)"

lemma http_message_public: "status \<ge> 500 \<Longrightarrow> http_message rep status detail = public_message (http_code rep detail)"
  by (cases detail) (simp_all add: http_message_def http_code_def public_message_def)

text \<open>Nothing of an internal failure reaches the client: exceptions of the same class, and server errors of the
  framework with the same code, give the same response, whatever their text or detail says.\<close>

theorem internal_text_never_exposed:
  assumes "same_class rep x y"
  shows "native_error_response rep x = native_error_response rep y"
  using assms
  by (cases x; cases y)
    (simp_all add: same_class_def native_error_response_def is_pool_saturated_def http_message_public)

theorem internal_text_never_exposed_witness:
  "native_error_response (\<lambda>_. []) (HttpExc 503 (JStr ''/opt/engine.plan missing'') []) =
   native_error_response (\<lambda>_. []) (HttpExc 503 (JObj [(''detail'', JInt 7)]) [])"
  by (rule internal_text_never_exposed) (simp add: same_class_def http_code_def jor_def jget_def)

end
