(* ===== verification/SpeechRequests.thy ===== *)
theory SpeechRequests
  imports SpeechErrors VoiceRegistry Base64
begin

section \<open>Checks of the versioned speech requests\<close>

text \<open>
  The guards a request of the versioned endpoints passes before a backend is touched, from
  \<^verbatim>\<open>server/main.py\<close> (\<open>_v1_validate_text\<close> to \<open>_v1_clone_control_kwargs\<close>) and \<open>read_bounded_upload\<close> of
  \<^verbatim>\<open>server/core/api_execution.py\<close>. \<open>b64decode\<close> is the strict decoder of the library. A backend is what
  the checks read of it. Bytes are numbers below 256, text is its code points, and messages are without
  the quotes of \<open>repr\<close>.
\<close>

subsection \<open>Text and numbers\<close>

text \<open>\<open>len(text.encode("utf-8"))\<close>; \<open>None\<close> for a lone surrogate.\<close>

definition utf8_width :: "int \<Rightarrow> int option" where
  "utf8_width c =
     (if 0xD800 \<le> c \<and> c \<le> 0xDFFF then None
      else Some (if c < 0x80 then 1 else if c < 0x800 then 2 else if c < 0x10000 then 3 else 4))"

fun utf8_size :: "ustr \<Rightarrow> int option" where
  "utf8_size [] = Some 0"
| "utf8_size (c # cs) = (case (utf8_width c, utf8_size cs) of (Some a, Some b) \<Rightarrow> Some (a + b) | _ \<Rightarrow> None)"

definition validate_text :: "(string \<rightharpoonup> string) \<Rightarrow> ustr \<Rightarrow> (exc, unit) res" where
  "validate_text e text =
     (case utf8_size text of
        None \<Rightarrow> Inl (api_exc ''text must be valid UTF-8'' 400 ''invalid_text'' (Some ''text''))
      | Some n \<Rightarrow>
          let max_bytes = v1_limit e ''OVS_API_MAX_TEXT_BYTES'' (64 * 1024)
          in if n > max_bytes
             then Inl (api_exc (''text exceeds the '' @ int_str max_bytes @ '' byte limit'') 413 ''payload_too_large'' (Some ''text''))
             else Inr ())"

datatype pyfloat = Fin rat | NaN | PosInf | NegInf

definition in_range :: "pyfloat \<Rightarrow> rat \<Rightarrow> rat \<Rightarrow> bool" where
  "in_range x lo hi = (case x of Fin q \<Rightarrow> lo \<le> q \<and> q \<le> hi | _ \<Rightarrow> False)"

subsection \<open>The backend that would serve the request\<close>

datatype cap_answer = HasMethod bool | MethodRaises | Values "string list"

record v1_backend =
  vb_model_id :: "string option"
  vb_voice_cloning :: bool
  vb_capability :: "string \<Rightarrow> cap_answer"
  vb_clone_callable :: bool
  vb_clone_overridden :: bool
  vb_rate_pitch :: bool

definition backend_model :: "v1_backend \<Rightarrow> (exc, string) res" where
  "backend_model be =
     (case vb_model_id be of
        None \<Rightarrow> Inl (PyExc ''ValueError'' None ''active TTS backend does not expose model_id'')
      | Some m \<Rightarrow> if m = [] then Inl (PyExc ''ValueError'' None ''active TTS backend does not expose model_id'')
                 else Inr (canonical_model_id m))"

definition check_model :: "string \<Rightarrow> string \<Rightarrow> (exc, unit) res" where
  "check_model requested active =
     (if canonical_model_id requested \<noteq> canonical_model_id active
      then Inl (api_exc (''model '' @ requested @ '' is not the active TTS model'') 404 ''unknown_model'' (Some ''model''))
      else Inr ())"

definition backend_has_capability :: "v1_backend \<Rightarrow> string \<Rightarrow> bool" where
  "backend_has_capability be cap =
     (case vb_capability be cap of HasMethod b \<Rightarrow> b | MethodRaises \<Rightarrow> False | Values vs \<Rightarrow> cap \<in> set vs)"

definition bad_control :: "string \<Rightarrow> string \<Rightarrow> exc" where
  "bad_control message param = api_exc message 400 ''unsupported_control'' (Some param)"

definition validate_controls :: "pyfloat option \<Rightarrow> pyfloat option \<Rightarrow> v1_backend \<Rightarrow> (exc, unit) res" where
  "validate_controls speed pitch be =
     (if (case speed of None \<Rightarrow> False | Some v \<Rightarrow> \<not> in_range v (1 / 4) 4) then Inl (bad_control ''speed must be in [0.25, 4.0]'' ''speed'')
      else if (case pitch of None \<Rightarrow> False | Some v \<Rightarrow> \<not> in_range v (- 24) 24)
        then Inl (bad_control ''pitch must be in [-24, 24] semitones'' ''pitch'')
      else if (speed \<noteq> None \<or> pitch \<noteq> None) \<and> \<not> vb_rate_pitch be
        then Inl (bad_control ''the active backend does not support speed/pitch controls'' (if speed \<noteq> None then ''speed'' else ''pitch''))
      else Inr ())"

datatype clone_mode = EmbeddingMode | ReferenceMode

definition unsupported_clone :: "string \<Rightarrow> exc" where
  "unsupported_clone message = api_exc message 400 ''unsupported_clone_mode'' (Some ''model'')"

definition require_clone_backend :: "v1_backend \<Rightarrow> clone_mode \<Rightarrow> (exc, string) res" where
  "require_clone_backend be mode =
     bind_res (backend_model be) (\<lambda>active.
       let valid = (case mode of
             EmbeddingMode \<Rightarrow> canonical_model_id active = ''qwen3-tts-0.6b-base''
           | ReferenceMode \<Rightarrow> contains_str ''moss'' (str_lower (canonical_model_id active)))
       in if \<not> valid then Inl (unsupported_clone (''clone mode '' @ (case mode of EmbeddingMode \<Rightarrow> ''embedding'' | ReferenceMode \<Rightarrow> ''reference_audio'')
              @ '' is not supported by active model '' @ active))
          else if \<not> vb_voice_cloning be then Inl (unsupported_clone ''the active backend does not support voice cloning'')
          else if \<not> backend_has_capability be ''voice_clone''
            then Inl (unsupported_clone ''the active backend does not advertise voice cloning'')
          else if \<not> vb_clone_callable be then Inl (unsupported_clone ''the active backend has no usable clone implementation'')
          else if \<not> vb_clone_overridden be then Inl (unsupported_clone ''the active backend has no usable clone implementation'')
          else Inr active)"

subsection \<open>The embedding of a clone request\<close>

record clone_request =
  cr_model :: "string option"
  cr_text :: "ustr option"
  cr_embedding_b64 :: "string option"
  cr_speaker_embedding_b64 :: "string option"
  cr_dim :: "int option"
  cr_speed :: "pyfloat option"
  cr_pitch :: "pyfloat option"

text \<open>\<open>math.isfinite\<close> of the little-endian float32 in four bytes: the exponent is not all ones. \<open>iter_unpack\<close>
  raises on a rest of fewer than four bytes.\<close>

definition f32_finite :: "nat \<Rightarrow> nat \<Rightarrow> nat \<Rightarrow> nat \<Rightarrow> bool" where
  "f32_finite b0 b1 b2 b3 = ((b3 mod 128) * 2 + b2 div 128 \<noteq> 255)"

fun all_finite :: "nat list \<Rightarrow> (exc, bool) res" where
  "all_finite [] = Inr True"
| "all_finite (a # b # c # d # rest) = bind_res (all_finite rest) (\<lambda>r. Inr (f32_finite a b c d \<and> r))"
| "all_finite _ = Inl (PyExc ''error'' None ''iterative unpacking requires a buffer of a multiple of 4 bytes'')"

function scan_chunks :: "nat list \<Rightarrow> string \<Rightarrow> (exc, unit) res" where
  "scan_chunks decoded field =
     (if decoded = [] then Inr ()
      else case all_finite (take (4 * 1024) decoded) of
        Inl x \<Rightarrow> Inl x
      | Inr fin \<Rightarrow>
          if \<not> fin then Inl (clone_error ''embedding values must be finite float32 numbers'' ''invalid_profile'' field)
          else scan_chunks (drop (4 * 1024) decoded) field)"
  by pat_completeness auto
termination by (relation "measure (\<lambda>(decoded, field). length decoded)") auto

declare scan_chunks.simps [simp del]

definition too_large :: "int \<Rightarrow> string \<Rightarrow> exc" where
  "too_large max_bytes field = api_exc (''embedding exceeds the '' @ int_str max_bytes @ '' byte limit'') 413 ''payload_too_large'' (Some field)"

definition decode_embedding :: "(string \<Rightarrow> nat list option) \<Rightarrow> (string \<rightharpoonup> string) \<Rightarrow> clone_request \<Rightarrow> (exc, nat list) res" where
  "decode_embedding b64decode e req =
     (if cr_embedding_b64 req \<noteq> None \<and> cr_speaker_embedding_b64 req \<noteq> None
      then Inl (clone_error ''embedding_b64 and speaker_embedding_b64 are mutually exclusive'' ''multiple_profiles'' ''embedding_b64'')
      else
        let (value, field) = (case cr_embedding_b64 req of
               Some v \<Rightarrow> (Some v, ''embedding_b64'') | None \<Rightarrow> (cr_speaker_embedding_b64 req, ''speaker_embedding_b64''))
        in case value of
             None \<Rightarrow> Inl (clone_error ''a base64 float32 embedding is required'' ''missing_required_parameter'' ''embedding_b64'')
           | Some v \<Rightarrow>
               if v = [] then Inl (clone_error ''a base64 float32 embedding is required'' ''missing_required_parameter'' ''embedding_b64'')
               else
                 let max_bytes = v1_limit e ''OVS_API_MAX_PROFILE_BYTES'' (16 * 1024 * 1024)
                 in if int (length v) > 4 * ((max_bytes + 2) div 3) then Inl (too_large max_bytes field)
                    else case b64decode v of
                      None \<Rightarrow> Inl (clone_error ''embedding must be valid base64'' ''invalid_profile'' field)
                    | Some decoded \<Rightarrow>
                        if int (length decoded) > max_bytes then Inl (too_large max_bytes field)
                        else if decoded = [] \<or> length decoded mod 4 \<noteq> 0
                          then Inl (clone_error ''embedding must contain little-endian float32 values'' ''invalid_profile'' field)
                        else
                          let actual_dim = int (length decoded div 4)
                          in if (case cr_dim req of None \<Rightarrow> False | Some d \<Rightarrow> d \<le> 0 \<or> d \<noteq> actual_dim)
                             then Inl (clone_error (''embedding dim '' @ int_str (case cr_dim req of None \<Rightarrow> 0 | Some d \<Rightarrow> d)
                 @ '' does not match decoded float32 count '' @ int_str actual_dim) ''invalid_profile'' ''dim'')
                             else bind_res (scan_chunks decoded field) (\<lambda>_. Inr decoded))"

text \<open>The keyword arguments of \<open>clone_voice\<close>.\<close>

datatype clone_kw = KwSpeed pyfloat | KwPitchShift pyfloat | KwEmbedding "nat list"

definition clone_control_kwargs :: "clone_request \<Rightarrow> v1_backend \<Rightarrow> (exc, clone_kw list) res" where
  "clone_control_kwargs req be =
     bind_res (backend_model be) (\<lambda>_.
     bind_res (validate_controls (cr_speed req) (cr_pitch req) be) (\<lambda>_.
       Inr ((case cr_speed req of None \<Rightarrow> [] | Some v \<Rightarrow> [KwSpeed v]) @ (case cr_pitch req of None \<Rightarrow> [] | Some v \<Rightarrow> [KwPitchShift v]))))"

text \<open>\<open>_v1_clone_embedding_impl\<close>: the checks before admission, and \<open>prepare\<close>, which runs inside the lease of the
  backend with the decoded embedding.\<close>

definition check_clone_request :: "(string \<rightharpoonup> string) \<Rightarrow> clone_request \<Rightarrow> (exc, unit) res" where
  "check_clone_request e req =
     (if cr_model req = None \<or> cr_model req = Some []
      then Inl (clone_error ''model is required'' ''missing_required_parameter'' ''model'')
      else case cr_text req of
        None \<Rightarrow> Inl (clone_error ''text is required'' ''missing_required_parameter'' ''text'')
      | Some t \<Rightarrow> if t = [] then Inl (clone_error ''text is required'' ''missing_required_parameter'' ''text'')
                 else validate_text e t)"

definition prepare_embedding :: "clone_request \<Rightarrow> nat list option \<Rightarrow> v1_backend \<Rightarrow> (exc, clone_kw list) res" where
  "prepare_embedding req embedding be =
     bind_res (backend_model be) (\<lambda>active.
     bind_res (check_model (case cr_model req of None \<Rightarrow> [] | Some m \<Rightarrow> m) active) (\<lambda>_.
     bind_res (require_clone_backend be EmbeddingMode) (\<lambda>_.
     case embedding of
       None \<Rightarrow> Inl (clone_error ''embedding was not decoded'' ''invalid_profile'' ''embedding_b64'')
     | Some d \<Rightarrow> bind_res (clone_control_kwargs req be) (\<lambda>kw. Inr (kw @ [KwEmbedding d])))))"

text \<open>The request without streaming, from the body to the call of the backend.\<close>

definition clone_embedding :: "(string \<Rightarrow> nat list option) \<Rightarrow> (string \<rightharpoonup> string) \<Rightarrow> clone_request \<Rightarrow> v1_backend \<Rightarrow>
    (exc, clone_kw list) res" where
  "clone_embedding b64decode e req be =
     bind_res (check_clone_request e req) (\<lambda>_.
     bind_res (decode_embedding b64decode e req) (\<lambda>d. prepare_embedding req (Some d) be))"

subsection \<open>Uploads\<close>

text \<open>The chunks \<open>read\<close> returns, one after the other; \<open>None\<close> is an object that is not binary. The result comes
  with the number of chunks that were read.\<close>

definition read_too_large :: "int \<Rightarrow> exc" where
  "read_too_large max_bytes = api_exc (''uploaded audio exceeds the '' @ int_str max_bytes @ '' byte limit'') 413 ''payload_too_large'' (Some ''file'')"

fun read_loop :: "int \<Rightarrow> int \<Rightarrow> nat list list \<Rightarrow> nat list option list \<Rightarrow> (exc, nat list) res \<times> int" where
  "read_loop max_bytes sofar got [] = (Inr (concat (rev got)), sofar)"
| "read_loop max_bytes sofar got (None # rest) =
     (Inl (api_exc ''uploaded body is not binary'' 400 ''invalid_audio'' (Some ''file'')), sofar)"
| "read_loop max_bytes sofar got (Some chunk # rest) =
     (if chunk = [] then (Inr (concat (rev got)), sofar)
      else let sum1 = sofar + int (length chunk)
           in if sum1 > max_bytes then (Inl (read_too_large max_bytes), sum1)
              else read_loop max_bytes sum1 (chunk # got) rest)"

definition read_bounded_upload :: "int \<Rightarrow> nat list option list \<Rightarrow> (exc, nat list) res \<times> int" where
  "read_bounded_upload max_bytes chunks =
     (if max_bytes < 0 then (Inl (PyExc ''ValueError'' None ''max_bytes must be non-negative''), 0)
      else read_loop max_bytes 0 [] chunks)"

subsection \<open>What the checks let through\<close>

text \<open>Scanning in pieces is scanning the whole.\<close>

definition floats_finite :: "nat list \<Rightarrow> bool" where
  "floats_finite d = (\<forall>i < length d div 4. f32_finite (d ! (4 * i)) (d ! (4 * i + 1)) (d ! (4 * i + 2)) (d ! (4 * i + 3)))"

lemma floats_finite_Cons:
  "floats_finite (a # b # c # d # rest) \<longleftrightarrow> f32_finite a b c d \<and> floats_finite rest"
proof -
  have "length (a # b # c # d # rest) div 4 = Suc (length rest div 4)" by simp
  then show ?thesis unfolding floats_finite_def by (simp add: All_less_Suc2 nth_Cons' flip: numeral_eq_Suc) (simp add: add.commute)
qed

lemma all_finite_floats: "length d mod 4 = 0 \<Longrightarrow> all_finite d = Inr (floats_finite d)"
proof (induction d rule: all_finite.induct)
  case 1
  then show ?case by (simp add: floats_finite_def)
next
  case (2 a b c d rest)
  then show ?case by (simp add: floats_finite_Cons bind_res_def)
qed (simp_all add: floats_finite_def)

lemma floats_finite_append:
  assumes "length xs mod 4 = 0"
  shows "floats_finite (xs @ ys) \<longleftrightarrow> floats_finite xs \<and> floats_finite ys"
  using assms
proof (induction xs rule: all_finite.induct)
  case (2 a b c d rest)
  then show ?case by (simp add: floats_finite_Cons)
qed (simp_all add: floats_finite_def)

lemma scan_chunks_whole:
  "length d mod 4 = 0 \<Longrightarrow> scan_chunks d field =
    (if floats_finite d then Inr () else Inl (clone_error ''embedding values must be finite float32 numbers'' ''invalid_profile'' field))"
proof (induction d field rule: scan_chunks.induct)
  case (1 d field)
  show ?case
  proof (cases "d = []")
    case True
    then show ?thesis by (simp add: scan_chunks.simps [of "[]"] floats_finite_def)
  next
    case False
    define n where "n = (4 * 1024 :: nat)"
    have n4: "n mod 4 = 0" by (simp add: n_def)
    have t: "length (take n d) mod 4 = 0" using 1(2) n4 by (simp add: min_def)
    have r: "length (drop n d) mod 4 = 0" using 1(2) by (simp add: n_def) presburger
    have fin: "floats_finite d \<longleftrightarrow> floats_finite (take n d) \<and> floats_finite (drop n d)"
      using floats_finite_append [OF t, of "drop n d"] by simp
    have a: "all_finite (take n d) = Inr (floats_finite (take n d))" by (rule all_finite_floats [OF t])
    have "scan_chunks d field = (if \<not> floats_finite (take n d)
        then Inl (clone_error ''embedding values must be finite float32 numbers'' ''invalid_profile'' field) else scan_chunks (drop n d) field)"
      using False unfolding scan_chunks.simps [of d] n_def [symmetric] a by simp
    moreover have "scan_chunks (drop n d) field = (if floats_finite (drop n d) then Inr ()
        else Inl (clone_error ''embedding values must be finite float32 numbers'' ''invalid_profile'' field))" if "floats_finite (take n d)"
      unfolding n_def using r that a unfolding n_def by (intro 1(1) [OF False]) auto
    ultimately show ?thesis using fin by simp
  qed
qed

text \<open>A client that encodes its embedding correctly is judged by the embedding alone: it is accepted exactly if
  it is not empty, within the limit, a whole number of finite floats, and as long as it says. The check of
  the encoded length never refuses one that fits.\<close>

theorem embedding_accepted_iff:
  assumes "b64decode (encode_b64 d) = Some d"
  shows "decode_embedding b64decode e (r\<lparr>cr_embedding_b64 := Some (encode_b64 d), cr_speaker_embedding_b64 := None\<rparr>) = Inr d' \<longleftrightarrow>
    d' = d \<and> d \<noteq> [] \<and> int (length d) \<le> v1_limit e ''OVS_API_MAX_PROFILE_BYTES'' (16 * 1024 * 1024) \<and> length d mod 4 = 0 \<and>
    (cr_dim r = None \<or> cr_dim r = Some (int (length d div 4))) \<and> floats_finite d"
proof -
  define mb where "mb = v1_limit e ''OVS_API_MAX_PROFILE_BYTES'' (16 * 1024 * 1024)"
  define enc where "enc = encode_b64 d"
  have enc: "enc = [] \<longleftrightarrow> d = []" "length enc = 4 * ((length d + 2) div 3)" "b64decode enc = Some d"
    using assms by (simp_all add: enc_def length_encode_b64)
  have pre: "int (length d) > mb" if "int (length enc) > 4 * ((mb + 2) div 3)"
  proof (rule ccontr)
    assume "\<not> int (length d) > mb"
    then have "(int (length d) + 2) div 3 \<le> (mb + 2) div 3" by (intro zdiv_mono1) simp_all
    moreover have "int (length enc) = 4 * ((int (length d) + 2) div 3)" by (simp add: enc(2) zdiv_int)
    ultimately show False using that by linarith
  qed
  have pos: "0 < int (length d div 4)" if "d \<noteq> []" "length d mod 4 = 0" using that by (cases "length d < 4") auto
  have "decode_embedding b64decode e (r\<lparr>cr_embedding_b64 := Some enc, cr_speaker_embedding_b64 := None\<rparr>) = Inr d' \<longleftrightarrow>
    d' = d \<and> d \<noteq> [] \<and> int (length d) \<le> mb \<and> length d mod 4 = 0 \<and>
    (cr_dim r = None \<or> cr_dim r = Some (int (length d div 4))) \<and> floats_finite d"
  proof (cases "d \<noteq> [] \<and> int (length d) \<le> mb \<and> length d mod 4 = 0")
    case False
    have "\<not> is_ok (decode_embedding b64decode e (r\<lparr>cr_embedding_b64 := Some enc, cr_speaker_embedding_b64 := None\<rparr>))"
      using False enc(1,3) unfolding decode_embedding_def Let_def mb_def [symmetric]
      by (cases "enc = []"; cases "int (length enc) > 4 * ((mb + 2) div 3)") simp_all
    with False show ?thesis by auto
  next
    case True
    with pre have ok_len: "\<not> int (length enc) > 4 * ((mb + 2) div 3)" by auto
    from True have nonempty: "enc \<noteq> []" using enc(1) by simp
    show ?thesis
      using True ok_len nonempty pos enc(3) unfolding decode_embedding_def Let_def mb_def [symmetric]
      by (auto simp: scan_chunks_whole split: option.splits)
  qed
  then show ?thesis unfolding enc_def mb_def .
qed

text \<open>An upload is accepted exactly if all of it is binary and fits, and then nothing of it is lost. Whatever is
  uploaded, reading stops with the chunk that passes the limit.\<close>

lemma length_concat_rev: "length (concat (rev xs)) = length (concat xs)"
  by (induction xs) simp_all

lemma read_loop_correct:
  assumes "read_loop m sofar got chunks = (r, n)" and "sofar = int (length (concat got))" and "0 \<le> m" and "sofar \<le> m"
  shows "(\<forall>data. r = Inr data \<longleftrightarrow>
      (let body = takeWhile (\<lambda>c. c \<noteq> Some []) chunks in
        None \<notin> set body \<and> data = concat (rev got) @ concat (map the body) \<and> int (length data) \<le> m)) \<and>
    (\<forall>k. (\<forall>c. Some c \<in> set chunks \<longrightarrow> int (length c) \<le> k) \<longrightarrow> 0 \<le> k \<longrightarrow> n \<le> m + k)"
  using assms
proof (induction m sofar got chunks rule: read_loop.induct)
  case (1 m sofar got)
  with length_concat_rev [of got] show ?case by auto
next
  case (2 m sofar got rest)
  then show ?case by auto
next
  case (3 m sofar got chunk rest)
  show ?case
  proof (cases "chunk = []")
    case True
    with 3 length_concat_rev [of got] show ?thesis by auto
  next
    case False
    show ?thesis
    proof (cases "sofar + int (length chunk) > m")
      case True
      with False 3 length_concat_rev [of got] show ?thesis by (auto simp: Let_def)
    next
      case fits: False
      have "read_loop m (sofar + int (length chunk)) (chunk # got) rest = (r, n)" using 3(2) False fits by (simp add: Let_def)
      from 3(1) [OF False refl _ this] fits 3(3,4) False show ?thesis by (auto simp: Let_def)
    qed
  qed
qed

theorem upload_bounded:
  assumes "0 \<le> m" and "read_bounded_upload m chunks = (r, n)"
  shows "(r = Inr data \<longleftrightarrow>
      None \<notin> set (takeWhile (\<lambda>c. c \<noteq> Some []) chunks) \<and> data = concat (map the (takeWhile (\<lambda>c. c \<noteq> Some []) chunks)) \<and>
      int (length data) \<le> m) \<and>
    ((\<forall>c. Some c \<in> set chunks \<longrightarrow> int (length c) \<le> 1024 * 1024) \<longrightarrow> n \<le> m + 1024 * 1024)"
  using read_loop_correct [of m 0 "[]" chunks r n] assms by (simp add: read_bounded_upload_def Let_def)

text \<open>A clone request reaches the backend only if the active model is the one that can clone from an embedding,
  the request names it, the backend says it can, and the controls are in range.\<close>

theorem clone_fails_closed:
  assumes "clone_embedding b64decode e req be = Inr kw"
  shows "(\<exists>m. vb_model_id be = Some m \<and> canonical_model_id m = ''qwen3-tts-0.6b-base'') \<and>
    (\<exists>m. cr_model req = Some m \<and> canonical_model_id m = ''qwen3-tts-0.6b-base'') \<and>
    vb_voice_cloning be \<and> backend_has_capability be ''voice_clone'' \<and> vb_clone_overridden be \<and>
    (\<exists>d. KwEmbedding d \<in> set kw \<and> decode_embedding b64decode e req = Inr d) \<and>
    (\<forall>v. KwSpeed v \<in> set kw \<longrightarrow> in_range v (1 / 4) 4) \<and> (\<forall>v. KwPitchShift v \<in> set kw \<longrightarrow> in_range v (- 24) 24)"
proof -
  from assms obtain d where d: "decode_embedding b64decode e req = Inr d" "check_clone_request e req = Inr ()"
    and p: "prepare_embedding req (Some d) be = Inr kw"
    by (auto simp: clone_embedding_def bind_res_eq_Inr)
  obtain m where m: "cr_model req = Some m" using d(2) by (cases "cr_model req") (auto simp: check_clone_request_def)
  from p obtain active ctl where a: "backend_model be = Inr active" "check_model m active = Inr ()"
    "require_clone_backend be EmbeddingMode = Inr active" "clone_control_kwargs req be = Inr ctl" "kw = ctl @ [KwEmbedding d]"
    by (auto simp: prepare_embedding_def bind_res_eq_Inr m require_clone_backend_def Let_def split: if_splits)
  have r: "canonical_model_id active = ''qwen3-tts-0.6b-base''" "vb_voice_cloning be" "backend_has_capability be ''voice_clone''"
    "vb_clone_overridden be"
    using a(1,3) by (auto simp: require_clone_backend_def Let_def split: if_splits)
  have c: "canonical_model_id m = canonical_model_id active" using a(2) by (auto simp: check_model_def split: if_splits)
  have "validate_controls (cr_speed req) (cr_pitch req) be = Inr ()"
    "ctl = (case cr_speed req of None \<Rightarrow> [] | Some v \<Rightarrow> [KwSpeed v]) @ (case cr_pitch req of None \<Rightarrow> [] | Some v \<Rightarrow> [KwPitchShift v])"
    using a(4) by (auto simp: clone_control_kwargs_def bind_res_eq_Inr)
  then have "\<forall>v. KwSpeed v \<in> set kw \<longrightarrow> in_range v (1 / 4) 4" "\<forall>v. KwPitchShift v \<in> set kw \<longrightarrow> in_range v (- 24) 24"
    by (auto simp: a(5) validate_controls_def split: option.splits if_splits)
  moreover obtain bm where "vb_model_id be = Some bm" "canonical_model_id bm = active"
    using a(1) by (auto simp: backend_model_def split: option.splits if_splits)
  moreover have "canonical_model_id active = active"
    using \<open>canonical_model_id bm = active\<close> by auto
  ultimately show ?thesis using r c m d(1) a(5) by auto
qed

definition demo_clone :: clone_request where
  "demo_clone = \<lparr>cr_model = Some ''qwen3-tts-base'', cr_text = Some [104, 105], cr_embedding_b64 = Some (encode_b64 [0, 0, 128, 63]),
     cr_speaker_embedding_b64 = None, cr_dim = Some 1, cr_speed = Some (Fin 2), cr_pitch = None\<rparr>"

definition demo_clone_backend :: v1_backend where
  "demo_clone_backend = \<lparr>vb_model_id = Some ''qwen3-tts-0.6b'', vb_voice_cloning = True,
     vb_capability = (\<lambda>c. Values [''voice_clone'', ''streaming'']), vb_clone_callable = True, vb_clone_overridden = True, vb_rate_pitch = True\<rparr>"

theorem embedding_accepted_iff_witness:
  "decode_embedding b64_strict Map.empty (demo_clone\<lparr>cr_embedding_b64 := Some (encode_b64 [0, 0, 128, 63]), cr_speaker_embedding_b64 := None\<rparr>) =
     Inr [0, 0, 128, 63]"
proof -
  have "b64_strict (encode_b64 [0, 0, 128, 63]) = Some [0, 0, 128, 63]" by (rule b64_strict_encode) simp
  from embedding_accepted_iff [where b64decode = b64_strict and e = Map.empty and r = demo_clone, OF this] show ?thesis
    by (simp add: demo_clone_def v1_limit_def floats_finite_def f32_finite_def)
qed

theorem upload_bounded_witness:
  "fst (read_bounded_upload 4 [Some [7, 2], Some [3], Some []]) = Inr [7, 2, 3]"
proof -
  obtain r n where rn: "read_bounded_upload 4 [Some [7, 2], Some [3], Some []] = (r, n)" by fastforce
  from upload_bounded [OF _ rn, of "[7, 2, 3]"] show ?thesis by (simp add: rn)
qed

theorem clone_fails_closed_witness:
  "\<exists>kw. clone_embedding b64_strict Map.empty demo_clone demo_clone_backend = Inr kw \<and> KwSpeed (Fin 2) \<in> set kw \<and> in_range (Fin 2) (1 / 4) 4"
proof -
  have b: "b64_strict (encode_b64 [0, 0, 128, 63]) = Some [0, 0, 128, 63]" by (rule b64_strict_encode) simp
  have n: "encode_b64 [0, 0, 128, 63] \<noteq> []" "length (encode_b64 [0, 0, 128, 63]) = 8" by (simp_all add: length_encode_b64)
  have c: "canonical_model_id ''qwen3-tts-base'' = ''qwen3-tts-0.6b-base''" "canonical_model_id ''qwen3-tts-0.6b'' = ''qwen3-tts-0.6b-base''"
    "canonical_model_id ''qwen3-tts-0.6b-base'' = ''qwen3-tts-0.6b-base''" by code_simp+
  have "decode_embedding b64_strict Map.empty demo_clone = Inr [0, 0, 128, 63]"
    using b n by (simp add: decode_embedding_def demo_clone_def v1_limit_def scan_chunks_whole floats_finite_def f32_finite_def)
  moreover have "check_clone_request Map.empty demo_clone = Inr ()"
    by (simp add: check_clone_request_def demo_clone_def validate_text_def utf8_width_def v1_limit_def)
  moreover have "prepare_embedding demo_clone (Some [0, 0, 128, 63]) demo_clone_backend = Inr [KwSpeed (Fin 2), KwEmbedding [0, 0, 128, 63]]"
    by (simp add: prepare_embedding_def backend_model_def demo_clone_backend_def demo_clone_def check_model_def require_clone_backend_def c
        backend_has_capability_def clone_control_kwargs_def validate_controls_def in_range_def)
  ultimately have k: "clone_embedding b64_strict Map.empty demo_clone demo_clone_backend = Inr [KwSpeed (Fin 2), KwEmbedding [0, 0, 128, 63]]"
    by (simp add: clone_embedding_def)
  from clone_fails_closed [OF this] k show ?thesis by simp
qed

end
