(* ===== verification/WavReference.thy ===== *)
theory WavReference
  imports SpeechErrors "HOL-Library.Word"
begin

section \<open>The reference recording of a voice clone\<close>

text \<open>
  \<open>_v1_moss_codec_contract\<close> and \<open>_v1_parse_moss_reference_wav\<close> of \<^verbatim>\<open>server/main.py\<close>: the rate and channel
  count the active codec expects, and the RIFF parser that takes the PCM frames out of an uploaded file.
  Files are read through \<open>read_json\<close> (a path as its parts; \<open>None\<close> where reading or parsing fails). A
  read beyond the end of the data is \<open>struct.error\<close>, an exception of its own. The theorem says which
  files are accepted: exactly the renderings of a list of chunks with one format and one data chunk that
  meet the contract.
\<close>

subsection \<open>Little-endian numbers\<close>

type_synonym bytes = "8 word list"

fun le :: "bytes \<Rightarrow> int" where
  "le [] = 0"
| "le (b # bs) = uint b + 256 * le bs"

fun to_le :: "nat \<Rightarrow> int \<Rightarrow> bytes" where
  "to_le 0 v = []"
| "to_le (Suc n) v = word_of_int v # to_le n (v div 256)"

lemma length_to_le [simp]: "length (to_le n v) = n"
  by (induction n arbitrary: v) simp_all

lemma to_le_le [simp]: "to_le (length bs) (le bs) = bs"
proof (induction bs)
  case (Cons b bs)
  have "uint b < 256" using uint_lt2p [of b] by simp
  then have "(uint b + 256 * le bs) div 256 = le bs" by simp
  moreover have "uint (word_of_int (uint b + 256 * le bs) :: 8 word) = uint b"
    using \<open>uint b < 256\<close> by (simp only: uint_word_of_int) simp
  then have "(word_of_int (uint b + 256 * le bs) :: 8 word) = b" by (metis word_of_int_uint)
  ultimately show ?case using Cons by simp
qed simp

lemma to_le_le_length: "length bs = n \<Longrightarrow> to_le n (le bs) = bs"
  using to_le_le by blast

lemma le_to_le: "le (to_le n v) = v mod 256 ^ n"
proof (induction n arbitrary: v)
  case (Suc n)
  have "uint (word_of_int v :: 8 word) = v mod 256" by (simp add: uint_word_of_int)
  moreover have "v mod 256 + 256 * (v div 256 mod 256 ^ n) = v mod (256 * 256 ^ n)"
    by (simp add: zmod_zmult2_eq)
  ultimately show ?case using Suc by simp
qed simp

lemma le_nonneg: "0 \<le> le bs"
  by (induction bs) simp_all

lemma le_bound: "le bs < 256 ^ length bs"
proof (induction bs)
  case (Cons b bs)
  have "uint b < 256" using uint_lt2p [of b] by simp
  with Cons show ?case by simp
qed simp

lemma le_inject: "length a = length b \<Longrightarrow> le a = le b \<Longrightarrow> a = b"
  by (metis to_le_le)

subsection \<open>The contract of the codec\<close>

text \<open>What is read of the backend: \<open>int\<close> of the two attributes (\<open>None\<close> where they are missing or no numbers) and
  the directory of the codec.\<close>

record moss_backend =
  mb_rate :: "int option"
  mb_channels :: "int option"
  mb_codec_dir :: "string option"

definition sor :: "string option \<Rightarrow> string option \<Rightarrow> string option" where
  "sor a b = (if a = None \<or> a = Some [] then b else a)"

definition contract_paths :: "(string \<rightharpoonup> string) \<Rightarrow> moss_backend \<Rightarrow> string list list" where
  "contract_paths e be =
     (case e ''MOSS_CODEC_META_PATH'' of None \<Rightarrow> [] | Some p \<Rightarrow> if p = [] then [] else [[p]]) @
     (case sor (mb_codec_dir be) (e ''MOSS_CODEC_ONNX_DIR'') of
        None \<Rightarrow> [] | Some d \<Rightarrow> if d = [] then [] else [[d, ''codec_browser_onnx_meta.json'']])"

definition read_meta :: "json \<Rightarrow> (int \<times> int) option" where
  "read_meta document =
     (case document of
        JObj doc \<Rightarrow>
          (case jget doc ''codec_config'' document of
             JObj codec \<Rightarrow>
               (case (jint (jget codec ''sample_rate'' (jget codec ''sampleRate'' JNull)), jint (jget codec ''channels'' JNull)) of
                  (Inr r, Inr c) \<Rightarrow> Some (r, c)
                | _ \<Rightarrow> None)
           | _ \<Rightarrow> None)
      | _ \<Rightarrow> None)"

fun first_meta :: "(string list \<Rightarrow> json option) \<Rightarrow> string list list \<Rightarrow> (int \<times> int) option" where
  "first_meta read_json [] = None"
| "first_meta read_json (p # ps) =
     (case Option.bind (read_json p) read_meta of None \<Rightarrow> first_meta read_json ps | Some m \<Rightarrow> Some m)"

definition codec_contract :: "(string \<rightharpoonup> string) \<Rightarrow> (string list \<Rightarrow> json option) \<Rightarrow> moss_backend \<Rightarrow> (exc, int \<times> int) res" where
  "codec_contract e read_json be =
     (let rate = (case mb_rate be of None \<Rightarrow> 0 | Some r \<Rightarrow> r);
          channels = (case mb_channels be of None \<Rightarrow> 0 | Some c \<Rightarrow> c);
          m = (if rate \<le> 0 \<or> channels \<le> 0 then first_meta read_json (contract_paths e be) else None);
          (rate1, channels1) = (case m of None \<Rightarrow> (rate, channels) | Some (r, c) \<Rightarrow>
             (if rate \<le> 0 then r else rate, if channels \<le> 0 then c else channels))
      in if rate1 \<le> 0 \<or> channels1 \<le> 0
         then Inl (api_exc ''active MOSS codec contract is unavailable'' 503 ''codec_contract_unavailable'' None)
         else Inr (rate1, channels1))"

lemma codec_contract_pos:
  "codec_contract e read_json be = Inr (r, c) \<Longrightarrow> 0 < r \<and> 0 < c"
  by (auto simp: codec_contract_def Let_def split: prod.splits if_splits)

subsection \<open>The parser\<close>

text \<open>\<open>data[a:b]\<close>, and \<open>unpack_from\<close> of one little-endian number of \<open>n\<close> bytes.\<close>

definition slice_bytes :: "nat \<Rightarrow> nat \<Rightarrow> bytes \<Rightarrow> bytes" where
  "slice_bytes a b data = take (b - a) (drop a data)"

definition unpack :: "nat \<Rightarrow> nat \<Rightarrow> bytes \<Rightarrow> (exc, int) res" where
  "unpack n off data =
     (if length data < off + n then Inl (PyExc ''error'' None ''unpack_from requires a larger buffer'')
      else Inr (le (slice_bytes off (off + n) data)))"

definition RIFF :: bytes where "RIFF = [82, 73, 70, 70]"
definition WAVE :: bytes where "WAVE = [87, 65, 86, 69]"
definition FMT :: bytes where "FMT = [102, 109, 116, 32]"
definition DATA :: bytes where "DATA = [100, 97, 116, 97]"

definition bad_wav :: "string \<Rightarrow> exc" where
  "bad_wav message = clone_error message ''invalid_audio'' ''file''"

text \<open>\<open>struct.unpack_from("<HHIIHH", data, start)\<close>.\<close>

record wav_fmt =
  wf_format :: int
  wf_channels :: int
  wf_rate :: int
  wf_byte_rate :: int
  wf_align :: int
  wf_bits :: int

definition unpack_fmt :: "nat \<Rightarrow> bytes \<Rightarrow> (exc, wav_fmt) res" where
  "unpack_fmt start data =
     bind_res (unpack 2 start data) (\<lambda>f.
     bind_res (unpack 2 (start + 2) data) (\<lambda>ch.
     bind_res (unpack 4 (start + 4) data) (\<lambda>rate.
     bind_res (unpack 4 (start + 8) data) (\<lambda>byte_rate.
     bind_res (unpack 2 (start + 12) data) (\<lambda>align.
     bind_res (unpack 2 (start + 14) data) (\<lambda>bits.
       Inr \<lparr>wf_format = f, wf_channels = ch, wf_rate = rate, wf_byte_rate = byte_rate, wf_align = align, wf_bits = bits\<rparr>))))))"

type_synonym found = "wav_fmt option \<times> bytes option"

definition note_chunk :: "bytes \<Rightarrow> bytes \<Rightarrow> nat \<Rightarrow> nat \<Rightarrow> found \<Rightarrow> (exc, found) res" where
  "note_chunk data chunk_id start csize found =
     (if chunk_id = FMT then
        (if fst found \<noteq> None then Inl (bad_wav ''reference WAV contains multiple fmt chunks'')
         else if csize < 16 then Inl (bad_wav ''reference WAV fmt chunk is too short'')
         else bind_res (unpack_fmt start data) (\<lambda>f. Inr (Some f, snd found)))
      else if chunk_id = DATA then
        (if snd found \<noteq> None then Inl (bad_wav ''reference WAV contains multiple data chunks'')
         else Inr (fst found, Some (slice_bytes start (start + csize) data)))
      else Inr found)"

function wav_chunks :: "bytes \<Rightarrow> nat \<Rightarrow> nat \<Rightarrow> found \<Rightarrow> (exc, found) res" where
  "wav_chunks data riff_end offset found =
     (if riff_end \<le> offset then Inr found
      else if riff_end < offset + 8 then Inl (bad_wav ''reference WAV chunk header is truncated'')
      else case unpack 4 (offset + 4) data of
        Inl x \<Rightarrow> Inl x
      | Inr size_i \<Rightarrow>
          let size = nat size_i; start = offset + 8; stop = start + size; padded_end = stop + size mod 2
          in if riff_end < stop \<or> riff_end < padded_end then Inl (bad_wav ''reference WAV chunk is truncated'')
             else (case note_chunk data (slice_bytes offset (offset + 4) data) start size found of
                     Inl x \<Rightarrow> Inl x
                   | Inr found1 \<Rightarrow> wav_chunks data riff_end padded_end found1))"
  by pat_completeness auto
termination
  by (relation "measure (\<lambda>(data, riff_end, offset, found). riff_end - offset)") auto

declare wav_chunks.simps [simp del]

definition check_wav :: "(exc, int \<times> int) res \<Rightarrow> found \<Rightarrow> (exc, bytes \<times> int) res" where
  "check_wav contract found =
     (case found of
        (Some f, Some pcm) \<Rightarrow>
          bind_res contract (\<lambda>(rate, channels).
            if wf_format f \<noteq> 1 \<or> wf_bits f \<noteq> 16 then Inl (bad_wav ''reference WAV must be PCM16'')
            else if wf_channels f \<noteq> channels \<or> wf_rate f \<noteq> rate then
              Inl (clone_error (''reference WAV must be '' @ int_str rate @ '' Hz/'' @ int_str channels @ '' channel(s)'')
                ''audio_contract_mismatch'' ''file'')
            else if wf_align f \<noteq> wf_channels f * 2 \<or> wf_byte_rate f \<noteq> wf_rate f * wf_align f then
              Inl (bad_wav ''reference WAV PCM metadata is invalid'')
            else if pcm = [] \<or> int (length pcm) mod wf_align f \<noteq> 0 then
              Inl (bad_wav ''reference WAV data is not aligned to PCM frames'')
            else Inr (pcm, wf_rate f))
      | _ \<Rightarrow> Inl (bad_wav ''reference WAV must contain fmt and data chunks''))"

definition parse_reference_wav :: "(exc, int \<times> int) res \<Rightarrow> bytes \<Rightarrow> (exc, bytes \<times> int) res" where
  "parse_reference_wav contract data =
     (if length data < 12 \<or> take 4 data \<noteq> RIFF \<or> slice_bytes 8 12 data \<noteq> WAVE then
        Inl (bad_wav ''reference file must be a RIFF/WAVE stream'')
      else bind_res (unpack 4 4 data) (\<lambda>riff_size.
        if riff_size < 4 \<or> riff_size + 8 \<noteq> int (length data) then
          Inl (bad_wav ''reference WAV has an invalid RIFF length'')
        else bind_res (wav_chunks data (nat riff_size + 8) 12 (None, None)) (check_wav contract)))"

subsection \<open>The files it accepts\<close>

datatype chunk = Chunk (ck_id: bytes) (ck_body: bytes) (ck_pad: "8 word")

definition render :: "chunk \<Rightarrow> bytes" where
  "render c = ck_id c @ to_le 4 (int (length (ck_body c))) @ ck_body c @ (if odd (length (ck_body c)) then [ck_pad c] else [])"

definition wf_chunk :: "chunk \<Rightarrow> bool" where
  "wf_chunk c = (length (ck_id c) = 4 \<and> int (length (ck_body c)) < 2 ^ 32)"

definition riff :: "chunk list \<Rightarrow> bytes" where
  "riff cs = (let body = concat (map render cs) in RIFF @ to_le 4 (4 + int (length body)) @ WAVE @ body)"

definition bodies :: "bytes \<Rightarrow> chunk list \<Rightarrow> bytes list" where
  "bodies name cs = map ck_body (filter (\<lambda>c. ck_id c = name) cs)"

definition pcm16_header :: "int \<Rightarrow> int \<Rightarrow> bytes" where
  "pcm16_header rate channels =
     to_le 2 1 @ to_le 2 channels @ to_le 4 rate @ to_le 4 (rate * (channels * 2)) @ to_le 2 (channels * 2) @ to_le 2 16"

lemma slice_drop: "off \<le> i \<Longrightarrow> slice_bytes i j data = slice_bytes (i - off) (j - off) (drop off data)"
  by (simp add: slice_bytes_def)

lemma slice_append1: "i \<le> length a \<Longrightarrow> j \<le> length a \<Longrightarrow> slice_bytes i j (a @ b) = slice_bytes i j a"
  by (simp add: slice_bytes_def)

lemma slice_append2: "length a \<le> i \<Longrightarrow> slice_bytes i j (a @ b) = slice_bytes (i - length a) (j - length a) b"
  by (simp add: slice_bytes_def)

lemma slice_all: "slice_bytes 0 (length a) (a @ b) = a"
  by (simp add: slice_bytes_def)

lemma length_slice: "j \<le> length data \<Longrightarrow> length (slice_bytes i j data) = j - i"
  by (simp add: slice_bytes_def)

lemma take_slice: "i \<le> j \<Longrightarrow> slice_bytes 0 i d @ slice_bytes i j d = slice_bytes 0 j d"
  by (simp add: slice_bytes_def) (metis le_add_diff_inverse take_add)

lemma drop_split: "n \<le> length d \<Longrightarrow> d = slice_bytes 0 n d @ drop n d"
  by (simp add: slice_bytes_def)

lemma unpack_ok: "off + n \<le> length data \<Longrightarrow> unpack n off data = Inr (le (slice_bytes off (off + n) data))"
  by (simp add: unpack_def)

lemma unpack_fmt_ok:
  assumes "start + 16 \<le> length data"
  shows "unpack_fmt start data = Inr
    \<lparr>wf_format = le (slice_bytes start (start + 2) data), wf_channels = le (slice_bytes (start + 2) (start + 4) data),
     wf_rate = le (slice_bytes (start + 4) (start + 8) data), wf_byte_rate = le (slice_bytes (start + 8) (start + 12) data),
     wf_align = le (slice_bytes (start + 12) (start + 14) data), wf_bits = le (slice_bytes (start + 14) (start + 16) data)\<rparr>"
  using assms by (simp add: unpack_fmt_def unpack_ok) (simp add: eval_nat_numeral)

lemma unpack_fmt_shift:
  assumes "length (pre @ body) \<le> length data" and "drop off data = pre @ body @ rest" and "16 \<le> length body"
    and "off \<le> length data"
  shows "unpack_fmt (off + length pre) data = unpack_fmt 0 body"
proof -
  have len: "off + length pre + length body \<le> length data"
    using arg_cong [OF assms(2), of length] assms(4) by simp
  have sl: "slice_bytes (off + length pre + i) (off + length pre + j) data = slice_bytes i j body" if "i \<le> j" "j \<le> 16" for i j
  proof -
    have "slice_bytes (off + length pre + i) (off + length pre + j) data = slice_bytes (length pre + i) (length pre + j) (drop off data)"
      by (subst slice_drop [of off]) (simp_all add: ac_simps)
    also have "\<dots> = slice_bytes i j body"
      using that assms(3) by (simp add: assms(2) slice_append1 slice_append2)
    finally show ?thesis .
  qed
  show ?thesis
    using len assms(3) sl [of 0 2] sl [of 2 4] sl [of 4 8] sl [of 8 12] sl [of 12 14] sl [of 14 16]
    by (simp add: unpack_fmt_ok numeral_2_eq_2)
qed

text \<open>One chunk: what the loop does with the bytes is what it does with the chunk they render.\<close>

definition fold_chunk :: "chunk \<Rightarrow> found \<Rightarrow> (exc, found) res" where
  "fold_chunk c found = note_chunk (ck_body c) (ck_id c) 0 (length (ck_body c)) found"

lemma length_render: "length (ck_id c) = 4 \<Longrightarrow> length (render c) = 8 + length (ck_body c) + length (ck_body c) mod 2"
  by (simp add: render_def odd_iff_mod_2_eq_one)

lemma render_parts:
  assumes "drop off data = render c @ rest" and "wf_chunk c" and "off \<le> length data"
  shows "off + length (render c) \<le> length data"
    and "slice_bytes off (off + 4) data = ck_id c"
    and "slice_bytes (off + 4) (off + 8) data = to_le 4 (int (length (ck_body c)))"
    and "slice_bytes (off + 8) (off + 8 + length (ck_body c)) data = ck_body c"
    and "note_chunk data (ck_id c) (off + 8) (length (ck_body c)) found = fold_chunk c found"
proof -
  show len: "off + length (render c) \<le> length data"
    using arg_cong [OF assms(1), of length] assms(3) by simp
  have id4: "length (ck_id c) = 4" using assms(2) by (simp add: wf_chunk_def)
  define tail where "tail = (if odd (length (ck_body c)) then [ck_pad c] else []) @ rest"
  have d: "drop off data = ck_id c @ to_le 4 (int (length (ck_body c))) @ ck_body c @ tail"
    using assms(1) by (simp add: render_def tail_def)
  have sl: "slice_bytes (off + i) (off + j) data = slice_bytes i j (ck_id c @ to_le 4 (int (length (ck_body c))) @ ck_body c @ tail)"
    for i j by (subst slice_drop [of off]) (simp_all add: d)
  show "slice_bytes off (off + 4) data = ck_id c"
    using sl [of 0 4] id4 by (simp add: slice_append1) (simp add: slice_bytes_def)
  show "slice_bytes (off + 4) (off + 8) data = to_le 4 (int (length (ck_body c)))"
    using sl [of 4 8] id4 by (simp add: slice_append1 slice_append2) (simp add: slice_bytes_def)
  show b: "slice_bytes (off + 8) (off + 8 + length (ck_body c)) data = ck_body c"
    using sl [of 8 "8 + length (ck_body c)"] id4 by (simp add: slice_append2 ac_simps slice_all)
  have "unpack_fmt (off + 8) data = unpack_fmt 0 (ck_body c)" if "16 \<le> length (ck_body c)"
    using unpack_fmt_shift [of "ck_id c @ to_le 4 (int (length (ck_body c)))" "ck_body c" data off tail] d id4 that assms(3) len
      length_render [OF id4] by simp
  moreover have "slice_bytes 0 (length (ck_body c)) (ck_body c) = ck_body c" by (simp add: slice_bytes_def)
  ultimately show "note_chunk data (ck_id c) (off + 8) (length (ck_body c)) found = fold_chunk c found"
    by (simp add: fold_chunk_def note_chunk_def b)
qed

lemma le_length: "int n < 2 ^ 32 \<Longrightarrow> nat (le (to_le 4 (int n))) = n"
  by (simp add: le_to_le)

lemma wav_chunks_render:
  assumes "drop off data = render c @ rest" and "wf_chunk c" and "off \<le> length data"
  shows "wav_chunks data (length data) off found =
    bind_res (fold_chunk c found) (wav_chunks data (length data) (off + length (render c)))"
proof -
  note parts = render_parts [OF assms]
  have id4: "length (ck_id c) = 4" "int (length (ck_body c)) < 2 ^ 32" using assms(2) by (simp_all add: wf_chunk_def)
  have l: "off + 8 + length (ck_body c) + length (ck_body c) mod 2 \<le> length data"
    using parts(1) by (simp add: length_render id4)
  then have u: "unpack 4 (off + 4) data = Inr (le (to_le 4 (int (length (ck_body c)))))"
    using parts(3) by (simp add: unpack_ok ac_simps)
  show ?thesis
    unfolding wav_chunks.simps [of data "length data" off] u
    using l id4 by (simp add: Let_def le_length parts(2,5) length_render bind_res_def ac_simps split: sum.split)
qed

lemma wav_chunks_next:
  assumes "wav_chunks data (length data) off found = Inr r" and "off < length data"
  shows "\<exists>c rest. wf_chunk c \<and> drop off data = render c @ rest"
proof -
  let ?d = "drop off data"
  define n where "n = nat (le (slice_bytes (off + 4) (off + 8) data))"
  have h: "off + 8 \<le> length data" using assms by (subst (asm) wav_chunks.simps) (auto split: if_splits)
  then have u: "unpack 4 (off + 4) data = Inr (le (slice_bytes (off + 4) (off + 8) data))"
    by (simp add: unpack_ok ac_simps)
  have l: "off + 8 + n + n mod 2 \<le> length data"
    using assms h by (subst (asm) wav_chunks.simps) (auto simp: u Let_def n_def split: if_splits)
  define c where "c = Chunk (slice_bytes 0 4 ?d) (slice_bytes 8 (8 + n) ?d) (?d ! (8 + n))"
  have sz: "slice_bytes 4 8 ?d = slice_bytes (off + 4) (off + 8) data"
    by (simp add: slice_drop [of off "off + 4"])
  have len4: "length (slice_bytes 4 8 ?d) = 4" using h by (simp add: length_slice)
  have len: "length (ck_body c) = n" using l by (simp add: c_def length_slice)
  have n_le: "int n = le (slice_bytes 4 8 ?d)" by (simp add: n_def sz le_nonneg)
  have "to_le 4 (int n) = slice_bytes 4 8 ?d" using to_le_le_length [OF len4] by (simp add: n_le)
  moreover have "slice_bytes (8 + n) (8 + n + n mod 2) ?d = (if odd n then [?d ! (8 + n)] else [])"
    using l by (auto simp: slice_bytes_def odd_iff_mod_2_eq_one take_Suc_conv_app_nth take_hd_drop hd_drop_conv_nth take_Suc ac_simps)
  ultimately have "render c = slice_bytes 0 4 ?d @ slice_bytes 4 8 ?d @ slice_bytes 8 (8 + n) ?d @ slice_bytes (8 + n) (8 + n + n mod 2) ?d"
    unfolding render_def len by (simp add: c_def)
  also have "\<dots> = slice_bytes 0 (8 + n + n mod 2) ?d"
    by (simp add: take_slice flip: append_assoc)
  finally have "?d = render c @ drop (8 + n + n mod 2) ?d"
    using drop_split [of "8 + n + n mod 2" ?d] l by simp
  moreover have "wf_chunk c"
    using h le_bound [of "slice_bytes 4 8 ?d"] len4 by (simp add: wf_chunk_def len n_le) (simp add: c_def length_slice)
  ultimately show ?thesis by blast
qed

lemma wav_chunks_end: "n \<le> off \<Longrightarrow> wav_chunks data n off found = Inr found"
  by (simp add: wav_chunks.simps [of data n off])

lemma wav_chunks_iff:
  assumes "off \<le> length data"
  shows "wav_chunks data (length data) off found = Inr r \<longleftrightarrow>
    (\<exists>cs. list_all wf_chunk cs \<and> drop off data = concat (map render cs) \<and> fold_res fold_chunk cs found = Inr r)"
proof
  assume "wav_chunks data (length data) off found = Inr r"
  with assms show "\<exists>cs. list_all wf_chunk cs \<and> drop off data = concat (map render cs) \<and> fold_res fold_chunk cs found = Inr r"
  proof (induction "length data - off" arbitrary: off found rule: less_induct)
    case less
    show ?case
    proof (cases "off < length data")
      case False
      with less.prems show ?thesis by (intro exI [of _ "[]"]) (simp add: wav_chunks_end)
    next
      case True
      obtain c rest where c: "wf_chunk c" "drop off data = render c @ rest"
        using wav_chunks_next [OF less.prems(2) True] by blast
      have rest: "drop (off + length (render c)) data = rest"
        using c(2) by (metis add.commute append_eq_conv_conj drop_drop)
      have l8: "8 \<le> length (render c)" using c(1) by (simp add: length_render wf_chunk_def)
      have l: "off + length (render c) \<le> length data"
        using arg_cong [OF c(2), of length] True by simp
      from less.prems(2) obtain f1 where f1: "fold_chunk c found = Inr f1"
        "wav_chunks data (length data) (off + length (render c)) f1 = Inr r"
        by (auto simp: wav_chunks_render [OF c(2,1) less.prems(1)] bind_res_eq_Inr)
      have "length data - (off + length (render c)) < length data - off" using True l8 by simp
      from less.hyps [OF this l f1(2)] obtain cs where
        "list_all wf_chunk cs" "rest = concat (map render cs)" "fold_res fold_chunk cs f1 = Inr r"
        by (auto simp: rest)
      with c f1 show ?thesis by (intro exI [of _ "c # cs"]) simp
    qed
  qed
next
  assume "\<exists>cs. list_all wf_chunk cs \<and> drop off data = concat (map render cs) \<and> fold_res fold_chunk cs found = Inr r"
  then obtain cs where "list_all wf_chunk cs" "drop off data = concat (map render cs)" "fold_res fold_chunk cs found = Inr r" by blast
  with assms show "wav_chunks data (length data) off found = Inr r"
  proof (induction cs arbitrary: off found)
    case Nil
    then show ?case by (simp add: wav_chunks_end)
  next
    case (Cons c cs)
    then have d: "drop off data = render c @ concat (map render cs)" and w: "wf_chunk c" by simp_all
    have rest: "drop (off + length (render c)) data = concat (map render cs)"
      using d by (metis add.commute append_eq_conv_conj drop_drop)
    from Cons.prems(4) obtain f1 where f1: "fold_chunk c found = Inr f1" "fold_res fold_chunk cs f1 = Inr r"
      by (auto simp: bind_res_eq_Inr)
    have "wav_chunks data (length data) (off + length (render c)) f1 = Inr r"
      using Cons.prems(2) by (intro Cons.IH [OF render_parts(1) [OF d w Cons.prems(1)] _ rest f1(2)]) simp
    then show ?case by (simp add: wav_chunks_render [OF d w Cons.prems(1)] f1(1))
  qed
qed

text \<open>What the loop finds: the only format chunk and the only data chunk.\<close>

lemma names_differ: "FMT \<noteq> DATA" "DATA \<noteq> FMT"
  by (simp_all add: FMT_def DATA_def)

lemma fold_chunks_found:
  "fold_res fold_chunk cs (fo, po) = Inr (f', p') \<longleftrightarrow>
    (if fo \<noteq> None then bodies FMT cs = [] \<and> f' = fo
     else bodies FMT cs = [] \<and> f' = None \<or>
       (\<exists>b f. bodies FMT cs = [b] \<and> 16 \<le> length b \<and> unpack_fmt 0 b = Inr f \<and> f' = Some f)) \<and>
    (if po \<noteq> None then bodies DATA cs = [] \<and> p' = po
     else bodies DATA cs = [] \<and> p' = None \<or> (\<exists>b. bodies DATA cs = [b] \<and> p' = Some b))"
proof (induction cs arbitrary: fo po)
  case Nil
  then show ?case by (auto simp: bodies_def)
next
  case (Cons c cs)
  have all: "slice_bytes 0 (length (ck_body c)) (ck_body c) = ck_body c" by (simp add: slice_bytes_def)
  consider "ck_id c = FMT" | "ck_id c = DATA" | "ck_id c \<noteq> FMT" "ck_id c \<noteq> DATA" by blast
  then show ?case
  proof cases
    case 1
    then have "bodies FMT (c # cs) = ck_body c # bodies FMT cs" "bodies DATA (c # cs) = bodies DATA cs"
      by (simp_all add: bodies_def names_differ)
    moreover from 1 have "fold_chunk c (fo, po) = (if fo \<noteq> None then Inl (bad_wav ''reference WAV contains multiple fmt chunks'')
        else if length (ck_body c) < 16 then Inl (bad_wav ''reference WAV fmt chunk is too short'')
        else bind_res (unpack_fmt 0 (ck_body c)) (\<lambda>f. Inr (Some f, po)))"
      by (simp add: fold_chunk_def note_chunk_def)
    ultimately show ?thesis by (auto simp: Cons.IH bind_res_eq_Inr)
  next
    case 2
    then have "bodies FMT (c # cs) = bodies FMT cs" "bodies DATA (c # cs) = ck_body c # bodies DATA cs"
      by (simp_all add: bodies_def names_differ)
    moreover from 2 have "fold_chunk c (fo, po) = (if po \<noteq> None then Inl (bad_wav ''reference WAV contains multiple data chunks'')
        else Inr (fo, Some (ck_body c)))"
      by (simp add: fold_chunk_def note_chunk_def names_differ all)
    ultimately show ?thesis by (simp add: Cons.IH)
  next
    case 3
    then have "bodies FMT (c # cs) = bodies FMT cs" "bodies DATA (c # cs) = bodies DATA cs"
      by (simp_all add: bodies_def)
    moreover from 3 have "fold_chunk c (fo, po) = Inr (fo, po)" by (simp add: fold_chunk_def note_chunk_def)
    ultimately show ?thesis by (simp add: Cons.IH)
  qed
qed

lemma riff_parts:
  "length data < 12 \<or> take 4 data \<noteq> RIFF \<or> slice_bytes 8 12 data \<noteq> WAVE \<or> le (slice_bytes 4 8 data) < 4 \<or>
     le (slice_bytes 4 8 data) + 8 \<noteq> int (length data) \<or>
   (int (length data) < 2 ^ 32 + 8 \<and> data = RIFF @ to_le 4 (int (length data) - 8) @ WAVE @ drop 12 data)"
proof (cases "length data < 12 \<or> take 4 data \<noteq> RIFF \<or> slice_bytes 8 12 data \<noteq> WAVE \<or> le (slice_bytes 4 8 data) < 4 \<or>
     le (slice_bytes 4 8 data) + 8 \<noteq> int (length data)")
  case False
  then have h: "12 \<le> length data" "slice_bytes 0 4 data = RIFF" "slice_bytes 8 12 data = WAVE"
    "le (slice_bytes 4 8 data) = int (length data) - 8" by (auto simp: slice_bytes_def)
  have l: "length (slice_bytes 4 8 data) = 4" using h(1) by (simp add: length_slice)
  have "to_le 4 (int (length data) - 8) = slice_bytes 4 8 data" using to_le_le_length [OF l] h(4) by simp
  then have "RIFF @ to_le 4 (int (length data) - 8) @ WAVE @ drop 12 data = slice_bytes 0 12 data @ drop 12 data"
    by (simp add: take_slice flip: h(2,3) append_assoc)
  also have "\<dots> = data" using drop_split [OF h(1)] by simp
  finally show ?thesis using le_bound [of "slice_bytes 4 8 data"] l h(4) by simp
qed blast

lemma riff_reads:
  assumes "data = RIFF @ to_le 4 v @ WAVE @ body"
  shows "length data = 12 + length body" "take 4 data = RIFF" "slice_bytes 8 12 data = WAVE" "slice_bytes 4 8 data = to_le 4 v"
    "drop 12 data = body"
  using assms by (simp_all add: RIFF_def WAVE_def slice_bytes_def eval_nat_numeral)

lemma parse_accepts:
  "parse_reference_wav contract data = Inr r \<longleftrightarrow>
    (\<exists>cs found. data = riff cs \<and> list_all wf_chunk cs \<and> int (length data) < 2 ^ 32 + 8 \<and>
       fold_res fold_chunk cs (None, None) = Inr found \<and> check_wav contract found = Inr r)"
  (is "?l \<longleftrightarrow> ?r")
proof
  assume l: ?l
  then have g: "12 \<le> length data" "take 4 data = RIFF" "slice_bytes 8 12 data = WAVE"
    by (auto simp: parse_reference_wav_def split: if_splits)
  then have u: "unpack 4 4 data = Inr (le (slice_bytes 4 8 data))" by (simp add: unpack_ok)
  with l g have sz: "4 \<le> le (slice_bytes 4 8 data)" "le (slice_bytes 4 8 data) + 8 = int (length data)"
    by (auto simp: parse_reference_wav_def split: if_splits)
  have n: "nat (le (slice_bytes 4 8 data)) + 8 = length data" using sz by linarith
  from l g u sz n obtain found where f: "wav_chunks data (length data) 12 (None, None) = Inr found" "check_wav contract found = Inr r"
    by (auto simp: parse_reference_wav_def bind_res_eq_Inr)
  obtain cs where cs: "list_all wf_chunk cs" "drop 12 data = concat (map render cs)" "fold_res fold_chunk cs (None, None) = Inr found"
    using f(1) g(1) by (auto simp: wav_chunks_iff)
  have d: "int (length data) < 2 ^ 32 + 8" "data = RIFF @ to_le 4 (int (length data) - 8) @ WAVE @ drop 12 data"
    using riff_parts [of data] g sz by auto
  have "int (length data) - 8 = 4 + int (length (drop 12 data))" using g(1) by simp
  with d(2) have "data = riff cs" unfolding riff_def Let_def cs(2) [symmetric] by metis
  with cs f d show ?r by blast
next
  assume ?r
  then obtain cs found where h: "data = riff cs" "list_all wf_chunk cs" "int (length data) < 2 ^ 32 + 8"
    "fold_res fold_chunk cs (None, None) = Inr found" "check_wav contract found = Inr r" by blast
  let ?body = "concat (map render cs)"
  note rd = riff_reads [OF h(1) [unfolded riff_def Let_def]]
  have sz: "le (slice_bytes 4 8 data) = 4 + int (length ?body)"
    unfolding rd(4) le_to_le using h(3) rd(1) by simp
  have n: "nat (le (slice_bytes 4 8 data)) + 8 = length data" using sz rd(1) by simp
  have "12 \<le> length data" using rd(1) by simp
  from wav_chunks_iff [OF this] have "wav_chunks data (length data) 12 (None, None) = Inr found"
    using h(2,4) rd(5) by blast
  then show ?l
    using rd(1,2,3) sz n h(5) by (simp add: parse_reference_wav_def unpack_ok)
qed

definition pcm16_fmt :: "int \<Rightarrow> int \<Rightarrow> wav_fmt" where
  "pcm16_fmt rate channels =
     \<lparr>wf_format = 1, wf_channels = channels, wf_rate = rate, wf_byte_rate = rate * (channels * 2), wf_align = channels * 2, wf_bits = 16\<rparr>"

lemma check_wav_iff:
  "check_wav (Inr (rate, ch)) (Some f, Some pcm) = Inr (p, r) \<longleftrightarrow>
    f = pcm16_fmt rate ch \<and> p = pcm \<and> r = rate \<and> pcm \<noteq> [] \<and> int (length pcm) mod (ch * 2) = 0"
  by (cases f) (auto simp: check_wav_def pcm16_fmt_def)

lemma check_wav_none: "check_wav c (None, p) \<noteq> Inr r" "check_wav c (f, None) \<noteq> Inr r"
  by (auto simp: check_wav_def split: option.split)

lemma header_split:
  assumes "16 \<le> length b"
  shows "b = slice_bytes 0 2 b @ slice_bytes 2 4 b @ slice_bytes 4 8 b @ slice_bytes 8 12 b @ slice_bytes 12 14 b @ slice_bytes 14 16 b @ drop 16 b"
proof -
  have "slice_bytes 0 2 b @ slice_bytes 2 4 b @ slice_bytes 4 8 b @ slice_bytes 8 12 b @ slice_bytes 12 14 b @ slice_bytes 14 16 b
      = slice_bytes 0 16 b"
    by (simp add: take_slice flip: append_assoc)
  then have "(slice_bytes 0 2 b @ slice_bytes 2 4 b @ slice_bytes 4 8 b @ slice_bytes 8 12 b @ slice_bytes 12 14 b @ slice_bytes 14 16 b) @ drop 16 b
      = b" using drop_split [OF assms] by metis
  then show ?thesis by simp
qed

lemma header_slices:
  assumes "b = h1 @ h2 @ h3 @ h4 @ h5 @ h6 @ ext" and "length h1 = 2" "length h2 = 2" "length h3 = 4" "length h4 = 4" "length h5 = 2" "length h6 = 2"
  shows "slice_bytes 0 2 b = h1" "slice_bytes 2 4 b = h2" "slice_bytes 4 8 b = h3" "slice_bytes 8 12 b = h4" "slice_bytes 12 14 b = h5"
    "slice_bytes 14 16 b = h6" "16 \<le> length b"
  using assms by (simp_all add: slice_bytes_def)

lemma header_iff:
  assumes "0 < rate" and "0 < ch"
  shows "16 \<le> length b \<and> unpack_fmt 0 b = Inr (pcm16_fmt rate ch) \<longleftrightarrow>
    ch * 2 < 2 ^ 16 \<and> rate * (ch * 2) < 2 ^ 32 \<and> (\<exists>ext. b = pcm16_header rate ch @ ext)"
  (is "?l \<longleftrightarrow> ?r")
proof
  assume ?l
  then have l: "16 \<le> length b" and u: "unpack_fmt 0 b = Inr (pcm16_fmt rate ch)" by simp_all
  from u have f: "le (slice_bytes 0 2 b) = 1" "le (slice_bytes 2 4 b) = ch" "le (slice_bytes 4 8 b) = rate"
    "le (slice_bytes 8 12 b) = rate * (ch * 2)" "le (slice_bytes 12 14 b) = ch * 2" "le (slice_bytes 14 16 b) = 16"
    unfolding unpack_fmt_ok [of 0, simplified, OF l] by (simp_all add: pcm16_fmt_def numeral_2_eq_2)
  have n: "length (slice_bytes 0 2 b) = 2" "length (slice_bytes 2 4 b) = 2" "length (slice_bytes 4 8 b) = 4" "length (slice_bytes 8 12 b) = 4"
    "length (slice_bytes 12 14 b) = 2" "length (slice_bytes 14 16 b) = 2" using l by (simp_all add: length_slice)
  have "b = pcm16_header rate ch @ drop 16 b"
    using header_split [OF l] unfolding pcm16_header_def
    by (simp add: to_le_le_length [OF n(1), unfolded f] to_le_le_length [OF n(2), unfolded f] to_le_le_length [OF n(3), unfolded f]
        to_le_le_length [OF n(4), unfolded f] to_le_le_length [OF n(5), unfolded f] to_le_le_length [OF n(6), unfolded f])
  then show ?r
    using le_bound [of "slice_bytes 12 14 b"] le_bound [of "slice_bytes 8 12 b"] n f by auto
next
  assume r: ?r
  then obtain ext where b: "b = pcm16_header rate ch @ ext" by blast
  note s = header_slices [OF b [unfolded pcm16_header_def append_assoc], simplified]
  have "rate * 1 \<le> rate * (ch * 2)" using assms by (intro mult_left_mono) auto
  with r have "rate < 2 ^ 32" by linarith
  with r assms have "le (to_le 2 1) = 1" "le (to_le 2 ch) = ch" "le (to_le 4 rate) = rate" "le (to_le 4 (rate * (ch * 2))) = rate * (ch * 2)"
    "le (to_le 2 (ch * 2)) = ch * 2" "le (to_le 2 16) = 16" by (simp_all add: le_to_le)
  then show ?l using s by (simp add: unpack_fmt_ok pcm16_fmt_def numeral_2_eq_2)
qed

text \<open>The parser accepts exactly the PCM16 recordings of the codec's rate and channel count, whatever other
  chunks they carry, and returns their frames: renderings of chunks with one format and one data
  chunk.\<close>

theorem reference_wav_accepted_iff:
  assumes "codec_contract e read_json be = Inr (rate, ch)"
  shows "parse_reference_wav (codec_contract e read_json be) data = Inr (pcm, r) \<longleftrightarrow>
    r = rate \<and> ch * 2 < 2 ^ 16 \<and> rate * (ch * 2) < 2 ^ 32 \<and> pcm \<noteq> [] \<and> int (length pcm) mod (ch * 2) = 0 \<and>
    (\<exists>cs ext. data = riff cs \<and> list_all wf_chunk cs \<and> int (length data) < 2 ^ 32 + 8 \<and>
       bodies FMT cs = [pcm16_header rate ch @ ext] \<and> bodies DATA cs = [pcm])"
  (is "?l \<longleftrightarrow> ?r")
proof -
  have pos: "0 < rate" "0 < ch" using codec_contract_pos [OF assms] by simp_all
  show ?thesis
  proof
    assume ?l
    then obtain cs fo po where h: "data = riff cs" "list_all wf_chunk cs" "int (length data) < 2 ^ 32 + 8"
      "fold_res fold_chunk cs (None, None) = Inr (fo, po)" "check_wav (Inr (rate, ch)) (fo, po) = Inr (pcm, r)"
      unfolding assms parse_accepts by fastforce
    from h(5) check_wav_none obtain f p where fp: "fo = Some f" "po = Some p" by (cases fo; cases po) auto
    with h(4) obtain b where b: "bodies FMT cs = [b]" "16 \<le> length b" "unpack_fmt 0 b = Inr f" "bodies DATA cs = [p]"
      unfolding fold_chunks_found by auto
    have c: "f = pcm16_fmt rate ch \<and> pcm = p \<and> r = rate \<and> p \<noteq> [] \<and> int (length p) mod (ch * 2) = 0"
      using h(5) unfolding fp check_wav_iff .
    with b header_iff [OF pos, of b] obtain ext where "ch * 2 < 2 ^ 16 \<and> rate * (ch * 2) < 2 ^ 32" "b = pcm16_header rate ch @ ext"
      by blast
    with c b h(1-3) show ?r by blast
  next
    assume r: ?r
    then obtain cs ext where h: "data = riff cs" "list_all wf_chunk cs" "int (length data) < 2 ^ 32 + 8"
      "bodies FMT cs = [pcm16_header rate ch @ ext]" "bodies DATA cs = [pcm]" by blast
    from r header_iff [OF pos, of "pcm16_header rate ch @ ext"]
    have "16 \<le> length (pcm16_header rate ch @ ext)" "unpack_fmt 0 (pcm16_header rate ch @ ext) = Inr (pcm16_fmt rate ch)" by blast+
    with h have "fold_res fold_chunk cs (None, None) = Inr (Some (pcm16_fmt rate ch), Some pcm)"
      unfolding fold_chunks_found by simp
    moreover have "check_wav (Inr (rate, ch)) (Some (pcm16_fmt rate ch), Some pcm) = Inr (pcm, r)"
      using r unfolding check_wav_iff by blast
    ultimately show ?l unfolding assms parse_accepts using h(1-3) by blast
  qed
qed

text \<open>A small file: a comment chunk of odd length, the format, and two stereo frames.\<close>

definition demo_moss :: moss_backend where
  "demo_moss = \<lparr>mb_rate = Some 48000, mb_channels = None, mb_codec_dir = Some ''/codec''\<rparr>"

definition demo_meta :: "string list \<Rightarrow> json option" where
  "demo_meta p = (if p = [''/codec'', ''codec_browser_onnx_meta.json'']
     then Some (JObj [(''codec_config'', JObj [(''sample_rate'', JInt 24000), (''channels'', JStr ''2'')])]) else None)"

definition demo_wav :: bytes where
  "demo_wav = riff [Chunk [76, 73, 83, 84] [1, 2, 3] 0, Chunk FMT (pcm16_header 48000 2) 0, Chunk DATA [1, 0, 2, 0, 3, 0, 4, 0] 0]"

theorem reference_wav_accepted_iff_witness:
  "parse_reference_wav (codec_contract Map.empty demo_meta demo_moss) demo_wav = Inr ([1, 0, 2, 0, 3, 0, 4, 0], 48000)"
proof -
  have c: "codec_contract Map.empty demo_meta demo_moss = Inr (48000, 2)" by code_simp
  have r: "list_all wf_chunk [Chunk [76, 73, 83, 84] [1, 2, 3] 0, Chunk FMT (pcm16_header 48000 2) 0, Chunk DATA [1, 0, 2, 0, 3, 0, 4, 0] 0]"
    "bodies FMT [Chunk [76, 73, 83, 84] [1, 2, 3] 0, Chunk FMT (pcm16_header 48000 2) 0, Chunk DATA [1, 0, 2, 0, 3, 0, 4, 0] 0] =
      [pcm16_header 48000 2 @ []]"
    "bodies DATA [Chunk [76, 73, 83, 84] [1, 2, 3] 0, Chunk FMT (pcm16_header 48000 2) 0, Chunk DATA [1, 0, 2, 0, 3, 0, 4, 0] 0] =
      [[1, 0, 2, 0, 3, 0, 4, 0]]"
    by (simp_all add: wf_chunk_def FMT_def DATA_def bodies_def pcm16_header_def)
  have "length demo_wav = 64" by code_simp
  then show ?thesis
    unfolding reference_wav_accepted_iff [OF c] using r by (intro conjI exI) (auto simp: demo_wav_def)
qed

text \<open>What the parser answers to a file it does not accept: never a crash.\<close>

definition wav_refusal :: "exc \<Rightarrow> bool" where
  "wav_refusal x = (case x of ApiExc a \<Rightarrow> ae_status a = 400 \<and> ae_param a = Some ''file'' | _ \<Rightarrow> False)"

lemma bad_wav_refusal [simp]: "wav_refusal (bad_wav m)" "wav_refusal (clone_error m c ''file'')"
  by (simp_all add: wav_refusal_def bad_wav_def clone_error_def api_exc_def)

lemma note_chunk_refusal:
  "start + csize \<le> length data \<Longrightarrow> note_chunk data name start csize found = Inl x \<Longrightarrow> wav_refusal x"
  by (auto simp: note_chunk_def unpack_fmt_ok split: if_splits)

lemma wav_chunks_refusal:
  "n = length data \<Longrightarrow> wav_chunks data n off found = Inl x \<Longrightarrow> wav_refusal x"
proof (induction data n off found rule: wav_chunks.induct)
  case (1 data n off found)
  show ?case
  proof (cases "n \<le> off \<or> n < off + 8")
    case True
    with 1(3) show ?thesis by (subst (asm) wav_chunks.simps) (auto split: if_splits)
  next
    case False
    then have u: "unpack 4 (off + 4) data = Inr (le (slice_bytes (off + 4) (off + 8) data))"
      using 1(2) by (simp add: unpack_ok ac_simps)
    define csize where "csize = nat (le (slice_bytes (off + 4) (off + 8) data))"
    let ?chunk = "note_chunk data (slice_bytes off (off + 4) data) (off + 8) csize found"
    have w: "wav_chunks data n off found =
      (if n < off + 8 + csize \<or> n < off + 8 + csize + csize mod 2 then Inl (bad_wav ''reference WAV chunk is truncated'')
       else case ?chunk of Inl x \<Rightarrow> Inl x | Inr f1 \<Rightarrow> wav_chunks data n (off + 8 + csize + csize mod 2) f1)"
      unfolding wav_chunks.simps [of data n off] u Let_def sum.case csize_def using False by simp
    show ?thesis
    proof (cases "n < off + 8 + csize + csize mod 2")
      case True
      with 1(3) w show ?thesis by (auto split: if_splits)
    next
      case inside: False
      show ?thesis
      proof (cases ?chunk)
        case (Inl y)
        with note_chunk_refusal [OF _ this] 1(2,3) w inside show ?thesis by (auto simp del: One_nat_def)
      next
        case (Inr f1)
        have "wav_chunks data n (off + 8 + csize + csize mod 2) f1 = Inl x" using 1(3) w inside Inr by auto
        then show ?thesis
          using 1(1) [OF _ _ u csize_def refl refl refl _ Inr] False inside 1(2) by simp
      qed
    qed
  qed
qed

lemma check_wav_result: "check_wav contract found = Inr (pcm, r) \<Longrightarrow> snd found = Some pcm"
  by (auto simp: check_wav_def bind_res_eq_Inr split: prod.splits option.splits if_splits)

lemma check_wav_refusal: "check_wav (Inr c) found = Inl x \<Longrightarrow> wav_refusal x"
  by (auto simp: check_wav_def split: prod.splits option.splits if_splits)

lemma body_within: "c \<in> set cs \<Longrightarrow> length (ck_body c) \<le> length (riff cs)"
proof (induction cs)
  case (Cons a cs)
  then show ?case by (auto simp: riff_def Let_def render_def)
qed simp

text \<open>Whatever bytes are uploaded, the parser reads inside them and answers with a part of them or with a
  client error about the file.\<close>

theorem reference_wav_total:
  "case parse_reference_wav (Inr (rate, ch)) data of Inl x \<Rightarrow> wav_refusal x | Inr (pcm, r) \<Rightarrow> length pcm \<le> length data"
proof (cases "parse_reference_wav (Inr (rate, ch)) data")
  case (Inr v)
  then obtain cs fo po where h: "data = riff cs" "fold_res fold_chunk cs (None, None) = Inr (fo, po)"
      "check_wav (Inr (rate, ch)) (fo, po) = Inr v" unfolding parse_accepts by fastforce
  have "po = Some (fst v)" using check_wav_result [of _ "(fo, po)" "fst v" "snd v"] h(3) by simp
  with h(2) have "bodies DATA cs = [fst v]" unfolding fold_chunks_found by auto
  then have "fst v \<in> set (bodies DATA cs)" by simp
  then obtain c where "c \<in> set cs" "ck_body c = fst v" unfolding bodies_def by auto
  with body_within h(1) have "length (fst v) \<le> length data" by metis
  with Inr show ?thesis by (cases v) simp
next
  case (Inl x)
  show ?thesis
  proof (cases "length data < 12 \<or> take 4 data \<noteq> RIFF \<or> slice_bytes 8 12 data \<noteq> WAVE")
    case True
    with Inl show ?thesis by (auto simp: parse_reference_wav_def)
  next
    case False
    then have u: "unpack 4 4 data = Inr (le (slice_bytes 4 8 data))" by (simp add: unpack_ok)
    show ?thesis
    proof (cases "le (slice_bytes 4 8 data) < 4 \<or> le (slice_bytes 4 8 data) + 8 \<noteq> int (length data)")
      case True
      with Inl False u show ?thesis by (auto simp: parse_reference_wav_def)
    next
      case ok_size: False
      then have n: "nat (le (slice_bytes 4 8 data)) + 8 = length data" by linarith
      have "bind_res (wav_chunks data (length data) 12 (None, None)) (check_wav (Inr (rate, ch))) = Inl x"
        using Inl False u ok_size n by (auto simp: parse_reference_wav_def)
      then have "wav_refusal x"
        using wav_chunks_refusal [of "length data"] check_wav_refusal by (auto simp: bind_res_eq_Inl)
      with Inl show ?thesis by simp
    qed
  qed
qed

end
