(* ===== verification/TtsStream.thy ===== *)
theory TtsStream
  imports SpeechErrors "HOL-Library.Sublist"
begin

section \<open>Streamed synthesis\<close>

text \<open>
  The streams of \<^verbatim>\<open>/tts/stream\<close> (\<open>tts_stream\<close> in \<^verbatim>\<open>server/main.py\<close>, with a backend manager) and of the
  versioned clone endpoints (\<open>_v1_clone_stream_impl\<close>), with \<open>_run_tts_stream_cleanup\<close>. Worker threads run
  one job per sentence and put its chunks into the queue of the job; the owner, a generator on the event
  loop, drains the queues in order and submits the next sentences while the window allows; a watcher sees
  the client disconnect; the cleanup waits for the workers and then gives the leases back. Every
  interleaving is a list of events, in which an event that is not enabled changes nothing.

  \<open>job\<close> is one call of \<open>_run\<close> in the executor: the phases before, during and after its use of the backend
  (\<open>started\<close> is set when it leaves \<open>Queued\<close>, \<open>finished\<close> when it is \<open>Gone\<close>). \<open>jb_made\<close> and \<open>jb_taken\<close> record what it
  put and what the owner accepted of it, \<open>ps_log\<close> every use of the backend and every lease that is given back. What
  generators do is part of the events. \<open>CancelRequest\<close> is the framed response asking its inner stream to end
  (\<open>_TTSFramedStreamOwner.start_close\<close>), \<open>OwnerAbort\<close> an exception thrown into the owner. The bounded waits of the owner for its watcher and for the
  cleanup only decide when the handler returns; they are not modelled.
\<close>

datatype smode = Pipelined | CloneStream

datatype jphase = Queued | Checking | Calling | Iterating | Closing | Finishing | Ending | Gone

datatype item = Audio "nat list" | NonBinary | Fault exc | Eos

record job =
  jb_phase :: jphase
  jb_closed :: bool
  jb_queue :: "item list"
  jb_made :: "nat list list"
  jb_taken :: "nat list list"

definition new_job :: job where
  "new_job = \<lparr>jb_phase = Queued, jb_closed = False, jb_queue = [], jb_made = [], jb_taken = []\<rparr>"

definition put :: "item \<Rightarrow> job \<Rightarrow> job" where
  "put i j = j\<lparr>jb_queue := jb_queue j @ [i]\<rparr>"

subsection \<open>The worker\<close>

text \<open>What a call into the backend does: \<open>generate_streaming\<close> returns (and the \<open>close\<close> that follows when the
  stream was cancelled meanwhile may raise) or raises; the generator yields, raises or ends. The flag of a
  failure says that it is the backend's own report of a cancellation.\<close>

datatype called = Opens "exc option" | OpenFails exc bool
datatype pulled = Yields "nat list option" | PullFails exc bool | Ends

datatype jevent = Start | Check | Call called | Next pulled | Close | Finish | End

definition fail :: "smode \<Rightarrow> bool \<Rightarrow> exc \<Rightarrow> bool \<Rightarrow> job \<Rightarrow> job" where
  "fail mode flag x quiet j = (if quiet \<and> (flag \<or> mode = CloneStream) then j else put (Fault x) j)"

definition job_call :: "smode \<Rightarrow> bool \<Rightarrow> called \<Rightarrow> job \<Rightarrow> job" where
  "job_call mode flag r j =
     (case r of
        OpenFails x quiet \<Rightarrow> (fail mode flag x quiet j)\<lparr>jb_phase := Finishing\<rparr>
      | Opens close_fails \<Rightarrow>
          if \<not> flag then j\<lparr>jb_phase := Iterating\<rparr>
          else (case close_fails of
              None \<Rightarrow> j\<lparr>jb_phase := Finishing\<rparr>
            | Some x \<Rightarrow> (put (Fault x) j)\<lparr>jb_phase := (if mode = CloneStream then Finishing else Closing)\<rparr>))"

definition job_next :: "smode \<Rightarrow> bool \<Rightarrow> pulled \<Rightarrow> job \<Rightarrow> job" where
  "job_next mode flag r j =
     (if jb_closed j then j\<lparr>jb_phase := Closing\<rparr>
      else case r of
        Yields c \<Rightarrow>
          if flag then j
          else (case c of None \<Rightarrow> put NonBinary j | Some bytes \<Rightarrow> (put (Audio bytes) j)\<lparr>jb_made := jb_made j @ [bytes]\<rparr>)
      | PullFails x quiet \<Rightarrow> (fail mode flag x quiet j)\<lparr>jb_phase := Closing\<rparr>
      | Ends \<Rightarrow> j\<lparr>jb_phase := Closing\<rparr>)"

definition job_step :: "smode \<Rightarrow> bool \<Rightarrow> jevent \<Rightarrow> job \<Rightarrow> job" where
  "job_step mode flag e j =
     (case (jb_phase j, e) of
        (Queued, Start) \<Rightarrow> j\<lparr>jb_phase := Checking\<rparr>
      | (Checking, Check) \<Rightarrow> j\<lparr>jb_phase := (if flag then Finishing else Calling)\<rparr>
      | (Calling, Call r) \<Rightarrow> job_call mode flag r j
      | (Iterating, Next r) \<Rightarrow> job_next mode flag r j
      | (Closing, Close) \<Rightarrow> j\<lparr>jb_phase := Finishing\<rparr>
      | (Finishing, Finish) \<Rightarrow> (put Eos j)\<lparr>jb_phase := Ending\<rparr>
      | (Ending, End) \<Rightarrow> j\<lparr>jb_phase := Gone\<rparr>
      | _ \<Rightarrow> j)"

text \<open>Whether the event uses the backend.\<close>

definition uses_backend :: "jevent \<Rightarrow> job \<Rightarrow> bool" where
  "uses_backend e j =
     (case (jb_phase j, e) of (Calling, Call r) \<Rightarrow> True | (Iterating, Next r) \<Rightarrow> True | (Closing, Close) \<Rightarrow> True | _ \<Rightarrow> False)"

text \<open>\<open>active_gens\<close>: the jobs whose generator is registered.\<close>

definition has_gen :: "job \<Rightarrow> bool" where
  "has_gen j = (jb_phase j = Iterating \<or> jb_phase j = Closing)"

definition close_gen :: "job \<Rightarrow> job" where
  "close_gen j = (if has_gen j then j\<lparr>jb_closed := True\<rparr> else j)"

subsection \<open>Owner, watcher and cleanup\<close>

datatype ophase = Streaming | Unwinding | Returned
datatype cphase = NotStarted | Started | Waiting "nat list" | Released

datatype lease = CoordinatorLease | ManagerLease | SessionSlot
datatype log_entry = Use nat | GiveBack lease

record pstream =
  ps_mode :: smode
  ps_n :: nat
  ps_window :: nat
  ps_flag :: bool
  ps_jobs :: "job list"
  ps_cur :: nat
  ps_first :: bool
  ps_phase :: ophase
  ps_err :: "exc option"
  ps_sent :: "nat list list"
  ps_cleanup :: cphase
  ps_log :: "log_entry list"

text \<open>The first sentence is submitted when the stream starts.\<close>

definition new_stream :: "smode \<Rightarrow> nat \<Rightarrow> nat \<Rightarrow> pstream" where
  "new_stream mode n window =
     \<lparr>ps_mode = mode, ps_n = n, ps_window = window, ps_flag = False, ps_jobs = [new_job], ps_cur = 0, ps_first = False,
      ps_phase = Streaming, ps_err = None, ps_sent = [], ps_cleanup = NotStarted, ps_log = []\<rparr>"

definition prefetch_max :: "int \<Rightarrow> nat \<Rightarrow> nat" where
  "prefetch_max configured jobs = nat (max 1 (min configured (int jobs)))"

definition prefetch_window_allows :: "nat \<Rightarrow> nat \<Rightarrow> nat \<Rightarrow> bool" where
  "prefetch_window_allows next_to_submit current_idx window = (int next_to_submit - 1 - int current_idx < int window)"

definition maybe_prefetch :: "pstream \<Rightarrow> pstream" where
  "maybe_prefetch s =
     (if length (ps_jobs s) < ps_n s \<and> \<not> ps_flag s \<and> prefetch_window_allows (length (ps_jobs s)) (ps_cur s) (ps_window s)
      then s\<lparr>ps_jobs := ps_jobs s @ [new_job]\<rparr> else s)"

definition abort_with :: "exc option \<Rightarrow> pstream \<Rightarrow> pstream" where
  "abort_with x s = s\<lparr>ps_phase := Unwinding, ps_err := x\<rparr>"

definition bad_audio :: "string \<Rightarrow> exc" where
  "bad_audio message = api_exc message 503 ''invalid_backend_audio'' None"

definition deliver :: "nat list \<Rightarrow> pstream \<Rightarrow> pstream" where
  "deliver c s = s\<lparr>ps_sent := ps_sent s @ [c]\<rparr>"

text \<open>A chunk is handed to the client. The clone stream first checks it, and skips empty chunks.\<close>

definition take_audio :: "nat list \<Rightarrow> pstream \<Rightarrow> pstream" where
  "take_audio c s =
     (case ps_mode s of
        Pipelined \<Rightarrow> deliver c ((if ps_first s then s else maybe_prefetch s)\<lparr>ps_first := True\<rparr>)
      | CloneStream \<Rightarrow>
          if c = [] then s
          else if length c mod 2 \<noteq> 0 then abort_with (Some (bad_audio ''TTS backend returned an unaligned PCM16 chunk'')) s
          else deliver c s)"

definition refused :: "smode \<Rightarrow> nat list \<Rightarrow> bool" where
  "refused mode c = (mode = CloneStream \<and> length c mod 2 \<noteq> 0)"

definition next_sentence :: "pstream \<Rightarrow> pstream" where
  "next_sentence s =
     (let s1 = (maybe_prefetch s)\<lparr>ps_cur := Suc (ps_cur s), ps_first := False\<rparr>
      in if Suc (ps_cur s) = ps_n s \<or> ps_flag s then abort_with None s1 else s1)"

definition pop :: "smode \<Rightarrow> job \<Rightarrow> job" where
  "pop mode j =
     (case jb_queue j of
        [] \<Rightarrow> j
      | i # q \<Rightarrow> j\<lparr>jb_queue := q,
          jb_taken := (case i of Audio c \<Rightarrow> if refused mode c then jb_taken j else jb_taken j @ [c] | _ \<Rightarrow> jb_taken j)\<rparr>)"

definition owner_take :: "pstream \<Rightarrow> pstream" where
  "owner_take s =
     (let j = ps_jobs s ! ps_cur s;
          s1 = s\<lparr>ps_jobs := (ps_jobs s)[ps_cur s := pop (ps_mode s) j]\<rparr>
      in case jb_queue j of
           [] \<Rightarrow> s
         | i # q \<Rightarrow>
             (case i of
                Eos \<Rightarrow> next_sentence s1
              | Fault x \<Rightarrow> abort_with (Some x) s1
              | NonBinary \<Rightarrow> abort_with (Some (case ps_mode s of
                    Pipelined \<Rightarrow> PyExc ''AttributeError'' None ''encode''
                  | CloneStream \<Rightarrow> bad_audio ''TTS backend returned a non-binary PCM chunk'')) s1
              | Audio c \<Rightarrow> take_audio c s1))"

definition close_gens :: "pstream \<Rightarrow> pstream" where
  "close_gens s = s\<lparr>ps_jobs := map close_gen (ps_jobs s),
     ps_log := ps_log s @ map Use (filter (\<lambda>i. has_gen (ps_jobs s ! i)) [0..<length (ps_jobs s)])\<rparr>"

definition start_cleanup :: "pstream \<Rightarrow> pstream" where
  "start_cleanup s = (if ps_cleanup s = NotStarted then s\<lparr>ps_cleanup := Started\<rparr> else s)"

text \<open>The client is gone. The clone stream wakes its owner if the job has not started.\<close>

definition disconnect :: "pstream \<Rightarrow> pstream" where
  "disconnect s =
     (let s1 = s\<lparr>ps_flag := True\<rparr>
      in case ps_mode s of
           Pipelined \<Rightarrow> close_gens (start_cleanup s1)
         | CloneStream \<Rightarrow>
             close_gens (s1\<lparr>ps_jobs := map (\<lambda>j. if jb_phase j = Queued then put Eos j else j) (ps_jobs s)\<rparr>))"

definition owner_unwind :: "pstream \<Rightarrow> pstream" where
  "owner_unwind s =
     (let s1 = s\<lparr>ps_flag := True, ps_phase := Returned\<rparr>
      in start_cleanup (case ps_mode s of Pipelined \<Rightarrow> s1 | CloneStream \<Rightarrow> close_gens s1))"

definition snapshot_jobs :: "pstream \<Rightarrow> pstream" where
  "snapshot_jobs s = s\<lparr>ps_cleanup := Waiting (filter (\<lambda>i. jb_phase (ps_jobs s ! i) \<noteq> Queued) [0..<length (ps_jobs s)])\<rparr>"

definition release_resources :: "pstream \<Rightarrow> pstream" where
  "release_resources s = s\<lparr>ps_cleanup := Released,
     ps_log := ps_log s @ [GiveBack CoordinatorLease, GiveBack ManagerLease, GiveBack SessionSlot]\<rparr>"

datatype sevent = Job nat jevent | OwnerTake | OwnerAbort | OwnerUnwind | CancelRequest | Disconnect | CleanupSnapshot | CleanupRelease

fun stream_step :: "pstream \<Rightarrow> sevent \<Rightarrow> pstream" where
  "stream_step s (Job i e) =
     (if i < length (ps_jobs s)
      then s\<lparr>ps_jobs := (ps_jobs s)[i := job_step (ps_mode s) (ps_flag s) e (ps_jobs s ! i)],
             ps_log := ps_log s @ (if uses_backend e (ps_jobs s ! i) then [Use i] else [])\<rparr>
      else s)"
| "stream_step s OwnerTake = (if ps_phase s = Streaming then owner_take s else s)"
| "stream_step s OwnerAbort = (if ps_phase s = Streaming then abort_with None s else s)"
| "stream_step s OwnerUnwind = (if ps_phase s = Unwinding then owner_unwind s else s)"
| "stream_step s CancelRequest = s\<lparr>ps_flag := True\<rparr>"
| "stream_step s Disconnect = disconnect s"
| "stream_step s CleanupSnapshot = (if ps_cleanup s = Started then snapshot_jobs s else s)"
| "stream_step s CleanupRelease =
     (case ps_cleanup s of
        Waiting js \<Rightarrow> if list_all (\<lambda>i. jb_phase (ps_jobs s ! i) = Gone) js then release_resources s else s
      | _ \<Rightarrow> s)"

subsection \<open>The invariant\<close>

definition harmless :: "job \<Rightarrow> bool" where
  "harmless j = (jb_phase j \<in> {Queued, Checking, Finishing, Ending, Gone})"

definition settled :: "bool \<Rightarrow> job \<Rightarrow> bool" where
  "settled flag j = (jb_phase j \<in> {Ending, Gone} \<or> flag \<and> harmless j)"

definition audios :: "item list \<Rightarrow> nat list list" where
  "audios q = concat (map (\<lambda>i. case i of Audio c \<Rightarrow> [c] | _ \<Rightarrow> []) q)"

lemma audios_simps [simp]:
  "audios [] = []" "audios (i # q) = (case i of Audio c \<Rightarrow> c # audios q | _ \<Rightarrow> audios q)" "audios (p @ q) = audios p @ audios q"
  by (simp_all add: audios_def split: item.split)

definition past_eos :: "item list \<Rightarrow> item list" where
  "past_eos q = dropWhile (\<lambda>i. i \<noteq> Eos) q"

lemma past_eos_append: "past_eos (q @ r) = (if Eos \<in> set q then past_eos q @ r else past_eos r)"
  by (auto simp: past_eos_def dropWhile_append)

lemma past_eos_simps [simp]:
  "past_eos [] = []" "past_eos (i # q) = (if i = Eos then Eos # q else past_eos q)"
  by (simp_all add: past_eos_def)

lemma past_eos_none [simp]: "Eos \<notin> set q \<Longrightarrow> past_eos q = []"
  by (induction q) auto

text \<open>What holds of a job: what was taken is a part of what was put, in order; the end of its queue is marked only
  when nothing can follow; a job the owner has passed is complete.\<close>

definition job_ok :: "bool \<Rightarrow> job \<Rightarrow> bool" where
  "job_ok flag j \<longleftrightarrow>
     (Eos \<in> set (jb_queue j) \<longrightarrow> settled flag j) \<and> audios (past_eos (jb_queue j)) = []"

definition job_place :: "bool \<Rightarrow> bool \<Rightarrow> nat \<Rightarrow> nat \<Rightarrow> job \<Rightarrow> bool" where
  "job_place flag streaming cur i j \<longleftrightarrow>
     prefix (jb_taken j) (jb_made j) \<and>
     (streaming \<longrightarrow> jb_made j = jb_taken j @ audios (jb_queue j)) \<and>
     (i < cur \<longrightarrow> jb_taken j = jb_made j \<and> settled flag j) \<and>
     (cur < i \<longrightarrow> jb_taken j = []) \<and>
     (streaming \<and> cur \<le> i \<and> jb_phase j \<in> {Ending, Gone} \<longrightarrow> Eos \<in> set (jb_queue j))"

lemma put_simps [simp]:
  "jb_queue (put i j) = jb_queue j @ [i]" "jb_phase (put i j) = jb_phase j" "jb_made (put i j) = jb_made j"
  "jb_taken (put i j) = jb_taken j" "jb_closed (put i j) = jb_closed j"
  by (simp_all add: put_def)

lemma fail_simps [simp]:
  "jb_phase (fail m f x q j) = jb_phase j" "jb_made (fail m f x q j) = jb_made j" "jb_taken (fail m f x q j) = jb_taken j"
  "audios (jb_queue (fail m f x q j)) = audios (jb_queue j)" "Eos \<in> set (jb_queue (fail m f x q j)) \<longleftrightarrow> Eos \<in> set (jb_queue j)"
  "audios (past_eos (jb_queue (fail m f x q j))) = audios (past_eos (jb_queue j))"
  by (auto simp: fail_def past_eos_append)

lemma job_step_cases:
  "job_step m f e j = j \<or>
   jb_phase j = Queued \<and> job_step m f e j = j\<lparr>jb_phase := Checking\<rparr> \<or>
   jb_phase j = Checking \<and> job_step m f e j = j\<lparr>jb_phase := (if f then Finishing else Calling)\<rparr> \<or>
   jb_phase j = Calling \<and> (\<exists>r. job_step m f e j = job_call m f r j) \<or>
   jb_phase j = Iterating \<and> (\<exists>r. job_step m f e j = job_next m f r j) \<or>
   jb_phase j = Closing \<and> job_step m f e j = j\<lparr>jb_phase := Finishing\<rparr> \<or>
   jb_phase j = Finishing \<and> job_step m f e j = (put Eos j)\<lparr>jb_phase := Ending\<rparr> \<or>
   jb_phase j = Ending \<and> job_step m f e j = j\<lparr>jb_phase := Gone\<rparr>"
proof (cases e)
  case (Call r)
  then show ?thesis by (cases "jb_phase j") (auto simp: job_step_def)
next
  case (Next r)
  then show ?thesis by (cases "jb_phase j") (auto simp: job_step_def)
qed (cases "jb_phase j"; simp add: job_step_def)+

lemma job_call_ok:
  assumes "job_ok f j" and "jb_phase j = Calling"
  shows "job_ok f (job_call m f r j)"
  using assms
  by (auto simp: job_ok_def job_call_def settled_def harmless_def past_eos_append split: called.splits option.splits)

lemma job_next_ok:
  assumes "job_ok f j" and "jb_phase j = Iterating"
  shows "job_ok f (job_next m f r j)"
  using assms
  by (auto simp: job_ok_def job_next_def settled_def harmless_def past_eos_append split: pulled.splits option.splits)

lemma job_step_ok:
  assumes "job_ok f j"
  shows "job_ok f (job_step m f e j)"
proof -
  have "job_ok f (j\<lparr>jb_phase := Checking\<rparr>)" if "jb_phase j = Queued"
    using assms that by (auto simp: job_ok_def settled_def harmless_def)
  moreover have "job_ok f (j\<lparr>jb_phase := (if f then Finishing else Calling)\<rparr>)" if "jb_phase j = Checking"
    using assms that by (auto simp: job_ok_def settled_def harmless_def)
  moreover have "job_ok f (j\<lparr>jb_phase := Finishing\<rparr>)" if "jb_phase j = Closing"
    using assms that by (auto simp: job_ok_def settled_def harmless_def)
  moreover have "job_ok f ((put Eos j)\<lparr>jb_phase := Ending\<rparr>)"
    using assms by (auto simp: job_ok_def settled_def past_eos_append)
  moreover have "job_ok f (j\<lparr>jb_phase := Gone\<rparr>)" if "jb_phase j = Ending"
    using assms that by (auto simp: job_ok_def settled_def)
  ultimately show ?thesis
    using job_step_cases [of m f e j] job_call_ok [OF assms] job_next_ok [OF assms] assms by metis
qed

text \<open>A settled job puts nothing more.\<close>

lemma settled_step: "settled f j \<Longrightarrow> settled f (job_step m f e j) \<and> jb_made (job_step m f e j) = jb_made j"
  using job_step_cases [of m f e j] by (auto simp: settled_def harmless_def)

lemma job_call_effect:
  "jb_taken (job_call m f r j) = jb_taken j" "jb_made (job_call m f r j) = jb_made j"
  "audios (jb_queue (job_call m f r j)) = audios (jb_queue j)" "Eos \<in> set (jb_queue (job_call m f r j)) \<longleftrightarrow> Eos \<in> set (jb_queue j)"
  "jb_phase (job_call m f r j) \<noteq> Ending" "jb_phase (job_call m f r j) \<noteq> Gone"
  by (cases r; simp add: job_call_def split: option.split)+

lemma job_next_effect:
  "jb_taken (job_next m f r j) = jb_taken j"
  "\<exists>p. jb_made (job_next m f r j) = jb_made j @ p \<and> audios (jb_queue (job_next m f r j)) = audios (jb_queue j) @ p"
  "Eos \<in> set (jb_queue (job_next m f r j)) \<longleftrightarrow> Eos \<in> set (jb_queue j)"
  "jb_phase j = Iterating \<Longrightarrow> jb_phase (job_next m f r j) \<noteq> Ending"
  "jb_phase j = Iterating \<Longrightarrow> jb_phase (job_next m f r j) \<noteq> Gone"
  by (cases r; simp add: job_next_def split: option.split)+

lemma job_place_step:
  assumes "job_place f st cur i j" and "job_ok f j"
  shows "job_place f st cur i (job_step m f e j)"
proof -
  note cases = job_step_cases [of m f e j]
  have taken: "jb_taken (job_step m f e j) = jb_taken j"
    using cases by (elim disjE conjE exE) (simp_all add: job_call_effect job_next_effect)
  have new: "\<exists>p. jb_made (job_step m f e j) = jb_made j @ p \<and> audios (jb_queue (job_step m f e j)) = audios (jb_queue j) @ p"
    using cases by (elim disjE conjE exE) (simp_all add: job_call_effect job_next_effect)
  have eos: "Eos \<in> set (jb_queue j) \<or> jb_phase j \<notin> {Ending, Gone} \<and> jb_phase (job_step m f e j) \<in> {Ending, Gone} \<longrightarrow>
      Eos \<in> set (jb_queue (job_step m f e j))"
    using cases by (elim disjE conjE exE) (auto simp: job_call_effect job_next_effect)
  have stay: "jb_phase j \<in> {Ending, Gone} \<Longrightarrow> jb_phase (job_step m f e j) \<in> {Ending, Gone}"
    using job_step_cases [of m f e j] by auto
  from new obtain p where p: "jb_made (job_step m f e j) = jb_made j @ p"
    "audios (jb_queue (job_step m f e j)) = audios (jb_queue j) @ p" by blast
  have a: "prefix (jb_taken j) (jb_made j)" "st \<Longrightarrow> jb_made j = jb_taken j @ audios (jb_queue j)"
    "i < cur \<Longrightarrow> jb_taken j = jb_made j \<and> settled f j" "cur < i \<Longrightarrow> jb_taken j = []"
    "st \<Longrightarrow> cur \<le> i \<Longrightarrow> jb_phase j \<in> {Ending, Gone} \<Longrightarrow> Eos \<in> set (jb_queue j)"
    using assms(1) unfolding job_place_def by simp_all
  show ?thesis unfolding job_place_def taken
  proof (intro conjI impI)
    show "prefix (jb_taken j) (jb_made (job_step m f e j))" using a(1) unfolding p(1) by (rule prefix_prefix)
    show "jb_made (job_step m f e j) = jb_taken j @ audios (jb_queue (job_step m f e j))" if st using a(2) [OF that] p by simp
    show "jb_taken j = jb_made (job_step m f e j)" "settled f (job_step m f e j)" if "i < cur"
      using a(3) [OF that] settled_step [of f j m e] by simp_all
    show "jb_taken j = []" if "cur < i" using a(4) that .
    show "Eos \<in> set (jb_queue (job_step m f e j))" if "st \<and> cur \<le> i \<and> jb_phase (job_step m f e j) \<in> {Ending, Gone}"
      using that a(5) eos by blast
  qed
qed

subsection \<open>The leases\<close>

definition is_use :: "log_entry \<Rightarrow> bool" where
  "is_use l = (case l of Use _ \<Rightarrow> True | GiveBack _ \<Rightarrow> False)"

definition all_given_back :: "log_entry list" where
  "all_given_back = [GiveBack CoordinatorLease, GiveBack ManagerLease, GiveBack SessionSlot]"

definition lease_inv :: "pstream \<Rightarrow> bool" where
  "lease_inv s \<longleftrightarrow>
     (ps_cleanup s \<noteq> NotStarted \<longrightarrow> ps_flag s) \<and>
     (\<forall>js. ps_cleanup s = Waiting js \<longrightarrow> (\<forall>i < length (ps_jobs s). i \<in> set js \<or> harmless (ps_jobs s ! i))) \<and>
     (\<forall>js. ps_cleanup s = Waiting js \<longrightarrow> (\<forall>i \<in> set js. i < length (ps_jobs s))) \<and>
     (ps_cleanup s = Released \<longrightarrow> (\<forall>i < length (ps_jobs s). harmless (ps_jobs s ! i))) \<and>
     dropWhile is_use (ps_log s) = (if ps_cleanup s = Released then all_given_back else [])"

lemma is_use_simps [simp]: "is_use (Use i)" "\<not> is_use (GiveBack l)"
  by (simp_all add: is_use_def)

lemma harmless_step: "harmless j \<Longrightarrow> f \<Longrightarrow> harmless (job_step m f e j)"
  using job_step_cases [of m f e j] by (auto simp: harmless_def)

lemma harmless_quiet: "harmless j \<Longrightarrow> \<not> uses_backend e j" "harmless j \<Longrightarrow> \<not> has_gen j"
  by (auto simp: harmless_def uses_backend_def has_gen_def split: jphase.splits)

lemma log_uses: "dropWhile is_use l = [] \<Longrightarrow> dropWhile is_use (l @ map Use is) = []"
  by (auto simp: dropWhile_append is_use_def dropWhile_eq_Nil_conv)

text \<open>Everything but the cleanup keeps what it rests on: the phases of the jobs that exist, and no new job once
  the flag is up.\<close>

lemma lease_inv_frame:
  assumes "lease_inv s" and "ps_cleanup t = ps_cleanup s" and "ps_flag s \<longrightarrow> ps_flag t" and "ps_log t = ps_log s"
    and "map jb_phase (ps_jobs t) = map jb_phase (ps_jobs s) \<or> \<not> ps_flag s"
  shows "lease_inv t"
proof (cases "ps_flag s")
  case False
  with assms show ?thesis by (auto simp: lease_inv_def)
next
  case True
  with assms(5) have m: "map jb_phase (ps_jobs t) = map jb_phase (ps_jobs s)" by simp
  then have l: "length (ps_jobs t) = length (ps_jobs s)" by (rule map_eq_imp_length_eq)
  have "harmless (ps_jobs t ! i) \<longleftrightarrow> harmless (ps_jobs s ! i)" if "i < length (ps_jobs s)" for i
    using arg_cong [OF m, of "\<lambda>l. l ! i"] that l by (simp add: harmless_def)
  with assms(1-4) l show ?thesis by (auto simp: lease_inv_def)
qed

lemma maybe_prefetch_frame [simp]:
  "ps_cleanup (maybe_prefetch s) = ps_cleanup s" "ps_flag (maybe_prefetch s) = ps_flag s" "ps_log (maybe_prefetch s) = ps_log s"
  "ps_cur (maybe_prefetch s) = ps_cur s" "ps_n (maybe_prefetch s) = ps_n s" "ps_mode (maybe_prefetch s) = ps_mode s"
  "ps_window (maybe_prefetch s) = ps_window s" "ps_phase (maybe_prefetch s) = ps_phase s" "ps_sent (maybe_prefetch s) = ps_sent s"
  "ps_flag s \<Longrightarrow> ps_jobs (maybe_prefetch s) = ps_jobs s"
  by (simp_all add: maybe_prefetch_def)

lemma pop_phase [simp]: "jb_phase (pop m j) = jb_phase j" "jb_made (pop m j) = jb_made j"
  by (simp_all add: pop_def split: list.split)

lemma pop_phases: "map jb_phase (js[i := pop m (js ! i)]) = map jb_phase js"
proof (cases "i < length js")
  case True
  then show ?thesis by (simp add: map_update list_update_same_conv)
next
  case False
  then show ?thesis by (simp add: list_update_beyond not_less)
qed

lemma owner_take_lease:
  assumes "lease_inv s"
  shows "lease_inv (owner_take s)"
proof (cases "jb_queue (ps_jobs s ! ps_cur s)")
  case Nil
  with assms show ?thesis by (simp add: owner_take_def)
next
  case (Cons i q)
  show ?thesis
    by (rule lease_inv_frame [OF assms])
      (auto simp: owner_take_def Cons Let_def next_sentence_def abort_with_def take_audio_def deliver_def pop_phases
        split: item.split smode.split)
qed

lemma close_gens_lease:
  assumes "lease_inv s"
  shows "lease_inv (close_gens s)"
proof -
  let ?new = "filter (\<lambda>i. has_gen (ps_jobs s ! i)) [0..<length (ps_jobs s)]"
  have h: "harmless (close_gen j) \<longleftrightarrow> harmless j" for j by (simp add: close_gen_def harmless_def)
  have "dropWhile is_use (ps_log s @ map Use ?new) = (if ps_cleanup s = Released then all_given_back else [])"
  proof (cases "ps_cleanup s = Released")
    case True
    with assms have "?new = []" by (simp add: lease_inv_def filter_empty_conv harmless_quiet)
    with True assms show ?thesis by (simp add: lease_inv_def)
  next
    case False
    with assms show ?thesis by (simp add: lease_inv_def log_uses)
  qed
  with assms show ?thesis by (simp add: lease_inv_def close_gens_def h)
qed

lemma lease_inv_flag: "lease_inv s \<Longrightarrow> lease_inv (s\<lparr>ps_flag := True\<rparr>)"
  by (rule lease_inv_frame [of s]) simp_all

lemma lease_inv_start: "lease_inv s \<Longrightarrow> ps_flag s \<Longrightarrow> lease_inv (start_cleanup s)"
  by (auto simp: lease_inv_def start_cleanup_def)

lemma stream_step_lease:
  assumes inv: "lease_inv s"
  shows "lease_inv (stream_step s e)"
proof (cases e)
  case (Job i je)
  show ?thesis
  proof (cases "i < length (ps_jobs s)")
    case True
    let ?j = "ps_jobs s ! i"
    have "harmless ?j \<Longrightarrow> ps_flag s \<Longrightarrow> harmless (job_step (ps_mode s) (ps_flag s) je ?j)" by (rule harmless_step)
    moreover have "dropWhile is_use (ps_log s @ (if uses_backend je ?j then [Use i] else [])) =
        (if ps_cleanup s = Released then all_given_back else [])"
    proof (cases "ps_cleanup s = Released")
      case rel: True
      with inv True have "\<not> uses_backend je ?j" by (simp add: lease_inv_def harmless_quiet)
      with rel inv show ?thesis by (simp add: lease_inv_def)
    next
      case False
      with inv log_uses [of "ps_log s" "[i]"] show ?thesis by (simp add: lease_inv_def)
    qed
    ultimately show ?thesis using inv True Job by (auto simp: lease_inv_def nth_list_update)
  qed (use inv Job in simp)
next
  case OwnerTake
  with inv owner_take_lease show ?thesis by simp
next
  case OwnerAbort
  with inv show ?thesis by (auto simp: abort_with_def intro: lease_inv_frame [OF inv])
next
  case OwnerUnwind
  have "lease_inv (s\<lparr>ps_flag := True, ps_phase := Returned\<rparr>)" by (rule lease_inv_frame [OF inv]) simp_all
  with close_gens_lease [OF this] OwnerUnwind inv show ?thesis
    by (auto simp: owner_unwind_def Let_def close_gens_def intro!: lease_inv_start split: smode.split)
next
  case CancelRequest
  with lease_inv_flag [OF inv] show ?thesis by simp
next
  case Disconnect
  let ?f = "\<lambda>j. if jb_phase j = Queued then put Eos j else j"
  have f: "lease_inv (s\<lparr>ps_flag := True\<rparr>)" by (rule lease_inv_flag [OF inv])
  have "map jb_phase (map ?f (ps_jobs s)) = map jb_phase (ps_jobs s)" by simp
  then have "lease_inv (s\<lparr>ps_flag := True, ps_jobs := map ?f (ps_jobs s)\<rparr>)"
    by (intro lease_inv_frame [OF inv]) simp_all
  with f Disconnect show ?thesis
    by (auto simp: disconnect_def Let_def intro!: close_gens_lease lease_inv_start split: smode.split)
next
  case CleanupSnapshot
  with inv show ?thesis by (auto simp: lease_inv_def snapshot_jobs_def harmless_def)
next
  case CleanupRelease
  show ?thesis
  proof (cases "\<exists>js. ps_cleanup s = Waiting js \<and> list_all (\<lambda>i. jb_phase (ps_jobs s ! i) = Gone) js")
    case True
    then obtain js where js: "ps_cleanup s = Waiting js" "list_all (\<lambda>i. jb_phase (ps_jobs s ! i) = Gone) js" by blast
    have "harmless (ps_jobs s ! i)" if "i < length (ps_jobs s)" for i
      using inv js that by (cases "i \<in> set js") (auto simp: lease_inv_def list_all_iff harmless_def)
    moreover have "dropWhile is_use (ps_log s @ all_given_back) = all_given_back"
      using inv js by (simp add: lease_inv_def dropWhile_append all_given_back_def is_use_def)
    ultimately show ?thesis
      using inv js CleanupRelease by (simp add: release_resources_def lease_inv_def all_given_back_def)
  next
    case False
    with inv CleanupRelease show ?thesis by (auto split: cphase.split)
  qed
qed

interpretation leases: inv_machine stream_step lease_inv
  by unfold_locales (rule stream_step_lease)

text \<open>C9: Whatever the workers, the owner and the client do, the backend is used only while the stream holds its
  leases, and these are given back once and in order: coordinator, manager, session.\<close>

theorem stream_leases_safe:
  "dropWhile is_use (ps_log (foldl stream_step (new_stream mode n window) es)) \<in> {[], all_given_back}"
proof -
  have "lease_inv (new_stream mode n window)" by (simp add: lease_inv_def new_stream_def)
  from leases.run_inv [OF this, of es] show ?thesis by (simp add: lease_inv_def)
qed

subsection \<open>The order of the audio\<close>

definition handed_on :: "smode \<Rightarrow> nat list list \<Rightarrow> nat list list" where
  "handed_on mode cs = (case mode of Pipelined \<Rightarrow> cs | CloneStream \<Rightarrow> filter (\<lambda>c. c \<noteq> []) cs)"

lemma handed_on_simps [simp]:
  "handed_on m [] = []" "handed_on m (p @ q) = handed_on m p @ handed_on m q" "handed_on Pipelined p = p"
  "handed_on CloneStream [c] = (if c = [] then [] else [c])"
  by (simp_all add: handed_on_def split: smode.split)

definition flow_core :: "pstream \<Rightarrow> bool" where
  "flow_core s \<longleftrightarrow>
     0 < ps_window s \<and> length (ps_jobs s) \<le> ps_n s \<and> ps_cur s \<le> length (ps_jobs s) \<and> length (ps_jobs s) \<le> ps_cur s + 1 + ps_window s \<and>
     (\<forall>i < length (ps_jobs s). job_ok (ps_flag s) (ps_jobs s ! i) \<and>
        job_place (ps_flag s) (ps_phase s = Streaming) (ps_cur s) i (ps_jobs s ! i)) \<and>
     ps_sent s = concat (map (\<lambda>j. handed_on (ps_mode s) (jb_taken j)) (ps_jobs s))"

definition flow_inv :: "pstream \<Rightarrow> bool" where
  "flow_inv s \<longleftrightarrow> flow_core s \<and> (ps_phase s = Streaming \<longrightarrow> ps_cur s < length (ps_jobs s))"

lemma job_ok_flag: "job_ok f j \<Longrightarrow> job_ok True j"
  by (auto simp: job_ok_def settled_def)

lemma job_place_flag: "job_place f st cur i j \<Longrightarrow> job_place True st cur i j"
  by (auto simp: job_place_def settled_def)

lemma job_place_stop: "job_place f st cur i j \<Longrightarrow> job_place f False cur i j"
  by (simp add: job_place_def)

lemma job_place_Suc: "job_place f st cur i j \<Longrightarrow> i \<noteq> cur \<Longrightarrow> job_place f st (Suc cur) i j"
  by (auto simp: job_place_def)

lemma new_job_ok: "job_ok f new_job" "cur \<le> i \<Longrightarrow> job_place f st cur i new_job"
  by (simp_all add: job_ok_def job_place_def new_job_def)

lemma audios_past: "audios q = [] \<Longrightarrow> audios (past_eos q) = []"
  by (induction q) (auto split: item.splits)

lemma pop_ok: "job_ok f j \<Longrightarrow> job_ok f (pop m j)"
  by (auto simp: job_ok_def pop_def settled_def harmless_def split: list.split if_splits intro: audios_past)

lemma pop_halt:
  assumes "job_place f True cur cur j" and "jb_queue j = i # q" and "\<forall>c. i = Audio c \<longrightarrow> refused m c"
  shows "job_place f False cur cur (pop m j)"
  using assms by (cases i) (auto simp: job_place_def pop_def)

lemma pop_audio:
  assumes "job_place f True cur cur j" and "jb_queue j = Audio c # q" and "\<not> refused m c"
  shows "job_place f True cur cur (pop m j)" "jb_taken (pop m j) = jb_taken j @ [c]"
  using assms by (auto simp: job_place_def pop_def settled_def harmless_def)

lemma pop_eos:
  assumes "job_place f True cur cur j" and "job_ok f j" and "jb_queue j = Eos # q"
  shows "job_place f True (Suc cur) cur (pop m j)" "jb_taken (pop m j) = jb_taken j"
  using assms by (auto simp: job_place_def job_ok_def pop_def settled_def harmless_def)

lemma concat_at:
  assumes "k < length js" and "\<And>i. k < i \<Longrightarrow> i < length js \<Longrightarrow> g (js ! i) = []"
  shows "concat (map g (js[k := j])) = concat (map g (take k js)) @ g j"
    and "concat (map g js) = concat (map g (take k js)) @ g (js ! k)"
proof -
  have "concat (map g (drop (Suc k) js)) = []"
    using assms(2) by (auto simp: in_set_conv_nth)
  then show "concat (map g (js[k := j])) = concat (map g (take k js)) @ g j"
    by (simp add: upd_conv_take_nth_drop [OF assms(1)])
  with \<open>concat (map g (drop (Suc k) js)) = []\<close> show "concat (map g js) = concat (map g (take k js)) @ g (js ! k)"
    by (subst id_take_nth_drop [OF assms(1)]) (simp del: append_take_drop_id)
qed

lemma flow_inv_jobs:
  assumes "flow_inv s" and "i < length (ps_jobs s)"
  shows "job_ok (ps_flag s) (ps_jobs s ! i)" "job_place (ps_flag s) (ps_phase s = Streaming) (ps_cur s) i (ps_jobs s ! i)"
    "ps_cur s < i \<Longrightarrow> jb_taken (ps_jobs s ! i) = []"
  using assms by (auto simp: flow_inv_def flow_core_def job_place_def)

text \<open>Steps that leave the jobs' place and the audio alone.\<close>

lemma flow_inv_frame:
  assumes inv: "flow_inv s"
    and eqs: "ps_window t = ps_window s" "ps_n t = ps_n s" "ps_cur t = ps_cur s" "ps_mode t = ps_mode s" "ps_sent t = ps_sent s"
    and flag: "ps_flag s \<longrightarrow> ps_flag t" and phase: "ps_phase t = Streaming \<longrightarrow> ps_phase s = Streaming"
    and len: "length (ps_jobs t) = length (ps_jobs s)"
    and jobs: "\<And>i. i < length (ps_jobs s) \<Longrightarrow> jb_taken (ps_jobs t ! i) = jb_taken (ps_jobs s ! i) \<and>
      job_ok (ps_flag t) (ps_jobs t ! i) \<and> job_place (ps_flag t) (ps_phase t = Streaming) (ps_cur s) i (ps_jobs t ! i)"
  shows "flow_inv t"
proof -
  have "map (\<lambda>j. handed_on (ps_mode s) (jb_taken j)) (ps_jobs t) = map (\<lambda>j. handed_on (ps_mode s) (jb_taken j)) (ps_jobs s)"
    by (rule nth_equalityI) (simp_all add: len jobs)
  with assms show ?thesis by (simp add: flow_inv_def flow_core_def)
qed

lemma flow_inv_same:
  assumes inv: "flow_inv s"
    and eqs: "ps_window t = ps_window s" "ps_n t = ps_n s" "ps_cur t = ps_cur s" "ps_mode t = ps_mode s" "ps_sent t = ps_sent s"
    "ps_jobs t = ps_jobs s"
    and flag: "ps_flag s \<longrightarrow> ps_flag t" and phase: "ps_phase t = Streaming \<longrightarrow> ps_phase s = Streaming"
  shows "flow_inv t"
proof (rule flow_inv_frame [OF inv])
  fix i assume i: "i < length (ps_jobs s)"
  note j = flow_inv_jobs [OF inv i]
  show "jb_taken (ps_jobs t ! i) = jb_taken (ps_jobs s ! i) \<and> job_ok (ps_flag t) (ps_jobs t ! i) \<and>
      job_place (ps_flag t) (ps_phase t = Streaming) (ps_cur s) i (ps_jobs t ! i)"
    using j(1,2) flag phase by (cases "ps_flag t"; cases "ps_phase t = Streaming")
      (auto simp: eqs intro: job_ok_flag job_place_flag job_place_stop)
qed (use assms in simp_all)

lemma add_job_core:
  assumes inv: "flow_core s" and "length (ps_jobs s) < ps_n s" and w: "length (ps_jobs s) \<le> ps_cur s + ps_window s"
  shows "flow_core (s\<lparr>ps_jobs := ps_jobs s @ [new_job]\<rparr>)"
proof -
  have "job_ok (ps_flag s) ((ps_jobs s @ [new_job]) ! i) \<and>
      job_place (ps_flag s) (ps_phase s = Streaming) (ps_cur s) i ((ps_jobs s @ [new_job]) ! i)" if "i < Suc (length (ps_jobs s))" for i
    using that inv by (cases "i < length (ps_jobs s)") (auto simp: nth_append new_job_ok flow_core_def less_Suc_eq)
  with assms show ?thesis by (simp add: flow_core_def) (simp add: new_job_def)
qed

lemma maybe_prefetch_flow:
  assumes inv: "flow_inv s"
  shows "flow_inv (maybe_prefetch s)"
proof (cases "length (ps_jobs s) < ps_n s \<and> \<not> ps_flag s \<and> prefetch_window_allows (length (ps_jobs s)) (ps_cur s) (ps_window s)")
  case True
  then have "length (ps_jobs s) \<le> ps_cur s + ps_window s" by (simp add: prefetch_window_allows_def)
  with inv True add_job_core [of s] show ?thesis by (auto simp: maybe_prefetch_def flow_inv_def)
next
  case False
  then have "maybe_prefetch s = s" by (auto simp: maybe_prefetch_def)
  with inv show ?thesis by simp
qed

lemma close_gen_flow: "job_ok f j \<Longrightarrow> job_ok f (close_gen j)" "job_place f st cur i j \<Longrightarrow> job_place f st cur i (close_gen j)"
  "jb_taken (close_gen j) = jb_taken j"
  by (auto simp: close_gen_def job_ok_def job_place_def settled_def harmless_def)

lemma close_gens_flow: "flow_inv s \<Longrightarrow> flow_inv (close_gens s)"
  by (rule flow_inv_frame [of s]) (auto simp: close_gens_def close_gen_flow flow_inv_jobs)

lemma start_cleanup_flow: "flow_inv s \<Longrightarrow> flow_inv (start_cleanup s)"
  by (rule flow_inv_same [of s]) (simp_all add: start_cleanup_def)

lemma flag_flow: "flow_inv s \<Longrightarrow> flow_inv (s\<lparr>ps_flag := True\<rparr>)"
  by (rule flow_inv_same [of s]) simp_all

lemma abort_flow: "flow_inv s \<Longrightarrow> flow_inv (abort_with x s)"
  by (rule flow_inv_same [of s]) (simp_all add: abort_with_def)

lemma wake_flow:
  assumes "flow_inv s" and "ps_flag s"
  shows "flow_inv (s\<lparr>ps_jobs := map (\<lambda>j. if jb_phase j = Queued then put Eos j else j) (ps_jobs s)\<rparr>)"
proof (rule flow_inv_frame [OF assms(1)])
  fix i assume i: "i < length (ps_jobs s)"
  let ?j = "ps_jobs s ! i"
  note j = flow_inv_jobs(1,2) [OF assms(1) i]
  have "job_ok True (put Eos ?j)" "job_place True st cur i (put Eos ?j)"
    if "jb_phase ?j = Queued" "job_ok True ?j" "job_place True st cur i ?j" for st cur
    using that by (auto simp: job_ok_def job_place_def settled_def harmless_def past_eos_append)
  with j assms(2) i show "jb_taken (ps_jobs (s\<lparr>ps_jobs := map (\<lambda>j. if jb_phase j = Queued then put Eos j else j) (ps_jobs s)\<rparr>) ! i) =
      jb_taken ?j \<and>
      job_ok (ps_flag (s\<lparr>ps_jobs := map (\<lambda>j. if jb_phase j = Queued then put Eos j else j) (ps_jobs s)\<rparr>))
        (ps_jobs (s\<lparr>ps_jobs := map (\<lambda>j. if jb_phase j = Queued then put Eos j else j) (ps_jobs s)\<rparr>) ! i) \<and>
      job_place (ps_flag (s\<lparr>ps_jobs := map (\<lambda>j. if jb_phase j = Queued then put Eos j else j) (ps_jobs s)\<rparr>))
        (ps_phase (s\<lparr>ps_jobs := map (\<lambda>j. if jb_phase j = Queued then put Eos j else j) (ps_jobs s)\<rparr>) = Streaming) (ps_cur s) i
        (ps_jobs (s\<lparr>ps_jobs := map (\<lambda>j. if jb_phase j = Queued then put Eos j else j) (ps_jobs s)\<rparr>) ! i)"
    by auto
qed simp_all

text \<open>The owner takes the head of the current queue.\<close>

definition popped :: "pstream \<Rightarrow> pstream" where
  "popped s = s\<lparr>ps_jobs := (ps_jobs s)[ps_cur s := pop (ps_mode s) (ps_jobs s ! ps_cur s)]\<rparr>"

lemma popped_core:
  assumes inv: "flow_inv s" and st: "ps_phase s = Streaming"
    and t: "ps_window t = ps_window s" "ps_n t = ps_n s" "ps_mode t = ps_mode s" "ps_flag t = ps_flag s" "ps_jobs t = ps_jobs (popped s)"
    and cur: "ps_cur t = ps_cur s \<or> ps_cur t = Suc (ps_cur s)"
    and place: "job_place (ps_flag s) (ps_phase t = Streaming) (ps_cur t) (ps_cur s) (pop (ps_mode s) (ps_jobs s ! ps_cur s))"
    and sent: "\<exists>d. ps_sent t = ps_sent s @ handed_on (ps_mode s) d \<and> jb_taken (pop (ps_mode s) (ps_jobs s ! ps_cur s)) = jb_taken (ps_jobs s ! ps_cur s) @ d"
  shows "flow_core t"
proof -
  let ?k = "ps_cur s" and ?g = "\<lambda>j. handed_on (ps_mode s) (jb_taken j)"
  have k: "?k < length (ps_jobs s)" using inv st by (simp add: flow_inv_def flow_core_def)
  from sent obtain d where d: "ps_sent t = ps_sent s @ handed_on (ps_mode s) d"
    "jb_taken (pop (ps_mode s) (ps_jobs s ! ?k)) = jb_taken (ps_jobs s ! ?k) @ d" by blast
  have later: "?g (ps_jobs s ! i) = []" if "?k < i" "i < length (ps_jobs s)" for i
    using flow_inv_jobs(3) [OF inv that(2,1)] by simp
  have "ps_sent t = concat (map ?g (ps_jobs t))"
    using concat_at [where g = ?g, OF k later] inv d by (simp add: flow_inv_def flow_core_def t popped_def)
  moreover have "job_ok (ps_flag t) (ps_jobs t ! i) \<and> job_place (ps_flag t) (ps_phase t = Streaming) (ps_cur t) i (ps_jobs t ! i)"
    if i: "i < length (ps_jobs s)" for i
  proof (cases "i = ?k")
    case True
    with place k pop_ok [OF flow_inv_jobs(1) [OF inv k]] show ?thesis by (simp add: t popped_def)
  next
    case False
    have "job_place (ps_flag s) True ?k i (ps_jobs s ! i)" using flow_inv_jobs(2) [OF inv i] st by simp
    then have "job_place (ps_flag s) (ps_phase t = Streaming) (ps_cur t) i (ps_jobs s ! i)"
      using False cur by (cases "ps_phase t = Streaming") (auto intro: job_place_Suc job_place_stop job_place_stop [OF job_place_Suc])
    with flow_inv_jobs(1) [OF inv i] False show ?thesis by (simp add: t popped_def)
  qed
  moreover have "length (ps_jobs t) = length (ps_jobs s)" by (simp add: t popped_def)
  ultimately show ?thesis using inv k cur st by (auto simp: flow_inv_def flow_core_def t)
qed

lemma popped_flow:
  assumes inv: "flow_inv s" and st: "ps_phase s = Streaming"
    and t: "ps_window t = ps_window s" "ps_n t = ps_n s" "ps_mode t = ps_mode s" "ps_flag t = ps_flag s" "ps_jobs t = ps_jobs (popped s)"
      "ps_cur t = ps_cur s"
    and place: "job_place (ps_flag s) (ps_phase t = Streaming) (ps_cur s) (ps_cur s) (pop (ps_mode s) (ps_jobs s ! ps_cur s))"
    and sent: "\<exists>d. ps_sent t = ps_sent s @ handed_on (ps_mode s) d \<and> jb_taken (pop (ps_mode s) (ps_jobs s ! ps_cur s)) = jb_taken (ps_jobs s ! ps_cur s) @ d"
  shows "flow_inv t"
  using popped_core [OF inv st t(1-5) _ _ sent] t(6) place inv st by (simp add: flow_inv_def t(5)) (simp add: popped_def)

lemma owner_take_flow:
  assumes inv: "flow_inv s" and st: "ps_phase s = Streaming"
  shows "flow_inv (owner_take s)"
proof -
  let ?k = "ps_cur s" and ?j = "ps_jobs s ! ps_cur s"
  have k: "?k < length (ps_jobs s)" using inv st by (simp add: flow_inv_def flow_core_def)
  have place: "job_place (ps_flag s) True ?k ?k ?j" using flow_inv_jobs(2) [OF inv k] st by simp
  have pp: "ps_phase (popped s) = Streaming" "ps_mode (popped s) = ps_mode s" "ps_flag (popped s) = ps_flag s" "ps_cur (popped s) = ?k"
    "ps_n (popped s) = ps_n s" "ps_window (popped s) = ps_window s" "ps_sent (popped s) = ps_sent s"
    "length (ps_jobs (popped s)) = length (ps_jobs s)"
    using st by (simp_all add: popped_def)
  show ?thesis
  proof (cases "jb_queue ?j")
    case Nil
    with inv show ?thesis by (simp add: owner_take_def)
  next
    case (Cons i q)
    have halt: "flow_inv (abort_with x (popped s))" if "\<forall>c. i = Audio c \<longrightarrow> refused (ps_mode s) c" for x
    proof (rule popped_flow [OF inv st])
      have "jb_taken (pop (ps_mode s) ?j) = jb_taken ?j" using Cons that by (cases i) (simp_all add: pop_def)
      then show "\<exists>d. ps_sent (abort_with x (popped s)) = ps_sent s @ handed_on (ps_mode s) d \<and>
          jb_taken (pop (ps_mode s) ?j) = jb_taken ?j @ d" by (intro exI [of _ "[]"]) (simp add: abort_with_def pp)
    qed (use pop_halt [OF place Cons that] in \<open>simp_all add: abort_with_def pp\<close>)
    have took: "owner_take s =
      (case i of Eos \<Rightarrow> next_sentence (popped s) | Fault x \<Rightarrow> abort_with (Some x) (popped s)
       | NonBinary \<Rightarrow> abort_with (Some (case ps_mode s of Pipelined \<Rightarrow> PyExc ''AttributeError'' None ''encode''
            | CloneStream \<Rightarrow> bad_audio ''TTS backend returned a non-binary PCM chunk'')) (popped s)
       | Audio c \<Rightarrow> take_audio c (popped s))"
      unfolding owner_take_def Let_def popped_def by (simp add: Cons)
    show ?thesis
    proof (cases i)
      case NonBinary
      with took halt show ?thesis by simp
    next
      case (Fault x)
      with took halt show ?thesis by simp
    next
      case (Audio c)
      note a = pop_audio [OF place, unfolded Cons Audio, OF refl]
      show ?thesis
      proof (cases "ps_mode s")
        case Pipelined
        then have nr: "\<not> refused (ps_mode s) c" by (simp add: refused_def)
        have del: "flow_inv (deliver c (popped s))"
        proof (rule popped_flow [OF inv st])
          show "\<exists>d. ps_sent (deliver c (popped s)) = ps_sent s @ handed_on (ps_mode s) d \<and> jb_taken (pop (ps_mode s) ?j) = jb_taken ?j @ d"
            using a(2) [OF nr] Pipelined by (intro exI [of _ "[c]"]) (simp add: deliver_def pp)
        qed (use a(1) [OF nr] in \<open>simp_all add: deliver_def pp\<close>)
        have mp: "maybe_prefetch (deliver c s') = deliver c (maybe_prefetch s')" for s'
          by (simp add: maybe_prefetch_def deliver_def)
        have first: "flow_inv (deliver c (t\<lparr>ps_first := True\<rparr>))" if "flow_inv (deliver c t)" for t
          by (rule flow_inv_same [OF that]) (simp_all add: deliver_def)
        show ?thesis
          using took Audio first [OF del] first [of "maybe_prefetch (popped s)"] maybe_prefetch_flow [OF del] Pipelined
          by (simp add: take_audio_def pp mp)
      next
        case CloneStream
        consider "c = []" | "c \<noteq> []" "length c mod 2 \<noteq> 0" | "c \<noteq> []" "length c mod 2 = 0" by blast
        then show ?thesis
        proof cases
          case 1
          then have nr: "\<not> refused (ps_mode s) c" by (simp add: refused_def)
          have "flow_inv (popped s)"
          proof (rule popped_flow [OF inv st])
            show "\<exists>d. ps_sent (popped s) = ps_sent s @ handed_on (ps_mode s) d \<and> jb_taken (pop (ps_mode s) ?j) = jb_taken ?j @ d"
              using a(2) [OF nr] CloneStream 1 by (intro exI [of _ "[c]"]) (simp add: pp)
          qed (use a(1) [OF nr] in \<open>simp_all add: pp\<close>)
          with took Audio CloneStream 1 show ?thesis by (simp add: take_audio_def pp)
        next
          case 2
          with took Audio CloneStream halt show ?thesis by (simp add: take_audio_def pp refused_def)
        next
          case 3
          then have nr: "\<not> refused (ps_mode s) c" by (simp add: refused_def)
          have "flow_inv (deliver c (popped s))"
          proof (rule popped_flow [OF inv st])
            show "\<exists>d. ps_sent (deliver c (popped s)) = ps_sent s @ handed_on (ps_mode s) d \<and> jb_taken (pop (ps_mode s) ?j) = jb_taken ?j @ d"
              using a(2) [OF nr] CloneStream 3 by (intro exI [of _ "[c]"]) (simp add: deliver_def pp)
          qed (use a(1) [OF nr] in \<open>simp_all add: deliver_def pp\<close>)
          with took Audio CloneStream 3 show ?thesis by (simp add: take_audio_def pp)
        qed
      qed
    next
      case Eos
      note e = pop_eos [OF place flow_inv_jobs(1) [OF inv k], unfolded Cons Eos, OF refl]
      have sent: "\<exists>d. ps_sent s = ps_sent s @ handed_on (ps_mode s) d \<and> jb_taken (pop (ps_mode s) ?j) = jb_taken ?j @ d"
        using e(2) by (intro exI [of _ "[]"]) simp
      have len: "length (ps_jobs s) \<le> ps_n s" "0 < ps_window s" using inv by (simp_all add: flow_inv_def flow_core_def)
      show ?thesis
      proof (cases "Suc ?k = ps_n s \<or> ps_flag s")
        case True
        then have "maybe_prefetch (popped s) = popped s" using len k by (auto simp: maybe_prefetch_def pp)
        moreover have "flow_core (abort_with None ((popped s)\<lparr>ps_cur := Suc ?k, ps_first := False\<rparr>))"
          by (rule popped_core [OF inv st]) (use job_place_stop [OF e(1)] sent in \<open>simp_all add: abort_with_def pp\<close>)
        ultimately show ?thesis
          using took Eos True by (simp add: next_sentence_def pp Let_def flow_inv_def) (simp add: abort_with_def)
      next
        case False
        define v where "v = (popped s)\<lparr>ps_cur := Suc ?k, ps_first := False\<rparr>"
        have v: "flow_core v" unfolding v_def
          by (rule popped_core [OF inv st]) (use e(1) sent in \<open>simp_all add: pp\<close>)
        have vs: "ps_jobs v = ps_jobs (popped s)" "ps_cur v = Suc ?k" "ps_n v = ps_n s" "ps_window v = ps_window s" by (simp_all add: v_def pp)
        have n: "next_sentence (popped s) = (maybe_prefetch (popped s))\<lparr>ps_cur := Suc ?k, ps_first := False\<rparr>"
          using False by (simp add: next_sentence_def pp Let_def)
        show ?thesis
        proof (cases "length (ps_jobs s) < ps_n s \<and> prefetch_window_allows (length (ps_jobs s)) ?k (ps_window s)")
          case True
          then have w: "length (ps_jobs s) \<le> ?k + ps_window s" by (simp add: prefetch_window_allows_def)
          have "next_sentence (popped s) = v\<lparr>ps_jobs := ps_jobs v @ [new_job]\<rparr>"
            using True False by (simp add: n maybe_prefetch_def pp v_def)
          moreover have "flow_core (v\<lparr>ps_jobs := ps_jobs v @ [new_job]\<rparr>)"
            using True w by (intro add_job_core [OF v]) (simp_all add: vs pp)
          ultimately show ?thesis using took Eos k by (simp add: flow_inv_def vs pp)
        next
          case no: False
          then have "next_sentence (popped s) = v" by (auto simp: n maybe_prefetch_def pp v_def)
          moreover have "Suc ?k < length (ps_jobs s)"
            using no False len k by (auto simp: prefetch_window_allows_def)
          ultimately show ?thesis using took Eos v by (simp add: flow_inv_def vs pp)
        qed
      qed
    qed
  qed
qed

lemma stream_step_flow:
  assumes inv: "flow_inv s"
  shows "flow_inv (stream_step s e)"
proof (cases e)
  case (Job i je)
  show ?thesis
  proof (cases "i < length (ps_jobs s)")
    case True
    have "flow_inv (s\<lparr>ps_jobs := (ps_jobs s)[i := job_step (ps_mode s) (ps_flag s) je (ps_jobs s ! i)], ps_log := l\<rparr>)" for l
    proof (rule flow_inv_frame [OF inv])
      fix k assume k: "k < length (ps_jobs s)"
      let ?j' = "job_step (ps_mode s) (ps_flag s) je (ps_jobs s ! i)"
      note j = flow_inv_jobs(1,2) [OF inv k] flow_inv_jobs(1,2) [OF inv True]
      have taken: "jb_taken ?j' = jb_taken (ps_jobs s ! i)"
        using job_step_cases [of "ps_mode s" "ps_flag s" je "ps_jobs s ! i"]
        by (elim disjE conjE exE) (simp_all add: job_call_effect job_next_effect)
      show "jb_taken (ps_jobs (s\<lparr>ps_jobs := (ps_jobs s)[i := ?j'], ps_log := l\<rparr>) ! k) = jb_taken (ps_jobs s ! k) \<and>
          job_ok (ps_flag (s\<lparr>ps_jobs := (ps_jobs s)[i := ?j'], ps_log := l\<rparr>)) (ps_jobs (s\<lparr>ps_jobs := (ps_jobs s)[i := ?j'], ps_log := l\<rparr>) ! k) \<and>
          job_place (ps_flag (s\<lparr>ps_jobs := (ps_jobs s)[i := ?j'], ps_log := l\<rparr>))
            (ps_phase (s\<lparr>ps_jobs := (ps_jobs s)[i := ?j'], ps_log := l\<rparr>) = Streaming) (ps_cur s) k
            (ps_jobs (s\<lparr>ps_jobs := (ps_jobs s)[i := ?j'], ps_log := l\<rparr>) ! k)"
        using j k taken job_step_ok [OF j(3)] job_place_step [OF j(4,3)] by (cases "k = i") simp_all
    qed simp_all
    with Job True show ?thesis by simp
  qed (use inv Job in simp)
next
  case OwnerTake
  with inv owner_take_flow show ?thesis by simp
next
  case OwnerAbort
  with inv abort_flow show ?thesis by simp
next
  case OwnerUnwind
  have "flow_inv (s\<lparr>ps_flag := True, ps_phase := Returned\<rparr>)" by (rule flow_inv_same [OF inv]) simp_all
  with OwnerUnwind inv show ?thesis
    by (auto simp: owner_unwind_def Let_def intro!: start_cleanup_flow close_gens_flow split: smode.split)
next
  case CancelRequest
  with flag_flow [OF inv] show ?thesis by simp
next
  case Disconnect
  let ?s = "s\<lparr>ps_flag := True\<rparr>"
  have "flow_inv (?s\<lparr>ps_jobs := map (\<lambda>j. if jb_phase j = Queued then put Eos j else j) (ps_jobs s)\<rparr>)"
    using wake_flow [OF flag_flow [OF inv]] by simp
  with Disconnect flag_flow [OF inv] show ?thesis
    by (auto simp: disconnect_def Let_def intro!: start_cleanup_flow close_gens_flow split: smode.split)
next
  case CleanupSnapshot
  have "flow_inv (snapshot_jobs s)" by (rule flow_inv_same [OF inv]) (simp_all add: snapshot_jobs_def)
  with inv CleanupSnapshot show ?thesis by simp
next
  case CleanupRelease
  have "flow_inv (release_resources s)" by (rule flow_inv_same [OF inv]) (simp_all add: release_resources_def)
  with inv CleanupRelease show ?thesis by (simp split: cphase.split)
qed

interpretation flow: inv_machine stream_step flow_inv
  by unfold_locales (rule stream_step_flow)

lemma new_stream_flow: "0 < n \<Longrightarrow> 0 < window \<Longrightarrow> flow_inv (new_stream mode n window)"
  by (simp add: flow_inv_def flow_core_def new_stream_def new_job_ok) (simp add: new_job_def)

text \<open>The serial result: the audio of the sentences in order, each in full. \<open>made\<close> is what the jobs put.\<close>

definition serial_audio :: "pstream \<Rightarrow> nat list list" where
  "serial_audio s = concat (map (\<lambda>j. handed_on (ps_mode s) (jb_made j)) (ps_jobs s))"

lemma prefix_handed_on: "prefix p q \<Longrightarrow> prefix (handed_on m p) (handed_on m q)"
  by (auto simp: prefix_def)

lemma sent_is_serial:
  assumes "flow_inv s"
  shows "prefix (ps_sent s) (serial_audio s)" and "ps_cur s = length (ps_jobs s) \<Longrightarrow> ps_sent s = serial_audio s"
proof -
  let ?g = "\<lambda>j. handed_on (ps_mode s) (jb_taken j)" and ?h = "\<lambda>j. handed_on (ps_mode s) (jb_made j)" and ?k = "ps_cur s"
  have sent: "ps_sent s = concat (map ?g (ps_jobs s))" using assms by (simp add: flow_inv_def flow_core_def)
  have eq: "map ?g (take ?k (ps_jobs s)) = map ?h (take ?k (ps_jobs s))"
    using flow_inv_jobs(2) [OF assms] by (intro nth_equalityI) (auto simp: job_place_def)
  show "ps_sent s = serial_audio s" if "?k = length (ps_jobs s)"
    using arg_cong [OF eq, of concat] that by (simp add: sent serial_audio_def)
  show "prefix (ps_sent s) (serial_audio s)"
  proof (cases "?k < length (ps_jobs s)")
    case True
    have "ps_sent s = concat (map ?h (take ?k (ps_jobs s))) @ ?g (ps_jobs s ! ?k)"
      unfolding sent using concat_at(2) [where g = ?g, OF True] flow_inv_jobs(3) [OF assms] eq by simp
    moreover have "prefix (?g (ps_jobs s ! ?k)) (?h (ps_jobs s ! ?k))"
      using flow_inv_jobs(2) [OF assms True] by (intro prefix_handed_on) (simp add: job_place_def)
    moreover have "serial_audio s = concat (map ?h (take ?k (ps_jobs s))) @ ?h (ps_jobs s ! ?k) @ concat (map ?h (drop (Suc ?k) (ps_jobs s)))"
      unfolding serial_audio_def by (subst id_take_nth_drop [OF True]) (simp del: append_take_drop_id)
    ultimately show ?thesis by (auto simp: prefix_def)
  next
    case False
    then have "?k = length (ps_jobs s)" using assms by (simp add: flow_inv_def flow_core_def)
    with arg_cong [OF eq, of concat] show ?thesis by (simp add: sent serial_audio_def)
  qed
qed

lemma stream_step_n:
  "ps_n (stream_step s e) = ps_n s"
  "ps_window (stream_step s e) = ps_window s"
proof -
  show "ps_n (stream_step s e) = ps_n s"
    by (cases e)
      (auto simp: owner_take_def next_sentence_def take_audio_def deliver_def abort_with_def owner_unwind_def start_cleanup_def close_gens_def
        disconnect_def snapshot_jobs_def release_resources_def Let_def split: list.split item.split smode.split cphase.split)
  show "ps_window (stream_step s e) = ps_window s"
    by (cases e)
      (auto simp: owner_take_def next_sentence_def take_audio_def deliver_def abort_with_def owner_unwind_def start_cleanup_def close_gens_def
        disconnect_def snapshot_jobs_def release_resources_def Let_def split: list.split item.split smode.split cphase.split)
qed

lemma run_flow:
  assumes "0 < n" and "0 < window"
  shows "flow_inv (foldl stream_step (new_stream mode n window) es)" "ps_n (foldl stream_step (new_stream mode n window) es) = n"
proof -
  show "flow_inv (foldl stream_step (new_stream mode n window) es)" by (rule flow.run_inv [OF new_stream_flow [OF assms]])
  have "ps_n (foldl stream_step (new_stream mode n window) es) = ps_n (new_stream mode n window)"
    by (rule flow.run_const [where f = ps_n, OF stream_step_n(1) new_stream_flow [OF assms]])
  then show "ps_n (foldl stream_step (new_stream mode n window) es) = n" by (simp add: new_stream_def)
qed

text \<open>C10: The pipeline does not show: whatever the interleaving, the client gets a prefix of what the sentences
  would give one after the other, and all of it once the owner has passed the last sentence.\<close>

theorem pipelined_equals_serial:
  assumes "0 < n" and "0 < window" and "s = foldl stream_step (new_stream mode n window) es"
  shows "prefix (ps_sent s) (serial_audio s) \<and> (ps_cur s = n \<longrightarrow> length (ps_jobs s) = n \<and> ps_sent s = serial_audio s)"
proof -
  have inv: "flow_inv s" "ps_n s = n" unfolding assms(3) using run_flow [OF assms(1,2)] by simp_all
  then have "length (ps_jobs s) = n" if "ps_cur s = n" using that by (simp add: flow_inv_def flow_core_def)
  with sent_is_serial [OF inv(1)] show ?thesis by simp
qed

text \<open>The owner never waits for a sentence that nobody synthesises: the one it drains was submitted, and as long
  as nothing is in its queue, its worker has not come to an end. And never are more sentences in flight
  ahead of it than the window allows.\<close>

theorem owner_never_stuck:
  assumes "0 < n" and "s = foldl stream_step (new_stream mode n (prefetch_max configured n)) es" and "ps_phase s = Streaming"
  shows "ps_cur s < length (ps_jobs s) \<and> length (ps_jobs s) \<le> ps_cur s + 1 + prefetch_max configured n \<and>
    (jb_queue (ps_jobs s ! ps_cur s) \<noteq> [] \<or> jb_phase (ps_jobs s ! ps_cur s) \<notin> {Ending, Gone})"
proof -
  have w: "0 < prefetch_max configured n" by (simp add: prefetch_max_def)
  have inv: "flow_inv s" unfolding assms(2) by (rule run_flow(1) [OF assms(1) w])
  from flow.run_const [where f = ps_window, OF stream_step_n(2) new_stream_flow [OF assms(1) w]] have win: "ps_window s = prefetch_max configured n"
    unfolding assms(2) by (simp add: new_stream_def)
  have k: "ps_cur s < length (ps_jobs s)" using inv assms(3) by (simp add: flow_inv_def)
  have "length (ps_jobs s) \<le> ps_cur s + 1 + prefetch_max configured n"
    using inv unfolding flow_inv_def flow_core_def win by blast
  moreover have "jb_queue (ps_jobs s ! ps_cur s) \<noteq> []" if "jb_phase (ps_jobs s ! ps_cur s) \<in> {Ending, Gone}"
  proof -
    have "Eos \<in> set (jb_queue (ps_jobs s ! ps_cur s))"
      using flow_inv_jobs(2) [OF inv k] assms(3) that unfolding job_place_def by blast
    then show ?thesis by auto
  qed
  ultimately show ?thesis using k by blast
qed

subsection \<open>The leases come back\<close>

text \<open>What a worker that was started still has to do once the stream is cancelled, with a backend that ends its
  generator.\<close>

definition drive :: "jevent list" where
  "drive = [Check, Call (Opens None), Next Ends, Close, Finish, End]"

lemma drive_gone:
  "jb_phase j \<noteq> Queued \<Longrightarrow> jb_phase (foldl (\<lambda>j e. job_step m True e j) j drive) = Gone"
  by (cases "jb_phase j") (simp_all add: drive_def job_step_def job_call_def job_next_def)

lemma run_job:
  "i < length (ps_jobs s) \<Longrightarrow>
    ps_jobs (foldl stream_step s (map (Job i) es)) = (ps_jobs s)[i := foldl (\<lambda>j e. job_step (ps_mode s) (ps_flag s) e j) (ps_jobs s ! i) es] \<and>
    ps_flag (foldl stream_step s (map (Job i) es)) = ps_flag s \<and> ps_cleanup (foldl stream_step s (map (Job i) es)) = ps_cleanup s"
  by (induction es arbitrary: s) simp_all

definition drive_all :: "nat \<Rightarrow> sevent list" where
  "drive_all n = concat (map (\<lambda>i. map (Job i) drive) [0..<n])"

lemma run_all:
  assumes "ps_flag s" and "n \<le> length (ps_jobs s)"
  shows "ps_flag (foldl stream_step s (drive_all n)) \<and> ps_cleanup (foldl stream_step s (drive_all n)) = ps_cleanup s \<and>
    length (ps_jobs (foldl stream_step s (drive_all n))) = length (ps_jobs s) \<and>
    (\<forall>i < length (ps_jobs s). jb_phase (ps_jobs s ! i) \<noteq> Queued \<longrightarrow>
       (if i < n then jb_phase (ps_jobs (foldl stream_step s (drive_all n)) ! i) = Gone
        else ps_jobs (foldl stream_step s (drive_all n)) ! i = ps_jobs s ! i))"
  using assms(2)
proof (induction n)
  case 0
  then show ?case using assms(1) by (simp add: drive_all_def)
next
  case (Suc n)
  define t where "t = foldl stream_step s (drive_all n)"
  from Suc have t: "ps_flag t" "ps_cleanup t = ps_cleanup s" "length (ps_jobs t) = length (ps_jobs s)"
    "\<And>i. i < length (ps_jobs s) \<Longrightarrow> jb_phase (ps_jobs s ! i) \<noteq> Queued \<Longrightarrow>
       if i < n then jb_phase (ps_jobs t ! i) = Gone else ps_jobs t ! i = ps_jobs s ! i"
    by (simp_all add: t_def)
  have next': "foldl stream_step s (drive_all (Suc n)) = foldl stream_step t (map (Job n) drive)"
    by (simp add: drive_all_def t_def)
  have n: "n < length (ps_jobs t)" using Suc.prems t(3) by simp
  note r = run_job [OF n, of drive]
  show ?case
    unfolding next' using r t n drive_gone [of "ps_jobs t ! n" "ps_mode t"]
    by (auto simp: nth_list_update less_Suc_eq)
qed

lemma phase_moves: "jb_phase j \<noteq> Queued \<Longrightarrow> jb_phase (job_step m f e j) \<noteq> Queued"
  using job_step_cases [of m f e j]
  by (elim disjE conjE exE) (auto simp: job_call_def job_next_def split: called.splits pulled.splits option.splits)

definition waited_started :: "pstream \<Rightarrow> bool" where
  "waited_started s \<longleftrightarrow> (ps_phase s = Returned \<longrightarrow> ps_cleanup s \<noteq> NotStarted) \<and>
     (\<forall>js. ps_cleanup s = Waiting js \<longrightarrow> (\<forall>i \<in> set js. i < length (ps_jobs s) \<and> jb_phase (ps_jobs s ! i) \<noteq> Queued))"

lemma waited_frame:
  assumes "waited_started s" and "ps_cleanup t = ps_cleanup s" and "ps_phase t = Returned \<longrightarrow> ps_phase s = Returned"
    and "length (ps_jobs s) \<le> length (ps_jobs t)"
    and "\<And>i. i < length (ps_jobs s) \<Longrightarrow> jb_phase (ps_jobs s ! i) \<noteq> Queued \<Longrightarrow> jb_phase (ps_jobs t ! i) \<noteq> Queued"
  shows "waited_started t"
  using assms unfolding waited_started_def by (metis order_less_le_trans)

lemma owner_take_waited:
  assumes "waited_started s" and "ps_phase s = Streaming"
  shows "waited_started (owner_take s)"
proof (cases "jb_queue (ps_jobs s ! ps_cur s)")
  case Nil
  with assms show ?thesis by (simp add: owner_take_def)
next
  case (Cons i q)
  have same: "jb_phase ((ps_jobs s)[k := pop m (ps_jobs s ! k)] ! j) = jb_phase (ps_jobs s ! j)" for j k m
    by (cases "k < length (ps_jobs s)"; cases "j = k") (simp_all add: nth_list_update list_update_beyond not_less)
  show ?thesis
    by (rule waited_frame [OF assms(1)])
      (auto simp: assms(2) owner_take_def Cons Let_def next_sentence_def abort_with_def take_audio_def deliver_def maybe_prefetch_def same nth_append
        split: item.split smode.split if_splits)
qed

lemma close_gens_waited: "waited_started s \<Longrightarrow> waited_started (close_gens s)"
  by (rule waited_frame [of s]) (simp_all add: close_gens_def close_gen_def)

lemma start_waited: "waited_started s \<Longrightarrow> waited_started (start_cleanup s)"
  by (simp add: waited_started_def start_cleanup_def)

lemma stream_step_waited:
  assumes inv: "waited_started s"
  shows "waited_started (stream_step s e)"
proof (cases e)
  case (Job i je)
  with inv show ?thesis
    by (auto intro!: waited_frame [OF inv] simp: nth_list_update phase_moves split: if_splits)
next
  case OwnerTake
  with inv owner_take_waited show ?thesis by simp
next
  case OwnerAbort
  with inv show ?thesis by (auto simp: abort_with_def intro: waited_frame [OF inv])
next
  case OwnerUnwind
  have "waited_started (start_cleanup (s\<lparr>ps_flag := True, ps_phase := Returned\<rparr>))"
    using inv by (auto simp: waited_started_def start_cleanup_def)
  moreover have "start_cleanup (close_gens t) = close_gens (start_cleanup t)" for t
    by (simp add: start_cleanup_def close_gens_def)
  ultimately show ?thesis
    using inv OwnerUnwind close_gens_waited by (auto simp: owner_unwind_def Let_def split: smode.split)
next
  case CancelRequest
  with inv show ?thesis by (auto intro: waited_frame [OF inv])
next
  case Disconnect
  have "waited_started (s\<lparr>ps_flag := True\<rparr>)" by (rule waited_frame [OF inv]) simp_all
  moreover have "waited_started (s\<lparr>ps_flag := True, ps_jobs := map (\<lambda>j. if jb_phase j = Queued then put Eos j else j) (ps_jobs s)\<rparr>)"
    by (rule waited_frame [OF inv]) simp_all
  ultimately show ?thesis
    using Disconnect by (auto simp: disconnect_def Let_def intro!: close_gens_waited start_waited split: smode.split)
next
  case CleanupSnapshot
  with inv show ?thesis by (simp add: waited_started_def snapshot_jobs_def)
next
  case CleanupRelease
  with inv show ?thesis by (auto simp: waited_started_def release_resources_def split: cphase.split)
qed

interpretation waits: inv_machine stream_step waited_started
  by unfold_locales (rule stream_step_waited)

text \<open>C31: Jobs that are still in the executor's queue do not hold the leases, and nothing else can keep them for
  good: from every state a stream can reach, they are given back as soon as the owner has ended and the
  workers that had started have done what is left to them.\<close>

theorem leases_return:
  assumes "s = foldl stream_step (new_stream mode n window) es"
  shows "ps_cleanup (foldl stream_step s
    ([OwnerAbort, OwnerUnwind, CleanupSnapshot] @ drive_all (length (ps_jobs s)) @ [CleanupRelease])) = Released"
proof -
  define t where "t = foldl stream_step s [OwnerAbort, OwnerUnwind, CleanupSnapshot]"
  have inv: "waited_started s" "lease_inv s"
    unfolding assms by (rule waits.run_inv, simp add: waited_started_def new_stream_def,
      rule leases.run_inv, simp add: lease_inv_def new_stream_def)
  then have t_inv: "waited_started t" "lease_inv t"
    unfolding t_def using waits.run_inv leases.run_inv by blast+
  have abort: "ps_phase (stream_step s OwnerAbort) \<noteq> Streaming" "ps_jobs (stream_step s OwnerAbort) = ps_jobs s" by (simp_all add: abort_with_def)
  have unwound: "ps_cleanup (foldl stream_step s [OwnerAbort, OwnerUnwind]) \<noteq> NotStarted"
    using abort(1) waits.run_inv [OF inv(1), of "[OwnerAbort]"]
    by (cases "ps_phase (stream_step s OwnerAbort)")
      (auto simp: owner_unwind_def start_cleanup_def Let_def waited_started_def split: smode.split)
  have len: "length (ps_jobs t) = length (ps_jobs s)"
    by (auto simp: t_def abort_with_def owner_unwind_def start_cleanup_def close_gens_def snapshot_jobs_def Let_def split: smode.split)
  have ct: "ps_cleanup t = Released \<or> (\<exists>js. ps_cleanup t = Waiting js)"
    using unwound unfolding t_def by (cases "ps_cleanup (foldl stream_step s [OwnerAbort, OwnerUnwind])") (auto simp: snapshot_jobs_def)
  then have flag: "ps_flag t" using t_inv(2) unfolding lease_inv_def by auto
  define u where "u = foldl stream_step t (drive_all (length (ps_jobs s)))"
  note r = run_all [OF flag, of "length (ps_jobs s)", unfolded len, OF order_refl, folded u_def]
  have "ps_cleanup (stream_step u CleanupRelease) = Released"
  proof (cases "ps_cleanup t = Released")
    case True
    with r show ?thesis by simp
  next
    case False
    with ct obtain js where js: "ps_cleanup t = Waiting js" by blast
    have "list_all (\<lambda>i. jb_phase (ps_jobs u ! i) = Gone) js"
      using js t_inv(1) r unfolding waited_started_def list_all_iff len by auto
    with js r show ?thesis by (simp add: release_resources_def)
  qed
  then show ?thesis by (simp add: u_def t_def)
qed

text \<open>Two sentences with a window of one; the second is submitted when the first has given its first chunk, and
  the client leaves while the second is read.\<close>

definition demo_run :: "sevent list" where
  "demo_run =
     map (Job 0) [Start, Check, Call (Opens None), Next (Yields (Some [7, 0])), Next Ends, Close, Finish, End] @ [OwnerTake] @
     map (Job 1) [Start, Check, Call (Opens None), Next (Yields (Some [9, 0]))] @ [OwnerTake, OwnerTake]"

definition demo_rest :: "sevent list" where
  "demo_rest = map (Job 1) [Next (Yields (Some [5, 0])), Next Ends, Close, Finish, End] @ [OwnerTake, OwnerTake]"

theorem pipelined_equals_serial_witness:
  "ps_sent (foldl stream_step (new_stream Pipelined 2 1) (demo_run @ demo_rest)) = [[7, 0], [9, 0], [5, 0]] \<and>
   serial_audio (foldl stream_step (new_stream Pipelined 2 1) (demo_run @ demo_rest)) = [[7, 0], [9, 0], [5, 0]]"
proof -
  let ?s = "foldl stream_step (new_stream Pipelined 2 1) (demo_run @ demo_rest)"
  have "ps_cur ?s = 2" "ps_sent ?s = [[7, 0], [9, 0], [5, 0]]" by code_simp+
  with pipelined_equals_serial [of 2 1 ?s Pipelined "demo_run @ demo_rest"] show ?thesis by simp
qed

theorem owner_never_stuck_witness:
  "ps_phase (foldl stream_step (new_stream Pipelined 2 (prefetch_max 1 2)) demo_run) = Streaming \<and>
   ps_cur (foldl stream_step (new_stream Pipelined 2 (prefetch_max 1 2)) demo_run) <
     length (ps_jobs (foldl stream_step (new_stream Pipelined 2 (prefetch_max 1 2)) demo_run))"
proof -
  have "ps_phase (foldl stream_step (new_stream Pipelined 2 (prefetch_max 1 2)) demo_run) = Streaming" by code_simp
  with owner_never_stuck [OF _ refl this] show ?thesis by simp
qed

theorem leases_return_witness:
  "ps_cleanup (foldl stream_step (foldl stream_step (new_stream Pipelined 2 1) demo_run)
    ([OwnerAbort, OwnerUnwind, CleanupSnapshot] @
     drive_all (length (ps_jobs (foldl stream_step (new_stream Pipelined 2 1) demo_run))) @ [CleanupRelease])) = Released"
  by (rule leases_return [OF refl])

end
