(* ===== verification/StreamOpening.thy ===== *)
theory StreamOpening
  imports TtsStream
begin

section \<open>Opening a synthesis stream\<close>

text \<open>
  What \<open>_v1_clone_stream_impl\<close> and \<open>tts_stream\<close> of \<^verbatim>\<open>server/main.py\<close> do before the first byte of audio goes
  out: they take the leases one after the other, and on every way out give back what they hold. The
  answers of everything they ask (limiter, manager, backend, splitter, coordinator) are a record. The
  leases held are a list; giving back a lease that is not held does nothing, as leaving an exhausted
  context manager or releasing a token twice does. Once the generator of the stream runs, its cleanup
  owns the leases (theory TtsStream): when priming fails, it has been started and gives them back.
\<close>

datatype manager_answer = StartFails exc | NoManager | Manager "exc option"
datatype prime_answer = FirstPcm | NoPcm | PrimeFails exc
datatype kwargs_answer = KwargsOk | CloneUnsupported | KwargsValueError string | KwargsRaise exc

record site =
  si_limiter :: "bool option"
  si_preload :: "exc option"
  si_manager :: manager_answer
  si_ready :: bool
  si_streaming :: bool
  si_split :: "(exc, nat) res"
  si_kwargs :: kwargs_answer
  si_prepare :: "exc option"
  si_rate :: "int option"
  si_coordinator :: "exc option"
  si_prime :: prime_answer

datatype reply = Rejected int string | HeaderOnly | StreamReply | Raised exc

definition drop :: "lease \<Rightarrow> lease list \<Rightarrow> lease list" where
  "drop l held = removeAll l held"

definition drop_all :: "lease list \<Rightarrow> lease list" where
  "drop_all held = drop SessionSlot (drop ManagerLease (drop CoordinatorLease held))"

text \<open>The session slot: \<open>None\<close> when the limiter refuses.\<close>

definition take_session :: "site \<Rightarrow> lease list option" where
  "take_session si =
     (case si_limiter si of None \<Rightarrow> Some [] | Some got \<Rightarrow> if got then Some [SessionSlot] else None)"

subsection \<open>The clone stream\<close>

definition not_ready :: exc where
  "not_ready = api_exc ''TTS backend is not ready'' 503 ''backend_not_ready'' None"

text \<open>The backend and the leases held once it is there, or what is raised.\<close>

definition enter_backend :: "site \<Rightarrow> lease list \<Rightarrow> exc option \<times> lease list" where
  "enter_backend si held =
     (case si_manager si of
        StartFails x \<Rightarrow> (Some x, held)
      | Manager None \<Rightarrow> (None, ManagerLease # held)
      | Manager (Some x) \<Rightarrow> (Some x, held)
      | NoManager \<Rightarrow> (if si_ready si then None else Some not_ready, held))"

definition first_failure :: "exc option list \<Rightarrow> exc option" where
  "first_failure xs = (case find (\<lambda>x. x \<noteq> None) xs of None \<Rightarrow> None | Some x \<Rightarrow> x)"

definition clone_checks :: "site \<Rightarrow> exc option" where
  "clone_checks si = first_failure
     [if si_streaming si then None else Some (api_exc ''the active backend does not support streaming'' 501 ''streaming_unavailable'' None),
      si_prepare si,
      if (case si_rate si of None \<Rightarrow> False | Some r \<Rightarrow> r > 0) then None
      else Some (api_exc ''active backend has no valid sample-rate contract'' 503 ''audio_contract_unavailable'' None),
      si_coordinator si]"

definition open_clone_stream :: "site \<Rightarrow> reply \<times> lease list" where
  "open_clone_stream si =
     (case take_session si of
        None \<Rightarrow> (Rejected 429 ''too_many_sessions'', [])
      | Some held \<Rightarrow>
          (case si_preload si of
             Some x \<Rightarrow> (Raised x, drop_all held)
           | None \<Rightarrow>
               (case enter_backend si held of
                  (Some x, held1) \<Rightarrow> (Raised x, drop_all held1)
                | (None, held1) \<Rightarrow>
                    (case clone_checks si of
                       Some x \<Rightarrow> (Raised x, drop_all held1)
                     | None \<Rightarrow>
                         (case si_prime si of
                            FirstPcm \<Rightarrow> (StreamReply, CoordinatorLease # held1)
                          | NoPcm \<Rightarrow> (Raised (api_exc ''TTS backend returned no PCM chunks'' 503 ''clone_stream_start_failed'' None), [])
                          | PrimeFails x \<Rightarrow> (Raised x, []))))))"

subsection \<open>The native stream\<close>

definition start_failed :: "exc \<Rightarrow> reply" where
  "start_failed x = (if is_pool_saturated x then Rejected 429 ''tts_backend_busy'' else Rejected 503 ''tts_stream_start_failed'')"

definition prime_reply :: "site \<Rightarrow> lease list \<Rightarrow> reply \<times> lease list" where
  "prime_reply si held =
     (case si_prime si of
        FirstPcm \<Rightarrow> (StreamReply, CoordinatorLease # held)
      | NoPcm \<Rightarrow> (start_failed (PyExc ''RuntimeError'' None ''TTS backend returned no PCM chunks''), [])
      | PrimeFails x \<Rightarrow> (if x = PyExc ''CancelledError'' None [] then Raised x else start_failed x, []))"

definition with_manager :: "site \<Rightarrow> exc option \<Rightarrow> lease list \<Rightarrow> reply \<times> lease list" where
  "with_manager si enter held =
     (case enter of
        Some x \<Rightarrow> (Raised x, drop SessionSlot held)
      | None \<Rightarrow>
          let held1 = ManagerLease # held in
          (case si_kwargs si of
             CloneUnsupported \<Rightarrow> (Rejected 400 ''voice_clone'', drop SessionSlot (drop ManagerLease held1))
           | KwargsValueError m \<Rightarrow> (Rejected 400 m, drop SessionSlot (drop ManagerLease held1))
           | KwargsRaise x \<Rightarrow> (Raised x, drop SessionSlot (drop ManagerLease held1))
           | KwargsOk \<Rightarrow>
               (case si_coordinator si of
                  Some x \<Rightarrow> (Raised x, drop SessionSlot (drop ManagerLease (drop SessionSlot (drop ManagerLease held1))))
                | None \<Rightarrow> prime_reply si held1)))"

text \<open>The path without a manager. Only the errors it expects of the voice selection are caught.\<close>

definition without_manager :: "site \<Rightarrow> lease list \<Rightarrow> reply \<times> lease list" where
  "without_manager si held =
     (case si_kwargs si of
        CloneUnsupported \<Rightarrow> (Rejected 400 ''voice_clone'', drop SessionSlot held)
      | KwargsValueError m \<Rightarrow> (Rejected 400 m, drop SessionSlot held)
      | KwargsRaise x \<Rightarrow> (Raised x, held)
      | KwargsOk \<Rightarrow>
          (case si_coordinator si of
             Some x \<Rightarrow> (Raised x, drop SessionSlot held)
           | None \<Rightarrow> prime_reply si held))"

definition open_tts_stream :: "site \<Rightarrow> reply \<times> lease list" where
  "open_tts_stream si =
     (case take_session si of
        None \<Rightarrow> (Rejected 429 ''too_many_sessions'', [])
      | Some held \<Rightarrow>
          (case si_manager si of
             StartFails x \<Rightarrow> (Raised x, drop SessionSlot held)
           | _ \<Rightarrow>
               if \<not> si_streaming si then (Rejected 501 ''streaming'', drop SessionSlot held)
               else (case si_split si of
                  Inl x \<Rightarrow> (Raised x, held)
                | Inr n \<Rightarrow>
                    if n = 0 then (HeaderOnly, drop SessionSlot held)
                    else (case si_manager si of
                            Manager enter \<Rightarrow> with_manager si enter held
                          | _ \<Rightarrow> without_manager si held))))"

subsection \<open>Nothing is kept\<close>

text \<open>The leases a running stream has, newest first.\<close>

definition stream_leases :: "site \<Rightarrow> lease list" where
  "stream_leases si =
     CoordinatorLease # (case si_manager si of Manager _ \<Rightarrow> [ManagerLease] | _ \<Rightarrow> []) @
     (case si_limiter si of None \<Rightarrow> [] | Some _ \<Rightarrow> [SessionSlot])"

definition settled_reply :: "site \<Rightarrow> reply \<times> lease list \<Rightarrow> bool" where
  "settled_reply si r = (if fst r = StreamReply then snd r = stream_leases si else snd r = [])"

lemma take_session_held: "take_session si = Some held \<Longrightarrow> held = (case si_limiter si of None \<Rightarrow> [] | Some _ \<Rightarrow> [SessionSlot])"
  by (auto simp: take_session_def split: option.splits if_splits)

lemmas drop_simps = drop_def drop_all_def settled_reply_def stream_leases_def

text \<open>Every way out of the opening of a clone stream gives back everything, but the one that hands all leases to
  the running stream.\<close>

theorem clone_opening_settled: "settled_reply si (open_clone_stream si)"
proof (cases "take_session si")
  case None
  then show ?thesis by (simp add: open_clone_stream_def settled_reply_def)
next
  case (Some held)
  then show ?thesis
    using take_session_held [OF Some]
    by (auto simp: open_clone_stream_def enter_backend_def drop_simps
        split: option.splits manager_answer.splits prime_answer.splits)
qed

text \<open>So does the native stream, if the sentence splitter does not raise and, without a manager, the voice
  selection raises only what the path expects.\<close>

lemma tts_opening_settled:
  assumes "is_ok (si_split si)" and "\<And>x. si_manager si = NoManager \<Longrightarrow> si_kwargs si \<noteq> KwargsRaise x"
  shows "settled_reply si (open_tts_stream si)"
proof (cases "take_session si")
  case None
  then show ?thesis by (simp add: open_tts_stream_def settled_reply_def)
next
  case (Some held)
  obtain n where "si_split si = Inr n" using assms(1) by (rule is_okE)
  with Some assms(2) take_session_held [OF Some] show ?thesis
    by (auto simp: open_tts_stream_def with_manager_def without_manager_def prime_reply_def start_failed_def drop_simps Let_def
        split: option.splits manager_answer.splits prime_answer.splits kwargs_answer.splits)
qed

text \<open>The two conditions are needed: the session slot is lost for good when the splitter raises, or when the
  voice table of a deployment without a manager is malformed.\<close>

definition demo_site :: site where
  "demo_site = \<lparr>si_limiter = Some True, si_preload = None, si_manager = NoManager, si_ready = True, si_streaming = True, si_split = Inr 1,
     si_kwargs = KwargsOk, si_prepare = None, si_rate = Some 24000, si_coordinator = None, si_prime = FirstPcm\<rparr>"

theorem native_opening_leaks:
  "open_tts_stream (demo_site\<lparr>si_kwargs := KwargsRaise x\<rparr>) = (Raised x, [SessionSlot]) \<and>
   open_tts_stream (demo_site\<lparr>si_split := Inl x\<rparr>) = (Raised x, [SessionSlot])"
  by (simp add: open_tts_stream_def demo_site_def take_session_def without_manager_def)

end
