(* ===== verification/Spec2Isabelle.thy ===== *)
theory Spec2Isabelle
  imports Metrics SessionLimiter CapabilityResolver AsrInferGate ProfileLoader ProfileSelect ApiAuth
    BackendManager Coordinator WorkerIO TextBuffers AsrSegmenter SegmentCommitter LlmAvailability Startup
    RealtimeEvents RealtimeProvider LeafComposition AgentSession ToolLoop V2vAdmission RealtimeProxy Base64 VoiceRegistry VoiceTables
    VoiceProfiles VadGate GpuWatchdog AgentText AgentConv AgentConvProps AgentMic ActionsStore Provision
    SpeechErrors SpeechRequests WavReference TtsStream StreamOpening
begin

text \<open>
  The development models the core logic of a local voice server and its voice agent. The server
  (\<^verbatim>\<open>src/server\<close>) loads a device profile into its environment, derives from the capabilities that
  its speech backends declare how many sessions and inferences it may run, admits connections under
  these limits, runs the requests on worker subprocesses and reloads backends while it serves. The
  realtime endpoint turns client events into segments of speech, text and audio. The agent
  (\<^verbatim>\<open>src/agent\<close>) holds the conversation, calls tools and watches the language model. Paths below are
  relative to \<^verbatim>\<open>src/\<close>.

  How the parts interact. \<open>apply_profile\<close> writes the environment; \<open>resolve\<close> reads it with the declared
  capabilities; \<open>startup\<close> builds from the result the session limiter, the coordinator and the inference
  gate. Every connection takes a token of the limiter (a voice session possibly by evicting a stale
  one), every request counts as in flight in the backend manager, enters the coordinator, takes a
  permit of the gate and reaches a worker through the multiplexer. The properties of the last sections
  of this theory state what this composition gives; the properties of single components stand in
  their theories.

  Common ground.
  \<^item> Prelude: results of fallible code (\<open>Inl\<close> the exception, \<open>Inr\<close> the value) with their bind, lists
    updated by index, the string methods of Python that are used, and two interfaces: \<open>inv_machine\<close>
    (a step function with an invariant) and \<open>admission\<close> (a machine that also keeps a count within a
    capacity). The step functions of the components are interpretations of them, so invariants of
    runs are not proved again.
  \<^item> Json: the values \<open>json.loads\<close> yields, dictionaries as item lists (the locale \<open>py_dict\<close> states what
    a lookup gives after an insert), truth values and conversions.
  \<^item> Metrics (\<^verbatim>\<open>server/core/metrics.py\<close>): the shadow counters and gauges.

  Configuration.
  \<^item> ProfileSelect (\<^verbatim>\<open>server/core/profile_selector.py\<close>, \<^verbatim>\<open>engine_resolver.py\<close>): device tier, preset
    table, the engine paths a profile exports.
  \<^item> ProfileLoader (\<^verbatim>\<open>server/core/profile_loader.py\<close>): \<open>apply_profile\<close> with template substitution, the
    snapshot of operator values and the bookkeeping of applied keys. The lemmas show that it refines
    an abstract specification of who owns a key, that a switch clears the previous profile, and that
    operator values survive.
  \<^item> LeafComposition (\<^verbatim>\<open>server/core/leaf_composition.py\<close>, \<^verbatim>\<open>composition_boot.py\<close>): the registry of
    provisioning leaves, expansion over their dependencies (\<open>function\<close> with a termination proof by the
    set of unvisited leaves), the validation of a composition against a device, equal to a declarative
    predicate, and the environment it writes.
  \<^item> CapabilityResolver (\<^verbatim>\<open>server/core/capability_resolver.py\<close>, \<^verbatim>\<open>concurrency_capability.py\<close>,
    \<^verbatim>\<open>diarization.py\<close>): ceilings, clamped overrides, coordinator mode, inference gate.
  \<^item> Provision (\<^verbatim>\<open>server/core/artifact_provision.py\<close>, \<^verbatim>\<open>moss_artifacts.py\<close>, \<^verbatim>\<open>edgellm_v090_artifacts.py\<close>,
    \<^verbatim>\<open>hf_artifacts.py\<close>): files fetched at start, as instructions on a file system of which a crash leaves a
    prefix; a working file is lost to no stale manifest, broken download or crash.
  \<^item> Startup (\<open>startup()\<close> of \<^verbatim>\<open>server/main.py\<close>): the part that builds the admission components.

  Admission and execution. Each theory models code of one event loop: a step is what runs between two
  awaits, a run is a list of steps, and cancellation is a step of its own.
  \<^item> SessionLimiter (\<^verbatim>\<open>server/core/session_limiter.py\<close>): tokens, the helpers of HTTP and WebSocket.
  \<^item> V2vAdmission (\<^verbatim>\<open>server/main.py\<close>): eviction of stale voice sessions and every way a session ends.
  \<^item> AsrInferGate (\<^verbatim>\<open>server/core/asr_infer_gate.py\<close>): permits and FIFO waiters with cancellation.
  \<^item> Coordinator (\<^verbatim>\<open>server/core/coordinator.py\<close>): serial, swapping and concurrent execution.
  \<^item> BackendManager (\<^verbatim>\<open>server/core/backend_manager.py\<close>): start, reload with drain and rollback.
  \<^item> WorkerIO (\<^verbatim>\<open>server/core/worker_io.py\<close>): requests multiplexed over the pipes of one worker.
  \<^item> GpuWatchdog (\<^verbatim>\<open>server/core/gpu_watchdog.py\<close>): probes of the accelerator and the hysteresis of the
    cached health, which is shown to be a function of the history of probes.
  \<^item> ApiAuth (\<^verbatim>\<open>server/core/api_auth.py\<close>, \<^verbatim>\<open>admin_auth.py\<close>): keys, bearer tokens, rejections.

  Speech and text streams.
  \<^item> TextBuffers (\<open>SentenceBuffer\<close>, \<open>LowLatencyTTSBuffer\<close> of \<^verbatim>\<open>server/core/v2v.py\<close>, \<open>ClauseBuffer\<close> of
    \<^verbatim>\<open>services/wyoming-adapter/wyoming_slv/clause.py\<close>): three instances of the locale \<open>chunker\<close>, which
    gives conservation of the text for any way it is cut into deltas.
  \<^item> AsrSegmenter (\<^verbatim>\<open>server/core/asr_segmenter.py\<close>): how a long recording is cut, and its text joined.
  \<^item> SegmentCommitter (\<^verbatim>\<open>agent/ovs_agent/streaming_translate/committer.py\<close>): what of a growing
    hypothesis is final.
  \<^item> RealtimeEvents (\<open>session_update_to_legacy_config\<close>, \<open>RealtimeV2EventAdapter\<close> of
    \<^verbatim>\<open>server/core/v2v.py\<close>): the event protocol of the realtime endpoint as an automaton.
  \<^item> RealtimeProvider (\<^verbatim>\<open>server/core/realtime_provider.py\<close>, \<^verbatim>\<open>realtime_relay.py\<close>): adapters for cloud
    providers and the audio framing of the relay.
  \<^item> RealtimeProxy (\<open>_RealtimeV2WebSocketProxy\<close> of \<^verbatim>\<open>server/main.py\<close>): the frames of a realtime client
    turned into those of the speech engine and back, over the adapter of RealtimeEvents.
  \<^item> VoiceRegistry (\<^verbatim>\<open>server/core/tts_speakers.py\<close>): the voices of each speech model in three layers
    (presets, file, environment) behind a cache, lookup, registration and removal. VoiceTables: the cache
    never shows, and a registered voice is found again; three lemmas of VoiceRegistry show where the
    layers get in each other's way. Base64: a strict decoder, with which witnesses are evaluated.
  \<^item> VoiceFiles, VoiceTxn, VoiceProfiles (\<^verbatim>\<open>server/core/sparktts_voices.py\<close>): the pairs of files of cloned
    voices. An operation is the list of its file system instructions, a crash a prefix of it; an invariant
    over all prefixes gives atomicity of writes and deletes under crashes of the operation and of its
    recoveries. Four lemmas of VoiceProfiles show what the journal does not protect against.
  \<^item> SpeechErrors, SpeechRequests (\<open>_native_error_response\<close>, the \<open>_v1_\<close> checks of \<^verbatim>\<open>server/main.py\<close> and
    \<^verbatim>\<open>server/core/api_execution.py\<close>): what a versioned request must satisfy, and what a client sees of a
    failure. WavReference (\<open>_v1_parse_moss_reference_wav\<close>): the RIFF parser, and the files it accepts.
  \<^item> TtsStream (\<open>tts_stream\<close>, \<open>_v1_clone_stream_impl\<close>, \<open>_run_tts_stream_cleanup\<close> of \<^verbatim>\<open>server/main.py\<close>): worker
    threads, the owner that drains their queues, the disconnect watcher and the cleanup as one machine of
    interleaved steps; its two invariants give the safety of the leases and the order of the audio.
    StreamOpening: how the leases are taken, and what every failure gives back.

  The agent.
  \<^item> VadGate (\<^verbatim>\<open>agent/ovs_agent/audio/vad_gate.py\<close>): captured audio cut into utterances with a pre-roll.
  \<^item> AgentText, AgentConv (\<^verbatim>\<open>agent/ovs_agent/app_base.py\<close>): the conversation state with its timers,
    watchdogs and tasks. Each handler is a function on the state that appends what it does to a trace;
    a timer is armed or not and fires at any time. AgentConvProps: a waiting turn is guarded, barge-in,
    sleep and the end of speech; six closed runs show the ways around. AgentMic: the microphone pump
    beside that machine, and that only audio captured awake leaves the device.
  \<^item> ActionsStore (\<^verbatim>\<open>agent/ovs_agent/actuators/actions.py\<close>): the robot's actions in memory and in a file,
    validation, loading, saving and entity tags; the memory is always what the file says.
  \<^item> AgentSession (\<^verbatim>\<open>agent/ovs_agent/session.py\<close>): history, token budget, echo recovery.
  \<^item> ToolLoop (\<^verbatim>\<open>agent/ovs_agent/tools/registry.py\<close>, \<^verbatim>\<open>tools/runner.py\<close>, \<^verbatim>\<open>app_mode.py\<close>): tools, the
    writes of a tool run with their rollback, the dialogue turn, the modes.
  \<^item> LlmAvailability (\<^verbatim>\<open>agent/ovs_agent/plugins/llm_availability.py\<close>): the circuit breaker.
  Conventions. Times and ratios are rational numbers where the code uses floats; Python integers are
  \<open>int\<close> or, where they count, \<open>nat\<close>. Text that a client sends and that the code inspects by code point
  is a list of numbers (\<open>ustr\<close>), names and keys are \<open>string\<close>. What the code calls and does not define
  (backends, tokenizers, sentence splitters, HTTP clients, the turn driver, predicates on characters)
  is a parameter of the definitions, or a record of functions; what is assumed of it is a named
  hypothesis of the property that needs it. No definition uses fuel: loops are structural or carry a
  termination proof, and a loop that ends only by an outside event is a sequence of steps. Log output
  is left out everywhere.

  Not modelled. Sockets, subprocesses, the download of model trees and sound devices are input and output. The
  acoustic models, voice activity detectors and the numeric front ends are third-party runtimes or
  signal processing on floats. The remaining endpoints of \<^verbatim>\<open>server/main.py\<close> glue the components above
  to audio streaming. The applications of the agent (a robot arm, its perception and its kinematics),
  the dashboard, the demonstrations, benchmarks and deployment scripts are outside the running core.
\<close>

section \<open>Properties of a started deployment\<close>

text \<open>A small deployment on which the properties below are applied.\<close>

definition demo_env :: "string \<rightharpoonup> string" where
  "demo_env = [''OVS_MAX_CONCURRENT_SESSIONS'' \<mapsto> ''7'']"

lemma demo_startup: "is_ok (startup demo_vx demo_env demo_profile metrics_init)"
  by code_simp

lemma demo_started:
  obtains l c g where "startup demo_vx demo_env demo_profile metrics_init = Inr (l, c, g)"
  using demo_startup by (elim is_okE) (metis prod_cases3)





text \<open>C19: with the default backlog no admitted session is turned away from the recogniser. As long as
  fewer calls are in the gate than the session limit, which holds when every session has one call at a
  time, the next call is granted a permit or queued, in every reachable state of the gate.\<close>

theorem admitted_sessions_never_rejected:
  assumes "declares_positive vx" and "startup vx osenv p m = Inr (l, c, Some g0)"
    and "osenv ''OVS_ASR_INFER_QUEUE_DEPTH'' = None"
    and "int (unfinished (foldl gate_step g0 es)) < l_limit l"
  shows "g_total_rejected (enter now (foldl gate_step g0 es)) = g_total_rejected (foldl gate_step g0 es)"
proof -
  obtain r where r: "resolve vx osenv osenv p '''' = Inr r" "r_session_ceiling r = Some (l_limit l)"
    using startup_limiter [OF assms(1,2)] by blast
  define conc where "conc = r_asr_infer_concurrency r"
  have d: "r_asr_queue_depth r = Some (max 0 (l_limit l - conc))"
    using default_queue_depth [OF r(1) assms(3) r(2)] by (simp add: conc_def)
  obtain g1 where "Some g0 = Some g1" "new_gate conc (r_asr_queue_depth r) = Inr g1"
    using startup_gate [OF assms(1,2) r(1)] unfolding conc_def .
  then have g0: "new_gate conc (Some (max 0 (l_limit l - conc))) = Inr g0" using d by simp
  let ?g = "foldl gate_step g0 es"
  have c: "int (g_concurrency ?g) = conc" by (rule run_gate_concurrency [OF g0])
  obtain k where k: "g_max_waiting ?g = Some k" "int k = max 0 (l_limit l - conc)"
    using run_gate_max_waiting [OF g0, of es] by auto
  have "unfinished ?g < g_concurrency ?g + k" using c k(2) assms(4) by linarith
  with run_gate_inv [OF g0] k(1) show ?thesis by (rule enter_admits)
qed

theorem admitted_sessions_never_rejected_witness:
  "\<exists>l c g0. startup demo_vx demo_env demo_profile metrics_init = Inr (l, c, Some g0) \<and>
     g_total_rejected (enter 5 g0) = g_total_rejected g0"
proof -
  obtain l c g where s: "startup demo_vx demo_env demo_profile metrics_init = Inr (l, c, g)" by (rule demo_started)
  obtain r where r: "resolve demo_vx demo_env demo_env demo_profile '''' = Inr r"
    "r_session_ceiling r = Some (l_limit l)" using startup_limiter [OF demo_positive s] by blast
  obtain g0 where g0: "g = Some g0" "new_gate (r_asr_infer_concurrency r) (r_asr_queue_depth r) = Inr g0"
    using startup_gate [OF demo_positive s r(1)] .
  have "unfinished g0 = 0" using g0(2) by (auto simp: new_gate_def unfinished_def split: if_splits option.splits)
  moreover have "1 \<le> l_limit l" using session_ceiling_only_downgrades_aux [OF demo_positive r(1)] r(2) by simp
  moreover have "demo_env ''OVS_ASR_INFER_QUEUE_DEPTH'' = None" by (simp add: demo_env_def)
  ultimately have "g_total_rejected (enter 5 (foldl gate_step g0 [])) = g_total_rejected (foldl gate_step g0 [])"
    using admitted_sessions_never_rejected [OF demo_positive, of demo_env demo_profile metrics_init l c g0 "[]" 5]
      s g0(1) by simp
  with s g0(1) show ?thesis by auto
qed



end
